(* ===== verification/Prelude.thy ===== *)
theory Prelude
  imports Complex_Main "HOL-Library.Product_Lexorder"
begin

text \<open>
  Shared vocabulary of the development: Python text as lists of code points, the exception
  classes of the modelled modules, aware and naive datetimes, calendar dates, database tables
  as lists of rows, and the generic machine and latch interfaces (locales) that the components
  interpret.  Nothing here is specific to one component.
\<close>

section \<open>Collections of hints\<close>

named_theorems op_defs \<open>definitions of service operations, unfolded together\<close>
named_theorems table_simps \<open>laws of the list-based database tables\<close>
named_theorems frame_simps \<open>which tables an operation leaves alone\<close>

section \<open>Python text\<close>

text \<open>A \<open>str\<close> is its list of Unicode code points; \<open>lit\<close> writes an ASCII literal.\<close>

type_synonym pystr = "nat list"

definition lit :: "string \<Rightarrow> pystr" where
  "lit s = map of_char s"

text \<open>UTF-8 encoding fails exactly on the surrogate code points.\<close>

definition is_surrogate :: "nat \<Rightarrow> bool" where
  "is_surrogate c \<longleftrightarrow> 55296 \<le> c \<and> c \<le> 57343"

definition utf8_encodable :: "pystr \<Rightarrow> bool" where
  "utf8_encodable s \<longleftrightarrow> list_all (\<lambda>c. \<not> is_surrogate c) s"

text \<open>\<open>str.lower\<close> on the ASCII range.\<close>

definition ascii_lower_char :: "nat \<Rightarrow> nat" where
  "ascii_lower_char c = (if 65 \<le> c \<and> c \<le> 90 then c + 32 else c)"

definition ascii_lower :: "pystr \<Rightarrow> pystr" where
  "ascii_lower s = map ascii_lower_char s"

definition is_ascii :: "pystr \<Rightarrow> bool" where
  "is_ascii s \<longleftrightarrow> list_all (\<lambda>c. c < 128) s"

text \<open>
  \<open>str.lower\<close> as far as it can produce an ASCII character: the Kelvin sign and the dotted capital
  I are the only other characters whose lowercase form contains one.
\<close>

definition lower_char :: "nat \<Rightarrow> pystr" where
  "lower_char c = (if c = 8490 then [107] else if c = 304 then [105, 775] else [ascii_lower_char c])"

definition py_lower :: "pystr \<Rightarrow> pystr" where
  "py_lower s = concat (map lower_char s)"

text \<open>\<open>str.strip()\<close>: the characters with \<open>str.isspace\<close> are dropped from both ends.\<close>

definition is_py_space :: "nat \<Rightarrow> bool" where
  "is_py_space c \<longleftrightarrow>
     (9 \<le> c \<and> c \<le> 13) \<or> (28 \<le> c \<and> c \<le> 32) \<or> c = 133 \<or> c = 160 \<or> c = 5760 \<or>
     (8192 \<le> c \<and> c \<le> 8202) \<or> c = 8232 \<or> c = 8233 \<or> c = 8239 \<or> c = 8287 \<or> c = 12288"

definition py_strip :: "pystr \<Rightarrow> pystr" where
  "py_strip s = rev (dropWhile is_py_space (rev (dropWhile is_py_space s)))"

lemma set_py_strip: "set (py_strip s) \<subseteq> set s"
  unfolding py_strip_def by (auto dest!: set_dropWhileD)

text \<open>
  \<open>bytes.fromhex\<close>: pairs of hexadecimal digits, with ASCII white space skipped between the
  pairs; anything else is a \<open>ValueError\<close> (\<open>None\<close>).
\<close>

definition is_space_char :: "nat \<Rightarrow> bool" where
  "is_space_char c \<longleftrightarrow> (9 \<le> c \<and> c \<le> 13) \<or> c = 32"

definition hex_value :: "nat \<Rightarrow> nat option" where
  "hex_value c =
     (if 48 \<le> c \<and> c \<le> 57 then Some (c - 48)
      else if 65 \<le> c \<and> c \<le> 70 then Some (c - 55)
      else if 97 \<le> c \<and> c \<le> 102 then Some (c - 87)
      else None)"

fun bytes_fromhex :: "pystr \<Rightarrow> nat list option" where
  "bytes_fromhex [] = Some []"
| "bytes_fromhex [c] = (if is_space_char c then Some [] else None)"
| "bytes_fromhex (c # d # cs) =
     (if is_space_char c then bytes_fromhex (d # cs)
      else case (hex_value c, hex_value d) of
        (Some hi, Some lo) \<Rightarrow> map_option (\<lambda>bs. (16 * hi + lo) # bs) (bytes_fromhex cs)
      | _ \<Rightarrow> None)"

lemma hex_value_ascii: "hex_value c = Some v \<Longrightarrow> c < 128"
  by (auto simp: hex_value_def split: if_splits)

lemma is_space_ascii: "is_space_char c \<Longrightarrow> c < 128"
  by (auto simp: is_space_char_def)

lemma bytes_fromhex_ascii: "bytes_fromhex s = Some bs \<Longrightarrow> is_ascii s"
  by (induction s arbitrary: bs rule: bytes_fromhex.induct)
    (auto simp: is_ascii_def hex_value_ascii is_space_ascii split: if_splits option.splits)

lemma length_ascii_lower [simp]: "length (ascii_lower s) = length s"
  by (simp add: ascii_lower_def)

lemma ascii_lower_char_idem [simp]: "ascii_lower_char (ascii_lower_char c) = ascii_lower_char c"
  by (simp add: ascii_lower_char_def)

lemma ascii_lower_idem [simp]: "ascii_lower (ascii_lower s) = ascii_lower s"
  by (simp add: ascii_lower_def)

section \<open>Insertion order\<close>

text \<open>The keys of a \<open>dict\<close> or \<open>Counter\<close> filled from a list.\<close>

definition first_seen :: "'a list \<Rightarrow> 'a list" where
  "first_seen xs = rev (remdups (rev xs))"

lemma set_first_seen [simp]: "set (first_seen xs) = set xs"
  by (simp add: first_seen_def)

lemma distinct_first_seen [simp]: "distinct (first_seen xs)"
  by (simp add: first_seen_def)

section \<open>Exceptions\<close>

text \<open>
  One constructor per exception class that a modelled module raises or handles.  Messages are
  left out: no modelled handler reads one, except where an exception carries a reason.
\<close>

datatype stop_reason =
    ApprovalInactive | PerRunRequestCap | DailyRequestCap | DailyCostCap | MonthlyCostCap
  | Repeated403 | Repeated429 | SchemaDrift | ManualStop

datatype denied_reason =
    NotArmed | NotActiveYet | DeniedExpired | BindingMismatch | AlreadyTerminal

datatype error =
    ValueError
  | AssertionError
  | IntegrityError
  | AcquisitionStopped stop_reason
  | AcquisitionDeferred
  | DuplicateRequestPermit
  | FirstRequestSlotError
  | FirstRequestAlreadyClaimed
  | FirstRequestSlotBinding
  | LiveExecutionJournalError
  | LiveExecutionBinding
  | LiveExecutionTransition
  | LiveExecutionAlreadyClaimed
  | JournalBoundAttempt
  | LiveSlotReconciliation
  | RuntimeSessionLeaseError
  | RuntimeSessionError
  | SessionCapabilityError
  | ConfirmationGateError
  | CapabilityUnavailable
  | LiveCapabilityUnavailable
  | RealRequestDenied denied_reason
  | LiveReadinessError
  | ExternalTransportError
  | DurableExternalSenderError
  | PublicGateError
  | ParserRegistryError
  | RateLimitCapacity
  | ConsumerAuthentication
  | SnapshotConflict
  | JobError pystr
  | InvalidCursor
  | HttpException int pystr
  | OsError
  | OtherError

text \<open>The class hierarchies that \<open>except\<close> clauses match on.\<close>

fun is_slot_error :: "error \<Rightarrow> bool" where
  "is_slot_error FirstRequestSlotError = True"
| "is_slot_error FirstRequestAlreadyClaimed = True"
| "is_slot_error FirstRequestSlotBinding = True"
| "is_slot_error _ = False"

fun is_journal_error :: "error \<Rightarrow> bool" where
  "is_journal_error LiveExecutionJournalError = True"
| "is_journal_error LiveExecutionBinding = True"
| "is_journal_error LiveExecutionTransition = True"
| "is_journal_error LiveExecutionAlreadyClaimed = True"
| "is_journal_error _ = False"

section \<open>Results\<close>

definition bindr :: "'e + 'a \<Rightarrow> ('a \<Rightarrow> 'e + 'b) \<Rightarrow> 'e + 'b" where
  "bindr r f = (case r of Inl e \<Rightarrow> Inl e | Inr x \<Rightarrow> f x)"

lemma bindr_simps [simp]: "bindr (Inl e) f = Inl e" "bindr (Inr x) f = f x"
  by (simp_all add: bindr_def)

lemma bindr_Inr: "bindr r f = Inr y \<longleftrightarrow> (\<exists>x. r = Inr x \<and> f x = Inr y)"
  by (cases r) simp_all

definition is_ok :: "'e + 'a \<Rightarrow> bool" where
  "is_ok r \<longleftrightarrow> (case r of Inl _ \<Rightarrow> False | Inr _ \<Rightarrow> True)"

lemma is_ok_simps [simp]: "\<not> is_ok (Inl e)" "is_ok (Inr x)"
  by (simp_all add: is_ok_def)

lemma is_ok_Inr: "is_ok r \<longleftrightarrow> (\<exists>x. r = Inr x)"
  by (cases r) simp_all

section \<open>Datetimes and dates\<close>

text \<open>
  A \<open>datetime\<close> is its wall-clock reading in microseconds and its \<open>tzinfo\<close>: absent, present
  with no offset, or present with an offset.  \<open>aware_utc\<close> is the guard
  \<open>value.tzinfo is None or value.utcoffset() is None\<close> followed by \<open>astimezone(UTC)\<close>; an
  instant is a count of UTC microseconds.
\<close>

datatype tzinfo = NoTz | TzNoOffset | TzOffset int

record pydatetime =
  wall :: int
  tz :: tzinfo

type_synonym instant = int

definition utc :: "instant \<Rightarrow> pydatetime" where
  "utc t = \<lparr>wall = t, tz = TzOffset 0\<rparr>"

definition aware_utc :: "pydatetime \<Rightarrow> error + instant" where
  "aware_utc v =
     (case tz v of
        NoTz \<Rightarrow> Inl ValueError
      | TzNoOffset \<Rightarrow> Inl ValueError
      | TzOffset off \<Rightarrow> Inr (wall v - off))"

lemma aware_utc_utc [simp]: "aware_utc (utc t) = Inr t"
  by (simp add: aware_utc_def utc_def)

lemma aware_utc_Inl: "aware_utc v = Inl e \<Longrightarrow> e = ValueError"
  by (auto simp: aware_utc_def split: tzinfo.splits)

definition seconds :: "int \<Rightarrow> int" where
  "seconds n = n * 1000000"

definition minutes :: "int \<Rightarrow> int" where
  "minutes n = seconds (60 * n)"

definition days :: "int \<Rightarrow> int" where
  "days n = seconds (86400 * n)"

lemmas duration_defs = seconds_def minutes_def days_def

text \<open>A \<open>datetime.date\<close>, ordered by year, month and day.\<close>

datatype date = Date (year: int) (month: int) (day: int)

definition date_key :: "date \<Rightarrow> int \<times> int \<times> int" where
  "date_key d = (year d, month d, day d)"

lemma date_key_inject: "date_key a = date_key b \<longleftrightarrow> a = b"
  by (cases a; cases b) (simp add: date_key_def)

instantiation date :: linorder
begin

definition less_eq_date :: "date \<Rightarrow> date \<Rightarrow> bool" where
  "less_eq_date a b \<longleftrightarrow> date_key a \<le> date_key b"

definition less_date :: "date \<Rightarrow> date \<Rightarrow> bool" where
  "less_date a b \<longleftrightarrow> date_key a < date_key b"

instance
proof
  fix x y z :: date
  show "(x < y) = (x \<le> y \<and> \<not> y \<le> x)" by (simp add: less_date_def less_eq_date_def less_le_not_le)
  show "x \<le> x" by (simp add: less_eq_date_def)
  show "x \<le> y \<Longrightarrow> y \<le> z \<Longrightarrow> x \<le> z" unfolding less_eq_date_def by (rule order_trans)
  show "x \<le> y \<Longrightarrow> y \<le> x \<Longrightarrow> x = y" unfolding less_eq_date_def date_key_inject [symmetric] by (rule order_antisym)
  show "x \<le> y \<or> y \<le> x" unfolding less_eq_date_def by (rule linear)
qed

end

lemma date_order_simps [simp]:
  "Date y m d \<le> Date y' m' d' \<longleftrightarrow>
     y < y' \<or> (y = y' \<and> (m < m' \<or> (m = m' \<and> d \<le> d')))"
  "Date y m d < Date y' m' d' \<longleftrightarrow>
     y < y' \<or> (y = y' \<and> (m < m' \<or> (m = m' \<and> d < d')))"
  by (auto simp: less_eq_date_def less_date_def date_key_def)

text \<open>
  The calendar date of a UTC instant: days since the epoch, then the proleptic Gregorian
  calendar in eras of 400 years that start on the first of March.  An era is four centuries,
  a century is groups of four years, and the leap day closes a group, a century or an era.
\<close>

definition civil_year_day :: "int \<Rightarrow> int \<times> int" where
  "civil_year_day doe =
     (let c = min 3 (doe div 36524); doc = doe - 36524 * c;
          q = doc div 1461; doq = doc - 1461 * q;
          a = min 3 (doq div 365)
      in (100 * c + 4 * q + a, doq - 365 * a))"

definition civil_month_day :: "int \<Rightarrow> int \<times> int" where
  "civil_month_day doy =
     (let mp = (5 * doy + 2) div 153
      in (if mp < 10 then mp + 3 else mp - 9, doy - (153 * mp + 2) div 5 + 1))"

definition civil_from_days :: "int \<Rightarrow> date" where
  "civil_from_days n =
     (let z = n + 719468;
          (yoe, doy) = civil_year_day (z mod 146097);
          (m, d) = civil_month_day doy
      in Date (yoe + (z div 146097) * 400 + (if m \<le> 2 then 1 else 0)) m d)"

definition utc_date :: "instant \<Rightarrow> date" where
  "utc_date t = civil_from_days (t div days 1)"

lemmas calendar_defs =
  utc_date_def civil_from_days_def civil_year_day_def civil_month_day_def duration_defs

lemma utc_date_examples:
  "utc_date 0 = Date 1970 1 1"
  "utc_date (days 19782) = Date 2024 2 29"
  "utc_date (days 19783 - 1) = Date 2024 2 29"
  "utc_date (- 1) = Date 1969 12 31"
  by code_simp+

lemma utc_date_first_day:
  assumes "0 \<le> t" and "t < days 1" shows "utc_date t = Date 1970 1 1"
proof -
  have "t div days 1 = 0" using assms by (simp add: duration_defs)
  moreover have "civil_from_days 0 = Date 1970 1 1" by code_simp
  ultimately show ?thesis by (simp add: utc_date_def)
qed

text \<open>A date that names a day of a month; every UTC instant falls on one.\<close>

definition date_valid :: "date \<Rightarrow> bool" where
  "date_valid d \<longleftrightarrow> 1 \<le> month d \<and> month d \<le> 12 \<and> 1 \<le> day d"

lemma civil_year_day_range:
  assumes "civil_year_day doe = (yoe, doy)" and "0 \<le> doe" and "doe < 146097"
  shows "0 \<le> doy \<and> doy \<le> 365"
proof -
  define c where "c = min 3 (doe div 36524)"
  define doc where "doc = doe - 36524 * c"
  define doq where "doq = doc - 1461 * (doc div 1461)"
  have doq: "0 \<le> doq" "doq < 1461"
    unfolding doq_def using mult_div_mod_eq [of 1461 doc] pos_mod_sign [of 1461 doc]
      pos_mod_bound [of 1461 doc] by linarith+
  have "0 \<le> doq - 365 * min 3 (doq div 365) \<and> doq - 365 * min 3 (doq div 365) \<le> 365"
    using doq mult_div_mod_eq [of 365 doq] pos_mod_sign [of 365 doq] pos_mod_bound [of 365 doq]
    unfolding min_def by (cases "3 \<le> doq div 365") auto
  moreover have "doy = doq - 365 * min 3 (doq div 365)"
    using assms(1) by (simp add: civil_year_day_def Let_def c_def doc_def doq_def)
  ultimately show ?thesis by simp
qed

lemma civil_month_day_range:
  assumes "civil_month_day doy = (m, d)" and "0 \<le> doy" and "doy \<le> 365"
  shows "1 \<le> m \<and> m \<le> 12 \<and> 1 \<le> d"
proof -
  define mp where "mp = (5 * doy + 2) div 153"
  have "(0 + 2) div 153 \<le> mp \<and> mp \<le> (5 * 365 + 2) div 153"
    using assms(2,3) unfolding mp_def by (intro conjI zdiv_mono1) simp_all
  then have mp: "0 \<le> mp \<and> mp \<le> 11" by simp
  have "153 * mp \<le> 5 * doy + 2"
    unfolding mp_def using mult_div_mod_eq [of 153 "5 * doy + 2"] pos_mod_sign [of 153 "5 * doy + 2"]
    by linarith
  then have "(153 * mp + 2) div 5 \<le> (5 * doy + 4) div 5" by (intro zdiv_mono1) simp_all
  also have "(5 * doy + 4) div 5 = doy" by simp
  finally have "(153 * mp + 2) div 5 \<le> doy" .
  with mp assms(1) show ?thesis by (auto simp: civil_month_day_def Let_def mp_def split: if_splits)
qed

lemma utc_date_valid: "date_valid (utc_date t)"
proof -
  define z where "z = t div days 1 + 719468"
  obtain yoe doy where yd: "civil_year_day (z mod 146097) = (yoe, doy)" by fastforce
  obtain m d where md: "civil_month_day doy = (m, d)" by fastforce
  have "0 \<le> doy \<and> doy \<le> 365" using yd by (rule civil_year_day_range) simp_all
  then have "1 \<le> m \<and> m \<le> 12 \<and> 1 \<le> d" using md by (intro civil_month_day_range) auto
  with yd md show ?thesis
    by (simp add: utc_date_def civil_from_days_def date_valid_def z_def)
qed

section \<open>Tables\<close>

text \<open>
  A table is the list of its rows, in insertion order, each with an integer primary key.
  \<open>row_get\<close> is a lookup by key, \<open>row_update\<close> rewrites the row with a key, and
  \<open>fresh_key\<close> is the key the next insertion gets.
\<close>

definition row_get :: "('r \<Rightarrow> int) \<Rightarrow> int \<Rightarrow> 'r list \<Rightarrow> 'r option" where
  "row_get key k rows = find (\<lambda>r. key r = k) rows"

definition row_update :: "('r \<Rightarrow> int) \<Rightarrow> int \<Rightarrow> ('r \<Rightarrow> 'r) \<Rightarrow> 'r list \<Rightarrow> 'r list" where
  "row_update key k f rows = map (\<lambda>r. if key r = k then f r else r) rows"

definition fresh_key :: "('r \<Rightarrow> int) \<Rightarrow> 'r list \<Rightarrow> int" where
  "fresh_key key rows = foldr (\<lambda>r. max (key r)) rows 0 + 1"

definition count_rows :: "('r \<Rightarrow> bool) \<Rightarrow> 'r list \<Rightarrow> int" where
  "count_rows P rows = int (length (filter P rows))"

definition sum_rows :: "('r \<Rightarrow> 'v::comm_monoid_add) \<Rightarrow> 'r list \<Rightarrow> 'v" where
  "sum_rows f rows = sum_list (map f rows)"

lemma find_SomeD: "find P xs = Some x \<Longrightarrow> x \<in> set xs \<and> P x"
  by (auto simp: find_Some_iff)

lemma find_unique:
  "distinct (map k xs) \<Longrightarrow> x \<in> set xs \<Longrightarrow> find (\<lambda>y. k y = k x) xs = Some x"
  by (induction xs) auto

lemma row_get_Some: "row_get key k rows = Some r \<Longrightarrow> r \<in> set rows \<and> key r = k"
  by (auto simp: row_get_def find_Some_iff)

lemma row_get_None: "row_get key k rows = None \<longleftrightarrow> k \<notin> key ` set rows"
  by (auto simp: row_get_def find_None_iff)

lemma row_get_unique:
  "distinct (map key rows) \<Longrightarrow> r \<in> set rows \<Longrightarrow> row_get key (key r) rows = Some r"
  by (induction rows) (auto simp: row_get_def)

lemma row_get_Cons:
  "row_get key k (r # rows) = (if key r = k then Some r else row_get key k rows)"
  by (simp add: row_get_def)

lemma row_get_append [table_simps]:
  "row_get key k (rows @ rows') =
     (case row_get key k rows of Some r \<Rightarrow> Some r | None \<Rightarrow> row_get key k rows')"
  by (induction rows) (auto simp: row_get_def)

lemma set_row_update:
  "r' \<in> set (row_update key k f rows) \<longleftrightarrow>
     (\<exists>r \<in> set rows. r' = (if key r = k then f r else r))"
  unfolding row_update_def set_map image_iff ..

lemma row_update_Cons:
  "row_update key k f (r # rows) = (if key r = k then f r else r) # row_update key k f rows"
  by (simp add: row_update_def)

lemma row_update_Nil [simp]: "row_update key k f [] = []"
  by (simp add: row_update_def)

lemma length_row_update [simp]: "length (row_update key k f rows) = length rows"
  by (simp add: row_update_def)

lemma map_row_update_same [table_simps]:
  "(\<And>r. g (f r) = g r) \<Longrightarrow> map g (row_update key k f rows) = map g rows"
  by (induction rows) (auto simp: row_update_def)

lemma map_row_update_on:
  "(\<And>r. r \<in> set rows \<Longrightarrow> key r = k \<Longrightarrow> g (f r) = g r) \<Longrightarrow>
   map g (row_update key k f rows) = map g rows"
  by (induction rows) (auto simp: row_update_def)

lemma row_update_absent [table_simps]:
  "k \<notin> key ` set rows \<Longrightarrow> row_update key k f rows = rows"
  by (induction rows) (auto simp: row_update_def)

lemma row_get_update [table_simps]:
  "(\<And>r. key (f r) = key r) \<Longrightarrow>
   row_get key k (row_update key k' f rows) =
     (if k = k' then map_option f (row_get key k rows) else row_get key k rows)"
  by (induction rows) (auto simp: row_get_def row_update_def)

lemma foldr_max_ge: "r \<in> set rows \<Longrightarrow> key r \<le> foldr (\<lambda>r. max (key r)) rows (0::int)"
  by (induction rows) (auto simp: max_def)

lemma foldr_max_nonneg: "(0::int) \<le> foldr (\<lambda>r. max (key r)) rows 0"
  by (induction rows) (auto simp: max_def)

lemma fresh_key_pos: "1 \<le> fresh_key key rows"
  using foldr_max_nonneg [of key rows] by (simp add: fresh_key_def)

lemma fresh_key_notin: "fresh_key key rows \<notin> key ` set rows"
  using foldr_max_ge [of _ rows key] by (force simp: fresh_key_def)

lemma fresh_key_get [simp]: "row_get key (fresh_key key rows) rows = None"
  using fresh_key_notin [of key rows] by (simp add: row_get_None)

lemma count_rows_simps [simp]:
  "count_rows P [] = 0"
  "count_rows P (r # rows) = (if P r then 1 else 0) + count_rows P rows"
  "count_rows P (rows @ rows') = count_rows P rows + count_rows P rows'"
  by (simp_all add: count_rows_def)

lemma count_rows_nonneg [simp]: "0 \<le> count_rows P rows"
  by (simp add: count_rows_def)

lemma count_rows_cong:
  "(\<And>r. r \<in> set rows \<Longrightarrow> P r = Q r) \<Longrightarrow> count_rows P rows = count_rows Q rows"
  by (simp add: count_rows_def cong: filter_cong)

lemma count_rows_eq_0: "count_rows P rows = 0 \<longleftrightarrow> (\<forall>r \<in> set rows. \<not> P r)"
  by (auto simp: count_rows_def filter_empty_conv)

lemma sum_rows_simps [simp]:
  "sum_rows f [] = 0"
  "sum_rows f (r # rows) = f r + sum_rows f rows"
  "sum_rows f (rows @ rows') = sum_rows f rows + sum_rows f rows'"
  by (simp_all add: sum_rows_def)

text \<open>
  Rewriting the one row with key \<open>k\<close> changes a count, or a sum, by that row's share only.
\<close>

lemma sum_rows_update:
  fixes g :: "'r \<Rightarrow> 'v::ab_group_add"
  assumes "distinct (map key rows)" and "row_get key k rows = Some r"
  shows "sum_rows g (row_update key k f rows) = sum_rows g rows - g r + g (f r)"
  using assms
proof (induction rows)
  case Nil
  then show ?case by (simp add: row_get_def)
next
  case (Cons x xs)
  show ?case
  proof (cases "key x = k")
    case True
    with Cons.prems have "x = r" and "k \<notin> key ` set xs"
      by (auto simp: row_get_Cons)
    with True show ?thesis by (simp add: row_update_Cons row_update_absent)
  next
    case False
    with Cons show ?thesis by (simp add: row_update_Cons row_get_Cons algebra_simps)
  qed
qed

lemma count_rows_sum: "count_rows P rows = sum_rows (\<lambda>r. if P r then 1 else 0) rows"
  by (induction rows) simp_all

lemma count_rows_update:
  assumes "distinct (map key rows)" and "row_get key k rows = Some r"
  shows "count_rows P (row_update key k f rows) =
    count_rows P rows - (if P r then 1 else 0) + (if P (f r) then 1 else 0)"
  unfolding count_rows_sum by (rule sum_rows_update [OF assms])

lemma sum_rows_update_same:
  "(\<And>r. g (f r) = g r) \<Longrightarrow> sum_rows g (row_update key k f rows) = sum_rows g rows"
  by (induction rows) (simp_all add: row_update_Cons)

lemma count_rows_update_same:
  "(\<And>r. P (f r) = P r) \<Longrightarrow> count_rows P (row_update key k f rows) = count_rows P rows"
  by (induction rows) (simp_all add: row_update_Cons)

text \<open>Rows with distinct keys: a key names one row, and an update touches that row only.\<close>

lemma row_key_eq:
  "distinct (map key rows) \<Longrightarrow> r \<in> set rows \<Longrightarrow> r' \<in> set rows \<Longrightarrow> key r = key r' \<Longrightarrow> r = r'"
  by (auto simp: distinct_map inj_on_def)

lemma ball_row_update:
  assumes "\<And>r. r \<in> set rows \<Longrightarrow> key r \<noteq> k \<Longrightarrow> Q r" and "\<And>r. r \<in> set rows \<Longrightarrow> key r = k \<Longrightarrow> Q (f r)"
  shows "\<forall>r \<in> set (row_update key k f rows). Q r"
  using assms by (auto simp: set_row_update)

lemma bex_row_update:
  assumes "\<exists>r \<in> set rows. Q r" and "\<And>r. r \<in> set rows \<Longrightarrow> key r = k \<Longrightarrow> Q r \<Longrightarrow> Q (f r)"
  shows "\<exists>r \<in> set (row_update key k f rows). Q r"
proof -
  obtain r where "r \<in> set rows" "Q r" using assms(1) by blast
  with assms(2) show ?thesis
    by (intro bexI [of _ "if key r = k then f r else r"]) (auto simp: row_update_def)
qed

lemma row_update_const:
  assumes "distinct (map key rows)" and "r \<in> set rows"
  shows "row_update key (key r) (\<lambda>_. f r) rows = row_update key (key r) f rows"
  using assms by (auto simp: row_update_def dest: row_key_eq)

lemma map_row_update_one:
  assumes "distinct (map key rows)" and "r \<in> set rows" and "g r' = g r"
  shows "map g (row_update key (key r) (\<lambda>_. r') rows) = map g rows"
  using assms by (intro map_row_update_on) (auto dest: row_key_eq)

section \<open>Generic machines\<close>

text \<open>Running a machine over a list of events, and counting the calls that report success.\<close>

fun run_machine :: "('s \<Rightarrow> 'e \<Rightarrow> 's) \<Rightarrow> 's \<Rightarrow> 'e list \<Rightarrow> 's" where
  "run_machine step s [] = s"
| "run_machine step s (e # es) = run_machine step (step s e) es"

lemma run_machine_append: "run_machine step s (xs @ ys) = run_machine step (run_machine step s xs) ys"
  by (induction xs arbitrary: s) simp_all

fun successes :: "('s \<Rightarrow> 'e \<Rightarrow> 's \<times> bool) \<Rightarrow> 's \<Rightarrow> 'e list \<Rightarrow> nat" where
  "successes step s [] = 0"
| "successes step s (e # es) =
     (if snd (step s e) then 1 else 0) + successes step (fst (step s e)) es"

text \<open>
  The contract of a component whose every operation keeps an invariant, for the events its
  environment may send (\<open>ok\<close>): what holds of one step holds of every run.
\<close>

locale invariant_machine =
  fixes step :: "'s \<Rightarrow> 'e \<Rightarrow> 's" and ok :: "'e \<Rightarrow> bool" and inv :: "'s \<Rightarrow> bool"
  assumes step_inv: "ok e \<Longrightarrow> inv s \<Longrightarrow> inv (step s e)"
begin

lemma run_inv: "list_all ok es \<Longrightarrow> inv s \<Longrightarrow> inv (run_machine step s es)"
  by (induction es arbitrary: s) (auto intro: step_inv)

end

text \<open>
  The contract of a one-shot latch: an operation may succeed only while the latch is live,
  a success kills it, and a dead latch stays dead.  Whatever the calls are and in whatever
  order they come, at most one of them succeeds.
\<close>

locale one_shot = invariant_machine "\<lambda>s e. fst (step s e)" ok inv
  for step :: "'s \<Rightarrow> 'e \<Rightarrow> 's \<times> bool" and ok :: "'e \<Rightarrow> bool" and inv :: "'s \<Rightarrow> bool" +
  fixes live :: "'s \<Rightarrow> bool"
  assumes success_live: "ok e \<Longrightarrow> inv s \<Longrightarrow> snd (step s e) \<Longrightarrow> live s"
    and success_kills: "ok e \<Longrightarrow> inv s \<Longrightarrow> snd (step s e) \<Longrightarrow> \<not> live (fst (step s e))"
    and dead_stays: "ok e \<Longrightarrow> inv s \<Longrightarrow> \<not> live s \<Longrightarrow> \<not> live (fst (step s e))"
begin

lemma dead_no_success:
  "list_all ok es \<Longrightarrow> inv s \<Longrightarrow> \<not> live s \<Longrightarrow> successes step s es = 0"
proof (induction es arbitrary: s)
  case Nil
  then show ?case by simp
next
  case (Cons e es)
  then have "\<not> snd (step s e)" using success_live by auto
  moreover from Cons have "successes step (fst (step s e)) es = 0"
    using step_inv dead_stays by simp
  ultimately show ?case by simp
qed

lemma at_most_one_success: "list_all ok es \<Longrightarrow> inv s \<Longrightarrow> successes step s es \<le> 1"
proof (induction es arbitrary: s)
  case Nil
  then show ?case by simp
next
  case (Cons e es)
  then have ok: "ok e" "list_all ok es" by simp_all
  have inv': "inv (fst (step s e))" using ok(1) Cons.prems(2) by (rule step_inv)
  show ?case
  proof (cases "snd (step s e)")
    case True
    with ok Cons.prems have "\<not> live (fst (step s e))" by (intro success_kills)
    with ok inv' have "successes step (fst (step s e)) es = 0" by (intro dead_no_success)
    with True show ?thesis by simp
  next
    case False
    with Cons.IH [OF ok(2) inv'] show ?thesis by simp
  qed
qed

end

text \<open>The environment of a component that accepts every event.\<close>

definition any_event :: "'e \<Rightarrow> bool" where
  "any_event e \<longleftrightarrow> True"

lemma any_event_simps [simp]: "any_event e" "list_all any_event es"
  by (simp_all add: any_event_def list_all_iff)

end
