(* ===== verification/G0.thy ===== *)
theory G0
  imports Prelude
begin

text \<open>
  The G0 approval of \<open>src/pixiv_yuri/governance/g0.py\<close>: the pydantic models as records,
  their field bounds and validators as predicates (a model object exists exactly when its
  predicate holds), and the activity check of \<open>load_active_g0_approval\<close>.  A set-valued
  field is the list of its elements.
\<close>

datatype stop_condition =
    CondRepeated403 | CondRepeated429 | CondSchemaDrift | CondDailyRequestCap
  | CondDailyCostCap | CondMonthlyCostCap | CondComplaint | CondIncidentOwner
  | CondOther pystr

definition required_stop_conditions :: "stop_condition list" where
  "required_stop_conditions =
     [CondRepeated403, CondRepeated429, CondSchemaDrift, CondDailyRequestCap,
      CondDailyCostCap, CondMonthlyCostCap, CondComplaint, CondIncidentOwner]"

datatype page_type = PublicWork | PublicAuthor | PublicTag
datatype access_method = BrowserCurrentWork | PixivAppApi
datatype authentication_mode = AuthNone | UserManagedSession
datatype visibility = UnauthenticatedPublic | AuthenticatedPublic
datatype age_rating = AllAges | R18 | R18G

record source_scope =
  page_types :: "page_type list"
  access_methods :: "access_method list"
  allowed_fields :: "pystr list"
  prohibited_fields :: "pystr list"
  authentication_mode :: authentication_mode
  content_visibility :: visibility
  allowed_age_ratings :: "age_rating list"
  password_collection_allowed :: bool
  secret_persistence_allowed :: bool
  secret_logging_allowed :: bool
  private_content_allowed :: bool
  deleted_content_allowed :: bool
  access_control_bypass_allowed :: bool
  media_storage_allowed :: bool

definition source_scope_valid :: "source_scope \<Rightarrow> bool" where
  "source_scope_valid s \<longleftrightarrow>
     page_types s \<noteq> [] \<and> access_methods s \<noteq> [] \<and> allowed_fields s \<noteq> [] \<and>
     prohibited_fields s \<noteq> [] \<and> allowed_age_ratings s \<noteq> [] \<and>
     \<not> password_collection_allowed s \<and> \<not> secret_persistence_allowed s \<and>
     \<not> secret_logging_allowed s \<and> \<not> private_content_allowed s \<and>
     \<not> deleted_content_allowed s \<and> \<not> access_control_bypass_allowed s \<and>
     \<not> media_storage_allowed s \<and>
     \<not> list_ex (\<lambda>f. f \<in> set (prohibited_fields s)) (allowed_fields s) \<and>
     (authentication_mode s = UserManagedSession) = (content_visibility s = AuthenticatedPublic) \<and>
     (list_ex (\<lambda>r. r = R18 \<or> r = R18G) (allowed_age_ratings s) \<longrightarrow>
        authentication_mode s = UserManagedSession)"

record traffic_limits =
  requests_per_minute :: int
  concurrency :: int
  daily_request_cap :: int
  per_run_request_cap :: int
  request_timeout_seconds :: int

definition traffic_limits_valid :: "traffic_limits \<Rightarrow> bool" where
  "traffic_limits_valid t \<longleftrightarrow>
     1 \<le> requests_per_minute t \<and> requests_per_minute t \<le> 30 \<and>
     1 \<le> concurrency t \<and> concurrency t \<le> 2 \<and>
     1 \<le> daily_request_cap t \<and> daily_request_cap t \<le> 1000 \<and>
     1 \<le> per_run_request_cap t \<and> per_run_request_cap t \<le> 250 \<and>
     1 \<le> request_timeout_seconds t \<and> request_timeout_seconds t \<le> 30 \<and>
     per_run_request_cap t \<le> daily_request_cap t"

datatype currency = CNY | USD

record cost_limits =
  currency :: currency
  daily_cap :: rat
  monthly_cap :: rat

definition cost_limits_valid :: "cost_limits \<Rightarrow> bool" where
  "cost_limits_valid c \<longleftrightarrow>
     0 < daily_cap c \<and> daily_cap c \<le> 50 \<and> 0 < monthly_cap c \<and> monthly_cap c \<le> 500 \<and>
     daily_cap c \<le> monthly_cap c"

datatype publication_mode = PrivateResearch

record retention_policy =
  raw_metadata_days :: int
  audit_metadata_days :: int
  store_raw_payloads_in_database :: bool
  publication_mode :: publication_mode

definition retention_valid :: "retention_policy \<Rightarrow> bool" where
  "retention_valid r \<longleftrightarrow>
     1 \<le> raw_metadata_days r \<and> raw_metadata_days r \<le> 30 \<and>
     30 \<le> audit_metadata_days r \<and> audit_metadata_days r \<le> 3650 \<and>
     \<not> store_raw_payloads_in_database r"

text \<open>The two \<open>Literal\<close> fields \<open>version\<close> and \<open>status\<close> admit one value each and are left out.\<close>

record g0_approval =
  purpose :: pystr
  accountable_owner :: pystr
  approved_by :: pystr
  incident_contact_role :: pystr
  approved_at :: pydatetime
  expires_at :: pydatetime
  terms_reviewed_at :: pydatetime
  terms_reference :: pystr
  source_scope :: source_scope
  traffic_limits :: traffic_limits
  cost_limits :: cost_limits
  retention :: retention_policy
  stop_conditions :: "stop_condition list"

definition length_between :: "nat \<Rightarrow> nat \<Rightarrow> 'a list \<Rightarrow> bool" where
  "length_between lo hi s \<longleftrightarrow> lo \<le> length s \<and> length s \<le> hi"

text \<open>
  The decision window: three aware times, terms reviewed no later than the approval, expiry
  after it and at most 90 days later, and every required stop condition named.
\<close>

definition decision_window_valid :: "g0_approval \<Rightarrow> bool" where
  "decision_window_valid a \<longleftrightarrow>
     (case (aware_utc (approved_at a), aware_utc (expires_at a), aware_utc (terms_reviewed_at a)) of
        (Inr approved, Inr expires, Inr reviewed) \<Rightarrow>
          reviewed \<le> approved \<and> approved < expires \<and> expires - approved \<le> days 90
      | _ \<Rightarrow> False) \<and>
     list_all (\<lambda>c. c \<in> set (stop_conditions a)) required_stop_conditions"

definition g0_valid :: "g0_approval \<Rightarrow> bool" where
  "g0_valid a \<longleftrightarrow>
     length_between 10 500 (purpose a) \<and> length_between 2 100 (accountable_owner a) \<and>
     length_between 2 100 (approved_by a) \<and> length_between 2 100 (incident_contact_role a) \<and>
     length_between 5 500 (terms_reference a) \<and>
     source_scope_valid (source_scope a) \<and> traffic_limits_valid (traffic_limits a) \<and>
     cost_limits_valid (cost_limits a) \<and> retention_valid (retention a) \<and>
     length required_stop_conditions \<le> length (stop_conditions a) \<and>
     decision_window_valid a"

text \<open>
  Aware datetimes compare by instant.  \<open>approval_active\<close> is
  \<open>approval.approved_at <= checked_at < approval.expires_at\<close>.
\<close>

definition instant_of :: "pydatetime \<Rightarrow> instant" where
  "instant_of v = (case aware_utc v of Inl _ \<Rightarrow> wall v | Inr t \<Rightarrow> t)"

definition approval_active :: "g0_approval \<Rightarrow> instant \<Rightarrow> bool" where
  "approval_active a t \<longleftrightarrow> instant_of (approved_at a) \<le> t \<and> t < instant_of (expires_at a)"

definition load_active_g0_approval :: "g0_approval \<Rightarrow> pydatetime \<Rightarrow> error + g0_approval" where
  "load_active_g0_approval a now =
     (if \<not> g0_valid a then Inl ValueError
      else bindr (aware_utc now) (\<lambda>checked_at.
        if checked_at < instant_of (approved_at a) then Inl ValueError
        else if instant_of (expires_at a) \<le> checked_at then Inl ValueError
        else Inr a))"

lemma instant_of_utc [simp]: "instant_of (utc t) = t"
  by (simp add: instant_of_def)

lemma g0_valid_caps:
  assumes "g0_valid a"
  shows "1 \<le> concurrency (traffic_limits a)" "concurrency (traffic_limits a) \<le> 2"
    "1 \<le> per_run_request_cap (traffic_limits a)" "1 \<le> daily_request_cap (traffic_limits a)"
    "1 \<le> requests_per_minute (traffic_limits a)"
    "0 < daily_cap (cost_limits a)" "0 < monthly_cap (cost_limits a)"
    "daily_cap (cost_limits a) \<le> monthly_cap (cost_limits a)"
  using assms by (auto simp: g0_valid_def traffic_limits_valid_def cost_limits_valid_def)

text \<open>The approved window is an interval of at most 90 days.\<close>

lemma g0_valid_window:
  assumes "g0_valid a"
  shows "instant_of (approved_at a) < instant_of (expires_at a)"
    and "instant_of (expires_at a) \<le> instant_of (approved_at a) + days 90"
  using assms
  by (auto simp: g0_valid_def decision_window_valid_def instant_of_def split: sum.splits prod.splits)

lemma load_active_Inr:
  "load_active_g0_approval a now = Inr b \<longleftrightarrow>
     b = a \<and> g0_valid a \<and> (\<exists>t. aware_utc now = Inr t \<and> approval_active a t)"
  by (cases "aware_utc now")
    (auto simp: load_active_g0_approval_def approval_active_def split: if_splits)

text \<open>A small approval used by the witnesses of the development.\<close>

definition sample_scope :: source_scope where
  "sample_scope =
     \<lparr>page_types = [PublicWork], access_methods = [BrowserCurrentWork],
      allowed_fields = [lit ''title''], prohibited_fields = [lit ''body''],
      authentication_mode = UserManagedSession, content_visibility = AuthenticatedPublic,
      allowed_age_ratings = [AllAges, R18],
      password_collection_allowed = False, secret_persistence_allowed = False,
      secret_logging_allowed = False, private_content_allowed = False,
      deleted_content_allowed = False, access_control_bypass_allowed = False,
      media_storage_allowed = False\<rparr>"

definition sample_approval :: g0_approval where
  "sample_approval =
     \<lparr>purpose = lit ''metadata study'', accountable_owner = lit ''owner'',
      approved_by = lit ''owner'', incident_contact_role = lit ''owner'',
      approved_at = utc 0, expires_at = utc (days 30), terms_reviewed_at = utc 0,
      terms_reference = lit ''terms'', source_scope = sample_scope,
      traffic_limits = \<lparr>requests_per_minute = 2, concurrency = 1, daily_request_cap = 3,
        per_run_request_cap = 2, request_timeout_seconds = 10\<rparr>,
      cost_limits = \<lparr>currency = USD, daily_cap = 5, monthly_cap = 20\<rparr>,
      retention = \<lparr>raw_metadata_days = 7, audit_metadata_days = 30,
        store_raw_payloads_in_database = False, publication_mode = PrivateResearch\<rparr>,
      stop_conditions = required_stop_conditions\<rparr>"

lemma sample_approval_valid: "g0_valid sample_approval"
  by (simp add: g0_valid_def sample_approval_def sample_scope_def length_between_def lit_def
      source_scope_valid_def traffic_limits_valid_def cost_limits_valid_def retention_valid_def
      decision_window_valid_def required_stop_conditions_def duration_defs)

end
