(* ===== verification/Safety.thy ===== *)
theory Safety
  imports G0
begin

text \<open>
  The in-memory request budget and circuit breaker of
  \<open>src/pixiv_yuri/acquisition/safety.py\<close>.  Every method runs under the object's lock, so a
  method is one atomic step on the state; it returns its result or its exception together
  with the state it leaves, because a stop is recorded before it is raised.
\<close>

record request_permit =
  rp_sequence :: int
  rp_fingerprint :: pystr
  rp_authorized_at :: instant
  rp_estimated_cost :: rat

record safety_state =
  sc_approval :: g0_approval
  sc_fingerprint :: pystr
  sc_budget_day :: date
  sc_run_requests :: int
  sc_daily_requests :: int
  sc_daily_cost :: rat
  sc_in_flight :: "int set"
  sc_403 :: int
  sc_429 :: int
  sc_stop_reason :: "stop_reason option"

record safety_snapshot =
  sn_fingerprint :: pystr
  sn_budget_day :: date
  sn_run_requests :: int
  sn_daily_requests :: int
  sn_daily_cost :: rat
  sn_in_flight_requests :: int
  sn_403 :: int
  sn_429 :: int
  sn_stopped :: bool
  sn_stop_reason :: "stop_reason option"

text \<open>The constructor; \<open>fpr\<close> is the approval fingerprint, computed by \<open>approval_fingerprint\<close>.\<close>

definition init_safety :: "(g0_approval \<Rightarrow> pystr) \<Rightarrow> g0_approval \<Rightarrow> pydatetime \<Rightarrow> error + safety_state"
  where
  "init_safety fpr approval now = bindr (aware_utc now) (\<lambda>created_at.
     Inr \<lparr>sc_approval = approval, sc_fingerprint = fpr approval,
          sc_budget_day = utc_date created_at, sc_run_requests = 0, sc_daily_requests = 0,
          sc_daily_cost = 0, sc_in_flight = {}, sc_403 = 0, sc_429 = 0,
          sc_stop_reason = None\<rparr>)"

type_synonym 'a safety_result = "(error + 'a) \<times> safety_state"

definition stop_and_raise :: "stop_reason \<Rightarrow> safety_state \<Rightarrow> 'a safety_result" where
  "stop_and_raise r s = (Inl (AcquisitionStopped r), s\<lparr>sc_stop_reason := Some r\<rparr>)"

definition roll_daily_window :: "date \<Rightarrow> safety_state \<Rightarrow> unit safety_result" where
  "roll_daily_window d s =
     (if d = sc_budget_day s then (Inr (), s)
      else if d < sc_budget_day s then stop_and_raise ApprovalInactive s
      else (Inr (), s\<lparr>sc_budget_day := d, sc_daily_requests := 0, sc_daily_cost := 0,
                      sc_403 := 0, sc_429 := 0\<rparr>))"

definition ensure_active_approval :: "instant \<Rightarrow> safety_state \<Rightarrow> unit safety_result" where
  "ensure_active_approval t s =
     (if approval_active (sc_approval s) t then (Inr (), s)
      else stop_and_raise ApprovalInactive s)"

definition raise_if_stopped :: "safety_state \<Rightarrow> unit safety_result" where
  "raise_if_stopped s =
     (case sc_stop_reason s of Some r \<Rightarrow> (Inl (AcquisitionStopped r), s) | None \<Rightarrow> (Inr (), s))"

definition then_safely ::
  "unit safety_result \<Rightarrow> (safety_state \<Rightarrow> 'a safety_result) \<Rightarrow> 'a safety_result" where
  "then_safely r f = (case r of (Inl e, s) \<Rightarrow> (Inl e, s) | (Inr _, s) \<Rightarrow> f s)"

text \<open>The caps and the reservation, the last part of \<open>authorize_request\<close>.\<close>

definition reserve_budget :: "instant \<Rightarrow> rat \<Rightarrow> safety_state \<Rightarrow> request_permit safety_result" where
  "reserve_budget t cost s =
     (let traffic = traffic_limits (sc_approval s);
          projected = sc_daily_cost s + cost;
          n = sc_run_requests s + 1
      in if concurrency traffic \<le> int (card (sc_in_flight s)) then (Inl AcquisitionDeferred, s)
         else if per_run_request_cap traffic \<le> sc_run_requests s
           then stop_and_raise PerRunRequestCap s
         else if daily_request_cap traffic \<le> sc_daily_requests s
           then stop_and_raise DailyRequestCap s
         else if daily_cap (cost_limits (sc_approval s)) < projected
           then stop_and_raise DailyCostCap s
         else (Inr \<lparr>rp_sequence = n, rp_fingerprint = sc_fingerprint s,
                    rp_authorized_at = t, rp_estimated_cost = cost\<rparr>,
               s\<lparr>sc_run_requests := n, sc_daily_requests := sc_daily_requests s + 1,
                 sc_daily_cost := projected, sc_in_flight := insert n (sc_in_flight s)\<rparr>))"

definition authorize_request :: "pydatetime \<Rightarrow> rat \<Rightarrow> safety_state \<Rightarrow> request_permit safety_result"
  where
  "authorize_request now cost s =
     (case aware_utc now of
        Inl e \<Rightarrow> (Inl e, s)
      | Inr t \<Rightarrow>
          if cost < 0 then (Inl ValueError, s)
          else then_safely (roll_daily_window (utc_date t) s) (\<lambda>s.
               then_safely (ensure_active_approval t s) (\<lambda>s.
               then_safely (raise_if_stopped s) (\<lambda>s. reserve_budget t cost s))))"

definition consume_permit :: "request_permit \<Rightarrow> safety_state \<Rightarrow> unit safety_result" where
  "consume_permit p s =
     (if rp_fingerprint p \<noteq> sc_fingerprint s then (Inl ValueError, s)
      else if rp_sequence p \<notin> sc_in_flight s then (Inl ValueError, s)
      else (Inr (), s\<lparr>sc_in_flight := sc_in_flight s - {rp_sequence p}\<rparr>))"

definition note_403 :: "safety_state \<Rightarrow> safety_state" where
  "note_403 s =
     (let s' = s\<lparr>sc_403 := sc_403 s + 1, sc_429 := 0\<rparr>
      in if 2 \<le> sc_403 s' then s'\<lparr>sc_stop_reason := Some Repeated403\<rparr> else s')"

definition note_429 :: "safety_state \<Rightarrow> safety_state" where
  "note_429 s =
     (let s' = s\<lparr>sc_429 := sc_429 s + 1, sc_403 := 0\<rparr>
      in if 2 \<le> sc_429 s' then s'\<lparr>sc_stop_reason := Some Repeated429\<rparr> else s')"

definition record_response :: "request_permit \<Rightarrow> int \<Rightarrow> safety_state \<Rightarrow> unit safety_result" where
  "record_response p status s = then_safely (consume_permit p s) (\<lambda>s.
     if status = 403 then (Inr (), note_403 s)
     else if status = 429 then (Inr (), note_429 s)
     else (Inr (), s\<lparr>sc_403 := 0, sc_429 := 0\<rparr>))"

definition record_transport_failure :: "request_permit \<Rightarrow> safety_state \<Rightarrow> unit safety_result" where
  "record_transport_failure p s = consume_permit p s"

definition signal_schema_drift :: "safety_state \<Rightarrow> safety_state" where
  "signal_schema_drift s = s\<lparr>sc_stop_reason := Some SchemaDrift\<rparr>"

definition stop_manually :: "safety_state \<Rightarrow> safety_state" where
  "stop_manually s = s\<lparr>sc_stop_reason := Some ManualStop\<rparr>"

definition snapshot :: "safety_state \<Rightarrow> safety_snapshot" where
  "snapshot s =
     \<lparr>sn_fingerprint = sc_fingerprint s, sn_budget_day = sc_budget_day s,
      sn_run_requests = sc_run_requests s, sn_daily_requests = sc_daily_requests s,
      sn_daily_cost = sc_daily_cost s, sn_in_flight_requests = int (card (sc_in_flight s)),
      sn_403 = sc_403 s, sn_429 = sc_429 s, sn_stopped = (sc_stop_reason s \<noteq> None),
      sn_stop_reason = sc_stop_reason s\<rparr>"

section \<open>The controller as a machine\<close>

datatype safety_event =
    AuthorizeRequest pydatetime rat
  | RecordResponse request_permit int
  | RecordTransportFailure request_permit
  | SignalSchemaDrift
  | StopManually

fun safety_step :: "safety_state \<Rightarrow> safety_event \<Rightarrow> safety_state" where
  "safety_step s (AuthorizeRequest now cost) = snd (authorize_request now cost s)"
| "safety_step s (RecordResponse p status) = snd (record_response p status s)"
| "safety_step s (RecordTransportFailure p) = snd (record_transport_failure p s)"
| "safety_step s SignalSchemaDrift = signal_schema_drift s"
| "safety_step s StopManually = stop_manually s"

lemmas safety_op_defs =
  authorize_request_def record_response_def record_transport_failure_def
  signal_schema_drift_def stop_manually_def then_safely_def roll_daily_window_def
  ensure_active_approval_def raise_if_stopped_def stop_and_raise_def consume_permit_def
  note_403_def note_429_def

text \<open>The budget invariant: every counter within its approved ceiling, permits in flight known.\<close>

definition safety_inv :: "safety_state \<Rightarrow> bool" where
  "safety_inv s \<longleftrightarrow> g0_valid (sc_approval s) \<and>
     0 \<le> sc_run_requests s \<and> sc_run_requests s \<le> per_run_request_cap (traffic_limits (sc_approval s)) \<and>
     0 \<le> sc_daily_requests s \<and> sc_daily_requests s \<le> daily_request_cap (traffic_limits (sc_approval s)) \<and>
     0 \<le> sc_daily_cost s \<and> sc_daily_cost s \<le> daily_cap (cost_limits (sc_approval s)) \<and>
     sc_in_flight s \<subseteq> {1 .. sc_run_requests s} \<and>
     int (card (sc_in_flight s)) \<le> concurrency (traffic_limits (sc_approval s))"

lemma safety_inv_finite: "safety_inv s \<Longrightarrow> finite (sc_in_flight s)"
  by (auto simp: safety_inv_def intro: finite_subset)

lemma reserve_budget_inv:
  assumes "safety_inv s" and "0 \<le> cost"
  shows "safety_inv (snd (reserve_budget t cost s))"
proof -
  have fresh: "sc_run_requests s + 1 \<notin> sc_in_flight s"
    using assms(1) by (auto simp: safety_inv_def)
  have "finite (sc_in_flight s)" using assms(1) by (rule safety_inv_finite)
  with fresh have "card (insert (sc_run_requests s + 1) (sc_in_flight s)) =
      Suc (card (sc_in_flight s))" by simp
  with assms show ?thesis
    by (auto simp: safety_inv_def reserve_budget_def stop_and_raise_def Let_def)
qed

lemma roll_daily_window_inv: "safety_inv s \<Longrightarrow> safety_inv (snd (roll_daily_window d s))"
  by (auto simp: safety_inv_def roll_daily_window_def stop_and_raise_def
      dest: g0_valid_caps(4,6))

lemma then_safely_inv:
  "safety_inv (snd r) \<Longrightarrow> (\<And>s. safety_inv s \<Longrightarrow> safety_inv (snd (f s))) \<Longrightarrow>
   safety_inv (snd (then_safely r f))"
  by (auto simp: then_safely_def split: prod.splits sum.splits)

lemma stop_reason_inv: "safety_inv s \<Longrightarrow> safety_inv (s\<lparr>sc_stop_reason := r\<rparr>)"
  by (simp add: safety_inv_def)

lemma ensure_active_approval_inv: "safety_inv s \<Longrightarrow> safety_inv (snd (ensure_active_approval t s))"
  by (simp add: ensure_active_approval_def stop_and_raise_def stop_reason_inv)

lemma raise_if_stopped_inv: "safety_inv s \<Longrightarrow> safety_inv (snd (raise_if_stopped s))"
  by (simp add: raise_if_stopped_def split: option.splits)

lemma authorize_request_inv: "safety_inv s \<Longrightarrow> safety_inv (snd (authorize_request now cost s))"
  by (auto simp: authorize_request_def split: sum.splits
      intro!: then_safely_inv roll_daily_window_inv ensure_active_approval_inv
        raise_if_stopped_inv reserve_budget_inv)

lemma consume_permit_inv:
  assumes "safety_inv s" shows "safety_inv (snd (consume_permit p s))"
proof -
  have "card (sc_in_flight s - {rp_sequence p}) \<le> card (sc_in_flight s)"
    by (intro card_mono) (auto simp: safety_inv_finite [OF assms])
  with assms show ?thesis by (auto simp: safety_inv_def consume_permit_def)
qed

lemma note_response_inv:
  "safety_inv s \<Longrightarrow> safety_inv (note_403 s)" "safety_inv s \<Longrightarrow> safety_inv (note_429 s)"
  by (simp_all add: safety_inv_def note_403_def note_429_def Let_def)

lemma record_response_inv: "safety_inv s \<Longrightarrow> safety_inv (snd (record_response p status s))"
  unfolding record_response_def
  by (intro then_safely_inv consume_permit_inv)
    (auto simp: note_response_inv, auto simp: safety_inv_def)

lemma safety_step_inv: "safety_inv s \<Longrightarrow> safety_inv (safety_step s e)"
  by (cases e) (simp_all add: authorize_request_inv record_response_inv consume_permit_inv
      record_transport_failure_def signal_schema_drift_def stop_manually_def,
      simp_all add: safety_inv_def)

interpretation controller: invariant_machine safety_step any_event safety_inv
  by unfold_locales (rule safety_step_inv)

lemma init_safety_inv:
  "init_safety fpr approval now = Inr s \<Longrightarrow> g0_valid approval \<Longrightarrow> safety_inv s"
  by (auto simp: init_safety_def bindr_Inr safety_inv_def
      dest: g0_valid_caps(1,3,4,6))

section \<open>Stops are permanent\<close>

lemma stopped_step: "sc_stop_reason s \<noteq> None \<Longrightarrow> sc_stop_reason (safety_step s e) \<noteq> None"
  by (cases e)
    (auto simp: safety_op_defs Let_def split: sum.splits option.splits prod.splits)

interpretation stopped: invariant_machine safety_step any_event "\<lambda>s. sc_stop_reason s \<noteq> None"
  by unfold_locales (rule stopped_step)

lemma stopped_no_permit:
  "sc_stop_reason s \<noteq> None \<Longrightarrow> fst (authorize_request now cost s) \<noteq> Inr p"
  by (auto simp: safety_op_defs split: sum.splits option.splits prod.splits)

section \<open>A permit is consumed once\<close>

text \<open>An event that settles the permit with sequence number \<open>k\<close>, and whether it succeeded.\<close>

fun settles :: "int \<Rightarrow> safety_state \<Rightarrow> safety_event \<Rightarrow> bool" where
  "settles k s (RecordResponse p status) \<longleftrightarrow>
     rp_sequence p = k \<and> is_ok (fst (record_response p status s))"
| "settles k s (RecordTransportFailure p) \<longleftrightarrow>
     rp_sequence p = k \<and> is_ok (fst (record_transport_failure p s))"
| "settles k s _ \<longleftrightarrow> False"

definition settle_step :: "int \<Rightarrow> safety_state \<Rightarrow> safety_event \<Rightarrow> safety_state \<times> bool" where
  "settle_step k s e = (safety_step s e, settles k s e)"

lemma fst_settle_step [simp]: "fst (settle_step k s e) = safety_step s e"
  by (simp add: settle_step_def)

lemma run_requests_mono: "sc_run_requests s \<le> sc_run_requests (safety_step s e)"
  by (cases e) (auto simp: safety_op_defs reserve_budget_def Let_def
      split: sum.splits option.splits prod.splits)

lemma settled_stays:
  assumes "k \<le> sc_run_requests s" and "k \<notin> sc_in_flight s"
  shows "k \<notin> sc_in_flight (safety_step s e)"
  using assms by (cases e) (auto simp: safety_op_defs reserve_budget_def Let_def
      split: sum.splits option.splits prod.splits)

lemma settles_in_flight: "settles k s e \<Longrightarrow> k \<in> sc_in_flight s \<and> k \<notin> sc_in_flight (safety_step s e)"
  by (cases e) (auto simp: safety_op_defs Let_def split: if_splits)

interpretation settle: one_shot "settle_step k" any_event "\<lambda>s. k \<le> sc_run_requests s"
    "\<lambda>s. k \<in> sc_in_flight s" for k
proof unfold_locales
  fix s e
  show "k \<le> sc_run_requests s \<Longrightarrow> k \<le> sc_run_requests (fst (settle_step k s e))"
    using run_requests_mono [of s e] by simp
  show "snd (settle_step k s e) \<Longrightarrow> k \<in> sc_in_flight s"
    by (auto simp: settle_step_def dest: settles_in_flight)
  show "snd (settle_step k s e) \<Longrightarrow> \<not> k \<in> sc_in_flight (fst (settle_step k s e))"
    by (auto simp: settle_step_def dest: settles_in_flight)
  show "k \<le> sc_run_requests s \<Longrightarrow> \<not> k \<in> sc_in_flight s \<Longrightarrow>
      \<not> k \<in> sc_in_flight (fst (settle_step k s e))"
    by (simp add: settled_stays)
qed

end
