(* ===== verification/Store.thy ===== *)
theory Store
  imports Prelude
begin

text \<open>
  The acquisition tables of \<open>src/pixiv_yuri/acquisition/persistence_models.py\<close> as records,
  the constraints the database checks (\<open>CHECK\<close>, \<open>UNIQUE\<close>, foreign keys), and the
  transaction of SQLAlchemy's \<open>sessionmaker.begin()\<close>: commit when the body returns and the
  constraints hold, otherwise roll back and raise.

  Bookkeeping columns no code reads (\<open>created_at\<close>, \<open>updated_at\<close>) are left out.  A
  \<open>DateTime\<close> column holds a UTC instant; \<open>load_time\<close> is what the driver hands back.
  A cost is an exact rational: the \<open>Numeric(14, 6)\<close> columns hold it exactly when it has at
  most six decimals.
\<close>

section \<open>Rows\<close>

record daily_budget =
  d_id :: int
  d_fingerprint :: pystr
  d_day :: date
  d_request_count :: int
  d_estimated_cost :: rat
  d_version :: int

record run_budget =
  r_id :: int
  r_run_id :: int
  r_fingerprint :: pystr
  r_request_count :: int
  r_in_flight :: int
  r_403 :: int
  r_429 :: int
  r_stop_reason :: "stop_reason option"
  r_version :: int

datatype permit_status = PermitAuthorized | PermitConsumed | PermitTransportFailed | PermitCancelled

record permit_row =
  p_id :: int
  p_permit_id :: pystr
  p_run_budget_id :: int
  p_sequence :: int
  p_request_key_hash :: pystr
  p_fingerprint :: pystr
  p_estimated_cost :: rat
  p_status :: permit_status
  p_authorized_at :: instant
  p_consumed_at :: "instant option"
  p_response_status :: "int option"

datatype trigger_source =
  TriggerSystem | TriggerOperator | TriggerResponse | TriggerSchema | TriggerBudget | TriggerApproval

record stop_event =
  e_id :: int
  e_fingerprint :: pystr
  e_run_id :: int
  e_reason :: stop_reason
  e_trigger :: trigger_source
  e_occurred_at :: instant

datatype slot_status = SlotClaimed | SlotCompleted | SlotFailed

record slot_row =
  s_id :: int
  s_fingerprint :: pystr
  s_run_id :: int
  s_request_key_hash :: pystr
  s_status :: slot_status
  s_claimed_at :: instant
  s_resolved_at :: "instant option"

datatype live_state = Claimed | SendStarted | Settled | Completed | Failed | Indeterminate

record journal_row =
  j_id :: int
  j_fingerprint :: pystr
  j_run_id :: int
  j_slot_id :: int
  j_binding_hash :: pystr
  j_permit_id :: "pystr option"
  j_status :: live_state
  j_failure_code :: "pystr option"
  j_claimed_at :: instant
  j_send_started_at :: "instant option"
  j_settled_at :: "instant option"
  j_resolved_at :: "instant option"
  j_version :: int

datatype backend = PostgresDb | SqliteDb

record db =
  backend :: backend
  crawl_runs :: "int list"
  daily_budgets :: "daily_budget list"
  run_budgets :: "run_budget list"
  permits :: "permit_row list"
  stop_events :: "stop_event list"
  slots :: "slot_row list"
  journals :: "journal_row list"

definition empty_db :: "backend \<Rightarrow> int list \<Rightarrow> db" where
  "empty_db b runs =
     \<lparr>backend = b, crawl_runs = runs, daily_budgets = [], run_budgets = [], permits = [],
      stop_events = [], slots = [], journals = []\<rparr>"

text \<open>Reading a time column back: SQLite loses the time zone, PostgreSQL keeps UTC.\<close>

definition load_time :: "backend \<Rightarrow> instant \<Rightarrow> pydatetime" where
  "load_time b t =
     (case b of PostgresDb \<Rightarrow> utc t | SqliteDb \<Rightarrow> \<lparr>wall = t, tz = NoTz\<rparr>)"

definition database_utc :: "pydatetime \<Rightarrow> instant" where
  "database_utc v = (case tz v of TzOffset off \<Rightarrow> wall v - off | _ \<Rightarrow> wall v)"

lemma database_utc_load_time [simp]: "database_utc (load_time b t) = t"
  by (cases b) (simp_all add: database_utc_def load_time_def utc_def)

section \<open>Constraints\<close>

definition daily_budget_ok :: "daily_budget \<Rightarrow> bool" where
  "daily_budget_ok r \<longleftrightarrow>
     0 \<le> d_request_count r \<and> 0 \<le> d_estimated_cost r \<and> 0 \<le> d_version r"

definition run_budget_ok :: "run_budget \<Rightarrow> bool" where
  "run_budget_ok r \<longleftrightarrow>
     0 \<le> r_request_count r \<and> 0 \<le> r_in_flight r \<and> 0 \<le> r_403 r \<and> 0 \<le> r_429 r \<and> 0 \<le> r_version r"

definition permit_ok :: "permit_row \<Rightarrow> bool" where
  "permit_ok r \<longleftrightarrow>
     1 \<le> p_sequence r \<and> 0 \<le> p_estimated_cost r \<and>
     (case p_response_status r of None \<Rightarrow> True | Some c \<Rightarrow> 100 \<le> c \<and> c \<le> 599)"

definition slot_ok :: "slot_row \<Rightarrow> bool" where
  "slot_ok r \<longleftrightarrow>
     (s_status r = SlotClaimed \<and> s_resolved_at r = None) \<or>
     (s_status r \<in> {SlotCompleted, SlotFailed} \<and> s_resolved_at r \<noteq> None)"

text \<open>The journal's shape constraint, disjunct by disjunct, and its version check.\<close>

definition journal_ok :: "journal_row \<Rightarrow> bool" where
  "journal_ok r \<longleftrightarrow> 0 \<le> j_version r \<and>
     ((j_status r = Claimed \<and> j_permit_id r = None \<and> j_send_started_at r = None
        \<and> j_settled_at r = None \<and> j_resolved_at r = None \<and> j_failure_code r = None) \<or>
      (j_status r = SendStarted \<and> j_permit_id r \<noteq> None \<and> j_send_started_at r \<noteq> None
        \<and> j_settled_at r = None \<and> j_resolved_at r = None \<and> j_failure_code r = None) \<or>
      (j_status r = Settled \<and> j_permit_id r \<noteq> None \<and> j_send_started_at r \<noteq> None
        \<and> j_settled_at r \<noteq> None \<and> j_resolved_at r = None \<and> j_failure_code r = None) \<or>
      (j_status r = Completed \<and> j_permit_id r \<noteq> None \<and> j_send_started_at r \<noteq> None
        \<and> j_settled_at r \<noteq> None \<and> j_resolved_at r \<noteq> None \<and> j_failure_code r = None) \<or>
      (j_status r = Failed \<and> j_resolved_at r \<noteq> None \<and> j_failure_code r \<noteq> None \<and>
        ((j_permit_id r = None \<and> j_send_started_at r = None \<and> j_settled_at r = None) \<or>
         (j_permit_id r \<noteq> None \<and> j_send_started_at r \<noteq> None \<and> j_settled_at r \<noteq> None))) \<or>
      (j_status r = Indeterminate \<and> j_permit_id r \<noteq> None \<and> j_send_started_at r \<noteq> None
        \<and> j_settled_at r = None \<and> j_resolved_at r \<noteq> None \<and> j_failure_code r \<noteq> None))"

text \<open>A nullable unique column: the values that are present are distinct.\<close>

definition bound_permits :: "journal_row list \<Rightarrow> pystr list" where
  "bound_permits rows = List.map_filter j_permit_id rows"

definition unique_ok :: "db \<Rightarrow> bool" where
  "unique_ok d \<longleftrightarrow>
     distinct (map d_id (daily_budgets d)) \<and>
     distinct (map (\<lambda>r. (d_fingerprint r, d_day r)) (daily_budgets d)) \<and>
     distinct (map r_id (run_budgets d)) \<and>
     distinct (map r_run_id (run_budgets d)) \<and>
     distinct (map p_id (permits d)) \<and>
     distinct (map p_permit_id (permits d)) \<and>
     distinct (map (\<lambda>r. (p_run_budget_id r, p_sequence r)) (permits d)) \<and>
     distinct (map (\<lambda>r. (p_run_budget_id r, p_request_key_hash r)) (permits d)) \<and>
     distinct (map s_id (slots d)) \<and>
     distinct (map s_fingerprint (slots d)) \<and>
     distinct (map j_id (journals d)) \<and>
     distinct (map j_slot_id (journals d)) \<and>
     distinct (bound_permits (journals d))"

definition foreign_ok :: "db \<Rightarrow> bool" where
  "foreign_ok d \<longleftrightarrow>
     list_all (\<lambda>r. r_run_id r \<in> set (crawl_runs d)) (run_budgets d) \<and>
     list_all (\<lambda>r. p_run_budget_id r \<in> r_id ` set (run_budgets d)) (permits d) \<and>
     list_all (\<lambda>r. e_run_id r \<in> set (crawl_runs d)) (stop_events d) \<and>
     list_all (\<lambda>r. s_run_id r \<in> set (crawl_runs d)) (slots d) \<and>
     list_all (\<lambda>r. j_run_id r \<in> set (crawl_runs d)) (journals d) \<and>
     list_all (\<lambda>r. j_slot_id r \<in> s_id ` set (slots d)) (journals d) \<and>
     list_all (\<lambda>p. p \<in> p_permit_id ` set (permits d)) (bound_permits (journals d))"

definition checks_ok :: "db \<Rightarrow> bool" where
  "checks_ok d \<longleftrightarrow>
     list_all daily_budget_ok (daily_budgets d) \<and>
     list_all run_budget_ok (run_budgets d) \<and>
     list_all permit_ok (permits d) \<and>
     list_all slot_ok (slots d) \<and>
     list_all journal_ok (journals d)"

definition db_ok :: "db \<Rightarrow> bool" where
  "db_ok d \<longleftrightarrow> checks_ok d \<and> unique_ok d \<and> foreign_ok d"

lemma db_ok_empty: "db_ok (empty_db b runs)"
  by (simp add: db_ok_def checks_ok_def unique_ok_def foreign_ok_def empty_db_def
      bound_permits_def List.map_filter_def)

lemma bound_permits_simps [simp]:
  "bound_permits [] = []"
  "bound_permits (r # rows) =
     (case j_permit_id r of None \<Rightarrow> bound_permits rows | Some p \<Rightarrow> p # bound_permits rows)"
  "bound_permits (rows @ rows') = bound_permits rows @ bound_permits rows'"
  by (simp_all add: bound_permits_def List.map_filter_def split: option.splits)

lemma set_bound_permits: "p \<in> set (bound_permits rows) \<longleftrightarrow> (\<exists>r \<in> set rows. j_permit_id r = Some p)"
  by (induction rows) (auto split: option.splits)

section \<open>Transactions\<close>

type_synonym 'a outcome = "(error + 'a) \<times> db"

definition transaction :: "(db \<Rightarrow> error + 'a \<times> db) \<Rightarrow> db \<Rightarrow> 'a outcome" where
  "transaction body d =
     (case body d of
        Inl e \<Rightarrow> (Inl e, d)
      | Inr (v, d') \<Rightarrow> if db_ok d' then (Inr v, d') else (Inl IntegrityError, d))"

text \<open>Validation before a transaction opens: its exceptions leave the database alone.\<close>

definition before :: "error + 'a \<Rightarrow> ('a \<Rightarrow> db \<Rightarrow> 'b outcome) \<Rightarrow> db \<Rightarrow> 'b outcome" where
  "before r f d = (case r of Inl e \<Rightarrow> (Inl e, d) | Inr x \<Rightarrow> f x d)"

definition on_integrity_error :: "error \<Rightarrow> 'a outcome \<Rightarrow> 'a outcome" where
  "on_integrity_error e r =
     (case r of (Inl IntegrityError, d) \<Rightarrow> (Inl e, d) | _ \<Rightarrow> r)"

lemma before_simps [simp]:
  "before (Inl e) f d = (Inl e, d)"
  "before (Inr x) f d = f x d"
  by (simp_all add: before_def)

lemma transaction_error_atomic: "fst (transaction body d) = Inl e \<Longrightarrow> snd (transaction body d) = d"
  by (auto simp: transaction_def split: sum.splits if_splits)

lemma transaction_Inr:
  "transaction body d = (Inr v, d') \<longleftrightarrow> body d = Inr (v, d') \<and> db_ok d'"
  by (auto simp: transaction_def split: sum.splits if_splits)

lemma transaction_ok: "db_ok d \<Longrightarrow> db_ok (snd (transaction body d))"
  by (auto simp: transaction_def split: sum.splits)

lemma snd_transaction_cases:
  "snd (transaction body d) = d \<or>
   (\<exists>v. body d = Inr (v, snd (transaction body d)) \<and> db_ok (snd (transaction body d)))"
  by (auto simp: transaction_def split: sum.splits)

lemma on_integrity_error_snd [simp]: "snd (on_integrity_error e r) = snd r"
  by (auto simp: on_integrity_error_def split: prod.splits sum.splits error.splits)

lemma on_integrity_error_Inr [simp]: "on_integrity_error e r = (Inr v, d) \<longleftrightarrow> r = (Inr v, d)"
  by (cases r; cases "fst r") (auto simp: on_integrity_error_def split: error.splits)

lemma before_Inr [simp]:
  "before r f d = (Inr v, d') \<longleftrightarrow> (\<exists>x. r = Inr x \<and> f x d = (Inr v, d'))"
  by (cases r) simp_all

text \<open>
  A committed change is one the body made: an operation's effect on the database is either
  nothing or its body's effect.
\<close>

lemma before_snd_cases:
  "snd (before r f d) = d \<or> (\<exists>x. r = Inr x \<and> snd (before r f d) = snd (f x d))"
  by (cases r) simp_all

end
