(* ===== verification/FirstSlot.thy ===== *)
theory FirstSlot
  imports Store
begin

text \<open>
  The permanent first-request slot of \<open>src/pixiv_yuri/acquisition/first_request_slot.py\<close>:
  one claim per approval fingerprint, resolved once as completed or failed, never released.
  The parameter \<open>sha\<close> is the SHA-256 hex digest of a text.  The advisory lock of
  \<open>_lock_approval_transaction\<close> changes no state: a transaction of the model is atomic.
\<close>

record first_request_claim =
  c_slot_id :: int
  c_fingerprint :: pystr
  c_run_id :: int
  c_request_key_hash :: pystr
  c_claimed_at :: instant

text \<open>\<open>_validate_fingerprint\<close> and \<open>_hash_request_key\<close>, in the order of their tests.\<close>

definition validate_fingerprint :: "pystr \<Rightarrow> error + pystr" where
  "validate_fingerprint v =
     (if length v \<noteq> 64 then Inl ValueError
      else case bytes_fromhex v of None \<Rightarrow> Inl ValueError | Some _ \<Rightarrow> Inr (ascii_lower v))"

definition hash_request_key :: "(pystr \<Rightarrow> pystr) \<Rightarrow> pystr \<Rightarrow> error + pystr" where
  "hash_request_key sha key =
     (if key = [] \<or> 2048 < length key then Inl ValueError
      else if \<not> utf8_encodable key then Inl ValueError
      else Inr (sha key))"

text \<open>\<open>_require_bound_run\<close>: a run budget of this run and fingerprint exists.\<close>

definition run_bound :: "int \<Rightarrow> pystr \<Rightarrow> db \<Rightarrow> bool" where
  "run_bound run fp d \<longleftrightarrow>
     list_ex (\<lambda>r. r_run_id r = run \<and> r_fingerprint r = fp) (run_budgets d)"

definition slot_claim_body ::
  "pystr \<Rightarrow> int \<Rightarrow> pystr \<Rightarrow> instant \<Rightarrow> db \<Rightarrow> error + first_request_claim \<times> db" where
  "slot_claim_body fp run h t d =
     (if \<not> run_bound run fp d then Inl FirstRequestSlotBinding
      else if list_ex (\<lambda>r. s_fingerprint r = fp) (slots d) then Inl FirstRequestAlreadyClaimed
      else let k = fresh_key s_id (slots d);
               row = \<lparr>s_id = k, s_fingerprint = fp, s_run_id = run, s_request_key_hash = h,
                      s_status = SlotClaimed, s_claimed_at = t, s_resolved_at = None\<rparr>
           in Inr (\<lparr>c_slot_id = k, c_fingerprint = fp, c_run_id = run,
                    c_request_key_hash = h, c_claimed_at = t\<rparr>,
                   d\<lparr>slots := slots d @ [row]\<rparr>))"

definition slot_claim ::
  "(pystr \<Rightarrow> pystr) \<Rightarrow> pystr \<Rightarrow> int \<Rightarrow> pystr \<Rightarrow> pydatetime \<Rightarrow> db \<Rightarrow>
     first_request_claim outcome" where
  "slot_claim sha fp run key now =
     before (validate_fingerprint fp) (\<lambda>fingerprint.
     before (hash_request_key sha key) (\<lambda>h.
     before (aware_utc now) (\<lambda>t d.
       on_integrity_error FirstRequestAlreadyClaimed
         (transaction (slot_claim_body fingerprint run h t) d))))"

definition slot_resolve_body ::
  "first_request_claim \<Rightarrow> pystr \<Rightarrow> slot_status \<Rightarrow> instant \<Rightarrow> db \<Rightarrow> error + unit \<times> db" where
  "slot_resolve_body c fp status t d =
     (case row_get s_id (c_slot_id c) (slots d) of
        None \<Rightarrow> Inl FirstRequestSlotBinding
      | Some row \<Rightarrow>
          if s_fingerprint row \<noteq> fp \<or> s_run_id row \<noteq> c_run_id c
             \<or> s_request_key_hash row \<noteq> c_request_key_hash c
          then Inl FirstRequestSlotBinding
          else if s_status row \<noteq> SlotClaimed then Inl FirstRequestSlotBinding
          else Inr ((), d\<lparr>slots := row_update s_id (c_slot_id c)
                 (\<lambda>r. r\<lparr>s_status := status, s_resolved_at := Some t\<rparr>) (slots d)\<rparr>))"

definition slot_resolve ::
  "first_request_claim \<Rightarrow> slot_status \<Rightarrow> pydatetime \<Rightarrow> db \<Rightarrow> unit outcome" where
  "slot_resolve c status now =
     before (aware_utc now) (\<lambda>t.
     before (validate_fingerprint (c_fingerprint c)) (\<lambda>fp.
       transaction (slot_resolve_body c fp status t)))"

definition slot_complete :: "first_request_claim \<Rightarrow> pydatetime \<Rightarrow> db \<Rightarrow> unit outcome" where
  "slot_complete c now = slot_resolve c SlotCompleted now"

definition slot_fail :: "first_request_claim \<Rightarrow> pydatetime \<Rightarrow> db \<Rightarrow> unit outcome" where
  "slot_fail c now = slot_resolve c SlotFailed now"

section \<open>What a validated fingerprint is\<close>

lemma validate_fingerprint_Inr:
  "validate_fingerprint v = Inr f \<longleftrightarrow>
     length v = 64 \<and> bytes_fromhex v \<noteq> None \<and> f = ascii_lower v"
  by (auto simp: validate_fingerprint_def split: option.splits)

lemma hex_value_lower: "hex_value c = Some v \<Longrightarrow> hex_value (ascii_lower_char c) = Some v"
  by (auto simp: hex_value_def ascii_lower_char_def split: if_splits)

lemma is_space_lower [simp]: "is_space_char (ascii_lower_char c) = is_space_char c"
  by (auto simp: is_space_char_def ascii_lower_char_def)

lemma bytes_fromhex_lower: "bytes_fromhex s = Some bs \<Longrightarrow> bytes_fromhex (ascii_lower s) = Some bs"
  by (induction s arbitrary: bs rule: bytes_fromhex.induct)
    (auto simp: ascii_lower_def hex_value_lower split: if_splits option.splits)

text \<open>Normalisation is idempotent: a normalised fingerprint validates to itself.\<close>

lemma validate_fingerprint_idem:
  "validate_fingerprint v = Inr f \<Longrightarrow> validate_fingerprint f = Inr f"
  by (auto simp: validate_fingerprint_Inr dest: bytes_fromhex_lower)

section \<open>Effects\<close>

text \<open>A successful claim appends one claimed row, for a fingerprint that had none.\<close>

lemma slot_claim_Inr:
  assumes "slot_claim sha fp run key now d = (Inr c, d')"
  obtains f h t row where "validate_fingerprint fp = Inr f" "hash_request_key sha key = Inr h"
    "aware_utc now = Inr t" "run_bound run f d" "\<forall>r \<in> set (slots d). s_fingerprint r \<noteq> f"
    "row = \<lparr>s_id = fresh_key s_id (slots d), s_fingerprint = f, s_run_id = run,
            s_request_key_hash = h, s_status = SlotClaimed, s_claimed_at = t,
            s_resolved_at = None\<rparr>"
    "d' = d\<lparr>slots := slots d @ [row]\<rparr>" "db_ok d'"
    "c = \<lparr>c_slot_id = s_id row, c_fingerprint = f, c_run_id = run,
          c_request_key_hash = h, c_claimed_at = t\<rparr>"
  using assms
  by (auto simp: slot_claim_def slot_claim_body_def transaction_Inr Let_def list_ex_iff
      split: if_splits)

text \<open>A successful resolution moves one claimed row, of the claim's own binding, to \<open>status\<close>.\<close>

lemma slot_resolve_Inr:
  assumes "slot_resolve c status now d = (Inr u, d')"
  obtains t row where "aware_utc now = Inr t"
    "validate_fingerprint (c_fingerprint c) = Inr (s_fingerprint row)"
    "row_get s_id (c_slot_id c) (slots d) = Some row" "s_run_id row = c_run_id c"
    "s_request_key_hash row = c_request_key_hash c" "s_status row = SlotClaimed"
    "d' = d\<lparr>slots := row_update s_id (c_slot_id c)
             (\<lambda>r. r\<lparr>s_status := status, s_resolved_at := Some t\<rparr>) (slots d)\<rparr>" "db_ok d'"
  using assms
  by (auto simp: slot_resolve_def slot_resolve_body_def transaction_Inr
      split: if_splits option.splits)

lemma slot_claim_error: "fst (slot_claim sha fp run key now d) = Inl e \<Longrightarrow>
    snd (slot_claim sha fp run key now d) = d"
  by (auto simp: slot_claim_def before_def on_integrity_error_def transaction_def
      split: sum.splits if_splits error.splits prod.splits)

lemma slot_resolve_error: "fst (slot_resolve c status now d) = Inl e \<Longrightarrow>
    snd (slot_resolve c status now d) = d"
  by (auto simp: slot_resolve_def before_def transaction_def split: sum.splits if_splits)

lemma slot_claim_error_class:
  "fst (slot_claim sha fp run key now d) = Inl e \<Longrightarrow>
    e \<in> {ValueError, FirstRequestSlotBinding, FirstRequestAlreadyClaimed}"
  by (auto simp: slot_claim_def before_def on_integrity_error_def transaction_def
      slot_claim_body_def validate_fingerprint_def hash_request_key_def aware_utc_def Let_def
      split: sum.splits if_splits error.splits prod.splits option.splits tzinfo.splits)

end
