(* ===== verification/Journal.thy ===== *)
theory Journal
  imports FirstSlot
begin

text \<open>
  The live execution journal of
  \<open>src/pixiv_yuri/acquisition/live_execution_journal.py\<close>: the service's operations, each a
  transaction that reads one locked row, checks its state and rewrites it, and the abstract
  lifecycle they implement.
\<close>

record live_record =
  jr_journal_id :: int
  jr_fingerprint :: pystr
  jr_run_id :: int
  jr_slot_id :: int
  jr_binding_hash :: pystr
  jr_permit_id :: "pystr option"
  jr_state :: live_state
  jr_failure_code :: "pystr option"
  jr_claimed_at :: instant
  jr_send_started_at :: "instant option"
  jr_settled_at :: "instant option"
  jr_resolved_at :: "instant option"
  jr_version :: int

text \<open>\<open>_record\<close>: times come back from the driver and are normalised by \<open>_database_utc\<close>.\<close>

definition journal_record :: "backend \<Rightarrow> journal_row \<Rightarrow> live_record" where
  "journal_record b r =
     \<lparr>jr_journal_id = j_id r, jr_fingerprint = j_fingerprint r, jr_run_id = j_run_id r,
      jr_slot_id = j_slot_id r, jr_binding_hash = j_binding_hash r,
      jr_permit_id = j_permit_id r, jr_state = j_status r, jr_failure_code = j_failure_code r,
      jr_claimed_at = database_utc (load_time b (j_claimed_at r)),
      jr_send_started_at = map_option (\<lambda>t. database_utc (load_time b t)) (j_send_started_at r),
      jr_settled_at = map_option (\<lambda>t. database_utc (load_time b t)) (j_settled_at r),
      jr_resolved_at = map_option (\<lambda>t. database_utc (load_time b t)) (j_resolved_at r),
      jr_version = j_version r\<rparr>"

lemma map_option_ident_load [simp]: "map_option (\<lambda>t. database_utc (load_time b t)) x = x"
  by (cases x) simp_all

section \<open>Validation\<close>

definition validate_hash :: "pystr \<Rightarrow> error + pystr" where
  "validate_hash v =
     (if length v \<noteq> 64 then Inl ValueError
      else case bytes_fromhex v of
        None \<Rightarrow> Inl ValueError
      | Some _ \<Rightarrow> if v \<noteq> ascii_lower v then Inl ValueError else Inr v)"

lemma validate_hash_Inr:
  "validate_hash v = Inr f \<longleftrightarrow>
     f = v \<and> length v = 64 \<and> bytes_fromhex v \<noteq> None \<and> ascii_lower v = v"
  by (auto simp: validate_hash_def split: option.splits)

text \<open>The pattern \<open>[a-z][a-z0-9_]{0,63}\Z\<close>, matched against the whole text.\<close>

definition is_lower_letter :: "nat \<Rightarrow> bool" where
  "is_lower_letter c \<longleftrightarrow> 97 \<le> c \<and> c \<le> 122"

definition is_code_char :: "nat \<Rightarrow> bool" where
  "is_code_char c \<longleftrightarrow> is_lower_letter c \<or> (48 \<le> c \<and> c \<le> 57) \<or> c = 95"

definition validate_failure_code :: "pystr \<Rightarrow> error + pystr" where
  "validate_failure_code v =
     (case v of
        [] \<Rightarrow> Inl ValueError
      | c # cs \<Rightarrow> if is_lower_letter c \<and> length cs \<le> 63 \<and> list_all is_code_char cs
                  then Inr v else Inl ValueError)"

definition validate_identifier :: "int \<Rightarrow> error + unit" where
  "validate_identifier i = (if i < 1 then Inl ValueError else Inr ())"

definition validate_permit_id :: "pystr \<Rightarrow> error + unit" where
  "validate_permit_id v = (if 1 \<le> length v \<and> length v \<le> 36 then Inr () else Inl ValueError)"

section \<open>Operations\<close>

definition journal_claim_body ::
  "pystr \<Rightarrow> int \<Rightarrow> int \<Rightarrow> pystr \<Rightarrow> instant \<Rightarrow> db \<Rightarrow> error + live_record \<times> db" where
  "journal_claim_body fp run slot_id h t d =
     (case row_get s_id slot_id (slots d) of
        None \<Rightarrow> Inl LiveExecutionBinding
      | Some slot \<Rightarrow>
          if s_fingerprint slot \<noteq> fp \<or> s_run_id slot \<noteq> run \<or> s_request_key_hash slot \<noteq> h
          then Inl LiveExecutionBinding
          else if s_status slot \<noteq> SlotClaimed then Inl LiveExecutionTransition
          else if list_ex (\<lambda>j. j_slot_id j = slot_id) (journals d)
          then Inl LiveExecutionAlreadyClaimed
          else let row = \<lparr>j_id = fresh_key j_id (journals d), j_fingerprint = fp, j_run_id = run,
                          j_slot_id = slot_id, j_binding_hash = h, j_permit_id = None,
                          j_status = Claimed, j_failure_code = None, j_claimed_at = t,
                          j_send_started_at = None, j_settled_at = None, j_resolved_at = None,
                          j_version = 0\<rparr>
               in Inr (journal_record (backend d) row, d\<lparr>journals := journals d @ [row]\<rparr>))"

definition journal_claim ::
  "pystr \<Rightarrow> int \<Rightarrow> int \<Rightarrow> pystr \<Rightarrow> pydatetime \<Rightarrow> db \<Rightarrow> live_record outcome" where
  "journal_claim fp run slot_id h now =
     before (validate_hash fp) (\<lambda>fingerprint.
     before (validate_hash h) (\<lambda>binding_hash.
     before (aware_utc now) (\<lambda>t.
     before (validate_identifier run) (\<lambda>_.
     before (validate_identifier slot_id) (\<lambda>_ d.
       on_integrity_error LiveExecutionAlreadyClaimed
         (transaction (journal_claim_body fingerprint run slot_id binding_hash t) d))))))"

text \<open>
  \<open>_locked_journal\<close> and the write-back of a changed row: every remaining operation has the
  form "lock the row, decide, rewrite it, return its record".
\<close>

definition with_journal ::
  "int \<Rightarrow> (db \<Rightarrow> journal_row \<Rightarrow> error + journal_row) \<Rightarrow> db \<Rightarrow> error + live_record \<times> db" where
  "with_journal jid f d =
     (case row_get j_id jid (journals d) of
        None \<Rightarrow> Inl LiveExecutionJournalError
      | Some row \<Rightarrow>
          (case f d row of
             Inl e \<Rightarrow> Inl e
           | Inr row' \<Rightarrow>
               Inr (journal_record (backend d) row',
                    d\<lparr>journals := row_update j_id jid (\<lambda>_. row') (journals d)\<rparr>)))"

definition start_send_row ::
  "pystr \<Rightarrow> instant \<Rightarrow> db \<Rightarrow> journal_row \<Rightarrow> error + journal_row" where
  "start_send_row pid t d row =
     (if j_status row \<noteq> Claimed then Inl LiveExecutionTransition
      else case find (\<lambda>p. p_permit_id p = pid) (permits d) of
        None \<Rightarrow> Inl LiveExecutionBinding
      | Some permit \<Rightarrow>
          if p_status permit \<noteq> PermitAuthorized then Inl LiveExecutionBinding
          else (case row_get r_id (p_run_budget_id permit) (run_budgets d) of
             None \<Rightarrow> Inl LiveExecutionBinding
           | Some rb \<Rightarrow>
               if r_run_id rb \<noteq> j_run_id row \<or> p_fingerprint permit \<noteq> j_fingerprint row
                  \<or> p_request_key_hash permit \<noteq> j_binding_hash row
               then Inl LiveExecutionBinding
               else Inr (row\<lparr>j_permit_id := Some pid, j_status := SendStarted,
                             j_send_started_at := Some t, j_version := j_version row + 1\<rparr>)))"

definition journal_start_send :: "int \<Rightarrow> pystr \<Rightarrow> pydatetime \<Rightarrow> db \<Rightarrow> live_record outcome" where
  "journal_start_send jid pid now =
     before (aware_utc now) (\<lambda>t.
     before (validate_identifier jid) (\<lambda>_.
     before (validate_permit_id pid) (\<lambda>_.
       transaction (with_journal jid (start_send_row pid t)))))"

definition settle_row :: "pystr \<Rightarrow> instant \<Rightarrow> db \<Rightarrow> journal_row \<Rightarrow> error + journal_row" where
  "settle_row pid t d row =
     (if j_status row \<noteq> SendStarted then Inl LiveExecutionTransition
      else if j_permit_id row \<noteq> Some pid then Inl LiveExecutionBinding
      else case find (\<lambda>p. p_permit_id p = pid) (permits d) of
        None \<Rightarrow> Inl LiveExecutionTransition
      | Some permit \<Rightarrow>
          if p_status permit \<noteq> PermitConsumed then Inl LiveExecutionTransition
          else Inr (row\<lparr>j_status := Settled, j_settled_at := Some t,
                        j_version := j_version row + 1\<rparr>))"

definition journal_settle :: "int \<Rightarrow> pystr \<Rightarrow> pydatetime \<Rightarrow> db \<Rightarrow> live_record outcome" where
  "journal_settle jid pid now =
     before (aware_utc now) (\<lambda>t.
     before (validate_identifier jid) (\<lambda>_.
     before (validate_permit_id pid) (\<lambda>_.
       transaction (with_journal jid (settle_row pid t)))))"

definition resolve_row ::
  "live_state \<Rightarrow> pystr option \<Rightarrow> instant \<Rightarrow> journal_row \<Rightarrow> error + journal_row" where
  "resolve_row target code t row =
     (let allowed = (if target = Completed then j_status row = Settled
                     else j_status row \<in> {Claimed, Settled})
      in if \<not> allowed then Inl LiveExecutionTransition
         else Inr (row\<lparr>j_status := target, j_failure_code := code, j_resolved_at := Some t,
                       j_version := j_version row + 1\<rparr>))"

definition journal_resolve ::
  "int \<Rightarrow> live_state \<Rightarrow> pystr option \<Rightarrow> pydatetime \<Rightarrow> db \<Rightarrow> live_record outcome" where
  "journal_resolve jid target code now =
     before (aware_utc now) (\<lambda>t.
     before (validate_identifier jid) (\<lambda>_.
       transaction (with_journal jid (\<lambda>_. resolve_row target code t))))"

definition journal_complete :: "int \<Rightarrow> pydatetime \<Rightarrow> db \<Rightarrow> live_record outcome" where
  "journal_complete jid now = journal_resolve jid Completed None now"

definition journal_fail :: "int \<Rightarrow> pystr \<Rightarrow> pydatetime \<Rightarrow> db \<Rightarrow> live_record outcome" where
  "journal_fail jid code now =
     before (validate_failure_code code) (\<lambda>c. journal_resolve jid Failed (Some c) now)"

definition indeterminate_row :: "pystr \<Rightarrow> instant \<Rightarrow> journal_row \<Rightarrow> error + journal_row" where
  "indeterminate_row code t row =
     (if j_status row \<noteq> SendStarted then Inl LiveExecutionTransition
      else Inr (row\<lparr>j_status := Indeterminate, j_failure_code := Some code,
                    j_resolved_at := Some t, j_version := j_version row + 1\<rparr>))"

definition journal_mark_indeterminate ::
  "int \<Rightarrow> pystr \<Rightarrow> pydatetime \<Rightarrow> db \<Rightarrow> live_record outcome" where
  "journal_mark_indeterminate jid code now =
     before (aware_utc now) (\<lambda>t.
     before (validate_failure_code code) (\<lambda>c.
     before (validate_identifier jid) (\<lambda>_.
       transaction (with_journal jid (\<lambda>_. indeterminate_row c t)))))"

definition recover_row :: "instant \<Rightarrow> journal_row \<Rightarrow> journal_row" where
  "recover_row t row =
     (if j_status row \<in> {Completed, Failed, Indeterminate} then row
      else let row' =
             (if j_status row = SendStarted
              then row\<lparr>j_status := Indeterminate,
                       j_failure_code := Some (lit ''recovery_unknown_external_effect'')\<rparr>
              else row\<lparr>j_status := Failed,
                       j_failure_code := Some (if j_status row = Claimed
                         then lit ''recovery_before_send''
                         else lit ''recovery_after_settlement'')\<rparr>)
           in row'\<lparr>j_resolved_at := Some t, j_version := j_version row + 1\<rparr>)"

definition journal_recover :: "int \<Rightarrow> pydatetime \<Rightarrow> db \<Rightarrow> live_record outcome" where
  "journal_recover jid now =
     before (aware_utc now) (\<lambda>t.
     before (validate_identifier jid) (\<lambda>_.
       transaction (with_journal jid (\<lambda>_ row. Inr (recover_row t row)))))"

definition journal_get :: "int \<Rightarrow> db \<Rightarrow> error + live_record" where
  "journal_get jid d = bindr (validate_identifier jid) (\<lambda>_.
     case row_get j_id jid (journals d) of
       None \<Rightarrow> Inl LiveExecutionJournalError
     | Some row \<Rightarrow> Inr (journal_record (backend d) row))"

section \<open>The abstract lifecycle\<close>

definition terminal :: "live_state \<Rightarrow> bool" where
  "terminal s \<longleftrightarrow> s \<in> {Completed, Failed, Indeterminate}"

text \<open>
  The one-way automaton the journal implements, with one edge per documented transition.
\<close>

inductive lifecycle :: "live_state \<Rightarrow> live_state \<Rightarrow> bool" where
  start: "lifecycle Claimed SendStarted"
| settle: "lifecycle SendStarted Settled"
| complete: "lifecycle Settled Completed"
| fail_before_send: "lifecycle Claimed Failed"
| fail_after_settlement: "lifecycle Settled Failed"
| unknown_effect: "lifecycle SendStarted Indeterminate"

inductive_simps lifecycle_from [simp]:
  "lifecycle Claimed s" "lifecycle SendStarted s" "lifecycle Settled s"
  "lifecycle Completed s" "lifecycle Failed s" "lifecycle Indeterminate s"

fun lifecycle_rank :: "live_state \<Rightarrow> nat" where
  "lifecycle_rank Claimed = 0"
| "lifecycle_rank SendStarted = 1"
| "lifecycle_rank Settled = 2"
| "lifecycle_rank _ = 3"

lemma lifecycle_rank_less: "lifecycle s s' \<Longrightarrow> lifecycle_rank s < lifecycle_rank s'"
  by (induction rule: lifecycle.induct) simp_all

lemma lifecycle_terminal_iff: "terminal s \<longleftrightarrow> \<not> (\<exists>s'. lifecycle s s')"
  by (cases s) (auto simp: terminal_def)

lemma lifecycle_star_rank: "lifecycle\<^sup>*\<^sup>* s s' \<Longrightarrow> s = s' \<or> lifecycle_rank s < lifecycle_rank s'"
  by (induction rule: rtranclp_induct) (auto dest: lifecycle_rank_less)

text \<open>The rows a journal operation may turn a row into: same identity, one edge further.\<close>

definition journal_step :: "journal_row \<Rightarrow> journal_row \<Rightarrow> bool" where
  "journal_step r r' \<longleftrightarrow>
     j_id r' = j_id r \<and> j_fingerprint r' = j_fingerprint r \<and> j_run_id r' = j_run_id r \<and>
     j_slot_id r' = j_slot_id r \<and> j_binding_hash r' = j_binding_hash r \<and>
     j_claimed_at r' = j_claimed_at r \<and>
     lifecycle (j_status r) (j_status r') \<and> j_version r' = j_version r + 1 \<and>
     (j_status r \<noteq> Claimed \<longrightarrow> j_permit_id r' = j_permit_id r
        \<and> j_send_started_at r' = j_send_started_at r) \<and>
     (j_status r' = Failed \<longrightarrow> j_permit_id r' = j_permit_id r)"

lemma start_send_row_step:
  "start_send_row pid t d r = Inr r' \<Longrightarrow> journal_step r r'"
  by (auto simp: start_send_row_def journal_step_def split: if_splits option.splits)

lemma settle_row_step: "settle_row pid t d r = Inr r' \<Longrightarrow> journal_step r r'"
  by (auto simp: settle_row_def journal_step_def split: if_splits option.splits)

lemma resolve_row_step:
  "resolve_row target code t r = Inr r' \<Longrightarrow> target \<in> {Completed, Failed} \<Longrightarrow> journal_step r r'"
  by (auto simp: resolve_row_def journal_step_def Let_def split: if_splits)

lemma indeterminate_row_step: "indeterminate_row code t r = Inr r' \<Longrightarrow> journal_step r r'"
  by (auto simp: indeterminate_row_def journal_step_def split: if_splits)

lemma recover_row_step: "recover_row t r = r \<or> journal_step r (recover_row t r)"
  by (cases "j_status r") (auto simp: recover_row_def journal_step_def Let_def)

lemma recover_row_terminal: "terminal (j_status (recover_row t r))"
  by (cases "j_status r") (auto simp: recover_row_def terminal_def Let_def)

lemma recover_row_fixed: "terminal (j_status r) \<Longrightarrow> recover_row t r = r"
  by (simp add: recover_row_def terminal_def)

text \<open>The database's shape constraint is implied by the code's own guards.\<close>

lemmas row_op_defs =
  start_send_row_def settle_row_def resolve_row_def indeterminate_row_def recover_row_def

lemma journal_ok_by_state:
  "journal_ok r \<longleftrightarrow> 0 \<le> j_version r \<and>
     (case j_status r of
        Claimed \<Rightarrow> j_permit_id r = None \<and> j_send_started_at r = None \<and>
          j_settled_at r = None \<and> j_resolved_at r = None \<and> j_failure_code r = None
      | SendStarted \<Rightarrow> j_permit_id r \<noteq> None \<and> j_send_started_at r \<noteq> None \<and>
          j_settled_at r = None \<and> j_resolved_at r = None \<and> j_failure_code r = None
      | Settled \<Rightarrow> j_permit_id r \<noteq> None \<and> j_send_started_at r \<noteq> None \<and>
          j_settled_at r \<noteq> None \<and> j_resolved_at r = None \<and> j_failure_code r = None
      | Completed \<Rightarrow> j_permit_id r \<noteq> None \<and> j_send_started_at r \<noteq> None \<and>
          j_settled_at r \<noteq> None \<and> j_resolved_at r \<noteq> None \<and> j_failure_code r = None
      | Failed \<Rightarrow> j_resolved_at r \<noteq> None \<and> j_failure_code r \<noteq> None \<and>
          (j_send_started_at r = None) = (j_permit_id r = None) \<and>
          (j_settled_at r = None) = (j_permit_id r = None)
      | Indeterminate \<Rightarrow> j_permit_id r \<noteq> None \<and> j_send_started_at r \<noteq> None \<and>
          j_settled_at r = None \<and> j_resolved_at r \<noteq> None \<and> j_failure_code r \<noteq> None)"
  unfolding journal_ok_def by (cases "j_status r"; auto)

lemma row_ops_shape:
  assumes "journal_ok r"
  shows "start_send_row pid t d r = Inr r' \<Longrightarrow> journal_ok r'"
    and "settle_row pid t d r = Inr r' \<Longrightarrow> journal_ok r'"
    and "resolve_row Completed None t r = Inr r' \<Longrightarrow> journal_ok r'"
    and "resolve_row Failed (Some c) t r = Inr r' \<Longrightarrow> journal_ok r'"
    and "indeterminate_row c t r = Inr r' \<Longrightarrow> journal_ok r'"
    and "journal_ok (recover_row t r)"
proof -
  show "start_send_row pid t d r = Inr r' \<Longrightarrow> journal_ok r'"
    using assms by (auto simp: journal_ok_by_state start_send_row_def split: if_splits option.splits)
  show "settle_row pid t d r = Inr r' \<Longrightarrow> journal_ok r'"
    using assms by (auto simp: journal_ok_by_state settle_row_def split: if_splits option.splits)
  show "resolve_row Completed None t r = Inr r' \<Longrightarrow> journal_ok r'"
    using assms by (auto simp: journal_ok_by_state resolve_row_def split: if_splits)
  show "resolve_row Failed (Some c) t r = Inr r' \<Longrightarrow> journal_ok r'"
    using assms by (auto simp: journal_ok_by_state resolve_row_def Let_def split: if_splits)
  show "indeterminate_row c t r = Inr r' \<Longrightarrow> journal_ok r'"
    using assms by (auto simp: journal_ok_by_state indeterminate_row_def split: if_splits)
  show "journal_ok (recover_row t r)"
    using assms by (cases "j_status r") (auto simp: journal_ok_by_state recover_row_def Let_def)
qed

section \<open>Effects\<close>

lemma with_journal_Inr:
  "with_journal jid f d = Inr (v, d') \<longleftrightarrow>
     (\<exists>row row'. row_get j_id jid (journals d) = Some row \<and> f d row = Inr row' \<and>
        v = journal_record (backend d) row' \<and>
        d' = d\<lparr>journals := row_update j_id jid (\<lambda>_. row') (journals d)\<rparr>)"
  by (auto simp: with_journal_def split: option.splits sum.splits)

lemma journal_claim_Inr:
  assumes "journal_claim fp run slot_id h now d = (Inr v, d')"
  obtains t slot row where "aware_utc now = Inr t" "validate_hash fp = Inr fp" "validate_hash h = Inr h"
    "1 \<le> run" "1 \<le> slot_id"
    "row_get s_id slot_id (slots d) = Some slot" "s_fingerprint slot = fp" "s_run_id slot = run"
    "s_request_key_hash slot = h" "s_status slot = SlotClaimed"
    "\<forall>j \<in> set (journals d). j_slot_id j \<noteq> slot_id"
    "row = \<lparr>j_id = fresh_key j_id (journals d), j_fingerprint = fp, j_run_id = run,
            j_slot_id = slot_id, j_binding_hash = h, j_permit_id = None,
            j_status = Claimed, j_failure_code = None, j_claimed_at = t,
            j_send_started_at = None, j_settled_at = None, j_resolved_at = None,
            j_version = 0\<rparr>"
    "v = journal_record (backend d) row"
    "d' = d\<lparr>journals := journals d @ [row]\<rparr>" "db_ok d'"
  using assms
  by (auto simp: journal_claim_def journal_claim_body_def transaction_Inr Let_def list_ex_iff
      validate_identifier_def validate_hash_Inr split: if_splits option.splits)

text \<open>
  Every other operation that returns rewrote one existing row by one lifecycle edge (recovery
  may also leave a terminal row alone) and returned that row's record.
\<close>

definition journal_effect :: "int \<Rightarrow> db \<Rightarrow> live_record \<Rightarrow> db \<Rightarrow> bool" where
  "journal_effect jid d v d' \<longleftrightarrow>
     (\<exists>row row'. row_get j_id jid (journals d) = Some row \<and>
        (row' = row \<or> journal_step row row') \<and> v = journal_record (backend d) row' \<and>
        d' = d\<lparr>journals := row_update j_id jid (\<lambda>_. row') (journals d)\<rparr> \<and> db_ok d')"

lemma journal_effectI:
  assumes "transaction (with_journal jid f) d = (Inr v, d')"
    and "\<And>row row'. f d row = Inr row' \<Longrightarrow> row' = row \<or> journal_step row row'"
  shows "journal_effect jid d v d'"
  using assms unfolding journal_effect_def transaction_Inr with_journal_Inr by blast

lemma journal_resolve_effect:
  assumes "journal_resolve jid target code now d = (Inr v, d')" and "target \<in> {Completed, Failed}"
  shows "journal_effect jid d v d'"
  using assms unfolding journal_resolve_def before_Inr
  by (blast intro: journal_effectI dest: resolve_row_step)

lemma journal_effects:
  "journal_start_send jid pid now d = (Inr v, d') \<Longrightarrow> journal_effect jid d v d'"
  "journal_settle jid pid now d = (Inr v, d') \<Longrightarrow> journal_effect jid d v d'"
  "journal_complete jid now d = (Inr v, d') \<Longrightarrow> journal_effect jid d v d'"
  "journal_fail jid code now d = (Inr v, d') \<Longrightarrow> journal_effect jid d v d'"
  "journal_mark_indeterminate jid code now d = (Inr v, d') \<Longrightarrow> journal_effect jid d v d'"
  "journal_recover jid now d = (Inr v, d') \<Longrightarrow> journal_effect jid d v d'"
proof -
  show "journal_start_send jid pid now d = (Inr v, d') \<Longrightarrow> journal_effect jid d v d'"
    unfolding journal_start_send_def before_Inr
    by (elim exE conjE, erule journal_effectI) (blast dest: start_send_row_step)
  show "journal_settle jid pid now d = (Inr v, d') \<Longrightarrow> journal_effect jid d v d'"
    unfolding journal_settle_def before_Inr
    by (elim exE conjE, erule journal_effectI) (blast dest: settle_row_step)
  show "journal_complete jid now d = (Inr v, d') \<Longrightarrow> journal_effect jid d v d'"
    unfolding journal_complete_def by (erule journal_resolve_effect) simp
  show "journal_fail jid code now d = (Inr v, d') \<Longrightarrow> journal_effect jid d v d'"
    unfolding journal_fail_def before_Inr
    by (elim exE conjE, erule journal_resolve_effect) simp
  show "journal_mark_indeterminate jid code now d = (Inr v, d') \<Longrightarrow> journal_effect jid d v d'"
    unfolding journal_mark_indeterminate_def before_Inr
    by (elim exE conjE, erule journal_effectI) (blast dest: indeterminate_row_step)
  show "journal_recover jid now d = (Inr v, d') \<Longrightarrow> journal_effect jid d v d'"
    unfolding journal_recover_def before_Inr
    by (elim exE conjE, erule journal_effectI) (use recover_row_step in auto)
qed

lemma journal_results:
  "journal_start_send jid pid now d = (Inr v, d') \<Longrightarrow> jr_state v = SendStarted"
  "journal_settle jid pid now d = (Inr v, d') \<Longrightarrow> jr_state v = Settled"
  "journal_complete jid now d = (Inr v, d') \<Longrightarrow> jr_state v = Completed"
  "journal_fail jid code now d = (Inr v, d') \<Longrightarrow> jr_state v = Failed"
  "journal_mark_indeterminate jid code now d = (Inr v, d') \<Longrightarrow> jr_state v = Indeterminate"
  "journal_recover jid now d = (Inr v, d') \<Longrightarrow> terminal (jr_state v)"
  by (auto simp: journal_start_send_def journal_settle_def journal_complete_def journal_fail_def
      journal_resolve_def journal_mark_indeterminate_def journal_recover_def transaction_Inr
      with_journal_Inr journal_record_def row_op_defs Let_def terminal_def
      split: if_splits option.splits)

end
