(* ===== verification/PersistentSafety.thy ===== *)
theory PersistentSafety
  imports G0 FirstSlot Journal
begin

text \<open>
  The transactional permit service of \<open>src/pixiv_yuri/acquisition/persistent_safety.py\<close>:
  one object per approval and crawl run, every method one transaction.  Authorization returns
  a decision from inside the transaction, so that a stop is committed before it is raised.
  The permit identifier (\<open>str(uuid4())\<close>) is an argument, and so is the time; instants
  within a minute of the first representable one are out of scope.
\<close>

section \<open>State and data\<close>

record psafety =
  ps_approval :: g0_approval
  ps_fingerprint :: pystr
  ps_run_id :: int

definition init_psafety :: "(g0_approval \<Rightarrow> pystr) \<Rightarrow> g0_approval \<Rightarrow> int \<Rightarrow> psafety" where
  "init_psafety fpr approval run =
     \<lparr>ps_approval = approval, ps_fingerprint = fpr approval, ps_run_id = run\<rparr>"

record persistent_permit =
  pp_permit_id :: pystr
  pp_sequence :: int
  pp_request_key_hash :: pystr
  pp_fingerprint :: pystr
  pp_authorized_at :: instant
  pp_estimated_cost :: rat

record authorization_decision =
  ad_permit :: "persistent_permit option"
  ad_stopped_reason :: "stop_reason option"
  ad_deferred :: bool

section \<open>Helpers\<close>

definition finish_authorization :: "authorization_decision \<Rightarrow> error + persistent_permit" where
  "finish_authorization a =
     (case ad_stopped_reason a of
        Some r \<Rightarrow> Inl (AcquisitionStopped r)
      | None \<Rightarrow>
          if ad_deferred a then Inl AcquisitionDeferred
          else case ad_permit a of None \<Rightarrow> Inl AssertionError | Some p \<Rightarrow> Inr p)"

definition locked_run_budget :: "db \<Rightarrow> int \<Rightarrow> run_budget option" where
  "locked_run_budget d run = find (\<lambda>r. r_run_id r = run) (run_budgets d)"

definition require_run_budget :: "psafety \<Rightarrow> db \<Rightarrow> error + run_budget" where
  "require_run_budget ps d =
     (case locked_run_budget d (ps_run_id ps) of
        None \<Rightarrow> Inl ValueError
      | Some rb \<Rightarrow> if r_fingerprint rb \<noteq> ps_fingerprint ps then Inl ValueError else Inr rb)"

text \<open>\<open>_locked_daily_budget\<close> with \<open>create=True\<close>: the row of the day, made when it is missing.\<close>

definition new_daily :: "int \<Rightarrow> pystr \<Rightarrow> date \<Rightarrow> daily_budget" where
  "new_daily k fp budget_day =
     \<lparr>d_id = k, d_fingerprint = fp, d_day = budget_day, d_request_count = 0,
      d_estimated_cost = 0, d_version = 0\<rparr>"

definition locked_daily_budget :: "pystr \<Rightarrow> date \<Rightarrow> db \<Rightarrow> daily_budget \<times> db" where
  "locked_daily_budget fp budget_day d =
     (case find (\<lambda>r. d_fingerprint r = fp \<and> d_day r = budget_day) (daily_budgets d) of
        Some r \<Rightarrow> (r, d)
      | None \<Rightarrow>
          let r = new_daily (fresh_key d_id (daily_budgets d)) fp budget_day
          in (r, d\<lparr>daily_budgets := daily_budgets d @ [r]\<rparr>))"

text \<open>\<open>_monthly_estimated_cost\<close>; \<open>date.replace\<close> refuses a year after 9999.\<close>

definition month_start :: "date \<Rightarrow> date" where
  "month_start d = Date (year d) (month d) 1"

definition next_month :: "date \<Rightarrow> error + date" where
  "next_month start =
     (if month start = 12
      then (if 9999 < year start + 1 then Inl ValueError else Inr (Date (year start + 1) 1 1))
      else Inr (Date (year start) (month start + 1) 1))"

definition cost_between :: "pystr \<Rightarrow> date \<Rightarrow> date \<Rightarrow> db \<Rightarrow> rat" where
  "cost_between fp lo hi d =
     sum_rows d_estimated_cost
       (filter (\<lambda>r. d_fingerprint r = fp \<and> lo \<le> d_day r \<and> d_day r < hi) (daily_budgets d))"

definition monthly_estimated_cost :: "pystr \<Rightarrow> date \<Rightarrow> db \<Rightarrow> error + rat" where
  "monthly_estimated_cost fp budget_day d =
     bindr (next_month (month_start budget_day)) (\<lambda>hi.
       Inr (cost_between fp (month_start budget_day) hi d))"

definition trigger_of :: "stop_reason \<Rightarrow> trigger_source" where
  "trigger_of r =
     (if r = ApprovalInactive then TriggerApproval
      else if r \<in> {PerRunRequestCap, DailyRequestCap, DailyCostCap, MonthlyCostCap}
      then TriggerBudget else TriggerSystem)"

definition record_stop ::
  "run_budget \<Rightarrow> stop_reason \<Rightarrow> instant \<Rightarrow> trigger_source \<Rightarrow> db \<Rightarrow> db" where
  "record_stop rb reason t trigger d =
     d\<lparr>run_budgets := row_update r_id (r_id rb)
         (\<lambda>r. r\<lparr>r_stop_reason := Some reason, r_version := r_version r + 1\<rparr>) (run_budgets d),
       stop_events := stop_events d @
         [\<lparr>e_id = fresh_key e_id (stop_events d), e_fingerprint = r_fingerprint rb,
           e_run_id = r_run_id rb, e_reason = reason, e_trigger = trigger,
           e_occurred_at = t\<rparr>]\<rparr>"

section \<open>The authorization kernel\<close>

definition global_in_flight :: "pystr \<Rightarrow> db \<Rightarrow> int" where
  "global_in_flight fp d =
     sum_rows r_in_flight (filter (\<lambda>r. r_fingerprint r = fp) (run_budgets d))"

definition authorized_after :: "pystr \<Rightarrow> instant \<Rightarrow> db \<Rightarrow> int" where
  "authorized_after fp t d =
     count_rows (\<lambda>p. p_fingerprint p = fp \<and> t < p_authorized_at p) (permits d)"

datatype verdict = Grant | StopRun stop_reason | Defer

text \<open>The chain of limit tests, in the order of the code.\<close>

definition limit_verdict ::
  "psafety \<Rightarrow> run_budget \<Rightarrow> daily_budget \<Rightarrow> instant \<Rightarrow> rat \<Rightarrow> db \<Rightarrow> error + verdict" where
  "limit_verdict ps rb daily t cost d =
     bindr (monthly_estimated_cost (ps_fingerprint ps) (utc_date t) d) (\<lambda>monthly.
       let traffic = traffic_limits (ps_approval ps); costs = cost_limits (ps_approval ps)
       in Inr (if concurrency traffic \<le> global_in_flight (ps_fingerprint ps) d then Defer
               else if requests_per_minute traffic
                       \<le> authorized_after (ps_fingerprint ps) (t - minutes 1) d then Defer
               else if per_run_request_cap traffic \<le> r_request_count rb
                 then StopRun PerRunRequestCap
               else if daily_request_cap traffic \<le> d_request_count daily
                 then StopRun DailyRequestCap
               else if daily_cap costs < d_estimated_cost daily + cost then StopRun DailyCostCap
               else if monthly_cap costs < monthly + cost then StopRun MonthlyCostCap
               else Grant))"

definition run_verdict ::
  "psafety \<Rightarrow> run_budget \<Rightarrow> daily_budget \<Rightarrow> instant \<Rightarrow> rat \<Rightarrow> db \<Rightarrow> error + verdict" where
  "run_verdict ps rb daily t cost d =
     (case r_stop_reason rb of
        Some r \<Rightarrow> Inr (StopRun r)
      | None \<Rightarrow> if \<not> approval_active (ps_approval ps) t then Inr (StopRun ApprovalInactive)
                else limit_verdict ps rb daily t cost d)"

definition new_permit ::
  "psafety \<Rightarrow> run_budget \<Rightarrow> pystr \<Rightarrow> pystr \<Rightarrow> instant \<Rightarrow> rat \<Rightarrow> db \<Rightarrow> permit_row" where
  "new_permit ps rb pid h t cost d =
     \<lparr>p_id = fresh_key p_id (permits d), p_permit_id = pid, p_run_budget_id = r_id rb,
      p_sequence = r_request_count rb + 1, p_request_key_hash = h,
      p_fingerprint = ps_fingerprint ps, p_estimated_cost = cost,
      p_status = PermitAuthorized, p_authorized_at = t, p_consumed_at = None,
      p_response_status = None\<rparr>"

definition grant_permit ::
  "psafety \<Rightarrow> run_budget \<Rightarrow> daily_budget \<Rightarrow> pystr \<Rightarrow> pystr \<Rightarrow> instant \<Rightarrow> rat \<Rightarrow> db \<Rightarrow> db" where
  "grant_permit ps rb daily pid h t cost d =
     d\<lparr>run_budgets := row_update r_id (r_id rb)
         (\<lambda>r. r\<lparr>r_request_count := r_request_count rb + 1, r_in_flight := r_in_flight r + 1,
                r_version := r_version r + 1\<rparr>) (run_budgets d),
       daily_budgets := row_update d_id (d_id daily)
         (\<lambda>r. r\<lparr>d_request_count := d_request_count r + 1,
                d_estimated_cost := d_estimated_cost daily + cost,
                d_version := d_version r + 1\<rparr>) (daily_budgets d),
       permits := permits d @ [new_permit ps rb pid h t cost d]\<rparr>"

definition granted :: "permit_row \<Rightarrow> persistent_permit" where
  "granted p =
     \<lparr>pp_permit_id = p_permit_id p, pp_sequence = p_sequence p,
      pp_request_key_hash = p_request_key_hash p, pp_fingerprint = p_fingerprint p,
      pp_authorized_at = p_authorized_at p, pp_estimated_cost = p_estimated_cost p\<rparr>"

definition reserve_request ::
  "psafety \<Rightarrow> pystr \<Rightarrow> pystr \<Rightarrow> instant \<Rightarrow> rat \<Rightarrow> db \<Rightarrow> error + authorization_decision \<times> db" where
  "reserve_request ps pid h t cost d0 =
     bindr (require_run_budget ps d0) (\<lambda>rb.
       case locked_daily_budget (ps_fingerprint ps) (utc_date t) d0 of (daily, d) \<Rightarrow>
         if list_ex (\<lambda>p. p_run_budget_id p = r_id rb \<and> p_request_key_hash p = h) (permits d)
         then Inl DuplicateRequestPermit
         else bindr (run_verdict ps rb daily t cost d) (\<lambda>v.
           case v of
             Grant \<Rightarrow>
               Inr (\<lparr>ad_permit = Some (granted (new_permit ps rb pid h t cost d)),
                     ad_stopped_reason = None, ad_deferred = False\<rparr>,
                    grant_permit ps rb daily pid h t cost d)
           | StopRun r \<Rightarrow>
               Inr (\<lparr>ad_permit = None, ad_stopped_reason = Some r, ad_deferred = False\<rparr>,
                    if r_stop_reason rb = None then record_stop rb r t (trigger_of r) d else d)
           | Defer \<Rightarrow>
               Inr (\<lparr>ad_permit = None, ad_stopped_reason = None, ad_deferred = True\<rparr>, d)))"

section \<open>Operations\<close>

definition new_run_budget :: "int \<Rightarrow> int \<Rightarrow> pystr \<Rightarrow> run_budget" where
  "new_run_budget k run fp =
     \<lparr>r_id = k, r_run_id = run, r_fingerprint = fp, r_request_count = 0, r_in_flight = 0,
      r_403 = 0, r_429 = 0, r_stop_reason = None, r_version = 0\<rparr>"

definition initialize_body :: "psafety \<Rightarrow> instant \<Rightarrow> db \<Rightarrow> error + unit \<times> db" where
  "initialize_body ps t d =
     (if ps_run_id ps \<notin> set (crawl_runs d) then Inl ValueError
      else case locked_run_budget d (ps_run_id ps) of
        None \<Rightarrow>
          let row = new_run_budget (fresh_key r_id (run_budgets d)) (ps_run_id ps)
                      (ps_fingerprint ps)
          in Inr ((), snd (locked_daily_budget (ps_fingerprint ps) (utc_date t)
                             (d\<lparr>run_budgets := run_budgets d @ [row]\<rparr>)))
      | Some rb \<Rightarrow>
          if r_fingerprint rb \<noteq> ps_fingerprint ps then Inl ValueError
          else Inr ((), snd (locked_daily_budget (ps_fingerprint ps) (utc_date t) d)))"

definition ps_initialize :: "psafety \<Rightarrow> pydatetime \<Rightarrow> db \<Rightarrow> unit outcome" where
  "ps_initialize ps now =
     before (aware_utc now) (\<lambda>t.
     before (if approval_active (ps_approval ps) t then Inr ()
             else Inl (AcquisitionStopped ApprovalInactive)) (\<lambda>_.
       transaction (initialize_body ps t)))"

text \<open>
  \<open>initialize\<close> takes no lock that keeps others from inserting: its lookups saw the database \<open>seen\<close>, and
  the rows that it missed there are inserted into the database \<open>d\<close> of the commit.
\<close>

definition day_known :: "pystr \<Rightarrow> date \<Rightarrow> db \<Rightarrow> bool" where
  "day_known fp budget_day d \<longleftrightarrow>
     list_ex (\<lambda>r. d_fingerprint r = fp \<and> d_day r = budget_day) (daily_budgets d)"

definition insert_day :: "pystr \<Rightarrow> date \<Rightarrow> db \<Rightarrow> db" where
  "insert_day fp budget_day d =
     d\<lparr>daily_budgets := daily_budgets d @ [new_daily (fresh_key d_id (daily_budgets d)) fp budget_day]\<rparr>"

definition insert_run :: "psafety \<Rightarrow> db \<Rightarrow> db" where
  "insert_run ps d =
     d\<lparr>run_budgets := run_budgets d @
         [new_run_budget (fresh_key r_id (run_budgets d)) (ps_run_id ps) (ps_fingerprint ps)]\<rparr>"

definition overlapped_initialize_body :: "psafety \<Rightarrow> instant \<Rightarrow> db \<Rightarrow> db \<Rightarrow> error + unit \<times> db" where
  "overlapped_initialize_body ps t seen d =
     (if ps_run_id ps \<notin> set (crawl_runs seen) then Inl ValueError
      else bindr (case locked_run_budget seen (ps_run_id ps) of
            None \<Rightarrow> Inr (insert_run ps d)
          | Some rb \<Rightarrow> if r_fingerprint rb \<noteq> ps_fingerprint ps then Inl ValueError else Inr d)
        (\<lambda>d1. Inr ((), if day_known (ps_fingerprint ps) (utc_date t) seen then d1
                      else insert_day (ps_fingerprint ps) (utc_date t) d1)))"

definition ps_initialize_overlapped :: "psafety \<Rightarrow> pydatetime \<Rightarrow> db \<Rightarrow> db \<Rightarrow> unit outcome" where
  "ps_initialize_overlapped ps now seen =
     before (aware_utc now) (\<lambda>t.
     before (if approval_active (ps_approval ps) t then Inr ()
             else Inl (AcquisitionStopped ApprovalInactive)) (\<lambda>_.
       transaction (overlapped_initialize_body ps t seen)))"

lemma overlapped_initialize_alone: "overlapped_initialize_body ps t d d = initialize_body ps t d"
  by (auto simp: overlapped_initialize_body_def initialize_body_def insert_run_def insert_day_def
      day_known_def locked_daily_budget_def Let_def list_ex_iff find_None_iff
      split: option.splits dest: find_SomeD)

definition after_commit :: "authorization_decision outcome \<Rightarrow> persistent_permit outcome" where
  "after_commit r =
     (case r of (Inl e, d) \<Rightarrow> (Inl e, d) | (Inr a, d) \<Rightarrow> (finish_authorization a, d))"

definition ps_authorize ::
  "(pystr \<Rightarrow> pystr) \<Rightarrow> psafety \<Rightarrow> pystr \<Rightarrow> pystr \<Rightarrow> pydatetime \<Rightarrow> rat \<Rightarrow> db \<Rightarrow>
     persistent_permit outcome" where
  "ps_authorize sha ps pid key now cost =
     before (aware_utc now) (\<lambda>t.
     before (hash_request_key sha key) (\<lambda>h.
     before (if cost < 0 then Inl ValueError else Inr ()) (\<lambda>_ d.
       after_commit (transaction (reserve_request ps pid h t cost) d))))"

text \<open>
  An authorization holds the lock of its approval, but \<open>initialize\<close> does not ask for it: the row of the
  day may be inserted after the authorization looked for it, and its own insertion is then refused.
\<close>

definition day_overtaken ::
  "(pystr \<Rightarrow> pystr) \<Rightarrow> psafety \<Rightarrow> pystr \<Rightarrow> pydatetime \<Rightarrow> rat \<Rightarrow> db \<Rightarrow> db \<Rightarrow> bool" where
  "day_overtaken sha ps key now cost seen d \<longleftrightarrow>
     is_ok (hash_request_key sha key) \<and> 0 \<le> cost \<and> is_ok (require_run_budget ps d) \<and>
     (case aware_utc now of
        Inl _ \<Rightarrow> False
      | Inr t \<Rightarrow> \<not> day_known (ps_fingerprint ps) (utc_date t) seen \<and>
          day_known (ps_fingerprint ps) (utc_date t) d)"

definition ps_authorize_overlapped ::
  "(pystr \<Rightarrow> pystr) \<Rightarrow> psafety \<Rightarrow> pystr \<Rightarrow> pystr \<Rightarrow> pydatetime \<Rightarrow> rat \<Rightarrow> db \<Rightarrow> db \<Rightarrow>
     persistent_permit outcome" where
  "ps_authorize_overlapped sha ps pid key now cost seen d =
     (if day_overtaken sha ps key now cost seen d then (Inl IntegrityError, d)
      else ps_authorize sha ps pid key now cost d)"

text \<open>The second half of \<open>authorize_and_start_live_send\<close>: bind the journal and its slot.\<close>

definition journal_bound :: "psafety \<Rightarrow> pystr \<Rightarrow> journal_row \<Rightarrow> bool" where
  "journal_bound ps h j \<longleftrightarrow>
     j_status j = Claimed \<and> j_fingerprint j = ps_fingerprint ps \<and> j_run_id j = ps_run_id ps \<and>
     j_binding_hash j = h"

definition slot_bound :: "psafety \<Rightarrow> pystr \<Rightarrow> slot_row \<Rightarrow> bool" where
  "slot_bound ps h s \<longleftrightarrow>
     s_status s = SlotClaimed \<and> s_fingerprint s = ps_fingerprint ps \<and> s_run_id s = ps_run_id ps \<and>
     s_request_key_hash s = h"

definition start_journal ::
  "psafety \<Rightarrow> int \<Rightarrow> pystr \<Rightarrow> instant \<Rightarrow> persistent_permit \<Rightarrow> db \<Rightarrow> error + db" where
  "start_journal ps jid h t permit d =
     (case row_get j_id jid (journals d) of
        None \<Rightarrow> Inl ValueError
      | Some j \<Rightarrow>
          if \<not> journal_bound ps h j then Inl ValueError
          else (case row_get s_id (j_slot_id j) (slots d) of
             None \<Rightarrow> Inl ValueError
           | Some s \<Rightarrow>
               if \<not> slot_bound ps h s then Inl ValueError
               else Inr (d\<lparr>journals := row_update j_id jid
                      (\<lambda>r. r\<lparr>j_permit_id := Some (pp_permit_id permit), j_status := SendStarted,
                             j_send_started_at := Some t, j_version := j_version r + 1\<rparr>)
                      (journals d)\<rparr>)))"

definition live_send_body ::
  "psafety \<Rightarrow> int \<Rightarrow> pystr \<Rightarrow> pystr \<Rightarrow> instant \<Rightarrow> rat \<Rightarrow> db \<Rightarrow>
     error + authorization_decision \<times> db" where
  "live_send_body ps jid pid h t cost d0 =
     bindr (reserve_request ps pid h t cost d0) (\<lambda>(a, d).
       case ad_permit a of
         None \<Rightarrow> Inr (a, d)
       | Some permit \<Rightarrow> bindr (start_journal ps jid h t permit d) (\<lambda>d'. Inr (a, d')))"

definition ps_authorize_live ::
  "(pystr \<Rightarrow> pystr) \<Rightarrow> psafety \<Rightarrow> int \<Rightarrow> pystr \<Rightarrow> pystr \<Rightarrow> pydatetime \<Rightarrow> rat \<Rightarrow> db \<Rightarrow>
     persistent_permit outcome" where
  "ps_authorize_live sha ps jid pid key now cost =
     before (aware_utc now) (\<lambda>t.
     before (hash_request_key sha key) (\<lambda>h.
     before (if cost < 0 then Inl ValueError else Inr ()) (\<lambda>_.
     before (validate_identifier jid) (\<lambda>_ d.
       after_commit (transaction (live_send_body ps jid pid h t cost) d)))))"

definition ps_authorize_live_overlapped ::
  "(pystr \<Rightarrow> pystr) \<Rightarrow> psafety \<Rightarrow> int \<Rightarrow> pystr \<Rightarrow> pystr \<Rightarrow> pydatetime \<Rightarrow> rat \<Rightarrow> db \<Rightarrow> db \<Rightarrow>
     persistent_permit outcome" where
  "ps_authorize_live_overlapped sha ps jid pid key now cost seen d =
     (if 1 \<le> jid \<and> day_overtaken sha ps key now cost seen d then (Inl IntegrityError, d)
      else ps_authorize_live sha ps jid pid key now cost d)"

definition locked_permit_and_run ::
  "psafety \<Rightarrow> pystr \<Rightarrow> db \<Rightarrow> error + permit_row \<times> run_budget" where
  "locked_permit_and_run ps pid d =
     (case find (\<lambda>p. p_permit_id p = pid) (permits d) of
        None \<Rightarrow> Inl ValueError
      | Some p \<Rightarrow>
          if p_fingerprint p \<noteq> ps_fingerprint ps then Inl ValueError
          else if p_status p \<noteq> PermitAuthorized then Inl ValueError
          else (case row_get r_id (p_run_budget_id p) (run_budgets d) of
             None \<Rightarrow> Inl ValueError
           | Some rb \<Rightarrow>
               if r_run_id rb \<noteq> ps_run_id ps then Inl ValueError
               else if r_in_flight rb < 1 then Inl ValueError
               else Inr (p, rb)))"

text \<open>The breaker's two counters after a response, and the reason it trips for.\<close>

definition count_response :: "int \<Rightarrow> run_budget \<Rightarrow> run_budget" where
  "count_response status rb =
     (if status = 403 then rb\<lparr>r_403 := r_403 rb + 1, r_429 := 0\<rparr>
      else if status = 429 then rb\<lparr>r_429 := r_429 rb + 1, r_403 := 0\<rparr>
      else rb\<lparr>r_403 := 0, r_429 := 0\<rparr>)"

definition breaker_reason :: "int \<Rightarrow> run_budget \<Rightarrow> stop_reason option" where
  "breaker_reason status rb =
     (if status = 403 then (if 2 \<le> r_403 rb then Some Repeated403 else None)
      else if status = 429 then (if 2 \<le> r_429 rb then Some Repeated429 else None)
      else None)"

definition consume_row ::
  "permit_status \<Rightarrow> instant \<Rightarrow> int option \<Rightarrow> permit_row \<Rightarrow> permit_row" where
  "consume_row status t response p =
     p\<lparr>p_status := status, p_consumed_at := Some t,
       p_response_status := (case response of None \<Rightarrow> p_response_status p | Some c \<Rightarrow> Some c)\<rparr>"

definition release_row :: "run_budget \<Rightarrow> run_budget" where
  "release_row rb = rb\<lparr>r_in_flight := r_in_flight rb - 1, r_version := r_version rb + 1\<rparr>"

definition record_response_body ::
  "psafety \<Rightarrow> pystr \<Rightarrow> int \<Rightarrow> instant \<Rightarrow> db \<Rightarrow> error + unit \<times> db" where
  "record_response_body ps pid status t d =
     bindr (locked_permit_and_run ps pid d) (\<lambda>(p, rb).
       let rb' = count_response status (release_row rb);
           d' = d\<lparr>permits := row_update p_id (p_id p)
                    (\<lambda>_. consume_row PermitConsumed t (Some status) p) (permits d),
                  run_budgets := row_update r_id (r_id rb) (\<lambda>_. rb') (run_budgets d)\<rparr>
       in case breaker_reason status rb' of
            None \<Rightarrow> Inr ((), d')
          | Some r \<Rightarrow>
              Inr ((), if r_stop_reason rb' = None then record_stop rb' r t TriggerResponse d'
                       else d'))"

definition ps_record_response ::
  "psafety \<Rightarrow> pystr \<Rightarrow> int \<Rightarrow> pydatetime \<Rightarrow> db \<Rightarrow> unit outcome" where
  "ps_record_response ps pid status now =
     before (if 100 \<le> status \<and> status \<le> 599 then Inr () else Inl ValueError) (\<lambda>_.
     before (aware_utc now) (\<lambda>t.
       transaction (record_response_body ps pid status t)))"

definition transport_failure_body :: "psafety \<Rightarrow> pystr \<Rightarrow> instant \<Rightarrow> db \<Rightarrow> error + unit \<times> db" where
  "transport_failure_body ps pid t d =
     bindr (locked_permit_and_run ps pid d) (\<lambda>(p, rb).
       Inr ((), d\<lparr>permits := row_update p_id (p_id p)
                    (\<lambda>_. consume_row PermitTransportFailed t None p) (permits d),
                  run_budgets := row_update r_id (r_id rb) (\<lambda>_. release_row rb)
                    (run_budgets d)\<rparr>))"

definition ps_record_transport_failure ::
  "psafety \<Rightarrow> pystr \<Rightarrow> pydatetime \<Rightarrow> db \<Rightarrow> unit outcome" where
  "ps_record_transport_failure ps pid now =
     before (aware_utc now) (\<lambda>t. transaction (transport_failure_body ps pid t))"

definition stop_body ::
  "psafety \<Rightarrow> stop_reason \<Rightarrow> trigger_source \<Rightarrow> instant \<Rightarrow> db \<Rightarrow> error + unit \<times> db" where
  "stop_body ps reason trigger t d =
     bindr (require_run_budget ps d) (\<lambda>rb.
       Inr ((), if r_stop_reason rb = None then record_stop rb reason t trigger d else d))"

definition ps_stop_manually :: "psafety \<Rightarrow> pydatetime \<Rightarrow> db \<Rightarrow> unit outcome" where
  "ps_stop_manually ps now =
     before (aware_utc now) (\<lambda>t. transaction (stop_body ps ManualStop TriggerOperator t))"

definition ps_signal_schema_drift :: "psafety \<Rightarrow> pydatetime \<Rightarrow> db \<Rightarrow> unit outcome" where
  "ps_signal_schema_drift ps now =
     before (aware_utc now) (\<lambda>t. transaction (stop_body ps SchemaDrift TriggerSchema t))"

end
