(* ===== verification/Ledger.thy ===== *)
theory Ledger
  imports PersistentSafety
begin

text \<open>
  The abstract specification of the acquisition database: the elementary changes its
  transactions are made of (\<open>ledger_change\<close>), and the accounting invariant every one of
  them keeps, from which the constraints of the database and the approved limits follow.
  \<open>A\<close> is the approval a fingerprint stands for.
\<close>

section \<open>Elementary changes\<close>

definition released :: "run_budget \<Rightarrow> run_budget \<Rightarrow> bool" where
  "released rb rb' \<longleftrightarrow>
     r_id rb' = r_id rb \<and> r_run_id rb' = r_run_id rb \<and> r_fingerprint rb' = r_fingerprint rb \<and>
     r_request_count rb' = r_request_count rb \<and> r_in_flight rb' = r_in_flight rb - 1 \<and>
     (run_budget_ok rb \<longrightarrow> 1 \<le> r_in_flight rb \<longrightarrow> run_budget_ok rb')"

definition permit_run :: "run_budget list \<Rightarrow> permit_row \<Rightarrow> int \<Rightarrow> bool" where
  "permit_run rbs p run \<longleftrightarrow> (\<exists>rb \<in> set rbs. r_id rb = p_run_budget_id p \<and> r_run_id rb = run)"

definition permit_for :: "db \<Rightarrow> journal_row \<Rightarrow> permit_row \<Rightarrow> bool" where
  "permit_for d j p \<longleftrightarrow>
     p \<in> set (permits d) \<and> j_permit_id j = Some (p_permit_id p) \<and>
     p_fingerprint p = j_fingerprint j \<and> p_request_key_hash p = j_binding_hash j \<and>
     permit_run (run_budgets d) p (j_run_id j)"

inductive ledger_change :: "(pystr \<Rightarrow> g0_approval) \<Rightarrow> db \<Rightarrow> db \<Rightarrow> bool" for A where
  add_run: "ledger_change A d (d\<lparr>crawl_runs := run # crawl_runs d\<rparr>)"
| bind_run: "run \<in> set (crawl_runs d) \<Longrightarrow> \<forall>r \<in> set (run_budgets d). r_run_id r \<noteq> run \<Longrightarrow>
    ledger_change A d
      (d\<lparr>run_budgets := run_budgets d @ [new_run_budget (fresh_key r_id (run_budgets d)) run fp]\<rparr>)"
| open_day: "\<forall>r \<in> set (daily_budgets d). d_fingerprint r = fp \<longrightarrow> d_day r \<noteq> utc_date t \<Longrightarrow>
    ledger_change A d (d\<lparr>daily_budgets := daily_budgets d @
      [new_daily (fresh_key d_id (daily_budgets d)) fp (utc_date t)]\<rparr>)"
| grant: "rb \<in> set (run_budgets d) \<Longrightarrow> r_fingerprint rb = ps_fingerprint ps \<Longrightarrow>
    daily \<in> set (daily_budgets d) \<Longrightarrow> d_fingerprint daily = ps_fingerprint ps \<Longrightarrow>
    d_day daily = utc_date t \<Longrightarrow> ps_approval ps = A (ps_fingerprint ps) \<Longrightarrow>
    \<forall>p \<in> set (permits d). p_run_budget_id p = r_id rb \<longrightarrow> p_request_key_hash p \<noteq> h \<Longrightarrow>
    \<forall>p \<in> set (permits d). p_permit_id p \<noteq> pid \<Longrightarrow> 0 \<le> cost \<Longrightarrow>
    run_verdict ps rb daily t cost d = Inr Grant \<Longrightarrow>
    ledger_change A d (grant_permit ps rb daily pid h t cost d)"
| stop: "rb \<in> set (run_budgets d) \<Longrightarrow> ledger_change A d (record_stop rb reason t trigger d)"
| settle_permit: "p \<in> set (permits d) \<Longrightarrow> rb \<in> set (run_budgets d) \<Longrightarrow>
    r_id rb = p_run_budget_id p \<Longrightarrow> p_status p = PermitAuthorized \<Longrightarrow>
    status \<in> {PermitConsumed, PermitTransportFailed} \<Longrightarrow>
    (case response of None \<Rightarrow> True | Some c \<Rightarrow> 100 \<le> c \<and> c \<le> 599) \<Longrightarrow>
    1 \<le> r_in_flight rb \<Longrightarrow> released rb rb' \<Longrightarrow>
    ledger_change A d
      (d\<lparr>permits := row_update p_id (p_id p) (\<lambda>_. consume_row status t response p) (permits d),
         run_budgets := row_update r_id (r_id rb) (\<lambda>_. rb') (run_budgets d)\<rparr>)"
| claim_slot: "run_bound (s_run_id row) (s_fingerprint row) d \<Longrightarrow>
    \<forall>s \<in> set (slots d). s_fingerprint s \<noteq> s_fingerprint row \<Longrightarrow>
    s_id row = fresh_key s_id (slots d) \<Longrightarrow> slot_ok row \<Longrightarrow>
    ledger_change A d (d\<lparr>slots := slots d @ [row]\<rparr>)"
| resolve_slot: "row \<in> set (slots d) \<Longrightarrow> s_id row = k \<Longrightarrow> status \<in> {SlotCompleted, SlotFailed} \<Longrightarrow>
    ledger_change A d (d\<lparr>slots := row_update s_id k
      (\<lambda>r. r\<lparr>s_status := status, s_resolved_at := Some t\<rparr>) (slots d)\<rparr>)"
| claim_journal: "slot \<in> set (slots d) \<Longrightarrow> j_slot_id row = s_id slot \<Longrightarrow>
    j_fingerprint row = s_fingerprint slot \<Longrightarrow> j_run_id row = s_run_id slot \<Longrightarrow>
    j_binding_hash row = s_request_key_hash slot \<Longrightarrow>
    \<forall>j \<in> set (journals d). j_slot_id j \<noteq> s_id slot \<Longrightarrow>
    j_id row = fresh_key j_id (journals d) \<Longrightarrow> j_status row = Claimed \<Longrightarrow> journal_ok row \<Longrightarrow>
    ledger_change A d (d\<lparr>journals := journals d @ [row]\<rparr>)"
| move_journal: "row \<in> set (journals d) \<Longrightarrow> j_id row = k \<Longrightarrow> journal_step row row' \<Longrightarrow>
    journal_ok row' \<Longrightarrow>
    j_status row' = SendStarted \<longrightarrow> (\<exists>p. permit_for d row' p \<and> p_status p = PermitAuthorized) \<Longrightarrow>
    j_status row' = Settled \<longrightarrow> (\<exists>p. permit_for d row' p \<and> p_status p = PermitConsumed) \<Longrightarrow>
    ledger_change A d (d\<lparr>journals := row_update j_id k (\<lambda>_. row') (journals d)\<rparr>)"

section \<open>The invariant\<close>

text \<open>Counters of a run against the permits issued in it.\<close>

definition runs_counted :: "(pystr \<Rightarrow> g0_approval) \<Rightarrow> run_budget list \<Rightarrow> permit_row list \<Rightarrow> bool"
  where
  "runs_counted A rbs ps \<longleftrightarrow>
     (\<forall>rb \<in> set rbs.
        r_in_flight rb = count_rows (\<lambda>p. p_run_budget_id p = r_id rb \<and> p_status p = PermitAuthorized) ps \<and>
        r_request_count rb = count_rows (\<lambda>p. p_run_budget_id p = r_id rb) ps \<and>
        r_request_count rb \<le> per_run_request_cap (traffic_limits (A (r_fingerprint rb))))"

definition permits_in_runs :: "run_budget list \<Rightarrow> permit_row list \<Rightarrow> bool" where
  "permits_in_runs rbs ps \<longleftrightarrow>
     (\<forall>p \<in> set ps. \<exists>rb \<in> set rbs. r_id rb = p_run_budget_id p \<and>
        r_fingerprint rb = p_fingerprint p \<and> p_sequence p \<le> r_request_count rb)"

definition permit_on :: "pystr \<Rightarrow> date \<Rightarrow> permit_row \<Rightarrow> bool" where
  "permit_on fp D p \<longleftrightarrow> p_fingerprint p = fp \<and> utc_date (p_authorized_at p) = D"

definition days_counted ::
  "(pystr \<Rightarrow> g0_approval) \<Rightarrow> daily_budget list \<Rightarrow> permit_row list \<Rightarrow> bool" where
  "days_counted A ds ps \<longleftrightarrow>
     (\<forall>r \<in> set ds. date_valid (d_day r) \<and>
        d_request_count r = count_rows (permit_on (d_fingerprint r) (d_day r)) ps \<and>
        d_estimated_cost r =
          sum_rows (\<lambda>p. if permit_on (d_fingerprint r) (d_day r) p then p_estimated_cost p else 0) ps \<and>
        d_request_count r \<le> daily_request_cap (traffic_limits (A (d_fingerprint r))) \<and>
        d_estimated_cost r \<le> daily_cap (cost_limits (A (d_fingerprint r)))) \<and>
     (\<forall>p \<in> set ps. \<exists>r \<in> set ds. permit_on (d_fingerprint r) (d_day r) p)"

definition month_cost :: "pystr \<Rightarrow> int \<Rightarrow> int \<Rightarrow> daily_budget list \<Rightarrow> rat" where
  "month_cost fp y m ds =
     sum_rows (\<lambda>r. if d_fingerprint r = fp \<and> year (d_day r) = y \<and> month (d_day r) = m
                   then d_estimated_cost r else 0) ds"

definition months_capped :: "(pystr \<Rightarrow> g0_approval) \<Rightarrow> daily_budget list \<Rightarrow> bool" where
  "months_capped A ds \<longleftrightarrow> (\<forall>fp y m. month_cost fp y m ds \<le> monthly_cap (cost_limits (A fp)))"

definition flight_capped :: "(pystr \<Rightarrow> g0_approval) \<Rightarrow> run_budget list \<Rightarrow> bool" where
  "flight_capped A rbs \<longleftrightarrow>
     (\<forall>fp. sum_rows (\<lambda>r. if r_fingerprint r = fp then r_in_flight r else 0) rbs
            \<le> concurrency (traffic_limits (A fp)))"

text \<open>Permits authorised in a half-open interval; the rate limit bounds every minute.\<close>

definition authorized_in :: "pystr \<Rightarrow> instant \<Rightarrow> instant \<Rightarrow> permit_row list \<Rightarrow> int" where
  "authorized_in fp lo hi ps =
     count_rows (\<lambda>p. p_fingerprint p = fp \<and> lo < p_authorized_at p \<and> p_authorized_at p \<le> hi) ps"

definition rate_capped :: "(pystr \<Rightarrow> g0_approval) \<Rightarrow> permit_row list \<Rightarrow> bool" where
  "rate_capped A ps \<longleftrightarrow>
     (\<forall>fp t. authorized_in fp (t - minutes 1) t ps \<le> requests_per_minute (traffic_limits (A fp)))"

definition slots_bound :: "run_budget list \<Rightarrow> slot_row list \<Rightarrow> bool" where
  "slots_bound rbs ss \<longleftrightarrow>
     (\<forall>s \<in> set ss. \<exists>rb \<in> set rbs. r_run_id rb = s_run_id s \<and> r_fingerprint rb = s_fingerprint s)"

definition journal_of_slot :: "journal_row \<Rightarrow> slot_row \<Rightarrow> bool" where
  "journal_of_slot j s \<longleftrightarrow> s_id s = j_slot_id j \<and> s_fingerprint s = j_fingerprint j \<and>
     s_run_id s = j_run_id j \<and> s_request_key_hash s = j_binding_hash j"

definition journals_bound :: "slot_row list \<Rightarrow> journal_row list \<Rightarrow> bool" where
  "journals_bound ss js \<longleftrightarrow> (\<forall>j \<in> set js. \<exists>s \<in> set ss. journal_of_slot j s)"

definition sends_bound :: "run_budget list \<Rightarrow> permit_row list \<Rightarrow> journal_row list \<Rightarrow> bool" where
  "sends_bound rbs ps js \<longleftrightarrow>
     (\<forall>j \<in> set js. \<forall>pid. j_permit_id j = Some pid \<longrightarrow>
        (\<exists>p \<in> set ps. p_permit_id p = pid \<and> p_fingerprint p = j_fingerprint j \<and>
           p_request_key_hash p = j_binding_hash j \<and>
           permit_run rbs p (j_run_id j) \<and>
           (j_status j \<in> {Settled, Completed} \<longrightarrow> p_status p = PermitConsumed)))"

definition ledger_inv :: "(pystr \<Rightarrow> g0_approval) \<Rightarrow> db \<Rightarrow> bool" where
  "ledger_inv A d \<longleftrightarrow>
     checks_ok d \<and> unique_ok d \<and> foreign_ok d \<and>
     runs_counted A (run_budgets d) (permits d) \<and>
     permits_in_runs (run_budgets d) (permits d) \<and>
     days_counted A (daily_budgets d) (permits d) \<and>
     months_capped A (daily_budgets d) \<and>
     flight_capped A (run_budgets d) \<and>
     rate_capped A (permits d) \<and>
     slots_bound (run_budgets d) (slots d) \<and>
     journals_bound (slots d) (journals d) \<and>
     sends_bound (run_budgets d) (permits d) (journals d)"

section \<open>The invariant is kept\<close>

lemmas ledger_parts =
  checks_ok_def unique_ok_def foreign_ok_def

text \<open>Changes that leave budgets and permits alone.\<close>

lemma add_run_inv: "ledger_inv A d \<Longrightarrow> ledger_inv A (d\<lparr>crawl_runs := run # crawl_runs d\<rparr>)"
  by (simp add: ledger_inv_def ledger_parts list_all_iff)

lemma count_rows_none: "(\<And>r. r \<in> set rows \<Longrightarrow> \<not> P r) \<Longrightarrow> count_rows P rows = 0"
  by (simp add: count_rows_eq_0)

lemma sum_rows_none: "(\<And>r. r \<in> set rows \<Longrightarrow> g r = 0) \<Longrightarrow> sum_rows g rows = 0"
  by (induction rows) simp_all

lemma fresh_key_fresh: "r \<in> set rows \<Longrightarrow> key r \<noteq> fresh_key key rows"
  using fresh_key_notin [of key rows] by (metis imageI)

lemma bind_run_inv:
  assumes inv: "ledger_inv A d" and valid: "\<forall>fp. g0_valid (A fp)"
    and run: "run \<in> set (crawl_runs d)" "\<forall>r \<in> set (run_budgets d). r_run_id r \<noteq> run"
  shows "ledger_inv A
    (d\<lparr>run_budgets := run_budgets d @ [new_run_budget (fresh_key r_id (run_budgets d)) run fp]\<rparr>)"
proof -
  define k where "k = fresh_key r_id (run_budgets d)"
  have k: "\<forall>r \<in> set (run_budgets d). r_id r \<noteq> k" unfolding k_def by (simp add: fresh_key_fresh)
  have none: "\<forall>p \<in> set (permits d). p_run_budget_id p \<noteq> k"
    using inv k by (force simp: ledger_inv_def permits_in_runs_def)
  have cap: "0 \<le> per_run_request_cap (traffic_limits (A fp))"
    using g0_valid_caps(3) valid by (metis order_trans zero_le_one)
  have "runs_counted A (run_budgets d @ [new_run_budget k run fp]) (permits d)"
    using inv none cap
    by (auto simp: ledger_inv_def runs_counted_def new_run_budget_def count_rows_none)
  moreover have "flight_capped A (run_budgets d @ [new_run_budget k run fp])"
    using inv by (simp add: ledger_inv_def flight_capped_def new_run_budget_def)
  moreover have "permits_in_runs (run_budgets d @ [new_run_budget k run fp]) (permits d)"
    using inv by (auto simp: ledger_inv_def permits_in_runs_def)
  moreover have "slots_bound (run_budgets d @ [new_run_budget k run fp]) (slots d)"
    using inv by (auto simp: ledger_inv_def slots_bound_def)
  moreover have "sends_bound (run_budgets d @ [new_run_budget k run fp]) (permits d) (journals d)"
    using inv unfolding ledger_inv_def sends_bound_def permit_run_def by fastforce
  ultimately show ?thesis
    using inv k run
    by (auto simp: ledger_inv_def ledger_parts k_def [symmetric] new_run_budget_def
        run_budget_ok_def list_all_iff)
qed

lemma open_day_inv:
  assumes inv: "ledger_inv A d" and valid: "\<forall>fp. g0_valid (A fp)"
    and new: "\<forall>r \<in> set (daily_budgets d). d_fingerprint r = fp \<longrightarrow> d_day r \<noteq> utc_date t"
  shows "ledger_inv A (d\<lparr>daily_budgets := daily_budgets d @
      [new_daily (fresh_key d_id (daily_budgets d)) fp (utc_date t)]\<rparr>)"
proof -
  define k where "k = fresh_key d_id (daily_budgets d)"
  have k: "\<forall>r \<in> set (daily_budgets d). d_id r \<noteq> k" unfolding k_def by (simp add: fresh_key_fresh)
  have none: "\<forall>p \<in> set (permits d). \<not> permit_on fp (utc_date t) p"
    using inv new by (force simp: ledger_inv_def days_counted_def permit_on_def)
  have cap: "0 \<le> daily_request_cap (traffic_limits (A fp))" "0 \<le> daily_cap (cost_limits (A fp))"
    using g0_valid_caps(4,6) [of "A fp"] valid by auto
  have "days_counted A (daily_budgets d @ [new_daily k fp (utc_date t)]) (permits d)"
    using inv none cap
    by (auto simp: ledger_inv_def days_counted_def new_daily_def count_rows_none sum_rows_none
        utc_date_valid)
  moreover have "months_capped A (daily_budgets d @ [new_daily k fp (utc_date t)])"
    using inv by (simp add: ledger_inv_def months_capped_def month_cost_def new_daily_def)
  ultimately show ?thesis
    using inv k new
    by (auto simp: ledger_inv_def ledger_parts k_def [symmetric] new_daily_def daily_budget_ok_def)
qed

lemma claim_slot_inv:
  assumes inv: "ledger_inv A d" and "run_bound (s_run_id row) (s_fingerprint row) d"
    and "\<forall>s \<in> set (slots d). s_fingerprint s \<noteq> s_fingerprint row"
    and "s_id row = fresh_key s_id (slots d)" and "slot_ok row"
  shows "ledger_inv A (d\<lparr>slots := slots d @ [row]\<rparr>)"
proof -
  have "slots_bound (run_budgets d) (slots d @ [row])"
    using inv assms(2) by (auto simp: ledger_inv_def slots_bound_def run_bound_def list_ex_iff)
  moreover have "journals_bound (slots d @ [row]) (journals d)"
    using inv by (auto simp: ledger_inv_def journals_bound_def)
  moreover have "s_run_id row \<in> set (crawl_runs d)"
    using inv assms(2)
    by (auto simp: ledger_inv_def foreign_ok_def run_bound_def list_ex_iff list_all_iff)
  moreover have "\<forall>s \<in> set (slots d). s_id s \<noteq> s_id row"
    unfolding assms(4) by (simp add: fresh_key_fresh)
  ultimately show ?thesis
    using inv assms(3,5) by (auto simp: ledger_inv_def ledger_parts list_all_iff)
qed

lemma resolve_slot_inv:
  assumes inv: "ledger_inv A d" and "status \<in> {SlotCompleted, SlotFailed}"
  shows "ledger_inv A (d\<lparr>slots := row_update s_id k
      (\<lambda>r. r\<lparr>s_status := status, s_resolved_at := Some t\<rparr>) (slots d)\<rparr>)" (is "ledger_inv A ?d'")
proof -
  let ?f = "\<lambda>r :: slot_row. r\<lparr>s_status := status, s_resolved_at := Some t\<rparr>"
  let ?ss = "row_update s_id k ?f (slots d)"
  have maps: "map s_id ?ss = map s_id (slots d)" "map s_fingerprint ?ss = map s_fingerprint (slots d)"
    by (simp_all add: map_row_update_same)
  have "slots_bound (run_budgets d) ?ss"
    using inv unfolding slots_bound_def ledger_inv_def by (intro ball_row_update) auto
  moreover have "journals_bound ?ss (journals d)"
    using inv unfolding ledger_inv_def journals_bound_def
    by (auto intro!: bex_row_update simp: journal_of_slot_def)
  moreover have "list_all slot_ok ?ss"
    using inv assms(2) unfolding list_all_iff
    by (intro ball_row_update) (auto simp: ledger_inv_def checks_ok_def list_all_iff slot_ok_def)
  moreover have "list_all (\<lambda>r. s_run_id r \<in> set (crawl_runs d)) ?ss"
    using inv unfolding list_all_iff
    by (intro ball_row_update) (auto simp: ledger_inv_def foreign_ok_def list_all_iff)
  moreover have "s_id ` set ?ss = s_id ` set (slots d)"
    using maps(1) by (metis list.set_map)
  ultimately show ?thesis
    using inv maps by (simp add: ledger_inv_def ledger_parts)
qed

lemma claim_journal_inv:
  assumes inv: "ledger_inv A d" and "slot \<in> set (slots d)" "journal_of_slot row slot"
    and "\<forall>j \<in> set (journals d). j_slot_id j \<noteq> s_id slot"
    and "j_id row = fresh_key j_id (journals d)" and "j_permit_id row = None" and "journal_ok row"
  shows "ledger_inv A (d\<lparr>journals := journals d @ [row]\<rparr>)"
proof -
  have "journals_bound (slots d) (journals d @ [row])"
    using inv assms(2,3) by (auto simp: ledger_inv_def journals_bound_def)
  moreover have "sends_bound (run_budgets d) (permits d) (journals d @ [row])"
    using inv assms(6) by (auto simp: ledger_inv_def sends_bound_def)
  moreover have "j_run_id row \<in> set (crawl_runs d)"
    using inv assms(2,3) by (auto simp: ledger_inv_def foreign_ok_def list_all_iff journal_of_slot_def)
  moreover have "j_slot_id row \<in> s_id ` set (slots d)"
    using assms(2,3) unfolding journal_of_slot_def by (metis imageI)
  moreover have "\<forall>j \<in> set (journals d). j_id j \<noteq> j_id row"
    unfolding assms(5) by (simp add: fresh_key_fresh)
  ultimately show ?thesis
    using inv assms(3,4,6,7) by (auto simp: ledger_inv_def ledger_parts list_all_iff journal_of_slot_def)
qed

text \<open>A fingerprint has at most one slot, hence at most one journal.\<close>

lemma journal_fingerprint_unique:
  assumes inv: "ledger_inv A d" and "j \<in> set (journals d)" "j' \<in> set (journals d)"
    and "j_fingerprint j = j_fingerprint j'"
  shows "j = j'"
proof -
  obtain s s' where s: "s \<in> set (slots d)" "journal_of_slot j s"
    and s': "s' \<in> set (slots d)" "journal_of_slot j' s'"
    using inv assms(2,3) unfolding ledger_inv_def journals_bound_def by blast
  have "s = s'"
    using inv s s' assms(4)
    by (intro row_key_eq [of s_fingerprint "slots d"])
      (auto simp: ledger_inv_def unique_ok_def journal_of_slot_def)
  with s s' have "j_slot_id j = j_slot_id j'" by (simp add: journal_of_slot_def)
  with inv assms(2,3) show ?thesis
    by (intro row_key_eq [of j_slot_id "journals d"]) (auto simp: ledger_inv_def unique_ok_def)
qed

lemma bound_permits_update:
  assumes "distinct (map j_id js)" and "row \<in> set js" and "distinct (bound_permits js)"
    and "\<And>pid. j_permit_id row' = Some pid \<Longrightarrow> j_permit_id row \<noteq> Some pid \<Longrightarrow>
           \<forall>j \<in> set js. j_permit_id j \<noteq> Some pid"
  shows "distinct (bound_permits (row_update j_id (j_id row) (\<lambda>_. row') js))"
  using assms
proof (induction js)
  case Nil
  then show ?case by simp
next
  case (Cons x xs)
  show ?case
  proof (cases "x = row")
    case True
    with Cons.prems have "row_update j_id (j_id row) (\<lambda>_. row') xs = xs"
      by (intro row_update_absent) auto
    with True Cons.prems show ?thesis
      by (auto simp: row_update_Cons set_bound_permits split: option.splits)
  next
    case False
    with Cons.prems have row: "row \<in> set xs" and "j_id x \<noteq> j_id row" by auto
    have dist: "distinct (bound_permits xs)" using Cons.prems(3) by (auto split: option.splits)
    have IH: "distinct (bound_permits (row_update j_id (j_id row) (\<lambda>_. row') xs))"
      using Cons.prems row dist by (intro Cons.IH) auto
    have "pid \<notin> set (bound_permits (row_update j_id (j_id row) (\<lambda>_. row') xs))"
      if pid: "j_permit_id x = Some pid" for pid
    proof -
      have "pid \<notin> set (bound_permits xs)" using Cons.prems(3) pid by simp
      moreover have "j_permit_id row' \<noteq> Some pid"
        using Cons.prems(4) [of pid] pid row calculation by (auto simp: set_bound_permits)
      ultimately show ?thesis by (auto simp: set_bound_permits set_row_update split: if_splits)
    qed
    with \<open>j_id x \<noteq> j_id row\<close> IH show ?thesis by (auto simp: row_update_Cons split: option.splits)
  qed
qed

lemma permit_boundD:
  assumes "ledger_inv A d" and "j \<in> set (journals d)" and "j_permit_id j = Some (p_permit_id p)"
    and "p \<in> set (permits d)"
  shows "permit_for d j p"
proof -
  obtain q where q: "q \<in> set (permits d)" "p_permit_id q = p_permit_id p"
    "p_fingerprint q = j_fingerprint j" "p_request_key_hash q = j_binding_hash j"
    "permit_run (run_budgets d) q (j_run_id j)"
    using assms(1-3) unfolding ledger_inv_def sends_bound_def by blast
  have "q = p"
    using assms(1,4) q(1,2)
    by (intro row_key_eq [of p_permit_id "permits d"]) (auto simp: ledger_inv_def unique_ok_def)
  with q assms(3) show ?thesis by (simp add: permit_for_def)
qed

lemma permit_bound_ex:
  assumes "ledger_inv A d" and "j \<in> set (journals d)" and "j_permit_id j = Some pid"
  obtains p where "permit_for d j p" "p_permit_id p = pid"
    "j_status j \<in> {Settled, Completed} \<longrightarrow> p_status p = PermitConsumed"
  using assms unfolding ledger_inv_def sends_bound_def permit_for_def by metis

text \<open>A moved row: what it is bound to holds before and after the step.\<close>

lemma moved_binding:
  assumes inv: "ledger_inv A d" and row: "row \<in> set (journals d)" and step: "journal_step row row'"
    and started: "j_status row' = SendStarted \<longrightarrow> (\<exists>p. permit_for d row' p \<and> p_status p = PermitAuthorized)"
    and settled: "j_status row' = Settled \<longrightarrow> (\<exists>p. permit_for d row' p \<and> p_status p = PermitConsumed)"
    and pid: "j_permit_id row' = Some pid"
  shows "\<exists>p. permit_for d row' p \<and> p_permit_id p = pid \<and>
    (j_status row' \<in> {Settled, Completed} \<longrightarrow> p_status p = PermitConsumed)"
proof (cases "j_status row' \<in> {SendStarted, Settled}")
  case True
  with started settled pid show ?thesis by (auto simp: permit_for_def)
next
  case False
  have same: "j_fingerprint row' = j_fingerprint row" "j_binding_hash row' = j_binding_hash row"
    "j_run_id row' = j_run_id row" and edge: "lifecycle (j_status row) (j_status row')"
    using step by (auto simp: journal_step_def)
  have keep: "j_permit_id row = Some pid"
  proof (cases "j_status row = Claimed")
    case True
    with edge False have "j_status row' = Failed" by auto
    with step pid show ?thesis by (simp add: journal_step_def)
  next
    case False
    with step pid show ?thesis by (simp add: journal_step_def)
  qed
  obtain p where p: "permit_for d row p" "p_permit_id p = pid"
    "j_status row \<in> {Settled, Completed} \<longrightarrow> p_status p = PermitConsumed"
    using inv row keep by (rule permit_bound_ex)
  from p(1,2) pid same have "permit_for d row' p" by (simp add: permit_for_def)
  moreover have "j_status row' \<in> {Settled, Completed} \<longrightarrow> j_status row = Settled"
    using edge False by (cases "j_status row") auto
  ultimately show ?thesis using p(2,3) by auto
qed

lemma sends_bound_permits:
  assumes "sends_bound rbs ps js"
  shows "\<forall>p \<in> set (bound_permits js). p \<in> p_permit_id ` set ps"
proof
  fix pid assume "pid \<in> set (bound_permits js)"
  then obtain j where "j \<in> set js" "j_permit_id j = Some pid" by (auto simp: set_bound_permits)
  with assms obtain p where "p \<in> set ps" "p_permit_id p = pid" unfolding sends_bound_def by blast
  then show "pid \<in> p_permit_id ` set ps" by blast
qed

lemma move_journal_inv:
  assumes inv: "ledger_inv A d" and row: "row \<in> set (journals d)" and step: "journal_step row row'"
    and ok: "journal_ok row'"
    and started: "j_status row' = SendStarted \<longrightarrow> (\<exists>p. permit_for d row' p \<and> p_status p = PermitAuthorized)"
    and settled: "j_status row' = Settled \<longrightarrow> (\<exists>p. permit_for d row' p \<and> p_status p = PermitConsumed)"
  shows "ledger_inv A (d\<lparr>journals := row_update j_id (j_id row) (\<lambda>_. row') (journals d)\<rparr>)"
proof -
  let ?js = "row_update j_id (j_id row) (\<lambda>_. row') (journals d)"
  have uniq: "distinct (map j_id (journals d))" using inv by (simp add: ledger_inv_def unique_ok_def)
  have same: "j_id row' = j_id row" "j_slot_id row' = j_slot_id row" "j_run_id row' = j_run_id row"
    "j_fingerprint row' = j_fingerprint row" "j_binding_hash row' = j_binding_hash row"
    using step by (auto simp: journal_step_def)
  have maps: "map j_id ?js = map j_id (journals d)" "map j_slot_id ?js = map j_slot_id (journals d)"
    using uniq row same by (auto intro: map_row_update_one)
  have binding: "\<exists>p. permit_for d row' p \<and> p_permit_id p = pid \<and>
      (j_status row' \<in> {Settled, Completed} \<longrightarrow> p_status p = PermitConsumed)"
    if "j_permit_id row' = Some pid" for pid
    using inv row step started settled that by (rule moved_binding)
  have "distinct (bound_permits ?js)"
  proof (rule bound_permits_update [OF uniq row])
    show "distinct (bound_permits (journals d))" using inv by (simp add: ledger_inv_def unique_ok_def)
    fix pid
    assume pid: "j_permit_id row' = Some pid" "j_permit_id row \<noteq> Some pid"
    obtain p where p: "permit_for d row' p" "p_permit_id p = pid" using binding [OF pid(1)] by blast
    show "\<forall>j \<in> set (journals d). j_permit_id j \<noteq> Some pid"
    proof (rule ballI, rule notI)
      fix j assume j: "j \<in> set (journals d)" "j_permit_id j = Some pid"
      with inv p have "permit_for d j p" by (intro permit_boundD) (auto simp: permit_for_def)
      with p same have "j_fingerprint j = j_fingerprint row" by (simp add: permit_for_def)
      with inv j(1) row have "j = row" by (rule journal_fingerprint_unique)
      with j pid show False by simp
    qed
  qed
  moreover have "sends_bound (run_budgets d) (permits d) ?js"
    unfolding sends_bound_def
  proof (rule ball_row_update)
    fix r assume "r \<in> set (journals d)"
    with inv show "\<forall>pid. j_permit_id r = Some pid \<longrightarrow>
        (\<exists>p \<in> set (permits d). p_permit_id p = pid \<and> p_fingerprint p = j_fingerprint r \<and>
           p_request_key_hash p = j_binding_hash r \<and>
           permit_run (run_budgets d) p (j_run_id r) \<and>
           (j_status r \<in> {Settled, Completed} \<longrightarrow> p_status p = PermitConsumed))"
      unfolding ledger_inv_def sends_bound_def by blast
  next
    show "\<forall>pid. j_permit_id row' = Some pid \<longrightarrow>
        (\<exists>p \<in> set (permits d). p_permit_id p = pid \<and> p_fingerprint p = j_fingerprint row' \<and>
           p_request_key_hash p = j_binding_hash row' \<and>
           permit_run (run_budgets d) p (j_run_id row') \<and>
           (j_status row' \<in> {Settled, Completed} \<longrightarrow> p_status p = PermitConsumed))"
      using binding unfolding permit_for_def by blast
  qed
  moreover have "\<forall>p \<in> set (bound_permits ?js). p \<in> p_permit_id ` set (permits d)"
    using calculation(2) by (rule sends_bound_permits)
  moreover have "journals_bound (slots d) ?js"
    using inv row same unfolding ledger_inv_def journals_bound_def
    by (intro ball_row_update) (auto simp: journal_of_slot_def)
  moreover have "list_all journal_ok ?js"
    using inv ok unfolding list_all_iff
    by (intro ball_row_update) (auto simp: ledger_inv_def checks_ok_def list_all_iff)
  moreover have "list_all (\<lambda>r. j_run_id r \<in> set (crawl_runs d)) ?js"
      "list_all (\<lambda>r. j_slot_id r \<in> s_id ` set (slots d)) ?js"
    using inv row same
    by (auto simp: ledger_inv_def foreign_ok_def list_all_iff set_row_update split: if_splits)
  ultimately show ?thesis
    using inv maps by (simp add: ledger_inv_def ledger_parts list_all_iff)
qed

text \<open>Rewriting one run budget, identity kept and the request count not lowered.\<close>

definition same_run :: "run_budget \<Rightarrow> run_budget \<Rightarrow> bool" where
  "same_run rb rb' \<longleftrightarrow> r_id rb' = r_id rb \<and> r_run_id rb' = r_run_id rb \<and>
     r_fingerprint rb' = r_fingerprint rb \<and> r_request_count rb \<le> r_request_count rb'"

abbreviation replace_run :: "run_budget \<Rightarrow> run_budget \<Rightarrow> run_budget list \<Rightarrow> run_budget list" where
  "replace_run rb rb' rbs \<equiv> row_update r_id (r_id rb) (\<lambda>_. rb') rbs"

lemma replace_run_bex:
  assumes "distinct (map r_id rbs)" and "rb \<in> set rbs" and "\<exists>r \<in> set rbs. Q r"
    and "Q rb \<Longrightarrow> Q rb'"
  shows "\<exists>r \<in> set (replace_run rb rb' rbs). Q r"
  using assms(3)
proof (rule bex_row_update)
  fix r assume "r \<in> set rbs" "r_id r = r_id rb" "Q r"
  with assms(1,2) have "r = rb" by (auto intro: row_key_eq)
  with assms(4) \<open>Q r\<close> show "Q rb'" by simp
qed

lemma replace_run_frame:
  assumes dist: "distinct (map r_id rbs)" and rb: "rb \<in> set rbs" and same: "same_run rb rb'"
  shows "map r_id (replace_run rb rb' rbs) = map r_id rbs"
    and "map r_run_id (replace_run rb rb' rbs) = map r_run_id rbs"
    and "permits_in_runs rbs ps \<Longrightarrow> permits_in_runs (replace_run rb rb' rbs) ps"
    and "slots_bound rbs ss \<Longrightarrow> slots_bound (replace_run rb rb' rbs) ss"
    and "sends_bound rbs ps js \<Longrightarrow> sends_bound (replace_run rb rb' rbs) ps js"
proof -
  note bex = replace_run_bex [OF dist rb]
  show "map r_id (replace_run rb rb' rbs) = map r_id rbs"
    "map r_run_id (replace_run rb rb' rbs) = map r_run_id rbs"
    using same by (auto intro!: map_row_update_one [OF dist rb] simp: same_run_def)
  show "permits_in_runs rbs ps \<Longrightarrow> permits_in_runs (replace_run rb rb' rbs) ps"
    unfolding permits_in_runs_def by (intro ballI bex) (use same in \<open>auto simp: same_run_def\<close>)
  show "slots_bound rbs ss \<Longrightarrow> slots_bound (replace_run rb rb' rbs) ss"
    unfolding slots_bound_def by (intro ballI bex) (use same in \<open>auto simp: same_run_def\<close>)
  have run: "permit_run rbs p n \<Longrightarrow> permit_run (replace_run rb rb' rbs) p n" for p n
    unfolding permit_run_def by (erule bex) (use same in \<open>auto simp: same_run_def\<close>)
  show "sends_bound rbs ps js \<Longrightarrow> sends_bound (replace_run rb rb' rbs) ps js"
    unfolding sends_bound_def by (blast intro: run)
qed

lemma replace_run_owner:
  assumes "list_all (\<lambda>r. r_run_id r \<in> R) rbs" and "rb \<in> set rbs" and "same_run rb rb'"
  shows "list_all (\<lambda>r. r_run_id r \<in> R) (replace_run rb rb' rbs)"
  using assms by (auto simp: list_all_iff set_row_update same_run_def split: if_splits)

lemma replace_run_ok:
  "list_all run_budget_ok rbs \<Longrightarrow> run_budget_ok rb' \<Longrightarrow>
   list_all run_budget_ok (replace_run rb rb' rbs)"
  by (auto simp: list_all_iff set_row_update)

lemma stop_inv:
  assumes inv: "ledger_inv A d" and rb: "rb \<in> set (run_budgets d)"
  shows "ledger_inv A (record_stop rb reason t trigger d)"
proof -
  define rb' where "rb' = rb\<lparr>r_stop_reason := Some reason, r_version := r_version rb + 1\<rparr>"
  have dist: "distinct (map r_id (run_budgets d))" using inv by (simp add: ledger_inv_def unique_ok_def)
  have upd: "row_update r_id (r_id rb)
      (\<lambda>r. r\<lparr>r_stop_reason := Some reason, r_version := r_version r + 1\<rparr>) (run_budgets d) =
    replace_run rb rb' (run_budgets d)"
    unfolding rb'_def
    using row_update_const [OF dist rb,
        of "\<lambda>r. r\<lparr>r_stop_reason := Some reason, r_version := r_version r + 1\<rparr>"] by simp
  have same: "same_run rb rb'" by (simp add: rb'_def same_run_def)
  have "run_budget_ok rb'"
    using inv rb by (auto simp: ledger_inv_def checks_ok_def list_all_iff rb'_def run_budget_ok_def)
  note checks = replace_run_ok [OF _ this, of "run_budgets d" rb] replace_run_owner [OF _ rb same]
  note frame = replace_run_frame [OF dist rb same]
  have "runs_counted A (replace_run rb rb' (run_budgets d)) (permits d)"
    using inv rb unfolding ledger_inv_def runs_counted_def
    by (intro ball_row_update) (auto simp: rb'_def)
  moreover have "flight_capped A (replace_run rb rb' (run_budgets d))"
    using inv row_get_unique [OF dist rb]
    by (simp add: ledger_inv_def flight_capped_def sum_rows_update [OF dist] rb'_def)
  moreover have "r_run_id rb \<in> set (crawl_runs d)"
    using inv rb by (auto simp: ledger_inv_def foreign_ok_def list_all_iff)
  moreover have "r_id ` set (replace_run rb rb' (run_budgets d)) = r_id ` set (run_budgets d)"
    using frame(1) by (metis list.set_map)
  ultimately show ?thesis
    using inv frame checks unfolding record_stop_def upd
    by (simp add: ledger_inv_def ledger_parts)
qed

text \<open>Settling one permit: its identity is kept, only its outcome is filled in.\<close>

abbreviation replace_permit :: "permit_row \<Rightarrow> permit_row \<Rightarrow> permit_row list \<Rightarrow> permit_row list" where
  "replace_permit p p' ps \<equiv> row_update p_id (p_id p) (\<lambda>_. p') ps"

definition same_permit :: "permit_row \<Rightarrow> permit_row \<Rightarrow> bool" where
  "same_permit p p' \<longleftrightarrow> p_id p' = p_id p \<and> p_permit_id p' = p_permit_id p \<and>
     p_run_budget_id p' = p_run_budget_id p \<and> p_sequence p' = p_sequence p \<and>
     p_request_key_hash p' = p_request_key_hash p \<and> p_fingerprint p' = p_fingerprint p \<and>
     p_estimated_cost p' = p_estimated_cost p \<and> p_authorized_at p' = p_authorized_at p"

lemma consume_row_same: "same_permit p (consume_row status t response p)"
  by (simp add: same_permit_def consume_row_def)

lemma replace_permit_same:
  assumes dist: "distinct (map p_id ps)" and p: "p \<in> set ps" and same: "same_permit p p'"
  shows "map p_id (replace_permit p p' ps) = map p_id ps"
    and "map p_permit_id (replace_permit p p' ps) = map p_permit_id ps"
    and "map (\<lambda>r. (p_run_budget_id r, p_sequence r)) (replace_permit p p' ps) =
         map (\<lambda>r. (p_run_budget_id r, p_sequence r)) ps"
    and "map (\<lambda>r. (p_run_budget_id r, p_request_key_hash r)) (replace_permit p p' ps) =
         map (\<lambda>r. (p_run_budget_id r, p_request_key_hash r)) ps"
    and "rate_capped A ps \<Longrightarrow> rate_capped A (replace_permit p p' ps)"
    and "days_counted A ds ps \<Longrightarrow> days_counted A ds (replace_permit p p' ps)"
    and "permits_in_runs rbs ps \<Longrightarrow> permits_in_runs rbs (replace_permit p p' ps)"
proof -
  note get = row_get_unique [OF dist p]
  show "map p_id (replace_permit p p' ps) = map p_id ps"
    "map p_permit_id (replace_permit p p' ps) = map p_permit_id ps"
    "map (\<lambda>r. (p_run_budget_id r, p_sequence r)) (replace_permit p p' ps) =
     map (\<lambda>r. (p_run_budget_id r, p_sequence r)) ps"
    "map (\<lambda>r. (p_run_budget_id r, p_request_key_hash r)) (replace_permit p p' ps) =
     map (\<lambda>r. (p_run_budget_id r, p_request_key_hash r)) ps"
    using same by (auto intro!: map_row_update_one [OF dist p] simp: same_permit_def)
  show "rate_capped A ps \<Longrightarrow> rate_capped A (replace_permit p p' ps)"
    using same
    by (simp add: rate_capped_def authorized_in_def count_rows_update [OF dist get] same_permit_def)
  have on: "permit_on fp D p' = permit_on fp D p" "p_estimated_cost p' = p_estimated_cost p" for fp D
    using same by (simp_all add: permit_on_def same_permit_def)
  show "days_counted A ds ps \<Longrightarrow> days_counted A ds (replace_permit p p' ps)"
    using p by (auto simp: days_counted_def count_rows_update [OF dist get]
        sum_rows_update [OF dist get] on set_row_update)
  show "permits_in_runs rbs ps \<Longrightarrow> permits_in_runs rbs (replace_permit p p' ps)"
    unfolding permits_in_runs_def
    by (rule ball_row_update) (use p same in \<open>auto simp: same_permit_def\<close>)
qed

lemma replace_permit_sends:
  assumes dist: "distinct (map p_id ps)" and p: "p \<in> set ps" and same: "same_permit p p'"
    and "p_status p = PermitAuthorized" and sends: "sends_bound rbs ps js"
  shows "sends_bound rbs (replace_permit p p' ps) js"
  unfolding sends_bound_def
proof (intro ballI allI impI)
  fix j pid assume "j \<in> set js" "j_permit_id j = Some pid"
  with sends have "\<exists>q \<in> set ps. p_permit_id q = pid \<and> p_fingerprint q = j_fingerprint j \<and>
      p_request_key_hash q = j_binding_hash j \<and> permit_run rbs q (j_run_id j) \<and>
      (j_status j \<in> {Settled, Completed} \<longrightarrow> p_status q = PermitConsumed)"
    unfolding sends_bound_def by blast
  then show "\<exists>q \<in> set (replace_permit p p' ps). p_permit_id q = pid \<and>
      p_fingerprint q = j_fingerprint j \<and> p_request_key_hash q = j_binding_hash j \<and>
      permit_run rbs q (j_run_id j) \<and>
      (j_status j \<in> {Settled, Completed} \<longrightarrow> p_status q = PermitConsumed)"
  proof (rule bex_row_update, elim conjE, intro conjI)
    fix q assume "q \<in> set ps" "p_id q = p_id p"
    with dist p have q: "q = p" by (auto intro: row_key_eq)
    show "p_permit_id q = pid \<Longrightarrow> p_permit_id p' = pid"
      "p_fingerprint q = j_fingerprint j \<Longrightarrow> p_fingerprint p' = j_fingerprint j"
      "p_request_key_hash q = j_binding_hash j \<Longrightarrow> p_request_key_hash p' = j_binding_hash j"
      "permit_run rbs q (j_run_id j) \<Longrightarrow> permit_run rbs p' (j_run_id j)"
      using same q by (auto simp: same_permit_def permit_run_def)
    show "j_status j \<in> {Settled, Completed} \<longrightarrow> p_status q = PermitConsumed \<Longrightarrow>
        j_status j \<in> {Settled, Completed} \<longrightarrow> p_status p' = PermitConsumed"
      using q assms(4) by simp
  qed
qed

lemma settle_permit_counts:
  assumes dist: "distinct (map p_id ps)" "distinct (map r_id rbs)"
    and p: "p \<in> set ps" "p_status p = PermitAuthorized" "p_status p' \<noteq> PermitAuthorized"
    and same: "same_permit p p'" and rb: "rb \<in> set rbs" "r_id rb = p_run_budget_id p"
    and rel: "released rb rb'"
  shows "runs_counted A rbs ps \<Longrightarrow> runs_counted A (replace_run rb rb' rbs) (replace_permit p p' ps)"
    and "flight_capped A rbs \<Longrightarrow> flight_capped A (replace_run rb rb' rbs)"
proof -
  note get = row_get_unique [OF dist(1) p(1)] and getr = row_get_unique [OF dist(2) rb(1)]
  show "flight_capped A rbs \<Longrightarrow> flight_capped A (replace_run rb rb' rbs)"
    using rel by (simp add: flight_capped_def sum_rows_update [OF dist(2) getr] released_def)
      (drule spec [of _ "r_fingerprint rb"], linarith)
  show "runs_counted A (replace_run rb rb' rbs) (replace_permit p p' ps)" if "runs_counted A rbs ps"
    unfolding runs_counted_def
  proof (rule ball_row_update, goal_cases)
    case (1 r)
    with that rb(2) same show ?case
      by (auto simp: runs_counted_def count_rows_update [OF dist(1) get] same_permit_def)
  next
    case (2 r)
    then have "r = rb" using dist(2) rb(1) by (auto intro: row_key_eq)
    with that rb p same rel show ?case
      by (auto simp: runs_counted_def count_rows_update [OF dist(1) get] same_permit_def released_def)
  qed
qed

lemma settle_permit_inv:
  assumes inv: "ledger_inv A d" and p: "p \<in> set (permits d)" "p_status p = PermitAuthorized"
    and rb: "rb \<in> set (run_budgets d)" "r_id rb = p_run_budget_id p"
    and status: "status \<in> {PermitConsumed, PermitTransportFailed}"
    and resp: "case response of None \<Rightarrow> True | Some c \<Rightarrow> 100 \<le> c \<and> c \<le> 599"
    and flight: "1 \<le> r_in_flight rb" and rel: "released rb rb'"
  shows "ledger_inv A
    (d\<lparr>permits := replace_permit p (consume_row status t response p) (permits d),
       run_budgets := replace_run rb rb' (run_budgets d)\<rparr>)"
proof -
  define p' where "p' = consume_row status t response p"
  have dist: "distinct (map p_id (permits d))" "distinct (map r_id (run_budgets d))"
    using inv by (auto simp: ledger_inv_def unique_ok_def)
  have same: "same_permit p p'" unfolding p'_def by (rule consume_row_same)
  have samer: "same_run rb rb'" using rel by (simp add: same_run_def released_def)
  have st: "p_status p' \<noteq> PermitAuthorized" using status by (auto simp: p'_def consume_row_def)
  have "permit_ok p" using inv p by (auto simp: ledger_inv_def checks_ok_def list_all_iff)
  then have ok: "permit_ok p'"
    using resp by (auto simp: permit_ok_def p'_def consume_row_def split: option.splits)
  then have oks: "list_all permit_ok (replace_permit p p' (permits d))"
    using inv by (auto simp: ledger_inv_def checks_ok_def list_all_iff set_row_update)
  have "run_budget_ok rb" using inv rb by (auto simp: ledger_inv_def checks_ok_def list_all_iff)
  then have "run_budget_ok rb'" using rel flight by (simp add: released_def)
  note checks = replace_run_ok [OF _ this, of "run_budgets d" rb] replace_run_owner [OF _ rb(1) samer]
  note frame = replace_run_frame [OF dist(2) rb(1) samer]
  note pframe = replace_permit_same [OF dist(1) p(1) same]
  note counts = settle_permit_counts [OF dist p st same rb rel, of A]
  have sets: "r_id ` set (replace_run rb rb' (run_budgets d)) = r_id ` set (run_budgets d)"
    "p_permit_id ` set (replace_permit p p' (permits d)) = p_permit_id ` set (permits d)"
    using frame(1) pframe(2) by (metis list.set_map)+
  have "list_all (\<lambda>r. p_run_budget_id r \<in> r_id ` set (run_budgets d)) (replace_permit p p' (permits d))"
    using inv p same
    by (auto simp: ledger_inv_def foreign_ok_def list_all_iff set_row_update same_permit_def)
  moreover have "sends_bound (replace_run rb rb' (run_budgets d)) (replace_permit p p' (permits d))
      (journals d)"
    using inv frame(5) replace_permit_sends [OF dist(1) p(1) same p(2)]
    by (simp add: ledger_inv_def)
  ultimately show ?thesis
    using inv frame pframe checks counts oks sets unfolding p'_def [symmetric]
    by (simp add: ledger_inv_def ledger_parts)
qed

section \<open>Granting a permit\<close>

text \<open>What a granting verdict established, limit by limit.\<close>

lemma run_verdict_Grant:
  assumes "run_verdict ps rb daily t cost d = Inr Grant"
  shows "r_stop_reason rb = None" and "approval_active (ps_approval ps) t"
    and "global_in_flight (ps_fingerprint ps) d < concurrency (traffic_limits (ps_approval ps))"
    and "authorized_after (ps_fingerprint ps) (t - minutes 1) d
           < requests_per_minute (traffic_limits (ps_approval ps))"
    and "r_request_count rb < per_run_request_cap (traffic_limits (ps_approval ps))"
    and "d_request_count daily < daily_request_cap (traffic_limits (ps_approval ps))"
    and "d_estimated_cost daily + cost \<le> daily_cap (cost_limits (ps_approval ps))"
    and "\<exists>m. monthly_estimated_cost (ps_fingerprint ps) (utc_date t) d = Inr m \<and>
           m + cost \<le> monthly_cap (cost_limits (ps_approval ps))"
  using assms
  by (auto simp: run_verdict_def limit_verdict_def bindr_Inr Let_def
      split: option.splits if_splits)

text \<open>The month window of the code is the set of days of the same month.\<close>

lemma month_window:
  assumes "date_valid D" and "date_valid E" and "next_month (month_start D) = Inr hi"
  shows "month_start D \<le> E \<and> E < hi \<longleftrightarrow> year E = year D \<and> month E = month D"
  using assms
  by (cases D; cases E)
    (auto simp: date_valid_def month_start_def next_month_def split: if_splits)

lemma sum_rows_filter: "sum_rows f (filter P rows) = sum_rows (\<lambda>r. if P r then f r else 0) rows"
  by (induction rows) simp_all

lemma sum_rows_cong:
  "(\<And>r. r \<in> set rows \<Longrightarrow> f r = g r) \<Longrightarrow> sum_rows f rows = sum_rows g rows"
  by (simp add: sum_rows_def cong: map_cong)

lemma monthly_estimated_cost_month:
  assumes "\<forall>r \<in> set (daily_budgets d). date_valid (d_day r)" and "date_valid D"
    and "monthly_estimated_cost fp D d = Inr m"
  shows "m = month_cost fp (year D) (month D) (daily_budgets d)"
proof -
  obtain hi where hi: "next_month (month_start D) = Inr hi"
    and m: "m = cost_between fp (month_start D) hi d"
    using assms(3) by (auto simp: monthly_estimated_cost_def bindr_Inr)
  show ?thesis
    unfolding m cost_between_def month_cost_def sum_rows_filter
    using assms(1) month_window [OF assms(2) _ hi] by (intro sum_rows_cong) auto
qed

lemma grant_months:
  assumes dist: "distinct (map d_id ds)" and daily: "daily \<in> set ds"
    and "months_capped A ds"
    and "month_cost (d_fingerprint daily) (year (d_day daily)) (month (d_day daily)) ds + cost
           \<le> monthly_cap (cost_limits (A (d_fingerprint daily)))"
    and "d_fingerprint daily' = d_fingerprint daily" "d_day daily' = d_day daily"
    and "d_estimated_cost daily' = d_estimated_cost daily + cost"
  shows "months_capped A (row_update d_id (d_id daily) (\<lambda>_. daily') ds)"
proof -
  note get = row_get_unique [OF dist daily]
  have "month_cost fp y m (row_update d_id (d_id daily) (\<lambda>_. daily') ds)
      = month_cost fp y m ds +
        (if d_fingerprint daily = fp \<and> year (d_day daily) = y \<and> month (d_day daily) = m
         then cost else 0)" for fp y m
    using assms(5-7) by (simp add: month_cost_def sum_rows_update [OF dist get])
  with assms(3,4) show ?thesis by (auto simp: months_capped_def)
qed

text \<open>
  The sliding window: a permit granted when fewer than \<open>n\<close> were authorised after \<open>t - w\<close>
  keeps every window of length \<open>w\<close> at \<open>n\<close> or below, whatever the order of the clock readings.
\<close>

lemma count_rows_mono:
  "(\<And>r. r \<in> set rows \<Longrightarrow> P r \<Longrightarrow> Q r) \<Longrightarrow> count_rows P rows \<le> count_rows Q rows"
  by (induction rows) auto

lemma grant_rate:
  assumes "rate_capped A ps"
    and "count_rows (\<lambda>p. p_fingerprint p = fp \<and> t - minutes 1 < p_authorized_at p) ps
           < requests_per_minute (traffic_limits (A fp))"
    and "p_fingerprint q = fp" "p_authorized_at q = t"
  shows "rate_capped A (ps @ [q])"
  unfolding rate_capped_def
proof (intro allI)
  fix fp' t'
  show "authorized_in fp' (t' - minutes 1) t' (ps @ [q]) \<le> requests_per_minute (traffic_limits (A fp'))"
  proof (cases "fp' = fp \<and> t' - minutes 1 < t \<and> t \<le> t'")
    case True
    have "authorized_in fp (t' - minutes 1) t' ps
        \<le> count_rows (\<lambda>p. p_fingerprint p = fp \<and> t - minutes 1 < p_authorized_at p) ps"
      unfolding authorized_in_def using True by (intro count_rows_mono) auto
    with True assms(2-4) show ?thesis by (simp add: authorized_in_def)
  next
    case False
    with assms(3,4) have "authorized_in fp' (t' - minutes 1) t' (ps @ [q])
        = authorized_in fp' (t' - minutes 1) t' ps"
      by (auto simp: authorized_in_def)
    with assms(1) show ?thesis by (simp add: rate_capped_def)
  qed
qed

abbreviation replace_day :: "daily_budget \<Rightarrow> daily_budget \<Rightarrow> daily_budget list \<Rightarrow> daily_budget list" where
  "replace_day r r' ds \<equiv> row_update d_id (d_id r) (\<lambda>_. r') ds"

lemma grant_runs:
  assumes dist: "distinct (map r_id rbs)" and rb: "rb \<in> set rbs"
    and cap: "r_request_count rb < per_run_request_cap (traffic_limits (A (r_fingerprint rb)))"
    and rb': "same_run rb rb'" "r_request_count rb' = r_request_count rb + 1"
      "r_in_flight rb' = r_in_flight rb + 1"
    and q: "p_run_budget_id q = r_id rb" "p_status q = PermitAuthorized"
    and counted: "runs_counted A rbs ps"
  shows "runs_counted A (replace_run rb rb' rbs) (ps @ [q])"
  unfolding runs_counted_def
proof (rule ball_row_update, goal_cases)
  case (1 r)
  with counted q show ?case by (auto simp: runs_counted_def)
next
  case (2 r)
  have "r_in_flight rb = count_rows (\<lambda>p. p_run_budget_id p = r_id rb \<and> p_status p = PermitAuthorized) ps"
    "r_request_count rb = count_rows (\<lambda>p. p_run_budget_id p = r_id rb) ps"
    using counted rb by (auto simp: runs_counted_def)
  with rb' q cap show ?case by (simp add: same_run_def)
qed

lemma grant_days:
  assumes dist: "distinct (map d_id ds)" "distinct (map (\<lambda>r. (d_fingerprint r, d_day r)) ds)"
    and daily: "daily \<in> set ds"
    and cap: "d_request_count daily < daily_request_cap (traffic_limits (A (d_fingerprint daily)))"
      "d_estimated_cost daily + p_estimated_cost q \<le> daily_cap (cost_limits (A (d_fingerprint daily)))"
    and daily': "d_fingerprint daily' = d_fingerprint daily" "d_day daily' = d_day daily"
      "d_request_count daily' = d_request_count daily + 1"
      "d_estimated_cost daily' = d_estimated_cost daily + p_estimated_cost q"
    and q: "permit_on (d_fingerprint daily) (d_day daily) q"
    and counted: "days_counted A ds ps"
  shows "days_counted A (replace_day daily daily' ds) (ps @ [q])"
proof -
  have same: "r = daily" if "r \<in> set ds" "permit_on (d_fingerprint r) (d_day r) q" for r
    using that q daily dist(2) by (intro row_key_eq [OF dist(2)]) (auto simp: permit_on_def)
  have rows: "\<forall>r \<in> set (replace_day daily daily' ds). date_valid (d_day r) \<and>
        d_request_count r = count_rows (permit_on (d_fingerprint r) (d_day r)) (ps @ [q]) \<and>
        d_estimated_cost r =
          sum_rows (\<lambda>p. if permit_on (d_fingerprint r) (d_day r) p then p_estimated_cost p else 0)
            (ps @ [q]) \<and>
        d_request_count r \<le> daily_request_cap (traffic_limits (A (d_fingerprint r))) \<and>
        d_estimated_cost r \<le> daily_cap (cost_limits (A (d_fingerprint r)))"
  proof (rule ball_row_update, goal_cases)
    case (1 r)
    then have "\<not> permit_on (d_fingerprint r) (d_day r) q" using same by auto
    with counted 1 show ?case by (auto simp: days_counted_def)
  next
    case (2 r)
    have "date_valid (d_day daily)"
      "d_request_count daily = count_rows (permit_on (d_fingerprint daily) (d_day daily)) ps"
      "d_estimated_cost daily =
         sum_rows (\<lambda>p. if permit_on (d_fingerprint daily) (d_day daily) p then p_estimated_cost p else 0) ps"
      using counted daily by (auto simp: days_counted_def)
    with daily' q cap show ?case by simp
  qed
  have "\<exists>r \<in> set (replace_day daily daily' ds). permit_on (d_fingerprint r) (d_day r) p"
    if "p \<in> set (ps @ [q])" for p
  proof (rule bex_row_update)
    show "\<exists>r \<in> set ds. permit_on (d_fingerprint r) (d_day r) p"
      using that counted q daily by (auto simp: days_counted_def)
    fix r assume "r \<in> set ds" "d_id r = d_id daily" "permit_on (d_fingerprint r) (d_day r) p"
    moreover from this have "r = daily" using dist(1) daily by (auto intro: row_key_eq)
    ultimately show "permit_on (d_fingerprint daily') (d_day daily') p" using daily' by simp
  qed
  with rows show ?thesis by (auto simp: days_counted_def)
qed

lemma replace_day_frame:
  assumes dist: "distinct (map d_id ds)" and daily: "daily \<in> set ds"
    and "d_id daily' = d_id daily" "d_fingerprint daily' = d_fingerprint daily" "d_day daily' = d_day daily"
  shows "map d_id (replace_day daily daily' ds) = map d_id ds"
    and "map (\<lambda>r. (d_fingerprint r, d_day r)) (replace_day daily daily' ds) =
         map (\<lambda>r. (d_fingerprint r, d_day r)) ds"
    and "list_all daily_budget_ok ds \<Longrightarrow> daily_budget_ok daily' \<Longrightarrow>
         list_all daily_budget_ok (replace_day daily daily' ds)"
  using assms
  by (auto intro!: map_row_update_one [OF dist daily] simp: list_all_iff set_row_update)

text \<open>The columns the new permit must not share with an older one.\<close>

lemma grant_unique:
  assumes counted: "runs_counted A rbs ps" "permits_in_runs rbs ps" and rb: "rb \<in> set rbs"
    and dist: "distinct (map r_id rbs)"
    and q: "p_run_budget_id q = r_id rb" "p_sequence q = r_request_count rb + 1"
    and new: "\<forall>p \<in> set ps. p_run_budget_id p = r_id rb \<longrightarrow> p_request_key_hash p \<noteq> p_request_key_hash q"
    and p: "p \<in> set ps"
  shows "(p_run_budget_id p, p_sequence p) \<noteq> (p_run_budget_id q, p_sequence q)"
    and "(p_run_budget_id p, p_request_key_hash p) \<noteq> (p_run_budget_id q, p_request_key_hash q)"
proof -
  obtain r where r: "r \<in> set rbs" "r_id r = p_run_budget_id p" "p_sequence p \<le> r_request_count r"
    using counted(2) p unfolding permits_in_runs_def by blast
  have "p_run_budget_id p = r_id rb \<Longrightarrow> r = rb" using r dist rb by (auto intro: row_key_eq)
  with r q show "(p_run_budget_id p, p_sequence p) \<noteq> (p_run_budget_id q, p_sequence q)" by auto
  show "(p_run_budget_id p, p_request_key_hash p) \<noteq> (p_run_budget_id q, p_request_key_hash q)"
    using new p q(1) by auto
qed

lemma grant_inv:
  assumes inv: "ledger_inv A d" and rb: "rb \<in> set (run_budgets d)" "r_fingerprint rb = ps_fingerprint ps"
    and daily: "daily \<in> set (daily_budgets d)" "d_fingerprint daily = ps_fingerprint ps"
      "d_day daily = utc_date t"
    and appr: "ps_approval ps = A (ps_fingerprint ps)"
    and new: "\<forall>p \<in> set (permits d). p_run_budget_id p = r_id rb \<longrightarrow> p_request_key_hash p \<noteq> h"
    and pid: "\<forall>p \<in> set (permits d). p_permit_id p \<noteq> pid" and cost: "0 \<le> cost"
    and verdict: "run_verdict ps rb daily t cost d = Inr Grant"
  shows "ledger_inv A (grant_permit ps rb daily pid h t cost d)"
proof -
  note limits = run_verdict_Grant [OF verdict]
  define q where "q = new_permit ps rb pid h t cost d"
  define rb' where "rb' = rb\<lparr>r_request_count := r_request_count rb + 1,
    r_in_flight := r_in_flight rb + 1, r_version := r_version rb + 1\<rparr>"
  define daily' where "daily' = daily\<lparr>d_request_count := d_request_count daily + 1,
    d_estimated_cost := d_estimated_cost daily + cost, d_version := d_version daily + 1\<rparr>"
  have dist: "distinct (map r_id (run_budgets d))" "distinct (map d_id (daily_budgets d))"
    "distinct (map (\<lambda>r. (d_fingerprint r, d_day r)) (daily_budgets d))"
    using inv by (auto simp: ledger_inv_def unique_ok_def)
  have eq: "grant_permit ps rb daily pid h t cost d = d\<lparr>
      run_budgets := replace_run rb rb' (run_budgets d),
      daily_budgets := replace_day daily daily' (daily_budgets d), permits := permits d @ [q]\<rparr>"
    unfolding grant_permit_def q_def rb'_def daily'_def
    using row_update_const [OF dist(1) rb(1), of "\<lambda>r. r\<lparr>r_request_count := r_request_count rb + 1,
        r_in_flight := r_in_flight r + 1, r_version := r_version r + 1\<rparr>"]
      row_update_const [OF dist(2) daily(1), of "\<lambda>r. r\<lparr>d_request_count := d_request_count r + 1,
        d_estimated_cost := d_estimated_cost daily + cost, d_version := d_version r + 1\<rparr>"] by simp
  have same: "same_run rb rb'" by (simp add: rb'_def same_run_def)
  have counted: "runs_counted A (run_budgets d) (permits d)"
    "permits_in_runs (run_budgets d) (permits d)" using inv by (simp_all add: ledger_inv_def)
  note frame = replace_run_frame [OF dist(1) rb(1) same]
  have "run_budget_ok rb'" "daily_budget_ok daily'" "permit_ok q"
    using inv rb daily cost
    by (auto simp: ledger_inv_def checks_ok_def list_all_iff rb'_def daily'_def q_def new_permit_def
        run_budget_ok_def daily_budget_ok_def permit_ok_def)
  note checks = replace_run_ok [OF _ this(1), of "run_budgets d" rb] replace_run_owner [OF _ rb(1) same] this(2,3)
  have dframe: "map d_id (replace_day daily daily' (daily_budgets d)) = map d_id (daily_budgets d)"
    "map (\<lambda>r. (d_fingerprint r, d_day r)) (replace_day daily daily' (daily_budgets d)) =
       map (\<lambda>r. (d_fingerprint r, d_day r)) (daily_budgets d)"
    "list_all daily_budget_ok (replace_day daily daily' (daily_budgets d))"
    using replace_day_frame [OF dist(2) daily(1), of daily'] inv checks(3)
    by (auto simp: daily'_def ledger_inv_def checks_ok_def)
  have runs: "runs_counted A (replace_run rb rb' (run_budgets d)) (permits d @ [q])"
    using limits(5) rb appr same counted
    by (intro grant_runs dist) (auto simp: rb'_def q_def new_permit_def)
  have days: "days_counted A (replace_day daily daily' (daily_budgets d)) (permits d @ [q])"
    using limits(6,7) daily appr inv
    by (intro grant_days dist)
      (auto simp: daily'_def q_def new_permit_def permit_on_def ledger_inv_def)
  have months: "months_capped A (replace_day daily daily' (daily_budgets d))"
  proof (rule grant_months [OF dist(2) daily(1)])
    obtain m where m: "monthly_estimated_cost (ps_fingerprint ps) (utc_date t) d = Inr m"
      "m + cost \<le> monthly_cap (cost_limits (ps_approval ps))" using limits(8) by blast
    have "\<forall>r \<in> set (daily_budgets d). date_valid (d_day r)"
      using inv by (simp add: ledger_inv_def days_counted_def)
    then have "m = month_cost (ps_fingerprint ps) (year (utc_date t)) (month (utc_date t)) (daily_budgets d)"
      using utc_date_valid m(1) by (rule monthly_estimated_cost_month)
    with m(2) daily appr show "month_cost (d_fingerprint daily) (year (d_day daily)) (month (d_day daily))
        (daily_budgets d) + cost \<le> monthly_cap (cost_limits (A (d_fingerprint daily)))" by simp
  qed (use inv in \<open>auto simp: daily'_def ledger_inv_def\<close>)
  have flight: "flight_capped A (replace_run rb rb' (run_budgets d))"
    using inv limits(3) rb appr row_get_unique [OF dist(1) rb(1)]
    by (auto simp: ledger_inv_def flight_capped_def sum_rows_update [OF dist(1)] rb'_def
        global_in_flight_def sum_rows_filter)
  have rate: "rate_capped A (permits d @ [q])"
    using inv limits(4) appr
    by (intro grant_rate) (auto simp: ledger_inv_def authorized_after_def q_def new_permit_def)
  have "rb' \<in> set (replace_run rb rb' (run_budgets d))"
    unfolding set_row_update using rb(1) by (intro bexI [of _ rb]) simp_all
  then have "permits_in_runs (replace_run rb rb' (run_budgets d)) (permits d @ [q])"
    using frame(3) [OF counted(2)] rb
    by (auto simp: permits_in_runs_def q_def new_permit_def rb'_def intro!: bexI [of _ rb'])
  moreover have "sends_bound (replace_run rb rb' (run_budgets d)) (permits d @ [q]) (journals d)"
    using frame(5) [of "permits d" "journals d"] inv
    unfolding ledger_inv_def sends_bound_def by fastforce
  moreover have "\<forall>p \<in> set (permits d). p_id p \<noteq> p_id q"
    by (simp add: q_def new_permit_def fresh_key_fresh)
  moreover have "\<forall>p \<in> set (permits d). p_permit_id p \<noteq> p_permit_id q"
    using pid by (simp add: q_def new_permit_def)
  moreover have "\<forall>p \<in> set (permits d). (p_run_budget_id p, p_sequence p) \<noteq> (p_run_budget_id q, p_sequence q)"
    "\<forall>p \<in> set (permits d). (p_run_budget_id p, p_request_key_hash p) \<noteq> (p_run_budget_id q, p_request_key_hash q)"
    using new by (intro ballI grant_unique [OF counted rb(1) dist(1)]; simp add: q_def new_permit_def)+
  moreover have "r_id ` set (replace_run rb rb' (run_budgets d)) = r_id ` set (run_budgets d)"
    using frame(1) by (metis list.set_map)
  moreover have "p_run_budget_id q \<in> r_id ` set (run_budgets d)"
    using rb by (simp add: q_def new_permit_def)
  ultimately show ?thesis
    unfolding eq using inv frame checks dframe runs days months flight rate
    by (auto simp: ledger_inv_def ledger_parts list_all_iff)
qed

theorem ledger_change_inv:
  "ledger_change A d d' \<Longrightarrow> \<forall>fp. g0_valid (A fp) \<Longrightarrow> ledger_inv A d \<Longrightarrow> ledger_inv A d'"
proof (induction rule: ledger_change.induct)
  case (move_journal row d k row')
  then show ?case using move_journal_inv by blast
next
  case (claim_journal slot d row)
  then have "j_permit_id row = None" by (auto simp: journal_ok_by_state)
  with claim_journal show ?case
    by (intro claim_journal_inv) (auto simp: journal_of_slot_def)
next
  case (settle_permit p d rb status response rb' t)
  show ?case
    by (rule settle_permit_inv) (use settle_permit in auto)
qed (auto intro: add_run_inv bind_run_inv open_day_inv grant_inv stop_inv settle_permit_inv
    claim_slot_inv resolve_slot_inv)

end
