(* ===== verification/Database.thy ===== *)
theory Database
  imports Ledger
begin

text \<open>
  The services refine the ledger: the effect of every operation of the permit service, the
  slot service and the journal service on the shared database is a sequence of elementary
  ledger changes.  The database machine runs any interleaving of their calls.
\<close>

abbreviation changes :: "(pystr \<Rightarrow> g0_approval) \<Rightarrow> db \<Rightarrow> db \<Rightarrow> bool" where
  "changes A \<equiv> (ledger_change A)\<^sup>*\<^sup>*"

lemma changes_inv:
  "changes A d d' \<Longrightarrow> \<forall>fp. g0_valid (A fp) \<Longrightarrow> ledger_inv A d \<Longrightarrow> ledger_inv A d'"
  by (induction rule: rtranclp_induct) (auto intro: ledger_change_inv)

lemma ledger_inv_db_ok: "ledger_inv A d \<Longrightarrow> db_ok d"
  by (simp add: ledger_inv_def db_ok_def)

definition permit_fresh :: "pystr \<Rightarrow> db \<Rightarrow> bool" where
  "permit_fresh pid d \<longleftrightarrow> (\<forall>p \<in> set (permits d). p_permit_id p \<noteq> pid)"

section \<open>The permit service\<close>

lemma locked_daily_budget_effect:
  assumes "locked_daily_budget fp (utc_date t) d = (daily, d')"
  shows "changes A d d'" and "daily \<in> set (daily_budgets d')" and "d_fingerprint daily = fp"
    and "d_day daily = utc_date t"
    and "d' = d\<lparr>daily_budgets := daily_budgets d'\<rparr>"
proof -
  have "changes A d d' \<and> daily \<in> set (daily_budgets d') \<and> d_fingerprint daily = fp \<and>
      d_day daily = utc_date t \<and> d' = d\<lparr>daily_budgets := daily_budgets d'\<rparr>"
  proof (cases "find (\<lambda>r. d_fingerprint r = fp \<and> d_day r = utc_date t) (daily_budgets d)")
    case None
    then have "\<forall>r \<in> set (daily_budgets d). d_fingerprint r = fp \<longrightarrow> d_day r \<noteq> utc_date t"
      by (auto simp: find_None_iff)
    with None assms show ?thesis
      by (auto simp: locked_daily_budget_def Let_def new_daily_def [of _ fp]
          intro!: r_into_rtranclp open_day [unfolded new_daily_def])
  next
    case (Some r)
    with assms show ?thesis by (auto simp: locked_daily_budget_def find_Some_iff)
  qed
  then show "changes A d d'" and "daily \<in> set (daily_budgets d')" and "d_fingerprint daily = fp"
    and "d_day daily = utc_date t" and "d' = d\<lparr>daily_budgets := daily_budgets d'\<rparr>" by auto
qed

lemma require_run_budget_Inr:
  assumes "require_run_budget ps d = Inr rb"
  shows "rb \<in> set (run_budgets d)" and "r_run_id rb = ps_run_id ps"
    and "r_fingerprint rb = ps_fingerprint ps"
  using assms
  by (auto simp: require_run_budget_def locked_run_budget_def find_Some_iff
      split: option.splits if_splits)

text \<open>The kernel either grants one permit, or records at most one stop.\<close>

lemma reserve_request_Inr:
  assumes "reserve_request ps pid h t cost d0 = Inr (a, d')"
  obtains (granted) rb daily d where "require_run_budget ps d0 = Inr rb"
      "locked_daily_budget (ps_fingerprint ps) (utc_date t) d0 = (daily, d)"
      "\<forall>p \<in> set (permits d). p_run_budget_id p = r_id rb \<longrightarrow> p_request_key_hash p \<noteq> h"
      "run_verdict ps rb daily t cost d = Inr Grant"
      "a = \<lparr>ad_permit = Some (granted (new_permit ps rb pid h t cost d)),
            ad_stopped_reason = None, ad_deferred = False\<rparr>"
      "d' = grant_permit ps rb daily pid h t cost d"
  | (refused) rb daily d where "require_run_budget ps d0 = Inr rb"
      "locked_daily_budget (ps_fingerprint ps) (utc_date t) d0 = (daily, d)"
      "ad_permit a = None"
      "d' = d \<or> (\<exists>r. r_stop_reason rb = None \<and> d' = record_stop rb r t (trigger_of r) d)"
proof -
  obtain rb where rb: "require_run_budget ps d0 = Inr rb"
    using assms by (auto simp: reserve_request_def bindr_Inr)
  obtain daily d where day: "locked_daily_budget (ps_fingerprint ps) (utc_date t) d0 = (daily, d)"
    by fastforce
  have new: "\<forall>p \<in> set (permits d). p_run_budget_id p = r_id rb \<longrightarrow> p_request_key_hash p \<noteq> h"
    using assms rb day by (auto simp: reserve_request_def list_ex_iff split: if_splits)
  obtain v where v: "run_verdict ps rb daily t cost d = Inr v"
    using assms rb day by (auto simp: reserve_request_def bindr_Inr split: if_splits)
  have "\<not> list_ex (\<lambda>p. p_run_budget_id p = r_id rb \<and> p_request_key_hash p = h) (permits d)"
    using new by (auto simp: list_ex_iff)
  with assms rb day v have res: "(case v of
      Grant \<Rightarrow> Inr (\<lparr>ad_permit = Some (granted (new_permit ps rb pid h t cost d)),
          ad_stopped_reason = None, ad_deferred = False\<rparr>, grant_permit ps rb daily pid h t cost d)
    | StopRun r \<Rightarrow> Inr (\<lparr>ad_permit = None, ad_stopped_reason = Some r, ad_deferred = False\<rparr>,
          if r_stop_reason rb = None then record_stop rb r t (trigger_of r) d else d)
    | Defer \<Rightarrow> Inr (\<lparr>ad_permit = None, ad_stopped_reason = None, ad_deferred = True\<rparr>, d)) =
    (Inr (a, d') :: error + authorization_decision \<times> db)"
    by (simp add: reserve_request_def)
  show thesis
  proof (cases v)
    case Grant
    with res rb day new v show thesis by (intro granted) auto
  next
    case (StopRun r)
    with res rb day show thesis by (intro refused [of rb daily d]) (auto split: if_splits)
  next
    case Defer
    with res rb day show thesis by (intro refused [of rb daily d]) auto
  qed
qed

lemma reserve_request_changes:
  assumes "reserve_request ps pid h t cost d0 = Inr (a, d')"
    and appr: "ps_approval ps = A (ps_fingerprint ps)" and fresh: "ad_permit a \<noteq> None \<Longrightarrow> permit_fresh pid d0"
    and cost: "0 \<le> cost"
  shows "changes A d0 d'"
  using assms(1)
proof (cases rule: reserve_request_Inr)
  case (granted rb daily d)
  note day = locked_daily_budget_effect [OF granted(2)]
  have "ledger_change A d d'"
    unfolding granted(6)
  proof (rule ledger_change.grant)
    show "rb \<in> set (run_budgets d)"
      using require_run_budget_Inr(1) [OF granted(1)] by (subst day(5)) simp
    show "r_fingerprint rb = ps_fingerprint ps" using granted(1) by (rule require_run_budget_Inr(3))
    show "\<forall>p \<in> set (permits d). p_permit_id p \<noteq> pid"
      using fresh granted(5) by (subst day(5)) (simp add: permit_fresh_def)
  qed (use day granted appr cost in auto)
  with day(1) show ?thesis by (rule rtranclp.rtrancl_into_rtrancl)
next
  case (refused rb daily d)
  note day = locked_daily_budget_effect [OF refused(2)]
  have "rb \<in> set (run_budgets d)"
    using require_run_budget_Inr(1) [OF refused(1)] by (subst day(5)) simp
  then have "d' = d \<or> ledger_change A d d'" using refused(4) by (auto intro: ledger_change.stop)
  with day(1) show ?thesis by (auto intro: rtranclp.rtrancl_into_rtrancl)
qed

text \<open>A reserved identifier was not in use, when the transaction's uniqueness holds.\<close>

lemma reserve_request_fresh:
  assumes "reserve_request ps pid h t cost d0 = Inr (a, d')" and "ad_permit a \<noteq> None"
    and "distinct (map p_permit_id (permits d'))"
  shows "permit_fresh pid d0"
  using assms(1)
proof (cases rule: reserve_request_Inr)
  case (granted rb daily d)
  have "permits d = permits d0" by (subst locked_daily_budget_effect(5) [OF granted(2)]) simp
  with assms(3) granted(6) show ?thesis
    by (auto simp: grant_permit_def new_permit_def permit_fresh_def)
next
  case (refused rb daily d)
  with assms(2) show ?thesis by simp
qed

lemma initialize_body_changes:
  assumes "initialize_body ps t d = Inr ((), d')"
  shows "changes A d d'"
proof -
  define add where "add d = snd (locked_daily_budget (ps_fingerprint ps) (utc_date t) d)" for d
  have day: "changes A d (add d)" for d
    unfolding add_def using locked_daily_budget_effect(1) [of "ps_fingerprint ps" t d]
    by (metis prod.collapse)
  show ?thesis
  proof (cases "locked_run_budget d (ps_run_id ps)")
    case None
    then have new: "\<forall>r \<in> set (run_budgets d). r_run_id r \<noteq> ps_run_id ps"
      by (auto simp: locked_run_budget_def find_None_iff)
    let ?d = "d\<lparr>run_budgets := run_budgets d @
        [new_run_budget (fresh_key r_id (run_budgets d)) (ps_run_id ps) (ps_fingerprint ps)]\<rparr>"
    have run: "ps_run_id ps \<in> set (crawl_runs d)" and d': "d' = add ?d"
      using assms None by (auto simp: initialize_body_def add_def Let_def split: if_splits)
    have "ledger_change A d ?d" using run new by (rule ledger_change.bind_run)
    then show ?thesis unfolding d' using day [of ?d] by (rule converse_rtranclp_into_rtranclp)
  next
    case (Some rb)
    with assms have "d' = add d" by (auto simp: initialize_body_def add_def split: if_splits)
    with day show ?thesis by simp
  qed
qed

lemma stop_body_changes:
  assumes "stop_body ps reason trigger t d = Inr ((), d')"
  shows "changes A d d'"
proof -
  obtain rb where "rb \<in> set (run_budgets d)"
    and "d' = (if r_stop_reason rb = None then record_stop rb reason t trigger d else d)"
    using assms by (auto simp: stop_body_def bindr_Inr dest: require_run_budget_Inr(1))
  then show ?thesis by (simp add: r_into_rtranclp ledger_change.stop)
qed

lemma locked_permit_and_run_Inr:
  assumes "locked_permit_and_run ps pid d = Inr (p, rb)"
  shows "p \<in> set (permits d)" "p_permit_id p = pid" "p_fingerprint p = ps_fingerprint ps"
    "p_status p = PermitAuthorized" "rb \<in> set (run_budgets d)" "r_id rb = p_run_budget_id p"
    "r_run_id rb = ps_run_id ps" "1 \<le> r_in_flight rb"
  using assms
  by (auto simp: locked_permit_and_run_def find_Some_iff not_less
      dest: row_get_Some split: option.splits if_splits)

lemma release_row_released: "released rb (release_row rb)"
  by (simp add: released_def release_row_def run_budget_ok_def)

lemma count_response_released: "released rb (count_response status (release_row rb))"
  by (simp add: released_def release_row_def run_budget_ok_def count_response_def)

lemma transport_failure_changes:
  assumes "transport_failure_body ps pid t d = Inr ((), d')"
  shows "changes A d d'"
proof -
  obtain p rb where lock: "locked_permit_and_run ps pid d = Inr (p, rb)"
    and d': "d' = d\<lparr>permits := row_update p_id (p_id p)
                    (\<lambda>_. consume_row PermitTransportFailed t None p) (permits d),
                  run_budgets := row_update r_id (r_id rb) (\<lambda>_. release_row rb) (run_budgets d)\<rparr>"
    using assms by (auto simp: transport_failure_body_def bindr_Inr)
  note l = locked_permit_and_run_Inr [OF lock]
  show ?thesis
    unfolding d' using l release_row_released [of rb]
    by (intro r_into_rtranclp ledger_change.settle_permit) simp_all
qed

lemma record_response_changes:
  assumes "record_response_body ps pid status t d = Inr ((), d')" and "100 \<le> status" "status \<le> 599"
  shows "changes A d d'"
proof -
  obtain p rb where lock: "locked_permit_and_run ps pid d = Inr (p, rb)"
    using assms(1) by (auto simp: record_response_body_def bindr_Inr)
  note l = locked_permit_and_run_Inr [OF lock]
  define rb' where "rb' = count_response status (release_row rb)"
  define d1 where "d1 = d\<lparr>permits := row_update p_id (p_id p)
      (\<lambda>_. consume_row PermitConsumed t (Some status) p) (permits d),
    run_budgets := row_update r_id (r_id rb) (\<lambda>_. rb') (run_budgets d)\<rparr>"
  have "ledger_change A d d1"
    unfolding d1_def rb'_def using l count_response_released [of rb status] assms(2,3)
    by (intro ledger_change.settle_permit) simp_all
  moreover have "rb' \<in> set (run_budgets d1)"
    unfolding d1_def using l(5) by (auto simp: set_row_update intro!: bexI [of _ rb])
  moreover have "d' = d1 \<or> (\<exists>r. d' = record_stop rb' r t TriggerResponse d1)"
    using assms(1) lock
    by (auto simp: record_response_body_def Let_def rb'_def d1_def split: option.splits if_splits)
  ultimately show ?thesis
    by (metis ledger_change.stop r_into_rtranclp rtranclp.rtrancl_into_rtrancl)
qed

section \<open>The slot and the journal\<close>

lemma slot_claim_body_changes:
  assumes "slot_claim_body fp run h t d = Inr (c, d')" shows "changes A d d'"
proof -
  define row where "row = \<lparr>s_id = fresh_key s_id (slots d), s_fingerprint = fp, s_run_id = run,
    s_request_key_hash = h, s_status = SlotClaimed, s_claimed_at = t, s_resolved_at = None\<rparr>"
  have "run_bound run fp d" "\<forall>s \<in> set (slots d). s_fingerprint s \<noteq> fp"
    and d': "d' = d\<lparr>slots := slots d @ [row]\<rparr>"
    using assms by (auto simp: slot_claim_body_def Let_def list_ex_iff row_def split: if_splits)
  then show ?thesis unfolding d'
    by (intro r_into_rtranclp ledger_change.claim_slot) (auto simp: row_def slot_ok_def)
qed

lemma slot_resolve_body_changes:
  assumes "slot_resolve_body c fp status t d = Inr (u, d')" and "status \<in> {SlotCompleted, SlotFailed}"
  shows "changes A d d'"
proof -
  obtain row where "row_get s_id (c_slot_id c) (slots d) = Some row"
    and d': "d' = d\<lparr>slots := row_update s_id (c_slot_id c)
                 (\<lambda>r. r\<lparr>s_status := status, s_resolved_at := Some t\<rparr>) (slots d)\<rparr>"
    using assms(1) by (auto simp: slot_resolve_body_def split: option.splits if_splits)
  with assms(2) show ?thesis unfolding d'
    by (intro r_into_rtranclp ledger_change.resolve_slot) (auto dest: row_get_Some)
qed

lemma journal_claim_body_changes:
  assumes "journal_claim_body fp run slot_id h t d = Inr (v, d')" shows "changes A d d'"
proof -
  define row where "row = \<lparr>j_id = fresh_key j_id (journals d), j_fingerprint = fp, j_run_id = run,
    j_slot_id = slot_id, j_binding_hash = h, j_permit_id = None, j_status = Claimed,
    j_failure_code = None, j_claimed_at = t, j_send_started_at = None, j_settled_at = None,
    j_resolved_at = None, j_version = 0\<rparr>"
  obtain slot where "row_get s_id slot_id (slots d) = Some slot" "s_fingerprint slot = fp"
    "s_run_id slot = run" "s_request_key_hash slot = h"
    "\<forall>j \<in> set (journals d). j_slot_id j \<noteq> slot_id"
    and d': "d' = d\<lparr>journals := journals d @ [row]\<rparr>"
    using assms
    by (auto simp: journal_claim_body_def Let_def list_ex_iff row_def split: if_splits option.splits)
  then show ?thesis unfolding d'
    by (intro r_into_rtranclp ledger_change.claim_journal [of slot])
      (auto simp: row_def journal_ok_def dest: row_get_Some)
qed

text \<open>A journal operation rewrites one row, and its guards establish the binding it needs.\<close>

definition move_ok :: "db \<Rightarrow> journal_row \<Rightarrow> journal_row \<Rightarrow> bool" where
  "move_ok d row row' \<longleftrightarrow>
     journal_step row row' \<and> journal_ok row' \<and>
     (j_status row' = SendStarted \<longrightarrow> (\<exists>p. permit_for d row' p \<and> p_status p = PermitAuthorized)) \<and>
     (j_status row' = Settled \<longrightarrow> (\<exists>p. permit_for d row' p \<and> p_status p = PermitConsumed))"

lemma with_journal_changes:
  assumes inv: "ledger_inv A d" and run: "with_journal jid f d = Inr (v, d')"
    and move: "\<And>row row'. row \<in> set (journals d) \<Longrightarrow> row_get j_id jid (journals d) = Some row \<Longrightarrow>
                 f d row = Inr row' \<Longrightarrow> row' = row \<or> move_ok d row row'"
  shows "changes A d d'"
proof -
  obtain row row' where row: "row_get j_id jid (journals d) = Some row" "f d row = Inr row'"
    and d': "d' = d\<lparr>journals := row_update j_id jid (\<lambda>_. row') (journals d)\<rparr>"
    using run by (auto simp: with_journal_Inr)
  have mem: "row \<in> set (journals d)" "j_id row = jid" using row(1) by (auto dest: row_get_Some)
  show ?thesis
  proof (cases "row' = row")
    case True
    have "distinct (map j_id (journals d))" using inv by (simp add: ledger_inv_def unique_ok_def)
    then have "row_update j_id jid (\<lambda>_. row) (journals d) = journals d"
      using mem by (auto simp: row_update_def intro!: map_idI dest: row_key_eq)
    with True show ?thesis unfolding d' by simp
  next
    case False
    with move [OF mem(1) row] have "move_ok d row row'" by simp
    with mem show ?thesis unfolding d' move_ok_def
      by (intro r_into_rtranclp ledger_change.move_journal) auto
  qed
qed

lemma journal_row_ok: "ledger_inv A d \<Longrightarrow> row \<in> set (journals d) \<Longrightarrow> journal_ok row"
  by (simp add: ledger_inv_def checks_ok_def list_all_iff)

lemma start_send_move:
  assumes "ledger_inv A d" "row \<in> set (journals d)" "start_send_row pid t d row = Inr row'"
  shows "move_ok d row row'"
proof -
  obtain p rb where "find (\<lambda>p. p_permit_id p = pid) (permits d) = Some p"
    "row_get r_id (p_run_budget_id p) (run_budgets d) = Some rb" "p_status p = PermitAuthorized"
    "r_run_id rb = j_run_id row" "p_fingerprint p = j_fingerprint row"
    "p_request_key_hash p = j_binding_hash row"
    and row': "row' = row\<lparr>j_permit_id := Some pid, j_status := SendStarted,
                             j_send_started_at := Some t, j_version := j_version row + 1\<rparr>"
    using assms(3) by (auto simp: start_send_row_def split: if_splits option.splits)
  then have "permit_for d row' p"
    unfolding permit_for_def permit_run_def row' by (auto simp: find_Some_iff dest!: row_get_Some)
  moreover note start_send_row_step [OF assms(3)]
    row_ops_shape(1) [OF journal_row_ok [OF assms(1,2)] assms(3)]
  ultimately show ?thesis using \<open>p_status p = PermitAuthorized\<close>
    unfolding move_ok_def by (auto simp: row')
qed

lemma settle_move:
  assumes "ledger_inv A d" "row \<in> set (journals d)" "settle_row pid t d row = Inr row'"
  shows "move_ok d row row'"
proof -
  obtain p where p: "p \<in> set (permits d)" "p_permit_id p = pid" "p_status p = PermitConsumed"
    "j_permit_id row = Some pid"
    and row': "row' = row\<lparr>j_status := Settled, j_settled_at := Some t, j_version := j_version row + 1\<rparr>"
    using assms(3) by (auto simp: settle_row_def dest: find_SomeD split: if_splits option.splits)
  have "permit_for d row p" using assms(1,2) p by (intro permit_boundD) auto
  then have "permit_for d row' p" by (simp add: permit_for_def row')
  moreover note settle_row_step [OF assms(3)]
    row_ops_shape(2) [OF journal_row_ok [OF assms(1,2)] assms(3)]
  ultimately show ?thesis using p(3) unfolding move_ok_def by (auto simp: row')
qed

lemma move_ok_resolved:
  "journal_step row row' \<Longrightarrow> journal_ok row' \<Longrightarrow> terminal (j_status row') \<Longrightarrow> move_ok d row row'"
  by (auto simp: move_ok_def terminal_def)

lemma resolve_move:
  assumes "journal_ok row"
  shows "resolve_row Completed None t row = Inr row' \<Longrightarrow> move_ok d row row'"
    and "resolve_row Failed (Some c) t row = Inr row' \<Longrightarrow> move_ok d row row'"
    and "indeterminate_row c t row = Inr row' \<Longrightarrow> move_ok d row row'"
    and "recover_row t row = row \<or> move_ok d row (recover_row t row)"
proof -
  show "move_ok d row row'" if "resolve_row Completed None t row = Inr row'"
    using resolve_row_step [OF that] row_ops_shape(3) [OF assms that] that
    by (intro move_ok_resolved) (auto simp: resolve_row_def Let_def terminal_def split: if_splits)
  show "move_ok d row row'" if "resolve_row Failed (Some c) t row = Inr row'"
    using resolve_row_step [OF that] row_ops_shape(4) [OF assms that] that
    by (intro move_ok_resolved) (auto simp: resolve_row_def Let_def terminal_def split: if_splits)
  show "move_ok d row row'" if "indeterminate_row c t row = Inr row'"
    using indeterminate_row_step [OF that] row_ops_shape(5) [OF assms that] that
    by (intro move_ok_resolved) (auto simp: indeterminate_row_def terminal_def split: if_splits)
  show "recover_row t row = row \<or> move_ok d row (recover_row t row)"
    using recover_row_step [of t row] row_ops_shape(6) [OF assms] recover_row_terminal [of t row]
    by (auto intro: move_ok_resolved)
qed

text \<open>The combined transaction: the permit is granted, then the journal it is for is started.\<close>

lemma start_journal_changes:
  assumes inv: "ledger_inv A d" and run: "start_journal ps jid h t permit d = Inr d'"
    and p: "p \<in> set (permits d)" "p_permit_id p = pp_permit_id permit" "p_status p = PermitAuthorized"
      "p_fingerprint p = ps_fingerprint ps" "p_request_key_hash p = h"
      "permit_run (run_budgets d) p (ps_run_id ps)"
  shows "changes A d d'"
proof -
  obtain j where j: "row_get j_id jid (journals d) = Some j" "journal_bound ps h j"
    and d': "d' = d\<lparr>journals := row_update j_id jid
        (\<lambda>r. r\<lparr>j_permit_id := Some (pp_permit_id permit), j_status := SendStarted,
               j_send_started_at := Some t, j_version := j_version r + 1\<rparr>) (journals d)\<rparr>"
    using run by (auto simp: start_journal_def split: option.splits if_splits)
  define j' where "j' = j\<lparr>j_permit_id := Some (pp_permit_id permit), j_status := SendStarted,
    j_send_started_at := Some t, j_version := j_version j + 1\<rparr>"
  have mem: "j \<in> set (journals d)" "j_id j = jid" using j(1) by (auto dest: row_get_Some)
  have dist: "distinct (map j_id (journals d))" using inv by (simp add: ledger_inv_def unique_ok_def)
  have d'': "d' = d\<lparr>journals := row_update j_id jid (\<lambda>_. j') (journals d)\<rparr>"
    unfolding d' j'_def mem(2) [symmetric]
    using row_update_const [OF dist mem(1), of "\<lambda>r. r\<lparr>j_permit_id := Some (pp_permit_id permit),
        j_status := SendStarted, j_send_started_at := Some t, j_version := j_version r + 1\<rparr>"] by simp
  have "journal_ok j" using inv mem(1) by (rule journal_row_ok)
  then have "journal_ok j'" "journal_step j j'"
    using j(2) by (auto simp: journal_ok_by_state j'_def journal_bound_def journal_step_def)
  moreover have "permit_for d j' p"
    using p j(2) by (simp add: permit_for_def j'_def journal_bound_def)
  ultimately show ?thesis unfolding d'' using mem p(3)
    by (intro r_into_rtranclp ledger_change.move_journal) (auto simp: j'_def)
qed

lemma live_send_changes:
  assumes run: "live_send_body ps jid pid h t cost d0 = Inr (a, d')"
    and appr: "ps_approval ps = A (ps_fingerprint ps)" and fresh: "ad_permit a \<noteq> None \<Longrightarrow> permit_fresh pid d0"
    and cost: "0 \<le> cost" and valid: "\<forall>fp. g0_valid (A fp)" and inv: "ledger_inv A d0"
  shows "changes A d0 d'"
proof -
  obtain d1 where res: "reserve_request ps pid h t cost d0 = Inr (a, d1)"
    and rest: "(case ad_permit a of None \<Rightarrow> d' = d1
                | Some permit \<Rightarrow> start_journal ps jid h t permit d1 = Inr d')"
    using run by (auto simp: live_send_body_def bindr_Inr split: option.splits)
  have ch: "changes A d0 d1" using res appr fresh cost by (rule reserve_request_changes)
  have inv1: "ledger_inv A d1" using ch valid inv by (rule changes_inv)
  from res show ?thesis
  proof (cases rule: reserve_request_Inr)
    case (granted rb daily d)
    note day = locked_daily_budget_effect [OF granted(2)]
    have rb: "rb \<in> set (run_budgets d)" using require_run_budget_Inr(1) [OF granted(1)] by (subst day(5)) simp
    define q where "q = new_permit ps rb pid h t cost d"
    have "q \<in> set (permits d1)" by (simp add: granted(6) grant_permit_def q_def)
    moreover have "permit_run (run_budgets d1) q (ps_run_id ps)"
      using rb require_run_budget_Inr(2) [OF granted(1)]
      unfolding permit_run_def granted(6) grant_permit_def q_def new_permit_def
      by (simp, intro bex_row_update) auto
    moreover have "start_journal ps jid h t (granted q) d1 = Inr d'"
      using rest granted(5) by (simp add: q_def)
    ultimately have "changes A d1 d'"
      using inv1 by (intro start_journal_changes) (auto simp: q_def new_permit_def granted_def)
    with ch show ?thesis by (rule rtranclp_trans)
  next
    case (refused rb daily d)
    with rest ch show ?thesis by simp
  qed
qed

section \<open>The database machine\<close>

text \<open>
  Every call a process may make on the shared database.  A call of the permit service names
  the approval and the run its object was built with; a permit identifier is the UUID drawn.
  A transaction that holds the locks of the rows it decides by is one step.  The three calls that
  may meet a row inserted since they looked also come with the database they looked at.
\<close>

datatype ledger_call =
    CreateRun int
  | Initialize g0_approval int pydatetime
  | Authorize g0_approval int pystr pystr pydatetime rat
  | AuthorizeLive g0_approval int int pystr pystr pydatetime rat
  | RecordResponse g0_approval int pystr int pydatetime
  | RecordTransportFailure g0_approval int pystr pydatetime
  | StopRunManually g0_approval int pydatetime
  | SignalDrift g0_approval int pydatetime
  | ClaimSlot pystr int pystr pydatetime
  | CompleteSlot first_request_claim pydatetime
  | FailSlot first_request_claim pydatetime
  | ClaimJournal pystr int int pystr pydatetime
  | StartSend int pystr pydatetime
  | SettleJournal int pystr pydatetime
  | CompleteJournal int pydatetime
  | FailJournal int pystr pydatetime
  | MarkIndeterminate int pystr pydatetime
  | RecoverJournal int pydatetime
  | InitializeOverlapped db g0_approval int pydatetime
  | AuthorizeOverlapped db g0_approval int pystr pystr pydatetime rat
  | AuthorizeLiveOverlapped db g0_approval int int pystr pystr pydatetime rat

definition void :: "'a outcome \<Rightarrow> unit outcome" where
  "void r = (case r of (Inl e, d) \<Rightarrow> (Inl e, d) | (Inr _, d) \<Rightarrow> (Inr (), d))"

fun run_call ::
  "(pystr \<Rightarrow> pystr) \<Rightarrow> (g0_approval \<Rightarrow> pystr) \<Rightarrow> ledger_call \<Rightarrow> db \<Rightarrow> unit outcome" where
  "run_call sha fpr (CreateRun run) d = (Inr (), d\<lparr>crawl_runs := run # crawl_runs d\<rparr>)"
| "run_call sha fpr (Initialize a run now) d = ps_initialize (init_psafety fpr a run) now d"
| "run_call sha fpr (Authorize a run pid key now cost) d =
     void (ps_authorize sha (init_psafety fpr a run) pid key now cost d)"
| "run_call sha fpr (AuthorizeLive a run jid pid key now cost) d =
     void (ps_authorize_live sha (init_psafety fpr a run) jid pid key now cost d)"
| "run_call sha fpr (RecordResponse a run pid status now) d =
     ps_record_response (init_psafety fpr a run) pid status now d"
| "run_call sha fpr (RecordTransportFailure a run pid now) d =
     ps_record_transport_failure (init_psafety fpr a run) pid now d"
| "run_call sha fpr (StopRunManually a run now) d = ps_stop_manually (init_psafety fpr a run) now d"
| "run_call sha fpr (SignalDrift a run now) d = ps_signal_schema_drift (init_psafety fpr a run) now d"
| "run_call sha fpr (ClaimSlot fp run key now) d = void (slot_claim sha fp run key now d)"
| "run_call sha fpr (CompleteSlot c now) d = slot_complete c now d"
| "run_call sha fpr (FailSlot c now) d = slot_fail c now d"
| "run_call sha fpr (ClaimJournal fp run slot h now) d = void (journal_claim fp run slot h now d)"
| "run_call sha fpr (StartSend jid pid now) d = void (journal_start_send jid pid now d)"
| "run_call sha fpr (SettleJournal jid pid now) d = void (journal_settle jid pid now d)"
| "run_call sha fpr (CompleteJournal jid now) d = void (journal_complete jid now d)"
| "run_call sha fpr (FailJournal jid code now) d = void (journal_fail jid code now d)"
| "run_call sha fpr (MarkIndeterminate jid code now) d =
     void (journal_mark_indeterminate jid code now d)"
| "run_call sha fpr (RecoverJournal jid now) d = void (journal_recover jid now d)"
| "run_call sha fpr (InitializeOverlapped seen a run now) d =
     ps_initialize_overlapped (init_psafety fpr a run) now seen d"
| "run_call sha fpr (AuthorizeOverlapped seen a run pid key now cost) d =
     void (ps_authorize_overlapped sha (init_psafety fpr a run) pid key now cost seen d)"
| "run_call sha fpr (AuthorizeLiveOverlapped seen a run jid pid key now cost) d =
     void (ps_authorize_live_overlapped sha (init_psafety fpr a run) jid pid key now cost seen d)"

definition ledger_step ::
  "(pystr \<Rightarrow> pystr) \<Rightarrow> (g0_approval \<Rightarrow> pystr) \<Rightarrow> db \<Rightarrow> ledger_call \<Rightarrow> db" where
  "ledger_step sha fpr d c = snd (run_call sha fpr c d)"

text \<open>The approval of a call is the one its fingerprint stands for.\<close>

fun call_approval :: "ledger_call \<Rightarrow> g0_approval option" where
  "call_approval (Initialize a _ _) = Some a"
| "call_approval (Authorize a _ _ _ _ _) = Some a"
| "call_approval (AuthorizeLive a _ _ _ _ _ _) = Some a"
| "call_approval (RecordResponse a _ _ _ _) = Some a"
| "call_approval (RecordTransportFailure a _ _ _) = Some a"
| "call_approval (StopRunManually a _ _) = Some a"
| "call_approval (SignalDrift a _ _) = Some a"
| "call_approval (InitializeOverlapped _ a _ _) = Some a"
| "call_approval (AuthorizeOverlapped _ a _ _ _ _ _) = Some a"
| "call_approval (AuthorizeLiveOverlapped _ a _ _ _ _ _ _) = Some a"
| "call_approval _ = None"

definition call_ok :: "(pystr \<Rightarrow> g0_approval) \<Rightarrow> (g0_approval \<Rightarrow> pystr) \<Rightarrow> ledger_call \<Rightarrow> bool" where
  "call_ok A fpr c \<longleftrightarrow> (case call_approval c of None \<Rightarrow> True | Some a \<Rightarrow> A (fpr a) = a)"

fun call_permit :: "ledger_call \<Rightarrow> pystr option" where
  "call_permit (Authorize _ _ pid _ _ _) = Some pid"
| "call_permit (AuthorizeLive _ _ _ pid _ _ _) = Some pid"
| "call_permit (AuthorizeOverlapped _ _ _ pid _ _ _) = Some pid"
| "call_permit (AuthorizeLiveOverlapped _ _ _ _ pid _ _ _) = Some pid"
| "call_permit _ = None"

definition call_fresh :: "ledger_call \<Rightarrow> db \<Rightarrow> bool" where
  "call_fresh c d \<longleftrightarrow> (case call_permit c of None \<Rightarrow> True | Some pid \<Rightarrow> permit_fresh pid d)"

lemma snd_void [simp]: "snd (void r) = snd r"
  by (cases r; cases "fst r") (auto simp: void_def)

lemma snd_after_commit [simp]: "snd (after_commit r) = snd r"
  by (cases r; cases "fst r") (auto simp: after_commit_def)

lemma start_journal_permits:
  "start_journal ps jid h t permit d = Inr d' \<Longrightarrow> permits d' = permits d"
  by (auto simp: start_journal_def split: option.splits if_splits)

text \<open>A transaction contributes the changes of its body, or nothing.\<close>

lemma transaction_changes:
  assumes "\<And>v d'. body d = Inr (v, d') \<Longrightarrow> db_ok d' \<Longrightarrow> changes A d d'"
  shows "changes A d (snd (transaction body d))"
  using snd_transaction_cases [of body d] assms by auto

lemma before_changes:
  assumes "\<And>x. r = Inr x \<Longrightarrow> changes A d (snd (f x d))"
  shows "changes A d (snd (before r f d))"
  using assms by (cases r) auto

lemma ps_authorize_changes:
  assumes "ps_approval ps = A (ps_fingerprint ps)"
  shows "changes A d (snd (ps_authorize sha ps pid key now cost d))"
  unfolding ps_authorize_def
proof (intro before_changes, simp, rule transaction_changes)
  fix t h u a d'
  assume cost: "(if cost < 0 then Inl ValueError else Inr ()) = Inr u"
    and run: "reserve_request ps pid h t cost d = Inr (a, d')" and "db_ok d'"
  then have "distinct (map p_permit_id (permits d'))" by (simp add: db_ok_def unique_ok_def)
  then have "ad_permit a \<noteq> None \<Longrightarrow> permit_fresh pid d" using run by (intro reserve_request_fresh)
  with run assms show "changes A d d'"
    by (rule reserve_request_changes) (use cost in \<open>auto split: if_splits\<close>)
qed

lemma ps_authorize_live_changes:
  assumes appr: "ps_approval ps = A (ps_fingerprint ps)" and valid: "\<forall>fp. g0_valid (A fp)"
    and inv: "ledger_inv A d"
  shows "changes A d (snd (ps_authorize_live sha ps jid pid key now cost d))"
  unfolding ps_authorize_live_def
proof (intro before_changes, simp, rule transaction_changes)
  fix t h u w a d'
  assume cost: "(if cost < 0 then Inl ValueError else Inr ()) = Inr u"
    and run: "live_send_body ps jid pid h t cost d = Inr (a, d')" and "db_ok d'"
  then have dist: "distinct (map p_permit_id (permits d'))" by (simp add: db_ok_def unique_ok_def)
  obtain d1 where "reserve_request ps pid h t cost d = Inr (a, d1)" "permits d1 = permits d'"
    using run
    by (auto simp: live_send_body_def bindr_Inr dest!: start_journal_permits split: option.splits)
  with dist have "ad_permit a \<noteq> None \<Longrightarrow> permit_fresh pid d"
    using reserve_request_fresh [of ps pid h t cost d a d1] by simp
  with run appr show "changes A d d'"
    by (rule live_send_changes) (use cost valid inv in \<open>auto split: if_splits\<close>)
qed

lemma budget_service_changes:
  "changes A d (snd (ps_initialize ps now d))"
  "changes A d (snd (ps_record_response ps pid status now d))"
  "changes A d (snd (ps_record_transport_failure ps pid now d))"
  "changes A d (snd (ps_stop_manually ps now d))"
  "changes A d (snd (ps_signal_schema_drift ps now d))"
proof -
  show "changes A d (snd (ps_initialize ps now d))"
    unfolding ps_initialize_def
    by (intro before_changes transaction_changes initialize_body_changes) simp
  show "changes A d (snd (ps_record_response ps pid status now d))"
    unfolding ps_record_response_def
    by (intro before_changes transaction_changes record_response_changes)
      (auto split: if_splits)
  show "changes A d (snd (ps_record_transport_failure ps pid now d))"
    unfolding ps_record_transport_failure_def
    by (intro before_changes transaction_changes transport_failure_changes) simp
  show "changes A d (snd (ps_stop_manually ps now d))"
    unfolding ps_stop_manually_def
    by (intro before_changes transaction_changes stop_body_changes) simp
  show "changes A d (snd (ps_signal_schema_drift ps now d))"
    unfolding ps_signal_schema_drift_def
    by (intro before_changes transaction_changes stop_body_changes) simp
qed

text \<open>An overlapped initialization changes the ledger when the rows it inserts are still missing.\<close>

definition rows_missing :: "psafety \<Rightarrow> instant \<Rightarrow> db \<Rightarrow> db \<Rightarrow> bool" where
  "rows_missing ps t seen d \<longleftrightarrow>
     (locked_run_budget seen (ps_run_id ps) = None \<longrightarrow> locked_run_budget d (ps_run_id ps) = None) \<and>
     (\<not> day_known (ps_fingerprint ps) (utc_date t) seen \<longrightarrow>
        \<not> day_known (ps_fingerprint ps) (utc_date t) d)"

lemma locked_run_budget_None:
  "locked_run_budget d run = None \<longleftrightarrow> run \<notin> r_run_id ` set (run_budgets d)"
  by (auto simp: locked_run_budget_def find_None_iff)

lemma day_known_iff:
  "day_known fp budget_day d \<longleftrightarrow> (fp, budget_day) \<in> (\<lambda>r. (d_fingerprint r, d_day r)) ` set (daily_budgets d)"
  by (auto simp: day_known_def list_ex_iff)

lemma overlapped_initialize_Inr:
  assumes "overlapped_initialize_body ps t seen d = Inr ((), d')"
  shows "d' = (let d1 = (if locked_run_budget seen (ps_run_id ps) = None then insert_run ps d else d)
      in if day_known (ps_fingerprint ps) (utc_date t) seen then d1
         else insert_day (ps_fingerprint ps) (utc_date t) d1)"
  using assms by (auto simp: overlapped_initialize_body_def bindr_Inr split: if_splits option.splits)

lemma overlapped_rows_missing:
  assumes "overlapped_initialize_body ps t seen d = Inr ((), d')" and "db_ok d'"
  shows "rows_missing ps t seen d \<and>
    (locked_run_budget seen (ps_run_id ps) = None \<longrightarrow> ps_run_id ps \<in> set (crawl_runs d))"
  using assms(2) unfolding overlapped_initialize_Inr [OF assms(1)]
  by (auto simp: rows_missing_def locked_run_budget_None day_known_iff insert_day_def insert_run_def db_ok_def
      foreign_ok_def unique_ok_def new_run_budget_def new_daily_def Let_def split: if_splits)

lemma overlapped_initialize_changes:
  assumes body: "overlapped_initialize_body ps t seen d = Inr ((), d')" and miss: "rows_missing ps t seen d"
    and run: "locked_run_budget seen (ps_run_id ps) = None \<longrightarrow> ps_run_id ps \<in> set (crawl_runs d)"
  shows "changes A d d'"
proof -
  define d1 where "d1 = (if locked_run_budget seen (ps_run_id ps) = None then insert_run ps d else d)"
  have d': "d' = (if day_known (ps_fingerprint ps) (utc_date t) seen then d1
      else insert_day (ps_fingerprint ps) (utc_date t) d1)"
    unfolding overlapped_initialize_Inr [OF body] by (simp add: d1_def Let_def)
  have "changes A d d1"
  proof (cases "locked_run_budget seen (ps_run_id ps)")
    case None
    then have new: "\<forall>r \<in> set (run_budgets d). r_run_id r \<noteq> ps_run_id ps"
      using miss by (auto simp: rows_missing_def locked_run_budget_def find_None_iff)
    have "ps_run_id ps \<in> set (crawl_runs d)" using run None by simp
    from ledger_change.bind_run [OF this new] have "ledger_change A d (insert_run ps d)"
      unfolding insert_run_def .
    with None show ?thesis by (simp add: d1_def)
  qed (simp add: d1_def)
  moreover have "changes A d1 d'"
  proof (cases "day_known (ps_fingerprint ps) (utc_date t) seen")
    case False
    then have "\<not> day_known (ps_fingerprint ps) (utc_date t) d1"
      using miss by (simp add: rows_missing_def day_known_def d1_def insert_run_def)
    then have "find (\<lambda>r. d_fingerprint r = ps_fingerprint ps \<and> d_day r = utc_date t) (daily_budgets d1) = None"
      by (auto simp: day_known_def find_None_iff list_ex_iff)
    then have "d' = snd (locked_daily_budget (ps_fingerprint ps) (utc_date t) d1)"
      using False by (simp add: d' locked_daily_budget_def insert_day_def Let_def)
    then show ?thesis
      using locked_daily_budget_effect(1) [of "ps_fingerprint ps" t d1] by (metis prod.collapse)
  qed (simp add: d')
  ultimately show ?thesis by (rule rtranclp_trans)
qed

lemma overlapped_service_changes:
  "changes A d (snd (ps_initialize_overlapped ps now seen d))"
  "ps_approval ps = A (ps_fingerprint ps) \<Longrightarrow>
     changes A d (snd (ps_authorize_overlapped sha ps pid key now cost seen d))"
  "ps_approval ps = A (ps_fingerprint ps) \<Longrightarrow> \<forall>fp. g0_valid (A fp) \<Longrightarrow> ledger_inv A d \<Longrightarrow>
     changes A d (snd (ps_authorize_live_overlapped sha ps jid pid key now cost seen d))"
proof -
  show "changes A d (snd (ps_initialize_overlapped ps now seen d))"
    unfolding ps_initialize_overlapped_def
    by (intro before_changes transaction_changes)
      (use overlapped_rows_missing in \<open>auto intro!: overlapped_initialize_changes\<close>)
qed (simp_all add: ps_authorize_overlapped_def ps_authorize_live_overlapped_def ps_authorize_changes
    ps_authorize_live_changes)

lemma slot_service_changes:
  "changes A d (snd (slot_claim sha fp run key now d))"
  "changes A d (snd (slot_complete c now d))" "changes A d (snd (slot_fail c now d))"
proof -
  show "changes A d (snd (slot_claim sha fp run key now d))"
    unfolding slot_claim_def
    by (intro before_changes) (simp, intro transaction_changes slot_claim_body_changes, simp)
  have "changes A d (snd (slot_resolve c status now d))" if "status \<in> {SlotCompleted, SlotFailed}" for status
    unfolding slot_resolve_def
    by (intro before_changes transaction_changes, erule slot_resolve_body_changes) (rule that)
  then show "changes A d (snd (slot_complete c now d))" "changes A d (snd (slot_fail c now d))"
    unfolding slot_complete_def slot_fail_def by simp_all
qed

lemma journal_service_changes:
  assumes inv: "ledger_inv A d"
  shows "changes A d (snd (journal_claim fp run slot h now d))"
    and "changes A d (snd (journal_start_send jid pid now d))"
    and "changes A d (snd (journal_settle jid pid now d))"
    and "changes A d (snd (journal_complete jid now d))"
    and "changes A d (snd (journal_fail jid code now d))"
    and "changes A d (snd (journal_mark_indeterminate jid code now d))"
    and "changes A d (snd (journal_recover jid now d))"
proof -
  note ok = journal_row_ok [OF inv] and wj = with_journal_changes [OF inv]
  show "changes A d (snd (journal_claim fp run slot h now d))"
    unfolding journal_claim_def
    by (intro before_changes) (simp, intro transaction_changes journal_claim_body_changes, simp)
  show "changes A d (snd (journal_start_send jid pid now d))"
    unfolding journal_start_send_def
    by (intro before_changes transaction_changes, erule wj) (auto intro: start_send_move [OF inv])
  show "changes A d (snd (journal_settle jid pid now d))"
    unfolding journal_settle_def
    by (intro before_changes transaction_changes, erule wj) (auto intro: settle_move [OF inv])
  show "changes A d (snd (journal_complete jid now d))"
    unfolding journal_complete_def journal_resolve_def
    by (intro before_changes transaction_changes, erule wj) (auto intro: resolve_move(1) ok)
  show "changes A d (snd (journal_fail jid code now d))"
    unfolding journal_fail_def journal_resolve_def
    by (intro before_changes transaction_changes, erule wj) (auto intro: resolve_move(2) ok)
  show "changes A d (snd (journal_mark_indeterminate jid code now d))"
    unfolding journal_mark_indeterminate_def
    by (intro before_changes transaction_changes, erule wj) (auto intro: resolve_move(3) ok)
  show "changes A d (snd (journal_recover jid now d))"
    unfolding journal_recover_def
    by (intro before_changes transaction_changes, erule wj) (use resolve_move(4) ok in auto)
qed

lemma add_run_changes: "changes A d (d\<lparr>crawl_runs := run # crawl_runs d\<rparr>)"
  by (intro r_into_rtranclp ledger_change.add_run)

text \<open>The refinement: every call is a sequence of ledger changes.\<close>

lemma ledger_step_changes:
  assumes "\<forall>fp. g0_valid (A fp)" and "call_ok A fpr c" and "ledger_inv A d"
  shows "changes A d (ledger_step sha fpr d c)"
  using assms unfolding ledger_step_def
  by (cases c) (auto simp: call_ok_def init_psafety_def intro!: budget_service_changes
      slot_service_changes journal_service_changes ps_authorize_changes ps_authorize_live_changes
      overlapped_service_changes add_run_changes)

interpretation ledger: invariant_machine "ledger_step sha fpr"
    "\<lambda>c. (\<forall>fp. g0_valid (A fp)) \<and> call_ok A fpr c" "ledger_inv A" for sha fpr A
  by unfold_locales (blast intro: changes_inv ledger_step_changes)

end
