(* ===== verification/SendOnce.thy ===== *)
theory SendOnce
  imports Database
begin

text \<open>
  Consequences of the refinement for the whole acquisition database: the services' own
  guards imply the database's constraints wherever they hold the locks they decide by, and one
  approval fingerprint starts at most one live send, however the calls of all processes interleave.
\<close>

section \<open>Integrity errors are lost races\<close>

definition no_integrity :: "error + 'a \<Rightarrow> bool" where
  "no_integrity r \<longleftrightarrow> r \<noteq> Inl IntegrityError"

lemma no_integrity_simps [simp]:
  "no_integrity (Inr x)" "no_integrity (Inl e) \<longleftrightarrow> e \<noteq> IntegrityError"
  by (auto simp: no_integrity_def)

lemma no_integrity_bindr:
  "no_integrity r \<Longrightarrow> (\<And>x. r = Inr x \<Longrightarrow> no_integrity (f x)) \<Longrightarrow> no_integrity (bindr r f)"
  by (cases r) (auto simp: bindr_def)

lemma no_integrity_before:
  "no_integrity r \<Longrightarrow> (\<And>x. r = Inr x \<Longrightarrow> no_integrity (fst (f x d))) \<Longrightarrow>
   no_integrity (fst (before r f d))"
  by (cases r) auto

lemma no_integrity_void [simp]: "no_integrity (fst (void r)) = no_integrity (fst r)"
  by (cases r; cases "fst r") (auto simp: void_def)

lemma no_integrity_transaction:
  assumes "no_integrity (body d)"
    and "\<And>v d'. body d = Inr (v, d') \<Longrightarrow> changes A d d'"
    and "\<forall>fp. g0_valid (A fp)" and "ledger_inv A d"
  shows "no_integrity (fst (transaction body d))"
proof (cases "body d")
  case (Inl e)
  with assms(1) show ?thesis by (simp add: transaction_def)
next
  case (Inr vd)
  obtain v d' where vd: "vd = (v, d')" by fastforce
  have "db_ok d'"
    using assms(2) [of v d'] assms(3,4) Inr vd by (metis changes_inv ledger_inv_db_ok)
  with Inr vd show ?thesis by (simp add: transaction_def)
qed

lemma no_integrity_on_integrity_error:
  "no_integrity (fst r) \<Longrightarrow> e \<noteq> IntegrityError \<Longrightarrow> no_integrity (fst (on_integrity_error e r))"
  by (auto simp: on_integrity_error_def no_integrity_def split: prod.splits sum.splits error.splits)

lemma no_integrity_after_commit:
  "no_integrity (fst r) \<Longrightarrow> no_integrity (fst (after_commit r))"
  by (auto simp: after_commit_def finish_authorization_def no_integrity_def
      split: prod.splits sum.splits option.splits)

lemma validators_no_integrity [simp]:
  "no_integrity (aware_utc now)" "no_integrity (hash_request_key sha key)"
  "no_integrity (validate_fingerprint fp)" "no_integrity (validate_hash fp)"
  "no_integrity (validate_identifier i)" "no_integrity (validate_permit_id pid)"
  "no_integrity (validate_failure_code code)"
  by (auto simp: aware_utc_def hash_request_key_def validate_fingerprint_def validate_hash_def
      validate_identifier_def validate_permit_id_def validate_failure_code_def
      split: tzinfo.splits option.splits list.splits)

lemma bodies_no_integrity [simp]:
  "no_integrity (initialize_body ps t d)" "no_integrity (stop_body ps reason trigger t d)"
  "no_integrity (record_response_body ps pid status t d)"
  "no_integrity (transport_failure_body ps pid t d)"
  "no_integrity (slot_claim_body fp run h t d)" "no_integrity (slot_resolve_body c fp st t d)"
  "no_integrity (journal_claim_body fp run slot_id h t d)"
  by (auto simp: initialize_body_def stop_body_def require_run_budget_def record_response_body_def
      transport_failure_body_def locked_permit_and_run_def slot_claim_body_def
      slot_resolve_body_def journal_claim_body_def Let_def no_integrity_def bindr_def
      split: option.splits sum.splits if_splits)

lemma row_ops_no_integrity [simp]:
  "no_integrity (with_journal jid (start_send_row pid t) d)"
  "no_integrity (with_journal jid (settle_row pid t) d)"
  "no_integrity (with_journal jid (\<lambda>_. resolve_row target code t) d)"
  "no_integrity (with_journal jid (\<lambda>_. indeterminate_row c t) d)"
  "no_integrity (with_journal jid (\<lambda>_ row. Inr (recover_row t row)) d)"
  by (auto simp: with_journal_def start_send_row_def settle_row_def resolve_row_def
      indeterminate_row_def Let_def no_integrity_def split: option.splits sum.splits if_splits)

lemma run_verdict_no_integrity: "no_integrity (run_verdict ps rb daily t cost d)"
  by (auto simp: run_verdict_def limit_verdict_def monthly_estimated_cost_def next_month_def
      Let_def no_integrity_def bindr_def split: option.splits sum.splits if_splits)

lemma reserve_no_integrity: "no_integrity (reserve_request ps pid h t cost d)"
proof -
  have "no_integrity (require_run_budget ps d)"
    by (auto simp: require_run_budget_def no_integrity_def split: option.splits)
  then show ?thesis
    unfolding reserve_request_def
    by (auto intro!: no_integrity_bindr run_verdict_no_integrity split: prod.splits verdict.splits)
qed

lemma live_no_integrity: "no_integrity (live_send_body ps jid pid h t cost d)"
  unfolding live_send_body_def
  by (auto intro!: no_integrity_bindr reserve_no_integrity
      simp: start_journal_def split: option.splits)

text \<open>
  In a reachable database, with permit identifiers that are not reused, no call that is one
  transaction under its locks ends in an \<open>IntegrityError\<close>; an overlapped one ends in it when it lost
  the race for the row it inserts.
\<close>

lemma permit_service_no_integrity:
  assumes valid: "\<forall>fp. g0_valid (A fp)" and inv: "ledger_inv A d"
    and appr: "ps_approval ps = A (ps_fingerprint ps)"
  shows "permit_fresh pid d \<Longrightarrow> no_integrity (fst (ps_authorize sha ps pid key now cost d))"
    and "permit_fresh pid d \<Longrightarrow> no_integrity (fst (ps_authorize_live sha ps jid pid key now cost d))"
    and "no_integrity (fst (ps_initialize ps now d))"
    and "no_integrity (fst (ps_record_response ps pid status now d))"
    and "no_integrity (fst (ps_record_transport_failure ps pid now d))"
    and "no_integrity (fst (ps_stop_manually ps now d))"
    and "no_integrity (fst (ps_signal_schema_drift ps now d))"
proof -
  note tx = no_integrity_transaction [OF _ _ valid inv]
  show "no_integrity (fst (ps_authorize sha ps pid key now cost d))" if "permit_fresh pid d"
    unfolding ps_authorize_def using that
    by (intro no_integrity_before no_integrity_after_commit tx reserve_no_integrity
        reserve_request_changes [where A = A and ps = ps, OF _ appr]) (auto split: if_splits)
  show "no_integrity (fst (ps_authorize_live sha ps jid pid key now cost d))" if "permit_fresh pid d"
    unfolding ps_authorize_live_def using that valid inv
    by (intro no_integrity_before no_integrity_after_commit tx live_no_integrity
        live_send_changes [where A = A and ps = ps, OF _ appr]) (auto split: if_splits)
  show "no_integrity (fst (ps_initialize ps now d))"
    unfolding ps_initialize_def
    by (intro no_integrity_before tx initialize_body_changes) auto
  show "no_integrity (fst (ps_record_response ps pid status now d))"
    unfolding ps_record_response_def
    by (intro no_integrity_before tx record_response_changes) (auto split: if_splits)
  show "no_integrity (fst (ps_record_transport_failure ps pid now d))"
    unfolding ps_record_transport_failure_def
    by (intro no_integrity_before tx transport_failure_changes) auto
  show "no_integrity (fst (ps_stop_manually ps now d))"
    unfolding ps_stop_manually_def by (intro no_integrity_before tx stop_body_changes) auto
  show "no_integrity (fst (ps_signal_schema_drift ps now d))"
    unfolding ps_signal_schema_drift_def by (intro no_integrity_before tx stop_body_changes) auto
qed

lemma slot_service_no_integrity:
  assumes valid: "\<forall>fp. g0_valid (A fp)" and inv: "ledger_inv A d"
  shows "no_integrity (fst (slot_claim sha fp run key now d))"
    and "no_integrity (fst (slot_complete c now d))" and "no_integrity (fst (slot_fail c now d))"
proof -
  note tx = no_integrity_transaction [OF _ _ valid inv]
  show "no_integrity (fst (slot_claim sha fp run key now d))"
    unfolding slot_claim_def
    by (intro no_integrity_before no_integrity_on_integrity_error tx slot_claim_body_changes) auto
  have "no_integrity (fst (slot_resolve c status now d))" if "status \<in> {SlotCompleted, SlotFailed}" for status
    unfolding slot_resolve_def
    by (intro no_integrity_before tx, simp_all) (erule slot_resolve_body_changes, rule that)
  then show "no_integrity (fst (slot_complete c now d))" "no_integrity (fst (slot_fail c now d))"
    unfolding slot_complete_def slot_fail_def by simp_all
qed

lemma journal_service_no_integrity:
  assumes valid: "\<forall>fp. g0_valid (A fp)" and inv: "ledger_inv A d"
  shows "no_integrity (fst (journal_claim fp run slot h now d))"
    and "no_integrity (fst (journal_start_send jid pid now d))"
    and "no_integrity (fst (journal_settle jid pid now d))"
    and "no_integrity (fst (journal_complete jid now d))"
    and "no_integrity (fst (journal_fail jid code now d))"
    and "no_integrity (fst (journal_mark_indeterminate jid code now d))"
    and "no_integrity (fst (journal_recover jid now d))"
proof -
  note tx = no_integrity_transaction [OF _ _ valid inv]
  note ok = journal_row_ok [OF inv] and wj = with_journal_changes [OF inv]
  show "no_integrity (fst (journal_claim fp run slot h now d))"
    unfolding journal_claim_def
    by (intro no_integrity_before no_integrity_on_integrity_error tx journal_claim_body_changes) auto
  show "no_integrity (fst (journal_start_send jid pid now d))"
    unfolding journal_start_send_def
    by (intro no_integrity_before tx, simp_all) (erule wj, auto intro: start_send_move [OF inv])
  show "no_integrity (fst (journal_settle jid pid now d))"
    unfolding journal_settle_def
    by (intro no_integrity_before tx, simp_all) (erule wj, auto intro: settle_move [OF inv])
  show "no_integrity (fst (journal_complete jid now d))"
    unfolding journal_complete_def journal_resolve_def
    by (intro no_integrity_before tx, simp_all) (erule wj, auto intro: resolve_move(1) ok)
  show "no_integrity (fst (journal_fail jid code now d))"
    unfolding journal_fail_def journal_resolve_def
    by (intro no_integrity_before tx, simp_all) (erule wj, auto intro: resolve_move(2) ok)
  show "no_integrity (fst (journal_mark_indeterminate jid code now d))"
    unfolding journal_mark_indeterminate_def
    by (intro no_integrity_before tx, simp_all) (erule wj, auto intro: resolve_move(3) ok)
  show "no_integrity (fst (journal_recover jid now d))"
    unfolding journal_recover_def
    by (intro no_integrity_before tx, simp_all) (erule wj, use resolve_move(4) ok in auto)
qed

text \<open>The databases an overlapped call looked at, and when a row was inserted since then.\<close>

fun seen_by :: "ledger_call \<Rightarrow> db list" where
  "seen_by (InitializeOverlapped seen _ _ _) = [seen]"
| "seen_by (AuthorizeOverlapped seen _ _ _ _ _ _) = [seen]"
| "seen_by (AuthorizeLiveOverlapped seen _ _ _ _ _ _ _) = [seen]"
| "seen_by _ = []"

definition initialize_lost ::
  "(g0_approval \<Rightarrow> pystr) \<Rightarrow> db \<Rightarrow> g0_approval \<Rightarrow> int \<Rightarrow> pydatetime \<Rightarrow> db \<Rightarrow> bool" where
  "initialize_lost fpr seen a run now d \<longleftrightarrow>
     (case aware_utc now of
        Inl _ \<Rightarrow> False
      | Inr t \<Rightarrow>
          approval_active a t \<and> run \<in> set (crawl_runs seen) \<and>
          (case locked_run_budget seen run of
             None \<Rightarrow> locked_run_budget d run \<noteq> None \<or>
               \<not> day_known (fpr a) (utc_date t) seen \<and> day_known (fpr a) (utc_date t) d
           | Some rb \<Rightarrow> r_fingerprint rb = fpr a \<and>
               \<not> day_known (fpr a) (utc_date t) seen \<and> day_known (fpr a) (utc_date t) d))"

fun lost_race ::
  "(pystr \<Rightarrow> pystr) \<Rightarrow> (g0_approval \<Rightarrow> pystr) \<Rightarrow> ledger_call \<Rightarrow> db \<Rightarrow> bool" where
  "lost_race sha fpr (InitializeOverlapped seen a run now) d = initialize_lost fpr seen a run now d"
| "lost_race sha fpr (AuthorizeOverlapped seen a run pid key now cost) d =
     day_overtaken sha (init_psafety fpr a run) key now cost seen d"
| "lost_race sha fpr (AuthorizeLiveOverlapped seen a run jid pid key now cost) d =
     (1 \<le> jid \<and> day_overtaken sha (init_psafety fpr a run) key now cost seen d)"
| "lost_race sha fpr _ d = False"

lemma initialize_overlapped_integrity:
  assumes valid: "\<forall>fp. g0_valid (A fp)" and inv: "ledger_inv A d"
    and grown: "set (crawl_runs seen) \<subseteq> set (crawl_runs d)"
  shows "fst (ps_initialize_overlapped (init_psafety fpr a run) now seen d) = Inl IntegrityError \<longleftrightarrow>
    initialize_lost fpr seen a run now d"
proof (cases "\<exists>t. aware_utc now = Inr t \<and> approval_active a t")
  case False
  then show ?thesis
    by (auto simp: ps_initialize_overlapped_def initialize_lost_def init_psafety_def before_def aware_utc_def
        split: sum.splits tzinfo.splits)
next
  case True
  then obtain t where t: "aware_utc now = Inr t" "approval_active a t" by blast
  let ?ps = "init_psafety fpr a run"
  show ?thesis
  proof (cases "overlapped_initialize_body ?ps t seen d")
    case (Inl e)
    then show ?thesis
      using t by (auto simp: ps_initialize_overlapped_def initialize_lost_def init_psafety_def transaction_def
          overlapped_initialize_body_def bindr_def split: if_splits option.splits)
  next
    case (Inr x)
    obtain d' where x: "x = ((), d')" by (cases x) simp
    have seen: "run \<in> set (crawl_runs seen)"
        "\<And>rb. locked_run_budget seen run = Some rb \<Longrightarrow> r_fingerprint rb = fpr a"
      using Inr by (auto simp: overlapped_initialize_body_def init_psafety_def bindr_Inr split: if_splits)
    have "db_ok d' \<longleftrightarrow> rows_missing ?ps t seen d"
    proof
      assume "rows_missing ?ps t seen d"
      with Inr x grown seen have "changes A d d'"
        by (intro overlapped_initialize_changes) (auto simp: init_psafety_def)
      then show "db_ok d'" using valid inv by (blast intro: ledger_inv_db_ok changes_inv)
    qed (use overlapped_rows_missing Inr x in blast)
    moreover have "rows_missing ?ps t seen d \<longleftrightarrow> \<not> initialize_lost fpr seen a run now d"
      using t seen by (auto simp: rows_missing_def initialize_lost_def init_psafety_def split: option.splits)
    ultimately show ?thesis
      using Inr x t by (simp add: ps_initialize_overlapped_def transaction_def init_psafety_def)
  qed
qed

lemma run_call_integrity:
  assumes "\<forall>fp. g0_valid (A fp)" and "ledger_inv A d" and "call_ok A fpr c" and "call_fresh c d"
    and "\<forall>seen \<in> set (seen_by c). set (crawl_runs seen) \<subseteq> set (crawl_runs d)"
  shows "fst (run_call sha fpr c d) = Inl IntegrityError \<longleftrightarrow> lost_race sha fpr c d"
proof -
  note services = permit_service_no_integrity [where A = A, OF assms(1,2)]
    slot_service_no_integrity [where A = A, OF assms(1,2)]
    journal_service_no_integrity [where A = A, OF assms(1,2)]
  have plain: "no_integrity (fst (run_call sha fpr c d))" if "seen_by c = []"
    using that assms(3,4)
    by (cases c) (auto simp: call_ok_def call_fresh_def init_psafety_def intro!: services)
  show ?thesis
  proof (cases c)
    case (InitializeOverlapped seen a run now)
    with initialize_overlapped_integrity [OF assms(1,2), of seen fpr a run now] assms(5) show ?thesis by simp
  next
    case (AuthorizeOverlapped seen a run pid key now cost)
    have "no_integrity (fst (void (ps_authorize sha (init_psafety fpr a run) pid key now cost d)))"
      using assms(3,4) AuthorizeOverlapped
      by (auto simp: call_ok_def call_fresh_def init_psafety_def intro!: services)
    with AuthorizeOverlapped show ?thesis
      by (auto simp: ps_authorize_overlapped_def void_def no_integrity_def)
  next
    case (AuthorizeLiveOverlapped seen a run jid pid key now cost)
    have "no_integrity (fst (void (ps_authorize_live sha (init_psafety fpr a run) jid pid key now cost d)))"
      using assms(3,4) AuthorizeLiveOverlapped
      by (auto simp: call_ok_def call_fresh_def init_psafety_def intro!: services)
    with AuthorizeLiveOverlapped show ?thesis
      by (auto simp: ps_authorize_live_overlapped_def void_def no_integrity_def)
  qed (use plain in \<open>simp_all add: no_integrity_def\<close>)
qed

text \<open>The transactions of the two claims, before the handler that renames an \<open>IntegrityError\<close>.\<close>

lemma claims_no_integrity:
  assumes "\<forall>fp. g0_valid (A fp)" and "ledger_inv A d"
  shows "fst (transaction (slot_claim_body fp run h t) d) \<noteq> Inl IntegrityError"
    and "fst (transaction (journal_claim_body fp run slot h t) d) \<noteq> Inl IntegrityError"
proof -
  have "no_integrity (fst (transaction (slot_claim_body fp run h t) d))"
    by (rule no_integrity_transaction [OF _ _ assms]) (auto intro: slot_claim_body_changes)
  then show "fst (transaction (slot_claim_body fp run h t) d) \<noteq> Inl IntegrityError"
    by (simp add: no_integrity_def)
  have "no_integrity (fst (transaction (journal_claim_body fp run slot h t) d))"
    by (rule no_integrity_transaction [OF _ _ assms]) (auto intro: journal_claim_body_changes)
  then show "fst (transaction (journal_claim_body fp run slot h t) d) \<noteq> Inl IntegrityError"
    by (simp add: no_integrity_def)
qed

lemma crawl_runs_grow: "ledger_change A d d' \<Longrightarrow> set (crawl_runs d) \<subseteq> set (crawl_runs d')"
  by (induction rule: ledger_change.induct) (auto simp: grant_permit_def record_stop_def)

lemma crawl_runs_grow_changes: "changes A d d' \<Longrightarrow> set (crawl_runs d) \<subseteq> set (crawl_runs d')"
  by (induction rule: rtranclp_induct) (auto dest: crawl_runs_grow)

section \<open>One send per approval\<close>

lemma ps_authorize_live_Inr:
  assumes "ps_authorize_live sha ps jid pid key now cost d = (Inr permit, d')"
  obtains t h a d1 j where "aware_utc now = Inr t" "hash_request_key sha key = Inr h" "0 \<le> cost"
    "reserve_request ps pid h t cost d = Inr (a, d1)" "ad_permit a = Some permit"
    "row_get j_id jid (journals d1) = Some j" "journal_bound ps h j"
    "d' = d1\<lparr>journals := row_update j_id jid
        (\<lambda>r. r\<lparr>j_permit_id := Some (pp_permit_id permit), j_status := SendStarted,
               j_send_started_at := Some t, j_version := j_version r + 1\<rparr>) (journals d1)\<rparr>"
    "db_ok d'"
proof -
  obtain t h where t: "aware_utc now = Inr t" and h: "hash_request_key sha key = Inr h"
    and cost: "0 \<le> cost" and tx: "after_commit (transaction (live_send_body ps jid pid h t cost) d) =
      (Inr permit, d')"
    using assms by (auto simp: ps_authorize_live_def split: if_splits)
  then obtain a where a: "transaction (live_send_body ps jid pid h t cost) d = (Inr a, d')"
    and fin: "finish_authorization a = Inr permit"
    by (auto simp: after_commit_def split: prod.splits sum.splits)
  have p: "ad_permit a = Some permit"
    using fin by (auto simp: finish_authorization_def split: option.splits if_splits)
  from a have body: "live_send_body ps jid pid h t cost d = Inr (a, d')" and ok: "db_ok d'"
    by (auto simp: transaction_Inr)
  from body p obtain d1 where res: "reserve_request ps pid h t cost d = Inr (a, d1)"
    and start: "start_journal ps jid h t permit d1 = Inr d'"
    by (auto simp: live_send_body_def bindr_Inr split: option.splits)
  from start obtain j where j: "row_get j_id jid (journals d1) = Some j" "journal_bound ps h j"
    and d': "d' = d1\<lparr>journals := row_update j_id jid
        (\<lambda>r. r\<lparr>j_permit_id := Some (pp_permit_id permit), j_status := SendStarted,
               j_send_started_at := Some t, j_version := j_version r + 1\<rparr>) (journals d1)\<rparr>"
    by (auto simp: start_journal_def split: option.splits if_splits)
  show thesis using t h cost res p j d' ok by (rule that)
qed

lemma reserve_request_journals:
  assumes "reserve_request ps pid h t cost d = Inr (a, d')"
  shows "journals d' = journals d"
  using assms
proof (cases rule: reserve_request_Inr)
  case (granted rb daily d1)
  moreover have "journals d1 = journals d"
    by (subst locked_daily_budget_effect(5) [OF granted(2)]) simp
  ultimately show ?thesis by (simp add: grant_permit_def)
next
  case (refused rb daily d1)
  moreover have "journals d1 = journals d"
    by (subst locked_daily_budget_effect(5) [OF refused(2)]) simp
  ultimately show ?thesis by (auto simp: record_stop_def)
qed

text \<open>A call that tells its caller to send, for the fingerprint \<open>fp\<close>.\<close>

fun sends_for :: "(g0_approval \<Rightarrow> pystr) \<Rightarrow> pystr \<Rightarrow> ledger_call \<Rightarrow> db \<Rightarrow> bool" where
  "sends_for fpr fp (AuthorizeLive a _ _ _ _ _ _) d = (fpr a = fp)"
| "sends_for fpr fp (AuthorizeLiveOverlapped _ a _ _ _ _ _ _) d = (fpr a = fp)"
| "sends_for fpr fp (StartSend jid _ _) d =
     list_ex (\<lambda>j. j_id j = jid \<and> j_fingerprint j = fp) (journals d)"
| "sends_for fpr fp _ d = False"

definition send_step ::
  "(pystr \<Rightarrow> pystr) \<Rightarrow> (g0_approval \<Rightarrow> pystr) \<Rightarrow> pystr \<Rightarrow> db \<Rightarrow> ledger_call \<Rightarrow> db \<times> bool" where
  "send_step sha fpr fp d c =
     (ledger_step sha fpr d c, sends_for fpr fp c d \<and> is_ok (fst (run_call sha fpr c d)))"

text \<open>A fingerprint is unsent while every journal of its has not left the first state.\<close>

definition unsent :: "pystr \<Rightarrow> db \<Rightarrow> bool" where
  "unsent fp d \<longleftrightarrow> (\<forall>j \<in> set (journals d). j_fingerprint j = fp \<longrightarrow> j_status j = Claimed)"

lemma sent_stays: "ledger_change A d d' \<Longrightarrow> \<not> unsent fp d \<Longrightarrow> ledger_inv A d \<Longrightarrow> \<not> unsent fp d'"
proof (induction rule: ledger_change.induct)
  case (move_journal row d k row')
  then obtain j where j: "j \<in> set (journals d)" "j_fingerprint j = fp" "j_status j \<noteq> Claimed"
    by (auto simp: unsent_def)
  have edge: "lifecycle (j_status row) (j_status row')" "j_fingerprint row' = j_fingerprint row"
    using move_journal.hyps(3) by (auto simp: journal_step_def)
  have dist: "distinct (map j_id (journals d))"
    using move_journal.prems by (simp add: ledger_inv_def unique_ok_def)
  define j' where "j' = (if j_id j = k then row' else j)"
  have "j' \<in> set (row_update j_id k (\<lambda>_. row') (journals d))"
    using j(1) by (auto simp: set_row_update j'_def)
  moreover have "j_fingerprint j' = fp \<and> j_status j' \<noteq> Claimed"
  proof (cases "j_id j = k")
    case True
    with dist j(1) move_journal.hyps(1,2) have "row = j" by (auto intro: row_key_eq)
    with edge j True show ?thesis by (cases "j_status row") (auto simp: j'_def)
  next
    case False
    with j show ?thesis by (simp add: j'_def)
  qed
  ultimately show ?case unfolding unsent_def by auto
qed (auto simp: unsent_def grant_permit_def record_stop_def)

lemma sent_stays_changes:
  "changes A d d' \<Longrightarrow> \<forall>fp. g0_valid (A fp) \<Longrightarrow> ledger_inv A d \<Longrightarrow> \<not> unsent fp d \<Longrightarrow> \<not> unsent fp d'"
proof (induction rule: rtranclp_induct)
  case base
  then show ?case by simp
next
  case (step y z)
  have "ledger_inv A y" using step by (blast intro: changes_inv)
  moreover have "\<not> unsent fp y" using step.IH step.prems by simp
  ultimately show ?case using sent_stays [OF step.hyps(2), of fp] by simp
qed

text \<open>A successful send found the only journal of its fingerprint in the first state.\<close>

lemma authorize_live_moves_journal:
  assumes "ps_authorize_live sha (init_psafety fpr a run) jid pid key now cost d = (Inr permit, d')"
    and "fpr a = fp"
  obtains j j' where "j \<in> set (journals d)" "j_fingerprint j = fp" "j_status j = Claimed"
    "j' \<in> set (journals d')" "j_fingerprint j' = fp" "j_status j' = SendStarted"
  using assms(1)
proof (cases rule: ps_authorize_live_Inr)
  case (1 t h a' d1 j)
  have "journals d1 = journals d" using 1(4) by (rule reserve_request_journals)
  moreover note row_get_Some [OF 1(6)]
  ultimately show thesis using 1(7,8) assms(2)
    by (intro that [of j "j\<lparr>j_permit_id := Some (pp_permit_id permit), j_status := SendStarted,
          j_send_started_at := Some t, j_version := j_version j + 1\<rparr>"])
      (auto simp: journal_bound_def init_psafety_def set_row_update intro!: bexI [of _ j])
qed

lemma void_Inr: "is_ok (fst (void r)) \<Longrightarrow> d' = snd (void r) \<Longrightarrow> \<exists>x. r = (Inr x, d')"
  by (cases r; cases "fst r") (auto simp: void_def)

lemma send_moves_journal:
  assumes "send_step sha fpr fp d c = (d', True)"
  obtains j j' where "j \<in> set (journals d)" "j_fingerprint j = fp" "j_status j = Claimed"
    "j' \<in> set (journals d')" "j_fingerprint j' = fp" "j_status j' = SendStarted"
proof -
  have sends: "sends_for fpr fp c d" and ok: "is_ok (fst (run_call sha fpr c d))"
    and d': "d' = snd (run_call sha fpr c d)"
    using assms by (auto simp: send_step_def ledger_step_def)
  show thesis
  proof (cases c)
    case (AuthorizeLive a run jid pid key now cost)
    with ok d' sends obtain permit where
      "ps_authorize_live sha (init_psafety fpr a run) jid pid key now cost d = (Inr permit, d')" "fpr a = fp"
      by (auto dest: void_Inr)
    then show thesis by (rule authorize_live_moves_journal) (rule that)
  next
    case (AuthorizeLiveOverlapped seen a run jid pid key now cost)
    with ok d' sends obtain permit where
      "ps_authorize_live sha (init_psafety fpr a run) jid pid key now cost d = (Inr permit, d')" "fpr a = fp"
      by (auto dest!: void_Inr simp: ps_authorize_live_overlapped_def split: if_splits)
    then show thesis by (rule authorize_live_moves_journal) (rule that)
  next
    case (StartSend jid pid now)
    with ok d' obtain v where "journal_start_send jid pid now d = (Inr v, d')" by (auto dest: void_Inr)
    then obtain t row row' where row: "row_get j_id jid (journals d) = Some row"
      and start: "start_send_row pid t d row = Inr row'"
      and eq: "d' = d\<lparr>journals := row_update j_id jid (\<lambda>_. row') (journals d)\<rparr>" and dbok: "db_ok d'"
      by (auto simp: journal_start_send_def transaction_Inr with_journal_Inr)
    have st: "j_status row = Claimed" "j_status row' = SendStarted" "j_fingerprint row' = j_fingerprint row"
      "j_id row' = j_id row"
      using start by (auto simp: start_send_row_def split: if_splits option.splits)
    obtain j where j: "j \<in> set (journals d)" "j_id j = jid" "j_fingerprint j = fp"
      using sends StartSend by (auto simp: list_ex_iff)
    note mem = row_get_Some [OF row]
    have "map j_id (journals d') = map j_id (journals d)"
      unfolding eq using st(4) mem by (auto simp: row_update_def)
    with dbok have "distinct (map j_id (journals d))" by (auto simp: db_ok_def unique_ok_def)
    with mem j have "row = j" by (auto intro: row_key_eq)
    with st j mem show thesis
      by (intro that [of row row']) (auto simp: eq set_row_update intro!: bexI [of _ j])
  qed (use sends in simp_all)
qed

interpretation sends: one_shot "send_step sha fpr fp"
    "\<lambda>c. (\<forall>fp. g0_valid (A fp)) \<and> call_ok A fpr c" "ledger_inv A" "unsent fp" for sha fpr fp A
proof unfold_locales
  fix d c
  assume ok: "(\<forall>fp. g0_valid (A fp)) \<and> call_ok A fpr c" and inv: "ledger_inv A d"
  have ch: "changes A d (fst (send_step sha fpr fp d c))"
    using ok inv by (simp add: send_step_def ledger_step_changes)
  show inv': "ledger_inv A (fst (send_step sha fpr fp d c))" using ch ok inv by (blast intro: changes_inv)
  show "\<not> unsent fp d \<Longrightarrow> \<not> unsent fp (fst (send_step sha fpr fp d c))"
    using sent_stays_changes [OF ch _ inv] ok by blast
  assume "snd (send_step sha fpr fp d c)"
  then have "send_step sha fpr fp d c = (fst (send_step sha fpr fp d c), True)" by (simp add: prod_eq_iff)
  then obtain j j' where j: "j \<in> set (journals d)" "j_fingerprint j = fp" "j_status j = Claimed"
    "j' \<in> set (journals (fst (send_step sha fpr fp d c)))" "j_fingerprint j' = fp" "j_status j' = SendStarted"
    by (rule send_moves_journal)
  show "unsent fp d"
    unfolding unsent_def using journal_fingerprint_unique [OF inv _ j(1)] j(2,3) by auto
  show "\<not> unsent fp (fst (send_step sha fpr fp d c))" unfolding unsent_def using j(4-6) by auto
qed

section \<open>The empty database\<close>

lemma ledger_inv_empty:
  assumes "\<forall>fp. g0_valid (A fp)" shows "ledger_inv A (empty_db b runs)"
proof -
  have "0 \<le> monthly_cap (cost_limits (A fp))" "0 \<le> concurrency (traffic_limits (A fp))"
    "0 \<le> requests_per_minute (traffic_limits (A fp))" for fp
    using g0_valid_caps [of "A fp"] assms by auto
  with db_ok_empty [of b runs] show ?thesis
    by (simp add: ledger_inv_def db_ok_def empty_db_def runs_counted_def permits_in_runs_def
        days_counted_def months_capped_def month_cost_def flight_capped_def rate_capped_def
        authorized_in_def slots_bound_def journals_bound_def sends_bound_def)
qed

text \<open>The database after a list of calls on an empty one.\<close>

definition database_after ::
  "(pystr \<Rightarrow> pystr) \<Rightarrow> (g0_approval \<Rightarrow> pystr) \<Rightarrow> backend \<Rightarrow> ledger_call list \<Rightarrow> db" where
  "database_after sha fpr b calls = run_machine (ledger_step sha fpr) (empty_db b []) calls"

definition environment_ok ::
  "(pystr \<Rightarrow> g0_approval) \<Rightarrow> (g0_approval \<Rightarrow> pystr) \<Rightarrow> ledger_call list \<Rightarrow> bool" where
  "environment_ok A fpr calls \<longleftrightarrow> (\<forall>fp. g0_valid (A fp)) \<and> list_all (call_ok A fpr) calls"

lemma database_after_inv:
  "environment_ok A fpr calls \<Longrightarrow> ledger_inv A (database_after sha fpr b calls)"
  unfolding database_after_def environment_ok_def
  by (rule ledger.run_inv [of A fpr]) (auto simp: list_all_iff ledger_inv_empty)

lemma database_growth:
  assumes "environment_ok A fpr calls" and "list_all (call_ok A fpr) later"
  shows "changes A (database_after sha fpr b calls) (database_after sha fpr b (calls @ later))"
  using assms(2)
proof (induction later rule: rev_induct)
  case (snoc c later)
  have valid: "\<forall>fp. g0_valid (A fp)" using assms(1) by (simp add: environment_ok_def)
  have "environment_ok A fpr (calls @ later)" using assms(1) snoc.prems by (simp add: environment_ok_def)
  then have inv: "ledger_inv A (database_after sha fpr b (calls @ later))" by (rule database_after_inv)
  have ok: "call_ok A fpr c" using snoc.prems by simp
  have "database_after sha fpr b (calls @ later @ [c]) =
      ledger_step sha fpr (database_after sha fpr b (calls @ later)) c"
    unfolding append_assoc [symmetric] by (simp add: database_after_def run_machine_append)
  then show ?case
    using snoc ledger_step_changes [OF valid ok inv, of sha] by (auto intro: rtranclp_trans)
qed simp

text \<open>A trace that starts one live send and is refused a second one.\<close>

definition sample_sha :: "pystr \<Rightarrow> pystr" where
  "sample_sha s = replicate 64 97"

definition sample_fpr :: "g0_approval \<Rightarrow> pystr" where
  "sample_fpr a = replicate 64 48"

definition sample_trace :: "ledger_call list" where
  "sample_trace =
     [CreateRun 1, Initialize sample_approval 1 (utc 10),
      ClaimSlot (sample_fpr sample_approval) 1 (lit ''work'') (utc 11),
      ClaimJournal (sample_fpr sample_approval) 1 1 (sample_sha (lit ''work'')) (utc 12),
      AuthorizeLive sample_approval 1 1 (lit ''permit-1'') (lit ''work'') (utc 13) 1,
      AuthorizeLive sample_approval 1 1 (lit ''permit-2'') (lit ''work'') (utc 14) 1]"

lemma sample_environment: "environment_ok (\<lambda>_. sample_approval) sample_fpr sample_trace"
  by (simp add: environment_ok_def sample_approval_valid sample_trace_def call_ok_def)

section \<open>Properties\<close>

text \<open>
  C1: at most one live send per approval.  Whatever calls processes make on the shared
  database, in whatever order, with whatever clock readings and permit identifiers, at most
  one of them is told to send for a given approval fingerprint.
\<close>

theorem one_live_send_per_approval:
  assumes "environment_ok A fpr calls"
  shows "successes (send_step sha fpr fp) (empty_db b []) calls \<le> 1"
  using assms unfolding environment_ok_def
  by (intro sends.at_most_one_success [of A]) (auto simp: list_all_iff ledger_inv_empty)

lemma one_live_send_per_approval_witness:
  "successes (send_step sample_sha sample_fpr (sample_fpr sample_approval)) (empty_db SqliteDb [])
     sample_trace \<le> 1"
  by (rule one_live_send_per_approval [OF sample_environment])

text \<open>
  C2: the approved limits hold in every database the services can produce.  Each run has no
  more permits than the per-run cap and its in-flight count is the number of its unsettled
  permits; each day's count and cost are those of its permits and within the daily caps; the
  cost of each month is within the monthly cap.
\<close>

theorem approved_limits_hold:
  assumes "environment_ok A fpr calls" and "d = database_after sha fpr b calls"
  shows "runs_counted A (run_budgets d) (permits d) \<and>
         days_counted A (daily_budgets d) (permits d) \<and> months_capped A (daily_budgets d)"
  using database_after_inv [OF assms(1)] unfolding assms(2) by (auto simp: ledger_inv_def)

lemma approved_limits_hold_witness:
  "runs_counted (\<lambda>_. sample_approval)
     (run_budgets (database_after sample_sha sample_fpr PostgresDb sample_trace))
     (permits (database_after sample_sha sample_fpr PostgresDb sample_trace)) \<and>
   months_capped (\<lambda>_. sample_approval)
     (daily_budgets (database_after sample_sha sample_fpr PostgresDb sample_trace))"
  using approved_limits_hold [OF sample_environment refl] by blast

text \<open>
  C3: the rate and concurrency limits.  In every reachable database and for every approval,
  at most \<open>requests_per_minute\<close> permits were authorised in any interval of one minute, even
  when clock readings go backwards, and at most \<open>concurrency\<close> permits are in flight.
\<close>

theorem rate_and_concurrency_limited:
  assumes "environment_ok A fpr calls"
  shows "authorized_in fp (t - minutes 1) t (permits (database_after sha fpr b calls))
           \<le> requests_per_minute (traffic_limits (A fp)) \<and>
         global_in_flight fp (database_after sha fpr b calls) \<le> concurrency (traffic_limits (A fp))"
  using database_after_inv [OF assms, of sha b]
  by (simp add: ledger_inv_def rate_capped_def flight_capped_def global_in_flight_def sum_rows_filter)

lemma rate_and_concurrency_limited_witness:
  "authorized_in (sample_fpr sample_approval) (30 - minutes 1) 30
     (permits (database_after sample_sha sample_fpr SqliteDb sample_trace)) \<le> 2 \<and>
   global_in_flight (sample_fpr sample_approval)
     (database_after sample_sha sample_fpr SqliteDb sample_trace) \<le> 1"
  using rate_and_concurrency_limited [OF sample_environment]
  by (simp add: sample_approval_def)



text \<open>
  C5: the tables agree with each other.  Every journal belongs to a slot of the same
  fingerprint, run and request; a journal that names a permit names one of its own
  fingerprint, request and run, and once it is settled or completed that permit was consumed.
\<close>

theorem journals_match_slots_and_permits:
  assumes "environment_ok A fpr calls" and "d = database_after sha fpr b calls"
  shows "journals_bound (slots d) (journals d) \<and>
         sends_bound (run_budgets d) (permits d) (journals d) \<and>
         slots_bound (run_budgets d) (slots d)"
  using database_after_inv [OF assms(1)] unfolding assms(2) by (auto simp: ledger_inv_def)

lemma journals_match_slots_and_permits_witness:
  "journals_bound (slots (database_after sample_sha sample_fpr SqliteDb sample_trace))
     (journals (database_after sample_sha sample_fpr SqliteDb sample_trace))"
  by (rule journals_match_slots_and_permits [OF sample_environment refl, THEN conjunct1])

end
