(* ===== verification/Coordinator.thy ===== *)
theory Coordinator
  imports SendOnce
begin

text \<open>
  The coordinator of one live attempt, \<open>src/pixiv_yuri/acquisition/live_attempt_coordinator.py\<close>.
  Its parts run in an environment: a clock that may return anything, other processes that
  act on the database between any two of its transactions and between the last of them and the
  call of the sender (\<open>ae_others\<close>), the sender and the response processor it was given, and the
  UUID the permit service will draw.  The world records the database and, for every call of the
  sender, the context handed over, the database as the coordinator's last transaction before the
  call left it, and the database at the call, after the other processes' turn.
\<close>

section \<open>World and environment\<close>

record send_context =
  sx_journal_id :: int
  sx_permit_id :: pystr
  sx_binding_hash :: pystr
  sx_send_started_at :: instant

record transport_response =
  tr_status :: int
  tr_content_type :: pystr
  tr_body :: "nat list"
  tr_headers :: "(pystr \<times> pystr) list"

record attempt_result =
  ar_journal_id :: int
  ar_permit_id :: "pystr option"
  ar_state :: live_state
  ar_response_status :: "int option"
  ar_attempted :: bool
  ar_network_send_confirmed :: "bool option"
  ar_failure_code :: "pystr option"

record world =
  w_db :: db
  w_clock_reads :: nat
  w_transactions :: nat
  w_sent :: "(send_context \<times> db \<times> db) list"

record attempt_env =
  ae_sha :: "pystr \<Rightarrow> pystr"
  ae_safety :: psafety
  ae_clock :: "nat \<Rightarrow> pydatetime"
  ae_uuid :: pystr
  ae_others :: "nat \<Rightarrow> db \<Rightarrow> db"
  ae_sender :: "send_context \<Rightarrow> db \<Rightarrow> error + transport_response"
  ae_processor :: "(transport_response \<Rightarrow> db \<Rightarrow> unit outcome) option"

type_synonym 'a action = "world \<Rightarrow> (error + 'a) \<times> world"

text \<open>One transaction of a service, after whatever other processes did.\<close>

definition call_service :: "attempt_env \<Rightarrow> (db \<Rightarrow> 'a outcome) \<Rightarrow> 'a action" where
  "call_service env op w =
     (case op (ae_others env (w_transactions w) (w_db w)) of
        (r, d) \<Rightarrow> (r, w\<lparr>w_db := d, w_transactions := w_transactions w + 1\<rparr>))"

text \<open>\<open>self._now()\<close> and a service call that takes its result.\<close>

definition timed :: "attempt_env \<Rightarrow> (pydatetime \<Rightarrow> db \<Rightarrow> 'a outcome) \<Rightarrow> 'a action" where
  "timed env op w =
     (let w' = w\<lparr>w_clock_reads := w_clock_reads w + 1\<rparr>
      in case aware_utc (ae_clock env (w_clock_reads w)) of
           Inl e \<Rightarrow> (Inl e, w')
         | Inr t \<Rightarrow> call_service env (op (utc t)) w')"

text \<open>
  \<open>self._sender.send\<close>, after whatever other processes did since the coordinator's last
  transaction; the sender reads the database they left and changes nothing in it.
\<close>

definition send_now :: "attempt_env \<Rightarrow> send_context \<Rightarrow> transport_response action" where
  "send_now env cx w =
     (let d = ae_others env (w_transactions w) (w_db w)
      in (ae_sender env cx d,
          w\<lparr>w_db := d, w_transactions := w_transactions w + 1,
            w_sent := w_sent w @ [(cx, w_db w, d)]\<rparr>))"

section \<open>Helpers of the coordinator\<close>

definition attempt_result_of ::
  "live_record \<Rightarrow> persistent_permit option \<Rightarrow> int option \<Rightarrow> bool \<Rightarrow> attempt_result" where
  "attempt_result_of j permit status attempted =
     \<lparr>ar_journal_id = jr_journal_id j, ar_permit_id = map_option pp_permit_id permit,
      ar_state = jr_state j, ar_response_status = status, ar_attempted = attempted,
      ar_network_send_confirmed = None, ar_failure_code = jr_failure_code j\<rparr>"

definition finish_with ::
  "persistent_permit option \<Rightarrow> int option \<Rightarrow> bool \<Rightarrow> (error + live_record) \<times> world \<Rightarrow>
     (error + attempt_result) \<times> world" where
  "finish_with permit status attempted r =
     (case r of
        (Inl e, w) \<Rightarrow> (Inl e, w)
      | (Inr j, w) \<Rightarrow> (Inr (attempt_result_of j permit status attempted), w))"

definition validate_response_status :: "int \<Rightarrow> error + unit" where
  "validate_response_status status =
     (if 100 \<le> status \<and> status \<le> 599 then Inr () else Inl ValueError)"

definition or_recover :: "attempt_env \<Rightarrow> int \<Rightarrow> (error + live_record) \<times> world \<Rightarrow>
    (error + live_record) \<times> world" where
  "or_recover env jid r =
     (case r of
        (Inl e, w) \<Rightarrow> if is_journal_error e then timed env (journal_recover jid) w else (Inl e, w)
      | (Inr j, w) \<Rightarrow> (Inr j, w))"

definition mark_unknown :: "attempt_env \<Rightarrow> int \<Rightarrow> pystr \<Rightarrow> live_record action" where
  "mark_unknown env jid code w =
     or_recover env jid (timed env (journal_mark_indeterminate jid code) w)"

definition consume_failed_permit :: "attempt_env \<Rightarrow> persistent_permit \<Rightarrow> world \<Rightarrow> world" where
  "consume_failed_permit env permit w =
     snd (timed env (ps_record_transport_failure (ae_safety env) (pp_permit_id permit)) w)"

definition terminalize_before_send :: "attempt_env \<Rightarrow> int \<Rightarrow> live_record action" where
  "terminalize_before_send env jid w =
     (case call_service env (\<lambda>d. (journal_get jid d, d)) w of
        (Inl e, w) \<Rightarrow> (Inl e, w)
      | (Inr current, w) \<Rightarrow>
          if jr_state current = Claimed then timed env (journal_fail jid (lit ''send_start_failed'')) w
          else if jr_state current = SendStarted
          then mark_unknown env jid (lit ''send_start_commit_unknown'') w
          else timed env (journal_recover jid) w)"

section \<open>The attempt\<close>

text \<open>The last stage: a settled journal becomes completed or failed.\<close>

definition conclude :: "attempt_env \<Rightarrow> live_record \<Rightarrow> transport_response \<Rightarrow> live_record action" where
  "conclude env settled response w =
     (let jid = jr_journal_id settled
      in or_recover env jid
        (if \<not> (200 \<le> tr_status response \<and> tr_status response < 300)
         then timed env (journal_fail jid (lit ''non_success_response'')) w
         else case ae_processor env of
             None \<Rightarrow> timed env (journal_complete jid) w
           | Some process \<Rightarrow>
               (case call_service env (process response) w of
                  (Inl e, w) \<Rightarrow> timed env (journal_fail jid (lit ''response_processing_failed'')) w
                | (Inr _, w) \<Rightarrow> timed env (journal_complete jid) w)))"

text \<open>A response arrived: settle the permit, then the journal.\<close>

definition settle_attempt ::
  "attempt_env \<Rightarrow> live_record \<Rightarrow> persistent_permit \<Rightarrow> transport_response \<Rightarrow> attempt_result action"
  where
  "settle_attempt env started permit response w =
     (let jid = jr_journal_id started; pid = pp_permit_id permit; status = tr_status response
      in case timed env (ps_record_response (ae_safety env) pid status) w of
           (Inl _, w) \<Rightarrow> finish_with (Some permit) (Some status) True
                          (mark_unknown env jid (lit ''permit_settlement_unknown'') w)
         | (Inr _, w) \<Rightarrow>
             (case timed env (journal_settle jid pid) w of
                (Inl e, w) \<Rightarrow>
                  if is_journal_error e
                  then finish_with (Some permit) (Some status) True
                         (mark_unknown env jid (lit ''journal_settlement_failed'') w)
                  else (Inl e, w)
              | (Inr settled, w) \<Rightarrow>
                  finish_with (Some permit) (Some status) True (conclude env settled response w)))"

text \<open>The durable marker exists: hand the context to the sender, once.\<close>

definition send_attempt ::
  "attempt_env \<Rightarrow> pystr \<Rightarrow> live_record \<Rightarrow> persistent_permit \<Rightarrow> attempt_result action" where
  "send_attempt env h started permit w =
     (case jr_send_started_at started of
        None \<Rightarrow> (Inl AssertionError, w)
      | Some t \<Rightarrow>
          let cx = \<lparr>sx_journal_id = jr_journal_id started, sx_permit_id = pp_permit_id permit,
                    sx_binding_hash = h, sx_send_started_at = t\<rparr>
          in (case send_now env cx w of
                (r, w) \<Rightarrow>
                  (case bindr r (\<lambda>response. bindr (validate_response_status (tr_status response))
                            (\<lambda>_. Inr response)) of
                     Inl _ \<Rightarrow> finish_with (Some permit) None True
                                (mark_unknown env (jr_journal_id started)
                                   (lit ''transport_result_unknown'')
                                   (consume_failed_permit env permit w))
                   | Inr response \<Rightarrow> settle_attempt env started permit response w)))"

definition abandon_before_send ::
  "attempt_env \<Rightarrow> int \<Rightarrow> persistent_permit \<Rightarrow> attempt_result action" where
  "abandon_before_send env jid permit w =
     finish_with (Some permit) None False
       (terminalize_before_send env jid (consume_failed_permit env permit w))"

definition started_attempt ::
  "attempt_env \<Rightarrow> first_request_claim \<Rightarrow> pystr \<Rightarrow> live_record \<Rightarrow> persistent_permit \<Rightarrow>
     attempt_result action" where
  "started_attempt env claim h journal permit w =
     (if pp_fingerprint permit \<noteq> c_fingerprint claim \<or> pp_request_key_hash permit \<noteq> h
      then abandon_before_send env (jr_journal_id journal) permit w
      else case call_service env (\<lambda>d. (journal_get (jr_journal_id journal) d, d)) w of
        (Inl e, w) \<Rightarrow> (Inl e, w)
      | (Inr started, w) \<Rightarrow>
          if jr_state started \<noteq> SendStarted \<or> jr_permit_id started \<noteq> Some (pp_permit_id permit)
          then abandon_before_send env (jr_journal_id journal) permit w
          else send_attempt env h started permit w)"

definition authorize_attempt ::
  "attempt_env \<Rightarrow> first_request_claim \<Rightarrow> pystr \<Rightarrow> pystr \<Rightarrow> rat \<Rightarrow> live_record \<Rightarrow>
     attempt_result action" where
  "authorize_attempt env claim key h cost journal w =
     (case timed env (\<lambda>now. ps_authorize_live (ae_sha env) (ae_safety env)
              (jr_journal_id journal) (ae_uuid env) key now cost) w of
        (Inl _, w) \<Rightarrow> finish_with None None False
          (timed env (journal_fail (jr_journal_id journal) (lit ''permit_authorization_failed'')) w)
      | (Inr permit, w) \<Rightarrow> started_attempt env claim h journal permit w)"

definition execute ::
  "attempt_env \<Rightarrow> first_request_claim \<Rightarrow> pystr \<Rightarrow> rat \<Rightarrow> attempt_result action" where
  "execute env claim key cost w =
     (case hash_request_key (ae_sha env) key of
        Inl e \<Rightarrow> (Inl e, w)
      | Inr h \<Rightarrow>
          if h \<noteq> c_request_key_hash claim then (Inl JournalBoundAttempt, w)
          else (case timed env (journal_claim (c_fingerprint claim) (c_run_id claim)
                       (c_slot_id claim) h) w of
             (Inl e, w) \<Rightarrow> (Inl (if is_journal_error e then JournalBoundAttempt else e), w)
           | (Inr journal, w) \<Rightarrow> authorize_attempt env claim key h cost journal w))"

text \<open>\<open>execute_binding\<close>: the canonical binding carries its own approval and request key.\<close>

definition execute_binding ::
  "attempt_env \<Rightarrow> first_request_claim \<Rightarrow> pystr \<Rightarrow> pystr \<Rightarrow> rat \<Rightarrow> attempt_result action" where
  "execute_binding env claim binding_fingerprint binding_key cost w =
     (if binding_fingerprint \<noteq> c_fingerprint claim then (Inl JournalBoundAttempt, w)
      else execute env claim binding_key cost w)"

section \<open>What is sent\<close>

lemma sent_call_service [simp]: "w_sent (snd (call_service env op w)) = w_sent w"
  by (simp add: call_service_def split: prod.splits)

lemma sent_timed [simp]: "w_sent (snd (timed env op w)) = w_sent w"
  by (simp add: timed_def Let_def split: sum.splits)

lemma sent_finish_with [simp]: "w_sent (snd (finish_with permit status attempted r)) = w_sent (snd r)"
  by (cases r; cases "fst r") (auto simp: finish_with_def)

lemma sent_or_recover [simp]: "w_sent (snd (or_recover env jid r)) = w_sent (snd r)"
  by (cases r; cases "fst r") (auto simp: or_recover_def)

lemma sent_mark_unknown [simp]: "w_sent (snd (mark_unknown env jid code w)) = w_sent w"
  by (simp add: mark_unknown_def)

lemma sent_consume_failed_permit [simp]: "w_sent (consume_failed_permit env permit w) = w_sent w"
  by (simp add: consume_failed_permit_def)

text \<open>A stage that continues on the result of a service call.\<close>

lemma sent_case:
  assumes "w_sent (snd r) = s"
    and "\<And>e w. w_sent w = s \<Longrightarrow> w_sent (snd (f e w)) = s"
    and "\<And>x w. w_sent w = s \<Longrightarrow> w_sent (snd (g x w)) = s"
  shows "w_sent (snd (case r of (Inl e, w) \<Rightarrow> f e w | (Inr x, w) \<Rightarrow> g x w)) = s"
  using assms by (cases r; cases "fst r") auto

lemma sent_terminalize [simp]: "w_sent (snd (terminalize_before_send env jid w)) = w_sent w"
  unfolding terminalize_before_send_def by (rule sent_case) simp_all

lemma sent_abandon [simp]: "w_sent (snd (abandon_before_send env jid permit w)) = w_sent w"
  by (simp add: abandon_before_send_def)

lemma sent_conclude [simp]: "w_sent (snd (conclude env settled response w)) = w_sent w"
proof -
  have "w_sent (snd (case call_service env op w of
        (Inl e, w) \<Rightarrow> timed env (journal_fail jid (lit ''response_processing_failed'')) w
      | (Inr x, w) \<Rightarrow> timed env (journal_complete jid) w)) = w_sent w" for op :: "db \<Rightarrow> unit outcome" and jid
    by (rule sent_case) simp_all
  then show ?thesis by (simp add: conclude_def Let_def split: option.splits)
qed

lemma sent_settle_attempt [simp]: "w_sent (snd (settle_attempt env started permit response w)) = w_sent w"
  unfolding settle_attempt_def Let_def
  by (rule sent_case, simp, simp, rule sent_case) auto

text \<open>The durable marker a context speaks of.\<close>

definition marked :: "send_context \<Rightarrow> db \<Rightarrow> bool" where
  "marked cx d \<longleftrightarrow>
     (\<exists>j \<in> set (journals d). j_id j = sx_journal_id cx \<and> j_status j = SendStarted \<and>
        j_permit_id j = Some (sx_permit_id cx) \<and> j_send_started_at j = Some (sx_send_started_at cx))"

lemma journal_get_Inr:
  assumes "journal_get jid d = Inr v"
  obtains row where "row \<in> set (journals d)" "j_id row = jid" "v = journal_record (backend d) row"
  using assms by (auto simp: journal_get_def bindr_Inr split: option.splits dest!: row_get_Some)

text \<open>
  The shape of a run: nothing was sent and a result says so, or exactly one context was sent and a
  result says so; its marker was in the database \<open>d\<close> the coordinator's last transaction before the
  call left, and the call found that database after one turn of the other processes.
\<close>

definition sent_ok ::
  "attempt_env \<Rightarrow> (send_context \<times> db \<times> db) list \<Rightarrow> (error + attempt_result) \<times> world \<Rightarrow> bool" where
  "sent_ok env sent r \<longleftrightarrow>
     (w_sent (snd r) = sent \<and> (\<forall>res. fst r = Inr res \<longrightarrow> \<not> ar_attempted res)) \<or>
     (\<exists>cx d n. w_sent (snd r) = sent @ [(cx, d, ae_others env n d)] \<and> marked cx d \<and>
        (\<forall>res. fst r = Inr res \<longrightarrow> ar_attempted res \<and> ar_permit_id res = Some (sx_permit_id cx)
           \<and> ar_network_send_confirmed res = None))"

text \<open>The same, where the database left before the call also satisfies \<open>I\<close>.\<close>

definition sent_when ::
  "(db \<Rightarrow> bool) \<Rightarrow> attempt_env \<Rightarrow> (send_context \<times> db \<times> db) list \<Rightarrow>
     (error + attempt_result) \<times> world \<Rightarrow> bool" where
  "sent_when I env sent r \<longleftrightarrow> sent_ok env sent r \<and>
     (\<forall>e \<in> set (drop (length sent) (w_sent (snd r))). I (fst (snd e)))"

text \<open>An invariant of the database that the steps up to the call keep.\<close>

definition keeps :: "(db \<Rightarrow> bool) \<Rightarrow> attempt_env \<Rightarrow> bool" where
  "keeps I env \<longleftrightarrow>
     (\<forall>n d. I d \<longrightarrow> I (ae_others env n d)) \<and>
     (\<forall>fp run slot h now d. I d \<longrightarrow> I (snd (journal_claim fp run slot h now d))) \<and>
     (\<forall>jid key now cost d. I d \<longrightarrow>
        I (snd (ps_authorize_live (ae_sha env) (ae_safety env) jid (ae_uuid env) key now cost d)))"

lemma call_service_keeps:
  assumes "keeps I env" and "I (w_db w)" and "\<And>d. I d \<Longrightarrow> I (snd (op d))"
  shows "I (w_db (snd (call_service env op w)))"
proof -
  let ?d = "ae_others env (w_transactions w) (w_db w)"
  have "I ?d" using assms(1,2) by (simp add: keeps_def)
  then have "I (snd (op ?d))" by (rule assms(3))
  then show ?thesis by (cases "op ?d") (simp add: call_service_def)
qed

lemma timed_keeps:
  assumes "keeps I env" and "I (w_db w)" and "\<And>now d. I d \<Longrightarrow> I (snd (op now d))"
  shows "I (w_db (snd (timed env op w)))"
proof (cases "aware_utc (ae_clock env (w_clock_reads w))")
  case (Inr t)
  have "I (w_db (w\<lparr>w_clock_reads := w_clock_reads w + 1\<rparr>))" using assms(2) by simp
  from call_service_keeps [OF assms(1) this assms(3) [of _ "utc t"]] Inr show ?thesis
    by (simp add: timed_def Let_def)
qed (simp add: timed_def assms(2))

lemma sent_when_nothing:
  "w_sent (snd r) = sent \<Longrightarrow> (\<And>res. fst r = Inr res \<Longrightarrow> \<not> ar_attempted res) \<Longrightarrow> sent_when I env sent r"
  by (auto simp: sent_when_def sent_ok_def)

lemma finish_with_result:
  "fst (finish_with permit status attempted r) = Inr res \<Longrightarrow>
    ar_attempted res = attempted \<and> ar_permit_id res = map_option pp_permit_id permit \<and>
    ar_response_status res = status \<and> ar_network_send_confirmed res = None \<and>
    (\<exists>j. fst r = Inr j \<and> ar_state res = jr_state j)"
  by (cases r; cases "fst r") (auto simp: finish_with_def attempt_result_of_def)

lemma settle_attempt_result:
  assumes "fst (settle_attempt env started permit response w) = Inr res"
  shows "ar_attempted res \<and> ar_permit_id res = Some (pp_permit_id permit) \<and>
    ar_network_send_confirmed res = None \<and> ar_response_status res = Some (tr_status response)"
  using assms unfolding settle_attempt_def Let_def
  by (auto dest!: finish_with_result split: prod.splits sum.splits if_splits)

lemma send_attempt_sent_when:
  assumes d: "row \<in> set (journals (w_db w))" "started = journal_record b row" and I: "I (w_db w)"
    and st: "j_status row = SendStarted" "j_permit_id row = Some (pp_permit_id permit)"
  shows "sent_when I env (w_sent w) (send_attempt env h started permit w)"
proof (cases "j_send_started_at row")
  case None
  then show ?thesis by (intro sent_when_nothing) (simp_all add: send_attempt_def d(2) journal_record_def)
next
  case (Some t)
  define cx where "cx = \<lparr>sx_journal_id = jr_journal_id started, sx_permit_id = pp_permit_id permit,
    sx_binding_hash = h, sx_send_started_at = t\<rparr>"
  define d' where "d' = ae_others env (w_transactions w) (w_db w)"
  define w1 where "w1 = w\<lparr>w_db := d', w_transactions := w_transactions w + 1,
    w_sent := w_sent w @ [(cx, w_db w, d')]\<rparr>"
  have started_at: "jr_send_started_at started = Some t"
    using Some d(2) by (simp add: journal_record_def)
  have "marked cx (w_db w)"
    using d st Some unfolding marked_def cx_def by (auto simp: journal_record_def)
  moreover have "send_attempt env h started permit w =
    (case bindr (ae_sender env cx d') (\<lambda>response. bindr (validate_response_status (tr_status response))
            (\<lambda>_. Inr response)) of
       Inl _ \<Rightarrow> finish_with (Some permit) None True (mark_unknown env (jr_journal_id started)
                   (lit ''transport_result_unknown'') (consume_failed_permit env permit w1))
     | Inr response \<Rightarrow> settle_attempt env started permit response w1)"
    unfolding w1_def cx_def d'_def by (simp only: send_attempt_def send_now_def Let_def started_at option.case prod.case)
  ultimately show ?thesis
    unfolding sent_when_def sent_ok_def using I
    by (auto simp: w1_def cx_def d'_def dest!: finish_with_result settle_attempt_result split: sum.splits)
qed

lemma abandon_sent_when: "sent_when I env (w_sent w) (abandon_before_send env jid permit w)"
  by (rule sent_when_nothing) (auto simp: abandon_before_send_def dest: finish_with_result)

lemma started_attempt_sent_when:
  assumes keeps: "keeps I env" and I: "I (w_db w)"
  shows "sent_when I env (w_sent w) (started_attempt env claim h journal permit w)"
proof (cases "pp_fingerprint permit \<noteq> c_fingerprint claim \<or> pp_request_key_hash permit \<noteq> h")
  case True
  then show ?thesis by (simp add: started_attempt_def abandon_sent_when)
next
  case False
  define r where "r = call_service env (\<lambda>d. (journal_get (jr_journal_id journal) d, d)) w"
  obtain w' where w': "w' = snd r" "w_sent w' = w_sent w" by (simp add: r_def)
  have I': "I (w_db w')" unfolding w'(1) r_def using keeps I by (rule call_service_keeps) simp
  show ?thesis
  proof (cases "fst r")
    case (Inl e)
    then have "r = (Inl e, w')" using w'(1) by (simp add: prod_eq_iff)
    with False w' show ?thesis
      by (intro sent_when_nothing) (simp_all add: started_attempt_def r_def [symmetric])
  next
    case (Inr started)
    have get: "journal_get (jr_journal_id journal) (w_db w') = Inr started"
      using Inr unfolding w'(1) r_def by (simp add: call_service_def)
    then obtain row where row: "row \<in> set (journals (w_db w'))"
      "started = journal_record (backend (w_db w')) row" by (rule journal_get_Inr)
    have eq: "started_attempt env claim h journal permit w =
      (if jr_state started \<noteq> SendStarted \<or> jr_permit_id started \<noteq> Some (pp_permit_id permit)
       then abandon_before_send env (jr_journal_id journal) permit w'
       else send_attempt env h started permit w')"
    proof -
      have "r = (Inr started, w')" using Inr w'(1) by (simp add: prod_eq_iff)
      with False show ?thesis by (simp add: started_attempt_def r_def [symmetric])
    qed
    show ?thesis
      unfolding eq w'(2) [symmetric] using row I'
      by (auto simp: abandon_sent_when journal_record_def intro!: send_attempt_sent_when)
  qed
qed

lemma authorize_attempt_sent_when:
  assumes keeps: "keeps I env" and I: "I (w_db w)"
  shows "sent_when I env (w_sent w) (authorize_attempt env claim key h cost journal w)"
proof -
  define r where "r = timed env (\<lambda>now. ps_authorize_live (ae_sha env) (ae_safety env)
              (jr_journal_id journal) (ae_uuid env) key now cost) w"
  obtain w' where w': "w' = snd r" "w_sent w' = w_sent w" by (simp add: r_def)
  have I': "I (w_db w')" unfolding w'(1) r_def
    using keeps I by (rule timed_keeps) (use keeps in \<open>simp add: keeps_def\<close>)
  show ?thesis
  proof (cases "fst r")
    case (Inl e)
    then have "r = (Inl e, w')" using w'(1) by (simp add: prod_eq_iff)
    with w' show ?thesis
      by (intro sent_when_nothing) (auto simp: authorize_attempt_def r_def [symmetric] dest: finish_with_result)
  next
    case (Inr permit)
    then have "r = (Inr permit, w')" using w'(1) by (simp add: prod_eq_iff)
    then have "authorize_attempt env claim key h cost journal w = started_attempt env claim h journal permit w'"
      by (simp add: authorize_attempt_def r_def [symmetric])
    with w'(2) started_attempt_sent_when [of I env w' claim h journal permit] keeps I' show ?thesis by simp
  qed
qed

text \<open>Past its two checks, \<open>execute\<close> is the journal claim and what follows.\<close>

lemma execute_cases:
  obtains (rejected) e where "execute env claim key cost w = (Inl e, w)"
  | (refused) e e' w' where
      "timed env (journal_claim (c_fingerprint claim) (c_run_id claim) (c_slot_id claim)
         (c_request_key_hash claim)) w = (Inl e', w')"
      "execute env claim key cost w = (Inl e, w')"
  | (claimed) journal w' where
      "hash_request_key (ae_sha env) key = Inr (c_request_key_hash claim)"
      "timed env (journal_claim (c_fingerprint claim) (c_run_id claim) (c_slot_id claim)
         (c_request_key_hash claim)) w = (Inr journal, w')"
      "execute env claim key cost w =
         authorize_attempt env claim key (c_request_key_hash claim) cost journal w'"
proof (cases "hash_request_key (ae_sha env) key = Inr (c_request_key_hash claim)")
  case False
  then have "\<exists>e. execute env claim key cost w = (Inl e, w)"
    by (cases "hash_request_key (ae_sha env) key") (auto simp: execute_def)
  with rejected show thesis by blast
next
  case True
  define r where "r = timed env (journal_claim (c_fingerprint claim) (c_run_id claim)
      (c_slot_id claim) (c_request_key_hash claim)) w"
  show thesis
  proof (cases "fst r")
    case (Inl e)
    then have "r = (Inl e, snd r)" by (simp add: prod_eq_iff)
    with True show thesis
      by (intro refused [of e "snd r"]) (auto simp: execute_def r_def [symmetric] split: prod.splits)
  next
    case (Inr journal)
    then have "r = (Inr journal, snd r)" by (simp add: prod_eq_iff)
    with True show thesis
      by (intro claimed [of journal "snd r"])
        (auto simp: execute_def r_def [symmetric] split: prod.splits)
  qed
qed

lemma timed_sent: "timed env op w = (r, w') \<Longrightarrow> w_sent w' = w_sent w"
  using sent_timed [of env op w] by simp

lemma execute_sent_when:
  assumes keeps: "keeps I env" and I: "I (w_db w)"
  shows "sent_when I env (w_sent w) (execute env claim key cost w)"
proof (cases rule: execute_cases [of env claim key cost w])
  case (rejected e)
  then show ?thesis by (intro sent_when_nothing) simp_all
next
  case (refused e e' w')
  then show ?thesis by (intro sent_when_nothing) (simp_all add: timed_sent [OF refused(1)])
next
  case (claimed journal w')
  let ?op = "journal_claim (c_fingerprint claim) (c_run_id claim) (c_slot_id claim) (c_request_key_hash claim)"
  have "I (w_db (snd (timed env ?op w)))"
    using keeps I by (rule timed_keeps) (use keeps in \<open>simp add: keeps_def\<close>)
  then have "I (w_db w')" using claimed(2) by simp
  with claimed(3) authorize_attempt_sent_when [OF keeps, of w' claim key _ cost journal] show ?thesis
    by (simp add: timed_sent [OF claimed(2)])
qed

lemma execute_sent_ok: "sent_ok env (w_sent w) (execute env claim key cost w)"
  using execute_sent_when [of "\<lambda>_. True" env w claim key cost] by (simp add: keeps_def sent_when_def)

section \<open>Other processes do not take a marker away\<close>

text \<open>
  Other processes that change the ledger only as its services do; a marker once set may be settled
  or resolved by them, but journal, permit and start time stay.
\<close>

definition orderly :: "(pystr \<Rightarrow> g0_approval) \<Rightarrow> attempt_env \<Rightarrow> bool" where
  "orderly A env \<longleftrightarrow>
     (\<forall>fp. g0_valid (A fp)) \<and> (\<forall>n d. ledger_inv A d \<longrightarrow> changes A d (ae_others env n d)) \<and>
     ps_approval (ae_safety env) = A (ps_fingerprint (ae_safety env))"

definition marker_stands :: "send_context \<Rightarrow> db \<Rightarrow> bool" where
  "marker_stands cx d \<longleftrightarrow>
     (\<exists>j \<in> set (journals d). j_id j = sx_journal_id cx \<and> j_status j \<noteq> Claimed \<and>
        j_permit_id j = Some (sx_permit_id cx) \<and> j_send_started_at j = Some (sx_send_started_at cx))"

lemma change_keeps_marker:
  assumes "ledger_change A d d'" and inv: "ledger_inv A d" and stands: "marker_stands cx d"
  shows "marker_stands cx d'"
  using assms(1,3)
proof cases
  case (move_journal row k row')
  obtain j where j: "j \<in> set (journals d)" "j_id j = sx_journal_id cx" "j_status j \<noteq> Claimed"
    "j_permit_id j = Some (sx_permit_id cx)" "j_send_started_at j = Some (sx_send_started_at cx)"
    using stands by (auto simp: marker_stands_def)
  show ?thesis
  proof (cases "j_id j = k")
    case True
    have "distinct (map j_id (journals d))" using inv by (simp add: ledger_inv_def unique_ok_def)
    with True j(1) move_journal(2,3) have "row = j" by (auto intro: row_key_eq)
    have "row' \<in> set (journals d')"
      using True j(1) unfolding move_journal(1) by (force simp: set_row_update)
    moreover have "j_status row' \<noteq> Claimed"
      using move_journal(4) by (auto simp: journal_step_def elim: lifecycle.cases)
    ultimately show ?thesis using j move_journal(4) \<open>row = j\<close>
      unfolding marker_stands_def by (auto simp: journal_step_def intro: bexI [of _ row'])
  next
    case False
    with j move_journal(1) show ?thesis unfolding marker_stands_def
      by (auto simp: set_row_update intro!: bexI [of _ j])
  qed
qed (auto simp: marker_stands_def grant_permit_def record_stop_def)

lemma changes_keep_marker:
  assumes "changes A d d'" and "\<forall>fp. g0_valid (A fp)" and "ledger_inv A d" and "marker_stands cx d"
  shows "marker_stands cx d'"
  using assms(1)
proof (induction rule: rtranclp_induct)
  case (step d1 d2)
  have "ledger_inv A d1" using step(1) assms(2,3) by (rule changes_inv)
  with step show ?case by (blast intro: change_keeps_marker)
qed (rule assms(4))

lemma orderly_keeps:
  assumes "orderly A env" shows "keeps (ledger_inv A) env"
proof -
  have valid: "\<forall>fp. g0_valid (A fp)" and others: "\<And>n d. ledger_inv A d \<Longrightarrow> changes A d (ae_others env n d)"
    and appr: "ps_approval (ae_safety env) = A (ps_fingerprint (ae_safety env))"
    using assms by (auto simp: orderly_def)
  show ?thesis unfolding keeps_def
    using changes_inv [OF others valid] changes_inv [OF journal_service_changes(1) valid]
      changes_inv [OF ps_authorize_live_changes [OF appr valid] valid] by blast
qed

lemma execute_marker_stands:
  assumes "orderly A env" and "ledger_inv A (w_db w)"
    and "(cx, d, d') \<in> set (drop (length (w_sent w)) (w_sent (snd (execute env claim key cost w))))"
  shows "marker_stands cx d'"
proof -
  have "sent_when (ledger_inv A) env (w_sent w) (execute env claim key cost w)"
    using orderly_keeps [OF assms(1)] assms(2) by (rule execute_sent_when)
  with assms(3) have "ledger_inv A d" "marked cx d" "\<exists>n. d' = ae_others env n d"
    by (fastforce simp: sent_when_def sent_ok_def)+
  moreover from \<open>marked cx d\<close> have "marker_stands cx d"
    by (force simp: marked_def marker_stands_def)
  ultimately show ?thesis using assms(1) by (auto simp: orderly_def intro: changes_keep_marker)
qed

section \<open>Results are terminal\<close>

lemma timed_Inr:
  assumes "fst (timed env op w) = Inr v"
  obtains t d d' where "op (utc t) d = (Inr v, d')"
  using assms
  by (auto simp: timed_def Let_def call_service_def split: sum.splits prod.splits)

definition ends_terminal :: "(error + live_record) \<times> world \<Rightarrow> bool" where
  "ends_terminal r \<longleftrightarrow> (\<forall>j. fst r = Inr j \<longrightarrow> terminal (jr_state j))"

lemma ends_terminal_ops [simp]:
  "ends_terminal (timed env (journal_fail jid code) w)"
  "ends_terminal (timed env (journal_complete jid) w)"
  "ends_terminal (timed env (journal_mark_indeterminate jid code) w)"
  "ends_terminal (timed env (journal_recover jid) w)"
  unfolding ends_terminal_def
  by (auto elim!: timed_Inr dest!: journal_results simp: terminal_def)

lemma ends_terminal_or_recover [simp]: "ends_terminal r \<Longrightarrow> ends_terminal (or_recover env jid r)"
  using ends_terminal_ops(4) [of env jid "snd r"]
  by (cases r; cases "fst r") (auto simp: or_recover_def ends_terminal_def)

lemma ends_terminal_mark_unknown [simp]: "ends_terminal (mark_unknown env jid code w)"
  by (simp add: mark_unknown_def)

lemma ends_terminal_before_send [simp]: "ends_terminal (terminalize_before_send env jid w)"
proof -
  have "ends_terminal (Inl e, w)" for e w by (simp add: ends_terminal_def)
  then show ?thesis by (auto simp: terminalize_before_send_def split: prod.splits sum.splits)
qed

lemma ends_terminal_conclude [simp]: "ends_terminal (conclude env settled response w)"
  by (auto simp: conclude_def Let_def intro!: ends_terminal_or_recover
      split: option.splits prod.splits sum.splits)

definition result_ok :: "attempt_result \<Rightarrow> bool" where
  "result_ok res \<longleftrightarrow> terminal (ar_state res) \<and>
     (\<not> ar_attempted res \<longrightarrow> ar_response_status res = None)"

lemma finish_with_ok:
  "ends_terminal r \<Longrightarrow> fst (finish_with permit status attempted r) = Inr res \<Longrightarrow>
   attempted \<or> status = None \<Longrightarrow> result_ok res"
  by (auto simp: result_ok_def ends_terminal_def dest!: finish_with_result)

lemma settle_attempt_ok: "fst (settle_attempt env started permit response w) = Inr res \<Longrightarrow> result_ok res"
  unfolding settle_attempt_def Let_def
  by (auto split: prod.splits sum.splits if_splits elim!: finish_with_ok [rotated])

lemma send_attempt_ok: "fst (send_attempt env h started permit w) = Inr res \<Longrightarrow> result_ok res"
  unfolding send_attempt_def Let_def
  by (auto split: option.splits prod.splits sum.splits elim!: finish_with_ok [rotated] settle_attempt_ok)

lemma authorize_attempt_ok:
  "fst (authorize_attempt env claim key h cost journal w) = Inr res \<Longrightarrow> result_ok res"
  unfolding authorize_attempt_def started_attempt_def abandon_before_send_def
  by (auto split: prod.splits sum.splits if_splits elim!: finish_with_ok [rotated] send_attempt_ok)

lemma execute_result_ok:
  assumes "fst (execute env claim key cost w) = Inr res" shows "result_ok res"
proof (cases rule: execute_cases [of env claim key cost w])
  case (claimed journal w')
  with assms show ?thesis by (auto dest: authorize_attempt_ok)
qed (use assms in simp_all)

section \<open>Undisturbed attempts terminate their journal\<close>

text \<open>
  An undisturbed environment: no other process acts, every clock reading is aware, the permit
  service is bound to its approval and draws an unused identifier, and the processor leaves
  the journals alone.
\<close>

definition undisturbed :: "(pystr \<Rightarrow> g0_approval) \<Rightarrow> attempt_env \<Rightarrow> bool" where
  "undisturbed A env \<longleftrightarrow>
     (\<forall>fp. g0_valid (A fp)) \<and> (\<forall>n d. ae_others env n d = d) \<and>
     (\<forall>n. is_ok (aware_utc (ae_clock env n))) \<and>
     ps_approval (ae_safety env) = A (ps_fingerprint (ae_safety env)) \<and>
     validate_permit_id (ae_uuid env) = Inr () \<and>
     (\<forall>process response d. ae_processor env = Some process \<longrightarrow> ledger_inv A d \<longrightarrow>
        ledger_inv A (snd (process response d)) \<and> journals (snd (process response d)) = journals d)"

text \<open>
  The database satisfies its invariant, its journals are the rows \<open>ids\<close>, and the journal \<open>jid\<close> is
  in the state \<open>st\<close>.
\<close>

definition journal_at ::
  "(pystr \<Rightarrow> g0_approval) \<Rightarrow> int list \<Rightarrow> db \<Rightarrow> int \<Rightarrow> live_state \<Rightarrow> bool" where
  "journal_at A ids d jid st \<longleftrightarrow> ledger_inv A d \<and> 1 \<le> jid \<and> map j_id (journals d) = ids \<and>
     (\<exists>row. row_get j_id jid (journals d) = Some row \<and> j_status row = st)"

lemma with_journal_commits:
  assumes inv: "ledger_inv A d" and valid: "\<forall>fp. g0_valid (A fp)"
    and row: "row_get j_id jid (journals d) = Some row" and f: "f d row = Inr row'"
    and move: "row' = row \<or> move_ok d row row'"
  obtains d' where "transaction (with_journal jid f) d = (Inr (journal_record (backend d) row'), d')"
    "ledger_inv A d'" "row_get j_id jid (journals d') = Some row'" "j_id row' = jid"
    "map j_id (journals d') = map j_id (journals d)"
proof -
  define d' where "d' = d\<lparr>journals := row_update j_id jid (\<lambda>_. row') (journals d)\<rparr>"
  have body: "with_journal jid f d = Inr (journal_record (backend d) row', d')"
    using row f by (auto simp: with_journal_Inr d'_def)
  have mem: "row \<in> set (journals d)" "j_id row = jid" using row by (auto dest: row_get_Some)
  have "changes A d d'"
    using inv body by (rule with_journal_changes) (use row f move in auto)
  then have inv': "ledger_inv A d'" using valid inv by (rule changes_inv)
  have id: "j_id row' = jid" using move mem by (auto simp: move_ok_def journal_step_def)
  have "row' \<in> set (journals d')"
    using mem by (auto simp: d'_def set_row_update intro!: bexI [of _ row])
  moreover have "distinct (map j_id (journals d'))" using inv' by (simp add: ledger_inv_def unique_ok_def)
  ultimately have "row_get j_id jid (journals d') = Some row'"
    unfolding id [symmetric] by (intro row_get_unique)
  moreover have "transaction (with_journal jid f) d = (Inr (journal_record (backend d) row'), d')"
    using body inv' by (simp add: transaction_Inr ledger_inv_db_ok)
  moreover have "map j_id (journals d') = map j_id (journals d)"
    using mem id unfolding d'_def by (auto intro: map_row_update_on)
  ultimately show thesis using inv' id by (intro that)
qed

lemma journal_fail_commits:
  assumes valid: "\<forall>fp. g0_valid (A fp)" and at: "journal_at A ids d jid st" and st: "st \<in> {Claimed, Settled}"
    and code: "validate_failure_code code = Inr code"
  obtains v d' where "journal_fail jid code (utc t) d = (Inr v, d')" "journal_at A ids d' jid (jr_state v)"
    "jr_journal_id v = jid"
proof -
  obtain row where row: "row_get j_id jid (journals d) = Some row" "j_status row = st"
    and inv: "ledger_inv A d" and jid: "1 \<le> jid" "map j_id (journals d) = ids"
    using at by (auto simp: journal_at_def)
  obtain row' where f: "resolve_row Failed (Some code) t row = Inr row'" "j_status row' = Failed"
    using st row(2) by (auto simp: resolve_row_def Let_def)
  have "journal_ok row" using inv row(1) by (auto dest: row_get_Some intro: journal_row_ok)
  then have "row' = row \<or> move_ok d row row'" using f(1) resolve_move(2) by blast
  from with_journal_commits [where f = "\<lambda>_. resolve_row Failed (Some code) t", OF inv valid row(1) f(1) this] obtain d' where
    "transaction (with_journal jid (\<lambda>_. resolve_row Failed (Some code) t)) d =
       (Inr (journal_record (backend d) row'), d')" "ledger_inv A d'"
    "row_get j_id jid (journals d') = Some row'" "j_id row' = jid"
    "map j_id (journals d') = map j_id (journals d)" by auto
  with code jid f(2) show thesis
    by (intro that) (auto simp: journal_fail_def journal_resolve_def validate_identifier_def
        journal_at_def journal_record_def)
qed

lemma journal_complete_commits:
  assumes valid: "\<forall>fp. g0_valid (A fp)" and at: "journal_at A ids d jid Settled"
  obtains v d' where "journal_complete jid (utc t) d = (Inr v, d')" "journal_at A ids d' jid (jr_state v)"
    "jr_journal_id v = jid"
proof -
  obtain row where row: "row_get j_id jid (journals d) = Some row" "j_status row = Settled"
    and inv: "ledger_inv A d" and jid: "1 \<le> jid" "map j_id (journals d) = ids"
    using at by (auto simp: journal_at_def)
  obtain row' where f: "resolve_row Completed None t row = Inr row'"
    using row(2) by (auto simp: resolve_row_def Let_def)
  have "journal_ok row" using inv row(1) by (auto dest: row_get_Some intro: journal_row_ok)
  then have "row' = row \<or> move_ok d row row'" using f resolve_move(1) by blast
  from with_journal_commits [where f = "\<lambda>_. resolve_row Completed None t", OF inv valid row(1) f this] obtain d' where
    "transaction (with_journal jid (\<lambda>_. resolve_row Completed None t)) d =
       (Inr (journal_record (backend d) row'), d')" "ledger_inv A d'"
    "row_get j_id jid (journals d') = Some row'" "j_id row' = jid"
    "map j_id (journals d') = map j_id (journals d)" by auto
  with jid show thesis
    by (intro that) (auto simp: journal_complete_def journal_resolve_def validate_identifier_def
        journal_at_def journal_record_def)
qed

lemma journal_mark_commits:
  assumes valid: "\<forall>fp. g0_valid (A fp)" and at: "journal_at A ids d jid SendStarted"
    and code: "validate_failure_code code = Inr code"
  obtains v d' where "journal_mark_indeterminate jid code (utc t) d = (Inr v, d')"
    "journal_at A ids d' jid (jr_state v)"
    "jr_journal_id v = jid"
proof -
  obtain row where row: "row_get j_id jid (journals d) = Some row" "j_status row = SendStarted"
    and inv: "ledger_inv A d" and jid: "1 \<le> jid" "map j_id (journals d) = ids"
    using at by (auto simp: journal_at_def)
  obtain row' where f: "indeterminate_row code t row = Inr row'"
    using row(2) by (auto simp: indeterminate_row_def)
  have "journal_ok row" using inv row(1) by (auto dest: row_get_Some intro: journal_row_ok)
  then have "row' = row \<or> move_ok d row row'" using f resolve_move(3) by blast
  from with_journal_commits [where f = "\<lambda>_. indeterminate_row code t", OF inv valid row(1) f this] obtain d' where
    "transaction (with_journal jid (\<lambda>_. indeterminate_row code t)) d =
       (Inr (journal_record (backend d) row'), d')" "ledger_inv A d'"
    "row_get j_id jid (journals d') = Some row'" "j_id row' = jid"
    "map j_id (journals d') = map j_id (journals d)" by auto
  with code jid show thesis
    by (intro that) (auto simp: journal_mark_indeterminate_def validate_identifier_def
        journal_at_def journal_record_def)
qed

lemma journal_settle_commits:
  assumes valid: "\<forall>fp. g0_valid (A fp)" and inv: "ledger_inv A d"
    and jid: "1 \<le> jid" "map j_id (journals d) = ids"
    and row: "row_get j_id jid (journals d) = Some row" "j_status row = SendStarted"
      "j_permit_id row = Some pid"
    and p: "p \<in> set (permits d)" "p_permit_id p = pid" "p_status p = PermitConsumed"
    and pid: "validate_permit_id pid = Inr ()"
  obtains v d' where "journal_settle jid pid (utc t) d = (Inr v, d')" "journal_at A ids d' jid (jr_state v)"
    "jr_state v = Settled" "jr_journal_id v = jid"
proof -
  have "find (\<lambda>p. p_permit_id p = pid) (permits d) = Some p"
    using p inv find_unique [of p_permit_id "permits d" p]
    by (auto simp: ledger_inv_def unique_ok_def)
  with p row obtain row' where f: "settle_row pid t d row = Inr row'" "j_status row' = Settled"
    by (auto simp: settle_row_def)
  have mem: "row \<in> set (journals d)" "j_id row = jid" using row(1) by (auto dest: row_get_Some)
  have move: "row' = row \<or> move_ok d row row'" using settle_move [OF inv mem(1) f(1)] by simp
  from with_journal_commits [where f = "settle_row pid t", OF inv valid row(1) f(1) move] obtain d' where
    "transaction (with_journal jid (settle_row pid t)) d = (Inr (journal_record (backend d) row'), d')"
    "ledger_inv A d'" "row_get j_id jid (journals d') = Some row'" "j_id row' = jid"
    "map j_id (journals d') = map j_id (journals d)" by auto
  with jid pid f(2) show thesis
    by (intro that) (auto simp: journal_settle_def validate_identifier_def journal_at_def
        journal_record_def)
qed

text \<open>What the permit service does to the journals.\<close>

lemma transport_failure_journals [simp]:
  "journals (snd (ps_record_transport_failure ps pid now d)) = journals d"
  by (auto simp: ps_record_transport_failure_def before_def transaction_def transport_failure_body_def
      bindr_def split: sum.splits)

lemma record_response_journals [simp]:
  "journals (snd (ps_record_response ps pid status now d)) = journals d"
  by (auto simp: ps_record_response_def before_def transaction_def record_response_body_def
      bindr_def Let_def record_stop_def split: sum.splits option.splits)

lemma record_response_consumes:
  assumes "ps_record_response ps pid status now d = (Inr u, d')"
  shows "\<exists>p \<in> set (permits d'). p_permit_id p = pid \<and> p_status p = PermitConsumed"
proof -
  obtain t p rb where lock: "locked_permit_and_run ps pid d = Inr (p, rb)"
    and "permits d' = row_update p_id (p_id p) (\<lambda>_. consume_row PermitConsumed t (Some status) p) (permits d)"
    using assms
    by (auto simp: ps_record_response_def transaction_Inr record_response_body_def bindr_Inr Let_def
        record_stop_def split: option.splits if_splits)
  moreover note locked_permit_and_run_Inr [OF lock]
  ultimately show ?thesis
    by (intro bexI [of _ "consume_row PermitConsumed t (Some status) p"])
      (auto simp: consume_row_def set_row_update)
qed

lemma authorize_live_failed_journals:
  assumes "fst (ps_authorize_live sha ps jid pid key now cost d) = Inl e"
  shows "journals (snd (ps_authorize_live sha ps jid pid key now cost d)) = journals d"
proof -
  have body: "journals d' = journals d"
    if run: "live_send_body ps jid pid h t cost d = Inr (a, d')" and err: "finish_authorization a = Inl e'"
    for h t a d' e'
  proof -
    obtain d1 where res: "reserve_request ps pid h t cost d = Inr (a, d1)"
      and rest: "(case ad_permit a of None \<Rightarrow> d' = d1
                | Some permit \<Rightarrow> start_journal ps jid h t permit d1 = Inr d')"
      using run by (auto simp: live_send_body_def bindr_Inr split: option.splits)
    have none: "ad_permit a = None"
      using res
    proof (cases rule: reserve_request_Inr)
      case (granted rb daily d2)
      with err show ?thesis by (simp add: finish_authorization_def)
    qed
    with rest reserve_request_journals [OF res] show ?thesis by simp
  qed
  show ?thesis
    using assms body
    by (auto simp: ps_authorize_live_def before_def transaction_def after_commit_def
        split: sum.splits if_splits)
qed

lemma authorize_live_marks:
  assumes "ps_authorize_live sha ps jid pid key now cost d = (Inr permit, d')"
  obtains row where "row_get j_id jid (journals d') = Some row" "j_status row = SendStarted"
    "j_permit_id row = Some (pp_permit_id permit)" "j_send_started_at row \<noteq> None"
    "pp_permit_id permit = pid" "map j_id (journals d') = map j_id (journals d)"
  using assms
proof (cases rule: ps_authorize_live_Inr)
  case (1 t h a d1 j)
  define upd where "upd = (\<lambda>r :: journal_row. r\<lparr>j_permit_id := Some (pp_permit_id permit), j_status := SendStarted,
               j_send_started_at := Some t, j_version := j_version r + 1\<rparr>)"
  have "row_get j_id jid (row_update j_id jid upd (journals d1)) = Some (upd j)"
    using 1(6) by (subst row_get_update) (auto simp: upd_def)
  moreover have "pp_permit_id permit = pid"
    using 1(4)
  proof (cases rule: reserve_request_Inr)
    case (granted rb daily d2)
    with 1(5) show ?thesis by (auto simp: granted_def new_permit_def)
  next
    case (refused rb daily d2)
    with 1(5) show ?thesis by simp
  qed
  moreover have "map j_id (row_update j_id jid upd (journals d1)) = map j_id (journals d)"
    unfolding reserve_request_journals [OF 1(4)] by (rule map_row_update_same) (simp add: upd_def)
  ultimately show thesis
    using 1(8) by (intro that [of "upd j"]) (auto simp: upd_def)
qed

section \<open>Stage by stage\<close>

lemma timed_undisturbed:
  assumes "undisturbed A env"
  obtains t w' where "timed env op w = (fst (op (utc t) (w_db w)), w')"
    "w_db w' = snd (op (utc t) (w_db w))"
proof -
  have "is_ok (aware_utc (ae_clock env (w_clock_reads w)))" using assms by (simp add: undisturbed_def)
  then obtain t where t: "aware_utc (ae_clock env (w_clock_reads w)) = Inr t" by (auto simp: is_ok_Inr)
  show thesis
    by (rule that [of t "snd (timed env op w)"])
      (use assms t in \<open>auto simp: timed_def Let_def call_service_def undisturbed_def split: prod.splits\<close>)
qed

lemma call_undisturbed:
  assumes "undisturbed A env"
  obtains w' where "call_service env op w = (fst (op (w_db w)), w')" "w_db w' = snd (op (w_db w))"
  by (rule that [of "snd (call_service env op w)"])
    (use assms in \<open>auto simp: call_service_def undisturbed_def split: prod.splits\<close>)

lemma valid_codes:
  "validate_failure_code (lit ''permit_authorization_failed'') = Inr (lit ''permit_authorization_failed'')"
  "validate_failure_code (lit ''send_start_failed'') = Inr (lit ''send_start_failed'')"
  "validate_failure_code (lit ''send_start_commit_unknown'') = Inr (lit ''send_start_commit_unknown'')"
  "validate_failure_code (lit ''transport_result_unknown'') = Inr (lit ''transport_result_unknown'')"
  "validate_failure_code (lit ''permit_settlement_unknown'') = Inr (lit ''permit_settlement_unknown'')"
  "validate_failure_code (lit ''journal_settlement_failed'') = Inr (lit ''journal_settlement_failed'')"
  "validate_failure_code (lit ''non_success_response'') = Inr (lit ''non_success_response'')"
  "validate_failure_code (lit ''response_processing_failed'') = Inr (lit ''response_processing_failed'')"
  by (simp_all add: validate_failure_code_def lit_def is_lower_letter_def is_code_char_def)

text \<open>A stage over journals ends with a record of the state its journal is left in.\<close>

definition ended ::
  "(pystr \<Rightarrow> g0_approval) \<Rightarrow> int list \<Rightarrow> int \<Rightarrow> (error + live_record) \<times> world \<Rightarrow> bool" where
  "ended A ids jid r \<longleftrightarrow>
     (\<exists>j. fst r = Inr j \<and> jr_journal_id j = jid \<and> journal_at A ids (w_db (snd r)) jid (jr_state j))"

lemma ended_or_recover: "ended A ids jid r \<Longrightarrow> ended A ids jid (or_recover env jid r)"
  by (cases r; cases "fst r") (auto simp: or_recover_def ended_def)

lemma ended_fail:
  assumes "undisturbed A env" "journal_at A ids (w_db w) jid st" "st \<in> {Claimed, Settled}"
    and "validate_failure_code code = Inr code"
  shows "ended A ids jid (timed env (journal_fail jid code) w)"
proof -
  obtain t w' where run: "timed env (journal_fail jid code) w = (fst (journal_fail jid code (utc t) (w_db w)), w')"
    "w_db w' = snd (journal_fail jid code (utc t) (w_db w))" using assms(1) by (rule timed_undisturbed)
  from assms obtain v d' where "journal_fail jid code (utc t) (w_db w) = (Inr v, d')"
    "journal_at A ids d' jid (jr_state v)" "jr_journal_id v = jid"
    by (auto simp: undisturbed_def intro: journal_fail_commits)
  with run show ?thesis by (simp add: ended_def)
qed

lemma ended_complete:
  assumes "undisturbed A env" "journal_at A ids (w_db w) jid Settled"
  shows "ended A ids jid (timed env (journal_complete jid) w)"
proof -
  obtain t w' where run: "timed env (journal_complete jid) w = (fst (journal_complete jid (utc t) (w_db w)), w')"
    "w_db w' = snd (journal_complete jid (utc t) (w_db w))" using assms(1) by (rule timed_undisturbed)
  from assms obtain v d' where "journal_complete jid (utc t) (w_db w) = (Inr v, d')"
    "journal_at A ids d' jid (jr_state v)" "jr_journal_id v = jid"
    by (auto simp: undisturbed_def intro: journal_complete_commits)
  with run show ?thesis by (simp add: ended_def)
qed

lemma ended_mark_unknown:
  assumes "undisturbed A env" "journal_at A ids (w_db w) jid SendStarted"
    and "validate_failure_code code = Inr code"
  shows "ended A ids jid (mark_unknown env jid code w)"
proof -
  obtain t w' where run: "timed env (journal_mark_indeterminate jid code) w =
      (fst (journal_mark_indeterminate jid code (utc t) (w_db w)), w')"
    "w_db w' = snd (journal_mark_indeterminate jid code (utc t) (w_db w))"
    using assms(1) by (rule timed_undisturbed)
  from assms obtain v d' where "journal_mark_indeterminate jid code (utc t) (w_db w) = (Inr v, d')"
    "journal_at A ids d' jid (jr_state v)" "jr_journal_id v = jid"
    by (auto simp: undisturbed_def intro: journal_mark_commits)
  with run show ?thesis unfolding mark_unknown_def by (intro ended_or_recover) (simp add: ended_def)
qed

lemma consume_failed_at:
  assumes env: "undisturbed A env" and at: "journal_at A ids (w_db w) jid st"
  shows "journal_at A ids (w_db (consume_failed_permit env permit w)) jid st"
proof -
  let ?op = "ps_record_transport_failure (ae_safety env) (pp_permit_id permit)"
  obtain t w' where run: "timed env ?op w = (fst (?op (utc t) (w_db w)), w')"
    "w_db w' = snd (?op (utc t) (w_db w))" using env by (rule timed_undisturbed)
  have "ledger_inv A (snd (?op (utc t) (w_db w)))"
    using at env budget_service_changes(3) by (blast intro: changes_inv dest: journal_at_def [THEN iffD1]
        undisturbed_def [THEN iffD1])
  with at run show ?thesis by (simp add: consume_failed_permit_def journal_at_def)
qed

lemma ended_conclude:
  assumes env: "undisturbed A env" and at: "journal_at A ids (w_db w) jid Settled"
    and jid: "jr_journal_id settled = jid"
  shows "ended A ids jid (conclude env settled response w)"
proof (cases "200 \<le> tr_status response \<and> tr_status response < 300")
  case False
  with env at show ?thesis unfolding conclude_def Let_def jid
    by (auto intro!: ended_or_recover ended_fail valid_codes)
next
  case True
  show ?thesis
  proof (cases "ae_processor env")
    case None
    with True env at show ?thesis unfolding conclude_def Let_def jid
      by (auto intro!: ended_or_recover ended_complete)
  next
    case (Some process)
    obtain w' where run: "call_service env (process response) w = (fst (process response (w_db w)), w')"
      "w_db w' = snd (process response (w_db w))" using env by (rule call_undisturbed)
    have "journal_at A ids (w_db w') jid Settled"
      using at env Some run(2) by (auto simp: journal_at_def undisturbed_def)
    with True Some env run(1) show ?thesis unfolding conclude_def Let_def jid
      by (auto intro!: ended_or_recover ended_complete ended_fail valid_codes split: sum.splits)
  qed
qed

text \<open>The same for the stages that return an attempt result.\<close>

definition concluded ::
  "(pystr \<Rightarrow> g0_approval) \<Rightarrow> int list \<Rightarrow> int \<Rightarrow> (error + attempt_result) \<times> world \<Rightarrow> bool" where
  "concluded A ids jid r \<longleftrightarrow>
     (\<exists>res. fst r = Inr res \<and> ar_journal_id res = jid \<and> journal_at A ids (w_db (snd r)) jid (ar_state res))"

lemma concluded_finish_with: "ended A ids jid r \<Longrightarrow> concluded A ids jid (finish_with permit status attempted r)"
  by (cases r; cases "fst r") (auto simp: finish_with_def concluded_def ended_def attempt_result_of_def)

lemma concluded_settle:
  assumes env: "undisturbed A env" and inv: "ledger_inv A (w_db w)" "map j_id (journals (w_db w)) = ids"
    and row: "row_get j_id (jr_journal_id started) (journals (w_db w)) = Some row" "j_status row = SendStarted"
      "j_permit_id row = Some (pp_permit_id permit)" "pp_permit_id permit = ae_uuid env"
      "1 \<le> jr_journal_id started"
  shows "concluded A ids (jr_journal_id started) (settle_attempt env started permit response w)"
proof -
  let ?jid = "jr_journal_id started" and ?pid = "pp_permit_id permit"
  let ?op = "ps_record_response (ae_safety env) ?pid (tr_status response)"
  have valid: "\<forall>fp. g0_valid (A fp)" using env by (simp add: undisturbed_def)
  obtain t w1 where run: "timed env ?op w = (fst (?op (utc t) (w_db w)), w1)"
    "w_db w1 = snd (?op (utc t) (w_db w))" using env by (rule timed_undisturbed)
  have inv1: "ledger_inv A (w_db w1)" unfolding run(2)
    by (rule changes_inv [OF budget_service_changes(2) valid inv(1)])
  have row1: "row_get j_id ?jid (journals (w_db w1)) = Some row" using row(1) run(2) by simp
  have at1: "journal_at A ids (w_db w1) ?jid SendStarted" using inv1 inv(2) run(2) row1 row by (simp add: journal_at_def)
  show ?thesis
  proof (cases "fst (?op (utc t) (w_db w))")
    case (Inl e)
    then show ?thesis unfolding settle_attempt_def Let_def run(1)
      by (auto intro!: concluded_finish_with ended_mark_unknown env at1 valid_codes)
  next
    case (Inr u)
    obtain t2 w2 where run2: "timed env (journal_settle ?jid ?pid) w1 =
        (fst (journal_settle ?jid ?pid (utc t2) (w_db w1)), w2)"
      "w_db w2 = snd (journal_settle ?jid ?pid (utc t2) (w_db w1))" using env by (rule timed_undisturbed)
    have "?op (utc t) (w_db w) = (Inr u, w_db w1)" using Inr run(2) by (simp add: prod_eq_iff)
    then obtain p where "p \<in> set (permits (w_db w1))" "p_permit_id p = ?pid" "p_status p = PermitConsumed"
      using record_response_consumes by blast
    moreover have "validate_permit_id ?pid = Inr ()" using env row(4) by (simp add: undisturbed_def)
    moreover have "map j_id (journals (w_db w1)) = ids" using inv(2) run(2) by simp
    ultimately obtain v d' where v: "journal_settle ?jid ?pid (utc t2) (w_db w1) = (Inr v, d')"
      "journal_at A ids d' ?jid (jr_state v)" "jr_state v = Settled" "jr_journal_id v = ?jid"
      using journal_settle_commits [OF valid inv1 row(5) _ row1 row(2,3)] by metis
    with run2 have "ended A ids ?jid (conclude env v response w2)" using env by (intro ended_conclude) auto
    with Inr run run2 v show ?thesis unfolding settle_attempt_def Let_def
      by (auto intro: concluded_finish_with)
  qed
qed

lemma concluded_send:
  assumes env: "undisturbed A env" and inv: "ledger_inv A (w_db w)" "map j_id (journals (w_db w)) = ids"
    and row: "row_get j_id jid (journals (w_db w)) = Some row" "j_status row = SendStarted"
      "j_permit_id row = Some (pp_permit_id permit)" "pp_permit_id permit = ae_uuid env"
      "1 \<le> jid" "j_send_started_at row \<noteq> None" "started = journal_record b row"
  shows "concluded A ids jid (send_attempt env h started permit w)"
proof -
  have id: "jr_journal_id started = jid" using row(1,7) by (auto simp: journal_record_def dest: row_get_Some)
  obtain t where t: "jr_send_started_at started = Some t" using row(6,7) by (auto simp: journal_record_def)
  define cx where "cx = \<lparr>sx_journal_id = jr_journal_id started, sx_permit_id = pp_permit_id permit,
    sx_binding_hash = h, sx_send_started_at = t\<rparr>"
  define w1 where "w1 = snd (send_now env cx w)"
  have db: "w_db w1 = w_db w" using env by (simp add: w1_def send_now_def Let_def undisturbed_def)
  have at: "journal_at A ids (w_db w1) jid SendStarted" using inv row by (simp add: journal_at_def db)
  have settle: "concluded A ids jid (settle_attempt env started permit response w1)" for response
    using concluded_settle [of A env w1 ids started row permit response] env inv row id db by simp
  have unknown: "concluded A ids jid (finish_with (Some permit) None True
      (mark_unknown env jid (lit ''transport_result_unknown'') (consume_failed_permit env permit w1)))"
    by (intro concluded_finish_with ended_mark_unknown env consume_failed_at at valid_codes)
  have "send_now env cx w = (fst (send_now env cx w), w1)" by (simp add: w1_def)
  then show ?thesis
    unfolding send_attempt_def t option.case Let_def cx_def [symmetric]
    using settle unknown by (auto simp: id split: sum.splits prod.splits)
qed

lemma concluded_abandon:
  assumes env: "undisturbed A env" and at: "journal_at A ids (w_db w) jid SendStarted"
  shows "concluded A ids jid (abandon_before_send env jid permit w)"
proof -
  let ?w = "consume_failed_permit env permit w"
  have at': "journal_at A ids (w_db ?w) jid SendStarted" using env at by (rule consume_failed_at)
  then obtain row where row: "row_get j_id jid (journals (w_db ?w)) = Some row" "j_status row = SendStarted"
    and jid: "1 \<le> jid" by (auto simp: journal_at_def)
  obtain w1 where "call_service env (\<lambda>d. (journal_get jid d, d)) ?w = (journal_get jid (w_db ?w), w1)"
    "w_db w1 = w_db ?w" using call_undisturbed [OF env, of "\<lambda>d. (journal_get jid d, d)" ?w] by auto
  moreover have "journal_get jid (w_db ?w) = Inr (journal_record (backend (w_db ?w)) row)"
    using row jid by (simp add: journal_get_def validate_identifier_def)
  ultimately have "terminalize_before_send env jid ?w = mark_unknown env jid (lit ''send_start_commit_unknown'') w1"
    using row by (simp add: terminalize_before_send_def journal_record_def)
  moreover have "ended A ids jid (mark_unknown env jid (lit ''send_start_commit_unknown'') w1)"
    using at' \<open>w_db w1 = w_db ?w\<close> by (intro ended_mark_unknown env valid_codes) simp
  ultimately show ?thesis unfolding abandon_before_send_def by (intro concluded_finish_with) simp
qed

lemma concluded_started:
  assumes env: "undisturbed A env" and inv: "ledger_inv A (w_db w)" "map j_id (journals (w_db w)) = ids"
    and row: "row_get j_id (jr_journal_id journal) (journals (w_db w)) = Some row" "j_status row = SendStarted"
      "j_permit_id row = Some (pp_permit_id permit)" "pp_permit_id permit = ae_uuid env"
      "1 \<le> jr_journal_id journal" "j_send_started_at row \<noteq> None"
  shows "concluded A ids (jr_journal_id journal) (started_attempt env claim h journal permit w)"
proof (cases "pp_fingerprint permit \<noteq> c_fingerprint claim \<or> pp_request_key_hash permit \<noteq> h")
  case True
  have "journal_at A ids (w_db w) (jr_journal_id journal) SendStarted"
    using inv row by (simp add: journal_at_def)
  with env True show ?thesis by (simp add: started_attempt_def concluded_abandon)
next
  case False
  let ?jid = "jr_journal_id journal"
  obtain w1 where "call_service env (\<lambda>d. (journal_get ?jid d, d)) w = (journal_get ?jid (w_db w), w1)"
    "w_db w1 = w_db w" using call_undisturbed [OF env, of "\<lambda>d. (journal_get ?jid d, d)" w] by auto
  moreover have "journal_get ?jid (w_db w) = Inr (journal_record (backend (w_db w)) row)"
    using row by (simp add: journal_get_def validate_identifier_def)
  ultimately have "started_attempt env claim h journal permit w =
      send_attempt env h (journal_record (backend (w_db w)) row) permit w1"
    using False row by (simp add: started_attempt_def journal_record_def)
  moreover have "concluded A ids ?jid (send_attempt env h (journal_record (backend (w_db w)) row) permit w1)"
    using env inv row \<open>w_db w1 = w_db w\<close> by (intro concluded_send [of A env w1 ids ?jid row permit]) simp_all
  ultimately show ?thesis by simp
qed

lemma concluded_authorize:
  assumes env: "undisturbed A env" and at: "journal_at A ids (w_db w) (jr_journal_id journal) Claimed"
  shows "concluded A ids (jr_journal_id journal) (authorize_attempt env claim key h cost journal w)"
proof -
  let ?jid = "jr_journal_id journal"
  let ?op = "\<lambda>now. ps_authorize_live (ae_sha env) (ae_safety env) ?jid (ae_uuid env) key now cost"
  have inv: "ledger_inv A (w_db w)" and jid: "1 \<le> ?jid" and ids: "map j_id (journals (w_db w)) = ids"
    using at by (simp_all add: journal_at_def)
  have valid: "\<forall>fp. g0_valid (A fp)"
    and appr: "ps_approval (ae_safety env) = A (ps_fingerprint (ae_safety env))"
    using env by (simp_all add: undisturbed_def)
  obtain t w1 where run: "timed env ?op w = (fst (?op (utc t) (w_db w)), w1)"
    "w_db w1 = snd (?op (utc t) (w_db w))" using env by (rule timed_undisturbed)
  have inv1: "ledger_inv A (w_db w1)" unfolding run(2)
    by (rule changes_inv [OF ps_authorize_live_changes [OF appr valid inv] valid inv])
  show ?thesis
  proof (cases "fst (?op (utc t) (w_db w))")
    case (Inl e)
    then have "journals (w_db w1) = journals (w_db w)"
      unfolding run(2) by (rule authorize_live_failed_journals)
    with at inv1 have "journal_at A ids (w_db w1) ?jid Claimed" by (simp add: journal_at_def)
    with Inl run(1) env show ?thesis unfolding authorize_attempt_def
      by (auto intro!: concluded_finish_with ended_fail valid_codes)
  next
    case (Inr permit)
    then have "?op (utc t) (w_db w) = (Inr permit, w_db w1)" using run(2) by (simp add: prod_eq_iff)
    then obtain row where "row_get j_id ?jid (journals (w_db w1)) = Some row" "j_status row = SendStarted"
      "j_permit_id row = Some (pp_permit_id permit)" "j_send_started_at row \<noteq> None"
      "pp_permit_id permit = ae_uuid env" "map j_id (journals (w_db w1)) = ids"
      using ids by (auto elim: authorize_live_marks)
    then have "concluded A ids ?jid (started_attempt env claim h journal permit w1)"
      using env inv1 jid by (intro concluded_started)
    with Inr run(1) show ?thesis by (simp add: authorize_attempt_def)
  qed
qed

text \<open>
  An undisturbed execution that claimed its journal returns a result; the journal is the one row
  it added and is left in the terminal state the result reports.  Otherwise no journal was created.
\<close>

lemma execute_concludes:
  assumes env: "undisturbed A env" and inv: "ledger_inv A (w_db w)"
  shows "(\<exists>e. fst (execute env claim key cost w) = Inl e \<and>
            journals (w_db (snd (execute env claim key cost w))) = journals (w_db w)) \<or>
         (\<exists>jid. concluded A (map j_id (journals (w_db w)) @ [jid]) jid (execute env claim key cost w) \<and>
            jid = fresh_key j_id (journals (w_db w)))"
proof (cases rule: execute_cases [of env claim key cost w])
  case (rejected e)
  then show ?thesis by simp
next
  case (refused e e' w')
  let ?op = "journal_claim (c_fingerprint claim) (c_run_id claim) (c_slot_id claim) (c_request_key_hash claim)"
  obtain t w1 where "timed env ?op w = (fst (?op (utc t) (w_db w)), w1)"
    "w_db w1 = snd (?op (utc t) (w_db w))" using env by (rule timed_undisturbed)
  with refused(1) have "fst (?op (utc t) (w_db w)) = Inl e'" "w_db w' = snd (?op (utc t) (w_db w))" by auto
  moreover have "snd (?op (utc t) d) = d" if "fst (?op (utc t) d) = Inl e'" for d
    using that by (auto simp: journal_claim_def before_def on_integrity_error_def transaction_def
        split: sum.splits if_splits error.splits prod.splits)
  ultimately show ?thesis using refused(2) by simp
next
  case (claimed journal w')
  let ?op = "journal_claim (c_fingerprint claim) (c_run_id claim) (c_slot_id claim) (c_request_key_hash claim)"
  have valid: "\<forall>fp. g0_valid (A fp)" using env by (simp add: undisturbed_def)
  obtain t w1 where "timed env ?op w = (fst (?op (utc t) (w_db w)), w1)"
    "w_db w1 = snd (?op (utc t) (w_db w))" using env by (rule timed_undisturbed)
  with claimed(2) have op: "?op (utc t) (w_db w) = (Inr journal, w_db w')" by (auto simp: prod_eq_iff)
  have inv': "ledger_inv A (w_db w')"
    using changes_inv [OF journal_service_changes(1) [OF inv] valid inv] op by (metis snd_conv)
  let ?jid = "jr_journal_id journal"
  from op have "journal_at A (map j_id (journals (w_db w)) @ [?jid]) (w_db w') ?jid Claimed \<and>
      ?jid = fresh_key j_id (journals (w_db w))"
  proof (rule journal_claim_Inr)
    fix t' slot row
    assume row: "row = \<lparr>j_id = fresh_key j_id (journals (w_db w)), j_fingerprint = c_fingerprint claim,
        j_run_id = c_run_id claim, j_slot_id = c_slot_id claim,
        j_binding_hash = c_request_key_hash claim, j_permit_id = None, j_status = Claimed,
        j_failure_code = None, j_claimed_at = t', j_send_started_at = None, j_settled_at = None,
        j_resolved_at = None, j_version = 0\<rparr>"
      and "journal = journal_record (backend (w_db w)) row"
      and "w_db w' = (w_db w)\<lparr>journals := journals (w_db w) @ [row]\<rparr>"
    with inv' show ?thesis
      by (auto simp: journal_at_def journal_record_def row_get_append row_get_Cons fresh_key_pos)
  qed
  then have fresh: "?jid = fresh_key j_id (journals (w_db w))"
    and at: "journal_at A (map j_id (journals (w_db w)) @ [?jid]) (w_db w') ?jid Claimed" by blast+
  from concluded_authorize [OF env at] fresh claimed(3) show ?thesis by auto
qed

section \<open>A sample attempt\<close>

text \<open>A database with a bound run and a claimed slot, and the two transactions of an attempt on it.\<close>

definition sample_db :: db where
  "sample_db =
     (empty_db SqliteDb [1])\<lparr>
       run_budgets := [new_run_budget 1 1 (sample_fpr sample_approval)],
       slots := [\<lparr>s_id = 1, s_fingerprint = sample_fpr sample_approval, s_run_id = 1,
                  s_request_key_hash = sample_sha [], s_status = SlotClaimed, s_claimed_at = 0,
                  s_resolved_at = None\<rparr>]\<rparr>"

lemma sample_db_inv: "ledger_inv (\<lambda>_. sample_approval) sample_db"
  using ledger_inv_empty [of "\<lambda>_. sample_approval" SqliteDb "[1]"]
  by (simp add: ledger_inv_def sample_db_def empty_db_def new_run_budget_def sample_approval_valid
      checks_ok_def unique_ok_def foreign_ok_def runs_counted_def permits_in_runs_def
      flight_capped_def slots_bound_def journals_bound_def journal_of_slot_def sends_bound_def
      run_budget_ok_def slot_ok_def journal_ok_def bound_permits_def List.map_filter_def)
    (simp add: sample_approval_def)

definition sample_journal :: journal_row where
  "sample_journal = \<lparr>j_id = 1, j_fingerprint = sample_fpr sample_approval, j_run_id = 1,
                  j_slot_id = 1, j_binding_hash = sample_sha [], j_permit_id = None,
                  j_status = Claimed, j_failure_code = None, j_claimed_at = 0,
                  j_send_started_at = None, j_settled_at = None, j_resolved_at = None,
                  j_version = 0\<rparr>"

lemma sample_hashes:
  "validate_hash (sample_fpr sample_approval) = Inr (sample_fpr sample_approval)"
  "validate_hash (sample_sha s) = Inr (sample_sha s)"
  by (simp_all add: validate_hash_Inr sample_fpr_def sample_sha_def numeral_eq_Suc hex_value_def
        is_space_char_def ascii_lower_def ascii_lower_char_def)

lemma sample_claims:
  "journal_claim (sample_fpr sample_approval) 1 1 (sample_sha []) (utc 0) sample_db =
     (Inr (journal_record SqliteDb sample_journal), sample_db\<lparr>journals := [sample_journal]\<rparr>)"
  by (simp add: journal_claim_def sample_hashes before_def validate_identifier_def journal_claim_body_def
     sample_db_def row_get_Cons empty_db_def sample_journal_def fresh_key_def db_ok_def checks_ok_def unique_ok_def foreign_ok_def
      run_budget_ok_def slot_ok_def journal_ok_def new_run_budget_def transaction_def on_integrity_error_def Let_def)

lemma sample_day: "utc_date 1 = Date 1970 1 1"
  by (simp add: calendar_defs)

definition sample_daily :: daily_budget where
  "sample_daily = new_daily 1 (sample_fpr sample_approval) (Date 1970 1 1)"

definition sample_claimed :: db where "sample_claimed = sample_db\<lparr>journals := [sample_journal]\<rparr>"

lemma sample_verdict:
  "run_verdict (init_psafety sample_fpr sample_approval 1) (new_run_budget 1 1 (sample_fpr sample_approval))
     sample_daily 1 0 (sample_claimed\<lparr>daily_budgets := [sample_daily]\<rparr>) = Inr Grant"
  by (simp add: run_verdict_def new_run_budget_def init_psafety_def approval_active_def sample_approval_def
      limit_verdict_def monthly_estimated_cost_def month_start_def next_month_def cost_between_def
      global_in_flight_def authorized_after_def sample_claimed_def sample_db_def empty_db_def sample_day sample_daily_def
      new_daily_def duration_defs)

lemma sample_reserve:
  "reserve_request (init_psafety sample_fpr sample_approval 1) (lit ''permit'') (sample_sha []) 1 0 sample_claimed =
   (let d = sample_claimed\<lparr>daily_budgets := [sample_daily]\<rparr>; ps = init_psafety sample_fpr sample_approval 1;
        rb = new_run_budget 1 1 (sample_fpr sample_approval)
    in Inr (\<lparr>ad_permit = Some (granted (new_permit ps rb (lit ''permit'') (sample_sha []) 1 0 d)),
             ad_stopped_reason = None, ad_deferred = False\<rparr>,
            grant_permit ps rb sample_daily (lit ''permit'') (sample_sha []) 1 0 d))"
proof -
  have "locked_daily_budget (ps_fingerprint (init_psafety sample_fpr sample_approval 1)) (utc_date 1) sample_claimed =
     (sample_daily, sample_claimed\<lparr>daily_budgets := [sample_daily]\<rparr>)"
    by (simp add: locked_daily_budget_def sample_claimed_def sample_db_def empty_db_def init_psafety_def sample_day
        sample_daily_def Let_def fresh_key_def)
  moreover have "require_run_budget (init_psafety sample_fpr sample_approval 1) sample_claimed =
     Inr (new_run_budget 1 1 (sample_fpr sample_approval))"
    by (simp add: require_run_budget_def locked_run_budget_def init_psafety_def sample_claimed_def sample_db_def
        new_run_budget_def)
  moreover have "permits sample_claimed = []"
    by (simp add: sample_claimed_def sample_db_def empty_db_def)
  ultimately show ?thesis using sample_verdict by (simp add: reserve_request_def Let_def)
qed

definition sample_permit :: permit_row where
  "sample_permit = \<lparr>p_id = 1, p_permit_id = lit ''permit'', p_run_budget_id = 1, p_sequence = 1,
     p_request_key_hash = sample_sha [], p_fingerprint = sample_fpr sample_approval, p_estimated_cost = 0,
      p_status = PermitAuthorized, p_authorized_at = 1, p_consumed_at = None, p_response_status = None\<rparr>"

definition sample_started :: db where
  "sample_started = sample_claimed
     \<lparr>run_budgets := [(new_run_budget 1 1 (sample_fpr sample_approval))
        \<lparr>r_request_count := 1, r_in_flight := 1, r_version := 1\<rparr>],
      daily_budgets := [sample_daily\<lparr>d_request_count := 1, d_version := 1\<rparr>],
      permits := [sample_permit],
      journals := [sample_journal\<lparr>j_permit_id := Some (lit ''permit''), j_status := SendStarted,
        j_send_started_at := Some 1, j_version := 1\<rparr>]\<rparr>"

lemma sample_live_send:
  "live_send_body (init_psafety sample_fpr sample_approval 1) 1 (lit ''permit'') (sample_sha []) 1 0 sample_claimed =
     Inr (\<lparr>ad_permit = Some (granted sample_permit), ad_stopped_reason = None, ad_deferred = False\<rparr>, sample_started)"
  unfolding live_send_body_def sample_reserve Let_def
  by (simp add: start_journal_def grant_permit_def new_permit_def sample_claimed_def sample_journal_def row_get_Cons
     journal_bound_def init_psafety_def sample_db_def slot_bound_def row_update_Cons granted_def sample_permit_def
     sample_started_def new_run_budget_def sample_daily_def new_daily_def empty_db_def fresh_key_def)

lemma sample_started_ok: "db_ok sample_started"
  by (simp add: sample_started_def sample_claimed_def sample_db_def empty_db_def sample_journal_def db_ok_def checks_ok_def
      unique_ok_def foreign_ok_def sample_permit_def sample_daily_def new_daily_def new_run_budget_def
      daily_budget_ok_def run_budget_ok_def permit_ok_def slot_ok_def journal_ok_def)

lemma sample_key: "hash_request_key sample_sha (lit ''work'') = Inr (sample_sha [])"
  by (simp add: hash_request_key_def lit_def utf8_encodable_def is_surrogate_def sample_sha_def)

lemma sample_authorizes:
  "ps_authorize_live sample_sha (init_psafety sample_fpr sample_approval 1) 1 (lit ''permit'') (lit ''work'')
     (utc 1) 0 sample_claimed = (Inr (granted sample_permit), sample_started)"
  by (simp add: ps_authorize_live_def before_def validate_identifier_def transaction_def after_commit_def
      sample_key sample_live_send sample_started_ok finish_authorization_def)

text \<open>An environment that is quiet up to the send, whose sender answers 200.\<close>

definition sample_env :: "(nat \<Rightarrow> db \<Rightarrow> db) \<Rightarrow> attempt_env" where
  "sample_env others =
     \<lparr>ae_sha = sample_sha, ae_safety = init_psafety sample_fpr sample_approval 1,
      ae_clock = (\<lambda>n. utc (int n)), ae_uuid = lit ''permit'', ae_others = others,
      ae_sender = (\<lambda>cx d. Inr \<lparr>tr_status = 200, tr_content_type = [], tr_body = [], tr_headers = []\<rparr>),
      ae_processor = None\<rparr>"

lemma sample_env_undisturbed: "undisturbed (\<lambda>_. sample_approval) (sample_env (\<lambda>n d. d))"
  by (simp add: undisturbed_def sample_env_def sample_approval_valid init_psafety_def
      validate_permit_id_def lit_def)

definition sample_claim :: first_request_claim where
  "sample_claim = \<lparr>c_slot_id = 1, c_fingerprint = sample_fpr sample_approval, c_run_id = 1,
     c_request_key_hash = sample_sha [], c_claimed_at = 0\<rparr>"

definition sample_world :: world where
  "sample_world = \<lparr>w_db = sample_db, w_clock_reads = 0, w_transactions = 0, w_sent = []\<rparr>"

definition sending_world :: world where
  "sending_world = \<lparr>w_db = sample_started, w_clock_reads = 2, w_transactions = 3, w_sent = []\<rparr>"

definition sample_row :: journal_row where
  "sample_row = sample_journal\<lparr>j_permit_id := Some (lit ''permit''), j_status := SendStarted,
     j_send_started_at := Some 1, j_version := 1\<rparr>"

lemma sample_row_get: "row_get j_id 1 (journals sample_started) = Some sample_row"
  by (simp add: sample_started_def sample_row_def sample_journal_def row_get_Cons)

lemma sample_attempt_execution:
  assumes "\<And>n d. n < 3 \<Longrightarrow> others n d = d"
  shows "execute (sample_env others) sample_claim (lit ''work'') 0 sample_world =
    send_attempt (sample_env others) (sample_sha []) (journal_record SqliteDb sample_row)
      (granted sample_permit) sending_world"
proof -
  let ?env = "sample_env others"
  define w1 where "w1 = \<lparr>w_db = sample_claimed, w_clock_reads = 1, w_transactions = 1, w_sent = []\<rparr>"
  define w2 where "w2 = \<lparr>w_db = sample_started, w_clock_reads = 2, w_transactions = 2, w_sent = []\<rparr>"
  have "timed ?env (journal_claim (sample_fpr sample_approval) 1 1 (sample_sha [])) sample_world =
      (Inr (journal_record SqliteDb sample_journal), w1)"
    using assms [of 0] sample_claims
    by (simp add: timed_def call_service_def sample_env_def sample_world_def w1_def sample_claimed_def)
  moreover have "timed ?env (\<lambda>now. ps_authorize_live (ae_sha ?env) (ae_safety ?env) 1 (ae_uuid ?env) (lit ''work'') now 0) w1 =
      (Inr (granted sample_permit), w2)"
    using assms [of 1] sample_authorizes by (simp add: timed_def call_service_def sample_env_def w1_def w2_def)
  moreover have "call_service ?env (\<lambda>d. (journal_get 1 d, d)) w2 =
      (Inr (journal_record SqliteDb sample_row), sending_world)"
  proof -
    have "backend sample_started = SqliteDb"
      by (simp add: sample_started_def sample_claimed_def sample_db_def empty_db_def)
    then show ?thesis using assms [of 2] sample_row_get
      by (simp add: call_service_def sample_env_def w2_def sending_world_def journal_get_def validate_identifier_def)
  qed
  moreover have "hash_request_key (ae_sha ?env) (lit ''work'') = Inr (sample_sha [])"
    by (simp add: sample_key sample_env_def)
  moreover have "jr_journal_id (journal_record SqliteDb sample_journal) = 1"
    by (simp add: journal_record_def sample_journal_def)
  ultimately show ?thesis
    by (simp add: execute_def sample_claim_def authorize_attempt_def started_attempt_def granted_def sample_permit_def
        journal_record_def sample_row_def)
qed

lemma sample_started_inv: "ledger_inv (\<lambda>_. sample_approval) (w_db sending_world)"
proof -
  have "changes (\<lambda>_. sample_approval) sample_db (sample_db\<lparr>journals := [sample_journal]\<rparr>)"
    using journal_service_changes(1) [OF sample_db_inv, of "sample_fpr sample_approval" 1 1 "sample_sha []" "utc 0"]
    by (simp add: sample_claims)
  then have inv: "ledger_inv (\<lambda>_. sample_approval) sample_claimed"
    unfolding sample_claimed_def using sample_approval_valid sample_db_inv by (blast intro: changes_inv)
  have "changes (\<lambda>_. sample_approval) sample_claimed sample_started"
    using ps_authorize_live_changes [of "init_psafety sample_fpr sample_approval 1" "\<lambda>_. sample_approval" sample_claimed
        sample_sha 1 "lit ''permit''" "lit ''work''" "utc 1" 0] inv
    unfolding sample_authorizes by (simp add: init_psafety_def sample_approval_valid)
  then show ?thesis using inv sample_approval_valid by (auto simp: sending_world_def intro: changes_inv)
qed

lemma sent_sending_world:
  "\<exists>cx. w_sent (snd (send_attempt env h (journal_record SqliteDb sample_row) (granted sample_permit) sending_world)) =
     [(cx, sample_started, ae_others env 3 sample_started)]"
proof -
  have "jr_send_started_at (journal_record SqliteDb sample_row) = Some 1"
    by (simp add: journal_record_def sample_row_def)
  then show ?thesis
    by (auto simp: send_attempt_def send_now_def sending_world_def Let_def split: sum.splits)
qed

section \<open>Properties\<close>

text \<open>
  C6: one send, after its durable marker.  Whatever other processes do to the database between
  the coordinator's transactions and before the call, and whatever the clock, sender and processor
  return, an execution calls the sender at most once; when it does, the send marker of exactly that
  journal and permit was committed and read back in the coordinator's last transaction before the
  call, and only one turn of the other processes lies between; a returned result is terminal and
  reports truthfully whether the sender was called.  If the other processes change the ledger only as
  its services do, the journal still bears that permit and start time at the call itself.
\<close>

theorem at_most_one_marked_send:
  "sent_ok env (w_sent w) (execute env claim key cost w) \<and>
   (case fst (execute env claim key cost w) of Inl e \<Rightarrow> True | Inr res \<Rightarrow> result_ok res) \<and>
   (orderly A env \<and> ledger_inv A (w_db w) \<longrightarrow>
      (\<forall>(cx, d, d') \<in> set (drop (length (w_sent w)) (w_sent (snd (execute env claim key cost w)))).
         marker_stands cx d'))"
  using execute_sent_ok [of env w claim key cost] execute_result_ok [of env claim key cost w]
    execute_marker_stands [of A env w]
  by (auto split: sum.split)

text \<open>Here another process recovers the journal just before the call.\<close>

lemma at_most_one_marked_send_witness:
  "\<exists>cx d. marked cx d \<and> marker_stands cx (snd (journal_recover 1 (utc 50) d)) \<and>
     w_sent (snd (execute (sample_env (\<lambda>n d. if n = 3 then snd (journal_recover 1 (utc 50) d) else d))
       sample_claim (lit ''work'') 0 sample_world)) = [(cx, d, snd (journal_recover 1 (utc 50) d))]"
proof -
  define others where "others = (\<lambda>n d. if n = (3::nat) then snd (journal_recover 1 (utc 50) d) else d)"
  let ?r = "execute (sample_env others) sample_claim (lit ''work'') 0 sample_world"
  have quiet: "\<And>n d. n < 3 \<Longrightarrow> others n d = d" by (simp add: others_def)
  have "orderly (\<lambda>_. sample_approval) (sample_env others)"
    by (simp add: orderly_def sample_env_def others_def sample_approval_valid init_psafety_def
        journal_service_changes)
  with at_most_one_marked_send [of "sample_env others" sample_world sample_claim "lit ''work''" 0 "\<lambda>_. sample_approval"]
  have ok: "sent_ok (sample_env others) [] ?r"
    and stands: "\<forall>(cx, d, d') \<in> set (w_sent (snd ?r)). marker_stands cx d'"
    using sample_db_inv by (simp_all add: sample_world_def)
  obtain cx where sent: "w_sent (snd ?r) = [(cx, sample_started, others 3 sample_started)]"
    using sample_attempt_execution [of others, OF quiet] sent_sending_world [of "sample_env others"]
    by (auto simp: sample_env_def)
  with ok have "marked cx sample_started" by (auto simp: sent_ok_def)
  moreover have "marker_stands cx (others 3 sample_started)" using stands sent by simp
  ultimately show ?thesis using sent by (auto simp: others_def)
qed

text \<open>
  C7: every started journal is terminalised.  Undisturbed by other processes and with aware
  clock readings, an execution either fails without having created a journal, or returns a
  result that names the one journal it created, an identifier no row had before; that journal is
  left in the terminal state the result reports, and no other row was added or removed.
\<close>

theorem started_journal_is_terminalised:
  assumes "undisturbed A env" and "ledger_inv A (w_db w)"
    and "execute env claim key cost w = (r, w')"
  shows "case r of
      Inl e \<Rightarrow> journals (w_db w') = journals (w_db w)
    | Inr res \<Rightarrow> terminal (ar_state res) \<and> ar_journal_id res \<notin> j_id ` set (journals (w_db w)) \<and>
        map j_id (journals (w_db w')) = map j_id (journals (w_db w)) @ [ar_journal_id res] \<and>
        (\<exists>row. row_get j_id (ar_journal_id res) (journals (w_db w')) = Some row \<and>
           j_status row = ar_state res)"
proof (cases r)
  case (Inl e)
  with execute_concludes [OF assms(1,2), of claim key cost] assms(3) show ?thesis
    by (auto simp: concluded_def)
next
  case (Inr res)
  with execute_concludes [OF assms(1,2), of claim key cost] assms(3)
    execute_result_ok [of env claim key cost w res]
  show ?thesis
    using fresh_key_notin [of j_id "journals (w_db w)"]
    by (auto simp: concluded_def journal_at_def result_ok_def simp del: fresh_key_get)
qed

lemma started_journal_is_terminalised_witness:
  "\<exists>res w'. execute (sample_env (\<lambda>n d. d)) sample_claim (lit ''work'') 0 sample_world = (Inr res, w') \<and>
     terminal (ar_state res) \<and> map j_id (journals (w_db w')) = [ar_journal_id res] \<and>
     (\<exists>row. row_get j_id (ar_journal_id res) (journals (w_db w')) = Some row \<and> j_status row = ar_state res)"
proof -
  let ?r = "execute (sample_env (\<lambda>n d. d)) sample_claim (lit ''work'') 0 sample_world"
  obtain r w' where run: "?r = (r, w')" by (cases ?r)
  have "concluded (\<lambda>_. sample_approval) [1] 1 ?r"
    unfolding sample_attempt_execution [of "\<lambda>n d. d", OF refl]
    by (rule concluded_send [OF sample_env_undisturbed sample_started_inv, of _ _ sample_row])
      (use sample_row_get in \<open>simp_all add: sending_world_def sample_started_def sample_row_def sample_journal_def
         granted_def sample_permit_def sample_env_def\<close>)
  then obtain res where "r = Inr res" using run by (auto simp: concluded_def)
  moreover have "ledger_inv (\<lambda>_. sample_approval) (w_db sample_world)" "journals (w_db sample_world) = []"
    using sample_db_inv by (simp_all add: sample_world_def sample_db_def empty_db_def)
  ultimately show ?thesis
    using started_journal_is_terminalised [OF sample_env_undisturbed _ run] run by auto
qed

end
