(* ===== verification/Reconciler.thy ===== *)
theory Reconciler
  imports SendOnce
begin

text \<open>
  Reconciliation of a journal with its permanent slot,
  \<open>src/pixiv_yuri/acquisition/live_slot_reconciler.py\<close>, and the read-only operator report of
  \<open>src/pixiv_yuri/acquisition/live_attempt_report.py\<close>.  Reconciliation is four transactions;
  \<open>others n\<close> is what other processes do to the database before the \<open>n\<close>-th.
\<close>

section \<open>Reconciliation\<close>

record reconciliation_result =
  rc_journal_id :: int
  rc_journal_state :: live_state
  rc_slot_status :: slot_status
  rc_resent :: bool
  rc_network_send_confirmed :: "bool option"

definition slot_target :: "live_record \<Rightarrow> slot_status" where
  "slot_target j = (if jr_state j = Completed then SlotCompleted else SlotFailed)"

definition claim_of :: "live_record \<Rightarrow> first_request_claim" where
  "claim_of j =
     \<lparr>c_slot_id = jr_slot_id j, c_fingerprint = jr_fingerprint j, c_run_id = jr_run_id j,
      c_request_key_hash = jr_binding_hash j, c_claimed_at = jr_claimed_at j\<rparr>"

definition read_slot_status :: "first_request_claim \<Rightarrow> db \<Rightarrow> slot_status option" where
  "read_slot_status c d =
     map_option s_status
       (find (\<lambda>s. s_id s = c_slot_id c \<and> s_fingerprint s = c_fingerprint c \<and>
                  s_run_id s = c_run_id c \<and> s_request_key_hash s = c_request_key_hash c) (slots d))"

definition consume_uncertain_body :: "pystr \<Rightarrow> instant \<Rightarrow> db \<Rightarrow> error + unit \<times> db" where
  "consume_uncertain_body pid t d =
     (case find (\<lambda>p. p_permit_id p = pid) (permits d) of
        None \<Rightarrow> Inl LiveSlotReconciliation
      | Some p \<Rightarrow>
          if p_status p \<in> {PermitConsumed, PermitTransportFailed} then Inr ((), d)
          else if p_status p \<noteq> PermitAuthorized then Inl LiveSlotReconciliation
          else (case row_get r_id (p_run_budget_id p) (run_budgets d) of
             None \<Rightarrow> Inl LiveSlotReconciliation
           | Some rb \<Rightarrow>
               if r_in_flight rb < 1 then Inl LiveSlotReconciliation
               else Inr ((), d\<lparr>permits := row_update p_id (p_id p)
                      (\<lambda>_. consume_row PermitTransportFailed t None p) (permits d),
                    run_budgets := row_update r_id (r_id rb) (\<lambda>_. release_row rb)
                      (run_budgets d)\<rparr>)))"

definition consume_uncertain_permit :: "live_record \<Rightarrow> instant \<Rightarrow> db \<Rightarrow> unit outcome" where
  "consume_uncertain_permit j t d =
     (case jr_permit_id j of
        None \<Rightarrow> (Inr (), d)
      | Some pid \<Rightarrow>
          if jr_state j \<notin> {Failed, Indeterminate} then (Inr (), d)
          else transaction (consume_uncertain_body pid t) d)"

definition resolve_slot_of :: "live_record \<Rightarrow> instant \<Rightarrow> db \<Rightarrow> unit outcome" where
  "resolve_slot_of j t =
     (if slot_target j = SlotCompleted then slot_complete (claim_of j) (utc t)
      else slot_fail (claim_of j) (utc t))"

definition reconciled :: "live_record \<Rightarrow> reconciliation_result" where
  "reconciled j =
     \<lparr>rc_journal_id = jr_journal_id j, rc_journal_state = jr_state j,
      rc_slot_status = slot_target j, rc_resent = False, rc_network_send_confirmed = None\<rparr>"

text \<open>The slot transaction, with the read-back that accepts an earlier equal resolution.\<close>

definition settle_slot ::
  "(nat \<Rightarrow> db \<Rightarrow> db) \<Rightarrow> live_record \<Rightarrow> instant \<Rightarrow> db \<Rightarrow> reconciliation_result outcome" where
  "settle_slot others j t d =
     (case resolve_slot_of j t (others 2 d) of
        (Inr _, d') \<Rightarrow> (Inr (reconciled j), d')
      | (Inl e, d') \<Rightarrow>
          if e \<noteq> FirstRequestSlotBinding then (Inl LiveSlotReconciliation, d')
          else let d'' = others 3 d'
               in if read_slot_status (claim_of j) d'' = Some (slot_target j)
                  then (Inr (reconciled j), d'') else (Inl LiveSlotReconciliation, d''))"

definition reconcile ::
  "(nat \<Rightarrow> db \<Rightarrow> db) \<Rightarrow> int \<Rightarrow> pydatetime \<Rightarrow> db \<Rightarrow> reconciliation_result outcome" where
  "reconcile others jid now d =
     (case aware_utc now of
        Inl e \<Rightarrow> (Inl e, d)
      | Inr t \<Rightarrow>
          (case journal_recover jid (utc t) (others 0 d) of
             (Inl e, d') \<Rightarrow> (Inl LiveSlotReconciliation, d')
           | (Inr j, d') \<Rightarrow>
               (case consume_uncertain_permit j t (others 1 d') of
                  (Inl e, d'') \<Rightarrow> (Inl LiveSlotReconciliation, d'')
                | (Inr _, d'') \<Rightarrow> settle_slot others j t d'')))"

section \<open>The operator report\<close>

record unresolved_attempt =
  ua_journal_id :: int
  ua_run_id :: int
  ua_slot_id :: int
  ua_state :: live_state
  ua_claimed_at :: instant
  ua_send_started_at :: "instant option"
  ua_settled_at :: "instant option"

record orphan_slot =
  os_slot_id :: int
  os_run_id :: int
  os_claimed_at :: instant

record attempt_report =
  lr_generated_at :: instant
  lr_journal_counts :: "(live_state \<times> int) list"
  lr_slot_counts :: "(slot_status \<times> int) list"
  lr_unresolved_attempts :: "unresolved_attempt list"
  lr_orphan_claimed_slots :: "orphan_slot list"
  lr_truncated :: bool
  lr_read_only :: bool
  lr_authorizes_live_request :: bool

text \<open>\<open>GROUP BY status\<close>: one entry per status that occurs, in no particular order.\<close>

definition group_counts :: "('r \<Rightarrow> 's) \<Rightarrow> 'r list \<Rightarrow> ('s \<times> int) list" where
  "group_counts f rows = map (\<lambda>s. (s, count_rows (\<lambda>r. f r = s) rows)) (remdups (map f rows))"

definition unresolved_of :: "backend \<Rightarrow> journal_row \<Rightarrow> unresolved_attempt" where
  "unresolved_of b r =
     \<lparr>ua_journal_id = j_id r, ua_run_id = j_run_id r, ua_slot_id = j_slot_id r,
      ua_state = j_status r, ua_claimed_at = database_utc (load_time b (j_claimed_at r)),
      ua_send_started_at = map_option (\<lambda>t. database_utc (load_time b t)) (j_send_started_at r),
      ua_settled_at = map_option (\<lambda>t. database_utc (load_time b t)) (j_settled_at r)\<rparr>"

definition orphan_of :: "backend \<Rightarrow> slot_row \<Rightarrow> orphan_slot" where
  "orphan_of b s =
     \<lparr>os_slot_id = s_id s, os_run_id = s_run_id s,
      os_claimed_at = database_utc (load_time b (s_claimed_at s))\<rparr>"

definition unresolved_rows :: "db \<Rightarrow> journal_row list" where
  "unresolved_rows d =
     sort_key j_id (filter (\<lambda>r. j_status r \<in> {Claimed, SendStarted, Settled}) (journals d))"

definition orphan_rows :: "db \<Rightarrow> slot_row list" where
  "orphan_rows d =
     sort_key s_id (filter (\<lambda>s. s_status s = SlotClaimed \<and>
       \<not> list_ex (\<lambda>j. j_slot_id j = s_id s) (journals d)) (slots d))"

definition build_report :: "pydatetime \<Rightarrow> int \<Rightarrow> db \<Rightarrow> error + attempt_report" where
  "build_report now limit d =
     (if \<not> (1 \<le> limit \<and> limit \<le> 1000) then Inl ValueError
      else bindr (aware_utc now) (\<lambda>t.
        let unresolved = take (nat (limit + 1)) (unresolved_rows d);
            orphans = take (nat (limit + 1)) (orphan_rows d)
        in Inr \<lparr>lr_generated_at = t,
                lr_journal_counts = group_counts j_status (journals d),
                lr_slot_counts = group_counts s_status (slots d),
                lr_unresolved_attempts =
                  map (unresolved_of (backend d)) (take (nat limit) unresolved),
                lr_orphan_claimed_slots = map (orphan_of (backend d)) (take (nat limit) orphans),
                lr_truncated = (limit < int (length unresolved) \<or> limit < int (length orphans)),
                lr_read_only = True, lr_authorizes_live_request = False\<rparr>))"

section \<open>Reconciliation refines the ledger\<close>

lemma consume_uncertain_body_changes:
  assumes "consume_uncertain_body pid t d = Inr (u, d')"
  shows "changes A d d'"
proof -
  have "d' = d \<or> (\<exists>p rb. p \<in> set (permits d) \<and> p_status p = PermitAuthorized \<and>
      rb \<in> set (run_budgets d) \<and> r_id rb = p_run_budget_id p \<and> 1 \<le> r_in_flight rb \<and>
      d' = d\<lparr>permits := row_update p_id (p_id p)
               (\<lambda>_. consume_row PermitTransportFailed t None p) (permits d),
             run_budgets := row_update r_id (r_id rb) (\<lambda>_. release_row rb) (run_budgets d)\<rparr>)"
    using assms unfolding consume_uncertain_body_def
    by (auto simp: not_less dest!: find_SomeD row_get_Some split: option.splits if_splits)
  then show ?thesis
  proof (elim disjE exE conjE)
    fix p rb
    assume "p \<in> set (permits d)" "p_status p = PermitAuthorized" "rb \<in> set (run_budgets d)"
      "r_id rb = p_run_budget_id p" "1 \<le> r_in_flight rb"
      and d': "d' = d\<lparr>permits := row_update p_id (p_id p)
               (\<lambda>_. consume_row PermitTransportFailed t None p) (permits d),
             run_budgets := row_update r_id (r_id rb) (\<lambda>_. release_row rb) (run_budgets d)\<rparr>"
    then show ?thesis unfolding d' using release_row_released [of rb]
      by (intro r_into_rtranclp ledger_change.settle_permit) simp_all
  qed simp
qed

lemma consume_uncertain_changes: "changes A d (snd (consume_uncertain_permit j t d))"
  by (auto simp: consume_uncertain_permit_def split: option.splits
      intro!: transaction_changes elim: consume_uncertain_body_changes)

lemma resolve_slot_of_changes: "changes A d (snd (resolve_slot_of j t d))"
  by (simp add: resolve_slot_of_def slot_service_changes)

definition others_respect :: "(pystr \<Rightarrow> g0_approval) \<Rightarrow> (nat \<Rightarrow> db \<Rightarrow> db) \<Rightarrow> bool" where
  "others_respect A others \<longleftrightarrow> (\<forall>n d. changes A d (others n d))"

lemma settle_slot_changes:
  assumes "others_respect A others" shows "changes A d (snd (settle_slot others j t d))"
proof -
  have o: "changes A d (others n d)" for n d using assms by (simp add: others_respect_def)
  have 2: "changes A d (snd (resolve_slot_of j t (others 2 d)))"
    using o [of d 2] resolve_slot_of_changes by (rule rtranclp_trans)
  moreover from this have "changes A d (others 3 (snd (resolve_slot_of j t (others 2 d))))"
    using o by (rule rtranclp_trans)
  ultimately show ?thesis
    by (auto simp: settle_slot_def Let_def split: prod.splits sum.splits)
qed

lemma reconcile_cases:
  assumes "aware_utc now = Inr t"
  obtains (unavailable) e d1 where "journal_recover jid (utc t) (others 0 d) = (Inl e, d1)"
      "reconcile others jid now d = (Inl LiveSlotReconciliation, d1)"
  | (stuck) j d1 e d2 where "journal_recover jid (utc t) (others 0 d) = (Inr j, d1)"
      "consume_uncertain_permit j t (others 1 d1) = (Inl e, d2)"
      "reconcile others jid now d = (Inl LiveSlotReconciliation, d2)"
  | (released) j d1 d2 where "journal_recover jid (utc t) (others 0 d) = (Inr j, d1)"
      "consume_uncertain_permit j t (others 1 d1) = (Inr (), d2)"
      "reconcile others jid now d = settle_slot others j t d2"
proof -
  obtain r1 d1 where r1: "journal_recover jid (utc t) (others 0 d) = (r1, d1)" by fastforce
  show thesis
  proof (cases r1)
    case (Inl e)
    with r1 assms show thesis by (intro unavailable) (simp_all add: reconcile_def)
  next
    case (Inr j)
    obtain r2 d2 where r2: "consume_uncertain_permit j t (others 1 d1) = (r2, d2)" by fastforce
    show thesis
    proof (cases r2)
      case (Inl e)
      with r1 r2 Inr assms show thesis by (intro stuck) (simp_all add: reconcile_def)
    next
      case (Inr u)
      with r1 r2 \<open>r1 = Inr j\<close> assms show thesis by (intro released) (simp_all add: reconcile_def)
    qed
  qed
qed

lemma reconcile_changes:
  assumes others: "others_respect A others" and valid: "\<forall>fp. g0_valid (A fp)" and inv: "ledger_inv A d"
  shows "changes A d (snd (reconcile others jid now d))"
proof (cases "aware_utc now")
  case (Inl e)
  then show ?thesis by (simp add: reconcile_def)
next
  case (Inr t)
  have o: "changes A d (others n d)" for n d using others by (simp add: others_respect_def)
  have "ledger_inv A (others 0 d)" using o valid inv by (rule changes_inv)
  then have "changes A (others 0 d) (snd (journal_recover jid (utc t) (others 0 d)))"
    by (rule journal_service_changes(7))
  with o [of d 0] have 1: "changes A d (snd (journal_recover jid (utc t) (others 0 d)))"
    by (rule rtranclp_trans)
  have 2: "changes A d (snd (consume_uncertain_permit j t (others 1 d1)))" if "changes A d d1" for j d1
    using rtranclp_trans [OF rtranclp_trans [OF that o] consume_uncertain_changes] .
  from Inr show ?thesis
  proof (cases rule: reconcile_cases [of now t jid others d])
    case (unavailable e d1)
    with 1 show ?thesis by simp
  next
    case (stuck j d1 e d2)
    with 1 2 [of d1 j] show ?thesis by simp
  next
    case (released j d1 d2)
    with 1 2 [of d1 j] settle_slot_changes [OF others, of d2 j t] show ?thesis
      by (simp add: rtranclp_trans)
  qed
qed

section \<open>What a reconciliation leaves behind\<close>

definition settled_attempt :: "int \<Rightarrow> live_record \<Rightarrow> db \<Rightarrow> bool" where
  "settled_attempt jid j d \<longleftrightarrow> 1 \<le> jid \<and>
     (\<exists>row. row_get j_id jid (journals d) = Some row \<and> terminal (j_status row) \<and>
        j = journal_record (backend d) row) \<and>
     (\<forall>pid. jr_permit_id j = Some pid \<longrightarrow> jr_state j \<in> {Failed, Indeterminate} \<longrightarrow>
        (\<exists>p. find (\<lambda>p. p_permit_id p = pid) (permits d) = Some p \<and>
             p_status p \<in> {PermitConsumed, PermitTransportFailed})) \<and>
     read_slot_status (claim_of j) d = Some (slot_target j) \<and>
     (\<exists>f. validate_fingerprint (jr_fingerprint j) = Inr f)"

lemma recover_effect:
  assumes "journal_recover jid (utc t) d = (Inr j, d')"
  obtains row where "row_get j_id jid (journals d) = Some row" "1 \<le> jid"
    "j = journal_record (backend d) (recover_row t row)"
    "d' = d\<lparr>journals := row_update j_id jid (\<lambda>_. recover_row t row) (journals d)\<rparr>" "db_ok d'"
  using assms
  by (auto simp: journal_recover_def transaction_Inr with_journal_Inr validate_identifier_def
      split: if_splits)

lemma j_id_recover_row: "j_id (recover_row t row) = j_id row"
  by (simp add: recover_row_def Let_def)

lemma consume_uncertain_effect:
  assumes "consume_uncertain_permit j t d = (Inr (), d')"
  shows "journals d' = journals d" and "slots d' = slots d" and "backend d' = backend d"
    and "jr_permit_id j = Some pid \<Longrightarrow> jr_state j \<in> {Failed, Indeterminate} \<Longrightarrow>
           \<exists>p \<in> set (permits d'). p_permit_id p = pid \<and>
             p_status p \<in> {PermitConsumed, PermitTransportFailed}"
proof -
  have eff: "journals d' = journals d \<and> slots d' = slots d \<and> backend d' = backend d \<and>
      (\<exists>p \<in> set (permits d'). p_permit_id p = pid \<and> p_status p \<in> {PermitConsumed, PermitTransportFailed})"
    if run: "consume_uncertain_body pid t d = Inr ((), d')" for pid
  proof -
    obtain p where p: "p \<in> set (permits d)" "p_permit_id p = pid"
      and "(p_status p \<in> {PermitConsumed, PermitTransportFailed} \<and> d' = d) \<or>
        (\<exists>rb. d' = d\<lparr>permits := row_update p_id (p_id p)
                      (\<lambda>_. consume_row PermitTransportFailed t None p) (permits d),
                    run_budgets := row_update r_id (r_id rb) (\<lambda>_. release_row rb) (run_budgets d)\<rparr>)"
      using run unfolding consume_uncertain_body_def
      by (auto dest!: find_SomeD split: option.splits if_splits)
    then show ?thesis
    proof (elim disjE exE conjE)
      fix rb
      assume d': "d' = d\<lparr>permits := row_update p_id (p_id p)
                      (\<lambda>_. consume_row PermitTransportFailed t None p) (permits d),
                    run_budgets := row_update r_id (r_id rb) (\<lambda>_. release_row rb) (run_budgets d)\<rparr>"
      have "consume_row PermitTransportFailed t None p \<in> set (permits d')"
        using p(1) by (auto simp: d' set_row_update intro!: bexI [of _ p])
      with p(2) d' show ?thesis
        by (auto simp: consume_row_def intro!: bexI [of _ "consume_row PermitTransportFailed t None p"])
    qed (use p in auto)
  qed
  show "journals d' = journals d" "slots d' = slots d" "backend d' = backend d"
    using assms eff
    by (auto simp: consume_uncertain_permit_def transaction_Inr split: option.splits if_splits)
  show "\<exists>p \<in> set (permits d'). p_permit_id p = pid \<and> p_status p \<in> {PermitConsumed, PermitTransportFailed}"
    if "jr_permit_id j = Some pid" "jr_state j \<in> {Failed, Indeterminate}"
    using assms eff [of pid] that
    by (auto simp: consume_uncertain_permit_def transaction_Inr split: option.splits if_splits)
qed

text \<open>The slot of a journal, found by its binding.\<close>

lemma read_slot_status_Some:
  assumes "distinct (map s_id (slots d))" and "row_get s_id (c_slot_id c) (slots d) = Some s"
    and "s_fingerprint s = c_fingerprint c" "s_run_id s = c_run_id c"
    and "s_request_key_hash s = c_request_key_hash c"
  shows "read_slot_status c d = Some (s_status s)"
proof -
  have s: "s \<in> set (slots d)" "s_id s = c_slot_id c" using assms(2) by (auto dest: row_get_Some)
  have eq: "(\<lambda>x. s_id x = c_slot_id c \<and> s_fingerprint x = c_fingerprint c \<and> s_run_id x = c_run_id c \<and>
      s_request_key_hash x = c_request_key_hash c) x \<longleftrightarrow> s_id x = s_id s" if "x \<in> set (slots d)" for x
    using that assms s by (auto dest: row_key_eq)
  have "find (\<lambda>x. s_id x = c_slot_id c \<and> s_fingerprint x = c_fingerprint c \<and> s_run_id x = c_run_id c \<and>
      s_request_key_hash x = c_request_key_hash c) (slots d) = find (\<lambda>x. s_id x = s_id s) (slots d)"
    using eq by (intro find_cong) auto
  then show ?thesis
    unfolding read_slot_status_def using find_unique [OF assms(1) s(1)] by simp
qed

lemma resolve_slot_of_Inr:
  assumes inv: "ledger_inv A d" and j: "row \<in> set (journals d)" "j = journal_record b row"
    and res: "resolve_slot_of j t d = (Inr u, d')"
  shows "read_slot_status (claim_of j) d' = Some (slot_target j) \<and>
    (\<exists>f. validate_fingerprint (jr_fingerprint j) = Inr f) \<and>
    journals d' = journals d \<and> permits d' = permits d \<and> backend d' = backend d"
proof -
  have "slot_resolve (claim_of j) (slot_target j) (utc t) d = (Inr u, d')"
    using res by (auto simp: resolve_slot_of_def slot_complete_def slot_fail_def slot_target_def
        split: if_splits)
  then show ?thesis
  proof (rule slot_resolve_Inr)
    fix t' s
    assume fp: "validate_fingerprint (c_fingerprint (claim_of j)) = Inr (s_fingerprint s)"
      and s: "row_get s_id (c_slot_id (claim_of j)) (slots d) = Some s"
      and run: "s_run_id s = c_run_id (claim_of j)" "s_request_key_hash s = c_request_key_hash (claim_of j)"
      and d': "d' = d\<lparr>slots := row_update s_id (c_slot_id (claim_of j))
             (\<lambda>r. r\<lparr>s_status := slot_target j, s_resolved_at := Some t'\<rparr>) (slots d)\<rparr>"
      and ok: "db_ok d'"
    obtain s' where s': "s' \<in> set (slots d)" "journal_of_slot row s'"
      using inv j(1) unfolding ledger_inv_def journals_bound_def by blast
    have "s' = s"
      using inv s s' j(2)
      by (intro row_key_eq [of s_id "slots d"])
        (auto simp: ledger_inv_def unique_ok_def journal_of_slot_def claim_of_def journal_record_def
          dest: row_get_Some)
    then have same: "s_fingerprint s = c_fingerprint (claim_of j)"
      using s' j(2) by (simp add: journal_of_slot_def claim_of_def journal_record_def)
    define s2 where "s2 = s\<lparr>s_status := slot_target j, s_resolved_at := Some t'\<rparr>"
    have "row_get s_id (c_slot_id (claim_of j)) (slots d') = Some s2"
      unfolding d' using s by (simp add: row_get_update s2_def)
    then have "read_slot_status (claim_of j) d' = Some (s_status s2)"
      using ok same run
      by (intro read_slot_status_Some) (auto simp: db_ok_def unique_ok_def s2_def)
    with fp show ?thesis by (simp add: s2_def d' claim_of_def)
  qed
qed

abbreviation alone :: "nat \<Rightarrow> db \<Rightarrow> db" where
  "alone \<equiv> \<lambda>n d. d"

lemma settle_slot_settled:
  assumes inv: "ledger_inv A d" and j: "row_get j_id jid (journals d) = Some row" "j = journal_record (backend d) row"
    "terminal (j_status row)" "1 \<le> jid"
    and permit: "\<forall>pid. jr_permit_id j = Some pid \<longrightarrow> jr_state j \<in> {Failed, Indeterminate} \<longrightarrow>
        (\<exists>p \<in> set (permits d). p_permit_id p = pid \<and> p_status p \<in> {PermitConsumed, PermitTransportFailed})"
    and run: "settle_slot alone j t d = (Inr res, d')"
  shows "res = reconciled j" and "settled_attempt jid j d'"
proof -
  have mem: "row \<in> set (journals d)" using j(1) by (auto dest: row_get_Some)
  have found: "\<forall>pid. jr_permit_id j = Some pid \<longrightarrow> jr_state j \<in> {Failed, Indeterminate} \<longrightarrow>
        (\<exists>p. find (\<lambda>p. p_permit_id p = pid) (permits d) = Some p \<and>
             p_status p \<in> {PermitConsumed, PermitTransportFailed})"
    using permit inv find_unique [of p_permit_id "permits d"]
    by (fastforce simp: ledger_inv_def unique_ok_def)
  obtain r d1 where r: "resolve_slot_of j t d = (r, d1)" by fastforce
  show "res = reconciled j" using run r by (auto simp: settle_slot_def split: sum.splits if_splits)
  show "settled_attempt jid j d'"
  proof (cases r)
    case (Inr u)
    with run r have "d' = d1" by (simp add: settle_slot_def)
    with resolve_slot_of_Inr [OF inv mem j(2), of t u d1] r Inr found j show ?thesis
      by (simp add: settled_attempt_def)
  next
    case (Inl e)
    with run r have e: "e = FirstRequestSlotBinding" and d': "d' = d1"
      and st: "read_slot_status (claim_of j) d1 = Some (slot_target j)"
      by (auto simp: settle_slot_def split: if_splits)
    have res: "slot_resolve (claim_of j) (slot_target j) (utc t) d = (Inl e, d1)"
      using r Inl by (auto simp: resolve_slot_of_def slot_complete_def slot_fail_def slot_target_def
          split: if_splits)
    then have "d1 = d" using slot_resolve_error [of "claim_of j" "slot_target j" "utc t" d e] by simp
    moreover have "\<exists>f. validate_fingerprint (c_fingerprint (claim_of j)) = Inr f"
      using res e by (cases "validate_fingerprint (c_fingerprint (claim_of j))")
        (auto simp: slot_resolve_def validate_fingerprint_def split: if_splits option.splits)
    ultimately show ?thesis using found j st d'
      by (simp add: settled_attempt_def claim_of_def)
  qed
qed

lemma reconcile_settles:
  assumes inv: "ledger_inv A d" and valid: "\<forall>fp. g0_valid (A fp)"
    and run: "reconcile alone jid now d = (Inr res, d')"
  obtains j where "res = reconciled j" "settled_attempt jid j d'"
proof -
  obtain t where t: "aware_utc now = Inr t" using run by (cases "aware_utc now") (auto simp: reconcile_def)
  from t show thesis
  proof (cases rule: reconcile_cases [of now t jid alone d])
    case (released j d1 d2)
    from released(1) obtain row where row: "row_get j_id jid (journals d) = Some row" "1 \<le> jid"
      "j = journal_record (backend d) (recover_row t row)"
      "d1 = d\<lparr>journals := row_update j_id jid (\<lambda>_. recover_row t row) (journals d)\<rparr>"
      by (rule recover_effect)
    have inv1: "ledger_inv A d1"
      using changes_inv [OF journal_service_changes(7) [OF inv] valid inv, of jid "utc t"] released(1) by simp
    have inv2: "ledger_inv A d2"
      using changes_inv [OF consume_uncertain_changes valid inv1, of j t] released(2) by simp
    have id: "j_id row = jid" "row \<in> set (journals d)" using row(1) by (auto dest: row_get_Some)
    have "recover_row t row \<in> set (journals d1)"
      using id by (auto simp: row(4) set_row_update intro!: bexI [of _ row])
    moreover have "distinct (map j_id (journals d1))" using inv1 by (simp add: ledger_inv_def unique_ok_def)
    ultimately have get1: "row_get j_id jid (journals d1) = Some (recover_row t row)"
      using row_get_unique [of j_id "journals d1" "recover_row t row"] id(1) by (simp add: j_id_recover_row)
    note eff = consume_uncertain_effect [OF released(2)]
    have "settle_slot alone j t d2 = (Inr res, d')" using released(3) run by simp
    moreover have "row_get j_id jid (journals d2) = Some (recover_row t row)" using get1 eff(1) by simp
    moreover have "j = journal_record (backend d2) (recover_row t row)" using row(3,4) eff(3) by simp
    moreover have "terminal (j_status (recover_row t row))" by (rule recover_row_terminal)
    ultimately show thesis
      using settle_slot_settled [OF inv2 _ _ _ row(2), of "recover_row t row" j t res d'] eff(4)
      by (intro that) blast+
  qed (use run in simp_all)
qed

text \<open>Reconciling again changes nothing and returns the same result.\<close>

lemma reconcile_settled:
  assumes inv: "ledger_inv A d" and settled: "settled_attempt jid j d" and now: "aware_utc now = Inr t"
  shows "reconcile alone jid now d = (Inr (reconciled j), d)"
proof -
  obtain row where row: "row_get j_id jid (journals d) = Some row" "terminal (j_status row)"
    "j = journal_record (backend d) row" and jid: "1 \<le> jid"
    and slot: "read_slot_status (claim_of j) d = Some (slot_target j)"
    using settled by (auto simp: settled_attempt_def)
  have ok: "db_ok d" using inv by (rule ledger_inv_db_ok)
  have "distinct (map j_id (journals d))" using inv by (simp add: ledger_inv_def unique_ok_def)
  then have "row_update j_id jid (\<lambda>_. row) (journals d) = journals d"
    using row(1) by (auto simp: row_update_def intro!: map_idI dest!: row_get_Some dest: row_key_eq)
  then have 1: "journal_recover jid (utc t) d = (Inr j, d)"
    using row jid ok recover_row_fixed [OF row(2), of t]
    by (simp add: journal_recover_def validate_identifier_def transaction_Inr with_journal_Inr)
  have 2: "consume_uncertain_permit j t d = (Inr (), d)"
    using settled ok
    by (auto simp: settled_attempt_def consume_uncertain_permit_def transaction_Inr
        consume_uncertain_body_def split: option.splits)
  obtain s where s: "s_id s = c_slot_id (claim_of j)" "s \<in> set (slots d)" "s_status s = slot_target j"
    using slot by (auto simp: read_slot_status_def dest: find_SomeD)
  have "row_get s_id (c_slot_id (claim_of j)) (slots d) = Some s"
    using row_get_unique [of s_id "slots d" s] s inv by (simp add: ledger_inv_def unique_ok_def)
  moreover obtain f where "validate_fingerprint (c_fingerprint (claim_of j)) = Inr f"
    using settled by (auto simp: settled_attempt_def claim_of_def)
  moreover have "s_status s \<noteq> SlotClaimed" using s(3) by (simp add: slot_target_def)
  ultimately have "slot_resolve (claim_of j) st (utc t) d = (Inl FirstRequestSlotBinding, d)" for st
    by (auto simp: slot_resolve_def slot_resolve_body_def transaction_def)
  then have "resolve_slot_of j t d = (Inl FirstRequestSlotBinding, d)"
    by (simp add: resolve_slot_of_def slot_complete_def slot_fail_def)
  then have 3: "settle_slot alone j t d = (Inr (reconciled j), d)"
    using slot by (simp add: settle_slot_def)
  from 1 2 3 now show ?thesis by (simp add: reconcile_def)
qed

section \<open>When a reconciliation succeeds\<close>

lemma recover_commits:
  assumes inv: "ledger_inv A d" and valid: "\<forall>fp. g0_valid (A fp)" and row: "row \<in> set (journals d)"
    and jid: "1 \<le> j_id row"
  shows "\<exists>d'. journal_recover (j_id row) (utc t) d =
    (Inr (journal_record (backend d) (recover_row t row)), d')"
proof -
  let ?f = "\<lambda>_ row. Inr (recover_row t row) :: error + journal_row"
  have get: "row_get j_id (j_id row) (journals d) = Some row"
    using inv row by (intro row_get_unique) (auto simp: ledger_inv_def unique_ok_def)
  define d' where "d' = d\<lparr>journals := row_update j_id (j_id row) (\<lambda>_. recover_row t row) (journals d)\<rparr>"
  have body: "with_journal (j_id row) ?f d = Inr (journal_record (backend d) (recover_row t row), d')"
    using get by (auto simp: with_journal_Inr d'_def)
  have "changes A d d'"
    using inv body by (rule with_journal_changes)
      (use resolve_move(4) journal_row_ok [OF inv] in auto)
  then have "db_ok d'" using valid inv by (blast intro: changes_inv ledger_inv_db_ok)
  with body jid show ?thesis
    by (auto simp: journal_recover_def validate_identifier_def transaction_Inr)
qed

lemma consume_uncertain_commits:
  assumes inv: "ledger_inv A d" and valid: "\<forall>fp. g0_valid (A fp)"
    and none: "\<forall>p \<in> set (permits d). p_status p \<noteq> PermitCancelled"
    and row: "row \<in> set (journals d)" "j = journal_record b row"
  shows "\<exists>d'. consume_uncertain_permit j t d = (Inr (), d')"
proof (cases "j_permit_id row")
  case None
  with row(2) show ?thesis by (simp add: consume_uncertain_permit_def journal_record_def)
next
  case (Some pid)
  obtain p where p: "permit_for d row p" "p_permit_id p = pid"
    using inv row(1) Some by (rule permit_bound_ex)
  have mem: "p \<in> set (permits d)" using p(1) by (simp add: permit_for_def)
  have find: "find (\<lambda>p. p_permit_id p = pid) (permits d) = Some p"
    using find_unique [of p_permit_id "permits d" p] mem p(2) inv
    by (simp add: ledger_inv_def unique_ok_def)
  obtain rb where rb: "rb \<in> set (run_budgets d)" "r_id rb = p_run_budget_id p"
    using inv mem unfolding ledger_inv_def permits_in_runs_def by blast
  have get: "row_get r_id (p_run_budget_id p) (run_budgets d) = Some rb"
    using row_get_unique [of r_id "run_budgets d" rb] rb inv by (simp add: ledger_inv_def unique_ok_def)
  have flight: "1 \<le> r_in_flight rb" if "p_status p = PermitAuthorized"
  proof -
    have "r_in_flight rb = count_rows (\<lambda>p. p_run_budget_id p = r_id rb \<and> p_status p = PermitAuthorized) (permits d)"
      using inv rb(1) by (simp add: ledger_inv_def runs_counted_def)
    moreover have "count_rows (\<lambda>p. p_run_budget_id p = r_id rb \<and> p_status p = PermitAuthorized) (permits d) \<noteq> 0"
      using mem that rb(2) by (auto simp: count_rows_eq_0)
    ultimately show ?thesis
      using count_rows_nonneg [of "\<lambda>p. p_run_budget_id p = r_id rb \<and> p_status p = PermitAuthorized" "permits d"]
      by linarith
  qed
  obtain d' where body: "consume_uncertain_body pid t d = Inr ((), d')"
    using find get flight none mem
    by (cases "p_status p") (auto simp: consume_uncertain_body_def)
  have "db_ok d'"
    using changes_inv [OF consume_uncertain_body_changes [OF body] valid inv] by (rule ledger_inv_db_ok)
  with body Some row(2) show ?thesis
    by (auto simp: consume_uncertain_permit_def journal_record_def transaction_Inr)
qed

text \<open>The slot of the journal is still claimed, or already has the outcome the journal has.\<close>

definition slot_agrees :: "journal_row \<Rightarrow> slot_row \<Rightarrow> bool" where
  "slot_agrees row s \<longleftrightarrow>
     validate_fingerprint (s_fingerprint s) = Inr (s_fingerprint s) \<and>
     (s_status s = SlotClaimed \<or> (s_status s = SlotCompleted) = (j_status row = Completed))"

lemma settle_slot_succeeds:
  assumes inv: "ledger_inv A d" and valid: "\<forall>fp. g0_valid (A fp)"
    and j: "j = journal_record b row" and s: "s \<in> set (slots d)" "journal_of_slot row s"
    and agrees: "slot_agrees row s"
  shows "\<exists>d'. settle_slot alone j t d = (Inr (reconciled j), d')"
proof -
  have dist: "distinct (map s_id (slots d))" using inv by (simp add: ledger_inv_def unique_ok_def)
  have get: "row_get s_id (c_slot_id (claim_of j)) (slots d) = Some s"
    using row_get_unique [OF dist s(1)] s(2) j
    by (simp add: journal_of_slot_def claim_of_def journal_record_def)
  have same: "s_fingerprint s = c_fingerprint (claim_of j)" "s_run_id s = c_run_id (claim_of j)"
    "s_request_key_hash s = c_request_key_hash (claim_of j)"
    using s(2) j by (simp_all add: journal_of_slot_def claim_of_def journal_record_def)
  have fp: "validate_fingerprint (c_fingerprint (claim_of j)) = Inr (c_fingerprint (claim_of j))"
    using agrees same by (simp add: slot_agrees_def)
  let ?st = "slot_target j"
  have res: "resolve_slot_of j t d = slot_resolve (claim_of j) ?st (utc t) d"
    by (auto simp: resolve_slot_of_def slot_complete_def slot_fail_def slot_target_def)
  show ?thesis
  proof (cases "s_status s = SlotClaimed")
    case True
    define d' where "d' = d\<lparr>slots := row_update s_id (c_slot_id (claim_of j))
      (\<lambda>r. r\<lparr>s_status := ?st, s_resolved_at := Some t\<rparr>) (slots d)\<rparr>"
    have body: "slot_resolve_body (claim_of j) (c_fingerprint (claim_of j)) ?st t d = Inr ((), d')"
      using get same True by (simp add: slot_resolve_body_def d'_def)
    have "changes A d d'"
      using slot_resolve_body_changes [OF body] by (simp add: slot_target_def)
    then have "db_ok d'" using changes_inv [OF _ valid inv] by (blast intro: ledger_inv_db_ok)
    then have "slot_resolve (claim_of j) ?st (utc t) d = (Inr (), d')"
      using body fp by (simp add: slot_resolve_def transaction_Inr)
    with res show ?thesis by (simp add: settle_slot_def)
  next
    case False
    then have st: "s_status s = ?st"
      using agrees j by (cases "s_status s") (auto simp: slot_agrees_def slot_target_def journal_record_def)
    have "slot_resolve (claim_of j) ?st (utc t) d = (Inl FirstRequestSlotBinding, d)"
      using get same False fp by (simp add: slot_resolve_def slot_resolve_body_def transaction_def)
    moreover have "read_slot_status (claim_of j) d = Some ?st"
      using read_slot_status_Some [OF dist get same] st by simp
    ultimately show ?thesis using res by (simp add: settle_slot_def)
  qed
qed

lemma recover_row_binding:
  "journal_of_slot (recover_row t row) s = journal_of_slot row s"
  "slot_agrees (recover_row t row) s = slot_agrees row s"
  by (cases "j_status row"; simp add: recover_row_def Let_def journal_of_slot_def slot_agrees_def)+

lemma reconcile_succeeds:
  assumes inv: "ledger_inv A d" and valid: "\<forall>fp. g0_valid (A fp)"
    and row: "row \<in> set (journals d)" "1 \<le> j_id row"
    and slot: "\<forall>s \<in> set (slots d). journal_of_slot row s \<longrightarrow> slot_agrees row s"
    and none: "\<forall>p \<in> set (permits d). p_status p \<noteq> PermitCancelled"
    and now: "aware_utc now = Inr t"
  shows "\<exists>res d'. reconcile alone (j_id row) now d = (Inr res, d')"
proof -
  let ?row = "recover_row t row"
  obtain d1 where 1: "journal_recover (j_id row) (utc t) d = (Inr (journal_record (backend d) ?row), d1)"
    using recover_commits [OF inv valid row] by blast
  obtain s where s: "s \<in> set (slots d)" "journal_of_slot row s"
    using inv row(1) unfolding ledger_inv_def journals_bound_def by blast
  from 1 obtain row0 where "row_get j_id (j_id row) (journals d) = Some row0" and
    d1: "d1 = d\<lparr>journals := row_update j_id (j_id row) (\<lambda>_. recover_row t row0) (journals d)\<rparr>"
    by (rule recover_effect)
  then have "row0 = row"
    using row_get_unique [of j_id "journals d" row] row(1) inv by (simp add: ledger_inv_def unique_ok_def)
  have mem: "?row \<in> set (journals d1)"
    using row(1) by (auto simp: d1 \<open>row0 = row\<close> set_row_update intro!: bexI [of _ row])
  have inv1: "ledger_inv A d1"
    using changes_inv [OF journal_service_changes(7) [OF inv] valid inv, of "j_id row" "utc t"] 1 by simp
  let ?j = "journal_record (backend d) ?row"
  obtain d2 where 2: "consume_uncertain_permit ?j t d1 = (Inr (), d2)"
    using consume_uncertain_commits [OF inv1 valid _ mem refl, of "backend d" t] none d1 by auto
  have inv2: "ledger_inv A d2"
    using changes_inv [OF consume_uncertain_changes valid inv1, of ?j t] 2 by simp
  have "s \<in> set (slots d2)" using s(1) consume_uncertain_effect(2) [OF 2] by (simp add: d1)
  then obtain d3 where 3: "settle_slot alone ?j t d2 = (Inr (reconciled ?j), d3)"
    using settle_slot_succeeds [OF inv2 valid refl, of s ?row] s slot recover_row_binding by blast
  from 1 2 3 now show ?thesis by (auto simp: reconcile_def)
qed

section \<open>Properties\<close>

text \<open>
  C8: reconciliation is idempotent.  After a successful reconciliation a second one, at any
  time, returns the same result and leaves the database exactly as it is.
\<close>

theorem reconciliation_is_idempotent:
  assumes "\<forall>fp. g0_valid (A fp)" and "ledger_inv A d"
    and "reconcile (\<lambda>n d. d) jid now d = (Inr res, d')" and "aware_utc now' = Inr t'"
  shows "reconcile (\<lambda>n d. d) jid now' d' = (Inr res, d')"
proof -
  obtain j where j: "res = reconciled j" "settled_attempt jid j d'"
    using assms(2,1,3) by (rule reconcile_settles)
  have "changes A d d'"
    using reconcile_changes [OF _ assms(1,2), of alone jid now] assms(3) by (simp add: others_respect_def)
  then have "ledger_inv A d'" using assms(1,2) by (rule changes_inv)
  from reconcile_settled [OF this j(2) assms(4)] j(1) show ?thesis by simp
qed

text \<open>
  C9: what reconciliation achieves.  On success the journal is terminal, the slot has the
  outcome of the journal, and the permit of a failed or indeterminate journal is no longer in
  flight; nothing was resent.
\<close>

theorem reconciliation_resolves:
  assumes "\<forall>fp. g0_valid (A fp)" and "ledger_inv A d"
    and "reconcile (\<lambda>n d. d) jid now d = (Inr res, d')"
  shows "\<exists>j. settled_attempt jid j d' \<and> terminal (rc_journal_state res) \<and>
    rc_journal_state res = jr_state j \<and>
    (rc_slot_status res = SlotCompleted \<longleftrightarrow> jr_state j = Completed) \<and>
    read_slot_status (claim_of j) d' = Some (rc_slot_status res) \<and> \<not> rc_resent res"
proof -
  obtain j where j: "res = reconciled j" "settled_attempt jid j d'"
    using assms(2,1,3) by (rule reconcile_settles)
  then show ?thesis
    by (intro exI [of _ j])
      (auto simp: settled_attempt_def reconciled_def slot_target_def journal_record_def)
qed

text \<open>
  C10: reconciliation succeeds.  For every journal of a database that satisfies the invariant
  and has no cancelled permit, whose slot is still claimed or already has the journal's
  outcome, one reconciliation with an aware time returns a result.
\<close>

theorem reconciliation_succeeds:
  assumes "\<forall>fp. g0_valid (A fp)" and "ledger_inv A d" and "row \<in> set (journals d)" and "1 \<le> j_id row"
    and "\<forall>s \<in> set (slots d). journal_of_slot row s \<longrightarrow> slot_agrees row s"
    and "\<forall>p \<in> set (permits d). p_status p \<noteq> PermitCancelled" and "aware_utc now = Inr t"
  shows "is_ok (fst (reconcile (\<lambda>n d. d) (j_id row) now d))"
  using reconcile_succeeds [OF assms(2,1,3-7)] by auto

text \<open>A database with one claimed slot and one claimed journal.\<close>

definition sample_slot_db :: db where
  "sample_slot_db =
     (empty_db SqliteDb [1])\<lparr>
       run_budgets := [new_run_budget 1 1 (sample_fpr sample_approval)],
       slots := [\<lparr>s_id = 1, s_fingerprint = sample_fpr sample_approval, s_run_id = 1,
                  s_request_key_hash = sample_sha [], s_status = SlotClaimed, s_claimed_at = 0,
                  s_resolved_at = None\<rparr>],
       journals := [\<lparr>j_id = 1, j_fingerprint = sample_fpr sample_approval, j_run_id = 1,
                  j_slot_id = 1, j_binding_hash = sample_sha [], j_permit_id = None,
                  j_status = Claimed, j_failure_code = None, j_claimed_at = 0,
                  j_send_started_at = None, j_settled_at = None, j_resolved_at = None,
                  j_version = 0\<rparr>]\<rparr>"

lemma sample_slot_db_inv: "ledger_inv (\<lambda>_. sample_approval) sample_slot_db"
  using ledger_inv_empty [of "\<lambda>_. sample_approval" SqliteDb "[1]"]
  by (simp add: ledger_inv_def sample_slot_db_def empty_db_def new_run_budget_def sample_approval_valid
      checks_ok_def unique_ok_def foreign_ok_def runs_counted_def permits_in_runs_def
      flight_capped_def slots_bound_def journals_bound_def journal_of_slot_def sends_bound_def
      run_budget_ok_def slot_ok_def journal_ok_def bound_permits_def List.map_filter_def)
    (simp add: sample_approval_def)

lemma reconciliation_succeeds_witness:
  "is_ok (fst (reconcile (\<lambda>n d. d) 1 (utc 5) sample_slot_db))"
proof -
  have fp: "validate_fingerprint (sample_fpr sample_approval) = Inr (sample_fpr sample_approval)"
    by (simp add: validate_fingerprint_Inr sample_fpr_def numeral_eq_Suc hex_value_def
        is_space_char_def ascii_lower_def ascii_lower_char_def)
  obtain row where row: "row \<in> set (journals sample_slot_db)" "j_id row = 1"
    by (simp add: sample_slot_db_def)
  have "is_ok (fst (reconcile (\<lambda>n d. d) (j_id row) (utc 5) sample_slot_db))"
    by (rule reconciliation_succeeds [OF _ sample_slot_db_inv row(1)])
      (use row fp in \<open>auto simp: sample_approval_valid sample_slot_db_def slot_agrees_def empty_db_def\<close>)
  with row(2) show ?thesis by simp
qed

text \<open>Witnesses of C8 and C9: what the sample database reconciles to, and reconciles to again.\<close>

lemma sample_reconcile:
  obtains res d' where "reconcile (\<lambda>n d. d) 1 (utc 5) sample_slot_db = (Inr res, d')"
proof -
  have fp: "validate_fingerprint (sample_fpr sample_approval) = Inr (sample_fpr sample_approval)"
    by (simp add: validate_fingerprint_Inr sample_fpr_def numeral_eq_Suc hex_value_def
        is_space_char_def ascii_lower_def ascii_lower_char_def)
  obtain row where row: "row \<in> set (journals sample_slot_db)" "j_id row = 1"
    by (simp add: sample_slot_db_def)
  have "\<exists>res d'. reconcile alone (j_id row) (utc 5) sample_slot_db = (Inr res, d')"
    by (rule reconcile_succeeds [OF sample_slot_db_inv _ row(1)])
      (use row fp in \<open>auto simp: sample_approval_valid sample_slot_db_def slot_agrees_def empty_db_def\<close>)
  with row(2) that show thesis by auto
qed

lemma reconciliation_is_idempotent_witness:
  "reconcile (\<lambda>n d. d) 1 (utc 9) (snd (reconcile (\<lambda>n d. d) 1 (utc 5) sample_slot_db)) =
     reconcile (\<lambda>n d. d) 1 (utc 5) sample_slot_db"
proof -
  obtain res d' where run: "reconcile (\<lambda>n d. d) 1 (utc 5) sample_slot_db = (Inr res, d')"
    by (rule sample_reconcile)
  have "reconcile (\<lambda>n d. d) 1 (utc 9) d' = (Inr res, d')"
    by (rule reconciliation_is_idempotent [OF _ sample_slot_db_inv run])
      (simp_all add: sample_approval_valid)
  with run show ?thesis by simp
qed

lemma reconciliation_resolves_witness:
  "\<exists>j. settled_attempt 1 j (snd (reconcile (\<lambda>n d. d) 1 (utc 5) sample_slot_db))"
proof -
  obtain res d' where run: "reconcile (\<lambda>n d. d) 1 (utc 5) sample_slot_db = (Inr res, d')"
    by (rule sample_reconcile)
  have "\<exists>j. settled_attempt 1 j d'"
    using reconciliation_resolves [OF _ sample_slot_db_inv run] by (auto simp: sample_approval_valid)
  with run show ?thesis by simp
qed

end
