(* ===== verification/Utf8.thy ===== *)
theory Utf8
  imports Prelude
begin

text \<open>
  \<open>str.encode("utf-8")\<close> and the strict \<open>bytes.decode("utf-8")\<close> of the Python standard
  library, which several components apply to operator input and responses, and that decoding
  undoes encoding.
\<close>

section \<open>UTF-8\<close>

text \<open>\<open>str.encode("utf-8")\<close> of one code point, and strict \<open>bytes.decode("utf-8")\<close>.\<close>

definition utf8_char :: "nat \<Rightarrow> nat list" where
  "utf8_char c =
     (if c < 128 then [c]
      else if c < 2048 then [192 + c div 64, 128 + c mod 64]
      else if c < 65536 then [224 + c div 4096, 128 + c div 64 mod 64, 128 + c mod 64]
      else [240 + c div 262144, 128 + c div 4096 mod 64, 128 + c div 64 mod 64, 128 + c mod 64])"

definition utf8_encode :: "pystr \<Rightarrow> nat list" where
  "utf8_encode s = concat (map utf8_char s)"

definition is_code_point :: "nat \<Rightarrow> bool" where
  "is_code_point c \<longleftrightarrow> c < 1114112 \<and> \<not> is_surrogate c"

definition is_cont :: "nat \<Rightarrow> bool" where
  "is_cont b \<longleftrightarrow> 128 \<le> b \<and> b < 192"

fun utf8_decode :: "nat list \<Rightarrow> pystr option" where
  "utf8_decode [] = Some []"
| "utf8_decode (a # bs) =
     (if a < 128 then map_option (\<lambda>s. a # s) (utf8_decode bs)
      else if 194 \<le> a \<and> a < 224 then
        (case bs of
           b # bs' \<Rightarrow>
             if is_cont b then map_option (\<lambda>s. ((a - 192) * 64 + (b - 128)) # s) (utf8_decode bs')
             else None
         | _ \<Rightarrow> None)
      else if 224 \<le> a \<and> a < 240 then
        (case bs of
           b # c # bs' \<Rightarrow>
             let v = (a - 224) * 4096 + (b - 128) * 64 + (c - 128)
             in if is_cont b \<and> is_cont c \<and> 2048 \<le> v \<and> \<not> is_surrogate v
                then map_option (\<lambda>s. v # s) (utf8_decode bs') else None
         | _ \<Rightarrow> None)
      else if 240 \<le> a \<and> a < 245 then
        (case bs of
           b # c # d # bs' \<Rightarrow>
             let v = (a - 240) * 262144 + (b - 128) * 4096 + (c - 128) * 64 + (d - 128)
             in if is_cont b \<and> is_cont c \<and> is_cont d \<and> 65536 \<le> v \<and> v < 1114112
                then map_option (\<lambda>s. v # s) (utf8_decode bs') else None
         | _ \<Rightarrow> None)
      else None)"

section \<open>Decoding undoes encoding\<close>

lemma base64_digits:
  assumes "a = b * 64 + r" and "b = c * 64 + s" and "c = e * 64 + (t::nat)"
  shows "a = e * 262144 + t * 4096 + s * 64 + r" and "a = c * 4096 + s * 64 + r"
  using assms by simp_all

lemma split_64: "c = c div 64 * 64 + c mod (64::nat)"
  by simp

lemma split_bytes:
  fixes c :: nat
  shows "c = c div 4096 * 4096 + c div 64 mod 64 * 64 + c mod 64"
    and "c = c div 262144 * 262144 + c div 4096 mod 64 * 4096 + c div 64 mod 64 * 64 + c mod 64"
proof -
  have e: "c div 4096 = c div 64 div 64" "c div 262144 = c div 64 div 64 div 64"
    by (simp_all add: div_mult2_eq [symmetric])
  show "c = c div 4096 * 4096 + c div 64 mod 64 * 64 + c mod 64"
    "c = c div 262144 * 262144 + c div 4096 mod 64 * 4096 + c div 64 mod 64 * 64 + c mod 64"
    unfolding e by (rule base64_digits [OF split_64 split_64 split_64])+
qed

lemma is_cont_mod [simp]: "is_cont (128 + n mod 64)"
  by (simp add: is_cont_def)

lemma div_less_bound: "(c::nat) < k * n \<Longrightarrow> c div n < k"
  by (simp add: less_mult_imp_div_less)

lemma utf8_decode_char:
  assumes "is_code_point c"
  shows "utf8_decode (utf8_char c @ bs) = map_option (\<lambda>s. c # s) (utf8_decode bs)"
proof -
  consider "c < 128" | "128 \<le> c" "c < 2048" | "2048 \<le> c" "c < 65536" | "65536 \<le> c" "c < 1114112"
    using assms unfolding is_code_point_def by linarith
  then show ?thesis
  proof cases
    case 1
    then show ?thesis by (simp add: utf8_char_def)
  next
    case 2
    have "2 \<le> c div 64" using 2(1) div_le_mono [of 128 c 64] by simp
    moreover have "192 + c div 64 < 224" using div_less_bound [of c 32 64] 2(2) by simp
    ultimately show ?thesis using 2 split_64 [of c, symmetric] by (auto simp: utf8_char_def)
  next
    case 3
    have "c div 4096 < 16" using 3(2) by (intro div_less_bound) simp
    moreover have "\<not> is_surrogate c" using assms by (simp add: is_code_point_def)
    ultimately show ?thesis using 3 split_bytes(1) [of c, symmetric]
      by (simp add: utf8_char_def Let_def)
  next
    case 4
    have "c div 262144 < 5" using 4(2) by (intro div_less_bound) simp
    then show ?thesis using 4 split_bytes(2) [of c, symmetric] by (simp add: utf8_char_def Let_def)
  qed
qed

lemma utf8_decode_encode: "list_all is_code_point s \<Longrightarrow> utf8_decode (utf8_encode s) = Some s"
  by (induction s) (simp_all add: utf8_encode_def utf8_decode_char)

lemma utf8_encode_Nil_iff [simp]: "utf8_encode s = [] \<longleftrightarrow> s = []"
  by (cases s) (auto simp: utf8_encode_def utf8_char_def)

text \<open>Carriage return and line feed keep their bytes, and no other character has them.\<close>

lemma utf8_char_ascii: "b < 128 \<Longrightarrow> b \<in> set (utf8_char c) \<longleftrightarrow> c = b"
  by (auto simp: utf8_char_def split: if_splits)

lemma utf8_encode_ascii: "b < 128 \<Longrightarrow> b \<in> set (utf8_encode s) \<longleftrightarrow> b \<in> set s"
  by (induction s) (auto simp: utf8_encode_def utf8_char_ascii)

text \<open>A \<open>str\<close> holds code points; two that encode have different bytes.\<close>

definition is_text :: "pystr \<Rightarrow> bool" where
  "is_text s \<longleftrightarrow> list_all (\<lambda>c. c < 1114112) s"

lemma is_text_simps [simp]:
  "is_text []" "is_text (c # s) \<longleftrightarrow> c < 1114112 \<and> is_text s"
  "is_text (s @ t) \<longleftrightarrow> is_text s \<and> is_text t"
  by (simp_all add: is_text_def)

lemma is_text_lit [simp]: "is_text (lit s)"
proof -
  have "of_char c < (1114112 :: nat)" for c
    using nat_of_char_less_256 [of c] by linarith
  then show ?thesis by (simp add: is_text_def lit_def list_all_iff)
qed

lemma utf8_encode_inject:
  assumes "is_text s" and "is_text t" and "utf8_encodable s" and "utf8_encodable t"
    and "utf8_encode s = utf8_encode t"
  shows "s = t"
proof -
  have "list_all is_code_point s" "list_all is_code_point t"
    using assms(1-4) by (simp_all add: is_text_def utf8_encodable_def is_code_point_def list_all_iff)
  then show ?thesis using utf8_decode_encode assms(5) by (metis option.inject)
qed

end
