(* ===== verification/SessionLease.thy ===== *)
theory SessionLease
  imports G0 Utf8
begin

text \<open>
  Runtime session material: the one-use lease of
  \<open>src/pixiv_yuri/acquisition/runtime_session_lease.py\<close>, and the session buffer and the
  factory of \<open>src/pixiv_yuri/acquisition/operator_session.py\<close>.  Each method runs under the
  object's lock and is one atomic step.  A lease cannot be copied, so one object is one state.
  The lease identifier (\<open>uuid4\<close>) and the current time are arguments.
\<close>

section \<open>The lease\<close>

datatype lease_state = LeaseActive | LeaseConsumed | LeaseBurned

record lease =
  le_lease_id :: pystr
  le_established :: instant
  le_expires :: instant
  le_visibility :: visibility
  le_ratings :: "age_rating list"
  le_state :: lease_state

record lease_consumption =
  lc_lease_id :: pystr
  lc_consumed_at :: instant
  lc_expires_at :: instant

text \<open>\<open>_normalize_ratings\<close>: a non-empty set of the three known names.\<close>

definition rating_of :: "pystr \<Rightarrow> age_rating option" where
  "rating_of s =
     (if s = lit ''all_ages'' then Some AllAges
      else if s = lit ''r18'' then Some R18
      else if s = lit ''r18g'' then Some R18G else None)"

definition normalize_ratings :: "pystr list \<Rightarrow> error + age_rating list" where
  "normalize_ratings values =
     (if values = [] \<or> list_ex (\<lambda>v. rating_of v = None) values then Inl ValueError
      else Inr (remdups (List.map_filter rating_of values)))"

definition new_lease ::
  "pystr \<Rightarrow> pydatetime \<Rightarrow> pydatetime \<Rightarrow> visibility \<Rightarrow> pystr list \<Rightarrow> error + lease" where
  "new_lease uuid started expiry vis ratings =
     bindr (aware_utc started) (\<lambda>established.
     bindr (aware_utc expiry) (\<lambda>expires.
       if expires \<le> established then Inl ValueError
       else bindr (normalize_ratings ratings) (\<lambda>rs.
         if vis \<noteq> AuthenticatedPublic then Inl ValueError
         else Inr \<lparr>le_lease_id = uuid, le_established = established, le_expires = expires,
                   le_visibility = vis, le_ratings = rs, le_state = LeaseActive\<rparr>)))"

type_synonym 'a lease_result = "(error + 'a) \<times> lease"

definition in_window :: "lease \<Rightarrow> instant \<Rightarrow> bool" where
  "in_window l t \<longleftrightarrow> le_established l \<le> t \<and> t < le_expires l"

definition ensure_active :: "pydatetime \<Rightarrow> lease \<Rightarrow> unit lease_result" where
  "ensure_active now l =
     (case aware_utc now of
        Inl e \<Rightarrow> (Inl e, l)
      | Inr t \<Rightarrow>
          if le_state l \<noteq> LeaseActive then (Inl RuntimeSessionLeaseError, l)
          else if \<not> in_window l t then (Inl RuntimeSessionLeaseError, l\<lparr>le_state := LeaseBurned\<rparr>)
          else (Inr (), l))"

definition scope_sufficient :: "visibility \<Rightarrow> age_rating list \<Rightarrow> lease \<Rightarrow> bool" where
  "scope_sufficient vis rs l \<longleftrightarrow>
     vis = le_visibility l \<and> list_all (\<lambda>r. r \<in> set (le_ratings l)) rs"

definition consume_lease ::
  "pydatetime \<Rightarrow> visibility \<Rightarrow> pystr list \<Rightarrow> lease \<Rightarrow> lease_consumption lease_result" where
  "consume_lease now vis ratings l =
     (case aware_utc now of
        Inl e \<Rightarrow> (Inl e, l)
      | Inr t \<Rightarrow>
          (case normalize_ratings ratings of
             Inl e \<Rightarrow> (Inl e, l)
           | Inr rs \<Rightarrow>
               if le_state l \<noteq> LeaseActive then (Inl RuntimeSessionLeaseError, l)
               else let burned = l\<lparr>le_state := LeaseBurned\<rparr>
                    in if \<not> in_window l t then (Inl RuntimeSessionLeaseError, burned)
                       else if \<not> scope_sufficient vis rs l then (Inl RuntimeSessionLeaseError, burned)
                       else (Inr \<lparr>lc_lease_id = le_lease_id l, lc_consumed_at = t,
                                  lc_expires_at = le_expires l\<rparr>,
                             l\<lparr>le_state := LeaseConsumed\<rparr>)))"

definition burn_lease :: "lease \<Rightarrow> lease" where
  "burn_lease l = (if le_state l = LeaseActive then l\<lparr>le_state := LeaseBurned\<rparr> else l)"

text \<open>
  \<open>require_same_runtime_session_lease\<close>: a lease reference is an address and the object at it;
  \<open>is\<close> compares addresses.
\<close>

definition require_same_lease ::
  "nat \<times> lease \<Rightarrow> nat \<times> lease \<Rightarrow> error + nat \<times> lease" where
  "require_same_lease readiness broker =
     (if fst readiness \<noteq> fst broker \<or> le_lease_id (snd readiness) \<noteq> le_lease_id (snd broker)
      then Inl RuntimeSessionLeaseError else Inr readiness)"

section \<open>The session buffer\<close>

record runtime_session =
  rs_buffer :: "nat list"
  rs_expires :: instant
  rs_closed :: bool
  rs_lease :: lease

definition new_session ::
  "pystr \<Rightarrow> nat list \<Rightarrow> pydatetime \<Rightarrow> pydatetime \<Rightarrow> visibility \<Rightarrow> pystr list \<Rightarrow>
     error + runtime_session" where
  "new_session uuid buffer expiry started vis ratings =
     (if buffer = [] then Inl ValueError
      else bindr (aware_utc expiry) (\<lambda>expires.
        bindr (new_lease uuid started (utc expires) vis ratings) (\<lambda>l.
          Inr \<lparr>rs_buffer = buffer, rs_expires = expires, rs_closed = False, rs_lease = l\<rparr>)))"

definition close_session :: "runtime_session \<Rightarrow> runtime_session" where
  "close_session s =
     (if rs_closed s then s
      else s\<lparr>rs_buffer := map (\<lambda>_. 0) (rs_buffer s), rs_lease := burn_lease (rs_lease s),
             rs_closed := True\<rparr>)"

definition all_rating_names :: "age_rating list \<Rightarrow> pystr list" where
  "all_rating_names rs =
     map (\<lambda>r. case r of AllAges \<Rightarrow> lit ''all_ages'' | R18 \<Rightarrow> lit ''r18'' | R18G \<Rightarrow> lit ''r18g'') rs"

text \<open>
  \<open>reveal_for_request\<close>: the lease is consumed first; a refusal past the expiry also closes the
  session.  The required ratings default to the lease's own.
\<close>

definition reveal_for_request ::
  "pydatetime \<Rightarrow> visibility \<Rightarrow> pystr list option \<Rightarrow> runtime_session \<Rightarrow>
     (error + pystr) \<times> runtime_session" where
  "reveal_for_request now vis required s =
     (case aware_utc now of
        Inl e \<Rightarrow> (Inl e, s)
      | Inr t \<Rightarrow>
          if rs_closed s then (Inl RuntimeSessionError, s)
          else (case consume_lease (utc t) vis
                       (case required of Some rs \<Rightarrow> rs
                        | None \<Rightarrow> all_rating_names (le_ratings (rs_lease s))) (rs_lease s) of
             (Inl e, l) \<Rightarrow>
               let s' = s\<lparr>rs_lease := l\<rparr>
               in if e \<noteq> RuntimeSessionLeaseError then (Inl e, s')
                  else (Inl RuntimeSessionError,
                        if rs_expires s \<le> t then close_session s' else s')
           | (Inr c, l) \<Rightarrow>
               let s' = s\<lparr>rs_lease := l\<rparr>
               in if rs_expires s \<le> t then (Inl RuntimeSessionError, close_session s')
                  else (case utf8_decode (rs_buffer s') of
                          None \<Rightarrow> (Inl ValueError, s')
                        | Some v \<Rightarrow> (Inr v, s'))))"

section \<open>The factory\<close>

text \<open>
  \<open>OperatorSessionFactory.open\<close>; \<open>typed\<close> is what the no-echo reader returns or raises.
\<close>

definition open_session ::
  "pystr \<Rightarrow> int \<Rightarrow> pydatetime \<Rightarrow> pystr \<Rightarrow> pystr list \<Rightarrow> error + pystr \<Rightarrow> error + runtime_session"
  where
  "open_session uuid ttl now prompt ratings typed =
     (if \<not> (1 \<le> ttl \<and> ttl \<le> 60) then Inl ValueError
      else bindr (aware_utc now) (\<lambda>created_at.
        if prompt = [] \<or> 200 < length prompt then Inl ValueError
        else bindr typed (\<lambda>raw.
          if \<not> utf8_encodable raw then Inl ValueError
          else let encoded = utf8_encode raw
               in if encoded = [] \<or> 8192 < length encoded \<or> 13 \<in> set encoded \<or> 10 \<in> set encoded
                  then Inl RuntimeSessionError
                  else new_session uuid encoded (utc (created_at + minutes ttl)) now
                         AuthenticatedPublic ratings)))"

section \<open>The lease is a one-shot latch\<close>

datatype lease_event =
    EnsureActive pydatetime
  | ConsumeLease pydatetime visibility "pystr list"
  | BurnLease

fun lease_step :: "lease \<Rightarrow> lease_event \<Rightarrow> lease \<times> bool" where
  "lease_step l (EnsureActive now) = (snd (ensure_active now l), False)"
| "lease_step l (ConsumeLease now vis ratings) =
     (snd (consume_lease now vis ratings l), is_ok (fst (consume_lease now vis ratings l)))"
| "lease_step l BurnLease = (burn_lease l, False)"

lemma consume_lease_Inr:
  "consume_lease now vis ratings l = (Inr c, l') \<longleftrightarrow>
     (\<exists>t rs. aware_utc now = Inr t \<and> normalize_ratings ratings = Inr rs \<and> le_state l = LeaseActive \<and>
        in_window l t \<and> scope_sufficient vis rs l \<and> l' = l\<lparr>le_state := LeaseConsumed\<rparr> \<and>
        c = \<lparr>lc_lease_id = le_lease_id l, lc_consumed_at = t, lc_expires_at = le_expires l\<rparr>)"
  by (auto simp: consume_lease_def Let_def split: sum.splits)

lemma consume_lease_state:
  "le_state (snd (consume_lease now vis ratings l)) = LeaseActive \<Longrightarrow>
   snd (consume_lease now vis ratings l) = l \<and> \<not> is_ok (fst (consume_lease now vis ratings l))"
  by (auto simp: consume_lease_def Let_def split: sum.splits if_splits)

lemma inactive_consume:
  "le_state l \<noteq> LeaseActive \<Longrightarrow>
   snd (consume_lease now vis ratings l) = l \<and> \<not> is_ok (fst (consume_lease now vis ratings l))"
  by (auto simp: consume_lease_def Let_def split: sum.splits)

interpretation lease_latch: one_shot lease_step any_event "\<lambda>l. True" "\<lambda>l. le_state l = LeaseActive"
proof unfold_locales
  fix l e
  show "snd (lease_step l e) \<Longrightarrow> le_state l = LeaseActive"
    by (cases e) (use inactive_consume in auto)
  show "snd (lease_step l e) \<Longrightarrow> \<not> le_state (fst (lease_step l e)) = LeaseActive"
    by (cases e) (use consume_lease_state in auto)
  show "\<not> le_state l = LeaseActive \<Longrightarrow> \<not> le_state (fst (lease_step l e)) = LeaseActive"
    by (cases e) (auto simp: ensure_active_def burn_lease_def inactive_consume split: sum.splits)
qed simp_all

section \<open>The session reveals once\<close>

datatype session_event =
    Reveal pydatetime visibility "pystr list option"
  | CloseSession
  | OnLease lease_event

fun session_step :: "runtime_session \<Rightarrow> session_event \<Rightarrow> runtime_session \<times> bool" where
  "session_step s (Reveal now vis required) =
     (snd (reveal_for_request now vis required s), is_ok (fst (reveal_for_request now vis required s)))"
| "session_step s CloseSession = (close_session s, False)"
| "session_step s (OnLease e) = (s\<lparr>rs_lease := fst (lease_step (rs_lease s) e)\<rparr>, False)"

lemma close_session_lease: "le_state (rs_lease (close_session s)) = LeaseActive \<Longrightarrow>
    rs_closed s \<and> le_state (rs_lease s) = LeaseActive"
  by (auto simp: close_session_def burn_lease_def split: if_splits)

lemma inactive_consume_Inl:
  assumes "le_state l \<noteq> LeaseActive"
  obtains e where "consume_lease now vis ratings l = (Inl e, l)"
  using inactive_consume [OF assms, of now vis ratings]
  by (cases "consume_lease now vis ratings l"; cases "fst (consume_lease now vis ratings l)") auto

lemma close_session_burned [simp]:
  "le_state (rs_lease s) \<noteq> LeaseActive \<Longrightarrow> le_state (rs_lease (close_session s)) \<noteq> LeaseActive"
  by (simp add: close_session_def burn_lease_def)

lemma reveal_lease:
  assumes "le_state (rs_lease s) \<noteq> LeaseActive"
  shows "\<not> is_ok (fst (reveal_for_request now vis required s)) \<and>
     le_state (rs_lease (snd (reveal_for_request now vis required s))) \<noteq> LeaseActive"
proof (cases "aware_utc now")
  case (Inl e)
  then show ?thesis using assms by (simp add: reveal_for_request_def)
next
  case (Inr t)
  define rs where "rs = (case required of Some rs \<Rightarrow> rs
    | None \<Rightarrow> all_rating_names (le_ratings (rs_lease s)))"
  obtain e where "consume_lease (utc t) vis rs (rs_lease s) = (Inl e, rs_lease s)"
    using assms by (rule inactive_consume_Inl)
  then show ?thesis using Inr assms by (simp add: reveal_for_request_def rs_def [symmetric] Let_def)
qed

lemma reveal_Inr:
  assumes "reveal_for_request now vis required s = (Inr v, s')"
  obtains t where "aware_utc now = Inr t" "\<not> rs_closed s" "le_state (rs_lease s) = LeaseActive"
    "in_window (rs_lease s) t" "t < rs_expires s" "utf8_decode (rs_buffer s) = Some v"
    "s' = s\<lparr>rs_lease := (rs_lease s)\<lparr>le_state := LeaseConsumed\<rparr>\<rparr>"
  using assms
  by (auto simp: reveal_for_request_def Let_def consume_lease_Inr not_le
      split: sum.splits prod.splits option.splits if_splits)

interpretation reveal_latch: one_shot session_step any_event "\<lambda>s. True"
    "\<lambda>s. le_state (rs_lease s) = LeaseActive"
proof unfold_locales
  fix s e
  show live: "snd (session_step s e) \<Longrightarrow> le_state (rs_lease s) = LeaseActive"
    by (cases e) (use reveal_lease in auto)
  show "snd (session_step s e) \<Longrightarrow> \<not> le_state (rs_lease (fst (session_step s e))) = LeaseActive"
  proof (cases e)
    case (Reveal now vis required)
    moreover assume "snd (session_step s e)"
    ultimately obtain v s' where "reveal_for_request now vis required s = (Inr v, s')"
      by (auto simp: is_ok_Inr prod_eq_iff)
    with Reveal show ?thesis by (auto elim: reveal_Inr)
  qed simp_all
  show "\<not> le_state (rs_lease s) = LeaseActive \<Longrightarrow>
      \<not> le_state (rs_lease (fst (session_step s e))) = LeaseActive"
  proof (cases e)
    case (OnLease e')
    assume "\<not> le_state (rs_lease s) = LeaseActive"
    then have "\<not> le_state (fst (lease_step (rs_lease s) e')) = LeaseActive"
      using lease_latch.dead_stays [of e' "rs_lease s"] by simp
    with OnLease show ?thesis by simp
  qed (auto simp: reveal_lease dest: close_session_lease)
qed simp_all

section \<open>What a session promises\<close>

text \<open>A closed session holds only zero bytes and a spent lease.\<close>

definition session_inv :: "runtime_session \<Rightarrow> bool" where
  "session_inv s \<longleftrightarrow>
     rs_closed s \<longrightarrow> list_all (\<lambda>b. b = 0) (rs_buffer s) \<and> le_state (rs_lease s) \<noteq> LeaseActive"

lemma session_inv_close [simp]: "session_inv s \<Longrightarrow> session_inv (close_session s)"
  by (auto simp: session_inv_def close_session_def burn_lease_def list_all_iff)

lemma close_session_again [simp]: "rs_closed s \<Longrightarrow> close_session s = s"
  by (simp add: close_session_def)

lemma close_session_closed [simp]: "rs_closed (close_session s)"
  by (simp add: close_session_def)

lemma reveal_closed: "rs_closed s \<Longrightarrow> snd (reveal_for_request now vis required s) = s"
  by (auto simp: reveal_for_request_def split: sum.splits)

lemma reveal_shape:
  "(\<exists>l. snd (reveal_for_request now vis required s) = s\<lparr>rs_lease := l\<rparr>) \<or>
   (\<exists>l. snd (reveal_for_request now vis required s) = close_session (s\<lparr>rs_lease := l\<rparr>))"
proof (cases "aware_utc now")
  case (Inl e)
  then show ?thesis by (intro disjI1 exI [of _ "rs_lease s"]) (simp add: reveal_for_request_def)
next
  case (Inr t)
  define rs where "rs = (case required of Some rs \<Rightarrow> rs
    | None \<Rightarrow> all_rating_names (le_ratings (rs_lease s)))"
  obtain r l where c: "consume_lease (utc t) vis rs (rs_lease s) = (r, l)" by fastforce
  show ?thesis
  proof (cases "rs_closed s")
    case True
    then show ?thesis by (intro disjI1 exI [of _ "rs_lease s"]) (simp add: reveal_closed)
  next
    case False
    have e: "reveal_for_request now vis required s =
        (case r of Inl e \<Rightarrow> if e \<noteq> RuntimeSessionLeaseError then (Inl e, s\<lparr>rs_lease := l\<rparr>)
           else (Inl RuntimeSessionError, if rs_expires s \<le> t then close_session (s\<lparr>rs_lease := l\<rparr>)
                                          else s\<lparr>rs_lease := l\<rparr>)
         | Inr _ \<Rightarrow> if rs_expires s \<le> t then (Inl RuntimeSessionError, close_session (s\<lparr>rs_lease := l\<rparr>))
           else (case utf8_decode (rs_buffer s) of None \<Rightarrow> (Inl ValueError, s\<lparr>rs_lease := l\<rparr>)
                 | Some v \<Rightarrow> (Inr v, s\<lparr>rs_lease := l\<rparr>)))"
      using Inr False c by (cases r) (simp_all add: reveal_for_request_def rs_def [symmetric] Let_def)
    show ?thesis unfolding e by (cases r) (auto split: option.splits)
  qed
qed

lemma reveal_length [simp]:
  "length (rs_buffer (snd (reveal_for_request now vis required s))) = length (rs_buffer s)"
  using reveal_shape [of now vis required s] by (auto simp: close_session_def)

lemma open_inv: "\<not> rs_closed s \<Longrightarrow> session_inv s"
  by (simp add: session_inv_def)

interpretation session: invariant_machine "\<lambda>s e. fst (session_step s e)" any_event session_inv
proof unfold_locales
  fix e s assume inv: "session_inv s"
  show "session_inv (fst (session_step s e))"
  proof (cases "rs_closed s")
    case True
    then have "le_state (rs_lease s) \<noteq> LeaseActive" using inv by (simp add: session_inv_def)
    with True inv show ?thesis
      using reveal_latch.dead_stays [of e s]
      by (cases e) (auto simp: reveal_closed session_inv_def)
  next
    case False
    then have "session_inv (s\<lparr>rs_lease := l\<rparr>)" for l by (simp add: open_inv)
    moreover have "snd (reveal_for_request now vis required s) = s\<lparr>rs_lease := l\<rparr> \<or>
        snd (reveal_for_request now vis required s) = close_session (s\<lparr>rs_lease := l\<rparr>) \<Longrightarrow>
        session_inv (snd (reveal_for_request now vis required s))" for now vis required l
      using calculation by auto
    ultimately show ?thesis using reveal_shape [of _ _ _ s] inv
      by (cases e) (simp_all, blast)
  qed
qed

lemma new_session_Inr:
  "new_session uuid buffer expiry started vis ratings = Inr s \<Longrightarrow>
     \<not> rs_closed s \<and> rs_buffer s = buffer \<and> (\<exists>x. aware_utc expiry = Inr x \<and> rs_expires s = x \<and>
       new_lease uuid started (utc x) vis ratings = Inr (rs_lease s))"
  by (auto simp: new_session_def bindr_Inr split: if_splits)

lemma rating_names_round_trip:
  assumes "distinct rs"
  shows "rs \<noteq> [] \<Longrightarrow> normalize_ratings (all_rating_names rs) = Inr rs"
proof -
  have name: "rating_of (case r of AllAges \<Rightarrow> lit ''all_ages'' | R18 \<Rightarrow> lit ''r18''
      | R18G \<Rightarrow> lit ''r18g'') = Some r" for r
    by (cases r) (simp_all add: rating_of_def lit_def)
  have "List.map_filter rating_of (all_rating_names rs) = rs"
    by (induction rs) (simp_all add: all_rating_names_def List.map_filter_def name)
  moreover have "\<not> list_ex (\<lambda>v. rating_of v = None) (all_rating_names rs)"
    by (auto simp: all_rating_names_def list_ex_iff name)
  moreover have "rs \<noteq> [] \<Longrightarrow> all_rating_names rs \<noteq> []" by (simp add: all_rating_names_def)
  ultimately show "rs \<noteq> [] \<Longrightarrow> normalize_ratings (all_rating_names rs) = Inr rs"
    using assms by (simp add: normalize_ratings_def distinct_remdups_id)
qed

lemma normalize_ratings_Inr:
  "normalize_ratings names = Inr rs \<Longrightarrow> distinct rs \<and> rs \<noteq> []"
proof -
  assume n: "normalize_ratings names = Inr rs"
  then have ok: "names \<noteq> []" "\<not> list_ex (\<lambda>v. rating_of v = None) names"
      "rs = remdups (List.map_filter rating_of names)"
    by (auto simp: normalize_ratings_def split: if_splits)
  then obtain v vs r where "names = v # vs" "rating_of v = Some r" by (cases names) auto
  with ok show ?thesis by (auto simp: List.map_filter_simps)
qed

lemma new_lease_Inr:
  assumes "new_lease uuid started expiry vis ratings = Inr l"
  shows "\<exists>t x. aware_utc started = Inr t \<and> aware_utc expiry = Inr x \<and> t < x \<and>
    le_established l = t \<and> le_expires l = x \<and> le_visibility l = AuthenticatedPublic \<and>
    vis = AuthenticatedPublic \<and> distinct (le_ratings l) \<and> le_ratings l \<noteq> [] \<and>
    le_state l = LeaseActive"
  using assms by (auto simp: new_lease_def bindr_Inr dest!: normalize_ratings_Inr split: if_splits)

lemma open_session_Inr:
  assumes "open_session uuid ttl now prompt ratings (Inr raw) = Inr s" and "aware_utc now = Inr t0"
  shows "1 \<le> ttl \<and> ttl \<le> 60 \<and> rs_buffer s = utf8_encode raw \<and> utf8_encodable raw \<and> \<not> rs_closed s \<and>
    rs_expires s = t0 + minutes ttl \<and> le_established (rs_lease s) = t0 \<and>
    le_expires (rs_lease s) = t0 + minutes ttl \<and> le_visibility (rs_lease s) = AuthenticatedPublic \<and>
    distinct (le_ratings (rs_lease s)) \<and> le_ratings (rs_lease s) \<noteq> [] \<and>
    le_state (rs_lease s) = LeaseActive"
  using assms
  by (auto simp: open_session_def bindr_Inr Let_def dest!: new_session_Inr new_lease_Inr
      split: if_splits)

text \<open>
  C11: In any sequence of calls on one session object and on its lease, whatever the clock
  readings, visibilities and ratings, the credential is handed out at most once, the lease is
  consumed at most once, and a spent lease never hands it out again.
\<close>

theorem credential_revealed_at_most_once:
  "successes session_step s es + successes session_step (run_machine (\<lambda>s e. fst (session_step s e)) s es) es'
     \<le> 1 \<and> successes lease_step l ls \<le> 1"
proof -
  have "successes session_step s (es @ es') \<le> 1"
    by (rule reveal_latch.at_most_one_success) simp_all
  moreover have "successes session_step s (es @ es') = successes session_step s es +
      successes session_step (run_machine (\<lambda>s e. fst (session_step s e)) s es) es'"
    by (induction es arbitrary: s) simp_all
  moreover have "successes lease_step l ls \<le> 1"
    by (rule lease_latch.at_most_one_success) simp_all
  ultimately show ?thesis by simp
qed

text \<open>
  Round trip. What the operator typed is exactly what a request gets, when it asks before
  the session expires and for the scope of the lease; a second request gets nothing.
\<close>

theorem session_reveals_what_was_typed:
  assumes "open_session uuid ttl now prompt ratings (Inr raw) = Inr s" and "aware_utc now = Inr t0"
    and "aware_utc later = Inr t" and "t0 \<le> t" and "t < t0 + minutes ttl"
    and "list_all is_code_point raw"
  shows "fst (reveal_for_request later AuthenticatedPublic None s) = Inr raw \<and>
    \<not> is_ok (fst (reveal_for_request again vis required
      (snd (reveal_for_request later AuthenticatedPublic None s))))"
proof -
  note o = open_session_Inr [OF assms(1,2)]
  let ?l = "rs_lease s"
  have names: "normalize_ratings (all_rating_names (le_ratings ?l)) = Inr (le_ratings ?l)"
    using o by (intro rating_names_round_trip) auto
  have "in_window ?l t" using o assms(4,5) by (simp add: in_window_def)
  moreover have "scope_sufficient AuthenticatedPublic (le_ratings ?l) ?l"
    using o by (simp add: scope_sufficient_def list_all_iff)
  ultimately have "consume_lease (utc t) AuthenticatedPublic (all_rating_names (le_ratings ?l)) ?l =
      (Inr \<lparr>lc_lease_id = le_lease_id ?l, lc_consumed_at = t, lc_expires_at = le_expires ?l\<rparr>,
       ?l\<lparr>le_state := LeaseConsumed\<rparr>)"
    using o names by (simp add: consume_lease_Inr)
  then have r: "reveal_for_request later AuthenticatedPublic None s =
      (Inr raw, s\<lparr>rs_lease := ?l\<lparr>le_state := LeaseConsumed\<rparr>\<rparr>)"
    using o assms(3,5) utf8_decode_encode [OF assms(6)]
    by (simp add: reveal_for_request_def Let_def)
  then show ?thesis using reveal_lease [of "s\<lparr>rs_lease := ?l\<lparr>le_state := LeaseConsumed\<rparr>\<rparr>"] by simp
qed

definition sample_session :: runtime_session where
  "sample_session =
     \<lparr>rs_buffer = utf8_encode [233, 8364], rs_expires = minutes 5, rs_closed = False,
      rs_lease = \<lparr>le_lease_id = lit ''lease'', le_established = 0, le_expires = minutes 5,
        le_visibility = AuthenticatedPublic, le_ratings = [R18], le_state = LeaseActive\<rparr>\<rparr>"

lemma sample_session_opened:
  "open_session (lit ''lease'') 5 (utc 0) (lit ''Session: '') [lit ''r18''] (Inr [233, 8364]) =
     Inr sample_session"
  by (simp add: open_session_def utf8_encodable_def is_surrogate_def utf8_encode_def utf8_char_def
      Let_def new_session_def new_lease_def normalize_ratings_def rating_of_def lit_def
      duration_defs sample_session_def List.map_filter_simps)

theorem session_reveals_what_was_typed_witness:
  "fst (reveal_for_request (utc (minutes 1)) AuthenticatedPublic None sample_session) =
     Inr [233, 8364]"
  by (rule session_reveals_what_was_typed
      [OF sample_session_opened, of 0 "utc (minutes 1)" "minutes 1", THEN conjunct1])
    (simp_all add: duration_defs is_code_point_def is_surrogate_def)

text \<open>
  Closing erases. Once a session that was opened with any buffer is closed, after any calls
  and before any others, its buffer holds only zero bytes, it has the length of the credential,
  and no later call hands anything out.
\<close>

theorem closing_erases_the_credential:
  assumes "new_session uuid buffer expiry started vis ratings = Inr s"
    and "s1 = close_session (run_machine (\<lambda>s e. fst (session_step s e)) s es)"
    and "s2 = run_machine (\<lambda>s e. fst (session_step s e)) s1 es'"
  shows "rs_closed s2 \<and> rs_buffer s2 = replicate (length buffer) 0 \<and>
    successes session_step s2 es'' = 0"
proof -
  have len: "length (rs_buffer (run_machine (\<lambda>s e. fst (session_step s e)) s' es)) =
      length (rs_buffer s')" for s' es
  proof (induction es arbitrary: s')
    case (Cons e es)
    have "length (rs_buffer (fst (session_step s' e))) = length (rs_buffer s')"
      by (cases e) (simp_all add: close_session_def)
    with Cons.IH show ?case by simp
  qed simp
  have closed: "rs_closed (run_machine (\<lambda>s e. fst (session_step s e)) s' es)"
    if "rs_closed s'" for s' es
    using that
  proof (induction es arbitrary: s')
    case (Cons e es)
    then have "rs_closed (fst (session_step s' e))" by (cases e) (simp_all add: reveal_closed)
    with Cons.IH show ?case by simp
  qed simp
  have "session_inv s" using new_session_Inr [OF assms(1)] by (simp add: open_inv)
  then have "session_inv s1" unfolding assms(2)
    by (intro session_inv_close session.run_inv) simp_all
  then have inv: "session_inv s2" unfolding assms(3) by (rule session.run_inv [rotated]) simp
  have c: "rs_closed s2" unfolding assms(2,3) by (rule closed) simp
  have "length (rs_buffer s2) = length buffer"
    unfolding assms(2,3) len using len [of s es] new_session_Inr [OF assms(1)]
    by (simp add: close_session_def)
  then have "rs_buffer s2 = replicate (length buffer) 0"
    using inv c by (simp add: session_inv_def list_all_iff replicate_eqI)
  moreover have "successes session_step s2 es'' = 0"
    using inv c by (intro reveal_latch.dead_no_success) (simp_all add: session_inv_def)
  ultimately show ?thesis using c by simp
qed

lemma sample_session_new:
  "new_session (lit ''lease'') (utf8_encode [233, 8364]) (utc (minutes 5)) (utc 0)
     AuthenticatedPublic [lit ''r18''] = Inr sample_session"
  by (simp add: utf8_encode_def utf8_char_def new_session_def new_lease_def normalize_ratings_def
      rating_of_def lit_def duration_defs sample_session_def List.map_filter_simps)

theorem closing_erases_the_credential_witness:
  "rs_buffer (close_session sample_session) = [0, 0, 0, 0, 0]"
  using closing_erases_the_credential [OF sample_session_new, of "close_session sample_session" "[]"
      "close_session sample_session" "[]" "[]"]
  by (simp add: utf8_encode_def utf8_char_def)

end
