(* ===== verification/Influence.thy ===== *)
theory Influence
  imports Prelude "HOL-Library.List_Lexorder" "HOL-Library.Multiset"
begin

text \<open>
  Author influence scoring, \<open>src/pixiv_yuri/analytics/author_influence.py\<close>: integer
  basis-point components relative to the sample's maxima, a weighted score, and a stable bounded
  ranking.  Python's \<open>//\<close> is \<open>div\<close>; \<open>sorted\<close> is the stable \<open>sort_key\<close>; texts compare
  lexicographically by code point.
\<close>

section \<open>Scoring\<close>

record influence_weights =
  iw_bookmark :: int
  iw_like :: int
  iw_production :: int

definition default_weights :: influence_weights where
  "default_weights = \<lparr>iw_bookmark = 4375, iw_like = 3750, iw_production = 1875\<rparr>"

definition weights_valid :: "influence_weights \<Rightarrow> bool" where
  "weights_valid w \<longleftrightarrow>
     \<not> (list_ex (\<lambda>v. v < 0 \<or> v > 10000) [iw_bookmark w, iw_like w, iw_production w] \<or>
        iw_bookmark w + iw_like w + iw_production w \<noteq> 10000)"

record influence_input =
  ii_author_id :: pystr
  ii_display_name :: pystr
  ii_work_count :: int
  ii_bookmarks_x100 :: int
  ii_likes_x100 :: int

record influence_score =
  is_author_id :: pystr
  is_display_name :: pystr
  is_work_count :: int
  is_bookmarks_x100 :: int
  is_likes_x100 :: int
  is_bookmark_component :: int
  is_like_component :: int
  is_production_component :: int
  is_score :: int

definition relative_basis_points :: "int \<Rightarrow> int \<Rightarrow> int" where
  "relative_basis_points v m = (if m = 0 then 0 else (v * 10000 + m div 2) div m)"

definition score_one ::
  "influence_weights \<Rightarrow> int \<Rightarrow> int \<Rightarrow> int \<Rightarrow> influence_input \<Rightarrow> influence_score" where
  "score_one w max_bookmarks max_likes max_works a =
     (let b = relative_basis_points (ii_bookmarks_x100 a) max_bookmarks;
          l = relative_basis_points (ii_likes_x100 a) max_likes;
          p = relative_basis_points (ii_work_count a) max_works;
          total = b * iw_bookmark w + l * iw_like w + p * iw_production w
      in \<lparr>is_author_id = ii_author_id a, is_display_name = ii_display_name a,
          is_work_count = ii_work_count a, is_bookmarks_x100 = ii_bookmarks_x100 a,
          is_likes_x100 = ii_likes_x100 a, is_bookmark_component = b, is_like_component = l,
          is_production_component = p, is_score = (total + 5000) div 10000\<rparr>)"

definition influence_input_bad :: "influence_input \<Rightarrow> bool" where
  "influence_input_bad a \<longleftrightarrow>
     ii_author_id a = [] \<or> ii_work_count a < 1 \<or> ii_bookmarks_x100 a < 0 \<or> ii_likes_x100 a < 0"

definition max_of :: "('a \<Rightarrow> int) \<Rightarrow> 'a list \<Rightarrow> int" where
  "max_of f xs = foldr (\<lambda>x. max (f x)) (tl xs) (f (hd xs))"

definition influence_scores :: "influence_weights \<Rightarrow> influence_input list \<Rightarrow> influence_score list" where
  "influence_scores w authors =
     map (score_one w (max_of ii_bookmarks_x100 authors) (max_of ii_likes_x100 authors)
            (max_of ii_work_count authors)) authors"

definition influence_key :: "influence_score \<Rightarrow> int \<times> pystr" where
  "influence_key s = (- is_score s, is_author_id s)"

definition score_author_influence ::
  "influence_input list \<Rightarrow> influence_weights \<Rightarrow> int \<Rightarrow> error + influence_score list" where
  "score_author_influence authors w limit =
     (if \<not> weights_valid w then Inl ValueError
      else if limit < 1 \<or> limit > 100 then Inl ValueError
      else if authors = [] then Inr []
      else if list_ex influence_input_bad authors then Inl ValueError
      else Inr (take (nat limit) (sort_key influence_key (influence_scores w authors))))"

datatype quality_quadrant = Core | Boutique | Ordinary | Volume

definition classify_author_quality :: "int \<Rightarrow> int \<Rightarrow> int \<Rightarrow> int \<Rightarrow> quality_quadrant" where
  "classify_author_quality works bookmarks work_threshold bookmark_threshold =
     (let high_volume = work_threshold \<le> works; high_quality = bookmark_threshold \<le> bookmarks
      in if high_volume \<and> high_quality then Core
         else if high_quality then Boutique
         else if high_volume then Volume
         else Ordinary)"

section \<open>Bounds and monotonicity\<close>

lemma max_of_ge: "x \<in> set xs \<Longrightarrow> f x \<le> max_of f xs"
proof -
  have "f x \<le> foldr (\<lambda>x. max (f x)) ys (f y)" if "x \<in> set (y # ys)" for y ys
    using that by (induction ys) (auto simp: max_def)
  then show "x \<in> set xs \<Longrightarrow> f x \<le> max_of f xs" by (cases xs) (auto simp: max_of_def)
qed

text \<open>
  \<open>relative_basis_points\<close> rounds ten thousand times the quotient to the nearest integer, within
  0 and 10000 for a value that is at most the maximum.
\<close>

lemma relative_basis_points_bounds:
  assumes "0 \<le> v" and "v \<le> m"
  shows "0 \<le> relative_basis_points v m \<and> relative_basis_points v m \<le> 10000"
proof (cases "m = 0")
  case False
  then have m: "0 < m" using assms by simp
  have "(v * 10000 + m div 2) div m \<le> (m * 10000 + m div 2) div m"
    using assms m by (intro zdiv_mono1) simp_all
  also have "\<dots> = 10000" using m by (simp add: div_mult_self1 [of m] div_pos_pos_trivial)
  finally show ?thesis using m assms by (simp add: relative_basis_points_def pos_imp_zdiv_nonneg_iff)
qed (simp add: relative_basis_points_def)

lemma relative_basis_points_mono:
  "0 \<le> m \<Longrightarrow> v \<le> v' \<Longrightarrow> relative_basis_points v m \<le> relative_basis_points v' m"
  by (simp add: relative_basis_points_def zdiv_mono1)

lemma relative_basis_points_nearest:
  assumes "0 < m"
  shows "2 * \<bar>relative_basis_points v m * m - v * 10000\<bar> \<le> m"
proof -
  define h where "h = m div 2"
  define r where "r = (v * 10000 + h) mod m"
  have "relative_basis_points v m * m + r = v * 10000 + h"
    using assms by (simp add: relative_basis_points_def h_def r_def)
  then have "relative_basis_points v m * m - v * 10000 = h - r" by simp
  moreover have "0 \<le> r" "r < m" using assms by (simp_all add: r_def)
  moreover have "2 * h \<le> m" "m \<le> 2 * h + 1" unfolding h_def by linarith+
  ultimately show ?thesis by (cases "r \<le> h") (simp_all add: abs_if)
qed

lemma weights_valid_simps:
  assumes "weights_valid w"
  shows "0 \<le> iw_bookmark w" "0 \<le> iw_like w" "0 \<le> iw_production w"
    "iw_bookmark w + iw_like w + iw_production w = 10000"
  using assms by (auto simp: weights_valid_def)

text \<open>A score is within 0 and 10000, and does not fall when a component rises.\<close>

lemma weighted_bounds:
  fixes b l p :: int
  assumes "weights_valid w" and "0 \<le> b" "b \<le> 10000" "0 \<le> l" "l \<le> 10000" "0 \<le> p" "p \<le> 10000"
  shows "0 \<le> (b * iw_bookmark w + l * iw_like w + p * iw_production w + 5000) div 10000 \<and>
    (b * iw_bookmark w + l * iw_like w + p * iw_production w + 5000) div 10000 \<le> 10000"
proof -
  note w = weights_valid_simps [OF assms(1)]
  let ?t = "b * iw_bookmark w + l * iw_like w + p * iw_production w"
  have "?t \<le> 10000 * iw_bookmark w + 10000 * iw_like w + 10000 * iw_production w"
    using w assms by (intro add_mono mult_right_mono) simp_all
  also have "\<dots> = 100000000" using w by linarith
  finally have "?t + 5000 \<le> 100005000" by simp
  then have "(?t + 5000) div 10000 \<le> 100005000 div 10000" by (rule zdiv_mono1) simp
  moreover have "0 \<le> ?t" using w assms by simp
  ultimately show ?thesis by (simp add: pos_imp_zdiv_nonneg_iff)
qed

lemma score_one_mono:
  assumes "weights_valid w" and "0 \<le> mb" "0 \<le> ml" "0 \<le> mw"
    and "ii_bookmarks_x100 a \<le> ii_bookmarks_x100 a'" and "ii_likes_x100 a \<le> ii_likes_x100 a'"
    and "ii_work_count a \<le> ii_work_count a'"
  shows "is_score (score_one w mb ml mw a) \<le> is_score (score_one w mb ml mw a')"
  unfolding score_one_def Let_def using assms weights_valid_simps [OF assms(1)]
  by (auto intro!: zdiv_mono1 add_mono mult_right_mono relative_basis_points_mono)

section \<open>The ranking\<close>

lemma sorted_take_drop:
  assumes "sorted (map f xs)" and "x \<in> set (take n xs)" and "y \<in> set (drop n xs)"
  shows "f x \<le> f y"
proof -
  have "sorted (map f (take n xs) @ map f (drop n xs))"
    using assms(1) by (simp flip: map_append)
  then show ?thesis using assms(2,3) by (simp add: sorted_append)
qed

lemma max_of_nonneg: "xs \<noteq> [] \<Longrightarrow> list_all (\<lambda>x. 0 \<le> f x) xs \<Longrightarrow> 0 \<le> max_of f xs"
  using max_of_ge [of "hd xs" xs f] by (cases xs) auto

text \<open>
  The order a reader of the ranking expects, stated on the scores and author ids themselves: the
  higher score first, equal scores in ascending order of the author id.
\<close>

definition outranks :: "influence_score \<Rightarrow> influence_score \<Rightarrow> bool" where
  "outranks s t \<longleftrightarrow>
     is_score t < is_score s \<or> is_score s = is_score t \<and> is_author_id s \<le> is_author_id t"

lemma influence_key_outranks: "influence_key s \<le> influence_key t \<longleftrightarrow> outranks s t"
  by (auto simp: influence_key_def outranks_def less_eq_prod_def)

text \<open>
  C18: The ranking is the top of the sample. When the call returns, it lists the smaller of the
  limit and the sample size, in descending score and then ascending author id (\<open>outranks\<close>, stated
  without the sort key); together with a remainder every entry of which is outranked by every listed
  one it is exactly the scored sample; and every score and component lies between 0 and 10000.
\<close>

theorem influence_ranking_is_the_top:
  assumes "score_author_influence authors w limit = Inr r"
  shows "sorted_wrt outranks r \<and> length r = min (nat limit) (length authors) \<and>
    (\<exists>rest. mset (r @ rest) = mset (influence_scores w authors) \<and>
       list_all (\<lambda>s. list_all (outranks s) rest) r) \<and>
    list_all (\<lambda>s. 0 \<le> is_score s \<and> is_score s \<le> 10000 \<and>
       0 \<le> is_bookmark_component s \<and> is_bookmark_component s \<le> 10000 \<and>
       0 \<le> is_like_component s \<and> is_like_component s \<le> 10000 \<and>
       0 \<le> is_production_component s \<and> is_production_component s \<le> 10000) r"
proof (cases "authors = []")
  case True
  then have "r = []" using assms by (auto simp: score_author_influence_def split: if_splits)
  with True show ?thesis by (auto simp: influence_scores_def)
next
  case False
  define ss where "ss = sort_key influence_key (influence_scores w authors)"
  have ok: "weights_valid w" "1 \<le> limit" "\<not> list_ex influence_input_bad authors"
      and r: "r = take (nat limit) ss"
    using assms False by (auto simp: score_author_influence_def ss_def split: if_splits)
  have sorted: "sorted (map influence_key ss)" by (simp add: ss_def)
  have "set r \<subseteq> set (influence_scores w authors)"
    unfolding r ss_def by (metis set_sort set_take_subset)
  moreover have "0 \<le> is_score s \<and> is_score s \<le> 10000 \<and>
       0 \<le> is_bookmark_component s \<and> is_bookmark_component s \<le> 10000 \<and>
       0 \<le> is_like_component s \<and> is_like_component s \<le> 10000 \<and>
       0 \<le> is_production_component s \<and> is_production_component s \<le> 10000"
    if "s \<in> set (influence_scores w authors)" for s
  proof -
    obtain a where a: "a \<in> set authors" "s = score_one w (max_of ii_bookmarks_x100 authors)
        (max_of ii_likes_x100 authors) (max_of ii_work_count authors) a"
      using \<open>s \<in> set (influence_scores w authors)\<close> by (auto simp: influence_scores_def)
    then have "\<not> influence_input_bad a" using ok(3) by (auto simp: list_ex_iff)
    then have n: "0 \<le> ii_bookmarks_x100 a" "0 \<le> ii_likes_x100 a" "0 \<le> ii_work_count a"
      by (auto simp: influence_input_bad_def)
    note b = relative_basis_points_bounds [OF n(1) max_of_ge [where f = ii_bookmarks_x100, OF a(1)]]
      relative_basis_points_bounds [OF n(2) max_of_ge [where f = ii_likes_x100, OF a(1)]]
      relative_basis_points_bounds [OF n(3) max_of_ge [where f = ii_work_count, OF a(1)]]
    show ?thesis unfolding a(2) score_one_def Let_def
      using b weighted_bounds [OF ok(1)] by simp
  qed
  moreover have "\<exists>rest. mset (r @ rest) = mset (influence_scores w authors) \<and>
       list_all (\<lambda>s. list_all (outranks s) rest) r"
    using sorted_take_drop [OF sorted, of _ "nat limit"]
    by (intro exI [of _ "drop (nat limit) ss"])
      (auto simp: r list_all_iff ss_def influence_key_outranks simp flip: mset_append)
  moreover have "sorted_wrt outranks r"
    using sorted_wrt_take [OF sorted [unfolded sorted_map influence_key_outranks], of "nat limit"]
    by (simp add: r)
  moreover have "length r = min (nat limit) (length authors)"
    by (simp add: r ss_def influence_scores_def)
  ultimately show ?thesis by (auto simp: list_all_iff)
qed

definition sample_authors :: "influence_input list" where
  "sample_authors =
     [\<lparr>ii_author_id = lit ''a'', ii_display_name = lit ''A'', ii_work_count = 2,
       ii_bookmarks_x100 = 100, ii_likes_x100 = 300\<rparr>,
      \<lparr>ii_author_id = lit ''b'', ii_display_name = lit ''B'', ii_work_count = 4,
       ii_bookmarks_x100 = 250, ii_likes_x100 = 400\<rparr>]"

lemma sample_ranking:
  "score_author_influence sample_authors default_weights 1 =
     Inr [\<lparr>is_author_id = lit ''b'', is_display_name = lit ''B'', is_work_count = 4,
           is_bookmarks_x100 = 250, is_likes_x100 = 400, is_bookmark_component = 10000,
           is_like_component = 10000, is_production_component = 10000, is_score = 10000\<rparr>]"
  by code_simp

theorem influence_ranking_is_the_top_witness:
  "\<exists>rest. mset ([score_one default_weights 250 400 4 (sample_authors ! 1)] @ rest) =
     mset (influence_scores default_weights sample_authors) \<and>
     list_all (outranks (score_one default_weights 250 400 4 (sample_authors ! 1))) rest"
  using influence_ranking_is_the_top [OF sample_ranking, THEN conjunct2, THEN conjunct2,
      THEN conjunct1]
  by (auto simp: score_one_def Let_def relative_basis_points_def default_weights_def
      sample_authors_def)

text \<open>
  C19: More never ranks lower. Of two authors of one sample, the one whose averages and work
  count are all at least the other's has at least the other's score.
\<close>

theorem influence_respects_dominance:
  assumes "score_author_influence authors w limit = Inr r"
    and "i < length authors" and "j < length authors"
    and "ii_bookmarks_x100 (authors ! i) \<le> ii_bookmarks_x100 (authors ! j)"
    and "ii_likes_x100 (authors ! i) \<le> ii_likes_x100 (authors ! j)"
    and "ii_work_count (authors ! i) \<le> ii_work_count (authors ! j)"
  shows "is_score (influence_scores w authors ! i) \<le> is_score (influence_scores w authors ! j)"
proof -
  have ne: "authors \<noteq> []" using assms(2) by auto
  then have ok: "weights_valid w" "\<not> list_ex influence_input_bad authors"
    using assms(1) by (auto simp: score_author_influence_def split: if_splits)
  then have "list_all (\<lambda>x. 0 \<le> ii_bookmarks_x100 x) authors"
    "list_all (\<lambda>x. 0 \<le> ii_likes_x100 x) authors" "list_all (\<lambda>x. 0 \<le> ii_work_count x) authors"
    by (auto simp: list_ex_iff list_all_iff influence_input_bad_def)
  then show ?thesis
    using assms(2-) ok(1) ne
    by (auto simp: influence_scores_def intro!: score_one_mono max_of_nonneg)
qed

theorem influence_respects_dominance_witness:
  "is_score (influence_scores default_weights sample_authors ! 0) \<le>
   is_score (influence_scores default_weights sample_authors ! 1)"
  by (rule influence_respects_dominance [OF sample_ranking]) (simp_all add: sample_authors_def)

end
