(* ===== verification/Base64.thy ===== *)
theory Base64
  imports Prelude
begin

text \<open>
  The standard library routines behind the pagination cursors: big-endian integers
  (\<open>struct\<close> format \<open>>Q\<close>), \<open>base64.urlsafe_b64encode\<close>, and \<open>base64.b64decode\<close> with
  \<open>altchars=b"-_"\<close> and \<open>validate=True\<close>, which is the strict scan of
  \<open>binascii.a2b_base64\<close> after the two alternative characters are translated.
\<close>

section \<open>Big-endian integers\<close>

fun to_be :: "nat \<Rightarrow> nat \<Rightarrow> nat list" where
  "to_be 0 n = []"
| "to_be (Suc k) n = to_be k (n div 256) @ [n mod 256]"

definition from_be :: "nat list \<Rightarrow> nat" where
  "from_be bs = foldl (\<lambda>a b. a * 256 + b) 0 bs"

definition bytes :: "nat list \<Rightarrow> bool" where
  "bytes bs \<longleftrightarrow> list_all (\<lambda>b. b < 256) bs"

lemma bytes_simps [simp]:
  "bytes []" "bytes (b # bs) \<longleftrightarrow> b < 256 \<and> bytes bs" "bytes (as @ bs) \<longleftrightarrow> bytes as \<and> bytes bs"
  by (simp_all add: bytes_def)

lemma bytes_take_drop: "bytes bs \<Longrightarrow> bytes (take n bs)" "bytes bs \<Longrightarrow> bytes (drop n bs)"
  by (auto simp: bytes_def list_all_iff dest: in_set_takeD in_set_dropD)

lemma from_be_snoc [simp]: "from_be (bs @ [b]) = from_be bs * 256 + b"
  by (simp add: from_be_def)

lemma length_to_be [simp]: "length (to_be k n) = k"
  by (induction k arbitrary: n) simp_all

lemma bytes_to_be [simp]: "bytes (to_be k n)"
  by (induction k arbitrary: n) simp_all

lemma from_to_be: "from_be (to_be k n) = n mod 256 ^ k"
proof (induction k arbitrary: n)
  case 0
  then show ?case by (simp add: from_be_def)
next
  case (Suc k)
  then show ?case by (simp add: mod_mult2_eq)
qed

lemma to_from_be: "bytes bs \<Longrightarrow> to_be (length bs) (from_be bs) = bs"
  by (induction bs rule: rev_induct) simp_all

lemma from_be_bound: "bytes bs \<Longrightarrow> from_be bs < 256 ^ length bs"
proof (induction bs rule: rev_induct)
  case Nil
  then show ?case by (simp add: from_be_def)
next
  case (snoc b bs)
  then have "from_be bs + 1 \<le> 256 ^ length bs" "b < 256" by simp_all
  then have "(from_be bs + 1) * 256 \<le> 256 ^ length bs * 256" by (intro mult_le_mono1)
  with \<open>b < 256\<close> show ?case by simp
qed

section \<open>Encoding\<close>

definition b64_char :: "nat \<Rightarrow> nat" where
  "b64_char v =
     (if v < 26 then 65 + v else if v < 52 then 71 + v else if v < 62 then v - 4
      else if v = 62 then 45 else 95)"

fun urlsafe_b64encode :: "nat list \<Rightarrow> nat list" where
  "urlsafe_b64encode [] = []"
| "urlsafe_b64encode [a] = [b64_char (a div 4), b64_char (a mod 4 * 16), 61, 61]"
| "urlsafe_b64encode [a, b] =
     [b64_char (a div 4), b64_char (a mod 4 * 16 + b div 16), b64_char (b mod 16 * 4), 61]"
| "urlsafe_b64encode (a # b # c # rest) =
     [b64_char (a div 4), b64_char (a mod 4 * 16 + b div 16),
      b64_char (b mod 16 * 4 + c div 64), b64_char (c mod 64)] @ urlsafe_b64encode rest"

definition rstrip_pad :: "nat list \<Rightarrow> nat list" where
  "rstrip_pad s = rev (dropWhile (\<lambda>c. c = 61) (rev s))"

section \<open>Decoding\<close>

definition b64_translate :: "nat \<Rightarrow> nat" where
  "b64_translate c = (if c = 45 then 43 else if c = 95 then 47 else c)"

definition b64_value :: "nat \<Rightarrow> nat option" where
  "b64_value c =
     (if 65 \<le> c \<and> c \<le> 90 then Some (c - 65)
      else if 97 \<le> c \<and> c \<le> 122 then Some (c - 71)
      else if 48 \<le> c \<and> c \<le> 57 then Some (c + 4)
      else if c = 43 then Some 62 else if c = 47 then Some 63 else None)"

text \<open>
  The strict scan.  Its state is the position in the current group of four, the bits left over,
  the pad characters of the current run, and whether a pad character has been seen.
\<close>

fun b64_scan :: "nat \<Rightarrow> nat \<Rightarrow> nat \<Rightarrow> bool \<Rightarrow> nat list \<Rightarrow> nat list option" where
  "b64_scan quad left pads started [] = (if quad = 0 then Some [] else None)"
| "b64_scan quad left pads started (c # cs) =
     (if c = 61 then
        (if 2 \<le> quad \<and> 4 \<le> quad + (pads + 1) then (if cs = [] then Some [] else None)
         else b64_scan quad left (if 2 \<le> quad then pads + 1 else pads) True cs)
      else
        (case b64_value c of
           None \<Rightarrow> None
         | Some v \<Rightarrow>
             if started then None
             else if quad = 0 then b64_scan 1 v 0 False cs
             else if quad = 1 then
               map_option (\<lambda>bs. (left * 4 + v div 16) # bs) (b64_scan 2 (v mod 16) 0 False cs)
             else if quad = 2 then
               map_option (\<lambda>bs. (left * 16 + v div 4) # bs) (b64_scan 3 (v mod 4) 0 False cs)
             else map_option (\<lambda>bs. (left * 64 + v) # bs) (b64_scan 0 0 0 False cs)))"

definition b64decode_strict :: "nat list \<Rightarrow> nat list option" where
  "b64decode_strict s =
     (if s \<noteq> [] \<and> hd s = 61 then None else b64_scan 0 0 0 False (map b64_translate s))"

section \<open>Decoding undoes encoding\<close>

lemma b64_char_value: "v < 64 \<Longrightarrow> b64_value (b64_translate (b64_char v)) = Some v"
  by (auto simp: b64_char_def b64_translate_def b64_value_def)

lemma b64_char_no_pad: "v < 64 \<Longrightarrow> b64_char v \<noteq> 61 \<and> b64_translate (b64_char v) \<noteq> 61"
  by (auto simp: b64_char_def b64_translate_def)

lemma b64_char_ascii: "v < 64 \<Longrightarrow> b64_char v < 128"
  by (auto simp: b64_char_def)

lemma b64_scan_char:
  assumes "v < 64"
  shows "b64_scan quad left pads False (b64_translate (b64_char v) # cs) =
     (if quad = 0 then b64_scan 1 v 0 False cs
      else if quad = 1 then
        map_option (\<lambda>bs. (left * 4 + v div 16) # bs) (b64_scan 2 (v mod 16) 0 False cs)
      else if quad = 2 then
        map_option (\<lambda>bs. (left * 16 + v div 4) # bs) (b64_scan 3 (v mod 4) 0 False cs)
      else map_option (\<lambda>bs. (left * 64 + v) # bs) (b64_scan 0 0 0 False cs))"
  using b64_char_value [OF assms] b64_char_no_pad [OF assms] by simp

lemma sextets:
  fixes a b c :: nat
  assumes "a < 256" "b < 256" "c < 256"
  shows "a div 4 < 64" "a mod 4 * 16 + b div 16 < 64" "b mod 16 * 4 + c div 64 < 64" "c mod 64 < 64"
proof -
  have "b div 16 < 16" "c div 64 < 4" "a div 4 < 64"
    using assms by (simp_all add: less_mult_imp_div_less)
  moreover have "a mod 4 < 4" "b mod 16 < 16" by simp_all
  ultimately show "a div 4 < 64" "a mod 4 * 16 + b div 16 < 64" "b mod 16 * 4 + c div 64 < 64"
    by linarith+
qed simp

lemma b64_scan_group:
  assumes "a < 256" "b < 256" "c < 256"
  shows "b64_scan 0 left pads False
      (map b64_translate (urlsafe_b64encode (a # b # c # rest))) =
    map_option (\<lambda>bs. a # b # c # bs)
      (b64_scan 0 0 0 False (map b64_translate (urlsafe_b64encode rest)))"
proof -
  have "b div 16 < 16" "c div 64 < 4" using assms by (simp_all add: less_mult_imp_div_less)
  then show ?thesis
    by (simp add: b64_scan_char sextets [OF assms] option.map_comp comp_def del: b64_scan.simps)
qed

lemma b64_round_trip:
  "bytes bs \<Longrightarrow> length bs mod 3 = 0 \<Longrightarrow>
     b64_scan 0 left pads False (map b64_translate (urlsafe_b64encode bs)) = Some bs"
proof (induction bs arbitrary: left pads rule: urlsafe_b64encode.induct)
  case (4 a b c rest)
  then have "length rest mod 3 = 0" "bytes rest" by simp_all
  then have "b64_scan 0 0 0 False (map b64_translate (urlsafe_b64encode rest)) = Some rest"
    using 4 by simp
  with 4 show ?case by (subst b64_scan_group) simp_all
qed simp_all

lemma urlsafe_b64encode_whole:
  assumes "bytes bs" and "length bs mod 3 = 0"
  shows "list_all (\<lambda>c. c < 128 \<and> c \<noteq> 61) (urlsafe_b64encode bs) \<and>
    3 * length (urlsafe_b64encode bs) = 4 * length bs"
  using assms
proof (induction bs rule: urlsafe_b64encode.induct)
  case (4 a b c rest)
  then have "length rest mod 3 = 0" "bytes rest" by simp_all
  moreover have "a < 256" "b < 256" "c < 256" using 4 by simp_all
  note sx = sextets [OF this]
  ultimately show ?case using 4 by (simp add: sx b64_char_ascii b64_char_no_pad)
qed simp_all

lemma rstrip_pad_none: "list_all (\<lambda>c. c < 128 \<and> c \<noteq> 61) s \<Longrightarrow> rstrip_pad s = s"
  by (cases s rule: rev_cases) (simp_all add: rstrip_pad_def)

text \<open>The scan only yields bytes.\<close>

lemma b64_value_bound: "b64_value c = Some v \<Longrightarrow> v < 64"
  by (auto simp: b64_value_def split: if_splits)

definition left_ok :: "nat \<Rightarrow> nat \<Rightarrow> bool" where
  "left_ok quad left \<longleftrightarrow>
     quad \<le> 3 \<and> (quad = 1 \<longrightarrow> left < 64) \<and> (quad = 2 \<longrightarrow> left < 16) \<and> (quad = 3 \<longrightarrow> left < 4)"

lemma b64_scan_bytes:
  "b64_scan quad left pads started cs = Some bs \<Longrightarrow> left_ok quad left \<Longrightarrow> bytes bs"
proof (induction quad left pads started cs arbitrary: bs rule: b64_scan.induct)
  case (1 quad left pads started)
  then show ?case by (auto split: if_splits)
next
  case (2 quad left pads started c cs)
  show ?case
  proof (cases "c = 61")
    case True
    with 2 show ?thesis by (auto split: if_splits)
  next
    case False
    then obtain v where v: "b64_value c = Some v" "\<not> started"
      using 2(6) by (auto split: option.splits if_splits)
    then have "v < 64" by (simp add: b64_value_bound)
    then have d: "v div 16 < 4" "v div 4 < 16" by (simp_all add: less_mult_imp_div_less)
    consider (q0) "quad = 0" | (q1) "quad = 1" | (q2) "quad = 2" | (q3) "quad = 3"
      using 2(7) unfolding left_ok_def by linarith
    then show ?thesis
    proof cases
      case q0
      with 2(6) False v have "b64_scan 1 v 0 False cs = Some bs" by simp
      then show ?thesis using 2(2) [OF False v(1,2) q0] \<open>v < 64\<close> by (simp add: left_ok_def)
    next
      case q1
      with 2(6) False v obtain bs' where bs: "b64_scan 2 (v mod 16) 0 False cs = Some bs'"
          "bs = (left * 4 + v div 16) # bs'" by auto
      have "left < 64" using 2(7) q1 by (simp add: left_ok_def)
      then show ?thesis using 2(3) [OF False v(1,2) _ q1 bs(1)] q1 d bs(2) by (simp add: left_ok_def)
    next
      case q2
      with 2(6) False v obtain bs' where bs: "b64_scan 3 (v mod 4) 0 False cs = Some bs'"
          "bs = (left * 16 + v div 4) # bs'" by auto
      have "left < 16" using 2(7) q2 by (simp add: left_ok_def)
      then show ?thesis using 2(4) [OF False v(1,2) _ _ q2 bs(1)] q2 d bs(2) by (simp add: left_ok_def)
    next
      case q3
      with 2(6) False v obtain bs' where bs: "b64_scan 0 0 0 False cs = Some bs'"
          "bs = (left * 64 + v) # bs'" by auto
      have "left < 4" using 2(7) q3 by (simp add: left_ok_def)
      then show ?thesis using 2(5) [OF False v(1,2) _ _ _ bs(1)] q3 \<open>v < 64\<close> bs(2)
        by (simp add: left_ok_def)
    qed
  qed
qed

end
