(* ===== verification/Cursor.thy ===== *)
theory Cursor
  imports Base64
begin

text \<open>
  The opaque pagination cursors of \<open>src/pixiv_yuri/api/cursor.py\<close>.  The parameter \<open>sha\<close> is
  SHA-256 on bytes, whose digests are 32 bytes.  \<open>struct.pack\<close> raises \<open>struct.error\<close>
  (\<open>OtherError\<close>) for an integer of more than 64 bits.
\<close>

section \<open>The plain cursor\<close>

definition cursor_domain :: "nat list" where
  "cursor_domain = lit ''pixiv-yuri-read-cursor-v1'' @ [0]"

definition cursor_checksum :: "(nat list \<Rightarrow> nat list) \<Rightarrow> nat list \<Rightarrow> nat list" where
  "cursor_checksum sha payload = take 6 (sha (cursor_domain @ payload))"

definition pack_u64 :: "int \<Rightarrow> error + nat list" where
  "pack_u64 n = (if 0 \<le> n \<and> n < 2 ^ 64 then Inr (to_be 8 (nat n)) else Inl OtherError)"

definition seal :: "(nat list \<Rightarrow> nat list) \<Rightarrow> nat list \<Rightarrow> pystr" where
  "seal sha payload = rstrip_pad (urlsafe_b64encode (payload @ cursor_checksum sha payload))"

definition encode_cursor :: "(nat list \<Rightarrow> nat list) \<Rightarrow> int \<Rightarrow> error + pystr" where
  "encode_cursor sha row_id =
     (if row_id \<le> 0 then Inl ValueError
      else bindr (pack_u64 row_id) (\<lambda>packed. Inr (seal sha ([1] @ packed))))"

definition cursor_token :: "nat \<Rightarrow> pystr \<Rightarrow> error + nat list" where
  "cursor_token limit cursor =
     (if cursor = [] \<or> limit < length cursor \<or> \<not> is_ascii cursor then Inl InvalidCursor
      else (case b64decode_strict (cursor @ replicate ((4 - length cursor mod 4) mod 4) 61) of
              None \<Rightarrow> Inl InvalidCursor
            | Some token \<Rightarrow> Inr token))"

definition decode_cursor :: "(nat list \<Rightarrow> nat list) \<Rightarrow> pystr option \<Rightarrow> error + int" where
  "decode_cursor sha cursor =
     (case cursor of
        None \<Rightarrow> Inr 0
      | Some c \<Rightarrow>
          bindr (cursor_token 64 c) (\<lambda>token.
            if length token \<noteq> 15 then Inl InvalidCursor
            else let payload = take 9 token; checksum = drop 9 token
                 in if hd payload \<noteq> 1 \<or> checksum \<noteq> cursor_checksum sha payload
                    then Inl InvalidCursor
                    else let row_id = int (from_be (tl payload))
                         in if row_id \<le> 0 then Inl InvalidCursor else Inr row_id))"

section \<open>The ranking cursor\<close>

definition namespace_hash :: "(nat list \<Rightarrow> nat list) \<Rightarrow> pystr \<Rightarrow> error + nat list" where
  "namespace_hash sha namespace =
     (if namespace = [] \<or> 64 < length namespace \<or> \<not> is_ascii namespace then Inl ValueError
      else Inr (take 4 (sha namespace)))"

definition encode_rank_cursor ::
  "(nat list \<Rightarrow> nat list) \<Rightarrow> int \<Rightarrow> int \<Rightarrow> pystr \<Rightarrow> error + pystr" where
  "encode_rank_cursor sha score row_id namespace =
     (if score < 0 \<or> row_id \<le> 0 then Inl ValueError
      else bindr (namespace_hash sha namespace) (\<lambda>h.
        bindr (pack_u64 score) (\<lambda>s.
          bindr (pack_u64 row_id) (\<lambda>r. Inr (seal sha ([2] @ s @ r @ h))))))"

definition decode_rank_cursor ::
  "(nat list \<Rightarrow> nat list) \<Rightarrow> pystr option \<Rightarrow> pystr \<Rightarrow> error + (int \<times> int) option" where
  "decode_rank_cursor sha cursor namespace =
     (case cursor of
        None \<Rightarrow> Inr None
      | Some c \<Rightarrow>
          bindr (cursor_token 80 c) (\<lambda>token.
            if length token \<noteq> 27 then Inl InvalidCursor
            else let payload = take 21 token; checksum = drop 21 token
                 in if hd payload \<noteq> 2 \<or> checksum \<noteq> cursor_checksum sha payload
                    then Inl InvalidCursor
                    else bindr (namespace_hash sha namespace) (\<lambda>h.
                      if drop 17 payload \<noteq> h then Inl InvalidCursor
                      else let score = int (from_be (take 8 (drop 1 payload)));
                               row_id = int (from_be (take 8 (drop 9 payload)))
                           in if row_id \<le> 0 then Inl InvalidCursor
                              else Inr (Some (score, row_id)))))"

section \<open>Sealing\<close>

text \<open>What is documented of SHA-256: a digest is 32 bytes.\<close>

definition digest32 :: "(nat list \<Rightarrow> nat list) \<Rightarrow> bool" where
  "digest32 sha \<longleftrightarrow> (\<forall>x. length (sha x) = 32 \<and> bytes (sha x))"

lemma digest32D: "digest32 sha \<Longrightarrow> length (sha x) = 32" "digest32 sha \<Longrightarrow> bytes (sha x)"
  by (simp_all add: digest32_def)

lemma checksum_shape:
  "digest32 sha \<Longrightarrow> length (cursor_checksum sha p) = 6 \<and> bytes (cursor_checksum sha p)"
  by (simp add: cursor_checksum_def digest32D bytes_take_drop)

lemma seal_opens:
  assumes "digest32 sha" and "bytes payload" and "length payload mod 3 = 0" and "payload \<noteq> []"
    and "4 * (length payload + 6) \<le> 3 * limit"
  shows "cursor_token limit (seal sha payload) = Inr (payload @ cursor_checksum sha payload) \<and>
    3 * length (seal sha payload) = 4 * (length payload + 6) \<and>
    list_all (\<lambda>c. c < 128 \<and> c \<noteq> 61) (seal sha payload)"
proof -
  define token where "token = payload @ cursor_checksum sha payload"
  define c where "c = urlsafe_b64encode token"
  have t: "bytes token" "length token = length payload + 6"
    using assms(1,2) checksum_shape [OF assms(1), of payload] by (simp_all add: token_def)
  then have m: "length token mod 3 = 0" using assms(3) by presburger
  note w = urlsafe_b64encode_whole [OF t(1) m, folded c_def]
  then have seal: "seal sha payload = c"
    by (simp add: seal_def token_def [symmetric] c_def [symmetric] rstrip_pad_none)
  have ne: "c \<noteq> []" using w t assms(4) by auto
  obtain k where "length token = 3 * k" using m by (auto simp: mod_eq_0_iff_dvd)
  then have "length c = 4 * k" using w by simp
  then have "4 dvd length c" by simp
  then have pad: "(4 - length c mod 4) mod 4 = 0" by (simp add: dvd_eq_mod_eq_0)
  have "hd c \<noteq> 61" using w ne by (cases c) auto
  then have "b64decode_strict c = Some token"
    using b64_round_trip [OF t(1) m, of 0 0] by (simp add: b64decode_strict_def c_def)
  moreover have "is_ascii c" using w by (simp add: is_ascii_def list_all_iff)
  moreover have "length c \<le> limit"
  proof -
    have "3 * length c = 4 * (length payload + 6)" using w [THEN conjunct2] t(2) by simp
    then have "3 * length c \<le> 3 * limit" using assms(5) by simp
    then show ?thesis by simp
  qed
  ultimately have "cursor_token limit c = Inr token"
    using ne by (simp add: cursor_token_def pad)
  then show ?thesis using w t by (simp add: seal token_def)
qed

lemma pack_u64_Inr:
  "pack_u64 n = Inr bs \<longleftrightarrow> 0 \<le> n \<and> n < 2 ^ 64 \<and> bs = to_be 8 (nat n)"
  by (auto simp: pack_u64_def)

lemma unpack_u64: "0 \<le> n \<Longrightarrow> n < 2 ^ 64 \<Longrightarrow> int (from_be (to_be 8 (nat n))) = n"
  by (simp add: from_to_be nat_less_iff)

section \<open>What cursors promise\<close>

text \<open>The plain cursor: 20 URL-safe ASCII characters without padding, which decode to the key.\<close>

lemma plain_round_trip:
  assumes "digest32 sha" and "0 < n" and "n < 2 ^ 64"
  shows "\<exists>c. encode_cursor sha n = Inr c \<and> decode_cursor sha (Some c) = Inr n \<and>
    length c = 20 \<and> list_all (\<lambda>x. x < 128 \<and> x \<noteq> 61) c"
proof -
  let ?p = "[1] @ to_be 8 (nat n)"
  have enc: "encode_cursor sha n = Inr (seal sha ?p)"
    using assms by (simp add: encode_cursor_def pack_u64_def)
  have "cursor_token 64 (seal sha ?p) = Inr (?p @ cursor_checksum sha ?p) \<and>
      3 * length (seal sha ?p) = 4 * (length ?p + 6) \<and>
      list_all (\<lambda>c. c < 128 \<and> c \<noteq> 61) (seal sha ?p)"
    using assms(1) by (intro seal_opens) simp_all
  moreover from this have "decode_cursor sha (Some (seal sha ?p)) = Inr n"
    using assms checksum_shape [OF assms(1), of ?p]
    by (simp add: decode_cursor_def Let_def unpack_u64)
  ultimately show ?thesis using enc by simp
qed

lemma zeros_digest: "digest32 (\<lambda>_. replicate 32 0)"
  by (simp add: digest32_def bytes_def list_all_iff)

text \<open>
  C23: A cursor cannot be made up. Whatever text is accepted, its key is positive and has 64
  bits, and the text decodes to exactly the bytes that sealing that key would put into a cursor,
  checksum included; an encoder that is given the key succeeds.
\<close>

lemma cursor_token_bytes: "cursor_token limit c = Inr token \<Longrightarrow> bytes token"
  by (auto simp: cursor_token_def b64decode_strict_def left_ok_def dest: b64_scan_bytes
      split: if_splits option.splits)

theorem accepted_cursor_is_sealed:
  assumes "decode_cursor sha (Some c) = Inr n"
  shows "0 < n \<and> n < 2 ^ 64 \<and>
    cursor_token 64 c = Inr (([1] @ to_be 8 (nat n)) @ cursor_checksum sha ([1] @ to_be 8 (nat n))) \<and>
    encode_cursor sha n = Inr (seal sha ([1] @ to_be 8 (nat n)))"
proof -
  obtain token where t: "cursor_token 64 c = Inr token" "length token = 15"
      "hd (take 9 token) = 1" "drop 9 token = cursor_checksum sha (take 9 token)"
      "n = int (from_be (tl (take 9 token)))" "0 < n"
    using assms by (auto simp: decode_cursor_def bindr_Inr Let_def split: if_splits)
  define body where "body = tl (take 9 token)"
  have "take 9 token \<noteq> []" "length body = 8" using t(2) by (auto simp: body_def)
  then have split: "take 9 token = [1] @ body" using t(3) by (cases "take 9 token") (simp_all add: body_def)
  have "bytes (take 9 token)" using cursor_token_bytes [OF t(1)] by (rule bytes_take_drop)
  then have "bytes body" by (simp add: split)
  with \<open>length body = 8\<close> have be: "to_be 8 (from_be body) = body" and lt: "from_be body < 256 ^ 8"
    using to_from_be [of body] from_be_bound [of body] by simp_all
  have n: "nat n = from_be body" using t(5) by (simp add: body_def)
  then have "n < 2 ^ 64" using lt t(6) by (simp add: zless_nat_eq_int_zless nat_less_iff)
  moreover have "token = take 9 token @ drop 9 token" by simp
  then have "token = ([1] @ to_be 8 (nat n)) @ cursor_checksum sha ([1] @ to_be 8 (nat n))"
    using t(4) by (simp add: n be split)
  ultimately show ?thesis using t(1,6) by (simp add: encode_cursor_def pack_u64_def)
qed

lemma sample_cursor_decodes:
  "decode_cursor (\<lambda>_. replicate 32 0) (Some (seal (\<lambda>_. replicate 32 0) ([1] @ to_be 8 7))) = Inr 7"
  by code_simp

theorem accepted_cursor_is_sealed_witness:
  "encode_cursor (\<lambda>_. replicate 32 0) 7 = Inr (seal (\<lambda>_. replicate 32 0) ([1] @ to_be 8 7))"
  using accepted_cursor_is_sealed [OF sample_cursor_decodes] by simp

text \<open>The ranking cursor comes back under its namespace only.\<close>

lemma rank_round_trip:
  assumes "digest32 sha" and "0 \<le> score" and "score < 2 ^ 64" and "0 < n" and "n < 2 ^ 64"
    and "namespace_hash sha namespace = Inr h" and "namespace_hash sha other = Inr h'"
  shows "\<exists>c. encode_rank_cursor sha score n namespace = Inr c \<and>
    decode_rank_cursor sha (Some c) namespace = Inr (Some (score, n)) \<and>
    (h = h' \<or> decode_rank_cursor sha (Some c) other = Inl InvalidCursor) \<and>
    decode_cursor sha (Some c) = Inl InvalidCursor"
proof -
  let ?p = "2 # to_be 8 (nat score) @ to_be 8 (nat n) @ h"
  have h: "length h = 4 \<and> bytes h"
    using assms(1,6) by (auto simp: namespace_hash_def digest32D bytes_take_drop split: if_splits)
  have enc: "encode_rank_cursor sha score n namespace = Inr (seal sha ?p)"
    using assms by (simp add: encode_rank_cursor_def pack_u64_def)
  have s: "cursor_token limit (seal sha ?p) = Inr (?p @ cursor_checksum sha ?p)" if "36 \<le> limit" for limit
    using assms(1) h that by (intro seal_opens [THEN conjunct1]) simp_all
  have "decode_rank_cursor sha (Some (seal sha ?p)) namespace = Inr (Some (score, n))"
    "h = h' \<or> decode_rank_cursor sha (Some (seal sha ?p)) other = Inl InvalidCursor"
    "decode_cursor sha (Some (seal sha ?p)) = Inl InvalidCursor"
    using assms h checksum_shape [OF assms(1), of ?p]
    by (simp_all add: decode_rank_cursor_def decode_cursor_def s Let_def unpack_u64)
  with enc show ?thesis by simp
qed

text \<open>
  Round trip of the cursors. Every positive key of 64 bits has a plain cursor of 20 URL-safe
  ASCII characters without padding, which decodes to the key; a score and key of 64 bits come back
  from their ranking cursor under the same namespace, which is refused under a namespace whose hash
  differs and as a plain cursor.
\<close>

theorem cursor_round_trip:
  assumes "digest32 sha" and "0 \<le> score" and "score < 2 ^ 64" and "0 < n" and "n < 2 ^ 64"
    and "namespace_hash sha namespace = Inr h" and "namespace_hash sha other = Inr h'"
  shows "(\<exists>c. encode_cursor sha n = Inr c \<and> decode_cursor sha (Some c) = Inr n \<and>
      length c = 20 \<and> list_all (\<lambda>x. x < 128 \<and> x \<noteq> 61) c) \<and>
    (\<exists>c. encode_rank_cursor sha score n namespace = Inr c \<and>
      decode_rank_cursor sha (Some c) namespace = Inr (Some (score, n)) \<and>
      (h = h' \<or> decode_rank_cursor sha (Some c) other = Inl InvalidCursor) \<and>
      decode_cursor sha (Some c) = Inl InvalidCursor)"
  using plain_round_trip [OF assms(1,4,5)] rank_round_trip [OF assms] by blast

theorem cursor_round_trip_witness:
  "(\<exists>c. encode_cursor (\<lambda>_. replicate 32 0) 7 = Inr c \<and> decode_cursor (\<lambda>_. replicate 32 0) (Some c) = Inr 7) \<and>
   (\<exists>c. encode_rank_cursor (\<lambda>_. replicate 32 0) 5 7 (lit ''likes'') = Inr c \<and>
     decode_rank_cursor (\<lambda>_. replicate 32 0) (Some c) (lit ''likes'') = Inr (Some (5, 7)))"
  using cursor_round_trip [OF zeros_digest, of 5 7 "lit ''likes''" "replicate 4 0" "lit ''views''" "replicate 4 0"]
  by (auto simp: namespace_hash_def lit_def is_ascii_def)

end
