(* ===== verification/Json.thy ===== *)
theory Json
  imports Prelude "HOL-Library.List_Lexorder" "HOL-Library.FSet" "HOL-Library.Multiset"
begin

text \<open>
  Decoded JSON values, and the structural fingerprint of
  \<open>src/pixiv_yuri/schema_probe/analyzer.py\<close> (\<open>_json_type\<close>, \<open>_structure_descriptor\<close>,
  \<open>describe_payload\<close>, \<open>fingerprint_payload\<close>), with \<open>json.dumps\<close> of a descriptor
  (\<open>ensure_ascii=False\<close>, sorted keys, compact separators).  A dict is the list of its items;
  a float is its \<open>repr\<close>.  \<open>sha\<close> is the SHA-256 hex digest of the UTF-8 form of a text.
\<close>

section \<open>Values and types\<close>

datatype json =
    JNull
  | JBool bool
  | JInt int
  | JFloat pystr
  | JStr pystr
  | JArr "json list"
  | JObj "(pystr \<times> json) list"

datatype json_type = TNull | TBoolean | TInteger | TNumber | TString | TObject | TArray

fun type_of_json :: "json \<Rightarrow> json_type" where
  "type_of_json JNull = TNull"
| "type_of_json (JBool b) = TBoolean"
| "type_of_json (JInt n) = TInteger"
| "type_of_json (JFloat t) = TNumber"
| "type_of_json (JStr s) = TString"
| "type_of_json (JArr xs) = TArray"
| "type_of_json (JObj fs) = TObject"

fun type_name :: "json_type \<Rightarrow> pystr" where
  "type_name TNull = lit ''null''"
| "type_name TBoolean = lit ''boolean''"
| "type_name TInteger = lit ''integer''"
| "type_name TNumber = lit ''number''"
| "type_name TString = lit ''string''"
| "type_name TObject = lit ''object''"
| "type_name TArray = lit ''array''"

text \<open>The keys of a dict are distinct, at every level.\<close>

fun json_ok :: "json \<Rightarrow> bool" where
  "json_ok (JArr xs) = list_all json_ok xs"
| "json_ok (JObj fs) = (distinct (map fst fs) \<and> list_all (\<lambda>(k, v). json_ok v) fs)"
| "json_ok _ = True"

section \<open>JSON text\<close>

definition hex_digit :: "nat \<Rightarrow> nat" where
  "hex_digit v = (if v < 10 then 48 + v else 87 + v)"

definition json_escape :: "nat \<Rightarrow> pystr" where
  "json_escape c =
     (if c = 34 then [92, 34] else if c = 92 then [92, 92]
      else if c = 10 then [92, 110] else if c = 13 then [92, 114] else if c = 9 then [92, 116]
      else if c = 12 then [92, 102] else if c = 8 then [92, 98]
      else if c < 32 then [92, 117, 48, 48, hex_digit (c div 16), hex_digit (c mod 16)]
      else [c])"

definition json_string :: "pystr \<Rightarrow> pystr" where
  "json_string s = [34] @ concat (map json_escape s) @ [34]"

text \<open>Texts between an opening and a closing character, separated by commas.\<close>

fun seq_tail :: "nat \<Rightarrow> pystr list \<Rightarrow> pystr" where
  "seq_tail close [] = [close]"
| "seq_tail close (t # ts) = 44 # t @ seq_tail close ts"

fun seq_text :: "nat \<Rightarrow> nat \<Rightarrow> pystr list \<Rightarrow> pystr" where
  "seq_text opening close [] = [opening, close]"
| "seq_text opening close (t # ts) = opening # t @ seq_tail close ts"

definition json_member :: "pystr \<Rightarrow> pystr \<Rightarrow> pystr" where
  "json_member k t = json_string k @ [58] @ t"

section \<open>The structure descriptor\<close>

datatype descriptor =
    DescScalar json_type
  | DescObject "(pystr \<times> descriptor) list"
  | DescArray "pystr list"

fun dumps_descriptor :: "descriptor \<Rightarrow> pystr" where
  "dumps_descriptor (DescScalar t) =
     seq_text 123 125 [json_member (lit ''type'') (json_string (type_name t))]"
| "dumps_descriptor (DescObject fs) =
     seq_text 123 125
       [json_member (lit ''fields'')
          (seq_text 123 125 (map (\<lambda>(k, d). json_member k (dumps_descriptor d)) fs)),
        json_member (lit ''type'') (json_string (type_name TObject))]"
| "dumps_descriptor (DescArray items) =
     seq_text 123 125
       [json_member (lit ''items'') (seq_text 91 93 (map json_string items)),
        json_member (lit ''type'') (json_string (type_name TArray))]"

text \<open>
  The fields are taken in sorted key order, which does not depend on their values; the items are
  the sorted set of the texts of the element descriptors.
\<close>

fun structure_descriptor :: "json \<Rightarrow> descriptor" where
  "structure_descriptor (JObj fs) =
     DescObject (sort_key fst (map (\<lambda>(k, v). (k, structure_descriptor v)) fs))"
| "structure_descriptor (JArr xs) =
     DescArray (sort (remdups (map (\<lambda>x. dumps_descriptor (structure_descriptor x)) xs)))"
| "structure_descriptor v = DescScalar (type_of_json v)"

definition fingerprint_payload :: "(pystr \<Rightarrow> pystr) \<Rightarrow> json \<Rightarrow> error + pystr" where
  "fingerprint_payload sha v =
     (let canonical = dumps_descriptor (structure_descriptor v)
      in if utf8_encodable canonical then Inr (sha canonical) else Inl ValueError)"

section \<open>The abstract structure\<close>

text \<open>
  The structure that a fingerprint stands for: the type of a scalar, the set of named fields of
  an object, the set of element structures of an array.
\<close>

datatype shape =
    ShScalar json_type
  | ShObject "(pystr \<times> shape) fset"
  | ShArray "shape fset"

fun shape_of :: "json \<Rightarrow> shape" where
  "shape_of (JObj fs) = ShObject (fset_of_list (map (\<lambda>(k, v). (k, shape_of v)) fs))"
| "shape_of (JArr xs) = ShArray (fset_of_list (map shape_of xs))"
| "shape_of v = ShScalar (type_of_json v)"

section \<open>The text determines the descriptor\<close>

text \<open>A text function is read back uniquely when no text is a proper prefix of another.\<close>

definition reads_back :: "('a \<Rightarrow> pystr) \<Rightarrow> 'a \<Rightarrow> bool" where
  "reads_back f x \<longleftrightarrow> (\<forall>y r r'. f x @ r = f y @ r' \<longrightarrow> x = y \<and> r = r')"

lemma reads_backD: "reads_back f x \<Longrightarrow> f x @ r = f y @ r' \<Longrightarrow> x = y \<and> r = r'"
  by (simp add: reads_back_def)

lemma reads_back_inj: "reads_back f x \<Longrightarrow> f x = f y \<Longrightarrow> x = y"
  using reads_backD [of f x "[]" y "[]"] by simp

text \<open>Reading one escaped character back.\<close>

definition hex_read :: "nat \<Rightarrow> nat" where
  "hex_read h = (if h < 58 then h - 48 else h - 87)"

fun json_unescape :: "pystr \<Rightarrow> nat \<times> pystr" where
  "json_unescape (c # r) =
     (if c \<noteq> 92 then (c, r)
      else case r of
        e # r' \<Rightarrow>
          if e = 110 then (10, r') else if e = 114 then (13, r') else if e = 116 then (9, r')
          else if e = 102 then (12, r') else if e = 98 then (8, r')
          else if e = 117 then
            (case r' of _ # _ # h # l # r'' \<Rightarrow> (16 * hex_read h + hex_read l, r'') | _ \<Rightarrow> (0, []))
          else (e, r')
      | [] \<Rightarrow> (0, []))"
| "json_unescape [] = (0, [])"

lemma hex_read_digit: "v < 16 \<Longrightarrow> hex_read (hex_digit v) = v"
  by (auto simp: hex_read_def hex_digit_def)

lemma json_unescape_escape: "json_unescape (json_escape c @ r) = (c, r)"
proof (cases "c < 32")
  case True
  then have "c div 16 < 16" by (auto simp: less_mult_imp_div_less)
  then show ?thesis by (auto simp: json_escape_def hex_read_digit)
qed (auto simp: json_escape_def)

lemma json_escape_reads_back: "reads_back json_escape c"
  using json_unescape_escape by (auto simp: reads_back_def) (metis prod.inject)+

lemma json_escape_not_quote: "\<exists>a t. json_escape c = a # t \<and> a \<noteq> 34"
  by (auto simp: json_escape_def)

lemma json_string_reads_back: "reads_back json_string s"
proof -
  have body: "concat (map json_escape s) @ 34 # r = concat (map json_escape s') @ 34 # r' \<Longrightarrow>
      s = s' \<and> r = r'" for s' r r'
  proof (induction s arbitrary: s')
    case Nil
    show ?case
    proof (cases s')
      case (Cons c t)
      obtain a u where "json_escape c = a # u" "a \<noteq> 34" using json_escape_not_quote by blast
      with Cons Nil show ?thesis by simp
    qed (use Nil in simp)
  next
    case (Cons c s)
    obtain c' t where s': "s' = c' # t"
    proof (cases s')
      case Nil
      then show thesis using Cons.prems json_escape_not_quote [of c] by auto
    qed
    with Cons.prems have "json_escape c @ concat (map json_escape s) @ 34 # r =
        json_escape c' @ concat (map json_escape t) @ 34 # r'" by simp
    from reads_backD [OF json_escape_reads_back this]
    have "c = c'" "concat (map json_escape s) @ 34 # r = concat (map json_escape t) @ 34 # r'"
      by simp_all
    with Cons.IH s' show ?case by simp
  qed
  show ?thesis unfolding reads_back_def
  proof (intro allI impI)
    fix y r r' assume "json_string s @ r = json_string y @ r'"
    then have "concat (map json_escape s) @ 34 # r = concat (map json_escape y) @ 34 # r'"
      by (simp add: json_string_def)
    then show "s = y \<and> r = r'" by (rule body)
  qed
qed

lemma json_string_first: "\<exists>t. json_string s = 34 # t"
  by (simp add: json_string_def)

lemma seq_tail_reads_back:
  assumes "\<forall>x \<in> set xs. reads_back item x" and "close \<noteq> 44"
    and "seq_tail close (map item xs) @ r = seq_tail close (map item ys) @ r'"
  shows "xs = ys \<and> r = r'"
  using assms(1,3)
proof (induction xs arbitrary: ys)
  case Nil
  then show ?case using assms(2) by (cases ys) auto
next
  case (Cons x xs)
  then obtain y ys' where ys: "ys = y # ys'" using assms(2) by (cases ys) auto
  with Cons.prems have "item x @ seq_tail close (map item xs) @ r =
      item y @ seq_tail close (map item ys') @ r'" by simp
  from reads_backD [where f = item and x = x, OF _ this] Cons.prems(1)
  have "x = y" "seq_tail close (map item xs) @ r = seq_tail close (map item ys') @ r'" by simp_all
  with Cons ys show ?case by simp
qed

lemma seq_text_reads_back:
  assumes "\<forall>x \<in> set xs. reads_back item x" and "close \<noteq> 44"
    and "\<And>x. \<exists>a t. item x = a # t \<and> a \<noteq> close"
    and "seq_text opening close (map item xs) @ r = seq_text opening close (map item ys) @ r'"
  shows "xs = ys \<and> r = r'"
proof (cases xs)
  case Nil
  show ?thesis
  proof (cases ys)
    case Nil
    with \<open>xs = []\<close> assms(4) show ?thesis by simp
  next
    case (Cons y ys')
    obtain a t where "item y = a # t" "a \<noteq> close" using assms(3) by blast
    with Cons \<open>xs = []\<close> assms(4) show ?thesis by simp
  qed
next
  case (Cons x xs')
  obtain y ys' where ys: "ys = y # ys'"
  proof (cases ys)
    case Nil
    then show thesis using Cons assms(4) assms(3) [of x] by auto
  qed
  with Cons assms(4) have "item x @ seq_tail close (map item xs') @ r =
      item y @ seq_tail close (map item ys') @ r'" by simp
  from reads_backD [where f = item and x = x, OF _ this] assms(1) Cons
  have "x = y" "seq_tail close (map item xs') @ r = seq_tail close (map item ys') @ r'" by simp_all
  with Cons ys assms(1,2) show ?thesis using seq_tail_reads_back [of xs' item close r ys' r'] by simp
qed

lemma json_member_reads_back:
  assumes "reads_back f x"
  shows "json_member k (f x) @ r = json_member k' (f y) @ r' \<Longrightarrow> k = k' \<and> x = y \<and> r = r'"
proof -
  assume "json_member k (f x) @ r = json_member k' (f y) @ r'"
  then have "json_string k @ 58 # f x @ r = json_string k' @ 58 # f y @ r'"
    by (simp add: json_member_def)
  then have "k = k'" "58 # f x @ r = 58 # f y @ r'"
    using reads_backD [OF json_string_reads_back [of k]] by blast+
  with reads_backD [OF assms] show ?thesis by simp
qed

lemma json_member_first: "\<exists>a t. json_member k v = a # t \<and> a \<noteq> 125 \<and> a \<noteq> 93"
  using json_string_first [of k] by (auto simp: json_member_def)

lemma type_name_inject [simp]: "type_name t = type_name t' \<longleftrightarrow> t = t'"
  by (cases t; cases t') (simp_all add: lit_def)

text \<open>The third character tells the three kinds of descriptor text apart.\<close>

lemma dumps_kind:
  "(dumps_descriptor d @ r) ! 2 =
     (case d of DescScalar _ \<Rightarrow> 116 | DescObject _ \<Rightarrow> 102 | DescArray _ \<Rightarrow> 105)"
  by (cases d) (simp_all add: json_member_def json_string_def lit_def json_escape_def)

lemma dumps_scalar_eq:
  "dumps_descriptor (DescScalar t) @ r = dumps_descriptor (DescScalar t') @ r' \<longleftrightarrow> t = t' \<and> r = r'"
proof
  assume "dumps_descriptor (DescScalar t) @ r = dumps_descriptor (DescScalar t') @ r'"
  then have "json_member (lit ''type'') (json_string (type_name t)) @ 125 # r =
      json_member (lit ''type'') (json_string (type_name t')) @ 125 # r'" by simp
  from json_member_reads_back [OF json_string_reads_back this] show "t = t' \<and> r = r'" by simp
qed simp

lemma dumps_array_eq:
  assumes "dumps_descriptor (DescArray xs) @ r = dumps_descriptor (DescArray ys) @ r'"
  shows "xs = ys \<and> r = r'"
proof -
  have "seq_text 91 93 (map json_string xs) @ seq_tail 125 [json_member (lit ''type'')
        (json_string (type_name TArray))] @ r =
      seq_text 91 93 (map json_string ys) @ seq_tail 125 [json_member (lit ''type'')
        (json_string (type_name TArray))] @ r'"
    using assms by (simp add: json_member_def)
  moreover have "\<exists>a t. json_string x = a # t \<and> a \<noteq> 93" for x
    using json_string_first [of x] by auto
  ultimately have "xs = ys \<and> seq_tail 125 [json_member (lit ''type'')
        (json_string (type_name TArray))] @ r = seq_tail 125 [json_member (lit ''type'')
        (json_string (type_name TArray))] @ r'"
    by (intro seq_text_reads_back) (simp_all add: json_string_reads_back)
  then show ?thesis by simp
qed

lemma dumps_object_eq:
  assumes "\<forall>(k, d) \<in> set fs. reads_back dumps_descriptor d"
    and "dumps_descriptor (DescObject fs) @ r = dumps_descriptor (DescObject gs) @ r'"
  shows "fs = gs \<and> r = r'"
proof -
  let ?item = "\<lambda>(k, d). json_member k (dumps_descriptor d)"
  have "seq_text 123 125 (map ?item fs) @ seq_tail 125 [json_member (lit ''type'')
        (json_string (type_name TObject))] @ r =
      seq_text 123 125 (map ?item gs) @ seq_tail 125 [json_member (lit ''type'')
        (json_string (type_name TObject))] @ r'"
    using assms(2) by (simp add: json_member_def)
  moreover have "\<forall>x \<in> set fs. reads_back ?item x"
  proof
    fix x assume "x \<in> set fs"
    then obtain k d where x: "x = (k, d)" "reads_back dumps_descriptor d"
      using assms(1) by (cases x) auto
    show "reads_back ?item x" unfolding reads_back_def x(1)
    proof (intro allI impI)
      fix y r r' assume eq: "?item (k, d) @ r = ?item y @ r'"
      obtain k' d' where y: "y = (k', d')" by (cases y)
      from eq have "json_member k (dumps_descriptor d) @ r = json_member k' (dumps_descriptor d') @ r'"
        by (simp add: y)
      from json_member_reads_back [OF x(2) this] show "(k, d) = y \<and> r = r'" by (simp add: y)
    qed
  qed
  moreover have "\<And>x. \<exists>a t. ?item x = a # t \<and> a \<noteq> 125"
    using json_member_first by (auto split: prod.splits) metis
  ultimately have "fs = gs \<and> seq_tail 125 [json_member (lit ''type'')
        (json_string (type_name TObject))] @ r = seq_tail 125 [json_member (lit ''type'')
        (json_string (type_name TObject))] @ r'"
    by (intro seq_text_reads_back) auto
  then show ?thesis by simp
qed

lemma dumps_reads_back: "reads_back dumps_descriptor d"
proof (induction d)
  case (DescScalar t)
  show ?case unfolding reads_back_def
  proof (intro allI impI)
    fix y r r' assume eq: "dumps_descriptor (DescScalar t) @ r = dumps_descriptor y @ r'"
    then obtain t' where "y = DescScalar t'"
      using dumps_kind [of "DescScalar t" r] dumps_kind [of y r'] by (cases y) simp_all
    with eq dumps_scalar_eq show "DescScalar t = y \<and> r = r'" by blast
  qed
next
  case (DescObject fs)
  show ?case unfolding reads_back_def
  proof (intro allI impI)
    fix y r r' assume eq: "dumps_descriptor (DescObject fs) @ r = dumps_descriptor y @ r'"
    have "\<forall>(k, d) \<in> set fs. reads_back dumps_descriptor d"
      using DescObject by (auto simp: snds.simps)
    moreover obtain gs where "y = DescObject gs"
      using eq dumps_kind [of "DescObject fs" r] dumps_kind [of y r'] by (cases y) simp_all
    ultimately show "DescObject fs = y \<and> r = r'" using eq dumps_object_eq by blast
  qed
next
  case (DescArray xs)
  show ?case unfolding reads_back_def
  proof (intro allI impI)
    fix y r r' assume eq: "dumps_descriptor (DescArray xs) @ r = dumps_descriptor y @ r'"
    then obtain ys where "y = DescArray ys"
      using dumps_kind [of "DescArray xs" r] dumps_kind [of y r'] by (cases y) simp_all
    with eq dumps_array_eq show "DescArray xs = y \<and> r = r'" by blast
  qed
qed

section \<open>The descriptor determines the structure\<close>

lemma image_eq_iff:
  assumes "\<And>x y. x \<in> A \<Longrightarrow> y \<in> B \<Longrightarrow> f x = f y \<longleftrightarrow> g x = g y"
  shows "f ` A = f ` B \<longleftrightarrow> g ` A = g ` B"
proof -
  have sub: "h ` A \<subseteq> h ` B \<longleftrightarrow> (\<forall>x \<in> A. \<exists>y \<in> B. h x = h y)"
    "h ` B \<subseteq> h ` A \<longleftrightarrow> (\<forall>y \<in> B. \<exists>x \<in> A. h x = h y)" for h :: "'a \<Rightarrow> 'c"
    unfolding image_subset_iff image_iff by metis+
  have sub': "h ` A \<subseteq> h ` B \<longleftrightarrow> (\<forall>x \<in> A. \<exists>y \<in> B. h x = h y)"
    "h ` B \<subseteq> h ` A \<longleftrightarrow> (\<forall>y \<in> B. \<exists>x \<in> A. h x = h y)" for h :: "'a \<Rightarrow> 'd"
    unfolding image_subset_iff image_iff by metis+
  show ?thesis unfolding set_eq_subset sub sub' using assms by blast
qed

lemma sorted_by_key_unique:
  assumes "distinct (map fst xs)" and "distinct (map fst ys)"
  shows "sort_key fst xs = sort_key fst ys \<longleftrightarrow> set xs = set (ys :: (pystr \<times> 'a) list)"
proof
  assume "set xs = set ys"
  moreover have "inj_on fst (set xs)" using assms(1) by (simp add: distinct_map)
  ultimately show "sort_key fst xs = sort_key fst ys"
    using assms by (intro map_sorted_distinct_set_unique [where f = fst])
      (auto simp: distinct_map distinct_sort inj_on_def)
next
  assume "sort_key fst xs = sort_key fst ys"
  then show "set xs = set ys" by (metis set_sort)
qed

lemma sorted_set_unique: "sort (remdups xs) = sort (remdups ys) \<longleftrightarrow> set xs = set (ys :: pystr list)"
  by (metis set_remdups set_sort sorted_list_of_set_sort_remdups)

lemma descriptor_iff_shape:
  "json_ok v \<Longrightarrow> json_ok w \<Longrightarrow> structure_descriptor v = structure_descriptor w \<longleftrightarrow> shape_of v = shape_of w"
proof (induction v arbitrary: w)
  case (JArr xs)
  show ?case
  proof (cases w)
    case (JArr ys)
    let ?t = "\<lambda>x. dumps_descriptor (structure_descriptor x)"
    have "?t x = ?t y \<longleftrightarrow> shape_of x = shape_of y" if "x \<in> set xs" "y \<in> set ys" for x y
    proof -
      have "json_ok x" "json_ok y" using JArr.prems that JArr by (auto simp: list_all_iff)
      then show ?thesis using JArr.IH that(1) reads_back_inj [OF dumps_reads_back] by metis
    qed
    then have "?t ` set xs = ?t ` set ys \<longleftrightarrow> shape_of ` set xs = shape_of ` set ys"
      by (rule image_eq_iff)
    then show ?thesis using JArr
      by (simp add: sorted_set_unique fset_of_list.rep_eq flip: fset_inject)
  qed auto
next
  case (JObj fs)
  show ?case
  proof (cases w)
    case (JObj gs)
    let ?d = "\<lambda>(k, v). (k, structure_descriptor v)" and ?s = "\<lambda>(k, v). (k, shape_of v)"
    have "?d x = ?d y \<longleftrightarrow> ?s x = ?s y" if "x \<in> set fs" "y \<in> set gs" for x y
    proof -
      have "json_ok (snd x)" "json_ok (snd y)"
        using JObj.prems that JObj by (auto simp: list_all_iff)
      then have "structure_descriptor (snd x) = structure_descriptor (snd y) \<longleftrightarrow>
          shape_of (snd x) = shape_of (snd y)"
        using JObj.IH [of x "snd x" "snd y"] that(1) by (auto simp: snds.simps)
      then show ?thesis by (cases x; cases y) simp
    qed
    then have "?d ` set fs = ?d ` set gs \<longleftrightarrow> ?s ` set fs = ?s ` set gs"
      by (rule image_eq_iff)
    moreover have keys: "map fst (map ?d hs) = map fst hs" for hs :: "(pystr \<times> json) list"
      by (induction hs) auto
    have "distinct (map fst (map ?d fs))" "distinct (map fst (map ?d gs))"
      unfolding keys using JObj.prems JObj by simp_all
    then have "sort_key fst (map ?d fs) = sort_key fst (map ?d gs) \<longleftrightarrow>
        set (map ?d fs) = set (map ?d gs)"
      by (rule sorted_by_key_unique)
    ultimately show ?thesis using JObj
      by (simp add: fset_of_list.rep_eq flip: fset_inject)
  qed auto
next
  case JNull
  then show ?case by (cases w) simp_all
next
  case (JBool b)
  then show ?case by (cases w) simp_all
next
  case (JInt n)
  then show ?case by (cases w) simp_all
next
  case (JFloat t)
  then show ?case by (cases w) simp_all
next
  case (JStr t)
  then show ?case by (cases w) simp_all
qed

text \<open>
  C25: The fingerprint is exactly the structure. Two payloads get the same fingerprint precisely
  when their structures agree (field names and types, nesting, and the set of element structures
  of each array), as far as the digest tells two texts apart; in particular it depends neither on
  the order of keys, nor on the order or number of array elements, nor on any scalar value.
\<close>

theorem fingerprint_is_the_structure:
  assumes "json_ok v" and "json_ok w" and "fingerprint_payload sha v = Inr f"
    and "inj_on sha {dumps_descriptor (structure_descriptor v), dumps_descriptor (structure_descriptor w)}"
  shows "fingerprint_payload sha w = Inr f \<longleftrightarrow> shape_of v = shape_of w"
proof -
  have "shape_of v = shape_of w \<longleftrightarrow>
      dumps_descriptor (structure_descriptor v) = dumps_descriptor (structure_descriptor w)"
    using descriptor_iff_shape [OF assms(1,2)] reads_back_inj [OF dumps_reads_back] by metis
  with assms(3,4) show ?thesis
    by (auto simp: fingerprint_payload_def Let_def inj_on_def split: if_splits)
qed

definition sample_payload :: json where
  "sample_payload = JObj [(lit ''b'', JArr [JInt 1, JNull]), (lit ''a'', JStr [65])]"

definition sample_permuted :: json where
  "sample_permuted = JObj [(lit ''a'', JStr [66]), (lit ''b'', JArr [JNull, JInt 7, JInt 1])]"

lemma sample_fingerprint:
  "fingerprint_payload (\<lambda>s. s) sample_payload =
     Inr (dumps_descriptor (structure_descriptor sample_payload))"
proof -
  have "utf8_encodable (dumps_descriptor (structure_descriptor sample_payload))"
    by (simp add: sample_payload_def utf8_encodable_def is_surrogate_def json_member_def
        json_string_def lit_def json_escape_def)
  then show ?thesis by (simp add: fingerprint_payload_def Let_def)
qed

theorem fingerprint_is_the_structure_witness:
  "fingerprint_payload (\<lambda>s. s) sample_permuted =
     Inr (dumps_descriptor (structure_descriptor sample_payload))"
proof -
  have "shape_of sample_payload = shape_of sample_permuted"
    by (auto simp: sample_payload_def sample_permuted_def)
  moreover have "json_ok sample_payload" "json_ok sample_permuted" by code_simp+
  moreover have "inj_on (\<lambda>s. s) A" for A :: "pystr set" by (simp add: inj_on_def)
  ultimately show ?thesis
    by (intro iffD2 [OF fingerprint_is_the_structure [OF _ _ sample_fingerprint]])
qed

end
