(* ===== verification/Floats.thy ===== *)
theory Floats
  imports Prelude "HOL-Library.Log_Nat"
begin

text \<open>
  Python floats as the rational numbers they denote: each operation of the code is the exact
  operation followed by \<open>double\<close>, rounding to the nearest number of 53 significant bits, ties to
  even.  Overflow, subnormal numbers and the sign of zero are outside the range the modelled
  components compute in.  \<open>py_round\<close> is \<open>round(x, n)\<close>, which rounds the exact value of the
  float in decimal, half to even.
\<close>

section \<open>Rounding to an integer\<close>

definition round_half_even :: "rat \<Rightarrow> int" where
  "round_half_even x =
     (let f = \<lfloor>x\<rfloor>; r = x - of_int f
      in if r < 1 / 2 then f else if 1 / 2 < r then f + 1 else if even f then f else f + 1)"

lemma round_half_even_int [simp]: "round_half_even (of_int n) = n"
  by (simp add: round_half_even_def)

lemma round_half_even_bounds:
  "of_int (round_half_even x) \<le> x + 1 / 2 \<and> x - 1 / 2 \<le> of_int (round_half_even x)"
proof -
  define f where "f = (of_int \<lfloor>x\<rfloor> :: rat)"
  have f: "f \<le> x" "x < f + 1" unfolding f_def by linarith+
  have "of_int (round_half_even x) = f \<and> x - f \<le> 1 / 2 \<or>
      of_int (round_half_even x) = f + 1 \<and> 1 / 2 \<le> x - f"
    by (auto simp: round_half_even_def Let_def f_def)
  with f show ?thesis by auto
qed

lemma round_half_even_mono: "x \<le> y \<Longrightarrow> round_half_even x \<le> round_half_even y"
proof (cases "\<lfloor>x\<rfloor> = \<lfloor>y\<rfloor>")
  case True
  then show "x \<le> y \<Longrightarrow> round_half_even x \<le> round_half_even y"
    by (auto simp: round_half_even_def Let_def)
next
  case False
  assume "x \<le> y"
  with False have lt: "\<lfloor>x\<rfloor> + 1 \<le> \<lfloor>y\<rfloor>" using floor_mono [of x y] by linarith
  have "round_half_even x \<le> \<lfloor>x\<rfloor> + 1" "\<lfloor>y\<rfloor> \<le> round_half_even y"
    by (auto simp: round_half_even_def Let_def)
  with lt show ?thesis by linarith
qed

section \<open>Binary exponents\<close>

definition rat_log2 :: "rat \<Rightarrow> int" where
  "rat_log2 x =
     (let (p, q) = quotient_of x; k = bitlen p - bitlen q
      in if 2 powi k \<le> x then k else k - 1)"

lemma bitlen_rat:
  assumes "0 < (n::int)"
  shows "2 powi (bitlen n - 1) \<le> (of_int n :: rat) \<and> (of_int n :: rat) < 2 powi bitlen n"
proof -
  have pos: "0 < bitlen n" using assms bitlen_eq_zero_iff [of n] bitlen_nonneg [of n] by simp
  have b: "2 ^ nat (bitlen n - 1) \<le> n \<and> n < 2 ^ nat (bitlen n)" using assms by (rule bitlen_bounds)
  have e: "(2::rat) powi (bitlen n - 1) = of_int (2 ^ nat (bitlen n - 1))"
    "(2::rat) powi bitlen n = of_int (2 ^ nat (bitlen n))"
    using pos by (simp_all add: power_int_def)
  show ?thesis unfolding e of_int_le_iff of_int_less_iff by (rule b)
qed

lemma rat_log2_bounds:
  assumes "0 < x"
  shows "2 powi rat_log2 x \<le> x \<and> x < 2 powi (rat_log2 x + 1)"
proof -
  obtain p q where pq: "quotient_of x = (p, q)" by fastforce
  then have q: "0 < q" by (rule quotient_of_denom_pos)
  have x: "x = of_int p / of_int q" using pq by (rule quotient_of_div)
  with assms q have p: "0 < p" by (simp add: zero_less_divide_iff)
  define k where "k = bitlen p - bitlen q"
  note bp = bitlen_rat [OF p] and bq = bitlen_rat [OF q]
  have "x \<le> of_int p / 2 powi (bitlen q - 1)"
    unfolding x using bq p q by (intro divide_left_mono) (simp_all add: zero_less_mult_iff)
  also have "\<dots> < 2 powi bitlen p / 2 powi (bitlen q - 1)"
    using bp by (intro divide_strict_right_mono) simp_all
  also have "\<dots> = 2 powi (k + 1)" by (simp add: k_def power_int_diff [symmetric] algebra_simps)
  finally have hi: "x < 2 powi (k + 1)" .
  have "2 powi (k - 1) = 2 powi (bitlen p - 1) / (2::rat) powi bitlen q"
    by (simp add: k_def power_int_diff [symmetric] algebra_simps)
  also have "\<dots> \<le> of_int p / 2 powi bitlen q"
    using bp by (intro divide_right_mono) simp_all
  also have "\<dots> \<le> x" unfolding x using bq p q by (intro divide_left_mono) simp_all
  finally have lo: "2 powi (k - 1) \<le> x" .
  show ?thesis using hi lo by (auto simp: rat_log2_def pq k_def [symmetric] not_le)
qed

lemma rat_log2_mono: "0 < x \<Longrightarrow> x \<le> y \<Longrightarrow> rat_log2 x \<le> rat_log2 y"
proof (rule ccontr)
  assume "0 < x" "x \<le> y" "\<not> rat_log2 x \<le> rat_log2 y"
  then have "2 powi (rat_log2 y + 1) \<le> (2::rat) powi rat_log2 x"
    by (intro power_int_increasing) simp_all
  moreover have "y < 2 powi (rat_log2 y + 1)" "2 powi rat_log2 x \<le> x"
    using rat_log2_bounds [of x] rat_log2_bounds [of y] \<open>0 < x\<close> \<open>x \<le> y\<close> by simp_all
  ultimately show False using \<open>x \<le> y\<close> by simp
qed

section \<open>Rounding to a double\<close>

definition double_pos :: "rat \<Rightarrow> rat" where
  "double_pos x =
     (let e = rat_log2 x - 52 in of_int (round_half_even (x / 2 powi e)) * 2 powi e)"

definition double :: "rat \<Rightarrow> rat" where
  "double x = (if x = 0 then 0 else if 0 < x then double_pos x else - double_pos (- x))"

lemma double_0 [simp]: "double 0 = 0"
  by (simp add: double_def)

lemma double_minus: "double (- x) = - double x"
  by (simp add: double_def)

text \<open>The significand has 53 bits.\<close>

lemma significand_bounds:
  assumes "0 < x" and "e = rat_log2 x - 52"
  shows "2 ^ 52 \<le> x / 2 powi e \<and> x / 2 powi e < 2 ^ 53"
proof -
  have s: "2 powi rat_log2 x = 2 ^ 52 * (2::rat) powi e"
    "2 powi (rat_log2 x + 1) = 2 ^ 53 * (2::rat) powi e"
    by (simp_all add: assms(2) power_int_diff power_int_add)
  have "(0::rat) < 2 powi e" by simp
  then show ?thesis using rat_log2_bounds [OF assms(1)] unfolding s
    by (simp add: pos_le_divide_eq pos_divide_less_eq)
qed

lemma double_pos_range:
  assumes "0 < x"
  shows "2 powi rat_log2 x \<le> double_pos x \<and> double_pos x \<le> 2 powi (rat_log2 x + 1)"
proof -
  define e where "e = rat_log2 x - 52"
  note b = significand_bounds [OF assms e_def]
  have "round_half_even (of_int (2 ^ 52)) \<le> round_half_even (x / 2 powi e)"
    using b by (intro round_half_even_mono) simp
  moreover have "round_half_even (x / 2 powi e) \<le> round_half_even (of_int (2 ^ 53))"
    using b by (intro round_half_even_mono) simp
  ultimately have m: "2 ^ 52 \<le> round_half_even (x / 2 powi e)" "round_half_even (x / 2 powi e) \<le> 2 ^ 53"
    by (simp_all only: round_half_even_int)
  have lo: "(2::rat) ^ 52 \<le> of_int (round_half_even (x / 2 powi e))"
    using of_int_le_iff [of "2 ^ 52" "round_half_even (x / 2 powi e)", where ?'a = rat] m(1) by simp
  have hi: "of_int (round_half_even (x / 2 powi e)) \<le> (2::rat) ^ 53"
    using of_int_le_iff [of "round_half_even (x / 2 powi e)" "2 ^ 53", where ?'a = rat] m(2) by simp
  have "2 powi rat_log2 x = 2 ^ 52 * (2::rat) powi e"
    "2 powi (rat_log2 x + 1) = 2 ^ 53 * (2::rat) powi e"
    by (simp_all add: e_def power_int_diff power_int_add)
  then show ?thesis using mult_right_mono [OF lo, of "2 powi e"] mult_right_mono [OF hi, of "2 powi e"]
    by (simp add: double_pos_def e_def [symmetric] Let_def)
qed

lemma double_pos_mono:
  assumes "0 < x" and "x \<le> y"
  shows "double_pos x \<le> double_pos y"
proof (cases "rat_log2 x = rat_log2 y")
  case True
  have "x / 2 powi (rat_log2 y - 52) \<le> y / 2 powi (rat_log2 y - 52)"
    using assms by (intro divide_right_mono) simp_all
  then have "of_int (round_half_even (x / 2 powi (rat_log2 y - 52))) \<le>
      (of_int (round_half_even (y / 2 powi (rat_log2 y - 52))) :: rat)"
    unfolding of_int_le_iff by (rule round_half_even_mono)
  then show ?thesis by (simp add: double_pos_def True Let_def)
next
  case False
  then have "rat_log2 x + 1 \<le> rat_log2 y" using rat_log2_mono [OF assms] by simp
  then have "2 powi (rat_log2 x + 1) \<le> (2::rat) powi rat_log2 y" by (intro power_int_increasing) simp_all
  then show ?thesis using double_pos_range [of x] double_pos_range [of y] assms by simp
qed

lemma double_nonneg: "0 \<le> x \<Longrightarrow> 0 \<le> double x"
proof (cases "x = 0")
  case False
  assume "0 \<le> x"
  with False have "0 < x" by simp
  then have "2 powi rat_log2 x \<le> double x" using double_pos_range by (simp add: double_def)
  moreover have "(0::rat) \<le> 2 powi rat_log2 x" by simp
  ultimately show ?thesis by (rule order_trans [rotated])
qed simp

lemma double_mono:
  assumes "x \<le> y"
  shows "double x \<le> double y"
proof -
  consider "0 \<le> x" | "x < 0" "0 \<le> y" | "y < 0" using assms by linarith
  then show ?thesis
  proof cases
    case 1
    then show ?thesis
      using assms double_pos_mono [of x y] double_nonneg [of y] by (cases "x = 0") (auto simp: double_def)
  next
    case 2
    then have "0 \<le> double (- x)" by (intro double_nonneg) simp
    then have "double x \<le> 0" by (simp add: double_minus)
    with double_nonneg [OF 2(2)] show ?thesis by simp
  next
    case 3
    then show ?thesis using assms double_pos_mono [of "- y" "- x"] by (auto simp: double_def)
  qed
qed

text \<open>The relative error of one operation is at most \<open>2 ^ -53\<close>.\<close>

lemma double_error:
  assumes "0 \<le> x"
  shows "\<bar>double x - x\<bar> \<le> x / 2 ^ 53"
proof (cases "x = 0")
  case False
  with assms have x: "0 < x" by simp
  define e where "e = rat_log2 x - 52"
  define m where "m = x / 2 powi e"
  have pos: "(0::rat) < 2 powi e" by simp
  have "\<bar>of_int (round_half_even m) - m\<bar> \<le> 1 / 2"
    using round_half_even_bounds [of m] by (cases "of_int (round_half_even m) \<le> m") simp_all
  then have "\<bar>of_int (round_half_even m) - m\<bar> * 2 powi e \<le> 1 / 2 * 2 powi e"
    using pos by (intro mult_right_mono) simp_all
  moreover have "double x - x = (of_int (round_half_even m) - m) * 2 powi e"
    using x by (simp add: double_def double_pos_def Let_def e_def [symmetric] m_def left_diff_distrib)
  ultimately have "\<bar>double x - x\<bar> \<le> 1 / 2 * 2 powi e" using pos by (simp add: abs_mult)
  also have "\<dots> \<le> x / 2 ^ 53"
    using significand_bounds [OF x e_def] pos by (simp add: pos_le_divide_eq)
  finally show ?thesis .
qed simp

text \<open>Integers of at most 53 bits are exact.\<close>

lemma double_of_int:
  assumes "\<bar>n\<bar> < 2 ^ 53"
  shows "double (of_int n) = of_int n"
proof -
  have nat_case: "double_pos (of_int n) = of_int n" if "0 < n" "n < 2 ^ 53" for n
  proof -
    define e where "e = rat_log2 (of_int n) - 52"
    have lg: "2 powi rat_log2 (of_int n) \<le> (of_int n :: rat)"
      using rat_log2_bounds [of "of_int n"] that by simp
    have "e \<le> 0"
    proof (rule ccontr)
      assume "\<not> e \<le> 0"
      then have "(2::rat) powi 53 \<le> 2 powi rat_log2 (of_int n)"
        unfolding e_def by (intro power_int_increasing) simp_all
      also have "\<dots> \<le> of_int n" by (rule lg)
      finally have "(of_int (2 ^ 53) :: rat) \<le> of_int n" by (simp add: power_int_def)
      then have "2 ^ 53 \<le> n" by (simp only: of_int_le_iff)
      with that show False by simp
    qed
    then have p: "(2::rat) powi e = 1 / of_int (2 ^ nat (- e))"
      by (cases "e = 0") (simp_all add: power_int_def power_one_over inverse_eq_divide)
    then have "of_int n / (2::rat) powi e = of_int (n * 2 ^ nat (- e))" by simp
    then have r: "round_half_even (of_int n / 2 powi e) = n * 2 ^ nat (- e)"
      by (simp only: round_half_even_int)
    have "double_pos (of_int n) = of_int (round_half_even (of_int n / 2 powi e)) * 2 powi e"
      by (simp only: double_pos_def Let_def e_def)
    also have "\<dots> = of_int (n * 2 ^ nat (- e)) * (1 / of_int (2 ^ nat (- e)))"
      unfolding r by (simp only: p)
    finally show ?thesis by simp
  qed
  consider "n = 0" | "0 < n" "n < 2 ^ 53" | "n < 0" "- n < 2 ^ 53" using assms by linarith
  then show ?thesis
  proof cases
    case 2
    then show ?thesis using nat_case [OF 2] by (simp add: double_def)
  next
    case 3
    then have "0 < - n" by simp
    from nat_case [OF this 3(2)] 3(1) show ?thesis by (simp add: double_def)
  qed simp
qed

text \<open>\<open>int(x)\<close> of a float cuts towards zero.\<close>

definition trunc_int :: "rat \<Rightarrow> int" where
  "trunc_int x = (if 0 \<le> x then \<lfloor>x\<rfloor> else \<lceil>x\<rceil>)"

lemma trunc_int_mono: "x \<le> y \<Longrightarrow> trunc_int x \<le> trunc_int y"
proof -
  assume le: "x \<le> y"
  consider "y < 0" | "x < 0" "0 \<le> y" | "0 \<le> x" using not_le by blast
  then show ?thesis
  proof cases
    case 2
    have "\<lceil>x\<rceil> \<le> 0" using 2(1) by (simp add: ceiling_le_iff)
    also have "0 \<le> \<lfloor>y\<rfloor>" using 2(2) by simp
    finally show ?thesis using 2 by (simp add: trunc_int_def)
  qed (use le in \<open>auto simp: trunc_int_def floor_mono ceiling_mono\<close>)
qed

section \<open>Decimal rounding\<close>

definition py_round :: "nat \<Rightarrow> rat \<Rightarrow> rat" where
  "py_round n x = double (of_int (round_half_even (x * 10 ^ n)) / 10 ^ n)"

lemma py_round_mono: "x \<le> y \<Longrightarrow> py_round n x \<le> py_round n y"
  by (simp add: py_round_def double_mono round_half_even_mono divide_right_mono mult_right_mono)

lemma py_round_int: "\<bar>k\<bar> < 2 ^ 53 \<Longrightarrow> py_round n (of_int k) = of_int k"
proof -
  assume k: "\<bar>k\<bar> < 2 ^ 53"
  have "round_half_even (of_int k * 10 ^ n) = k * 10 ^ n"
    using round_half_even_int [of "k * 10 ^ n"] by simp
  then show ?thesis using double_of_int [OF k] by (simp add: py_round_def)
qed

section \<open>The contract of a rounding\<close>

text \<open>What the components rely on: roundings keep order and integers, hence integer bounds.\<close>

locale rounding =
  fixes fl :: "rat \<Rightarrow> rat"
  assumes fl_mono: "x \<le> y \<Longrightarrow> fl x \<le> fl y"
    and fl_int: "\<bar>n\<bar> < 2 ^ 53 \<Longrightarrow> fl (of_int n) = of_int n"
begin

lemma fl_bounds:
  assumes "of_int a \<le> x" and "x \<le> of_int b" and "\<bar>a\<bar> < 2 ^ 53" and "\<bar>b\<bar> < 2 ^ 53"
  shows "of_int a \<le> fl x \<and> fl x \<le> of_int b"
  using fl_mono [OF assms(1)] fl_mono [OF assms(2)] fl_int [OF assms(3)] fl_int [OF assms(4)] by simp

lemma fl_unit: "0 \<le> x \<Longrightarrow> x \<le> 1 \<Longrightarrow> 0 \<le> fl x \<and> fl x \<le> 1"
  using fl_bounds [of 0 x 1] by simp

lemma fl_1: "fl 1 = 1"
  using fl_int [of 1] by simp

end

interpretation double: rounding double
  by unfold_locales (simp_all add: double_mono double_of_int)

interpretation decimal: rounding "py_round n" for n
  by unfold_locales (simp_all add: py_round_mono py_round_int)

end
