(* ===== verification/Pipeline.thy ===== *)
theory Pipeline
  imports Prelude
begin

text \<open>
  Acquisition requests (\<open>src/pixiv_yuri/acquisition/models.py\<close>), the bounded two-stage
  pipeline of \<open>src/pixiv_yuri/acquisition/pipeline.py\<close> and its ordered database commit,
  \<open>src/pixiv_yuri/ingest/ordered_pipeline.py\<close>.

  The provider is a stateful function from a request to a response or an exception; the
  processor is a function from a response to a result or an exception, run by a worker thread.
  A future is the outcome its task has or will have.  When a task finishes is up to the
  scheduler: \<open>done k i\<close> says whether future \<open>i\<close> has finished when iteration \<open>k\<close> of the
  fetch loop looks at it; \<open>result()\<close> waits for it in any case.  Every statement is for all
  schedules.  A processor that never finishes is not modelled.
\<close>

section \<open>Requests\<close>

datatype entity_type = EtWork | EtAuthor | EtTagPage | EtSearchPage

record acquisition_request =
  ar_entity :: entity_type
  ar_source :: pystr

definition request_key :: "acquisition_request \<Rightarrow> entity_type \<times> pystr" where
  "request_key r = (ar_entity r, ar_source r)"

type_synonym ('s, 'p) provider = "acquisition_request \<Rightarrow> 's \<Rightarrow> (error + 'p) \<times> 's"
type_synonym 'r futures = "(error + 'r) list"
type_synonym 'r resolved = "nat \<Rightarrow> 'r option"

section \<open>The pipeline\<close>

record pipeline_config =
  pc_workers :: int
  pc_pending_limit :: int

definition new_pipeline :: "int \<Rightarrow> int option \<Rightarrow> error + pipeline_config" where
  "new_pipeline workers max_pending =
     (if \<not> (1 \<le> workers \<and> workers \<le> 8) then Inl ValueError
      else let limit = (case max_pending of Some m \<Rightarrow> m | None \<Rightarrow> workers * 2)
           in if \<not> (workers \<le> limit \<and> limit \<le> 64) then Inl ValueError
              else Inr \<lparr>pc_workers = workers, pc_pending_limit = limit\<rparr>)"

record 'r pipeline_run =
  pr_requests :: "acquisition_request list"
  pr_results :: "'r list"
  pr_acquisition_workers :: int
  pr_local_workers :: int
  pr_peak_pending :: int

text \<open>The number of futures that are not yet in \<open>resolved\<close>.\<close>

definition pending :: "'r futures \<Rightarrow> 'r resolved \<Rightarrow> int" where
  "pending futures resolved =
     int (length (filter (\<lambda>i. resolved i = None) [0..<length futures]))"

fun harvest_from ::
  "(nat \<Rightarrow> bool) \<Rightarrow> nat list \<Rightarrow> 'r futures \<Rightarrow> 'r resolved \<Rightarrow> error + 'r resolved" where
  "harvest_from finished [] futures resolved = Inr resolved"
| "harvest_from finished (i # is) futures resolved =
     (if resolved i = None \<and> finished i
      then bindr (futures ! i) (\<lambda>v. harvest_from finished is futures (resolved(i \<mapsto> v)))
      else harvest_from finished is futures resolved)"

definition harvest_completed ::
  "(nat \<Rightarrow> bool) \<Rightarrow> 'r futures \<Rightarrow> 'r resolved \<Rightarrow> error + 'r resolved" where
  "harvest_completed finished futures resolved =
     harvest_from finished [0..<length futures] futures resolved"

definition resolve_oldest :: "'r futures \<Rightarrow> 'r resolved \<Rightarrow> error + 'r resolved" where
  "resolve_oldest futures resolved =
     (case find (\<lambda>i. resolved i = None) [0..<length futures] of
        None \<Rightarrow> Inr resolved
      | Some i \<Rightarrow> bindr (futures ! i) (\<lambda>v. Inr (resolved(i \<mapsto> v))))"

text \<open>The fetch loop; \<open>k\<close> is the index of the iteration.\<close>

fun fetch_loop ::
  "(nat \<Rightarrow> nat \<Rightarrow> bool) \<Rightarrow> ('s, 'p) provider \<Rightarrow> ('p \<Rightarrow> error + 'r) \<Rightarrow> int \<Rightarrow> nat \<Rightarrow>
     acquisition_request list \<Rightarrow> 'r futures \<Rightarrow> 'r resolved \<Rightarrow> int \<Rightarrow> 's \<Rightarrow>
     (error + 'r futures \<times> 'r resolved \<times> int) \<times> 's" where
  "fetch_loop done provider proc limit k [] futures resolved peak s =
     (Inr (futures, resolved, peak), s)"
| "fetch_loop done provider proc limit k (req # reqs) futures resolved peak s =
     (case harvest_completed (done k) futures resolved of
        Inl e \<Rightarrow> (Inl e, s)
      | Inr resolved1 \<Rightarrow>
          (case provider req s of
             (Inl e, s') \<Rightarrow> (Inl e, s')
           | (Inr response, s') \<Rightarrow>
               let futures1 = futures @ [proc response];
                   peak1 = max peak (pending futures1 resolved1)
               in if limit \<le> pending futures1 resolved1
                  then (case resolve_oldest futures1 resolved1 of
                          Inl e \<Rightarrow> (Inl e, s')
                        | Inr resolved2 \<Rightarrow>
                            fetch_loop done provider proc limit (Suc k) reqs futures1 resolved2
                              peak1 s')
                  else fetch_loop done provider proc limit (Suc k) reqs futures1 resolved1 peak1 s'))"

text \<open>The final loop waits for every future that is left, in index order.\<close>

definition resolve_rest :: "'r futures \<Rightarrow> 'r resolved \<Rightarrow> error + 'r resolved" where
  "resolve_rest futures resolved =
     harvest_from (\<lambda>i. True) [0..<length futures] futures resolved"

definition run_pipeline ::
  "(nat \<Rightarrow> nat \<Rightarrow> bool) \<Rightarrow> ('s, 'p) provider \<Rightarrow> ('p \<Rightarrow> error + 'r) \<Rightarrow> pipeline_config \<Rightarrow>
     acquisition_request list \<Rightarrow> 's \<Rightarrow> (error + 'r pipeline_run) \<times> 's" where
  "run_pipeline done provider proc cfg requests s =
     (if \<not> distinct (map request_key requests) then (Inl ValueError, s)
      else (case fetch_loop done provider proc (pc_pending_limit cfg) 0 requests [] (\<lambda>_. None) 0 s of
              (Inl e, s') \<Rightarrow> (Inl e, s')
            | (Inr (futures, resolved, peak), s') \<Rightarrow>
                (bindr (resolve_rest futures resolved) (\<lambda>resolved'.
                   Inr \<lparr>pr_requests = requests,
                        pr_results = map (\<lambda>i. the (resolved' i)) [0..<length requests],
                        pr_acquisition_workers = 1, pr_local_workers = pc_workers cfg,
                        pr_peak_pending = peak\<rparr>),
                 s')))"

section \<open>The ordered commit\<close>

type_synonym ('d, 'p, 'c) committer =
  "'d \<Rightarrow> acquisition_request \<Rightarrow> 'p \<Rightarrow> (error + 'c) \<times> 'd"

fun commit_loop ::
  "('d, 'p, 'c) committer \<Rightarrow> (acquisition_request \<times> 'p) list \<Rightarrow> 'd \<Rightarrow> (error + 'c list) \<times> 'd"
  where
  "commit_loop committer [] d = (Inr [], d)"
| "commit_loop committer ((req, p) # rest) d =
     (case committer d req p of
        (Inl e, d') \<Rightarrow> (Inl e, d')
      | (Inr c, d') \<Rightarrow>
          (case commit_loop committer rest d' of
             (Inl e, d'') \<Rightarrow> (Inl e, d'')
           | (Inr cs, d'') \<Rightarrow> (Inr (c # cs), d'')))"

record ('r, 'c) ordered_run =
  or_pipeline :: "'r pipeline_run"
  or_committed :: "'c list"

text \<open>
  \<open>session_factory.begin()\<close>: the committer works on the transaction's own state; the durable
  state is untouched until the block ends.  When the block raises, the session rolls back; when it
  ends, it flushes and commits, and the engine, an argument, says what became of that: done, refused
  (a constraint at the flush, a lost connection) with nothing made durable, or made durable without
  an acknowledgement, which the client also sees as an exception.
\<close>

datatype commit_outcome =
    TransactionDone | TransactionRefused error | TransactionUnacknowledged error

record 'd session =
  ss_durable :: 'd
  ss_working :: 'd

definition session_begin :: "'d \<Rightarrow> 'd session" where
  "session_begin d = \<lparr>ss_durable = d, ss_working = d\<rparr>"

definition session_exit ::
  "('d \<Rightarrow> 'd \<Rightarrow> commit_outcome) \<Rightarrow> error + 'a \<Rightarrow> 'd session \<Rightarrow> (error + 'a) \<times> 'd" where
  "session_exit engine r s =
     (case r of
        Inl e \<Rightarrow> (Inl e, ss_durable s)
      | Inr x \<Rightarrow>
          (case engine (ss_durable s) (ss_working s) of
             TransactionDone \<Rightarrow> (Inr x, ss_working s)
           | TransactionRefused e \<Rightarrow> (Inl e, ss_durable s)
           | TransactionUnacknowledged e \<Rightarrow> (Inl e, ss_working s)))"

text \<open>The block: the committer on each pair in order; \<open>zip(strict=True)\<close> raises at its end.\<close>

definition commit_block ::
  "('d, 'r, 'c) committer \<Rightarrow> 'r pipeline_run \<Rightarrow> 'd session \<Rightarrow> (error + 'c list) \<times> 'd session" where
  "commit_block committer run s =
     (case commit_loop committer (zip (pr_requests run) (pr_results run)) (ss_working s) of
        (r, w) \<Rightarrow>
          (bindr r (\<lambda>cs. if length (pr_requests run) \<noteq> length (pr_results run) then Inl ValueError else Inr cs),
           s\<lparr>ss_working := w\<rparr>))"

definition run_ordered ::
  "(nat \<Rightarrow> nat \<Rightarrow> bool) \<Rightarrow> ('s, 'p) provider \<Rightarrow> ('p \<Rightarrow> error + 'r) \<Rightarrow> pipeline_config \<Rightarrow>
     ('d, 'r, 'c) committer \<Rightarrow> ('d \<Rightarrow> 'd \<Rightarrow> commit_outcome) \<Rightarrow> acquisition_request list \<Rightarrow> 's \<Rightarrow> 'd \<Rightarrow>
     (error + ('r, 'c) ordered_run) \<times> 's \<times> 'd" where
  "run_ordered done provider proc cfg committer engine requests s d =
     (case run_pipeline done provider proc cfg requests s of
        (Inl e, s') \<Rightarrow> (Inl e, s', d)
      | (Inr run, s') \<Rightarrow>
          (case commit_block committer run (session_begin d) of
             (r, session) \<Rightarrow>
               (case session_exit engine r session of
                  (Inl e, d') \<Rightarrow> (Inl e, s', d')
                | (Inr cs, d') \<Rightarrow> (Inr \<lparr>or_pipeline = run, or_committed = cs\<rparr>, s', d'))))"

section \<open>The sequential reference\<close>

text \<open>Fetch one request after the other, then process one response after the other.\<close>

fun fetch_all ::
  "('s, 'p) provider \<Rightarrow> acquisition_request list \<Rightarrow> 's \<Rightarrow> (error + 'p list) \<times> 's" where
  "fetch_all provider [] s = (Inr [], s)"
| "fetch_all provider (req # reqs) s =
     (case provider req s of
        (Inl e, s') \<Rightarrow> (Inl e, s')
      | (Inr p, s') \<Rightarrow>
          (case fetch_all provider reqs s' of
             (Inl e, s'') \<Rightarrow> (Inl e, s'')
           | (Inr ps, s'') \<Rightarrow> (Inr (p # ps), s'')))"

fun process_all :: "('p \<Rightarrow> error + 'r) \<Rightarrow> 'p list \<Rightarrow> error + 'r list" where
  "process_all proc [] = Inr []"
| "process_all proc (p # ps) = bindr (proc p) (\<lambda>r. bindr (process_all proc ps) (\<lambda>rs. Inr (r # rs)))"

lemma process_all_Inr: "process_all proc ps = Inr rs \<longleftrightarrow> map proc ps = map Inr rs"
  by (induction ps arbitrary: rs) (auto simp: bindr_Inr Cons_eq_map_conv)

section \<open>What is resolved is what the futures hold\<close>

definition resolved_ok :: "'r futures \<Rightarrow> 'r resolved \<Rightarrow> bool" where
  "resolved_ok futures resolved \<longleftrightarrow>
     (\<forall>i v. resolved i = Some v \<longrightarrow> i < length futures \<and> futures ! i = Inr v)"

lemma resolved_ok_append: "resolved_ok futures resolved \<Longrightarrow> resolved_ok (futures @ [f]) resolved"
  by (fastforce simp: resolved_ok_def nth_append less_Suc_eq)

lemma resolved_ok_update:
  "resolved_ok futures resolved \<Longrightarrow> i < length futures \<Longrightarrow> futures ! i = Inr v \<Longrightarrow>
     resolved_ok futures (resolved(i \<mapsto> v))"
  by (auto simp: resolved_ok_def)

lemma harvest_from_Inr:
  assumes "harvest_from finished is futures resolved = Inr resolved'"
    and "resolved_ok futures resolved" and "\<forall>i \<in> set is. i < length futures"
  shows "resolved_ok futures resolved' \<and> (\<forall>i. resolved' i = None \<longrightarrow> resolved i = None) \<and>
    (\<forall>i \<in> set is. finished i \<longrightarrow> resolved' i \<noteq> None)"
  using assms
proof (induction "is" arbitrary: resolved)
  case Nil
  then show ?case by simp
next
  case (Cons i "is")
  show ?case
  proof (cases "resolved i = None \<and> finished i")
    case True
    then obtain v where v: "futures ! i = Inr v"
        "harvest_from finished is futures (resolved(i \<mapsto> v)) = Inr resolved'"
      using Cons.prems(1) by (auto simp: bindr_Inr)
    have okv: "resolved_ok futures (resolved(i \<mapsto> v))"
      using Cons.prems v(1) by (intro resolved_ok_update) auto
    have inside: "\<forall>i \<in> set is. i < length futures" using Cons.prems(3) by simp
    note ih = Cons.IH [OF v(2) okv inside]
    then have "resolved' j = None \<longrightarrow> j \<noteq> i \<and> resolved j = None" for j
      by (metis fun_upd_apply option.distinct(1))
    with ih show ?thesis by auto
  next
    case False
    then have "harvest_from finished is futures resolved = Inr resolved'"
      using Cons.prems(1) by auto
    then have ih: "resolved_ok futures resolved'" "\<forall>i. resolved' i = None \<longrightarrow> resolved i = None"
        "\<forall>i \<in> set is. finished i \<longrightarrow> resolved' i \<noteq> None"
      using Cons.IH Cons.prems by simp_all
    moreover have "finished i \<longrightarrow> resolved' i \<noteq> None" using False ih(2) by blast
    ultimately show ?thesis by simp
  qed
qed

lemma harvest_from_error:
  "harvest_from finished is futures resolved = Inl e \<Longrightarrow> \<forall>i \<in> set is. i < length futures \<Longrightarrow>
     Inl e \<in> set futures"
  by (induction "is" arbitrary: resolved) (auto simp: bindr_def split: if_splits sum.splits, metis nth_mem)

lemma resolve_oldest_Inr:
  assumes "resolve_oldest futures resolved = Inr resolved'" and "resolved_ok futures resolved"
    and "0 < pending futures resolved"
  shows "resolved_ok futures resolved' \<and>
    (\<exists>i < length futures. resolved i = None \<and> resolved' i \<noteq> None \<and>
       (\<forall>j. j \<noteq> i \<longrightarrow> resolved' j = resolved j))"
proof -
  obtain i where i: "find (\<lambda>i. resolved i = None) [0..<length futures] = Some i"
    using assms(3)
    by (cases "find (\<lambda>i. resolved i = None) [0..<length futures]")
      (auto simp: pending_def find_None_iff filter_empty_conv)
  then have i': "resolved i = None" "i < length futures" by (auto simp: find_Some_iff)
  with i assms(1) obtain v where "futures ! i = Inr v" "resolved' = resolved(i \<mapsto> v)"
    by (auto simp: resolve_oldest_def bindr_Inr)
  with i' assms(2) show ?thesis by (auto intro: resolved_ok_update)
qed

lemma resolve_oldest_error:
  "resolve_oldest futures resolved = Inl e \<Longrightarrow> Inl e \<in> set futures"
  by (auto simp: resolve_oldest_def bindr_def find_Some_iff split: option.splits sum.splits)
    (metis nth_mem)

section \<open>The pending bound\<close>

lemma pending_nonneg [simp]: "0 \<le> pending futures resolved"
  by (simp add: pending_def)

lemma pending_append: "pending (futures @ [f]) resolved \<le> pending futures resolved + 1"
  by (simp add: pending_def)

lemma filter_length_le:
  "(\<And>x. x \<in> set xs \<Longrightarrow> P x \<Longrightarrow> Q x) \<Longrightarrow> length (filter P xs) \<le> length (filter Q xs)"
  by (induction xs) (auto simp: le_Suc_eq)

lemma filter_length_less:
  "(\<And>x. x \<in> set xs \<Longrightarrow> P x \<Longrightarrow> Q x) \<Longrightarrow> y \<in> set xs \<Longrightarrow> Q y \<Longrightarrow> \<not> P y \<Longrightarrow>
     length (filter P xs) < length (filter Q xs)"
proof (induction xs)
  case (Cons x xs)
  then have "length (filter P xs) \<le> length (filter Q xs)" by (intro filter_length_le) simp
  with Cons show ?case by (cases "x = y") auto
qed simp

lemma pending_mono:
  "(\<forall>i. resolved' i = None \<longrightarrow> resolved i = None) \<Longrightarrow>
     pending futures resolved' \<le> pending futures resolved"
  by (simp add: pending_def filter_length_le)

lemma pending_less:
  assumes "\<forall>j. j \<noteq> i \<longrightarrow> resolved' j = resolved j" and "i < length futures"
    and "resolved i = None" and "resolved' i \<noteq> None"
  shows "pending futures resolved' < pending futures resolved"
  unfolding pending_def of_nat_less_iff
proof (rule filter_length_less [where y = i])
  show "resolved' j = None \<Longrightarrow> resolved j = None" for j
    using assms by (cases "j = i") auto
qed (use assms in auto)

lemma pending_all: "(\<forall>i < length futures. resolved i \<noteq> None) \<longleftrightarrow> pending futures resolved = 0"
  by (auto simp: pending_def filter_empty_conv)

section \<open>The fetch loop against the reference\<close>

lemma harvest_completed_Inr:
  assumes "harvest_completed finished futures resolved = Inr resolved'"
    and "resolved_ok futures resolved"
  shows "resolved_ok futures resolved' \<and> pending futures resolved' \<le> pending futures resolved"
  using harvest_from_Inr [OF assms(1) [unfolded harvest_completed_def] assms(2)]
  by (auto intro!: pending_mono)

lemma fetch_loop_Inr:
  assumes "fetch_loop done provider proc limit k reqs futures resolved peak s =
      (Inr (futures', resolved', peak'), s')"
    and "resolved_ok futures resolved" and "pending futures resolved < limit" and "peak \<le> limit"
  shows "\<exists>ps. fetch_all provider reqs s = (Inr ps, s') \<and> futures' = futures @ map proc ps \<and>
    resolved_ok futures' resolved' \<and> peak' \<le> limit"
  using assms
proof (induction reqs arbitrary: k futures resolved peak s)
  case Nil
  then show ?case by simp
next
  case (Cons req reqs)
  obtain resolved1 where h: "harvest_completed (done k) futures resolved = Inr resolved1"
    using Cons.prems(1) by (auto split: sum.splits)
  obtain p s1 where p: "provider req s = (Inr p, s1)"
    using Cons.prems(1) h by (auto split: sum.splits prod.splits)
  let ?futures = "futures @ [proc p]"
  let ?peak = "max peak (pending ?futures resolved1)"
  note h' = harvest_completed_Inr [OF h Cons.prems(2)]
  then have ok1: "resolved_ok ?futures resolved1" by (simp add: resolved_ok_append)
  have le: "pending ?futures resolved1 \<le> limit"
    using h' pending_append [of futures "proc p" resolved1] Cons.prems(3) by linarith
  then have peak: "?peak \<le> limit" using Cons.prems(4) by simp
  obtain resolved2 where r: "resolved_ok ?futures resolved2" "pending ?futures resolved2 < limit"
      "fetch_loop done provider proc limit (Suc k) reqs ?futures resolved2 ?peak s1 =
        (Inr (futures', resolved', peak'), s')"
  proof (cases "limit \<le> pending ?futures resolved1")
    case True
    then obtain resolved2 where r2: "resolve_oldest ?futures resolved1 = Inr resolved2"
        "fetch_loop done provider proc limit (Suc k) reqs ?futures resolved2 ?peak s1 =
          (Inr (futures', resolved', peak'), s')"
      using Cons.prems(1) h p by (auto simp: Let_def split: sum.splits)
    have "0 < pending ?futures resolved1"
      using True Cons.prems(3) pending_nonneg [of futures resolved] by linarith
    note o = resolve_oldest_Inr [OF r2(1) ok1 this]
    then have "pending ?futures resolved2 < pending ?futures resolved1"
      by (auto intro: pending_less)
    with o r2 le show thesis by (intro that [of resolved2]) auto
  next
    case False
    then show thesis using Cons.prems(1) h p ok1 by (intro that [of resolved1]) (auto simp: Let_def)
  qed
  from Cons.IH [OF r(3,1,2) peak] p show ?case by auto
qed

lemma fetch_loop_error:
  assumes "fetch_loop done provider proc limit k reqs futures resolved peak s = (Inl e, s')"
  shows "\<exists>n. fetch_all provider (take n reqs) s = (Inl e, s') \<or>
    (\<exists>ps. fetch_all provider (take n reqs) s = (Inr ps, s') \<and> Inl e \<in> set (futures @ map proc ps))"
  using assms
proof (induction reqs arbitrary: k futures resolved peak s)
  case Nil
  then show ?case by simp
next
  case (Cons req reqs)
  show ?case
  proof (cases "harvest_completed (done k) futures resolved")
    case (Inl e')
    then have "Inl e' \<in> set futures"
      unfolding harvest_completed_def by (rule harvest_from_error) simp
    with Inl Cons.prems show ?thesis by (intro exI [of _ 0]) simp
  next
    case (Inr resolved1)
    show ?thesis
    proof (cases "provider req s")
      case (Pair r s1)
      show ?thesis
      proof (cases r)
        case (Inl e')
        with Inr Pair Cons.prems show ?thesis by (intro exI [of _ 1]) simp
      next
        case r: (Inr p)
        have *: "(\<exists>n. fetch_all provider (take n reqs) s1 = (Inl e, s') \<or>
            (\<exists>ps. fetch_all provider (take n reqs) s1 = (Inr ps, s') \<and>
               Inl e \<in> set ((futures @ [proc p]) @ map proc ps))) \<Longrightarrow> ?thesis"
        proof -
          assume "\<exists>n. fetch_all provider (take n reqs) s1 = (Inl e, s') \<or>
            (\<exists>ps. fetch_all provider (take n reqs) s1 = (Inr ps, s') \<and>
               Inl e \<in> set ((futures @ [proc p]) @ map proc ps))"
          then obtain n where "fetch_all provider (take n reqs) s1 = (Inl e, s') \<or>
            (\<exists>ps. fetch_all provider (take n reqs) s1 = (Inr ps, s') \<and>
               Inl e \<in> set ((futures @ [proc p]) @ map proc ps))" ..
          then show ?thesis using Pair r by (intro exI [of _ "Suc n"]) auto
        qed
        show ?thesis
        proof (cases "limit \<le> pending (futures @ [proc p]) resolved1")
          case True
          show ?thesis
          proof (cases "resolve_oldest (futures @ [proc p]) resolved1")
            case (Inl e')
            then have "Inl e' \<in> set (futures @ [proc p])" by (rule resolve_oldest_error)
            with Inl Inr Pair r True Cons.prems show ?thesis
              by (intro * exI [of _ 0]) (simp add: Let_def)
          next
            case resolved2: (Inr resolved2)
            show ?thesis
              by (rule *, rule Cons.IH) (use resolved2 Inr Pair r True Cons.prems in \<open>simp add: Let_def\<close>)
          qed
        next
          case False
          show ?thesis
            by (rule *, rule Cons.IH) (use Inr Pair r False Cons.prems in \<open>simp add: Let_def\<close>)
        qed
      qed
    qed
  qed
qed

lemma fetch_all_take:
  "fetch_all provider reqs s = (Inr ps, s') \<Longrightarrow>
     \<exists>s''. fetch_all provider (take n reqs) s = (Inr (take n ps), s'')"
proof (induction reqs arbitrary: s ps n)
  case (Cons req reqs)
  then obtain p s1 ps' where p: "provider req s = (Inr p, s1)"
      "fetch_all provider reqs s1 = (Inr ps', s')" "ps = p # ps'"
    by (auto split: sum.splits prod.splits)
  then obtain s'' where "fetch_all provider (take (n - 1) reqs) s1 = (Inr (take (n - 1) ps'), s'')"
    using Cons.IH [OF p(2)] by blast
  with p show ?case by (cases n) auto
qed auto

text \<open>The run returns precisely when the reference does, with the same results.\<close>

lemma resolve_rest_Inr:
  assumes "resolve_rest futures resolved = Inr resolved'" and "resolved_ok futures resolved"
  shows "futures = map Inr (map (\<lambda>i. the (resolved' i)) [0..<length futures])"
proof -
  note h = harvest_from_Inr [OF assms(1) [unfolded resolve_rest_def] assms(2)]
  have "futures ! i = Inr (the (resolved' i))" if "i < length futures" for i
    using h that by (fastforce simp: resolved_ok_def)
  then show ?thesis by (intro nth_equalityI) simp_all
qed

lemma resolve_rest_error: "resolve_rest futures resolved = Inl e \<Longrightarrow> Inl e \<in> set futures"
  unfolding resolve_rest_def by (erule harvest_from_error) simp

lemma fetch_all_length: "fetch_all provider reqs s = (Inr ps, s') \<Longrightarrow> length ps = length reqs"
  by (induction reqs arbitrary: s ps) (auto split: sum.splits prod.splits)

lemma run_pipeline_Inr:
  assumes "run_pipeline done provider proc cfg reqs s = (Inr run, s')" and "0 < pc_pending_limit cfg"
  shows "\<exists>ps. fetch_all provider reqs s = (Inr ps, s') \<and> process_all proc ps = Inr (pr_results run) \<and>
    pr_requests run = reqs \<and> pr_local_workers run = pc_workers cfg \<and>
    pr_acquisition_workers run = 1 \<and> pr_peak_pending run \<le> pc_pending_limit cfg"
proof -
  obtain futures resolved peak resolved' where
      loop: "fetch_loop done provider proc (pc_pending_limit cfg) 0 reqs [] (\<lambda>_. None) 0 s =
        (Inr (futures, resolved, peak), s')"
    and rest: "resolve_rest futures resolved = Inr resolved'"
    and run: "run = \<lparr>pr_requests = reqs,
       pr_results = map (\<lambda>i. the (resolved' i)) [0..<length reqs],
       pr_acquisition_workers = 1, pr_local_workers = pc_workers cfg, pr_peak_pending = peak\<rparr>"
    using assms(1) by (auto simp: run_pipeline_def bindr_Inr split: if_splits sum.splits prod.splits)
  have "resolved_ok [] (\<lambda>_. None)" by (simp add: resolved_ok_def)
  moreover have "pending [] (\<lambda>_. None) < pc_pending_limit cfg"
    using assms(2) by (simp add: pending_def)
  ultimately obtain ps where ps: "fetch_all provider reqs s = (Inr ps, s')"
      "futures = map proc ps" "resolved_ok futures resolved" "peak \<le> pc_pending_limit cfg"
    using fetch_loop_Inr [OF loop] assms(2) by auto
  have "length futures = length reqs" using fetch_all_length [OF ps(1)] ps(2) by simp
  with resolve_rest_Inr [OF rest ps(3)] have "map proc ps = map Inr (pr_results run)"
    by (simp add: ps(2) run)
  with ps run show ?thesis by (simp add: process_all_Inr)
qed

lemma run_pipeline_error:
  assumes "run_pipeline done provider proc cfg reqs s = (Inl e, s')" and "distinct (map request_key reqs)"
    and "0 < pc_pending_limit cfg"
  shows "\<exists>n. fetch_all provider (take n reqs) s = (Inl e, s') \<or>
    (\<exists>ps. fetch_all provider (take n reqs) s = (Inr ps, s') \<and> Inl e \<in> proc ` set ps)"
proof (cases "fetch_loop done provider proc (pc_pending_limit cfg) 0 reqs [] (\<lambda>_. None) 0 s")
  case (Pair r s1)
  show ?thesis
  proof (cases r)
    case (Inl e')
    with Pair assms(1,2) have
      "fetch_loop done provider proc (pc_pending_limit cfg) 0 reqs [] (\<lambda>_. None) 0 s = (Inl e, s')"
      by (simp add: run_pipeline_def)
    from fetch_loop_error [OF this] show ?thesis by simp
  next
    case (Inr x)
    obtain futures resolved peak where x: "x = (futures, resolved, peak)" by (cases x) auto
    have "resolve_rest futures resolved = Inl e" and s1: "s1 = s'"
      using Pair Inr x assms(1,2)
      by (auto simp: run_pipeline_def bindr_def split: sum.splits)
    then have "Inl e \<in> set futures" by (intro resolve_rest_error)
    moreover have "\<exists>ps. fetch_all provider reqs s = (Inr ps, s') \<and> futures = map proc ps"
      using fetch_loop_Inr [OF Pair [unfolded Inr x s1]] assms(3)
      by (auto simp: resolved_ok_def pending_def)
    ultimately show ?thesis by (intro exI [of _ "length reqs"]) auto
  qed
qed

section \<open>What the pipeline promises\<close>

lemma new_pipeline_Inr:
  "new_pipeline workers max_pending = Inr cfg \<Longrightarrow>
     pc_workers cfg = workers \<and> 1 \<le> workers \<and> workers \<le> 8 \<and> workers \<le> pc_pending_limit cfg \<and>
     pc_pending_limit cfg \<le> 64"
  by (auto simp: new_pipeline_def Let_def split: if_splits)

lemma no_error_results: "process_all proc ps = Inr rs \<Longrightarrow> Inl e \<notin> proc ` set ps"
proof
  assume "process_all proc ps = Inr rs" and "Inl e \<in> proc ` set ps"
  then have "Inl e \<in> set (map Inr rs)" by (metis list.set_map process_all_Inr)
  then show False by auto
qed

lemma set_process_take: "set (take n ps) \<subseteq> set ps"
  by (rule set_take_subset)

text \<open>
  C20: Concurrency is invisible. For requests with unique keys and every schedule of the worker
  threads, the run returns exactly when fetching and then processing one request after the other
  does, with the same results in request order and the same calls of the provider; and it never
  had more unfinished tasks than its limit, at most 64.
\<close>

theorem pipeline_equals_sequential:
  assumes "new_pipeline workers max_pending = Inr cfg" and "distinct (map request_key requests)"
  shows "(\<exists>run. run_pipeline done provider proc cfg requests s = (Inr run, s') \<and>
      pr_results run = rs \<and> pr_requests run = requests \<and>
      pr_peak_pending run \<le> pc_pending_limit cfg \<and> pr_peak_pending run \<le> 64) \<longleftrightarrow>
    (\<exists>ps. fetch_all provider requests s = (Inr ps, s') \<and> process_all proc ps = Inr rs)"
proof
  note cfg = new_pipeline_Inr [OF assms(1)]
  then have pos: "0 < pc_pending_limit cfg" by simp
  show "\<exists>ps. fetch_all provider requests s = (Inr ps, s') \<and> process_all proc ps = Inr rs"
    if "\<exists>run. run_pipeline done provider proc cfg requests s = (Inr run, s') \<and>
      pr_results run = rs \<and> pr_requests run = requests \<and>
      pr_peak_pending run \<le> pc_pending_limit cfg \<and> pr_peak_pending run \<le> 64"
  proof -
    from that obtain run where "run_pipeline done provider proc cfg requests s = (Inr run, s')"
      and rs: "pr_results run = rs" by blast
    from run_pipeline_Inr [OF this(1) pos] show ?thesis unfolding rs by blast
  qed
  assume "\<exists>ps. fetch_all provider requests s = (Inr ps, s') \<and> process_all proc ps = Inr rs"
  then obtain ps where ps: "fetch_all provider requests s = (Inr ps, s')" "process_all proc ps = Inr rs"
    by blast
  obtain r s1 where run: "run_pipeline done provider proc cfg requests s = (r, s1)" by fastforce
  show "\<exists>run. run_pipeline done provider proc cfg requests s = (Inr run, s') \<and>
      pr_results run = rs \<and> pr_requests run = requests \<and>
      pr_peak_pending run \<le> pc_pending_limit cfg \<and> pr_peak_pending run \<le> 64"
  proof (cases r)
    case (Inl e)
    obtain n where "fetch_all provider (take n requests) s = (Inl e, s1) \<or>
        (\<exists>qs. fetch_all provider (take n requests) s = (Inr qs, s1) \<and> Inl e \<in> proc ` set qs)"
      using run_pipeline_error [OF run [unfolded Inl] assms(2) pos] by blast
    then have "Inl e \<in> proc ` set (take n ps)"
      using fetch_all_take [OF ps(1), of n] by auto
    then have "Inl e \<in> proc ` set ps" using set_process_take [of n ps] by blast
    with no_error_results [OF ps(2)] show ?thesis by blast
  next
    case (Inr x)
    obtain qs where qs: "fetch_all provider requests s = (Inr qs, s1)"
        "process_all proc qs = Inr (pr_results x)" "pr_requests x = requests"
        "pr_peak_pending x \<le> pc_pending_limit cfg"
      using run_pipeline_Inr [OF run [unfolded Inr] pos] by blast
    with ps have "s1 = s'" "pr_results x = rs" by simp_all
    moreover have "pr_peak_pending x \<le> 64" using qs(4) cfg by linarith
    ultimately show ?thesis using run Inr qs(3,4) by blast
  qed
qed

definition sample_provider :: "(nat, nat) provider" where
  "sample_provider req n = (Inr (length (ar_source req)), Suc n)"

definition sample_requests :: "acquisition_request list" where
  "sample_requests = [\<lparr>ar_entity = EtWork, ar_source = lit ''1''\<rparr>,
     \<lparr>ar_entity = EtWork, ar_source = lit ''22''\<rparr>]"

theorem pipeline_equals_sequential_witness:
  "\<exists>run. run_pipeline (\<lambda>k i. i = 1) sample_provider Inr \<lparr>pc_workers = 1, pc_pending_limit = 2\<rparr>
     sample_requests 0 = (Inr run, 2) \<and> pr_results run = [1, 2] \<and> pr_requests run = sample_requests \<and>
     pr_peak_pending run \<le> 2 \<and> pr_peak_pending run \<le> 64"
  using pipeline_equals_sequential [of 1 None "\<lparr>pc_workers = 1, pc_pending_limit = 2\<rparr>"
      sample_requests "\<lambda>k i. i = 1" sample_provider "Inr :: nat \<Rightarrow> error + nat" 0 2 "[1, 2]"]
  by (simp add: new_pipeline_def sample_requests_def sample_provider_def request_key_def lit_def)

text \<open>
  C21: A run is all or nothing, and its errors are honest. Whatever the schedule, a run whose
  fetches and processors succeed hands the reference's results to the committer, one request after
  the other in request order, in one transaction: it returns exactly when the committer and then the
  commit succeed, and the database is then what the committer made of it. An exception is one that a
  fetch or a processor raised, after fetching a prefix of the requests, each once and in order, or the
  committer's, or the commit's; the database is then as it was before, except after a commit that
  took effect without being acknowledged, which leaves the complete run and never a part of it.
\<close>

theorem ordered_run_is_atomic:
  assumes "new_pipeline workers max_pending = Inr cfg" and "distinct (map request_key requests)"
    and "run_ordered done provider proc cfg committer engine requests s d = (r, s', d')"
  shows "(\<exists>e n ps. r = Inl e \<and> d' = d \<and> n \<le> length requests \<and>
      (fetch_all provider (take n requests) s = (Inl e, s') \<or>
       fetch_all provider (take n requests) s = (Inr ps, s') \<and> Inl e \<in> proc ` set ps)) \<or>
    (\<exists>ps rs. fetch_all provider requests s = (Inr ps, s') \<and> process_all proc ps = Inr rs \<and>
      (case commit_loop committer (zip requests rs) d of
         (Inl e, w) \<Rightarrow> r = Inl e \<and> d' = d
       | (Inr cs, w) \<Rightarrow>
           (case engine d w of
              TransactionDone \<Rightarrow>
                (\<exists>run. r = Inr run \<and> pr_results (or_pipeline run) = rs \<and> or_committed run = cs) \<and> d' = w
            | TransactionRefused e \<Rightarrow> r = Inl e \<and> d' = d
            | TransactionUnacknowledged e \<Rightarrow> r = Inl e \<and> d' = w)))"
proof -
  have pos: "0 < pc_pending_limit cfg" using new_pipeline_Inr [OF assms(1)] by simp
  obtain q s1 where q: "run_pipeline done provider proc cfg requests s = (q, s1)" by fastforce
  show ?thesis
  proof (cases q)
    case (Inl e)
    then have r: "r = Inl e" "s' = s1" "d' = d" using assms(3) q by (auto simp: run_ordered_def)
    obtain n where "fetch_all provider (take n requests) s = (Inl e, s1) \<or>
        (\<exists>ps. fetch_all provider (take n requests) s = (Inr ps, s1) \<and> Inl e \<in> proc ` set ps)"
      using run_pipeline_error [OF q [unfolded Inl] assms(2) pos] by blast
    then have "\<exists>ps. fetch_all provider (take (min n (length requests)) requests) s = (Inl e, s1) \<or>
        fetch_all provider (take (min n (length requests)) requests) s = (Inr ps, s1) \<and>
        Inl e \<in> proc ` set ps"
      by (auto simp: min_def)
    then show ?thesis unfolding r by (auto intro!: exI [of _ "min n (length requests)"])
  next
    case (Inr run)
    obtain ps where ps: "fetch_all provider requests s = (Inr ps, s1)"
        "process_all proc ps = Inr (pr_results run)" "pr_requests run = requests"
      using run_pipeline_Inr [OF q [unfolded Inr] pos] by blast
    have len: "length (pr_results run) = length requests"
      using fetch_all_length [OF ps(1)] ps(2)
      by (metis length_map process_all_Inr)
    obtain c w where c: "commit_loop committer (zip requests (pr_results run)) d = (c, w)" by fastforce
    have "s' = s1" and exit: "case session_exit engine c \<lparr>ss_durable = d, ss_working = w\<rparr> of
        (Inl e, d1) \<Rightarrow> r = Inl e \<and> d' = d1
      | (Inr cs, d1) \<Rightarrow> r = Inr \<lparr>or_pipeline = run, or_committed = cs\<rparr> \<and> d' = d1"
      using assms(3) q Inr ps(3) len c
      by (auto simp: run_ordered_def commit_block_def session_begin_def bindr_def
          split: prod.splits sum.splits)
    with ps c show ?thesis
      by (intro disjI2 exI [of _ ps] exI [of _ "pr_results run"])
        (auto simp: session_exit_def split: sum.splits commit_outcome.splits)
  qed
qed

definition sample_committer :: "(pystr list, nat, nat) committer" where
  "sample_committer d req p = (Inr p, d @ [ar_source req])"

text \<open>The commit of one run is refused; the same run later goes through.\<close>

definition sample_engine :: "bool \<Rightarrow> 'd \<Rightarrow> 'd \<Rightarrow> commit_outcome" where
  "sample_engine up d w = (if up then TransactionDone else TransactionRefused IntegrityError)"

theorem ordered_run_is_atomic_witness:
  "snd (snd (run_ordered (\<lambda>k i. False) sample_provider Inr \<lparr>pc_workers = 1, pc_pending_limit = 2\<rparr>
     sample_committer (sample_engine False) sample_requests 0 [])) = [] \<and>
   snd (snd (run_ordered (\<lambda>k i. False) sample_provider Inr \<lparr>pc_workers = 1, pc_pending_limit = 2\<rparr>
     sample_committer (sample_engine True) sample_requests 0 [])) = [lit ''1'', lit ''22'']"
proof -
  let ?run = "\<lambda>up. run_ordered (\<lambda>k i. False) sample_provider Inr \<lparr>pc_workers = 1, pc_pending_limit = 2\<rparr>
     sample_committer (sample_engine up) sample_requests 0 []"
  have cfg: "new_pipeline 1 None = Inr \<lparr>pc_workers = 1, pc_pending_limit = 2\<rparr>"
    and keys: "distinct (map request_key sample_requests)"
    by (simp_all add: new_pipeline_def sample_requests_def request_key_def lit_def)
  have never: "fst (fetch_all sample_provider reqs n) \<noteq> Inl e" for reqs n e
  proof (induction reqs arbitrary: n)
    case (Cons req reqs)
    have "sample_provider req n = (Inr (length (ar_source req)), Suc n)" by (simp add: sample_provider_def)
    then show ?case using Cons.IH [of "Suc n"]
      by (cases "fetch_all sample_provider reqs (Suc n)") (auto split: sum.splits)
  qed simp
  have fetched: "fetch_all sample_provider sample_requests 0 = (Inr [1, 2], 2)"
    by (simp add: sample_requests_def sample_provider_def lit_def)
  have "snd (snd (?run up)) = (if up then [lit ''1'', lit ''22''] else [])" for up
  proof -
    obtain r s' d' where run: "?run up = (r, s', d')" by (cases "?run up") auto
    have "\<not> (fetch_all sample_provider (take n sample_requests) 0 = (Inl e, s') \<or>
        fetch_all sample_provider (take n sample_requests) 0 = (Inr ps, s') \<and> Inl e \<in> Inr ` set ps)" for n e ps
      using never [of "take n sample_requests" 0 e] by auto
    with ordered_run_is_atomic [OF cfg keys run] fetched
    have "case commit_loop sample_committer (zip sample_requests [1, 2]) [] of
         (Inl e, w) \<Rightarrow> d' = []
       | (Inr cs, w) \<Rightarrow> (case sample_engine up [] w of
              TransactionDone \<Rightarrow> d' = w | TransactionRefused e \<Rightarrow> d' = []
            | TransactionUnacknowledged e \<Rightarrow> d' = w)"
      by (auto split: sum.splits commit_outcome.splits prod.splits)
    then show ?thesis using run
      by (auto simp: sample_engine_def sample_committer_def sample_requests_def split: if_splits)
  qed
  then show ?thesis by simp
qed

end
