(* ===== verification/SchemaProbe.thy ===== *)
theory SchemaProbe
  imports Json Utf8 Floats Pipeline
begin

text \<open>
  The offline schema probe of \<open>src/pixiv_yuri/schema_probe/analyzer.py\<close> and its report
  contracts (\<open>models.py\<close>): flattening a payload into paths, aggregating presence and types per
  path and entity, and the provider loop with its error handling.

  A \<open>RawResponse\<close> is a record; \<open>json.loads\<close> (\<open>loads\<close>), SHA-256 of a text (\<open>sha\<close>) and of
  bytes (\<open>sha_bytes\<close>) are arguments.  Times are instants, and the text of a caught exception is
  left out of its report.
\<close>

section \<open>Responses\<close>

record raw_response =
  rr_provider :: pystr
  rr_entity :: entity_type
  rr_source :: pystr
  rr_status :: int
  rr_content_type :: pystr
  rr_body :: "nat list"

fun has_fragment :: "pystr \<Rightarrow> pystr \<Rightarrow> bool" where
  "has_fragment f [] = (f = [])"
| "has_fragment f (c # s) = (take (length f) (c # s) = f \<or> has_fragment f s)"

definition json_value :: "(pystr \<Rightarrow> error + json) \<Rightarrow> raw_response \<Rightarrow> error + json" where
  "json_value loads r =
     (if \<not> has_fragment (lit ''json'') (py_lower (rr_content_type r)) then Inl ValueError
      else (case utf8_decode (rr_body r) of None \<Rightarrow> Inl ValueError | Some t \<Rightarrow> loads t))"

section \<open>Flattening\<close>

fun json_visits :: "pystr \<Rightarrow> json \<Rightarrow> (pystr \<times> json) list" where
  "json_visits path (JObj fs) =
     (path, JObj fs) #
       concat (map snd (sort_key fst (map (\<lambda>(k, v). (k, json_visits (path @ 46 # k) v)) fs)))"
| "json_visits path (JArr xs) =
     (path, JArr xs) # concat (map (json_visits (path @ lit ''[]'')) xs)"
| "json_visits path v = [(path, v)]"

fun show_nat :: "nat \<Rightarrow> pystr" where
  "show_nat n = (if n < 10 then [48 + n] else show_nat (n div 10) @ [48 + n mod 10])"

declare show_nat.simps [simp del]

definition show_int :: "int \<Rightarrow> pystr" where
  "show_int n = (if n < 0 then 45 # show_nat (nat (- n)) else show_nat (nat n))"

fun dumps_scalar :: "json \<Rightarrow> pystr" where
  "dumps_scalar (JBool b) = (if b then lit ''true'' else lit ''false'')"
| "dumps_scalar (JInt n) = show_int n"
| "dumps_scalar (JFloat t) = t"
| "dumps_scalar (JStr s) = json_string s"
| "dumps_scalar _ = lit ''null''"

definition sensitive_path_parts :: "pystr list" where
  "sensitive_path_parts =
     [lit ''authorization'', lit ''cookie'', lit ''password'', lit ''secret'', lit ''token'']"

definition safe_example :: "pystr \<Rightarrow> json \<Rightarrow> pystr" where
  "safe_example path value =
     (if list_ex (\<lambda>f. has_fragment f (py_lower path)) sensitive_path_parts then lit ''[REDACTED]''
      else case value of
        JObj _ \<Rightarrow> lit ''{...}''
      | JArr _ \<Rightarrow> lit ''[...]''
      | _ \<Rightarrow> let rendered = dumps_scalar value
             in if length rendered \<le> 80 then rendered else take 77 rendered @ lit ''...'')"

definition root_path :: pystr where
  "root_path = lit ''$''"

definition payload_paths :: "json \<Rightarrow> pystr list" where
  "payload_paths v = remdups (map fst (json_visits root_path v))"

definition values_at :: "pystr \<Rightarrow> json \<Rightarrow> json list" where
  "values_at path v = map snd (filter (\<lambda>(p, _). p = path) (json_visits root_path v))"

text \<open>The entry of one path in the dict that \<open>_flatten\<close> returns.\<close>

definition path_types :: "pystr \<Rightarrow> json \<Rightarrow> json_type list" where
  "path_types path v = remdups (map type_of_json (values_at path v))"

definition path_examples :: "bool \<Rightarrow> pystr \<Rightarrow> json \<Rightarrow> pystr list" where
  "path_examples include path v =
     (if include then map (safe_example path) (take 1 (values_at path v)) else [])"

definition flatten_payload :: "bool \<Rightarrow> json \<Rightarrow> (pystr \<times> json_type list \<times> pystr list) list" where
  "flatten_payload include v =
     map (\<lambda>p. (p, path_types p v, path_examples include p v)) (payload_paths v)"

section \<open>Aggregation\<close>

datatype stability = StableHigh | StableMedium | StableLow

record field_profile =
  fp_path :: pystr
  fp_availability :: rat
  fp_present :: nat
  fp_samples :: nat
  fp_types :: "json_type list"
  fp_required :: bool
  fp_nullable :: bool
  fp_stability :: stability
  fp_examples :: "pystr list"

record sample_profile =
  sp_source :: pystr
  sp_payload_sha :: pystr
  sp_fingerprint :: pystr

record entity_report =
  en_entity :: entity_type
  en_samples :: "sample_profile list"
  en_fields :: "field_profile list"

definition type_order :: "json_type list" where
  "type_order = [TNull, TBoolean, TInteger, TNumber, TString, TObject, TArray]"

text \<open>What the loop over the samples accumulates for a path.\<close>

definition present_count :: "pystr \<Rightarrow> json list \<Rightarrow> nat" where
  "present_count path payloads =
     length (filter (\<lambda>v. path \<in> set (map fst (flatten_payload False v))) payloads)"

definition observed_types :: "pystr \<Rightarrow> json list \<Rightarrow> json_type list" where
  "observed_types path payloads =
     filter (\<lambda>t. list_ex (\<lambda>v. t \<in> set (path_types path v)) payloads) type_order"

definition add_example :: "pystr \<Rightarrow> pystr list \<Rightarrow> pystr list" where
  "add_example ex acc = (if ex \<notin> set acc \<and> length acc < 3 then acc @ [ex] else acc)"

definition collect_examples :: "bool \<Rightarrow> pystr \<Rightarrow> json list \<Rightarrow> pystr list" where
  "collect_examples include path payloads =
     fold add_example (concat (map (path_examples include path) payloads)) []"

definition profile_field :: "bool \<Rightarrow> json list \<Rightarrow> pystr \<Rightarrow> field_profile" where
  "profile_field include payloads path =
     (let sample_count = length payloads;
          types = observed_types path payloads;
          present = present_count path payloads;
          availability = double (of_nat present / of_nat sample_count);
          nullable = (TNull \<in> set types);
          non_null = filter (\<lambda>t. t \<noteq> TNull) types;
          required = (present = sample_count \<and> \<not> nullable)
      in \<lparr>fp_path = path, fp_availability = py_round 6 availability, fp_present = present,
          fp_samples = sample_count, fp_types = types, fp_required = required,
          fp_nullable = nullable,
          fp_stability =
            (if required \<and> length non_null \<le> 1 then StableHigh
             else if double (4 / 5) \<le> availability \<and> length non_null \<le> 1 then StableMedium
             else StableLow),
          fp_examples = (if include then collect_examples include path payloads else [])\<rparr>)"

definition all_paths :: "json list \<Rightarrow> pystr list" where
  "all_paths payloads = sort (remdups (concat (map payload_paths payloads)))"

fun sample_profiles ::
  "(pystr \<Rightarrow> pystr) \<Rightarrow> (nat list \<Rightarrow> pystr) \<Rightarrow> (raw_response \<times> json) list \<Rightarrow>
     error + sample_profile list" where
  "sample_profiles sha sha_bytes [] = Inr []"
| "sample_profiles sha sha_bytes ((r, v) # rest) =
     bindr (fingerprint_payload sha v) (\<lambda>f.
       bindr (sample_profiles sha sha_bytes rest) (\<lambda>ps.
         Inr (\<lparr>sp_source = rr_source r, sp_payload_sha = sha_bytes (rr_body r),
               sp_fingerprint = f\<rparr> # ps)))"

definition analyze_entity ::
  "(pystr \<Rightarrow> pystr) \<Rightarrow> (nat list \<Rightarrow> pystr) \<Rightarrow> bool \<Rightarrow> entity_type \<Rightarrow> (raw_response \<times> json) list \<Rightarrow>
     error + entity_report" where
  "analyze_entity sha sha_bytes include entity samples =
     bindr (sample_profiles sha sha_bytes samples) (\<lambda>profiles.
       Inr \<lparr>en_entity = entity, en_samples = profiles,
            en_fields = map (profile_field include (map snd samples))
              (all_paths (map snd samples))\<rparr>)"

section \<open>The provider loop\<close>

datatype probe_code = NonSuccessStatus | InvalidFixture

record probe_error =
  pe_entity :: entity_type
  pe_source :: pystr
  pe_code :: probe_code

record schema_report =
  sr_generated_at :: instant
  sr_provider :: pystr
  sr_entities :: "entity_report list"
  sr_errors :: "probe_error list"

text \<open>\<open>except (OSError, UnicodeError, ValueError, json.JSONDecodeError)\<close>.\<close>

definition probe_catches :: "error \<Rightarrow> bool" where
  "probe_catches e \<longleftrightarrow> e = ValueError \<or> e = OsError"

text \<open>One request of the loop: a sample, a reported error, or an exception that escapes.\<close>

definition probe_one ::
  "(pystr \<Rightarrow> error + json) \<Rightarrow> acquisition_request \<Rightarrow> error + raw_response \<Rightarrow>
     error + (probe_error + raw_response \<times> json)" where
  "probe_one loads req fetched =
     (case bindr fetched (\<lambda>r.
        if \<not> (200 \<le> rr_status r \<and> rr_status r < 300)
        then Inr (Inl \<lparr>pe_entity = ar_entity req, pe_source = ar_source req,
                       pe_code = NonSuccessStatus\<rparr>)
        else bindr (json_value loads r) (\<lambda>v. Inr (Inr (r, v)))) of
        Inr x \<Rightarrow> Inr x
      | Inl e \<Rightarrow>
          if probe_catches e
          then Inr (Inl \<lparr>pe_entity = ar_entity req, pe_source = ar_source req,
                         pe_code = InvalidFixture\<rparr>)
          else Inl e)"

fun probe_all ::
  "(pystr \<Rightarrow> error + json) \<Rightarrow> ('s, raw_response) provider \<Rightarrow> acquisition_request list \<Rightarrow> 's \<Rightarrow>
     error + (probe_error + raw_response \<times> json) list" where
  "probe_all loads provider [] s = Inr []"
| "probe_all loads provider (req # reqs) s =
     (case provider req s of
        (fetched, s') \<Rightarrow>
          bindr (probe_one loads req fetched) (\<lambda>x.
            bindr (probe_all loads provider reqs s') (\<lambda>xs. Inr (x # xs))))"

fun lefts :: "('a + 'b) list \<Rightarrow> 'a list" where
  "lefts [] = []"
| "lefts (Inl a # xs) = a # lefts xs"
| "lefts (Inr b # xs) = lefts xs"

fun rights :: "('a + 'b) list \<Rightarrow> 'b list" where
  "rights [] = []"
| "rights (Inl a # xs) = rights xs"
| "rights (Inr b # xs) = b # rights xs"

text \<open>The entity types in the order of their values.\<close>

definition entity_order :: "entity_type list" where
  "entity_order = [EtAuthor, EtSearchPage, EtTagPage, EtWork]"

fun analyze_groups ::
  "(pystr \<Rightarrow> pystr) \<Rightarrow> (nat list \<Rightarrow> pystr) \<Rightarrow> bool \<Rightarrow> (raw_response \<times> json) list \<Rightarrow>
     entity_type list \<Rightarrow> error + entity_report list" where
  "analyze_groups sha sha_bytes include samples [] = Inr []"
| "analyze_groups sha sha_bytes include samples (t # ts) =
     (let group = filter (\<lambda>(r, v). rr_entity r = t) samples
      in if group = [] then analyze_groups sha sha_bytes include samples ts
         else bindr (analyze_entity sha sha_bytes include t group) (\<lambda>e.
           bindr (analyze_groups sha sha_bytes include samples ts) (\<lambda>es. Inr (e # es))))"

definition analyze_provider ::
  "(pystr \<Rightarrow> pystr) \<Rightarrow> (nat list \<Rightarrow> pystr) \<Rightarrow> (pystr \<Rightarrow> error + json) \<Rightarrow> bool \<Rightarrow> instant \<Rightarrow> pystr \<Rightarrow>
     ('s, raw_response) provider \<Rightarrow> acquisition_request list \<Rightarrow> 's \<Rightarrow> error + schema_report" where
  "analyze_provider sha sha_bytes loads include generated_at name provider requests s =
     bindr (probe_all loads provider requests s) (\<lambda>outcomes.
       bindr (analyze_groups sha sha_bytes include (rights outcomes) entity_order) (\<lambda>entities.
         Inr \<lparr>sr_generated_at = generated_at, sr_provider = name, sr_entities = entities,
              sr_errors = lefts outcomes\<rparr>))"

section \<open>What a report says\<close>

lemma values_at_paths: "path \<in> set (payload_paths v) \<longleftrightarrow> values_at path v \<noteq> []"
  by (force simp: payload_paths_def values_at_def filter_empty_conv)

lemma flatten_paths: "map fst (flatten_payload include v) = payload_paths v"
  by (simp add: flatten_payload_def comp_def)

lemma path_types_iff: "t \<in> set (path_types path v) \<longleftrightarrow> t \<in> type_of_json ` set (values_at path v)"
  by (simp add: path_types_def)

lemma type_order_all: "t \<in> set type_order"
  by (cases t) (simp_all add: type_order_def)

lemma observed_types_iff:
  "t \<in> set (observed_types path payloads) \<longleftrightarrow>
     (\<exists>v \<in> set payloads. t \<in> type_of_json ` set (values_at path v))"
  by (simp add: observed_types_def list_ex_iff type_order_all path_types_iff)

lemma type_of_json_null: "type_of_json v = TNull \<longleftrightarrow> v = JNull"
  by (cases v) simp_all

lemma null_at: "TNull \<in> type_of_json ` A \<longleftrightarrow> JNull \<in> A"
proof -
  have "TNull = type_of_json v \<longleftrightarrow> v = JNull" for v by (cases v) simp_all
  then show ?thesis by (auto simp: image_iff)
qed

lemma present_count_le: "present_count path payloads \<le> length payloads"
  by (simp add: present_count_def)

lemma filter_all: "length (filter P xs) = length xs \<longleftrightarrow> (\<forall>x \<in> set xs. P x)"
proof (induction xs)
  case (Cons x xs)
  have "length (filter P xs) < length (x # xs)" using length_filter_le [of P xs] by (simp only: list.size)
  with Cons show ?case by (cases "P x") auto
qed simp

lemma present_count_all:
  "present_count path payloads = length payloads \<longleftrightarrow> (\<forall>v \<in> set payloads. values_at path v \<noteq> [])"
  unfolding present_count_def flatten_paths values_at_paths by (rule filter_all)

lemma present_count_pos:
  "path \<in> set (all_paths payloads) \<Longrightarrow> 1 \<le> present_count path payloads"
  unfolding present_count_def flatten_paths
  by (auto simp: all_paths_def Suc_le_eq length_greater_0_conv filter_empty_conv)

lemma root_always_present: "values_at root_path v \<noteq> []"
  by (cases v) (simp_all add: values_at_def)

text \<open>
  C26: Every field profile says what the samples hold. For an analysed entity the paths are
  sorted and distinct; a path is listed exactly when some sample has it; its counts and its
  availability are in range (so the report model accepts them); its types are exactly those seen
  at the path; it is required exactly when every sample has it and none holds null there; and it
  is highly stable exactly when it is required with a single type.
\<close>

theorem field_profiles_are_accurate:
  assumes "analyze_entity sha sha_bytes include t samples = Inr rep"
  shows "sorted (map fp_path (en_fields rep)) \<and> distinct (map fp_path (en_fields rep)) \<and>
    (\<forall>p. p \<in> fp_path ` set (en_fields rep) \<longleftrightarrow> (\<exists>(r, v) \<in> set samples. values_at p v \<noteq> [])) \<and>
    list_all (\<lambda>f.
      1 \<le> fp_present f \<and> fp_present f \<le> fp_samples f \<and> fp_samples f = length samples \<and>
      0 \<le> fp_availability f \<and> fp_availability f \<le> 1 \<and>
      set (fp_types f) = (\<Union>(r, v) \<in> set samples. type_of_json ` set (values_at (fp_path f) v)) \<and>
      (fp_required f \<longleftrightarrow> list_all (\<lambda>(r, v). values_at (fp_path f) v \<noteq> [] \<and>
         JNull \<notin> set (values_at (fp_path f) v)) samples) \<and>
      (fp_stability f = StableHigh \<longleftrightarrow> fp_required f \<and> length (fp_types f) \<le> 1)) (en_fields rep)"
proof -
  define payloads where "payloads = map snd samples"
  have fields: "en_fields rep = map (profile_field include payloads) (all_paths payloads)"
    using assms by (auto simp: analyze_entity_def bindr_Inr payloads_def)
  have paths: "map fp_path (en_fields rep) = all_paths payloads"
    by (simp add: fields comp_def profile_field_def Let_def)
  have order: "sorted (all_paths payloads)" "distinct (all_paths payloads)"
    by (simp_all add: all_paths_def)
  have listed: "p \<in> fp_path ` set (en_fields rep) \<longleftrightarrow> (\<exists>(r, v) \<in> set samples. values_at p v \<noteq> [])" for p
    unfolding set_map [symmetric] paths
    by (force simp: all_paths_def values_at_paths payloads_def)
  have accurate: "list_all (\<lambda>f.
      1 \<le> fp_present f \<and> fp_present f \<le> fp_samples f \<and> fp_samples f = length samples \<and>
      0 \<le> fp_availability f \<and> fp_availability f \<le> 1 \<and>
      set (fp_types f) = (\<Union>(r, v) \<in> set samples. type_of_json ` set (values_at (fp_path f) v)) \<and>
      (fp_required f \<longleftrightarrow> list_all (\<lambda>(r, v). values_at (fp_path f) v \<noteq> [] \<and>
         JNull \<notin> set (values_at (fp_path f) v)) samples) \<and>
      (fp_stability f = StableHigh \<longleftrightarrow> fp_required f \<and> length (fp_types f) \<le> 1)) (en_fields rep)"
  proof (subst list_all_iff, rule ballI)
    fix f assume f: "f \<in> set (en_fields rep)"
    obtain p where p: "p \<in> set (all_paths payloads)" "f = profile_field include payloads p"
      using f by (auto simp: fields)
    define n where "n = present_count p payloads"
    have n: "1 \<le> n" "n \<le> length payloads" using present_count_pos [OF p(1)] present_count_le
      by (simp_all add: n_def)
    then have "0 \<le> (of_nat n / of_nat (length payloads) :: rat)"
      "of_nat n / of_nat (length payloads) \<le> (1 :: rat)" by (simp_all add: divide_le_eq_1)
    from double.fl_unit [OF this]
    have avail: "0 \<le> fp_availability f" "fp_availability f \<le> 1"
      using decimal.fl_unit [of "double (of_nat n / of_nat (length payloads))" 6]
      by (simp_all add: p(2) profile_field_def Let_def n_def)
    have types: "set (observed_types p payloads) =
        (\<Union>(r, v) \<in> set samples. type_of_json ` set (values_at p v))"
      by (auto simp: observed_types_iff payloads_def set_eq_iff) force+
    have null: "TNull \<in> set (observed_types p payloads) \<longleftrightarrow>
        (\<exists>(r, v) \<in> set samples. JNull \<in> set (values_at p v))"
      unfolding types by (simp add: case_prod_beta null_at)
    have req: "fp_required f \<longleftrightarrow> n = length payloads \<and> TNull \<notin> set (observed_types p payloads)"
      by (simp add: p(2) profile_field_def Let_def n_def)
    then have required: "fp_required f \<longleftrightarrow> list_all (\<lambda>(r, v). values_at p v \<noteq> [] \<and>
         JNull \<notin> set (values_at p v)) samples"
      unfolding null n_def present_count_all by (fastforce simp: payloads_def list_all_iff)
    have "fp_required f \<Longrightarrow> filter (\<lambda>t. t \<noteq> TNull) (fp_types f) = fp_types f"
      using req by (auto simp: p(2) profile_field_def Let_def intro!: filter_True)
    then have "fp_stability f = StableHigh \<longleftrightarrow> fp_required f \<and> length (fp_types f) \<le> 1"
      by (auto simp: p(2) profile_field_def Let_def)
    with n avail types required show "1 \<le> fp_present f \<and> fp_present f \<le> fp_samples f \<and>
      fp_samples f = length samples \<and> 0 \<le> fp_availability f \<and> fp_availability f \<le> 1 \<and>
      set (fp_types f) = (\<Union>(r, v) \<in> set samples. type_of_json ` set (values_at (fp_path f) v)) \<and>
      (fp_required f \<longleftrightarrow> list_all (\<lambda>(r, v). values_at (fp_path f) v \<noteq> [] \<and>
         JNull \<notin> set (values_at (fp_path f) v)) samples) \<and>
      (fp_stability f = StableHigh \<longleftrightarrow> fp_required f \<and> length (fp_types f) \<le> 1)"
      by (simp add: p(2) profile_field_def Let_def n_def payloads_def)
  qed
  show ?thesis unfolding paths by (intro conjI allI order listed accurate)
qed

definition sample_response :: raw_response where
  "sample_response =
     \<lparr>rr_provider = lit ''fixture'', rr_entity = EtWork, rr_source = lit ''1'', rr_status = 200,
      rr_content_type = lit ''application/json'', rr_body = [49]\<rparr>"

definition sample_report :: entity_report where
  "sample_report =
     \<lparr>en_entity = EtWork,
      en_samples = [\<lparr>sp_source = lit ''1'', sp_payload_sha = [49], sp_fingerprint = []\<rparr>],
      en_fields = [profile_field False [JInt 1] root_path]\<rparr>"

lemma sample_analysis:
  "analyze_entity (\<lambda>s. []) (\<lambda>b. b) False EtWork [(sample_response, JInt 1)] = Inr sample_report"
  by (simp add: analyze_entity_def fingerprint_payload_def Let_def utf8_encodable_def is_surrogate_def
      json_member_def json_string_def lit_def json_escape_def sample_report_def sample_response_def
      all_paths_def payload_paths_def)

theorem field_profiles_are_accurate_witness:
  "fp_path ` set (en_fields sample_report) = {root_path}"
  using field_profiles_are_accurate [OF sample_analysis, THEN conjunct2, THEN conjunct2,
      THEN conjunct1]
  unfolding set_eq_iff by (simp add: values_at_def)

text \<open>
  Examples stay small and never show a sensitive field. A profile carries at most three
  distinct examples, each of at most 80 characters, none unless they were asked for; and on a
  path that names an authorization, a cookie, a password, a secret or a token, in any case of
  letters, each is the redaction mark.
\<close>

lemma add_example_inv:
  "distinct acc \<and> length acc \<le> 3 \<and> list_all P acc \<Longrightarrow> P ex \<Longrightarrow>
     distinct (add_example ex acc) \<and> length (add_example ex acc) \<le> 3 \<and> list_all P (add_example ex acc)"
  by (auto simp: add_example_def)

lemma fold_add_example:
  "distinct acc \<and> length acc \<le> 3 \<and> list_all P acc \<Longrightarrow> list_all P exs \<Longrightarrow>
     distinct (fold add_example exs acc) \<and> length (fold add_example exs acc) \<le> 3 \<and>
     list_all P (fold add_example exs acc)"
proof (induction exs arbitrary: acc)
  case (Cons ex exs)
  then show ?case using add_example_inv [of acc P ex] by simp
qed simp

definition example_ok :: "pystr \<Rightarrow> pystr \<Rightarrow> bool" where
  "example_ok path ex \<longleftrightarrow> length ex \<le> 80 \<and>
     (list_ex (\<lambda>f. has_fragment f (py_lower path)) sensitive_path_parts \<longrightarrow> ex = lit ''[REDACTED]'')"

lemma safe_example_ok: "example_ok path (safe_example path v)"
  by (auto simp: example_ok_def safe_example_def Let_def lit_def split: json.splits)

theorem examples_are_bounded_and_redacted:
  assumes "analyze_entity sha sha_bytes include t samples = Inr rep"
  shows "list_all (\<lambda>f. distinct (fp_examples f) \<and> length (fp_examples f) \<le> 3 \<and>
      (include \<or> fp_examples f = []) \<and>
      list_all (\<lambda>ex. length ex \<le> 80 \<and>
        (ex = lit ''[REDACTED]'' \<or>
         \<not> list_ex (\<lambda>part. has_fragment part (py_lower (fp_path f))) sensitive_path_parts))
        (fp_examples f)) (en_fields rep)"
proof -
  have "list_all (example_ok p) (concat (map (path_examples include p) vs))" for p vs
    by (auto simp: list_all_iff path_examples_def safe_example_ok split: if_splits)
  then have c: "distinct (collect_examples include p vs) \<and> length (collect_examples include p vs) \<le> 3 \<and>
      list_all (example_ok p) (collect_examples include p vs)" for p vs
    unfolding collect_examples_def by (intro fold_add_example) simp_all
  have "en_fields rep = map (profile_field include (map snd samples)) (all_paths (map snd samples))"
    using assms by (auto simp: analyze_entity_def bindr_Inr)
  then show ?thesis using c
    by (fastforce simp: list_all_iff profile_field_def Let_def example_ok_def)
qed

theorem examples_are_bounded_and_redacted_witness:
  "list_all (\<lambda>f. fp_examples f = []) (en_fields sample_report)"
  using examples_are_bounded_and_redacted [OF sample_analysis] by (simp add: list_all_iff)

text \<open>
  A payload with an unpaired surrogate in a key, which JSON text can spell, is decoded without an
  error but has no fingerprint: the exception leaves the provider loop and no report is made.
\<close>

lemma surrogate_key_aborts_the_probe:
  "analyze_provider sha sha_bytes (\<lambda>t. Inr (JObj [([55296], JNull)])) include now name
     (\<lambda>req s. (Inr sample_response, s)) [\<lparr>ar_entity = EtWork, ar_source = lit ''1''\<rparr>] s =
   Inl ValueError"
proof -
  have "json_value (\<lambda>t. Inr (JObj [([55296], JNull)])) sample_response =
      Inr (JObj [([55296], JNull)])"
    by (simp add: json_value_def sample_response_def py_lower_def lower_char_def lit_def
        ascii_lower_char_def)
  moreover have "\<not> utf8_encodable (dumps_descriptor (structure_descriptor (JObj [([55296], JNull)])))"
    by (simp add: utf8_encodable_def is_surrogate_def json_member_def json_string_def
        json_escape_def)
  ultimately show ?thesis
    by (simp add: analyze_provider_def probe_one_def sample_response_def entity_order_def
        analyze_entity_def fingerprint_payload_def Let_def)
qed

end
