(* ===== verification/SchemaDiff.thy ===== *)
theory SchemaDiff
  imports SchemaProbe
begin

text \<open>
  The comparison of two schema reports, \<open>src/pixiv_yuri/schema_probe/diff.py\<close>.  A report index
  is a dict, in which a later field with the same entity and path replaces an earlier one.
\<close>

section \<open>The comparison\<close>

datatype change_kind = FieldAdded | FieldRemoved | TypesChanged | AvailabilityChanged | RequiredChanged

datatype change_value = Absent | Label pystr | Measure rat

datatype severity = SevHigh | SevMedium | SevLow

record field_change =
  fc_entity :: entity_type
  fc_path :: pystr
  fc_kind :: change_kind
  fc_before :: change_value
  fc_after :: change_value
  fc_severity :: severity

record schema_diff =
  sd_baseline_at :: instant
  sd_candidate_at :: instant
  sd_changes :: "field_change list"
  sd_breaking :: nat

type_synonym field_key = "entity_type \<times> pystr"

definition field_pairs :: "schema_report \<Rightarrow> (field_key \<times> field_profile) list" where
  "field_pairs report =
     concat (map (\<lambda>e. map (\<lambda>f. ((en_entity e, fp_path f), f)) (en_fields e)) (sr_entities report))"

definition field_index :: "schema_report \<Rightarrow> field_key \<Rightarrow> field_profile option" where
  "field_index report = map_of (rev (field_pairs report))"

fun entity_rank :: "entity_type \<Rightarrow> nat" where
  "entity_rank EtAuthor = 0"
| "entity_rank EtSearchPage = 1"
| "entity_rank EtTagPage = 2"
| "entity_rank EtWork = 3"

definition key_order :: "field_key \<Rightarrow> nat \<times> pystr" where
  "key_order k = (entity_rank (fst k), snd k)"

definition report_keys :: "schema_report \<Rightarrow> schema_report \<Rightarrow> field_key list" where
  "report_keys a b =
     sort_key key_order (remdups (map fst (field_pairs a) @ map fst (field_pairs b)))"

fun join_bar :: "pystr list \<Rightarrow> pystr" where
  "join_bar [] = []"
| "join_bar [t] = t"
| "join_bar (t # ts) = t @ 124 # join_bar ts"

definition types_label :: "field_profile \<Rightarrow> pystr" where
  "types_label f = join_bar (map type_name (fp_types f))"

definition bool_label :: "bool \<Rightarrow> pystr" where
  "bool_label b = (if b then lit ''true'' else lit ''false'')"

definition change_at ::
  "field_key \<Rightarrow> change_kind \<Rightarrow> change_value \<Rightarrow> change_value \<Rightarrow> severity \<Rightarrow> field_change" where
  "change_at key kind before after sev =
     \<lparr>fc_entity = fst key, fc_path = snd key, fc_kind = kind, fc_before = before, fc_after = after,
      fc_severity = sev\<rparr>"

definition compare_both ::
  "rat \<Rightarrow> field_key \<Rightarrow> field_profile \<Rightarrow> field_profile \<Rightarrow> field_change list" where
  "compare_both threshold key b a =
     (if types_label b \<noteq> types_label a
      then [change_at key TypesChanged (Label (types_label b)) (Label (types_label a)) SevHigh]
      else []) @
     (let delta = double (fp_availability a - fp_availability b)
      in if threshold \<le> \<bar>delta\<bar>
         then [change_at key AvailabilityChanged (Measure (fp_availability b))
                 (Measure (fp_availability a)) (if delta < 0 then SevMedium else SevLow)]
         else []) @
     (if fp_required b \<noteq> fp_required a
      then [change_at key RequiredChanged (Label (bool_label (fp_required b)))
              (Label (bool_label (fp_required a))) (if fp_required b then SevHigh else SevMedium)]
      else [])"

definition compare_field ::
  "rat \<Rightarrow> field_key \<Rightarrow> field_profile option \<Rightarrow> field_profile option \<Rightarrow> field_change list" where
  "compare_field threshold key before after =
     (case (before, after) of
        (None, Some a) \<Rightarrow> [change_at key FieldAdded Absent (Label (types_label a)) SevLow]
      | (Some b, None) \<Rightarrow>
          [change_at key FieldRemoved (Label (types_label b)) Absent
             (if fp_required b then SevHigh else SevMedium)]
      | (None, None) \<Rightarrow> []
      | (Some b, Some a) \<Rightarrow> compare_both threshold key b a)"

definition compare_reports :: "schema_report \<Rightarrow> schema_report \<Rightarrow> rat \<Rightarrow> error + schema_diff" where
  "compare_reports baseline candidate threshold =
     (if \<not> (0 \<le> threshold \<and> threshold \<le> 1) then Inl ValueError
      else let changes = concat (map (\<lambda>key. compare_field threshold key
                 (field_index baseline key) (field_index candidate key))
                 (report_keys baseline candidate))
           in Inr \<lparr>sd_baseline_at = sr_generated_at baseline,
                   sd_candidate_at = sr_generated_at candidate, sd_changes = changes,
                   sd_breaking = length (filter (\<lambda>c. fc_severity c = SevHigh) changes)\<rparr>)"

section \<open>What a comparison says\<close>

lemma field_index_key: "field_index report key \<noteq> None \<longleftrightarrow> key \<in> fst ` set (field_pairs report)"
  by (auto simp: field_index_def map_of_eq_None_iff image_iff)

lemma report_keys_set:
  "key \<in> set (report_keys a b) \<longleftrightarrow> field_index a key \<noteq> None \<or> field_index b key \<noteq> None"
  unfolding field_index_key by (auto simp: report_keys_def)

text \<open>A change that breaks readers: a required field gone or optional, or other types.\<close>

definition breaking_at :: "field_profile option \<Rightarrow> field_profile option \<Rightarrow> bool" where
  "breaking_at before after =
     (case before of
        None \<Rightarrow> False
      | Some b \<Rightarrow>
          (case after of
             None \<Rightarrow> fp_required b
           | Some a \<Rightarrow> types_label b \<noteq> types_label a \<or> (fp_required b \<and> \<not> fp_required a)))"

definition same_field :: "rat \<Rightarrow> field_profile option \<Rightarrow> field_profile option \<Rightarrow> bool" where
  "same_field threshold before after =
     (case (before, after) of
        (None, None) \<Rightarrow> True
      | (Some b, Some a) \<Rightarrow> types_label b = types_label a \<and> fp_required b = fp_required a \<and>
          \<bar>double (fp_availability a - fp_availability b)\<bar> < threshold
      | _ \<Rightarrow> False)"

lemma compare_field_empty:
  "compare_field threshold key before after = [] \<longleftrightarrow> same_field threshold before after"
  by (auto simp: compare_field_def same_field_def compare_both_def Let_def split: option.splits)

lemma compare_field_breaking:
  "(\<exists>c \<in> set (compare_field threshold key before after). fc_severity c = SevHigh) \<longleftrightarrow>
     breaking_at before after"
  by (auto simp: compare_field_def breaking_at_def compare_both_def Let_def change_at_def
      split: option.splits)

definition change_key :: "field_change \<Rightarrow> field_key" where
  "change_key c = (fc_entity c, fc_path c)"

lemma compare_field_key: "c \<in> set (compare_field threshold key before after) \<Longrightarrow> change_key c = key"
  by (auto simp: compare_field_def compare_both_def Let_def change_at_def change_key_def
      split: option.splits if_splits)

lemma change_listed:
  assumes "compare_reports baseline candidate threshold = Inr d"
  shows "c \<in> set (sd_changes d) \<and> change_key c = key \<longleftrightarrow>
    c \<in> set (compare_field threshold key (field_index baseline key) (field_index candidate key))"
proof -
  have "sd_changes d = concat (map (\<lambda>key. compare_field threshold key
      (field_index baseline key) (field_index candidate key)) (report_keys baseline candidate))"
    using assms by (auto simp: compare_reports_def Let_def split: if_splits)
  then have "c \<in> set (sd_changes d) \<longleftrightarrow> (\<exists>k \<in> set (report_keys baseline candidate).
      c \<in> set (compare_field threshold k (field_index baseline k) (field_index candidate k)))" by simp
  moreover have "key \<in> set (report_keys baseline candidate)"
    if "c \<in> set (compare_field threshold key (field_index baseline key) (field_index candidate key))"
    using that unfolding report_keys_set
    by (cases "field_index baseline key"; cases "field_index candidate key") (simp_all add: compare_field_def)
  ultimately show ?thesis using compare_field_key by blast
qed

lemma changed_keys:
  assumes "compare_reports baseline candidate threshold = Inr d"
  shows "key \<in> change_key ` set (sd_changes d) \<longleftrightarrow>
    \<not> same_field threshold (field_index baseline key) (field_index candidate key)"
proof -
  have "key \<in> change_key ` set (sd_changes d) \<longleftrightarrow> (\<exists>c. c \<in> set (sd_changes d) \<and> change_key c = key)"
    by (simp add: image_iff Bex_def eq_commute [of key])
  also have "\<dots> \<longleftrightarrow> compare_field threshold key (field_index baseline key) (field_index candidate key) \<noteq> []"
    unfolding change_listed [OF assms] ex_in_conv by simp
  finally show ?thesis by (simp add: compare_field_empty)
qed

lemma breaking_keys:
  assumes "compare_reports baseline candidate threshold = Inr d"
  shows "key \<in> change_key ` {c \<in> set (sd_changes d). fc_severity c = SevHigh} \<longleftrightarrow>
    breaking_at (field_index baseline key) (field_index candidate key)"
proof -
  have "key \<in> change_key ` {c \<in> set (sd_changes d). fc_severity c = SevHigh} \<longleftrightarrow>
      (\<exists>c. (c \<in> set (sd_changes d) \<and> change_key c = key) \<and> fc_severity c = SevHigh)"
    by (auto simp: image_iff)
  then show ?thesis
    unfolding compare_field_breaking [symmetric, of _ _ threshold key] change_listed [OF assms] by blast
qed

text \<open>
  C28: A comparison misses nothing and invents nothing. The fields that its changes name are
  exactly those that one report lacks, or whose types or requiredness differ, or whose availability
  moved by the threshold or more; the fields with a breaking change are exactly the required ones
  that disappeared or became optional and those that changed their types; and the number of breaking
  changes is zero exactly when there is none.
\<close>

theorem diff_reports_exactly_the_changes:
  assumes "compare_reports baseline candidate threshold = Inr d"
  shows "change_key ` set (sd_changes d) =
      {key. \<not> same_field threshold (field_index baseline key) (field_index candidate key)} \<and>
    change_key ` {c \<in> set (sd_changes d). fc_severity c = SevHigh} =
      {key. breaking_at (field_index baseline key) (field_index candidate key)} \<and>
    (sd_breaking d = 0 \<longleftrightarrow>
      (\<forall>key. \<not> breaking_at (field_index baseline key) (field_index candidate key)))"
proof -
  have "sd_breaking d = length (filter (\<lambda>c. fc_severity c = SevHigh) (sd_changes d))"
    using assms by (auto simp: compare_reports_def Let_def split: if_splits)
  then have "sd_breaking d = 0 \<longleftrightarrow> (\<forall>key. key \<notin> change_key ` {c \<in> set (sd_changes d). fc_severity c = SevHigh})"
    by (auto simp: filter_empty_conv)
  then show ?thesis using changed_keys [OF assms] breaking_keys [OF assms] by blast
qed

definition empty_report :: schema_report where
  "empty_report =
     \<lparr>sr_generated_at = 0, sr_provider = lit ''fixture'', sr_entities = [], sr_errors = []\<rparr>"

definition one_field_report :: schema_report where
  "one_field_report = empty_report\<lparr>sr_entities := [sample_report]\<rparr>"

lemma sample_comparison:
  "compare_reports empty_report one_field_report (1 / 5) =
     Inr \<lparr>sd_baseline_at = 0, sd_candidate_at = 0,
          sd_changes = [change_at (EtWork, root_path) FieldAdded Absent
            (Label (types_label (profile_field False [JInt 1] root_path))) SevLow],
          sd_breaking = 0\<rparr>"
  by (simp add: compare_reports_def empty_report_def one_field_report_def sample_report_def
      report_keys_def field_pairs_def field_index_def compare_field_def change_at_def Let_def
      profile_field_def)

theorem diff_reports_exactly_the_changes_witness:
  "change_key ` set [change_at (EtWork, root_path) FieldAdded Absent
     (Label (types_label (profile_field False [JInt 1] root_path))) SevLow] =
     {key. \<not> same_field (1 / 5) (field_index empty_report key) (field_index one_field_report key)} \<and>
   (\<forall>key. \<not> breaking_at (field_index empty_report key) (field_index one_field_report key))"
  using diff_reports_exactly_the_changes [OF sample_comparison] by simp

text \<open>A report differs from itself in nothing, for every positive threshold.\<close>

lemma diff_with_itself_is_empty:
  assumes "0 < threshold" and "compare_reports report report threshold = Inr d"
  shows "sd_changes d = []"
proof -
  have "same_field threshold f f" for f using assms(1) by (simp add: same_field_def split: option.splits)
  then have none: "key \<notin> change_key ` set (sd_changes d)" for key
    by (simp only: changed_keys [OF assms(2)] not_not)
  show ?thesis
  proof (cases "sd_changes d")
    case (Cons c cs)
    then have "change_key c \<in> change_key ` set (sd_changes d)" by simp
    with none [of "change_key c"] show ?thesis by contradiction
  qed
qed

text \<open>
  The accepted threshold 0 reports an availability change for every field both reports have,
  even of a report with itself.
\<close>

lemma zero_threshold_flags_unchanged:
  "compare_reports one_field_report one_field_report 0 = Inr d \<Longrightarrow> sd_changes d \<noteq> []"
proof -
  assume d: "compare_reports one_field_report one_field_report 0 = Inr d"
  have "field_index one_field_report (EtWork, root_path) \<noteq> None"
    by (simp add: field_index_def field_pairs_def one_field_report_def empty_report_def sample_report_def
        profile_field_def Let_def)
  then have "\<not> same_field 0 (field_index one_field_report (EtWork, root_path))
      (field_index one_field_report (EtWork, root_path))"
    by (auto simp: same_field_def)
  then show ?thesis using changed_keys [OF d, of "(EtWork, root_path)"] by auto
qed

end
