(* ===== verification/TagAssociations.thy ===== *)
theory TagAssociations
  imports Floats "HOL-Library.List_Lexorder" "HOL-Library.Multiset"
begin

text \<open>
  Tag co-occurrence metrics, \<open>src/pixiv_yuri/analytics/tag_associations.py\<close>: the bounded scan
  of the works, and the sorted and truncated edge list.  A \<open>Counter\<close> is the list of its
  increments.  \<open>math.log2\<close> is the argument \<open>lg\<close>; every other float operation is rounded by
  \<open>double\<close>.
\<close>

section \<open>Works and edges\<close>

record tag_descriptor =
  td_name :: pystr
  td_translation :: "pystr option"

record tagged_work =
  tw_id :: pystr
  tw_tags :: "tag_descriptor list"

record tag_edge =
  te_left :: tag_descriptor
  te_right :: tag_descriptor
  te_left_count :: int
  te_right_count :: int
  te_cooccurrence :: int
  te_support :: int
  te_jaccard :: int
  te_pmi :: int

record tag_graph =
  tg_sampled :: int
  tg_observed :: int
  tg_eligible :: int
  tg_truncated :: bool
  tg_anchor :: "pystr option"
  tg_minimum :: int
  tg_edges :: "tag_edge list"

definition ratio_basis_points :: "int \<Rightarrow> int \<Rightarrow> int" where
  "ratio_basis_points n d = (if d \<le> 0 then 0 else (n * 10000 + d div 2) div d)"

definition pmi_milli_bits :: "(rat \<Rightarrow> rat) \<Rightarrow> int \<Rightarrow> int \<Rightarrow> int \<Rightarrow> int \<Rightarrow> error + int" where
  "pmi_milli_bits lg cooccurrence sample_size left_count right_count =
     (if cooccurrence \<le> 0 \<or> sample_size \<le> 0 \<or> left_count \<le> 0 \<or> right_count \<le> 0 then Inl ValueError
      else let scaled = double (lg (double (of_int (cooccurrence * sample_size) /
                 of_int (left_count * right_count))) * 1000)
           in Inr (if 0 \<le> scaled then trunc_int (double (scaled + 1 / 2))
                   else trunc_int (double (scaled - 1 / 2))))"

section \<open>The scan\<close>

record tag_scan =
  ts_tags :: "pystr list"
  ts_pairs :: "(pystr \<times> pystr) list"
  ts_descriptors :: "pystr \<Rightarrow> tag_descriptor option"
  ts_seen :: "pystr list"

definition init_scan :: tag_scan where
  "init_scan = \<lparr>ts_tags = [], ts_pairs = [], ts_descriptors = (\<lambda>_. None), ts_seen = []\<rparr>"

fun scan_tags ::
  "tag_descriptor list \<Rightarrow> (pystr \<Rightarrow> tag_descriptor option) \<Rightarrow>
     error + (pystr \<Rightarrow> tag_descriptor option)" where
  "scan_tags [] ds = Inr ds"
| "scan_tags (t # ts) ds =
     (if td_name t = [] then Inl ValueError
      else case ds (td_name t) of
        Some e \<Rightarrow>
          if td_translation e \<noteq> td_translation t then Inl ValueError
          else scan_tags ts (ds(td_name t \<mapsto> t))
      | None \<Rightarrow> scan_tags ts (ds(td_name t \<mapsto> t)))"

definition ordered_names :: "tagged_work \<Rightarrow> pystr list" where
  "ordered_names w = sort (remdups (map td_name (tw_tags w)))"

fun pairs_of :: "'a list \<Rightarrow> ('a \<times> 'a) list" where
  "pairs_of [] = []"
| "pairs_of (x # xs) = map (Pair x) xs @ pairs_of xs"

definition scan_work :: "tagged_work \<Rightarrow> tag_scan \<Rightarrow> error + tag_scan" where
  "scan_work w s =
     (if tw_id w = [] \<or> tw_id w \<in> set (ts_seen s) then Inl ValueError
      else if 64 < length (tw_tags w) then Inl ValueError
      else bindr (scan_tags (tw_tags w) (ts_descriptors s)) (\<lambda>ds.
        Inr \<lparr>ts_tags = ts_tags s @ ordered_names w,
             ts_pairs = ts_pairs s @ pairs_of (ordered_names w), ts_descriptors = ds,
             ts_seen = tw_id w # ts_seen s\<rparr>))"

fun scan_works :: "tagged_work list \<Rightarrow> tag_scan \<Rightarrow> error + tag_scan" where
  "scan_works [] s = Inr s"
| "scan_works (w # ws) s = bindr (scan_work w s) (scan_works ws)"

section \<open>The graph\<close>

definition counter :: "'a list \<Rightarrow> 'a \<Rightarrow> int" where
  "counter xs x = int (count_list xs x)"

definition edge_of :: "(rat \<Rightarrow> rat) \<Rightarrow> int \<Rightarrow> tag_scan \<Rightarrow> pystr \<times> pystr \<Rightarrow> error + tag_edge" where
  "edge_of lg sample_size s p =
     (let left = fst p; right = snd p; cooccurrence = counter (ts_pairs s) p;
          left_count = counter (ts_tags s) left; right_count = counter (ts_tags s) right;
          union_count = left_count + right_count - cooccurrence
      in bindr (pmi_milli_bits lg cooccurrence sample_size left_count right_count) (\<lambda>pmi.
           Inr \<lparr>te_left = the (ts_descriptors s left), te_right = the (ts_descriptors s right),
                te_left_count = left_count, te_right_count = right_count,
                te_cooccurrence = cooccurrence,
                te_support = ratio_basis_points cooccurrence sample_size,
                te_jaccard = ratio_basis_points cooccurrence union_count, te_pmi = pmi\<rparr>))"

definition eligible_pair :: "pystr option \<Rightarrow> int \<Rightarrow> tag_scan \<Rightarrow> pystr \<times> pystr \<Rightarrow> bool" where
  "eligible_pair anchor minimum s p \<longleftrightarrow>
     minimum \<le> counter (ts_pairs s) p \<and>
     (case anchor of None \<Rightarrow> True | Some a \<Rightarrow> a = fst p \<or> a = snd p)"

fun collect :: "('a \<Rightarrow> error + 'b) \<Rightarrow> 'a list \<Rightarrow> error + 'b list" where
  "collect f [] = Inr []"
| "collect f (x # xs) = bindr (f x) (\<lambda>y. bindr (collect f xs) (\<lambda>ys. Inr (y # ys)))"

definition edge_key :: "tag_edge \<Rightarrow> int \<times> int \<times> int \<times> pystr \<times> pystr" where
  "edge_key e = (- te_cooccurrence e, - te_jaccard e, - te_pmi e, td_name (te_left e),
     td_name (te_right e))"

definition build_tag_association_graph ::
  "(rat \<Rightarrow> rat) \<Rightarrow> tagged_work list \<Rightarrow> pystr option \<Rightarrow> int \<Rightarrow> int \<Rightarrow> error + tag_graph" where
  "build_tag_association_graph lg works anchor minimum limit =
     (if 5000 < length works then Inl ValueError
      else if \<not> (1 \<le> minimum \<and> minimum \<le> 5000) then Inl ValueError
      else if \<not> (1 \<le> limit \<and> limit \<le> 200) then Inl ValueError
      else if anchor = Some [] then Inl ValueError
      else bindr (scan_works works init_scan) (\<lambda>s.
        bindr (collect (edge_of lg (int (length works)) s)
                 (filter (eligible_pair anchor minimum s) (first_seen (ts_pairs s)))) (\<lambda>unsorted.
          let edges = sort_key edge_key unsorted; eligible = int (length edges)
          in Inr \<lparr>tg_sampled = int (length works), tg_observed = int (card (set (ts_tags s))),
                  tg_eligible = eligible, tg_truncated = (limit < eligible), tg_anchor = anchor,
                  tg_minimum = minimum, tg_edges = take (nat limit) edges\<rparr>)))"

section \<open>What the scan counts\<close>

text \<open>The specification: in how many works a name, or two names together, occur.\<close>

definition work_names :: "tagged_work \<Rightarrow> pystr set" where
  "work_names w = td_name ` set (tw_tags w)"

definition works_with :: "pystr \<Rightarrow> tagged_work list \<Rightarrow> int" where
  "works_with a works = count_rows (\<lambda>w. a \<in> work_names w) works"

definition works_with_both :: "pystr \<Rightarrow> pystr \<Rightarrow> tagged_work list \<Rightarrow> int" where
  "works_with_both a b works = count_rows (\<lambda>w. a \<in> work_names w \<and> b \<in> work_names w) works"

lemma set_ordered_names [simp]: "set (ordered_names w) = work_names w"
  by (simp add: ordered_names_def work_names_def)

lemma ordered_names_props: "sorted (ordered_names w)" "distinct (ordered_names w)"
  by (simp_all add: ordered_names_def)

lemma count_list_distinct: "distinct xs \<Longrightarrow> count_list xs x = (if x \<in> set xs then 1 else 0)"
  by (induction xs) auto

lemma count_list_map_Pair: "count_list (map (Pair x) ys) (a, b) = (if a = x then count_list ys b else 0)"
  by (induction ys) auto

lemma count_pairs_of:
  assumes "sorted xs" and "distinct (xs :: 'a::linorder list)"
  shows "count_list (pairs_of xs) (a, b) = (if a < b \<and> a \<in> set xs \<and> b \<in> set xs then 1 else 0)"
  using assms
proof (induction xs)
  case (Cons x xs)
  have less: "\<And>y. y \<in> set xs \<Longrightarrow> x < y"
    using Cons.prems by (auto simp: order.strict_iff_order)
  have tail: "count_list (pairs_of xs) (a, b) = (if a < b \<and> a \<in> set xs \<and> b \<in> set xs then 1 else 0)"
    using Cons.prems by (intro Cons.IH) simp_all
  have here: "count_list xs b = (if b \<in> set xs then 1 else 0)"
    using Cons.prems by (intro count_list_distinct) simp
  show ?case
  proof (cases "a = x")
    case True
    then have "a \<notin> set xs" using Cons.prems by simp
    with tail have "count_list (pairs_of xs) (a, b) = 0" by simp
    moreover have "b = x \<Longrightarrow> b \<notin> set xs" using Cons.prems by simp
    ultimately show ?thesis using less [of b] True by (auto simp: count_list_map_Pair here)
  next
    case False
    show ?thesis using less [of a] False
      by (auto simp add: count_list_map_Pair tail dest: less_trans)
  qed
qed simp

lemma scan_tags_Inr:
  "scan_tags ts ds = Inr ds' \<Longrightarrow> (\<forall>a e. ds a = Some e \<longrightarrow> td_name e = a) \<Longrightarrow>
     (\<forall>a e. ds' a = Some e \<longrightarrow> td_name e = a) \<and> dom ds' = dom ds \<union> td_name ` set ts"
proof (induction ts arbitrary: ds)
  case (Cons t ts)
  have "scan_tags ts (ds(td_name t \<mapsto> t)) = Inr ds'"
    using Cons.prems(1) by (simp split: if_splits option.splits)
  moreover have "\<forall>a e. (ds(td_name t \<mapsto> t)) a = Some e \<longrightarrow> td_name e = a" using Cons.prems(2) by auto
  ultimately have "(\<forall>a e. ds' a = Some e \<longrightarrow> td_name e = a) \<and>
      dom ds' = dom (ds(td_name t \<mapsto> t)) \<union> td_name ` set ts"
    by (rule Cons.IH)
  then show ?case by auto
qed simp

definition scan_ok :: "tagged_work list \<Rightarrow> tag_scan \<Rightarrow> bool" where
  "scan_ok works s \<longleftrightarrow>
     (\<forall>a. counter (ts_tags s) a = works_with a works) \<and>
     (\<forall>a b. counter (ts_pairs s) (a, b) = (if a < b then works_with_both a b works else 0)) \<and>
     (\<forall>a e. ts_descriptors s a = Some e \<longrightarrow> td_name e = a) \<and>
     dom (ts_descriptors s) = (\<Union>w \<in> set works. work_names w)"

lemma init_scan_ok: "scan_ok [] init_scan"
  by (simp add: scan_ok_def init_scan_def counter_def works_with_def works_with_both_def)

lemma scan_work_ok:
  assumes "scan_work w s = Inr s'" and "scan_ok works s"
  shows "scan_ok (works @ [w]) s'"
proof -
  obtain ds where ds: "scan_tags (tw_tags w) (ts_descriptors s) = Inr ds"
      "s' = \<lparr>ts_tags = ts_tags s @ ordered_names w,
             ts_pairs = ts_pairs s @ pairs_of (ordered_names w), ts_descriptors = ds,
             ts_seen = tw_id w # ts_seen s\<rparr>"
    using assms(1) by (auto simp: scan_work_def bindr_Inr split: if_splits)
  have "counter (ts_tags s') a = works_with a (works @ [w])" for a
    using assms(2) count_list_distinct [OF ordered_names_props(2), of w a]
    by (simp add: ds(2) counter_def scan_ok_def works_with_def)
  moreover have "counter (ts_pairs s') (a, b) =
      (if a < b then works_with_both a b (works @ [w]) else 0)" for a b
    using assms(2) count_pairs_of [OF ordered_names_props, of w a b]
    by (simp add: ds(2) counter_def scan_ok_def works_with_both_def)
  moreover have "(\<forall>a e. ds a = Some e \<longrightarrow> td_name e = a) \<and>
      dom ds = dom (ts_descriptors s) \<union> td_name ` set (tw_tags w)"
    using assms(2) by (intro scan_tags_Inr [OF ds(1)]) (simp add: scan_ok_def)
  ultimately show ?thesis using assms(2) by (auto simp: scan_ok_def ds(2) work_names_def)
qed

lemma scan_works_ok:
  "scan_works ws s = Inr s' \<Longrightarrow> scan_ok works s \<Longrightarrow> scan_ok (works @ ws) s'"
proof (induction ws arbitrary: works s)
  case (Cons w ws)
  then obtain s1 where "scan_work w s = Inr s1" "scan_works ws s1 = Inr s'"
    by (auto simp: bindr_Inr)
  with Cons.IH [of s1 "works @ [w]"] scan_work_ok Cons.prems(2) show ?case by simp
qed simp

lemma collect_Inr: "collect f xs = Inr ys \<longleftrightarrow> map f xs = map Inr ys"
  by (induction xs arbitrary: ys) (auto simp: bindr_Inr Cons_eq_map_conv)

lemma counter_pos_iff: "0 < counter xs x \<longleftrightarrow> x \<in> set xs"
  by (simp add: counter_def count_list_0_iff zero_less_iff_neq_zero)

section \<open>The edges against the specification\<close>

definition edge_names :: "tag_edge \<Rightarrow> pystr \<times> pystr" where
  "edge_names e = (td_name (te_left e), td_name (te_right e))"

definition eligible_names ::
  "tagged_work list \<Rightarrow> pystr option \<Rightarrow> int \<Rightarrow> (pystr \<times> pystr) set" where
  "eligible_names works anchor minimum =
     {(a, b). a < b \<and> minimum \<le> works_with_both a b works \<and>
        (case anchor of None \<Rightarrow> True | Some x \<Rightarrow> x = a \<or> x = b)}"

definition exact_edge :: "tagged_work list \<Rightarrow> tag_edge \<Rightarrow> bool" where
  "exact_edge works e \<longleftrightarrow>
     (let a = td_name (te_left e); b = td_name (te_right e) in
      te_left_count e = works_with a works \<and> te_right_count e = works_with b works \<and>
      te_cooccurrence e = works_with_both a b works \<and>
      te_support e = ratio_basis_points (works_with_both a b works) (int (length works)) \<and>
      te_jaccard e = ratio_basis_points (works_with_both a b works)
        (count_rows (\<lambda>w. a \<in> work_names w \<or> b \<in> work_names w) works))"

lemma works_with_either:
  "works_with a works + works_with b works - works_with_both a b works =
     count_rows (\<lambda>w. a \<in> work_names w \<or> b \<in> work_names w) works"
  by (induction works) (auto simp: works_with_def works_with_both_def)

lemma work_names_observed: "works_with a works > 0 \<longleftrightarrow> a \<in> (\<Union>w \<in> set works. work_names w)"
  by (auto simp: works_with_def count_rows_def filter_empty_conv)

lemma edge_of_exact:
  assumes ok: "scan_ok works s" and edge: "edge_of lg (int (length works)) s (a, b) = Inr e"
    and ab: "a < b"
  shows "edge_names e = (a, b) \<and> exact_edge works e"
proof -
  obtain pmi where pmi: "pmi_milli_bits lg (counter (ts_pairs s) (a, b)) (int (length works))
        (counter (ts_tags s) a) (counter (ts_tags s) b) = Inr pmi"
    and e: "e = \<lparr>te_left = the (ts_descriptors s a), te_right = the (ts_descriptors s b),
        te_left_count = counter (ts_tags s) a, te_right_count = counter (ts_tags s) b,
        te_cooccurrence = counter (ts_pairs s) (a, b),
        te_support = ratio_basis_points (counter (ts_pairs s) (a, b)) (int (length works)),
        te_jaccard = ratio_basis_points (counter (ts_pairs s) (a, b))
          (counter (ts_tags s) a + counter (ts_tags s) b - counter (ts_pairs s) (a, b)),
        te_pmi = pmi\<rparr>"
    using edge by (auto simp: edge_of_def Let_def bindr_Inr)
  have counts: "counter (ts_tags s) x = works_with x works"
    "counter (ts_pairs s) (a, b) = works_with_both a b works" for x
    using ok ab by (simp_all add: scan_ok_def)
  have "works_with a works > 0" "works_with b works > 0"
    using pmi by (auto simp: pmi_milli_bits_def counts split: if_splits)
  then have "a \<in> dom (ts_descriptors s)" "b \<in> dom (ts_descriptors s)"
    using ok by (simp_all only: work_names_observed scan_ok_def)
  then obtain da db where d: "ts_descriptors s a = Some da" "ts_descriptors s b = Some db"
    by blast
  then have "td_name da = a" "td_name db = b" using ok by (simp_all add: scan_ok_def)
  then show ?thesis
    by (simp add: e d counts edge_names_def exact_edge_def works_with_either)
qed

lemma eligible_pairs:
  assumes "scan_ok works s" and "1 \<le> minimum"
  shows "set (filter (eligible_pair anchor minimum s) (first_seen (ts_pairs s))) =
    eligible_names works anchor minimum"
proof -
  have "(a, b) \<in> set (ts_pairs s) \<longleftrightarrow> a < b \<and> 0 < works_with_both a b works" for a b
    using assms(1) unfolding counter_pos_iff [symmetric] by (simp add: scan_ok_def)
  moreover have "a < b \<Longrightarrow> counter (ts_pairs s) (a, b) = works_with_both a b works" for a b
    using assms(1) by (simp add: scan_ok_def)
  ultimately show ?thesis using assms(2)
    by (auto simp: eligible_pair_def eligible_names_def split: option.splits)
qed

definition all_edges ::
  "tagged_work list \<Rightarrow> pystr option \<Rightarrow> int \<Rightarrow> tag_edge list \<Rightarrow> bool" where
  "all_edges works anchor minimum es \<longleftrightarrow>
     distinct (map edge_names es) \<and> set (map edge_names es) = eligible_names works anchor minimum \<and>
     sorted (map edge_key es) \<and> (\<forall>e \<in> set es. exact_edge works e)"

definition graph_of ::
  "tagged_work list \<Rightarrow> pystr option \<Rightarrow> int \<Rightarrow> int \<Rightarrow> tag_scan \<Rightarrow> tag_edge list \<Rightarrow> tag_graph" where
  "graph_of works anchor minimum limit s us =
     \<lparr>tg_sampled = int (length works), tg_observed = int (card (set (ts_tags s))),
      tg_eligible = int (length us), tg_truncated = (limit < int (length us)),
      tg_anchor = anchor, tg_minimum = minimum,
      tg_edges = take (nat limit) (sort_key edge_key us)\<rparr>"

lemma graph_cases:
  assumes "build_tag_association_graph lg works anchor minimum limit = Inr g"
  obtains s us where "1 \<le> limit" and "1 \<le> minimum" and "scan_works works init_scan = Inr s"
    and "collect (edge_of lg (int (length works)) s)
      (filter (eligible_pair anchor minimum s) (first_seen (ts_pairs s))) = Inr us"
    and "g = graph_of works anchor minimum limit s us"
  using assms
  by (auto simp: build_tag_association_graph_def graph_of_def Let_def bindr_Inr split: if_splits)

lemma graph_edges:
  assumes "build_tag_association_graph lg works anchor minimum limit = Inr g"
  obtains es where "all_edges works anchor minimum es" and "tg_edges g = take (nat limit) es"
    and "tg_eligible g = int (length es)" and "tg_truncated g = (limit < int (length es))"
    and "tg_observed g = int (card (\<Union>w \<in> set works. work_names w))"
    and "1 \<le> limit" and "1 \<le> minimum" and "tg_sampled g = int (length works)"
proof -
  obtain s us where bounds: "1 \<le> limit" "1 \<le> minimum"
    and s: "scan_works works init_scan = Inr s"
    and us: "collect (edge_of lg (int (length works)) s)
      (filter (eligible_pair anchor minimum s) (first_seen (ts_pairs s))) = Inr us"
    and g: "g = graph_of works anchor minimum limit s us"
    using graph_cases [OF assms] .
  have ok: "scan_ok works s" using scan_works_ok [OF s init_scan_ok] by simp
  define ps where "ps = filter (eligible_pair anchor minimum s) (first_seen (ts_pairs s))"
  have ps: "set ps = eligible_names works anchor minimum" "distinct ps"
    using eligible_pairs [OF ok bounds(2)] by (simp_all add: ps_def)
  have map: "map (edge_of lg (int (length works)) s) ps = map Inr us"
    using us by (simp add: collect_Inr ps_def)
  then have len: "length us = length ps" by (metis length_map)
  have each: "edge_names (us ! i) = ps ! i \<and> exact_edge works (us ! i)" if "i < length us" for i
  proof -
    obtain a b where ab: "ps ! i = (a, b)" by force
    then have "a < b" using nth_mem [of i ps] that len ps(1) by (auto simp: eligible_names_def)
    moreover have "edge_of lg (int (length works)) s (a, b) = Inr (us ! i)"
      using arg_cong [OF map, of "\<lambda>xs. xs ! i"] that len ab by simp
    ultimately show ?thesis using edge_of_exact [OF ok] ab by simp
  qed
  have names: "map edge_names us = ps"
    by (rule nth_equalityI) (simp_all add: len each)
  have exact: "\<forall>e \<in> set us. exact_edge works e" using each by (auto simp: in_set_conv_nth)
  have "mset (map edge_names (sort_key edge_key us)) = mset ps" by (simp flip: names)
  then have "distinct (map edge_names (sort_key edge_key us))" using ps(2)
    by (metis mset_eq_imp_distinct_iff)
  moreover have "set (map edge_names (sort_key edge_key us)) = set ps" by (simp flip: names)
  ultimately have "all_edges works anchor minimum (sort_key edge_key us)"
    using ps exact by (simp add: all_edges_def)
  moreover have "x \<in> set (ts_tags s) \<longleftrightarrow> x \<in> (\<Union>w \<in> set works. work_names w)" for x
    using ok unfolding counter_pos_iff [symmetric] work_names_observed [symmetric]
    by (simp add: scan_ok_def)
  then have "set (ts_tags s) = (\<Union>w \<in> set works. work_names w)" by blast
  ultimately show thesis using bounds by (intro that [of "sort_key edge_key us"]) (simp_all add: g graph_of_def)
qed


definition wit_work :: "nat \<Rightarrow> nat list \<Rightarrow> tagged_work" where
  "wit_work i ns = \<lparr>tw_id = [i], tw_tags = map (\<lambda>n. \<lparr>td_name = [n], td_translation = None\<rparr>) ns\<rparr>"

definition wit_works :: "tagged_work list" where
  "wit_works = [wit_work 1 [4, 3], wit_work 2 [3, 4], wit_work 3 [4, 5]]"

lemma wit_graph:
  "\<exists>g. build_tag_association_graph (\<lambda>_. 0) wit_works None 1 1 = Inr g \<and>
     map edge_names (tg_edges g) = [([3], [4])] \<and> map te_jaccard (tg_edges g) = [6667] \<and>
     tg_eligible g = 2"
  by (simp add: build_tag_association_graph_def wit_works_def wit_work_def init_scan_def
      scan_work_def ordered_names_def first_seen_def counter_def eligible_pair_def edge_of_def
      pmi_milli_bits_def trunc_int_def ratio_basis_points_def edge_key_def edge_names_def Let_def)


end
