(* ===== verification/TagSensitivity.thy ===== *)
theory TagSensitivity
  imports TagAssociations
begin

text \<open>
  Threshold sensitivity of the tag graph, \<open>src/pixiv_yuri/analytics/tag_sensitivity.py\<close>: the same
  works at several minimum co-occurrences, and the baseline edges queued for human review.
\<close>

section \<open>The report\<close>

record sensitivity_point =
  sp_minimum :: int
  sp_eligible :: int
  sp_returned :: int
  sp_retention :: int
  sp_comparable :: bool

record review_candidate =
  rc_rank :: int
  rc_left :: tag_descriptor
  rc_right :: tag_descriptor
  rc_cooccurrence :: int
  rc_support :: int
  rc_jaccard :: int
  rc_pmi :: int
  rc_survives :: "int list"
  rc_review_state :: pystr

record sensitivity_report =
  sr_sampled :: int
  sr_anchor :: "pystr option"
  sr_thresholds :: "int list"
  sr_baseline_count :: int
  sr_baseline_truncated :: bool
  sr_classified :: bool
  sr_points :: "sensitivity_point list"
  sr_candidates :: "review_candidate list"

definition validate_thresholds :: "int list \<Rightarrow> error + unit" where
  "validate_thresholds ts =
     (if ts = [] \<or> 8 < length ts then Inl ValueError
      else if ts \<noteq> sort (remdups ts) then Inl ValueError
      else if hd ts \<noteq> 1 then Inl ValueError
      else if list_ex (\<lambda>t. t < 1 \<or> 5000 < t) ts then Inl ValueError
      else Inr ())"

definition edge_keys :: "tag_graph \<Rightarrow> (pystr \<times> pystr) set" where
  "edge_keys g = set (map edge_names (tg_edges g))"

definition retention_basis_points ::
  "(pystr \<times> pystr) set \<Rightarrow> (pystr \<times> pystr) set \<Rightarrow> int" where
  "retention_basis_points baseline current =
     (if baseline = {} then 0
      else (int (card (baseline \<inter> current)) * 10000 + int (card baseline) div 2) div
        int (card baseline))"

definition sensitivity_point_of :: "tag_graph \<Rightarrow> int \<Rightarrow> tag_graph \<Rightarrow> sensitivity_point" where
  "sensitivity_point_of baseline threshold g =
     \<lparr>sp_minimum = threshold, sp_eligible = tg_eligible g, sp_returned = int (length (tg_edges g)),
      sp_retention = retention_basis_points (edge_keys baseline) (edge_keys g),
      sp_comparable = (\<not> tg_truncated baseline \<and> \<not> tg_truncated g)\<rparr>"

definition candidate :: "int list \<Rightarrow> tag_graph list \<Rightarrow> int \<Rightarrow> tag_edge \<Rightarrow> review_candidate" where
  "candidate thresholds graphs rank e =
     \<lparr>rc_rank = rank, rc_left = te_left e, rc_right = te_right e,
      rc_cooccurrence = te_cooccurrence e, rc_support = te_support e, rc_jaccard = te_jaccard e,
      rc_pmi = te_pmi e,
      rc_survives = map fst (filter (\<lambda>(t, g). edge_names e \<in> edge_keys g) (zip thresholds graphs)),
      rc_review_state = lit ''pending_human_review''\<rparr>"

definition build_tag_association_sensitivity_report ::
  "(rat \<Rightarrow> rat) \<Rightarrow> tagged_work list \<Rightarrow> int list \<Rightarrow> pystr option \<Rightarrow> int \<Rightarrow>
     error + sensitivity_report" where
  "build_tag_association_sensitivity_report lg works thresholds anchor candidate_limit =
     bindr (validate_thresholds thresholds) (\<lambda>_.
       if \<not> (1 \<le> candidate_limit \<and> candidate_limit \<le> 200) then Inl ValueError
       else bindr (collect (\<lambda>t. build_tag_association_graph lg works anchor t 200) thresholds)
         (\<lambda>graphs. let baseline = hd graphs in Inr
           \<lparr>sr_sampled = tg_sampled baseline, sr_anchor = anchor, sr_thresholds = thresholds,
            sr_baseline_count = int (length (tg_edges baseline)),
            sr_baseline_truncated = tg_truncated baseline, sr_classified = False,
            sr_points = map (\<lambda>(t, g). sensitivity_point_of baseline t g) (zip thresholds graphs),
            sr_candidates = map (\<lambda>(i, e). candidate thresholds graphs (int i) e)
              (enumerate 1 (take (nat candidate_limit) (tg_edges baseline)))\<rparr>))"

section \<open>A higher threshold cuts the baseline\<close>

lemma collect_filter:
  "collect f xs = Inr ys \<Longrightarrow> (\<And>x y. x \<in> set xs \<Longrightarrow> f x = Inr y \<Longrightarrow> Q x = P y) \<Longrightarrow>
     collect f (filter Q xs) = Inr (filter P ys)"
proof (induction xs arbitrary: ys)
  case (Cons x xs)
  then obtain y zs where "f x = Inr y" "collect f xs = Inr zs" "ys = y # zs"
    by (auto simp: bindr_Inr)
  with Cons show ?case by simp
qed simp

lemma eligible_pair_threshold:
  "1 \<le> t \<Longrightarrow> eligible_pair anchor t s p \<longleftrightarrow> t \<le> counter (ts_pairs s) p \<and> eligible_pair anchor 1 s p"
  by (auto simp: eligible_pair_def)

lemma edge_of_cooccurrence: "edge_of lg n s p = Inr e \<Longrightarrow> te_cooccurrence e = counter (ts_pairs s) p"
  by (auto simp: edge_of_def Let_def bindr_Inr)

lemma sorted_filter_takeWhile:
  "sorted (map edge_key es) \<Longrightarrow>
     filter (\<lambda>e. t \<le> te_cooccurrence e) es = takeWhile (\<lambda>e. t \<le> te_cooccurrence e) es"
proof (induction es)
  case (Cons e es)
  show ?case
  proof (cases "t \<le> te_cooccurrence e")
    case False
    have "te_cooccurrence e' \<le> te_cooccurrence e" if "e' \<in> set es" for e'
    proof -
      have "edge_key e \<le> edge_key e'" using that Cons.prems by simp
      then show ?thesis by (auto simp: edge_key_def)
    qed
    with False show ?thesis by (fastforce simp: filter_empty_conv)
  qed (use Cons in simp)
qed simp

lemma takeWhile_take: "takeWhile P (take n xs) = take n (takeWhile P xs)"
  by (induction xs arbitrary: n) (simp_all add: take_Cons split: nat.split)

lemma graph_at_threshold:
  assumes base: "build_tag_association_graph lg works anchor 1 limit = Inr b"
    and at: "build_tag_association_graph lg works anchor t limit = Inr g"
  shows "tg_edges g = filter (\<lambda>e. t \<le> te_cooccurrence e) (tg_edges b)"
proof -
  obtain s us where s: "scan_works works init_scan = Inr s"
    and us: "collect (edge_of lg (int (length works)) s)
      (filter (eligible_pair anchor 1 s) (first_seen (ts_pairs s))) = Inr us"
    and b: "b = graph_of works anchor 1 limit s us"
    using graph_cases [OF base] by metis
  obtain vs where t: "1 \<le> t"
    and vs: "collect (edge_of lg (int (length works)) s)
      (filter (eligible_pair anchor t s) (first_seen (ts_pairs s))) = Inr vs"
    and g: "g = graph_of works anchor t limit s vs"
    using graph_cases [OF at] s by (metis sum.inject(2))
  let ?P = "\<lambda>e. t \<le> te_cooccurrence e"
  have "filter (eligible_pair anchor t s) (first_seen (ts_pairs s)) =
      filter (\<lambda>p. t \<le> counter (ts_pairs s) p)
        (filter (eligible_pair anchor 1 s) (first_seen (ts_pairs s)))"
    by (auto simp: eligible_pair_threshold [OF t] intro: filter_cong)
  then have "Inr vs = collect (edge_of lg (int (length works)) s) (filter
      (\<lambda>p. t \<le> counter (ts_pairs s) p) (filter (eligible_pair anchor 1 s) (first_seen (ts_pairs s))))"
    using vs by simp
  also have "\<dots> = Inr (filter ?P us)"
    by (rule collect_filter [OF us]) (simp add: edge_of_cooccurrence)
  finally have "tg_edges g = take (nat limit) (filter ?P (sort_key edge_key us))"
    by (simp add: g graph_of_def filter_sort)
  also have "\<dots> = take (nat limit) (takeWhile ?P (sort_key edge_key us))"
    by (simp add: sorted_filter_takeWhile)
  also have "\<dots> = takeWhile ?P (take (nat limit) (sort_key edge_key us))"
    by (rule takeWhile_take [symmetric])
  also have "\<dots> = filter ?P (take (nat limit) (sort_key edge_key us))"
    by (rule sorted_filter_takeWhile [symmetric]) (simp flip: take_map add: sorted_wrt_take)
  finally show ?thesis by (simp add: b graph_of_def)
qed

lemma baseline_names_distinct:
  assumes "build_tag_association_graph lg works anchor t limit = Inr g"
  shows "distinct (map edge_names (tg_edges g))"
proof -
  obtain es where "all_edges works anchor t es" "tg_edges g = take (nat limit) es"
    using graph_edges [OF assms] by metis
  then show ?thesis by (simp add: all_edges_def distinct_take flip: take_map)
qed

lemma key_survives:
  assumes "distinct (map edge_names es)" and "e \<in> set es"
  shows "edge_names e \<in> edge_names ` {x \<in> set es. P x} \<longleftrightarrow> P e"
  using assms by (auto simp: distinct_map inj_on_def)

definition keeps_at_least :: "int \<Rightarrow> tag_graph \<Rightarrow> tag_edge list" where
  "keeps_at_least t g = filter (\<lambda>e. t \<le> te_cooccurrence e) (tg_edges g)"

lemma point_at_threshold:
  assumes base: "build_tag_association_graph lg works anchor 1 200 = Inr b"
    and at: "build_tag_association_graph lg works anchor t 200 = Inr g"
  shows "edge_keys g = edge_names ` {e \<in> set (tg_edges b). t \<le> te_cooccurrence e}"
    and "sp_returned (sensitivity_point_of b t g) = int (length (keeps_at_least t b))"
    and "sp_retention (sensitivity_point_of b t g) =
      ratio_basis_points (int (length (keeps_at_least t b))) (int (length (tg_edges b)))"
    and "sp_eligible (sensitivity_point_of b t g) = int (card (eligible_names works anchor t))"
proof -
  have edges: "tg_edges g = keeps_at_least t b"
    using graph_at_threshold [OF base at] by (simp add: keeps_at_least_def)
  then show keys: "edge_keys g = edge_names ` {e \<in> set (tg_edges b). t \<le> te_cooccurrence e}"
    by (simp add: edge_keys_def keeps_at_least_def)
  show "sp_returned (sensitivity_point_of b t g) = int (length (keeps_at_least t b))"
    by (simp add: sensitivity_point_of_def edges)
  have "edge_keys b \<inter> edge_keys g = edge_keys g" by (auto simp: keys edge_keys_def [of b])
  moreover have "card (edge_keys b) = length (tg_edges b)"
    using distinct_card [OF baseline_names_distinct [OF base]] by (simp add: edge_keys_def)
  moreover have "card (edge_keys g) = length (keeps_at_least t b)"
    using distinct_card [OF baseline_names_distinct [OF at]] by (simp add: edge_keys_def edges)
  moreover have "edge_keys b = {} \<longleftrightarrow> tg_edges b = []" by (simp add: edge_keys_def)
  ultimately show "sp_retention (sensitivity_point_of b t g) =
      ratio_basis_points (int (length (keeps_at_least t b))) (int (length (tg_edges b)))"
    by (simp add: sensitivity_point_of_def retention_basis_points_def ratio_basis_points_def)
  obtain es where es: "all_edges works anchor t es" "tg_eligible g = int (length es)"
    using graph_edges [OF at] by metis
  then have "length es = card (eligible_names works anchor t)"
    using distinct_card [of "map edge_names es"] by (simp add: all_edges_def)
  then show "sp_eligible (sensitivity_point_of b t g) = int (card (eligible_names works anchor t))"
    by (simp add: sensitivity_point_of_def es)
qed

text \<open>The point and the candidate the specification asks for, over the baseline graph only.\<close>

definition honest_point ::
  "tagged_work list \<Rightarrow> pystr option \<Rightarrow> tag_graph \<Rightarrow> int \<Rightarrow> sensitivity_point \<Rightarrow> bool" where
  "honest_point works anchor b t p \<longleftrightarrow>
     sp_minimum p = t \<and> sp_eligible p = int (card (eligible_names works anchor t)) \<and>
     sp_returned p = int (length (keeps_at_least t b)) \<and>
     sp_retention p = ratio_basis_points (sp_returned p) (int (length (tg_edges b)))"

definition honest_candidate ::
  "int list \<Rightarrow> nat \<Rightarrow> tag_edge \<Rightarrow> review_candidate \<Rightarrow> bool" where
  "honest_candidate thresholds i e c \<longleftrightarrow>
     rc_rank c = int i + 1 \<and> rc_left c = te_left e \<and> rc_right c = te_right e \<and>
     rc_cooccurrence c = te_cooccurrence e \<and>
     rc_survives c = filter (\<lambda>t. t \<le> te_cooccurrence e) thresholds \<and>
     rc_review_state c = lit ''pending_human_review''"

lemma survives_filter:
  assumes "length graphs = length ts"
    and "\<And>i. i < length ts \<Longrightarrow> (k \<in> edge_keys (graphs ! i)) = P (ts ! i)"
  shows "map fst (filter (\<lambda>(t, g). k \<in> edge_keys g) (zip ts graphs)) = filter P ts"
  using assms
proof (induction ts arbitrary: graphs)
  case (Cons t ts)
  then obtain g gs where g: "graphs = g # gs" by (cases graphs) auto
  have "map fst (filter (\<lambda>(t, g). k \<in> edge_keys g) (zip ts gs)) = filter P ts"
    using Cons.prems g by (intro Cons.IH) force+
  moreover have "(k \<in> edge_keys g) = P t" using Cons.prems(2) [of 0] g by simp
  ultimately show ?case by (simp add: g)
qed simp

text \<open>
  C31: a sensitivity report rests on one graph.  For every threshold the reported population is the
  number of name pairs that many works share, and the returned and retained edges are the baseline
  edges with at least that co-occurrence, although the graphs are truncated separately; a review
  candidate carries its baseline evidence, is still unreviewed, and survives exactly the
  thresholds its co-occurrence reaches.
\<close>

theorem sensitivity_follows_the_baseline:
  assumes "build_tag_association_sensitivity_report lg works thresholds anchor n = Inr r"
  shows "\<exists>b. build_tag_association_graph lg works anchor 1 200 = Inr b \<and>
    list_all2 (honest_point works anchor b) thresholds (sr_points r) \<and>
    length (sr_candidates r) = min (nat n) (length (tg_edges b)) \<and>
    (\<forall>i < length (sr_candidates r).
       honest_candidate thresholds i (tg_edges b ! i) (sr_candidates r ! i))"
proof -
  obtain graphs where valid: "validate_thresholds thresholds = Inr ()"
    and graphs: "collect (\<lambda>t. build_tag_association_graph lg works anchor t 200) thresholds =
      Inr graphs"
    and points: "sr_points r =
      map (\<lambda>(t, g). sensitivity_point_of (hd graphs) t g) (zip thresholds graphs)"
    and candidates: "sr_candidates r = map (\<lambda>(i, e). candidate thresholds graphs (int i) e)
        (enumerate 1 (take (nat n) (tg_edges (hd graphs))))"
    using assms by (auto simp: build_tag_association_sensitivity_report_def Let_def bindr_Inr
        split: if_splits)
  have map: "map (\<lambda>t. build_tag_association_graph lg works anchor t 200) thresholds = map Inr graphs"
    using graphs by (simp add: collect_Inr)
  then have len: "length graphs = length thresholds" by (metis length_map)
  have at: "build_tag_association_graph lg works anchor (thresholds ! i) 200 = Inr (graphs ! i)"
    if "i < length thresholds" for i
    using arg_cong [OF map, of "\<lambda>xs. xs ! i"] that len by simp
  have "thresholds \<noteq> []" "hd thresholds = 1"
    using valid by (auto simp: validate_thresholds_def split: if_splits)
  then have base: "build_tag_association_graph lg works anchor 1 200 = Inr (hd graphs)"
    using at [of 0] len by (cases thresholds; cases graphs) auto
  have "list_all2 (honest_point works anchor (hd graphs)) thresholds (sr_points r)"
    using point_at_threshold [OF base at]
    by (auto simp: list_all2_conv_all_nth points len honest_point_def sensitivity_point_of_def)
  moreover have "honest_candidate thresholds i (tg_edges (hd graphs) ! i) (sr_candidates r ! i)"
    if i: "i < length (sr_candidates r)" for i
  proof -
    let ?e = "tg_edges (hd graphs) ! i"
    have e: "?e \<in> set (tg_edges (hd graphs))" using i by (simp add: candidates)
    have "edge_names ?e \<in> edge_keys (graphs ! j) \<longleftrightarrow> thresholds ! j \<le> te_cooccurrence ?e"
      if "j < length thresholds" for j
      unfolding point_at_threshold(1) [OF base at [OF that]]
      by (rule key_survives [OF baseline_names_distinct [OF base] e])
    from survives_filter [OF len this] i show ?thesis
      by (simp add: candidates honest_candidate_def candidate_def nth_enumerate_eq)
  qed
  ultimately show ?thesis using base by (auto simp: candidates)
qed

lemma wit_report:
  "\<exists>r. build_tag_association_sensitivity_report (\<lambda>_. 0) wit_works [1, 2, 3] None 5 = Inr r \<and>
     map rc_survives (sr_candidates r) = [[1, 2], [1]] \<and>
     map sp_retention (sr_points r) = [10000, 5000, 0]"
  by (simp add: build_tag_association_sensitivity_report_def validate_thresholds_def
      build_tag_association_graph_def wit_works_def wit_work_def init_scan_def
      scan_work_def ordered_names_def first_seen_def counter_def eligible_pair_def edge_of_def
      pmi_milli_bits_def trunc_int_def ratio_basis_points_def edge_key_def edge_names_def Let_def
      edge_keys_def retention_basis_points_def sensitivity_point_of_def candidate_def)

theorem sensitivity_follows_the_baseline_witness:
  "\<exists>r b. build_tag_association_sensitivity_report (\<lambda>_. 0) wit_works [1, 2, 3] None 5 = Inr r \<and>
     build_tag_association_graph (\<lambda>_. 0) wit_works None 1 200 = Inr b \<and>
     list_all2 (honest_point wit_works None b) [1, 2, 3] (sr_points r)"
  using wit_report
    sensitivity_follows_the_baseline [of "\<lambda>_. 0" wit_works "[1, 2, 3]" None 5] by metis

end
