(* ===== verification/Confirmation.thy ===== *)
theory Confirmation
  imports Utf8
begin

text \<open>
  The operator's confirmation of one planned request,
  \<open>src/pixiv_yuri/governance/first_request_gate.py\<close>: the one-use challenge, which keeps only a
  digest of its phrase, and the gate that asks for it.  \<open>sha\<close> is SHA-256 on bytes.  Times in a
  result are instants, where the code prints them; the argument parser and the report file are
  not modelled.
\<close>

section \<open>The challenge\<close>

record confirmation =
  cf_digest :: "nat list"
  cf_issued :: instant
  cf_expires :: instant
  cf_consumed :: bool

definition confirmation_ttl_ok :: "int \<Rightarrow> bool" where
  "confirmation_ttl_ok ttl \<longleftrightarrow> 5 \<le> ttl \<and> ttl \<le> 120"

definition phrase_digest :: "(nat list \<Rightarrow> nat list) \<Rightarrow> pystr \<Rightarrow> error + nat list" where
  "phrase_digest sha phrase =
     (if utf8_encodable phrase then Inr (sha (utf8_encode phrase)) else Inl ValueError)"

definition bad_line :: "pystr \<Rightarrow> bool" where
  "bad_line s \<longleftrightarrow> s = [] \<or> 13 \<in> set s \<or> 10 \<in> set s"

definition new_confirmation ::
  "(nat list \<Rightarrow> nat list) \<Rightarrow> pystr \<Rightarrow> pydatetime \<Rightarrow> int \<Rightarrow> error + confirmation" where
  "new_confirmation sha phrase issued ttl =
     bindr (aware_utc issued) (\<lambda>t.
       if \<not> confirmation_ttl_ok ttl then Inl ValueError
       else if bad_line phrase then Inl ValueError
       else bindr (phrase_digest sha phrase) (\<lambda>d.
         Inr \<lparr>cf_digest = d, cf_issued = t, cf_expires = t + seconds ttl, cf_consumed = False\<rparr>))"

definition confirm ::
  "(nat list \<Rightarrow> nat list) \<Rightarrow> pystr \<Rightarrow> pydatetime \<Rightarrow> confirmation \<Rightarrow>
     (error + bool) \<times> confirmation" where
  "confirm sha candidate now c =
     (case aware_utc now of
        Inl e \<Rightarrow> (Inl e, c)
      | Inr t \<Rightarrow>
          if cf_consumed c then (Inl ConfirmationGateError, c)
          else let c' = c\<lparr>cf_consumed := True\<rparr>
               in if cf_expires c' \<le> t then (Inr False, c')
                  else if bad_line candidate then (Inr False, c')
                  else (bindr (phrase_digest sha (py_strip candidate)) (\<lambda>d. Inr (cf_digest c' = d)),
                        c'))"

section \<open>The gate\<close>

datatype gate_violation = PlannedRequestsMustEqualOne | TtlOutOfRange | MissingOrInvalid

record confirmation_result =
  cr_passed :: bool
  cr_planned_requests :: int
  cr_issued_at :: "instant option"
  cr_expires_at :: "instant option"
  cr_confirmed_at :: "instant option"
  cr_challenge_consumed :: bool
  cr_external_network_used :: bool
  cr_violations :: "gate_violation list"

definition gate_blocked :: "int \<Rightarrow> gate_violation \<Rightarrow> confirmation_result" where
  "gate_blocked planned v =
     \<lparr>cr_passed = False, cr_planned_requests = planned, cr_issued_at = None, cr_expires_at = None,
      cr_confirmed_at = None, cr_challenge_consumed = False, cr_external_network_used = False,
      cr_violations = [v]\<rparr>"

text \<open>What the reader does: a line, end of input or an interrupt, or another exception.\<close>

datatype reader_reply = Line pystr | NoLine | ReaderFails error

definition gate_prompt :: "pystr \<Rightarrow> pystr" where
  "gate_prompt phrase =
     lit ''Dry-run only. Type this one-use phrase to confirm exactly one planned request: '' @
     phrase @ [10] @ lit ''Confirmation: ''"

definition run_confirmation_gate ::
  "(nat list \<Rightarrow> nat list) \<Rightarrow> int \<Rightarrow> int \<Rightarrow> (pystr \<Rightarrow> reader_reply) \<Rightarrow> pystr \<Rightarrow>
     pydatetime \<Rightarrow> pydatetime \<Rightarrow> error + confirmation_result" where
  "run_confirmation_gate sha planned ttl reader phrase issued confirmed =
     (if planned \<noteq> 1 then Inr (gate_blocked planned PlannedRequestsMustEqualOne)
      else if \<not> confirmation_ttl_ok ttl then Inr (gate_blocked planned TtlOutOfRange)
      else bindr (aware_utc issued) (\<lambda>_.
        bindr (new_confirmation sha phrase issued ttl) (\<lambda>challenge.
          bindr (case reader (gate_prompt phrase) of
                   Line s \<Rightarrow> Inr s | NoLine \<Rightarrow> Inr [] | ReaderFails e \<Rightarrow> Inl e) (\<lambda>candidate.
            bindr (aware_utc confirmed) (\<lambda>t.
              case confirm sha candidate confirmed challenge of
                (r, challenge') \<Rightarrow>
                  bindr r (\<lambda>accepted.
                    Inr \<lparr>cr_passed = accepted, cr_planned_requests = 1,
                         cr_issued_at = Some (cf_issued challenge'),
                         cr_expires_at = Some (cf_expires challenge'),
                         cr_confirmed_at = (if accepted then Some t else None),
                         cr_challenge_consumed = cf_consumed challenge',
                         cr_external_network_used = False,
                         cr_violations = (if accepted then [] else [MissingOrInvalid])\<rparr>))))))"

section \<open>A challenge confirms once\<close>

fun confirmation_step ::
  "(nat list \<Rightarrow> nat list) \<Rightarrow> confirmation \<Rightarrow> pystr \<times> pydatetime \<Rightarrow> confirmation \<times> bool" where
  "confirmation_step sha c (candidate, now) =
     (snd (confirm sha candidate now c), fst (confirm sha candidate now c) = Inr True)"

lemma confirm_consumed:
  "cf_consumed c \<Longrightarrow> snd (confirm sha candidate now c) = c \<and> \<not> is_ok (fst (confirm sha candidate now c))"
  by (auto simp: confirm_def split: sum.splits)

lemma confirm_burns:
  "aware_utc now = Inr t \<Longrightarrow> cf_consumed (snd (confirm sha candidate now c))"
  by (simp add: confirm_def Let_def)

lemma confirm_True:
  "fst (confirm sha candidate now c) = Inr True \<longleftrightarrow>
     (\<exists>t. aware_utc now = Inr t \<and> \<not> cf_consumed c \<and> t < cf_expires c \<and> \<not> bad_line candidate \<and>
        utf8_encodable (py_strip candidate) \<and>
        cf_digest c = sha (utf8_encode (py_strip candidate)))"
  by (auto simp: confirm_def Let_def phrase_digest_def bindr_Inr not_le split: sum.splits)

interpretation confirmation_latch: one_shot "confirmation_step sha" any_event "\<lambda>c. True"
    "\<lambda>c. \<not> cf_consumed c" for sha
proof unfold_locales
  fix c e
  show "snd (confirmation_step sha c e) \<Longrightarrow> \<not> cf_consumed c"
    by (cases e) (auto simp: confirm_True)
  show "snd (confirmation_step sha c e) \<Longrightarrow> \<not> \<not> cf_consumed (fst (confirmation_step sha c e))"
    by (cases e) (auto simp: confirm_True confirm_burns)
  show "\<not> \<not> cf_consumed c \<Longrightarrow> \<not> \<not> cf_consumed (fst (confirmation_step sha c e))"
    by (cases e) (auto simp: confirm_consumed)
qed simp_all

text \<open>
  A challenge is confirmed at most once, whatever is typed and whenever; and any attempt
  with a readable clock burns it, so after one attempt no further one is accepted.
\<close>

lemma challenge_confirms_at_most_once:
  "successes (confirmation_step sha) c es \<le> 1 \<and>
   (aware_utc now = Inr t \<longrightarrow>
      successes (confirmation_step sha) (snd (confirm sha candidate now c)) es = 0)"
  using confirmation_latch.at_most_one_success [where es = es and s = c and sha = sha]
    confirmation_latch.dead_no_success
      [where es = es and s = "snd (confirm sha candidate now c)" and sha = sha]
  by (auto simp: confirm_burns)

text \<open>
  The gate passes exactly when one request is planned, the time limit is between 5 and 120
  seconds, the phrase is a proper line, the reader returned a line that is the phrase up to
  surrounding white space (as far as the digest tells), and it did so before the limit.  Nothing
  passes by an error or a missing line, and a gate that passes has consumed its challenge.
\<close>

theorem gate_passes_exactly_on_confirmation:
  assumes "aware_utc issued = Inr t0" and "aware_utc confirmed = Inr t"
  shows "(\<exists>r. run_confirmation_gate sha planned ttl reader phrase issued confirmed = Inr r \<and>
      cr_passed r \<and> cr_challenge_consumed r \<and> cr_confirmed_at r = Some t) \<longleftrightarrow>
    planned = 1 \<and> 5 \<le> ttl \<and> ttl \<le> 120 \<and> \<not> bad_line phrase \<and> utf8_encodable phrase \<and>
    t < t0 + seconds ttl \<and>
    (\<exists>s. reader (gate_prompt phrase) = Line s \<and> \<not> bad_line s \<and> utf8_encodable (py_strip s) \<and>
       sha (utf8_encode (py_strip s)) = sha (utf8_encode phrase))"
proof -
  define c where "c = \<lparr>cf_digest = sha (utf8_encode phrase), cf_issued = t0,
    cf_expires = t0 + seconds ttl, cf_consumed = False\<rparr>"
  show ?thesis
  proof (cases "planned = 1 \<and> confirmation_ttl_ok ttl \<and> \<not> bad_line phrase \<and> utf8_encodable phrase")
    case True
    then have new: "new_confirmation sha phrase issued ttl = Inr c"
      using assms(1) by (simp add: new_confirmation_def phrase_digest_def c_def)
    have run: "(\<exists>r. run_confirmation_gate sha planned ttl reader phrase issued confirmed = Inr r \<and>
        cr_passed r \<and> cr_challenge_consumed r \<and> cr_confirmed_at r = Some t) \<longleftrightarrow>
        fst (confirm sha s confirmed c) = Inr True"
      if "reader (gate_prompt phrase) = Line s \<or> reader (gate_prompt phrase) = NoLine \<and> s = []" for s
    proof -
      obtain r c' where "confirm sha s confirmed c = (r, c')" by fastforce
      then show ?thesis using True assms new that confirm_burns [OF assms(2), of sha s c]
        by (cases r) (auto simp: run_confirmation_gate_def)
    qed
    show ?thesis
    proof (cases "reader (gate_prompt phrase)")
      case (Line s)
      then show ?thesis using True assms(2) run [of s]
        by (auto simp: confirm_True c_def confirmation_ttl_ok_def)
    next
      case NoLine
      then show ?thesis using run [of "[]"] by (simp add: confirm_True bad_line_def)
    next
      case (ReaderFails e)
      then show ?thesis using True assms new by (simp add: run_confirmation_gate_def)
    qed
  next
    case False
    then have "\<not> (\<exists>r. run_confirmation_gate sha planned ttl reader phrase issued confirmed = Inr r \<and>
        cr_passed r)"
      using assms by (auto simp: run_confirmation_gate_def gate_blocked_def new_confirmation_def
          phrase_digest_def bindr_Inr)
    with False show ?thesis by (auto simp: confirmation_ttl_ok_def)
  qed
qed

theorem gate_passes_exactly_on_confirmation_witness:
  "\<exists>r. run_confirmation_gate (\<lambda>x. x) 1 60 (\<lambda>p. Line [32, 65, 66]) [65, 66] (utc 0) (utc 5) = Inr r \<and>
     cr_passed r \<and> cr_challenge_consumed r \<and> cr_confirmed_at r = Some 5"
  using gate_passes_exactly_on_confirmation
    [of "utc 0" 0 "utc 5" 5 "\<lambda>x. x" 1 60 "\<lambda>p. Line [32, 65, 66]" "[65, 66]"]
  by (simp add: bad_line_def utf8_encodable_def is_surrogate_def py_strip_def is_py_space_def
      duration_defs)

end
