(* ===== verification/OneRequest.thy ===== *)
theory OneRequest
  imports Confirmation SchemaProbe
begin

text \<open>
  One confirmed capability around exactly one provider fetch,
  \<open>src/pixiv_yuri/governance/one_request_executor.py\<close>.  A provider is its identity (the code
  compares it with \<open>is\<close>), its network flag and its \<open>fetch\<close>, which acts on a state \<open>'s\<close>.  An
  exception that \<open>except Exception\<close> does not catch is not modelled.  The three readings of the
  clock are arguments.
\<close>

section \<open>The capability\<close>

record 's acq_provider =
  ap_identity :: nat
  ap_network :: bool
  ap_fetch :: "acquisition_request \<Rightarrow> 's \<Rightarrow> (error + raw_response) \<times> 's"

record capability =
  cp_expires :: instant
  cp_provider :: nat
  cp_request_key :: "entity_type \<times> pystr"
  cp_consumed :: bool

definition new_capability :: "pydatetime \<Rightarrow> nat \<Rightarrow> acquisition_request \<Rightarrow> error + capability" where
  "new_capability expiry provider req =
     bindr (aware_utc expiry) (\<lambda>t.
       Inr \<lparr>cp_expires = t, cp_provider = provider, cp_request_key = request_key req,
            cp_consumed = False\<rparr>)"

definition consume_capability :: "pydatetime \<Rightarrow> capability \<Rightarrow> (error + unit) \<times> capability" where
  "consume_capability now c =
     (if cp_consumed c then (Inl CapabilityUnavailable, c)
      else let c' = c\<lparr>cp_consumed := True\<rparr>
           in (bindr (aware_utc now) (\<lambda>t.
                 if cp_expires c' \<le> t then Inl CapabilityUnavailable else Inr ()), c'))"

definition capability_matches :: "nat \<Rightarrow> acquisition_request \<Rightarrow> capability \<Rightarrow> bool" where
  "capability_matches provider req c \<longleftrightarrow>
     provider = cp_provider c \<and> request_key req = cp_request_key c"

section \<open>The execution\<close>

datatype execution_violation =
    VCapabilityUnavailable | VPlannedRequests | VNetworkNotEnabled | VBindingMismatch
  | VProviderFailed | VIdentityMismatch | VNonSuccess | VConfirmationNotEligible

record execution_result =
  ex_passed :: bool
  ex_planned :: int
  ex_attempted :: int
  ex_completed :: int
  ex_capability_consumed :: bool
  ex_entity :: "entity_type option"
  ex_status_code :: "int option"
  ex_network_used :: bool
  ex_violations :: "execution_violation list"

definition execution_blocked ::
  "int \<Rightarrow> bool \<Rightarrow> execution_violation \<Rightarrow> int \<Rightarrow> execution_result" where
  "execution_blocked planned consumed v attempted =
     \<lparr>ex_passed = False, ex_planned = planned, ex_attempted = attempted, ex_completed = 0,
      ex_capability_consumed = consumed, ex_entity = None, ex_status_code = None,
      ex_network_used = False, ex_violations = [v]\<rparr>"

definition response_matches_request :: "raw_response \<Rightarrow> acquisition_request \<Rightarrow> bool" where
  "response_matches_request resp req \<longleftrightarrow>
     rr_entity resp = ar_entity req \<and> rr_source resp = ar_source req"

definition conclude_fetch ::
  "acquisition_request \<Rightarrow> error + raw_response \<Rightarrow> execution_result" where
  "conclude_fetch req outcome =
     (case outcome of
        Inl e \<Rightarrow> execution_blocked 1 True VProviderFailed 1
      | Inr resp \<Rightarrow>
          if \<not> response_matches_request resp req then execution_blocked 1 True VIdentityMismatch 1
          else if rr_status resp < 200 \<or> 300 \<le> rr_status resp
          then execution_blocked 1 True VNonSuccess 1
          else \<lparr>ex_passed = True, ex_planned = 1, ex_attempted = 1, ex_completed = 1,
                ex_capability_consumed = True, ex_entity = Some (ar_entity req),
                ex_status_code = Some (rr_status resp), ex_network_used = False,
                ex_violations = []\<rparr>)"

definition execute_exactly_one ::
  "'s acq_provider \<Rightarrow> acquisition_request list \<Rightarrow> pydatetime \<Rightarrow> bool \<Rightarrow> capability \<times> 's \<Rightarrow>
     execution_result \<times> capability \<times> 's" where
  "execute_exactly_one provider requests now network_used w =
     (let planned = int (length requests); (r, c) = consume_capability now (fst w); s = snd w
      in if \<not> is_ok r
         then (execution_blocked planned (cp_consumed c) VCapabilityUnavailable 0, c, s)
         else if planned \<noteq> 1 then (execution_blocked planned True VPlannedRequests 0, c, s)
         else if network_used \<or> ap_network provider
         then (execution_blocked planned True VNetworkNotEnabled 0, c, s)
         else let req = requests ! 0
              in if \<not> capability_matches (ap_identity provider) req c
                 then (execution_blocked planned True VBindingMismatch 0, c, s)
                 else let (outcome, s') = ap_fetch provider req s
                      in (conclude_fetch req outcome, c, s'))"

section \<open>Minting the capability\<close>

definition confirm_one_request_capability ::
  "(nat list \<Rightarrow> nat list) \<Rightarrow> nat \<Rightarrow> acquisition_request list \<Rightarrow> int \<Rightarrow> (pystr \<Rightarrow> reader_reply) \<Rightarrow>
     pystr \<Rightarrow> pydatetime \<Rightarrow> pydatetime \<Rightarrow> error + confirmation_result \<times> capability option" where
  "confirm_one_request_capability sha provider requests ttl reader phrase issued confirmed =
     bindr (run_confirmation_gate sha (int (length requests)) ttl reader phrase issued confirmed)
       (\<lambda>confirmation.
          if \<not> cr_passed confirmation \<or> length requests \<noteq> 1 then Inr (confirmation, None)
          else case cr_expires_at confirmation of
            None \<Rightarrow> Inl CapabilityUnavailable
          | Some t \<Rightarrow> bindr (new_capability (utc t) provider (requests ! 0)) (\<lambda>c.
              Inr (confirmation, Some c)))"

definition confirm_and_execute ::
  "(nat list \<Rightarrow> nat list) \<Rightarrow> 's acq_provider \<Rightarrow> acquisition_request list \<Rightarrow> int \<Rightarrow>
     (pystr \<Rightarrow> reader_reply) \<Rightarrow> pystr \<Rightarrow> pydatetime \<Rightarrow> pydatetime \<Rightarrow> pydatetime \<Rightarrow> 's \<Rightarrow>
     (error + execution_result) \<times> 's" where
  "confirm_and_execute sha provider requests ttl reader phrase issued confirmed started s =
     (case confirm_one_request_capability sha (ap_identity provider) requests ttl reader phrase
             issued confirmed of
        Inl e \<Rightarrow> (Inl e, s)
      | Inr (_, None) \<Rightarrow>
          (Inr (execution_blocked (int (length requests)) False VConfirmationNotEligible 0), s)
      | Inr (_, Some c) \<Rightarrow>
          (let (r, _, s') = execute_exactly_one provider requests started False (c, s)
           in (Inr r, s')))"

text \<open>The live variant asks with a live prompt and mints the same capability.\<close>

definition live_prompt :: "pystr \<Rightarrow> pystr" where
  "live_prompt phrase =
     lit ''LIVE REQUEST: this will contact the reviewed source exactly once. '' @
     lit ''Type this one-use phrase to continue: '' @ phrase @ [10] @ lit ''Confirmation: ''"

record live_confirmation =
  lv_passed :: bool
  lv_planned :: int
  lv_expires_at :: "instant option"
  lv_confirmed_at :: "instant option"
  lv_challenge_consumed :: bool
  lv_network_used :: bool
  lv_violations :: "gate_violation list"

definition live_blocked :: "int \<Rightarrow> gate_violation \<Rightarrow> live_confirmation" where
  "live_blocked planned v =
     \<lparr>lv_passed = False, lv_planned = planned, lv_expires_at = None, lv_confirmed_at = None,
      lv_challenge_consumed = False, lv_network_used = False, lv_violations = [v]\<rparr>"

definition confirm_live_one_request_capability ::
  "(nat list \<Rightarrow> nat list) \<Rightarrow> nat \<Rightarrow> acquisition_request list \<Rightarrow> int \<Rightarrow> (pystr \<Rightarrow> reader_reply) \<Rightarrow>
     pystr \<Rightarrow> pydatetime \<Rightarrow> pydatetime \<Rightarrow> error + live_confirmation \<times> capability option" where
  "confirm_live_one_request_capability sha provider requests ttl reader phrase issued confirmed =
     (if length requests \<noteq> 1
      then Inr (live_blocked (int (length requests)) PlannedRequestsMustEqualOne, None)
      else if \<not> confirmation_ttl_ok ttl then Inr (live_blocked 1 TtlOutOfRange, None)
      else bindr (aware_utc issued) (\<lambda>_.
        bindr (new_confirmation sha phrase issued ttl) (\<lambda>challenge.
          bindr (case reader (live_prompt phrase) of
                   Line s \<Rightarrow> Inr s | NoLine \<Rightarrow> Inr [] | ReaderFails e \<Rightarrow> Inl e) (\<lambda>candidate.
            bindr (aware_utc confirmed) (\<lambda>t.
              case confirm sha candidate confirmed challenge of
                (r, challenge') \<Rightarrow>
                  bindr r (\<lambda>accepted.
                    if \<not> accepted
                    then Inr (\<lparr>lv_passed = False, lv_planned = 1,
                               lv_expires_at = Some (cf_expires challenge'), lv_confirmed_at = None,
                               lv_challenge_consumed = cf_consumed challenge',
                               lv_network_used = False, lv_violations = [MissingOrInvalid]\<rparr>, None)
                    else bindr (new_capability (utc (cf_expires challenge')) provider (requests ! 0))
                      (\<lambda>c. Inr (\<lparr>lv_passed = True, lv_planned = 1,
                               lv_expires_at = Some (cf_expires challenge'),
                               lv_confirmed_at = Some t, lv_challenge_consumed = True,
                               lv_network_used = False, lv_violations = []\<rparr>, Some c))))))))"

section \<open>One fetch\<close>

lemma consume_capability_ok:
  "fst (consume_capability now c) = Inr () \<longleftrightarrow>
     \<not> cp_consumed c \<and> (\<exists>t. aware_utc now = Inr t \<and> t < cp_expires c)"
  by (auto simp: consume_capability_def Let_def bindr_Inr not_le)

lemma consume_capability_burns [simp]: "cp_consumed (snd (consume_capability now c))"
  by (simp add: consume_capability_def Let_def)

lemma consume_capability_binding [simp]:
  "capability_matches p req (snd (consume_capability now c)) = capability_matches p req c"
  by (simp add: consume_capability_def capability_matches_def Let_def)

lemma conclude_fetch_attempted [simp]: "ex_attempted (conclude_fetch req out) = 1"
  by (simp add: conclude_fetch_def execution_blocked_def split: sum.splits)

text \<open>When the executor fetches.\<close>

definition admitted ::
  "'s acq_provider \<Rightarrow> acquisition_request list \<Rightarrow> pydatetime \<Rightarrow> bool \<Rightarrow> capability \<Rightarrow> bool" where
  "admitted provider requests now network_used c \<longleftrightarrow>
     \<not> cp_consumed c \<and> (\<exists>t. aware_utc now = Inr t \<and> t < cp_expires c) \<and> \<not> network_used \<and>
     \<not> ap_network provider \<and> (\<exists>req. requests = [req] \<and> capability_matches (ap_identity provider) req c)"

lemma consume_capability_is_ok:
  "is_ok (fst (consume_capability now c)) \<longleftrightarrow>
     \<not> cp_consumed c \<and> (\<exists>t. aware_utc now = Inr t \<and> t < cp_expires c)"
  unfolding consume_capability_ok [symmetric] by (auto simp: is_ok_Inr)

lemma execute_fetches:
  assumes "admitted provider requests now n c"
  shows "execute_exactly_one provider requests now n (c, s) =
    (conclude_fetch (hd requests) (fst (ap_fetch provider (hd requests) s)),
     snd (consume_capability now c), snd (ap_fetch provider (hd requests) s))"
proof -
  obtain req where "requests = [req]" using assms by (auto simp: admitted_def)
  moreover have "is_ok (fst (consume_capability now c))"
    using assms unfolding consume_capability_is_ok admitted_def by blast
  ultimately show ?thesis using assms
    by (simp add: execute_exactly_one_def admitted_def case_prod_beta Let_def)
qed

lemma execute_blocks:
  assumes "\<not> admitted provider requests now n c"
  shows "snd (execute_exactly_one provider requests now n (c, s)) =
      (snd (consume_capability now c), s) \<and>
    ex_attempted (fst (execute_exactly_one provider requests now n (c, s))) = 0 \<and>
    \<not> ex_passed (fst (execute_exactly_one provider requests now n (c, s)))"
proof (cases "is_ok (fst (consume_capability now c)) \<and> length requests = 1")
  case True
  then obtain req where req: "requests = [req]" by (cases requests) auto
  have "n \<or> ap_network provider \<or> \<not> capability_matches (ap_identity provider) req c"
    using assms True unfolding consume_capability_is_ok admitted_def req by blast
  with True req show ?thesis
    by (auto simp: execute_exactly_one_def case_prod_beta Let_def execution_blocked_def)
next
  case False
  then show ?thesis
    by (auto simp: execute_exactly_one_def case_prod_beta Let_def execution_blocked_def)
qed

fun execution_step ::
  "capability \<times> 's \<Rightarrow> 's acq_provider \<times> acquisition_request list \<times> pydatetime \<times> bool \<Rightarrow>
     (capability \<times> 's) \<times> bool" where
  "execution_step w (provider, requests, now, n) =
     (snd (execute_exactly_one provider requests now n w),
      ex_attempted (fst (execute_exactly_one provider requests now n w)) = 1)"

lemma execution_step_fetched:
  "snd (execution_step (c, s) (provider, requests, now, n)) = admitted provider requests now n c"
  by (cases "admitted provider requests now n c") (simp_all add: execute_fetches execute_blocks)

lemma execution_step_burns: "cp_consumed (fst (fst (execution_step w e)))"
proof (cases e)
  case (fields provider requests now n)
  then show ?thesis
    by (cases w; cases "admitted provider requests now n (fst w)")
      (simp_all add: execute_fetches execute_blocks)
qed

interpretation execution_latch: one_shot execution_step any_event "\<lambda>w. True"
    "\<lambda>w. \<not> cp_consumed (fst w)"
proof unfold_locales
  fix w :: "capability \<times> 'a" and e
  show "snd (execution_step w e) \<Longrightarrow> \<not> cp_consumed (fst w)"
    by (cases w; cases e)
      (simp add: execution_step_fetched admitted_def del: execution_step.simps)
qed (simp_all add: execution_step_burns)

text \<open>
  One capability, one fetch.  Over any sequence of executions with the same capability, on any
  providers and requests and at any times, at most one calls a provider; an execution that does not
  leaves the provider's state alone, and the one that does calls the bound provider once with the
  bound request, in time, with no network execution.
\<close>

theorem capability_fetches_at_most_once:
  "successes execution_step (c, s) es \<le> 1 \<and>
   snd (execute_exactly_one provider requests now n (c, s)) =
     (if admitted provider requests now n c
      then (snd (consume_capability now c), snd (ap_fetch provider (hd requests) s))
      else (snd (consume_capability now c), s)) \<and>
   snd (execution_step (c, s) (provider, requests, now, n)) = admitted provider requests now n c"
  using execution_latch.at_most_one_success [where es = es and s = "(c, s)"]
    execution_step_fetched [of c s provider requests now n]
  by (simp add: execute_fetches execute_blocks del: execution_step.simps)

section \<open>Confirm and execute\<close>

lemma gate_result:
  assumes "run_confirmation_gate sha planned ttl reader phrase issued confirmed = Inr r"
    and "cr_passed r"
  shows "planned = 1 \<and> (\<exists>t0. aware_utc issued = Inr t0 \<and> cr_expires_at r = Some (t0 + seconds ttl))"
proof -
  obtain c s where parts: "planned = 1" "new_confirmation sha phrase issued ttl = Inr c"
    "cr_expires_at r = Some (cf_expires (snd (confirm sha s confirmed c)))"
    using assms by (auto simp: run_confirmation_gate_def gate_blocked_def bindr_Inr case_prod_beta
        split: if_splits)
  moreover have "cf_expires (snd (confirm sha s confirmed c)) = cf_expires c"
    by (auto simp: confirm_def Let_def split: sum.splits)
  ultimately show ?thesis by (auto simp: new_confirmation_def bindr_Inr split: if_splits)
qed

lemma mint_capability:
  assumes "confirm_one_request_capability sha p reqs ttl reader phrase issued confirmed = Inr (r, cap)"
  shows "run_confirmation_gate sha (int (length reqs)) ttl reader phrase issued confirmed = Inr r"
    and "cap = None \<longleftrightarrow> \<not> cr_passed r"
    and "cap = Some c \<Longrightarrow> \<exists>req t. reqs = [req] \<and> cr_expires_at r = Some t \<and>
      c = \<lparr>cp_expires = t, cp_provider = p, cp_request_key = request_key req, cp_consumed = False\<rparr>"
proof -
  show gate: "run_confirmation_gate sha (int (length reqs)) ttl reader phrase issued confirmed = Inr r"
    using assms by (auto simp: confirm_one_request_capability_def bindr_Inr
        split: if_splits option.splits)
  have one: "cr_passed r \<Longrightarrow> \<exists>req. reqs = [req]"
    using gate_result [OF gate] by (cases reqs) auto
  show "cap = None \<longleftrightarrow> \<not> cr_passed r"
    using assms gate one by (auto simp: confirm_one_request_capability_def bindr_Inr
        split: if_splits option.splits)
  show "\<exists>req t. reqs = [req] \<and> cr_expires_at r = Some t \<and>
      c = \<lparr>cp_expires = t, cp_provider = p, cp_request_key = request_key req, cp_consumed = False\<rparr>"
    if "cap = Some c"
    using assms gate one that by (auto simp: confirm_one_request_capability_def bindr_Inr
        new_capability_def split: if_splits option.splits)
qed

text \<open>
  An executed result is a confirmed one.  The combined operation passes exactly when the
  operator confirmed one planned request, the capability had not expired when it started, the
  provider is offline, and the one fetch answered for that request with a success status; the
  provider's state changes only by that fetch.
\<close>

theorem confirmed_execution_outcome:
  assumes run: "confirm_and_execute sha provider reqs ttl reader phrase issued confirmed started s =
    (Inr r, s')"
  shows "(ex_passed r \<longleftrightarrow>
      (\<exists>cr req resp t. run_confirmation_gate sha 1 ttl reader phrase issued confirmed = Inr cr \<and>
         cr_passed cr \<and> reqs = [req] \<and> aware_utc started = Inr t \<and>
         t < the (cr_expires_at cr) \<and> \<not> ap_network provider \<and>
         fst (ap_fetch provider req s) = Inr resp \<and> response_matches_request resp req \<and>
         200 \<le> rr_status resp \<and> rr_status resp < 300)) \<and>
    s' = (if ex_attempted r = 1 then snd (ap_fetch provider (hd reqs) s) else s)"
proof -
  obtain cr cap where mint: "confirm_one_request_capability sha (ap_identity provider) reqs ttl reader
      phrase issued confirmed = Inr (cr, cap)"
    using run by (auto simp: confirm_and_execute_def split: sum.splits)
  note gate = mint_capability [OF mint]
  show ?thesis
  proof (cases cap)
    case None
    with run mint have "r = execution_blocked (int (length reqs)) False VConfirmationNotEligible 0"
      "s' = s" by (simp_all add: confirm_and_execute_def)
    moreover have "\<not> cr_passed cr" using gate(2) None by simp
    ultimately show ?thesis using gate(1) by (auto simp: execution_blocked_def)
  next
    case (Some c)
    obtain req t where req: "reqs = [req]" and t: "cr_expires_at cr = Some t"
      and c: "c = \<lparr>cp_expires = t, cp_provider = ap_identity provider,
        cp_request_key = request_key req, cp_consumed = False\<rparr>"
      using gate(3) [OF Some] by blast
    have passed: "cr_passed cr" using gate(2) Some by simp
    have out: "r = fst (execute_exactly_one provider reqs started False (c, s))"
      "s' = snd (snd (execute_exactly_one provider reqs started False (c, s)))"
      using run mint Some by (simp_all add: confirm_and_execute_def case_prod_beta)
    have adm: "admitted provider reqs started False c \<longleftrightarrow>
        (\<exists>t'. aware_utc started = Inr t' \<and> t' < t) \<and> \<not> ap_network provider"
      by (auto simp: admitted_def c req capability_matches_def)
    have gate1: "run_confirmation_gate sha 1 ttl reader phrase issued confirmed = Inr cr"
      using gate(1) by (simp add: req)
    show ?thesis
    proof (cases "admitted provider reqs started False c")
      case True
      have "ex_passed (conclude_fetch req o') \<longleftrightarrow> (\<exists>resp. o' = Inr resp \<and>
          response_matches_request resp req \<and> 200 \<le> rr_status resp \<and> rr_status resp < 300)" for o'
        by (auto simp: conclude_fetch_def execution_blocked_def split: sum.splits)
      with True adm gate1 passed t show ?thesis by (auto simp: out execute_fetches req)
    next
      case False
      with adm gate1 t show ?thesis
        using execute_blocks [OF False, of s] by (auto simp: out req)
    qed
  qed
qed

definition sample_acq_provider :: "nat acq_provider" where
  "sample_acq_provider =
     \<lparr>ap_identity = 7, ap_network = False,
      ap_fetch = (\<lambda>req s. (Inr \<lparr>rr_provider = [], rr_entity = ar_entity req,
        rr_source = ar_source req, rr_status = 200, rr_content_type = [], rr_body = []\<rparr>, s + 1))\<rparr>"

lemma sample_execution:
  "\<exists>r. confirm_and_execute (\<lambda>x. x) sample_acq_provider [\<lparr>ar_entity = EtWork, ar_source = [49]\<rparr>] 60
     (\<lambda>p. Line [65]) [65] (utc 0) (utc 5) (utc 6) 0 = (Inr r, 1) \<and> ex_passed r"
  by (simp add: confirm_and_execute_def confirm_one_request_capability_def
      run_confirmation_gate_def new_confirmation_def confirm_def phrase_digest_def
      confirmation_ttl_ok_def bad_line_def utf8_encodable_def is_surrogate_def py_strip_def
      is_py_space_def duration_defs new_capability_def execute_exactly_one_def
      consume_capability_def capability_matches_def conclude_fetch_def
      response_matches_request_def sample_acq_provider_def Let_def)

theorem confirmed_execution_outcome_witness:
  "\<exists>r resp. confirm_and_execute (\<lambda>x. x) sample_acq_provider [\<lparr>ar_entity = EtWork, ar_source = [49]\<rparr>] 60
     (\<lambda>p. Line [65]) [65] (utc 0) (utc 5) (utc 6) 0 = (Inr r, 1) \<and> ex_passed r \<and>
     fst (ap_fetch sample_acq_provider \<lparr>ar_entity = EtWork, ar_source = [49]\<rparr> 0) = Inr resp"
  using sample_execution confirmed_execution_outcome [of "\<lambda>x. x" sample_acq_provider
    "[\<lparr>ar_entity = EtWork, ar_source = [49]\<rparr>]" 60 "\<lambda>p. Line [65]" "[65]" "utc 0" "utc 5" "utc 6" 0 _ 1]
  by blast

end
