(* ===== verification/LaunchReview.thy ===== *)
theory LaunchReview
  imports Store G0
begin

text \<open>
  The read-only launch review, \<open>src/pixiv_yuri/governance/launch_review.py\<close>, over the acquisition
  tables.  The value of \<open>SELECT 1\<close> and the migration row are arguments, \<open>fpr\<close> is the approval
  fingerprint.  A time is printed into the result; the model keeps what \<open>fromisoformat\<close> reads
  from the text (\<open>None\<close> when it reads nothing).  The command line is not modelled.
\<close>

section \<open>The review\<close>

datatype launch_violation =
    LvApprovalInactive | LvPlannedCap | LvDatabaseNotReady | LvMigration | LvActivePermits
  | LvSlotSpent | LvStoppedRuns

record launch_review =
  lr_passed :: bool
  lr_checked_at :: "pydatetime option"
  lr_fingerprint :: pystr
  lr_expires_at :: "pydatetime option"
  lr_migration :: pystr
  lr_ready :: bool
  lr_planned_cap :: int
  lr_approved_cap :: int
  lr_active_permits :: int
  lr_slots :: int
  lr_stopped_runs :: int
  lr_network_used :: bool
  lr_violations :: "launch_violation list"

definition expected_migration_version :: pystr where
  "expected_migration_version = lit ''20260824_0014''"

definition active_permit_count :: "pystr \<Rightarrow> db \<Rightarrow> int" where
  "active_permit_count fp d =
     count_rows (\<lambda>p. p_fingerprint p = fp \<and> p_status p = PermitAuthorized) (permits d)"

definition first_slot_count :: "pystr \<Rightarrow> db \<Rightarrow> int" where
  "first_slot_count fp d = count_rows (\<lambda>s. s_fingerprint s = fp) (slots d)"

definition stopped_run_count :: "pystr \<Rightarrow> db \<Rightarrow> int" where
  "stopped_run_count fp d =
     count_rows (\<lambda>r. r_fingerprint r = fp \<and> r_stop_reason r \<noteq> None) (run_budgets d)"

definition migration_text :: "pystr option \<Rightarrow> pystr" where
  "migration_text m = (case m of None \<Rightarrow> lit ''missing'' | Some v \<Rightarrow> if v = [] then lit ''missing'' else v)"

definition flag :: "bool \<Rightarrow> 'a \<Rightarrow> 'a list" where
  "flag b v = (if b then [v] else [])"

definition review_violations ::
  "(g0_approval \<Rightarrow> pystr) \<Rightarrow> g0_approval \<Rightarrow> int \<Rightarrow> instant \<Rightarrow> bool \<Rightarrow> pystr option \<Rightarrow> db \<Rightarrow>
     launch_violation list" where
  "review_violations fpr a cap t ready migration d =
     flag (\<not> approval_active a t) LvApprovalInactive @
     flag (per_run_request_cap (traffic_limits a) < cap) LvPlannedCap @
     flag (\<not> ready) LvDatabaseNotReady @
     flag (migration_text migration \<noteq> expected_migration_version) LvMigration @
     flag (active_permit_count (fpr a) d \<noteq> 0) LvActivePermits @
     flag (first_slot_count (fpr a) d \<noteq> 0) LvSlotSpent @
     flag (stopped_run_count (fpr a) d \<noteq> 0) LvStoppedRuns"

definition review_launch ::
  "(g0_approval \<Rightarrow> pystr) \<Rightarrow> g0_approval \<Rightarrow> int \<Rightarrow> pydatetime \<Rightarrow> bool \<Rightarrow> bool \<Rightarrow> pystr option \<Rightarrow>
     db \<Rightarrow> error + launch_review" where
  "review_launch fpr a cap now allow_sqlite ready migration d =
     bindr (aware_utc now) (\<lambda>t.
       if cap < 1 then Inl ValueError
       else if backend d \<noteq> PostgresDb \<and> \<not> allow_sqlite then Inl ValueError
       else let vs = review_violations fpr a cap t ready migration d
            in Inr \<lparr>lr_passed = (vs = []), lr_checked_at = Some (utc t), lr_fingerprint = fpr a,
                    lr_expires_at = Some (expires_at a), lr_migration = migration_text migration,
                    lr_ready = ready, lr_planned_cap = cap,
                    lr_approved_cap = per_run_request_cap (traffic_limits a),
                    lr_active_permits = active_permit_count (fpr a) d,
                    lr_slots = first_slot_count (fpr a) d,
                    lr_stopped_runs = stopped_run_count (fpr a) d, lr_network_used = False,
                    lr_violations = vs\<rparr>)"

section \<open>What a passed review says\<close>

lemma flag_Nil [simp]: "flag b v = [] \<longleftrightarrow> \<not> b"
  by (simp add: flag_def)

lemma count_rows_zero: "count_rows P rows = 0 \<longleftrightarrow> (\<forall>r \<in> set rows. \<not> P r)"
  by (induction rows) (auto simp: add_nonneg_eq_0_iff)

text \<open>
  A launch review passes exactly when nothing speaks against the launch.  On an admissible
  database and clock the review of a positive cap returns, and it is passed precisely when the
  approval is active, the cap is within it, the database answers and is migrated, and of this
  approval no permit is open, no first-request slot was ever claimed and no run was stopped.
\<close>

lemma launch_review_passes_exactly:
  assumes "aware_utc now = Inr t" and "1 \<le> cap" and "backend d = PostgresDb \<or> allow_sqlite"
  shows "\<exists>r. review_launch fpr a cap now allow_sqlite ready migration d = Inr r \<and>
    (lr_passed r \<longleftrightarrow>
       approval_active a t \<and> cap \<le> per_run_request_cap (traffic_limits a) \<and> ready \<and>
       migration = Some expected_migration_version \<and>
       (\<forall>p \<in> set (permits d). p_fingerprint p = fpr a \<longrightarrow> p_status p \<noteq> PermitAuthorized) \<and>
       (\<forall>s \<in> set (slots d). s_fingerprint s \<noteq> fpr a) \<and>
       (\<forall>b \<in> set (run_budgets d). r_fingerprint b = fpr a \<longrightarrow> r_stop_reason b = None))"
proof -
  have "migration_text migration = expected_migration_version \<longleftrightarrow>
      migration = Some expected_migration_version"
    by (auto simp: migration_text_def expected_migration_version_def lit_def
        split: option.splits if_splits)
  with assms show ?thesis
    by (auto simp: review_launch_def review_violations_def Let_def active_permit_count_def
        first_slot_count_def stopped_run_count_def count_rows_zero not_less)
qed

end
