(* ===== verification/Enablement.thy ===== *)
theory Enablement
  imports G0
begin

text \<open>
  The explicit enablement of exactly one real request,
  \<open>src/pixiv_yuri/governance/real_request_enablement.py\<close>: the configuration model and its
  validator, and the one-way latch.  Each method runs under the object's lock and is one atomic
  step.  The literal fields \<open>planned_requests\<close> and \<open>acknowledgement\<close> admit one value; the
  latter may be absent.  Arguments that the code checks with \<open>isinstance\<close> are untyped values.
\<close>

section \<open>The configuration\<close>

datatype enablement_mode = ModeDisabled | FirstRealRequest

record enablement_config =
  ec_mode :: enablement_mode
  ec_fingerprint :: "pystr option"
  ec_run_id :: "int option"
  ec_request_key_hash :: "pystr option"
  ec_enabled_at :: "pydatetime option"
  ec_expires_at :: "pydatetime option"
  ec_acknowledged :: bool

definition max_enablement_ttl :: int where
  "max_enablement_ttl = seconds 120"

definition sha256_text :: "pystr \<Rightarrow> bool" where
  "sha256_text v \<longleftrightarrow> length v = 64 \<and> bytes_fromhex v \<noteq> None \<and> v = ascii_lower v"

definition is_lower_sha256 :: "pystr \<Rightarrow> bool" where
  "is_lower_sha256 v \<longleftrightarrow>
     length v = 64 \<and> is_ascii v \<and> v = ascii_lower v \<and> bytes_fromhex v \<noteq> None"

text \<open>\<open>validate_fail_closed_configuration\<close>.\<close>

definition enablement_config_valid :: "enablement_config \<Rightarrow> bool" where
  "enablement_config_valid c =
     (case ec_mode c of
        ModeDisabled \<Rightarrow>
          ec_fingerprint c = None \<and> ec_run_id c = None \<and> ec_request_key_hash c = None \<and>
          ec_enabled_at c = None \<and> ec_expires_at c = None \<and> \<not> ec_acknowledged c
      | FirstRealRequest \<Rightarrow>
          (case (ec_fingerprint c, ec_run_id c, ec_request_key_hash c, ec_enabled_at c,
                 ec_expires_at c, ec_acknowledged c) of
             (Some fp, Some run, Some key, Some enabled, Some expires, True) \<Rightarrow>
               sha256_text fp \<and> sha256_text key \<and> 1 \<le> run \<and>
               (case (aware_utc enabled, aware_utc expires) of
                  (Inr e, Inr x) \<Rightarrow> e < x \<and> x \<le> e + max_enablement_ttl
                | _ \<Rightarrow> False)
           | _ \<Rightarrow> False))"

definition disabled_config :: enablement_config where
  "disabled_config =
     \<lparr>ec_mode = ModeDisabled, ec_fingerprint = None, ec_run_id = None, ec_request_key_hash = None,
      ec_enabled_at = None, ec_expires_at = None, ec_acknowledged = False\<rparr>"

section \<open>The latch\<close>

datatype enablement_state =
  EnDisabled | EnArmed | EnConsumed | EnRejected | EnExpired | EnCancelled

record enablement =
  en_config :: enablement_config
  en_state :: enablement_state

record enablement_receipt =
  er_consumed_at :: instant

record enablement_snapshot =
  es_state :: enablement_state
  es_expires_at :: "pydatetime option"

definition new_enablement :: "enablement_config option \<Rightarrow> enablement" where
  "new_enablement config =
     (let c = (case config of None \<Rightarrow> disabled_config | Some c \<Rightarrow> c)
      in \<lparr>en_config = c,
          en_state = (if ec_mode c = ModeDisabled then EnDisabled else EnArmed)\<rparr>)"

datatype pyvalue = PyStr pystr | PyInt int | PyBool bool | PyOther

definition expire_if_needed :: "instant \<Rightarrow> enablement \<Rightarrow> error + enablement" where
  "expire_if_needed checked_at s =
     (case ec_expires_at (en_config s) of
        None \<Rightarrow> Inr s
      | Some x \<Rightarrow>
          if en_state s \<noteq> EnArmed then Inr s
          else bindr (aware_utc x) (\<lambda>expires.
            Inr (if expires \<le> checked_at then s\<lparr>en_state := EnExpired\<rparr> else s)))"

definition binding_matches ::
  "enablement_config \<Rightarrow> pyvalue \<Rightarrow> pyvalue \<Rightarrow> pyvalue \<Rightarrow> error + bool" where
  "binding_matches c fp run key =
     (case (ec_fingerprint c, ec_request_key_hash c, ec_run_id c) of
        (Some expected_fp, Some expected_key, Some expected_run) \<Rightarrow>
          Inr (case (fp, run, key) of
                 (PyStr f, PyInt r, PyStr k) \<Rightarrow>
                   is_lower_sha256 f \<and> is_lower_sha256 k \<and>
                   expected_fp = f \<and> expected_run = r \<and> expected_key = k
               | _ \<Rightarrow> False)
      | _ \<Rightarrow> Inl AssertionError)"

type_synonym 'a enablement_result = "(error + 'a) \<times> enablement"

definition snapshot_enablement :: "pydatetime \<Rightarrow> enablement \<Rightarrow> enablement_snapshot enablement_result"
  where
  "snapshot_enablement now s =
     (case bindr (aware_utc now) (\<lambda>t. expire_if_needed t s) of
        Inl e \<Rightarrow> (Inl e, s)
      | Inr s' \<Rightarrow>
          (Inr \<lparr>es_state = en_state s', es_expires_at = ec_expires_at (en_config s')\<rparr>, s'))"

definition consume_armed ::
  "pyvalue \<Rightarrow> pyvalue \<Rightarrow> pyvalue \<Rightarrow> instant \<Rightarrow> enablement \<Rightarrow> enablement_receipt enablement_result"
  where
  "consume_armed fp run key checked_at s =
     (case ec_enabled_at (en_config s) of
        None \<Rightarrow> (Inl AssertionError, s)
      | Some e \<Rightarrow>
          (case aware_utc e of
             Inl err \<Rightarrow> (Inl err, s)
           | Inr enabled \<Rightarrow>
               if checked_at < enabled
               then (Inl (RealRequestDenied NotActiveYet), s\<lparr>en_state := EnRejected\<rparr>)
               else (case binding_matches (en_config s) fp run key of
                       Inl err \<Rightarrow> (Inl err, s)
                     | Inr False \<Rightarrow>
                         (Inl (RealRequestDenied BindingMismatch), s\<lparr>en_state := EnRejected\<rparr>)
                     | Inr True \<Rightarrow>
                         (Inr \<lparr>er_consumed_at = checked_at\<rparr>, s\<lparr>en_state := EnConsumed\<rparr>))))"

definition consume_enablement ::
  "pyvalue \<Rightarrow> pyvalue \<Rightarrow> pyvalue \<Rightarrow> pydatetime \<Rightarrow> enablement \<Rightarrow>
     enablement_receipt enablement_result" where
  "consume_enablement fp run key now s =
     (case aware_utc now of
        Inl e \<Rightarrow> (Inl e, s)
      | Inr checked_at \<Rightarrow>
          (case expire_if_needed checked_at s of
             Inl e \<Rightarrow> (Inl e, s)
           | Inr s' \<Rightarrow>
               if en_state s' = EnDisabled then (Inl (RealRequestDenied NotArmed), s')
               else if en_state s' = EnExpired then (Inl (RealRequestDenied DeniedExpired), s')
               else if en_state s' \<noteq> EnArmed then (Inl (RealRequestDenied AlreadyTerminal), s')
               else consume_armed fp run key checked_at s'))"

definition cancel_enablement :: "pydatetime \<Rightarrow> enablement \<Rightarrow> unit enablement_result" where
  "cancel_enablement now s =
     (case bindr (aware_utc now) (\<lambda>t. expire_if_needed t s) of
        Inl e \<Rightarrow> (Inl e, s)
      | Inr s' \<Rightarrow>
          if en_state s' \<noteq> EnArmed
          then (Inl (RealRequestDenied
                  (if en_state s' = EnExpired then DeniedExpired
                   else if en_state s' = EnDisabled then NotArmed else AlreadyTerminal)), s')
          else (Inr (), s'\<lparr>en_state := EnCancelled\<rparr>))"

section \<open>One-way states\<close>

lemma expire_if_needed_Inr:
  "expire_if_needed t s = Inr s' \<Longrightarrow>
     en_config s' = en_config s \<and> (en_state s \<noteq> EnArmed \<longrightarrow> s' = s) \<and>
     (en_state s = EnArmed \<longrightarrow> s' = s \<or> s' = s\<lparr>en_state := EnExpired\<rparr>)"
  by (auto simp: expire_if_needed_def bindr_Inr split: option.splits if_splits)

lemma consume_armed_shape:
  "(\<exists>e. consume_armed fp run key t s = (Inl e, s)) \<or>
   (\<exists>e. consume_armed fp run key t s = (Inl e, s\<lparr>en_state := EnRejected\<rparr>)) \<or>
   (\<exists>r. consume_armed fp run key t s = (Inr r, s\<lparr>en_state := EnConsumed\<rparr>))"
  by (simp add: consume_armed_def split: option.splits sum.splits bool.splits)

datatype enablement_event =
    EnSnapshot pydatetime
  | EnConsume pyvalue pyvalue pyvalue pydatetime
  | EnCancel pydatetime

fun enablement_step :: "enablement \<Rightarrow> enablement_event \<Rightarrow> enablement \<times> bool" where
  "enablement_step s (EnSnapshot now) = (snd (snapshot_enablement now s), False)"
| "enablement_step s (EnConsume fp run key now) =
     (snd (consume_enablement fp run key now s), is_ok (fst (consume_enablement fp run key now s)))"
| "enablement_step s (EnCancel now) = (snd (cancel_enablement now s), False)"

lemma unarmed_stays:
  "en_state s \<noteq> EnArmed \<Longrightarrow> fst (enablement_step s e) = s \<and> \<not> snd (enablement_step s e)"
  by (cases e)
    (auto simp: snapshot_enablement_def consume_enablement_def cancel_enablement_def bindr_Inr
      dest!: expire_if_needed_Inr split: sum.splits)

lemma consume_success:
  assumes "is_ok (fst (consume_enablement fp run key now s))"
  shows "en_state s = EnArmed \<and> en_state (snd (consume_enablement fp run key now s)) = EnConsumed"
proof -
  obtain t s' where t: "aware_utc now = Inr t" "expire_if_needed t s = Inr s'"
      "en_state s' = EnArmed" "is_ok (fst (consume_armed fp run key t s'))"
    using assms by (auto simp: consume_enablement_def split: sum.splits if_splits)
  with expire_if_needed_Inr [OF t(2)] have "s' = s" by (cases "en_state s = EnArmed") auto
  with t show ?thesis
    using consume_armed_shape [of fp run key t s] by (auto simp: consume_enablement_def)
qed

interpretation enablement_latch: one_shot enablement_step any_event "\<lambda>s. True"
    "\<lambda>s. en_state s = EnArmed"
proof unfold_locales
  fix s e
  show "snd (enablement_step s e) \<Longrightarrow> en_state s = EnArmed" using unarmed_stays by blast
  show "snd (enablement_step s e) \<Longrightarrow> \<not> en_state (fst (enablement_step s e)) = EnArmed"
    by (cases e) (auto dest: consume_success)
  show "\<not> en_state s = EnArmed \<Longrightarrow> \<not> en_state (fst (enablement_step s e)) = EnArmed"
    using unarmed_stays by auto
qed simp_all

section \<open>What the latch promises\<close>

lemma new_enablement_armed:
  "ec_mode c = FirstRealRequest \<Longrightarrow> new_enablement (Some c) = \<lparr>en_config = c, en_state = EnArmed\<rparr>"
  by (simp add: new_enablement_def)

lemma both_Inr:
  "(case r of Inl a \<Rightarrow> False | Inr e \<Rightarrow> (case r' of Inl b \<Rightarrow> False | Inr x \<Rightarrow> P e x)) \<longleftrightarrow>
     (\<exists>e x. r = Inr e \<and> r' = Inr x \<and> P e x)"
  by (cases r; cases r') simp_all

lemma valid_config_armed:
  assumes "enablement_config_valid c" and "ec_mode c = FirstRealRequest"
  obtains fp run key enabled expires e x where
    "ec_fingerprint c = Some fp" "ec_run_id c = Some run" "ec_request_key_hash c = Some key"
    "ec_enabled_at c = Some enabled" "ec_expires_at c = Some expires"
    "sha256_text fp" "sha256_text key" "aware_utc enabled = Inr e" "aware_utc expires = Inr x"
    "e < x" "x \<le> e + max_enablement_ttl"
  using assms
  by (auto simp: enablement_config_valid_def both_Inr split: option.splits bool.splits)

lemma sha256_text_lower: "sha256_text v \<Longrightarrow> is_lower_sha256 v"
  by (auto simp: sha256_text_def is_lower_sha256_def dest: bytes_fromhex_ascii)

text \<open>
  In any sequence of snapshots, consumptions and cancellations, on an object built from any
  configuration, at most one consumption succeeds, and none once the object has left the armed
  state.
\<close>

theorem enablement_consumed_at_most_once:
  "successes enablement_step (new_enablement config) es \<le> 1 \<and>
   (en_state s = EnArmed \<or> successes enablement_step s es = 0)"
  using enablement_latch.at_most_one_success [of es "new_enablement config"]
    enablement_latch.dead_no_success [of es s]
  by (cases "en_state s = EnArmed") simp_all

lemma first_consumption:
  assumes "enablement_config_valid c" and "ec_mode c = FirstRealRequest"
    and "aware_utc now = Inr t"
  shows "(is_ok (fst (consume_enablement fp run key now (new_enablement (Some c)))) \<longleftrightarrow>
      (\<exists>f r k e x. fp = PyStr f \<and> run = PyInt r \<and> key = PyStr k \<and> ec_fingerprint c = Some f \<and>
         ec_run_id c = Some r \<and> ec_request_key_hash c = Some k \<and>
         map_option aware_utc (ec_enabled_at c) = Some (Inr e) \<and>
         map_option aware_utc (ec_expires_at c) = Some (Inr x) \<and>
         e \<le> t \<and> t < x \<and> x \<le> e + seconds 120)) \<and>
    en_state (snd (consume_enablement fp run key now (new_enablement (Some c)))) \<noteq> EnArmed"
proof -
  obtain f r k enabled expires e x where c:
      "ec_fingerprint c = Some f" "ec_run_id c = Some r" "ec_request_key_hash c = Some k"
      "ec_enabled_at c = Some enabled" "ec_expires_at c = Some expires"
      "sha256_text f" "sha256_text k" "aware_utc enabled = Inr e" "aware_utc expires = Inr x"
      "e < x" "x \<le> e + max_enablement_ttl"
    using assms(1,2) by (rule valid_config_armed)
  then have low: "is_lower_sha256 f" "is_lower_sha256 k" by (simp_all add: sha256_text_lower)
  let ?s = "\<lparr>en_config = c, en_state = EnArmed\<rparr>"
  show ?thesis
  proof (cases "x \<le> t")
    case True
    then have "expire_if_needed t ?s = Inr (?s\<lparr>en_state := EnExpired\<rparr>)"
      using c by (simp add: expire_if_needed_def)
    with True show ?thesis using c assms(3)
      by (simp add: new_enablement_armed [OF assms(2)] consume_enablement_def)
  next
    case False
    then have "expire_if_needed t ?s = Inr ?s" using c by (simp add: expire_if_needed_def)
    then have e: "consume_enablement fp run key now (new_enablement (Some c)) =
        consume_armed fp run key t ?s"
      using assms(3) by (simp add: new_enablement_armed [OF assms(2)] consume_enablement_def)
    show ?thesis
      using c low False unfolding e
      by (cases fp; cases run; cases key)
        (auto simp: consume_armed_def binding_matches_def max_enablement_ttl_def
          split: bool.splits)
  qed
qed

text \<open>
  C15: Exactly the configured request is enabled. The first consumption of an armed object
  succeeds precisely when it names the configured fingerprint, run and request hash inside the
  configured window, whatever types its arguments have; the window is at most 120 seconds long;
  and in every other case the attempt burns the object for good.
\<close>

theorem enablement_grants_exactly_its_binding:
  assumes "enablement_config_valid c" and "ec_mode c = FirstRealRequest"
    and "aware_utc now = Inr t"
  shows "(is_ok (fst (consume_enablement fp run key now (new_enablement (Some c)))) \<longleftrightarrow>
      (\<exists>f r k e x. fp = PyStr f \<and> run = PyInt r \<and> key = PyStr k \<and> ec_fingerprint c = Some f \<and>
         ec_run_id c = Some r \<and> ec_request_key_hash c = Some k \<and>
         map_option aware_utc (ec_enabled_at c) = Some (Inr e) \<and>
         map_option aware_utc (ec_expires_at c) = Some (Inr x) \<and>
         e \<le> t \<and> t < x \<and> x \<le> e + seconds 120)) \<and>
    en_state (snd (consume_enablement fp run key now (new_enablement (Some c)))) \<noteq> EnArmed"
  using assms by (rule first_consumption)

definition sample_enablement_config :: enablement_config where
  "sample_enablement_config =
     \<lparr>ec_mode = FirstRealRequest, ec_fingerprint = Some (replicate 64 97), ec_run_id = Some 1,
      ec_request_key_hash = Some (replicate 64 98), ec_enabled_at = Some (utc 0),
      ec_expires_at = Some (utc (seconds 60)), ec_acknowledged = True\<rparr>"

lemma sample_enablement_valid: "enablement_config_valid sample_enablement_config"
proof -
  have "sha256_text (replicate 64 97)" "sha256_text (replicate 64 98)" by code_simp+
  then show ?thesis
    by (simp add: enablement_config_valid_def sample_enablement_config_def max_enablement_ttl_def
        duration_defs)
qed

theorem enablement_grants_exactly_its_binding_witness:
  "is_ok (fst (consume_enablement (PyStr (replicate 64 97)) (PyInt 1) (PyStr (replicate 64 98))
     (utc 1) (new_enablement (Some sample_enablement_config)))) \<and>
   \<not> is_ok (fst (consume_enablement (PyStr (replicate 64 97)) (PyBool True)
     (PyStr (replicate 64 98)) (utc 1) (new_enablement (Some sample_enablement_config))))"
  using enablement_grants_exactly_its_binding [OF sample_enablement_valid, of "utc 1" 1
      "PyStr (replicate 64 97)" "PyInt 1" "PyStr (replicate 64 98)"]
    enablement_grants_exactly_its_binding [OF sample_enablement_valid, of "utc 1" 1
      "PyStr (replicate 64 97)" "PyBool True" "PyStr (replicate 64 98)"]
  by (simp add: sample_enablement_config_def duration_defs)

text \<open>
  \<open>bytes.fromhex\<close> skips white space, so a text of 64 spaces passes for a SHA-256 value.
\<close>

lemma blank_text_passes_for_sha256:
  "sha256_text (replicate 64 32) \<and> is_lower_sha256 (replicate 64 32)"
  by code_simp

end
