(* ===== verification/Urls.thy ===== *)
theory Urls
  imports Prelude
begin

text \<open>
  URLs as the transports read them: \<open>urllib.parse.urlsplit\<close> with the \<open>hostname\<close> and \<open>port\<close> of its
  result, and the DNS host rule of \<open>src/pixiv_yuri/acquisition/transport_contract.py\<close>.  The
  texts are ASCII where \<open>urlsplit\<close> is applied to them.
\<close>

section \<open>Splitting a URL\<close>

definition is_digit :: "nat \<Rightarrow> bool" where
  "is_digit c \<longleftrightarrow> 48 \<le> c \<and> c \<le> 57"

definition is_lower :: "nat \<Rightarrow> bool" where
  "is_lower c \<longleftrightarrow> 97 \<le> c \<and> c \<le> 122"

definition is_alpha :: "nat \<Rightarrow> bool" where
  "is_alpha c \<longleftrightarrow> is_lower (ascii_lower_char c)"

lemmas char_class_defs = is_digit_def is_lower_def is_alpha_def ascii_lower_char_def

text \<open>\<open>str.partition\<close> by one character: the text before its first occurrence, and after it.\<close>

definition before_char :: "nat \<Rightarrow> pystr \<Rightarrow> pystr" where
  "before_char c s = takeWhile (\<lambda>x. x \<noteq> c) s"

definition after_char :: "nat \<Rightarrow> pystr \<Rightarrow> pystr" where
  "after_char c s = tl (dropWhile (\<lambda>x. x \<noteq> c) s)"

definition after_last :: "nat \<Rightarrow> pystr \<Rightarrow> pystr" where
  "after_last c s = rev (takeWhile (\<lambda>x. x \<noteq> c) (rev s))"

record split_url =
  su_scheme :: pystr
  su_netloc :: pystr
  su_path :: pystr
  su_query :: pystr
  su_fragment :: pystr

definition is_scheme_char :: "nat \<Rightarrow> bool" where
  "is_scheme_char c \<longleftrightarrow> is_alpha c \<or> is_digit c \<or> c = 43 \<or> c = 45 \<or> c = 46"

definition split_scheme :: "pystr \<Rightarrow> pystr \<times> pystr" where
  "split_scheme s =
     (let h = before_char 58 s
      in if 58 \<in> set s \<and> h \<noteq> [] \<and> is_alpha (hd h) \<and> list_all is_scheme_char h
         then (ascii_lower h, after_char 58 s) else ([], s))"

definition netloc_ends :: "nat \<Rightarrow> bool" where
  "netloc_ends c \<longleftrightarrow> c = 47 \<or> c = 63 \<or> c = 35"

definition split_netloc :: "pystr \<Rightarrow> pystr \<times> pystr" where
  "split_netloc s =
     (if take 2 s = [47, 47]
      then (takeWhile (\<lambda>c. \<not> netloc_ends c) (drop 2 s), dropWhile (\<lambda>c. \<not> netloc_ends c) (drop 2 s))
      else ([], s))"

text \<open>
  The check of a bracketed host.  It admits \<open>v\<close>, hexadecimal digits, a dot and more characters;
  an IPv6 literal, which it also admits, is refused here already, because every user of this
  model refuses a host with a colon in it.
\<close>

definition bracket_future :: "pystr \<Rightarrow> bool" where
  "bracket_future h \<longleftrightarrow>
     (let ds = takeWhile (\<lambda>c. hex_value c \<noteq> None) (tl h); r = drop (length ds) (tl h)
      in h \<noteq> [] \<and> hd h = 118 \<and> ds \<noteq> [] \<and> 2 \<le> length r \<and> hd r = 46)"

definition bracket_ok :: "pystr \<Rightarrow> bool" where
  "bracket_ok netloc \<longleftrightarrow>
     (if (91 \<in> set netloc) \<noteq> (93 \<in> set netloc) then False
      else if 91 \<notin> set netloc then True
      else let info = after_last 64 netloc
           in if 91 \<in> set info
              then before_char 91 info = [] \<and>
                   (let r = after_char 91 info; p = after_char 93 r
                    in (p = [] \<or> hd p = 58) \<and> bracket_future (before_char 93 r))
              else bracket_future (before_char 58 info))"

definition urlsplit :: "pystr \<Rightarrow> error + split_url" where
  "urlsplit url =
     (let s = filter (\<lambda>c. c \<noteq> 9 \<and> c \<noteq> 10 \<and> c \<noteq> 13) (dropWhile (\<lambda>c. c \<le> 32) url);
          (scheme, r1) = split_scheme s;
          (netloc, r2) = split_netloc r1
      in if \<not> bracket_ok netloc then Inl ValueError
         else let r3 = before_char 35 r2
              in Inr \<lparr>su_scheme = scheme, su_netloc = netloc, su_path = before_char 63 r3,
                      su_query = after_char 63 r3, su_fragment = after_char 35 r2\<rparr>)"

definition url_host_info :: "split_url \<Rightarrow> pystr \<times> pystr" where
  "url_host_info u =
     (let info = after_last 64 (su_netloc u)
      in if 91 \<in> set info
         then let r = after_char 91 info in (before_char 93 r, after_char 58 (after_char 93 r))
         else (before_char 58 info, after_char 58 info))"

text \<open>\<open>hostname or ""\<close>: a zone after a percent sign keeps its case.\<close>

definition url_hostname :: "split_url \<Rightarrow> pystr" where
  "url_hostname u =
     (let h = fst (url_host_info u) in ascii_lower (takeWhile (\<lambda>c. c \<noteq> 37) h) @ dropWhile (\<lambda>c. c \<noteq> 37) h)"

definition digits_value :: "pystr \<Rightarrow> int" where
  "digits_value s = foldl (\<lambda>n c. 10 * n + (int c - 48)) 0 s"

definition url_port :: "split_url \<Rightarrow> error + int option" where
  "url_port u =
     (let p = snd (url_host_info u)
      in if p = [] then Inr None
         else if \<not> list_all is_digit p \<or> 65535 < digits_value p then Inl ValueError
         else Inr (Some (digits_value p)))"

definition has_userinfo :: "split_url \<Rightarrow> bool" where
  "has_userinfo u \<longleftrightarrow> 64 \<in> set (su_netloc u)"

section \<open>Exact DNS hosts\<close>

fun split_on :: "nat \<Rightarrow> pystr \<Rightarrow> pystr list" where
  "split_on c [] = [[]]"
| "split_on c (x # s) =
     (if x = c then [] # split_on c s
      else case split_on c s of p # ps \<Rightarrow> (x # p) # ps | [] \<Rightarrow> [[x]])"

text \<open>What \<open>ipaddress\<close> reads as an IPv4 address.\<close>

definition ipv4_octet :: "pystr \<Rightarrow> bool" where
  "ipv4_octet s \<longleftrightarrow>
     s \<noteq> [] \<and> list_all is_digit s \<and> length s \<le> 3 \<and> (s = [48] \<or> hd s \<noteq> 48) \<and> digits_value s \<le> 255"

definition ipv4_address :: "pystr \<Rightarrow> bool" where
  "ipv4_address s \<longleftrightarrow> length (split_on 46 s) = 4 \<and> list_all ipv4_octet (split_on 46 s)"

definition is_label_end :: "nat \<Rightarrow> bool" where
  "is_label_end c \<longleftrightarrow> is_lower c \<or> is_digit c"

definition dns_label :: "pystr \<Rightarrow> bool" where
  "dns_label l \<longleftrightarrow>
     l \<noteq> [] \<and> length l \<le> 63 \<and> is_label_end (hd l) \<and> is_label_end (last l) \<and>
     list_all (\<lambda>c. is_label_end c \<or> c = 45) l"

text \<open>An IPv6 address has a colon, so it is no DNS name either.\<close>

definition normalize_exact_dns_host :: "pystr \<Rightarrow> error + pystr" where
  "normalize_exact_dns_host host =
     (let normalized = py_lower host
      in if normalized = [] \<or> 253 < length normalized \<or> \<not> is_ascii normalized then Inl ValueError
         else if ipv4_address normalized then Inl ValueError
         else if list_ex (\<lambda>l. \<not> dns_label l) (split_on 46 normalized) then Inl ValueError
         else Inr normalized)"

section \<open>Facts\<close>

lemma ascii_py_lower: "is_ascii s \<Longrightarrow> py_lower s = ascii_lower s"
  by (induction s) (auto simp: py_lower_def lower_char_def ascii_lower_def is_ascii_def)

lemma split_on_not_Nil [simp]: "split_on c s \<noteq> []"
  by (induction s) (auto split: list.splits)

lemma split_on_chars: "x \<in> set s \<Longrightarrow> x = c \<or> (\<exists>l \<in> set (split_on c s). x \<in> set l)"
proof (induction s)
  case (Cons y s)
  obtain p ps where "split_on c s = p # ps" by (cases "split_on c s") auto
  with Cons show ?case by auto
qed simp

definition is_host_char :: "nat \<Rightarrow> bool" where
  "is_host_char c \<longleftrightarrow> is_lower c \<or> is_digit c \<or> c = 45 \<or> c = 46"

lemma dns_host_chars:
  assumes "normalize_exact_dns_host h = Inr n"
  shows "n \<noteq> [] \<and> list_all is_host_char n"
proof -
  have n: "n \<noteq> []" "list_all dns_label (split_on 46 n)"
    using assms by (auto simp: normalize_exact_dns_host_def Let_def list_all_iff list_ex_iff
        split: if_splits)
  have "is_host_char c" if "c \<in> set n" for c
    using split_on_chars [OF that, of 46] n(2)
    by (auto simp: is_host_char_def list_all_iff dns_label_def is_label_end_def)
  with n show ?thesis by (simp add: list_all_iff)
qed

lemma host_char_lower: "is_host_char c \<Longrightarrow> ascii_lower_char c = c"
  by (auto simp: is_host_char_def char_class_defs)

lemma host_lower: "list_all is_host_char n \<Longrightarrow> ascii_lower n = n"
  by (induction n) (simp_all add: ascii_lower_def host_char_lower)

lemma host_ascii: "list_all is_host_char n \<Longrightarrow> is_ascii n"
  by (induction n) (auto simp: is_ascii_def is_host_char_def char_class_defs)

lemma dns_host_idem:
  assumes "normalize_exact_dns_host h = Inr n"
  shows "normalize_exact_dns_host n = Inr n"
proof -
  have "py_lower n = n"
    using dns_host_chars [OF assms] by (simp add: ascii_py_lower host_ascii host_lower)
  with assms show ?thesis by (auto simp: normalize_exact_dns_host_def Let_def split: if_splits)
qed

lemma host_avoids: "list_all is_host_char n \<Longrightarrow> c \<in> {37, 47, 58, 63, 35, 64, 91, 93} \<Longrightarrow> c \<notin> set n"
  by (auto simp: list_all_iff is_host_char_def char_class_defs)

text \<open>An absolute path of printable characters that no later part of a URL can start.\<close>

definition plain_path :: "pystr \<Rightarrow> bool" where
  "plain_path p \<longleftrightarrow>
     (\<exists>t. p = 47 # t) \<and> list_all (\<lambda>c. 32 \<le> c \<and> c < 127 \<and> c \<noteq> 63 \<and> c \<noteq> 35) p"

definition https_url :: "pystr \<Rightarrow> pystr \<Rightarrow> pystr" where
  "https_url host path = lit ''https://'' @ host @ path"

lemma https_lit: "lit ''https://'' = [104, 116, 116, 112, 115, 58, 47, 47]"
  by (simp add: lit_def)

lemma takeWhile_absent [simp]: "c \<notin> set s \<Longrightarrow> takeWhile (\<lambda>x. x \<noteq> c) s = s"
  by (induction s) auto

lemma dropWhile_absent [simp]: "c \<notin> set s \<Longrightarrow> dropWhile (\<lambda>x. x \<noteq> c) s = []"
  by (induction s) auto

lemma before_absent: "c \<notin> set s \<Longrightarrow> before_char c s = s"
  by (simp add: before_char_def)

lemma after_absent: "c \<notin> set s \<Longrightarrow> after_char c s = []"
  unfolding after_char_def by (subst dropWhile_absent) simp_all

lemma after_last_absent: "c \<notin> set s \<Longrightarrow> after_last c s = s"
  unfolding after_last_def by (subst takeWhile_absent) simp_all

lemma split_https:
  assumes "list_all is_host_char host" and "plain_path path"
  shows "urlsplit (https_url host path) =
    Inr \<lparr>su_scheme = lit ''https'', su_netloc = host, su_path = path, su_query = [],
         su_fragment = []\<rparr>"
proof -
  obtain t where t: "path = 47 # t" using assms(2) by (auto simp: plain_path_def)
  have printable: "c \<noteq> 9 \<and> c \<noteq> 10 \<and> c \<noteq> 13" if "c \<in> set host \<union> set path" for c
    using that assms by (auto simp: list_all_iff is_host_char_def char_class_defs plain_path_def)
  then have keep: "filter (\<lambda>c. c \<noteq> 9 \<and> c \<noteq> 10 \<and> c \<noteq> 13) host = host"
      "filter (\<lambda>c. c \<noteq> 9 \<and> c \<noteq> 10 \<and> c \<noteq> 13) path = path"
    by (auto intro!: filter_True)
  have no_end: "\<not> netloc_ends c" if "c \<in> set host" for c
    using that host_avoids [OF assms(1)] by (auto simp: netloc_ends_def)
  have net: "takeWhile (\<lambda>c. \<not> netloc_ends c) (host @ path) = host"
    "dropWhile (\<lambda>c. \<not> netloc_ends c) (host @ path) = path"
    using no_end by (simp_all add: takeWhile_append2 dropWhile_append2 t netloc_ends_def)
  have absent: "35 \<notin> set path" "63 \<notin> set path" "91 \<notin> set host" "93 \<notin> set host"
    using assms(2) host_avoids [OF assms(1)] by (auto simp: plain_path_def list_all_iff)
  have "split_scheme (104 # 116 # 116 # 112 # 115 # 58 # 47 # 47 # host @ path) =
      (lit ''https'', 47 # 47 # host @ path)"
    by (simp add: split_scheme_def before_char_def after_char_def is_scheme_char_def
        char_class_defs ascii_lower_def lit_def Let_def)
  moreover have "split_netloc (47 # 47 # host @ path) = (host, path)"
    by (simp add: split_netloc_def net numeral_2_eq_2)
  moreover have "bracket_ok host" using absent by (simp add: bracket_ok_def)
  ultimately show ?thesis
    using absent by (simp add: urlsplit_def https_url_def https_lit keep before_absent after_absent)
qed

lemma https_parts:
  assumes "list_all is_host_char host" and "host \<noteq> []"
    and u: "u = \<lparr>su_scheme = s, su_netloc = host, su_path = p, su_query = q, su_fragment = f\<rparr>"
  shows "url_hostname u = host \<and> url_port u = Inr None \<and> \<not> has_userinfo u"
proof -
  note absent = host_avoids [OF assms(1)]
  have "url_host_info u = (host, [])"
    using absent by (simp add: u url_host_info_def after_last_absent before_absent after_absent)
  moreover have "takeWhile (\<lambda>c. c \<noteq> 37) host = host" "dropWhile (\<lambda>c. c \<noteq> 37) host = []"
    by (rule takeWhile_absent dropWhile_absent, use absent in simp)+
  moreover have "64 \<notin> set host" using absent by simp
  ultimately show ?thesis
    by (simp only: url_hostname_def url_port_def has_userinfo_def Let_def fst_conv snd_conv
        append_Nil2 host_lower [OF assms(1)] simp_thms if_True) (simp add: u)
qed

end
