(* ===== verification/LiveBinding.thy ===== *)
theory LiveBinding
  imports Urls Enablement Json Utf8 Pipeline
begin

text \<open>
  The canonical identity of one live request,
  \<open>src/pixiv_yuri/acquisition/live_request_binding.py\<close>: URL normalization, field validation, and
  the canonical JSON that slot, permit and journal hash.  \<open>nfc\<close> is \<open>unicodedata.normalize\<close> and
  \<open>sha\<close> the hexadecimal SHA-256 of bytes.
\<close>

section \<open>Paths\<close>

definition is_unreserved :: "nat \<Rightarrow> bool" where
  "is_unreserved c \<longleftrightarrow> is_alpha c \<or> is_digit c \<or> c = 45 \<or> c = 46 \<or> c = 95 \<or> c = 126"

definition is_control :: "nat \<Rightarrow> bool" where
  "is_control c \<longleftrightarrow> c < 32 \<or> c = 127"

definition hex_upper :: "nat \<Rightarrow> nat" where
  "hex_upper c = (if is_lower c then c - 32 else c)"

fun normalize_path_chars :: "pystr \<Rightarrow> error + pystr" where
  "normalize_path_chars [] = Inr []"
| "normalize_path_chars (c # s) =
     (if is_control c then Inl ValueError
      else if c \<noteq> 37 then bindr (normalize_path_chars s) (\<lambda>r. Inr (c # r))
      else case s of
        a # b # s' \<Rightarrow>
          (case (hex_value a, hex_value b) of
             (Some hi, Some lo) \<Rightarrow>
               bindr (normalize_path_chars s') (\<lambda>r.
                 Inr ((if is_unreserved (16 * hi + lo) then [16 * hi + lo]
                       else [37, hex_upper a, hex_upper b]) @ r))
           | _ \<Rightarrow> Inl ValueError)
      | _ \<Rightarrow> Inl ValueError)"

definition normalize_ascii_path :: "pystr \<Rightarrow> error + pystr" where
  "normalize_ascii_path path =
     (if take 1 path \<noteq> [47] then Inl ValueError else normalize_path_chars path)"

definition dot_segment :: "pystr \<Rightarrow> bool" where
  "dot_segment s \<longleftrightarrow> s = [46] \<or> s = [46, 46]"

definition or_slash :: "pystr \<Rightarrow> pystr" where
  "or_slash p = (if p = [] then [47] else p)"

definition normalize_exact_https_url :: "pystr \<Rightarrow> error + pystr" where
  "normalize_exact_https_url url =
     (if url = [] \<or> \<not> is_ascii url then Inl ValueError
      else if list_ex (\<lambda>c. c = 13 \<or> c = 10 \<or> c = 9 \<or> c = 92) url then Inl ValueError
      else bindr (urlsplit url) (\<lambda>parsed.
        bindr (url_port parsed) (\<lambda>port.
        bindr (normalize_exact_dns_host (url_hostname parsed)) (\<lambda>host.
          if ascii_lower (su_scheme parsed) \<noteq> lit ''https'' \<or> port \<notin> {None, Some 443} \<or>
             has_userinfo parsed \<or> su_query parsed \<noteq> [] \<or> su_fragment parsed \<noteq> []
          then Inl ValueError
          else bindr (normalize_ascii_path (or_slash (su_path parsed)))
            (\<lambda>path. if list_ex dot_segment (split_on 47 path) then Inl ValueError
                    else Inr (https_url host path))))))"

section \<open>The binding\<close>

record live_binding =
  lb_fingerprint :: pystr
  lb_provider :: pystr
  lb_entity :: entity_type
  lb_source :: pystr
  lb_url :: pystr

definition provider_id_ok :: "pystr \<Rightarrow> bool" where
  "provider_id_ok v \<longleftrightarrow>
     1 \<le> length v \<and> length v \<le> 100 \<and> is_ascii v \<and> is_lower (hd v) \<and>
     list_all (\<lambda>c. is_lower c \<or> is_digit c \<or> c = 46 \<or> c = 95 \<or> c = 45) v"

definition normalize_source_id :: "(pystr \<Rightarrow> pystr) \<Rightarrow> pystr \<Rightarrow> error + pystr" where
  "normalize_source_id nfc v =
     (if list_ex is_control (nfc v) then Inl ValueError else Inr (nfc v))"

definition from_request ::
  "(pystr \<Rightarrow> pystr) \<Rightarrow> pystr \<Rightarrow> pystr \<Rightarrow> acquisition_request \<Rightarrow> pystr \<Rightarrow> error + live_binding" where
  "from_request nfc fp prov req url =
     (if \<not> is_lower_sha256 fp \<or> \<not> provider_id_ok prov then Inl ValueError
      else if \<not> (1 \<le> length (ar_source req) \<and> length (ar_source req) \<le> 255) then Inl ValueError
      else if \<not> (12 \<le> length url \<and> length url \<le> 1200) then Inl ValueError
      else bindr (normalize_source_id nfc (ar_source req)) (\<lambda>source.
           bindr (normalize_exact_https_url url) (\<lambda>canonical.
             Inr \<lparr>lb_fingerprint = fp, lb_provider = prov, lb_entity = ar_entity req,
                  lb_source = source, lb_url = canonical\<rparr>)))"

fun entity_value :: "entity_type \<Rightarrow> pystr" where
  "entity_value EtWork = lit ''work''"
| "entity_value EtAuthor = lit ''author''"
| "entity_value EtTagPage = lit ''tag_page''"
| "entity_value EtSearchPage = lit ''search_page''"

definition canonical_text :: "live_binding \<Rightarrow> pystr" where
  "canonical_text b =
     seq_text 123 125
       [json_member (lit ''approval_fingerprint'') (json_string (lb_fingerprint b)),
        json_member (lit ''canonical_url'') (json_string (lb_url b)),
        json_member (lit ''entity_type'') (json_string (entity_value (lb_entity b))),
        json_member (lit ''provider_id'') (json_string (lb_provider b)),
        json_member (lit ''source_id'') (json_string (lb_source b)),
        json_member (lit ''version'') (lit ''1'')]"

definition canonical_json :: "live_binding \<Rightarrow> error + nat list" where
  "canonical_json b =
     (if utf8_encodable (canonical_text b) then Inr (utf8_encode (canonical_text b))
      else Inl ValueError)"

definition binding_hash :: "(nat list \<Rightarrow> pystr) \<Rightarrow> live_binding \<Rightarrow> error + pystr" where
  "binding_hash sha b = bindr (canonical_json b) (\<lambda>bytes. Inr (sha bytes))"

definition binding_request_key :: "live_binding \<Rightarrow> error + pystr" where
  "binding_request_key b =
     bindr (canonical_json b) (\<lambda>bytes.
       case utf8_decode bytes of Some s \<Rightarrow> Inr s | None \<Rightarrow> Inl ValueError)"

section \<open>Normal paths\<close>

text \<open>Percent-decoding, the meaning of a path.\<close>

fun path_octets :: "pystr \<Rightarrow> nat list" where
  "path_octets [] = []"
| "path_octets (c # s) =
     (if c \<noteq> 37 then c # path_octets s
      else case s of
        a # b # s' \<Rightarrow>
          (case (hex_value a, hex_value b) of
             (Some hi, Some lo) \<Rightarrow> (16 * hi + lo) # path_octets s'
           | _ \<Rightarrow> 37 # path_octets s)
      | _ \<Rightarrow> 37 # path_octets s)"

lemma hex_upper_value [simp]:
  "hex_value a = Some v \<Longrightarrow> hex_value (hex_upper a) = Some v \<and> hex_upper (hex_upper a) = hex_upper a \<and>
     \<not> is_control (hex_upper a) \<and> hex_upper a \<noteq> 63 \<and> hex_upper a \<noteq> 35 \<and> hex_upper a < 127 \<and>
     hex_upper a \<noteq> 92"
  by (auto simp: hex_value_def hex_upper_def is_lower_def is_control_def split: if_splits)

lemma unreserved_plain:
  "is_unreserved c \<Longrightarrow> c \<noteq> 37 \<and> \<not> is_control c \<and> c \<noteq> 63 \<and> c \<noteq> 35 \<and> c < 127 \<and> c \<noteq> 92"
  by (auto simp: is_unreserved_def char_class_defs is_control_def split: if_splits)

lemma normalize_path_Inr:
  assumes "normalize_path_chars s = Inr p"
  shows "normalize_path_chars p = Inr p \<and> path_octets p = path_octets s \<and>
    (\<forall>c \<in> set p. \<not> is_control c \<and> (c \<in> set s \<or> c \<noteq> 63 \<and> c \<noteq> 35 \<and> c < 127 \<and> c \<noteq> 92))"
  using assms
proof (induction s arbitrary: p rule: normalize_path_chars.induct)
  case (2 c s)
  show ?case
  proof (cases "c = 37")
    case False
    then obtain r where "\<not> is_control c" "normalize_path_chars s = Inr r" "p = c # r"
      using "2.prems" by (auto simp: bindr_Inr split: if_splits)
    with "2.IH"(1) False show ?thesis by auto
  next
    case True
    then have "\<not> is_control c" by (simp add: is_control_def)
    with True "2.prems" obtain a b s' hi lo r where s: "s = a # b # s'"
      and v: "hex_value a = Some hi" "hex_value b = Some lo"
      and r: "normalize_path_chars s' = Inr r"
      and p: "p = (if is_unreserved (16 * hi + lo) then [16 * hi + lo]
        else [37, hex_upper a, hex_upper b]) @ r"
      by (auto simp: bindr_Inr split: list.splits option.splits)
    have ih: "normalize_path_chars r = Inr r \<and> path_octets r = path_octets s' \<and>
        (\<forall>c \<in> set r. \<not> is_control c \<and> (c \<in> set s' \<or> c \<noteq> 63 \<and> c \<noteq> 35 \<and> c < 127 \<and> c \<noteq> 92))"
      by (rule "2.IH"(2) [where ?x2.0 = hi and ?x2a = lo]) (use s r True \<open>\<not> is_control c\<close> in \<open>simp_all add: v [symmetric]\<close>)
    show ?thesis
    proof (cases "is_unreserved (16 * hi + lo)")
      case True
      with ih unreserved_plain [OF True] show ?thesis by (auto simp: p s v \<open>c = 37\<close>)
    next
      case False
      with ih hex_upper_value [OF v(1)] hex_upper_value [OF v(2)] \<open>\<not> is_control c\<close> show ?thesis
        by (auto simp: p s v \<open>c = 37\<close>)
    qed
  qed
qed simp

section \<open>Canonical URLs\<close>

lemma split_path_chars:
  assumes "urlsplit url = Inr u"
  shows "set (su_path u) \<subseteq> set url \<and> 63 \<notin> set (su_path u) \<and> 35 \<notin> set (su_path u)"
proof -
  have absent: "c \<notin> set (before_char c s)" for c s
    by (auto simp: before_char_def dest: set_takeWhileD)
  have sub: "set (before_char c s) \<subseteq> set s" "set (after_char c s) \<subseteq> set s" for c s
    by (auto simp: before_char_def after_char_def dest: set_takeWhileD)
      (metis list.set_sel(2) list.sel(2) set_dropWhileD)
  define s where "s = filter (\<lambda>c. c \<noteq> 9 \<and> c \<noteq> 10 \<and> c \<noteq> 13) (dropWhile (\<lambda>c. c \<le> 32) url)"
  have "set s \<subseteq> set url" by (auto simp: s_def dest: set_dropWhileD)
  moreover have "set (snd (split_scheme s)) \<subseteq> set s"
    using sub by (simp add: split_scheme_def Let_def)
  moreover have "set (snd (split_netloc t)) \<subseteq> set t" for t
    by (auto simp: split_netloc_def dest!: set_dropWhileD dest: in_set_dropD)
  ultimately have r2: "set (snd (split_netloc (snd (split_scheme s)))) \<subseteq> set url" by blast
  have path: "su_path u = before_char 63 (before_char 35 (snd (split_netloc (snd (split_scheme s)))))"
    using assms by (auto simp: urlsplit_def s_def Let_def case_prod_beta split: if_splits)
  have "set (su_path u) \<subseteq> set url" unfolding path using sub(1) r2 by blast
  moreover have "35 \<notin> set (su_path u)" unfolding path using sub(1) absent [of 35] by blast
  moreover have "63 \<notin> set (su_path u)" unfolding path by (rule absent)
  ultimately show ?thesis by blast
qed

lemma https_url_cases:
  assumes "normalize_exact_https_url url = Inr v"
  obtains parsed host path where "urlsplit url = Inr parsed"
    and "normalize_exact_dns_host (url_hostname parsed) = Inr host"
    and "normalize_ascii_path (or_slash (su_path parsed)) = Inr path"
    and "\<not> list_ex dot_segment (split_on 47 path)" and "v = https_url host path"
    and "is_ascii url" and "92 \<notin> set url"
  using assms
  by (auto simp: normalize_exact_https_url_def bindr_Inr list_ex_iff split: if_splits)

lemma normal_path_plain:
  assumes "normalize_ascii_path p = Inr q" and "63 \<notin> set p" and "35 \<notin> set p"
    and "is_ascii p" and "92 \<notin> set p"
  shows "plain_path q \<and> 92 \<notin> set q \<and> normalize_ascii_path q = Inr q \<and> path_octets q = path_octets p"
proof -
  have start: "take 1 p = [47]" and chars: "normalize_path_chars p = Inr q"
    using assms(1) by (simp_all add: normalize_ascii_path_def split: if_splits)
  then obtain t where t: "p = 47 # t" by (cases p) auto
  then obtain r where q: "q = 47 # r" using chars by (auto simp: bindr_Inr split: if_splits)
  note facts = normalize_path_Inr [OF chars]
  have "32 \<le> c \<and> c < 127 \<and> c \<noteq> 63 \<and> c \<noteq> 35 \<and> c \<noteq> 92" if "c \<in> set q" for c
  proof -
    have c: "\<not> is_control c" "c \<in> set p \<or> c \<noteq> 63 \<and> c \<noteq> 35 \<and> c < 127 \<and> c \<noteq> 92"
      using facts that by blast+
    have "c \<in> set p \<Longrightarrow> c < 128" using assms(4) by (simp add: is_ascii_def list_all_iff)
    with c assms(2,3,5) show ?thesis by (auto simp: is_control_def)
  qed
  then have "plain_path q" "92 \<notin> set q" using q by (auto simp: plain_path_def list_all_iff)
  moreover have "normalize_ascii_path q = Inr q" using facts unfolding normalize_ascii_path_def
    by (simp only: q) simp
  ultimately show ?thesis using facts by blast
qed

text \<open>
  C32: a normalized URL is canonical.  It is the lower-case DNS host of the given URL and its path
  with the same octets, without user information, port, query and fragment, and normalizing it
  again changes nothing.
\<close>

theorem canonical_url_is_stable:
  assumes "normalize_exact_https_url url = Inr v"
  shows "normalize_exact_https_url v = Inr v \<and>
    (\<exists>parsed host path. urlsplit url = Inr parsed \<and> v = https_url host path \<and>
       normalize_exact_dns_host (url_hostname parsed) = Inr host \<and>
       path_octets path = path_octets (or_slash (su_path parsed)))"
proof -
  obtain parsed host path where parsed: "urlsplit url = Inr parsed"
    and host: "normalize_exact_dns_host (url_hostname parsed) = Inr host"
    and path: "normalize_ascii_path (or_slash (su_path parsed)) = Inr path"
    and dots: "\<not> list_ex dot_segment (split_on 47 path)" and v: "v = https_url host path"
    and url: "is_ascii url" "92 \<notin> set url"
    using https_url_cases [OF assms] .
  let ?p = "or_slash (su_path parsed)"
  have p: "63 \<notin> set ?p" "35 \<notin> set ?p" "92 \<notin> set ?p" "is_ascii ?p"
    using split_path_chars [OF parsed] url by (auto simp: or_slash_def is_ascii_def list_all_iff)
  note path = normal_path_plain [OF path p(1,2,4,3)]
  have chars: "host \<noteq> []" "list_all is_host_char host" using dns_host_chars [OF host] by simp_all
  define u where "u = \<lparr>su_scheme = lit ''https'', su_netloc = host, su_path = path,
    su_query = [], su_fragment = []\<rparr>"
  have split: "urlsplit v = Inr u" using split_https [OF chars(2)] path by (simp add: v u_def)
  have parts: "url_hostname u = host" "url_port u = Inr None" "\<not> has_userinfo u"
    using https_parts [OF chars(2,1) u_def] by simp_all
  have "path \<noteq> []" using path by (auto simp: plain_path_def)
  have "c < 128 \<and> c \<noteq> 13 \<and> c \<noteq> 10 \<and> c \<noteq> 9 \<and> c \<noteq> 92" if c: "c \<in> set v" for c
  proof -
    consider "c \<in> set (lit ''https://'')" | "c \<in> set host" | "c \<in> set path"
      using c by (auto simp: v https_url_def)
    then show ?thesis
    proof cases
      case 1
      then show ?thesis by (auto simp: https_lit)
    next
      case 2
      with chars(2) show ?thesis by (auto simp: list_all_iff is_host_char_def char_class_defs)
    next
      case 3
      with path show ?thesis by (auto simp: plain_path_def list_all_iff)
    qed
  qed
  then have chars_v: "is_ascii v" "\<not> list_ex (\<lambda>c. c = 13 \<or> c = 10 \<or> c = 9 \<or> c = 92) v" "v \<noteq> []"
    by (auto simp: is_ascii_def list_all_iff list_ex_iff v https_url_def https_lit)
  have "normalize_exact_https_url v = Inr v"
    using chars_v(2,3) path dots \<open>path \<noteq> []\<close>
    by (simp add: normalize_exact_https_url_def chars_v(1) split parts dns_host_idem [OF host]
        or_slash_def)
      (simp add: u_def ascii_lower_def lit_def ascii_lower_char_def v)
  with parsed host path show ?thesis unfolding v by blast
qed

theorem canonical_url_is_stable_witness:
  "\<exists>v. normalize_exact_https_url (lit ''HTTPS://Ab.c:443/%7e%2f'') = Inr v \<and>
     v = lit ''https://ab.c/~%2F'' \<and> normalize_exact_https_url v = Inr v"
proof -
  have "normalize_exact_https_url (lit ''HTTPS://Ab.c:443/%7e%2f'') =
      Inr (lit ''https://ab.c/~%2F'')"
    by (simp add: normalize_exact_https_url_def urlsplit_def split_scheme_def split_netloc_def
        before_char_def after_char_def after_last_def is_scheme_char_def char_class_defs
        bracket_ok_def netloc_ends_def url_port_def url_host_info_def url_hostname_def
        digits_value_def normalize_exact_dns_host_def py_lower_def lower_char_def
        ascii_lower_def is_ascii_def ipv4_address_def ipv4_octet_def dns_label_def
        is_label_end_def has_userinfo_def normalize_ascii_path_def or_slash_def is_control_def
        hex_value_def is_unreserved_def hex_upper_def dot_segment_def https_url_def lit_def
        list_ex_iff Let_def numeral_2_eq_2)
  from conjunct1 [OF canonical_url_is_stable [OF this]] this show ?thesis by blast
qed

section \<open>The hashed text\<close>

definition binding_is_text :: "live_binding \<Rightarrow> bool" where
  "binding_is_text b \<longleftrightarrow>
     is_text (lb_fingerprint b) \<and> is_text (lb_provider b) \<and> is_text (lb_source b) \<and>
     is_text (lb_url b)"

lemma is_text_json_string [simp]: "is_text s \<Longrightarrow> is_text (json_string s)"
proof -
  have "c < 1114112 \<Longrightarrow> is_text (json_escape c)" for c
    by (auto simp: json_escape_def hex_digit_def)
  then have "is_text s \<Longrightarrow> is_text (concat (map json_escape s))"
    by (induction s) auto
  then show "is_text s \<Longrightarrow> ?thesis" by (simp add: json_string_def)
qed

lemma is_text_entity [simp]: "is_text (entity_value e)"
  by (cases e) simp_all

lemma entity_value_inject [simp]: "entity_value e = entity_value e' \<longleftrightarrow> e = e'"
  by (cases e; cases e') (simp_all add: lit_def)

lemma is_text_canonical: "binding_is_text b \<Longrightarrow> is_text (canonical_text b)"
  by (simp add: binding_is_text_def canonical_text_def json_member_def)

lemma member_step:
  "json_member k (json_string v) @ 44 # r = json_member k (json_string v') @ 44 # r' \<Longrightarrow>
     v = v' \<and> r = r'"
  using json_member_reads_back [OF json_string_reads_back] by blast

lemma canonical_text_inject:
  assumes "canonical_text b = canonical_text b'"
  shows "b = b'"
proof -
  have "lb_fingerprint b = lb_fingerprint b' \<and> lb_url b = lb_url b' \<and>
      lb_entity b = lb_entity b' \<and> lb_provider b = lb_provider b' \<and> lb_source b = lb_source b'"
    using assms unfolding canonical_text_def
    by (simp only: seq_text.simps seq_tail.simps list.inject)
      (drule conjunct2, (drule member_step, erule conjE, simp only: entity_value_inject)+)
  then show ?thesis by (cases b; cases b') simp
qed

lemma canonical_json_decodes:
  assumes "binding_is_text b" and "canonical_json b = Inr x"
  shows "utf8_decode x = Some (canonical_text b)"
proof -
  have "utf8_encodable (canonical_text b)" "x = utf8_encode (canonical_text b)"
    using assms(2) by (auto simp: canonical_json_def split: if_splits)
  moreover have "is_text (canonical_text b)" by (rule is_text_canonical [OF assms(1)])
  ultimately show ?thesis
    by (simp add: utf8_decode_encode utf8_encodable_def is_text_def is_code_point_def list_all_iff)
qed

text \<open>
  C33: the hashed bytes identify the binding.  Two bindings with the same canonical JSON are equal
  in every field, and the request key read back from the bytes is the canonical text.
\<close>

theorem binding_preimage_is_unambiguous:
  assumes "binding_is_text b" and "binding_is_text b'"
    and "canonical_json b = Inr x" and "canonical_json b' = Inr x"
  shows "b = b' \<and> binding_request_key b = Inr (canonical_text b)"
proof -
  note d = canonical_json_decodes [OF assms(1,3)] canonical_json_decodes [OF assms(2,4)]
  then have "canonical_text b = canonical_text b'" by simp
  then have "b = b'" by (rule canonical_text_inject)
  with d(1) assms(3) show ?thesis by (simp add: binding_request_key_def)
qed

definition sample_binding :: "pystr \<Rightarrow> live_binding" where
  "sample_binding url =
     \<lparr>lb_fingerprint = lit ''ab'', lb_provider = lit ''p'', lb_entity = EtWork, lb_source = lit ''7'',
      lb_url = url\<rparr>"

lemma sample_canonical:
  "canonical_json (sample_binding []) = Inr (utf8_encode (canonical_text (sample_binding [])))"
  by (simp add: canonical_json_def utf8_encodable_def canonical_text_def sample_binding_def
      json_member_def json_string_def json_escape_def lit_def is_surrogate_def)

theorem binding_preimage_is_unambiguous_witness:
  "\<exists>x. canonical_json (sample_binding []) = Inr x \<and>
     binding_request_key (sample_binding []) = Inr (canonical_text (sample_binding []))"
proof -
  have "binding_is_text (sample_binding [])" by (simp add: binding_is_text_def sample_binding_def)
  from conjunct2 [OF binding_preimage_is_unambiguous [OF this this sample_canonical sample_canonical]]
  show ?thesis using sample_canonical by blast
qed

end
