(* ===== verification/LiveReadiness.thy ===== *)
theory LiveReadiness
  imports LaunchReview FirstSlot Enablement LiveBinding SessionLease
begin

text \<open>
  The readiness check that binds approval, launch review, session, claim, provider and enablement
  for one live request, \<open>src/pixiv_yuri/governance/live_readiness.py\<close>, and the session capability
  of \<open>src/pixiv_yuri/acquisition/auth.py\<close>.  \<open>sha\<close> is the hexadecimal SHA-256 of bytes, \<open>fpr\<close> the
  approval fingerprint.  The claim's time is an argument of its own, since the check admits that
  it is naive.
\<close>

section \<open>Inputs\<close>

record session_capability =
  sc_established :: pydatetime
  sc_expires :: pydatetime
  sc_visibility :: visibility
  sc_ratings :: "age_rating list"

definition session_capability_valid :: "session_capability \<Rightarrow> bool" where
  "session_capability_valid c \<longleftrightarrow>
     sc_ratings c \<noteq> [] \<and> sc_visibility c = AuthenticatedPublic \<and>
     (case (aware_utc (sc_established c), aware_utc (sc_expires c)) of
        (Inr s, Inr e) \<Rightarrow> s < e | _ \<Rightarrow> False)"

definition ensure_session_active :: "session_capability \<Rightarrow> pydatetime \<Rightarrow> error + unit" where
  "ensure_session_active c now =
     bindr (aware_utc now) (\<lambda>t.
       if instant_of (sc_established c) \<le> t \<and> t < instant_of (sc_expires c) then Inr ()
       else Inl SessionCapabilityError)"

record provider_view =
  pv_name :: pystr
  pv_network :: bool
  pv_fingerprint :: "pystr option"

definition derive_live_claim_key :: "pystr \<Rightarrow> acquisition_request \<Rightarrow> error + pystr" where
  "derive_live_claim_key name req =
     (if name = [] \<or> 100 < length name then Inl ValueError
      else Inr (lit ''live-one-request:'' @ name @ [58] @ entity_value (ar_entity req) @ [58] @
                ar_source req))"

definition derive_live_claim_key_hash ::
  "(nat list \<Rightarrow> pystr) \<Rightarrow> pystr \<Rightarrow> acquisition_request \<Rightarrow> error + pystr" where
  "derive_live_claim_key_hash sha name req =
     bindr (derive_live_claim_key name req) (\<lambda>k.
       if utf8_encodable k then Inr (sha (utf8_encode k)) else Inl ValueError)"

definition arm_live_one_request_enablement ::
  "first_request_claim \<Rightarrow> pydatetime \<Rightarrow> int \<Rightarrow> error + enablement" where
  "arm_live_one_request_enablement claim enabled ttl =
     (if \<not> (5 \<le> ttl \<and> ttl \<le> 120) then Inl ValueError
      else bindr (aware_utc enabled) (\<lambda>t.
        let config = \<lparr>ec_mode = FirstRealRequest, ec_fingerprint = Some (c_fingerprint claim),
              ec_run_id = Some (c_run_id claim),
              ec_request_key_hash = Some (c_request_key_hash claim), ec_enabled_at = Some (utc t),
              ec_expires_at = Some (utc (t + seconds ttl)), ec_acknowledged = True\<rparr>
        in if enablement_config_valid config then Inr (new_enablement (Some config))
           else Inl ValueError))"

section \<open>The check\<close>

datatype readiness_violation =
    RvIdentityInvalid | RvBindingMismatch | RvApprovalInactive | RvConcurrency | RvSessionScope
  | RvReviewTime | RvReviewNotEligible | RvReviewApproval | RvReviewExpiry | RvReviewStale
  | RvSessionInactive | RvSessionVisibility | RvSessionRatings | RvClaimTimeInvalid
  | RvClaimTimeMismatch | RvClaimBinding | RvProviderNotLive | RvProviderApproval
  | RvEnablementUnavailable

datatype readiness_failure = Raises error | NotReady "readiness_violation list"

record readiness_evidence =
  re_status :: pystr
  re_planned_requests :: int
  re_fingerprint :: pystr
  re_run_id :: int
  re_request_key_hash :: pystr
  re_enablement_state :: enablement_state
  re_checked_at :: instant
  re_network_used :: bool

definition try_parse_aware :: "pydatetime option \<Rightarrow> instant option" where
  "try_parse_aware v =
     (case v of None \<Rightarrow> None | Some x \<Rightarrow> (case aware_utc x of Inl _ \<Rightarrow> None | Inr t \<Rightarrow> Some t))"

definition request_identity ::
  "(nat list \<Rightarrow> pystr) \<Rightarrow> provider_view \<Rightarrow> acquisition_request \<Rightarrow> live_binding option \<Rightarrow> error + pystr"
  where
  "request_identity sha p req binding =
     (case binding of Some b \<Rightarrow> binding_hash sha b
      | None \<Rightarrow> derive_live_claim_key_hash sha (pv_name p) req)"

definition binding_violations ::
  "pystr \<Rightarrow> provider_view \<Rightarrow> acquisition_request \<Rightarrow> live_binding option \<Rightarrow> readiness_violation list"
  where
  "binding_violations fp p req binding =
     (case binding of None \<Rightarrow> []
      | Some b \<Rightarrow> flag (lb_fingerprint b \<noteq> fp \<or> lb_provider b \<noteq> pv_name p \<or>
          lb_entity b \<noteq> ar_entity req \<or> lb_source b \<noteq> ar_source req) RvBindingMismatch)"

definition approval_violations :: "g0_approval \<Rightarrow> instant \<Rightarrow> readiness_violation list" where
  "approval_violations a t =
     flag (\<not> approval_active a t) RvApprovalInactive @
     flag (concurrency (traffic_limits a) \<noteq> 1) RvConcurrency @
     flag (authentication_mode (source_scope a) \<noteq> UserManagedSession \<or>
           content_visibility (source_scope a) \<noteq> AuthenticatedPublic) RvSessionScope"

definition review_eligible :: "launch_review \<Rightarrow> bool" where
  "review_eligible r \<longleftrightarrow>
     lr_passed r \<and> lr_violations r = [] \<and> lr_ready r \<and>
     lr_migration r = expected_migration_version \<and> lr_planned_cap r = 1 \<and>
     lr_active_permits r = 0 \<and> lr_slots r = 0 \<and> lr_stopped_runs r = 0 \<and> \<not> lr_network_used r"

definition review_fresh :: "instant option \<Rightarrow> instant \<Rightarrow> bool" where
  "review_fresh checked t \<longleftrightarrow>
     (case checked of None \<Rightarrow> False | Some c \<Rightarrow> c \<le> t \<and> t \<le> c + minutes 5)"

definition launch_violations ::
  "g0_approval \<Rightarrow> pystr \<Rightarrow> launch_review \<Rightarrow> instant \<Rightarrow> readiness_violation list" where
  "launch_violations a fp r t =
     (let checked = try_parse_aware (lr_checked_at r); expiry = try_parse_aware (lr_expires_at r) in
      flag (checked = None \<or> expiry = None) RvReviewTime @
      flag (\<not> review_eligible r) RvReviewNotEligible @
      flag (lr_fingerprint r \<noteq> fp) RvReviewApproval @
      flag (expiry \<noteq> Some (instant_of (expires_at a))) RvReviewExpiry @
      flag (\<not> review_fresh checked t) RvReviewStale)"

definition session_violations ::
  "g0_approval \<Rightarrow> session_capability \<Rightarrow> instant \<Rightarrow> readiness_violation list" where
  "session_violations a c t =
     flag (\<not> is_ok (ensure_session_active c (utc t))) RvSessionInactive @
     flag (sc_visibility c \<noteq> content_visibility (source_scope a)) RvSessionVisibility @
     flag (\<not> list_all (\<lambda>r. r \<in> set (sc_ratings c)) (allowed_age_ratings (source_scope a)))
       RvSessionRatings"

definition claim_violations ::
  "pystr \<Rightarrow> pystr \<Rightarrow> launch_review \<Rightarrow> first_request_claim \<Rightarrow> pydatetime \<Rightarrow> instant \<Rightarrow>
     readiness_violation list" where
  "claim_violations fp key r claim claimed_at t =
     (case aware_utc claimed_at of
        Inl _ \<Rightarrow> [RvClaimTimeInvalid]
      | Inr ct \<Rightarrow>
          flag (case try_parse_aware (lr_checked_at r) of None \<Rightarrow> True
                | Some c \<Rightarrow> \<not> (c \<le> ct \<and> ct \<le> t)) RvClaimTimeMismatch) @
     flag (c_slot_id claim < 1 \<or> c_run_id claim < 1 \<or> c_fingerprint claim \<noteq> fp \<or>
           c_request_key_hash claim \<noteq> key) RvClaimBinding"

definition provider_violations :: "pystr \<Rightarrow> provider_view \<Rightarrow> readiness_violation list" where
  "provider_violations fp p =
     flag (\<not> pv_network p) RvProviderNotLive @ flag (pv_fingerprint p \<noteq> Some fp) RvProviderApproval"

definition denied_or_value_error :: "error \<Rightarrow> bool" where
  "denied_or_value_error e \<longleftrightarrow> e = ValueError \<or> (\<exists>r. e = RealRequestDenied r)"

definition bind_live_one_request_readiness ::
  "(nat list \<Rightarrow> pystr) \<Rightarrow> (g0_approval \<Rightarrow> pystr) \<Rightarrow> g0_approval \<Rightarrow> launch_review \<Rightarrow>
     session_capability \<Rightarrow> first_request_claim \<Rightarrow> pydatetime \<Rightarrow> provider_view \<Rightarrow>
     acquisition_request \<Rightarrow> live_binding option \<Rightarrow> pydatetime \<Rightarrow> enablement \<Rightarrow>
     (readiness_failure + readiness_evidence) \<times> enablement" where
  "bind_live_one_request_readiness sha fpr a review session claim claimed_at p req binding now en =
     (case aware_utc now of
        Inl e \<Rightarrow> (Inl (Raises e), en)
      | Inr t \<Rightarrow>
          let fp = fpr a;
              identity = request_identity sha p req binding;
              key = (case identity of Inl _ \<Rightarrow> replicate 64 48 | Inr k \<Rightarrow> k);
              vs = flag (\<not> is_ok identity) RvIdentityInvalid @ binding_violations fp p req binding @
                   approval_violations a t @ launch_violations a fp review t @
                   session_violations a session t @ claim_violations fp key review claim claimed_at t @
                   provider_violations fp p;
              (consumed, en') = consume_enablement (PyStr fp) (PyInt (c_run_id claim)) (PyStr key)
                (utc t) en
          in (case consumed of
                Inl e \<Rightarrow>
                  if \<not> denied_or_value_error e then (Inl (Raises e), en')
                  else if vs \<noteq> [] then (Inl (NotReady (first_seen vs)), en')
                  else (Inl (NotReady [RvEnablementUnavailable]), en')
              | Inr _ \<Rightarrow>
                  if vs \<noteq> [] then (Inl (NotReady (first_seen vs)), en')
                  else (Inr \<lparr>re_status = lit ''ready'', re_planned_requests = 1,
                             re_fingerprint = fp, re_run_id = c_run_id claim,
                             re_request_key_hash = key, re_enablement_state = EnConsumed,
                             re_checked_at = t, re_network_used = False\<rparr>, en')))"

section \<open>Fail closed\<close>

text \<open>Everything the check asks for, apart from the enablement.\<close>

definition live_request_bound ::
  "(nat list \<Rightarrow> pystr) \<Rightarrow> (g0_approval \<Rightarrow> pystr) \<Rightarrow> g0_approval \<Rightarrow> launch_review \<Rightarrow>
     session_capability \<Rightarrow> first_request_claim \<Rightarrow> pydatetime \<Rightarrow> provider_view \<Rightarrow>
     acquisition_request \<Rightarrow> live_binding option \<Rightarrow> instant \<Rightarrow> bool" where
  "live_request_bound sha fpr a review session claim claimed_at p req binding t \<longleftrightarrow>
     request_identity sha p req binding = Inr (c_request_key_hash claim) \<and>
     (\<forall>b. binding = Some b \<longrightarrow> lb_fingerprint b = fpr a \<and> lb_provider b = pv_name p \<and>
        lb_entity b = ar_entity req \<and> lb_source b = ar_source req) \<and>
     approval_active a t \<and> concurrency (traffic_limits a) = 1 \<and>
     authentication_mode (source_scope a) = UserManagedSession \<and>
     content_visibility (source_scope a) = AuthenticatedPublic \<and>
     review_eligible review \<and> lr_fingerprint review = fpr a \<and>
     try_parse_aware (lr_expires_at review) = Some (instant_of (expires_at a)) \<and>
     (\<exists>c ct. try_parse_aware (lr_checked_at review) = Some c \<and> aware_utc claimed_at = Inr ct \<and>
        c \<le> ct \<and> ct \<le> t \<and> t \<le> c + minutes 5) \<and>
     instant_of (sc_established session) \<le> t \<and> t < instant_of (sc_expires session) \<and>
     sc_visibility session = AuthenticatedPublic \<and>
     set (allowed_age_ratings (source_scope a)) \<subseteq> set (sc_ratings session) \<and>
     1 \<le> c_slot_id claim \<and> 1 \<le> c_run_id claim \<and> c_fingerprint claim = fpr a \<and>
     pv_network p \<and> pv_fingerprint p = Some (fpr a)"

lemma session_active_utc:
  "is_ok (ensure_session_active c (utc t)) \<longleftrightarrow>
     instant_of (sc_established c) \<le> t \<and> t < instant_of (sc_expires c)"
  by (simp add: ensure_session_active_def)

lemma claim_violations_Nil:
  "claim_violations fp key r claim claimed_at t = [] \<longleftrightarrow>
     (\<exists>c ct. try_parse_aware (lr_checked_at r) = Some c \<and> aware_utc claimed_at = Inr ct \<and>
        c \<le> ct \<and> ct \<le> t) \<and>
     1 \<le> c_slot_id claim \<and> 1 \<le> c_run_id claim \<and> c_fingerprint claim = fp \<and>
     c_request_key_hash claim = key"
  by (cases "aware_utc claimed_at"; cases "try_parse_aware (lr_checked_at r)")
    (auto simp: claim_violations_def not_less)

lemma launch_violations_Nil:
  "launch_violations a fp r t = [] \<longleftrightarrow>
     review_eligible r \<and> lr_fingerprint r = fp \<and>
     try_parse_aware (lr_expires_at r) = Some (instant_of (expires_at a)) \<and>
     (\<exists>c. try_parse_aware (lr_checked_at r) = Some c \<and> c \<le> t \<and> t \<le> c + minutes 5)"
  by (cases "try_parse_aware (lr_checked_at r)")
    (auto simp: launch_violations_def review_fresh_def Let_def)

lemma binding_violations_Nil:
  "binding_violations fp p req binding = [] \<longleftrightarrow>
     (\<forall>b. binding = Some b \<longrightarrow> lb_fingerprint b = fp \<and> lb_provider b = pv_name p \<and>
        lb_entity b = ar_entity req \<and> lb_source b = ar_source req)"
  by (cases binding) (auto simp: binding_violations_def)

definition enablement_wf :: "enablement \<Rightarrow> bool" where
  "enablement_wf en \<longleftrightarrow>
     enablement_config_valid (en_config en) \<and>
     (ec_mode (en_config en) = ModeDisabled \<longrightarrow> en_state en = EnDisabled)"

text \<open>When an enablement grants a fingerprint, a run and a key at a time.\<close>

definition grants :: "enablement \<Rightarrow> pystr \<Rightarrow> int \<Rightarrow> pystr \<Rightarrow> instant \<Rightarrow> bool" where
  "grants en fp run key t \<longleftrightarrow>
     en_state en = EnArmed \<and> ec_fingerprint (en_config en) = Some fp \<and>
     ec_run_id (en_config en) = Some run \<and> ec_request_key_hash (en_config en) = Some key \<and>
     (\<exists>e x. map_option aware_utc (ec_enabled_at (en_config en)) = Some (Inr e) \<and>
        map_option aware_utc (ec_expires_at (en_config en)) = Some (Inr x) \<and>
        e \<le> t \<and> t < x \<and> x \<le> e + seconds 120)"

lemma consume_text:
  assumes "enablement_wf en"
  shows "is_ok (fst (consume_enablement (PyStr fp) (PyInt run) (PyStr key) (utc t) en)) \<longleftrightarrow>
      grants en fp run key t"
    and "en_state (snd (consume_enablement (PyStr fp) (PyInt run) (PyStr key) (utc t) en)) \<noteq> EnArmed"
proof -
  let ?out = "consume_enablement (PyStr fp) (PyInt run) (PyStr key) (utc t) en"
  have "(is_ok (fst ?out) \<longleftrightarrow> grants en fp run key t) \<and> en_state (snd ?out) \<noteq> EnArmed"
  proof (cases "en_state en = EnArmed")
    case True
    then have mode: "ec_mode (en_config en) = FirstRealRequest"
      using assms by (cases "ec_mode (en_config en)") (auto simp: enablement_wf_def)
    have "new_enablement (Some (en_config en)) = en"
      using True by (simp add: new_enablement_armed [OF mode])
    with first_consumption [of "en_config en" "utc t" t "PyStr fp" "PyInt run" "PyStr key"]
    show ?thesis using assms mode True by (auto simp: enablement_wf_def grants_def)
  next
    case False
    with unarmed_stays [OF False, of "EnConsume (PyStr fp) (PyInt run) (PyStr key) (utc t)"]
    show ?thesis by (simp add: grants_def)
  qed
  then show "is_ok (fst ?out) \<longleftrightarrow> grants en fp run key t" "en_state (snd ?out) \<noteq> EnArmed"
    by simp_all
qed

text \<open>
  C37: the readiness check is exact and fail closed.  It returns evidence exactly when the request
  identity, the approval, the fresh review, the session, the claim and the provider all agree and
  the enablement grants this very request now; and whatever it finds, the enablement is not armed
  afterwards, so no second check of the same enablement can succeed.
\<close>

theorem live_readiness_is_fail_closed:
  assumes "enablement_wf en" and "aware_utc now = Inr t"
  shows "(is_ok (fst (bind_live_one_request_readiness sha fpr a review session claim claimed_at p
        req binding now en)) \<longleftrightarrow>
      live_request_bound sha fpr a review session claim claimed_at p req binding t \<and>
      grants en (fpr a) (c_run_id claim) (c_request_key_hash claim) t) \<and>
    en_state (snd (bind_live_one_request_readiness sha fpr a review session claim claimed_at p
        req binding now en)) \<noteq> EnArmed"
proof -
  define identity where "identity = request_identity sha p req binding"
  define key where "key = (case identity of Inl _ \<Rightarrow> replicate 64 48 | Inr k \<Rightarrow> k)"
  define vs where "vs = flag (\<not> is_ok identity) RvIdentityInvalid @
    binding_violations (fpr a) p req binding @ approval_violations a t @
    launch_violations a (fpr a) review t @ session_violations a session t @
    claim_violations (fpr a) key review claim claimed_at t @ provider_violations (fpr a) p"
  let ?out = "consume_enablement (PyStr (fpr a)) (PyInt (c_run_id claim)) (PyStr key) (utc t) en"
  have ok: "is_ok (fst (bind_live_one_request_readiness sha fpr a review session claim claimed_at p
        req binding now en)) \<longleftrightarrow> vs = [] \<and> is_ok (fst ?out)"
    and state: "snd (bind_live_one_request_readiness sha fpr a review session claim claimed_at p
        req binding now en) = snd ?out"
    unfolding bind_live_one_request_readiness_def assms(2) sum.case Let_def
      identity_def [symmetric] key_def [symmetric] vs_def [symmetric]
    by (cases "?out"; cases "fst ?out"; simp)+
  have "vs = [] \<longleftrightarrow>
      live_request_bound sha fpr a review session claim claimed_at p req binding t \<and>
      key = c_request_key_hash claim"
    by (cases identity)
      (auto simp: vs_def live_request_bound_def identity_def [symmetric] key_def
        approval_violations_def session_violations_def provider_violations_def
        claim_violations_Nil launch_violations_Nil binding_violations_Nil session_active_utc
        list_all_iff)
  moreover have "key = c_request_key_hash claim"
    if "live_request_bound sha fpr a review session claim claimed_at p req binding t"
    using that by (simp add: live_request_bound_def identity_def key_def)
  ultimately show ?thesis
    unfolding ok state using consume_text [OF assms(1), of "fpr a" "c_run_id claim" key t] by auto
qed

definition sample_readiness :: "enablement \<Rightarrow> (readiness_failure + readiness_evidence) \<times> enablement" where
  "sample_readiness en =
     (case review_launch (\<lambda>_. replicate 64 97) sample_approval 1 (utc 5) False True
             (Some expected_migration_version) (empty_db PostgresDb [1]) of
        Inl e \<Rightarrow> (Inl (Raises e), en)
      | Inr review \<Rightarrow>
          bind_live_one_request_readiness (\<lambda>_. replicate 64 98) (\<lambda>_. replicate 64 97) sample_approval
            review
            \<lparr>sc_established = utc 0, sc_expires = utc (days 1), sc_visibility = AuthenticatedPublic,
             sc_ratings = [AllAges, R18]\<rparr>
            \<lparr>c_slot_id = 1, c_fingerprint = replicate 64 97, c_run_id = 1,
             c_request_key_hash = replicate 64 98, c_claimed_at = 6\<rparr> (utc 6)
            \<lparr>pv_name = [112], pv_network = True, pv_fingerprint = Some (replicate 64 97)\<rparr>
            \<lparr>ar_entity = EtWork, ar_source = [49]\<rparr> None (utc 7) en)"

lemma sample_enablement_wf: "enablement_wf (new_enablement (Some sample_enablement_config))"
  using sample_enablement_valid
  by (simp add: enablement_wf_def new_enablement_def Let_def)

theorem live_readiness_is_fail_closed_witness:
  "is_ok (fst (sample_readiness (new_enablement (Some sample_enablement_config))))"
proof -
  let ?en = "new_enablement (Some sample_enablement_config)"
  have grant: "grants ?en (replicate 64 97) 1 (replicate 64 98) 7"
    by (simp add: grants_def new_enablement_def sample_enablement_config_def duration_defs)
  show ?thesis
    unfolding sample_readiness_def
    using grant
    by (simp add: review_launch_def review_violations_def empty_db_def active_permit_count_def
        first_slot_count_def stopped_run_count_def migration_text_def flag_def
        expected_migration_version_def lit_def live_readiness_is_fail_closed
        [OF sample_enablement_wf aware_utc_utc] live_request_bound_def request_identity_def
        derive_live_claim_key_hash_def derive_live_claim_key_def utf8_encodable_def
        is_surrogate_def review_eligible_def try_parse_aware_def sample_approval_def
        sample_scope_def approval_active_def duration_defs)
qed

end
