(* ===== verification/DataQuality.thy ===== *)
theory DataQuality
  imports SchemaProbe
begin

text \<open>
  Schema policy and quarantine: \<open>src/pixiv_yuri/data_quality/models.py\<close>,
  \<open>src/pixiv_yuri/data_quality/validation.py\<close>, and the parser registry and fixture parser of
  \<open>src/pixiv_yuri/acquisition/parsers\<close>.  A parser is a record of its identity and its function.
  The detail of an item is \<open>None\<close> where the code stores the text of an exception.
\<close>

section \<open>The policy\<close>

datatype schema_decision = Approved | Rejected
datatype validation_state = Valid | Quarantined

record policy_entry =
  pe_entity_type :: entity_type
  pe_fingerprint :: pystr
  pe_decision :: schema_decision
  pe_parser_id :: "pystr option"
  pe_parser_version :: "pystr option"
  pe_note :: pystr

record schema_policy =
  sy_version :: int
  sy_provider :: pystr
  sy_entries :: "policy_entry list"

definition lower_hex64 :: "pystr \<Rightarrow> bool" where
  "lower_hex64 s \<longleftrightarrow>
     length s = 64 \<and> list_all (\<lambda>c. (48 \<le> c \<and> c \<le> 57) \<or> (97 \<le> c \<and> c \<le> 102)) s"

definition opt_length :: "nat \<Rightarrow> nat \<Rightarrow> pystr option \<Rightarrow> bool" where
  "opt_length lo hi v \<longleftrightarrow> (case v of None \<Rightarrow> True | Some s \<Rightarrow> lo \<le> length s \<and> length s \<le> hi)"

definition route_matches_decision :: "policy_entry \<Rightarrow> bool" where
  "route_matches_decision e \<longleftrightarrow>
     (pe_parser_id e = None) = (pe_parser_version e = None) \<and>
     (pe_decision e = Approved \<longrightarrow> pe_parser_id e \<noteq> None) \<and>
     (pe_decision e = Rejected \<longrightarrow> pe_parser_id e = None)"

definition policy_entry_valid :: "policy_entry \<Rightarrow> bool" where
  "policy_entry_valid e \<longleftrightarrow>
     lower_hex64 (pe_fingerprint e) \<and> opt_length 1 100 (pe_parser_id e) \<and>
     opt_length 1 100 (pe_parser_version e) \<and> 1 \<le> length (pe_note e) \<and> length (pe_note e) \<le> 500 \<and>
     route_matches_decision e"

definition policy_valid :: "schema_policy \<Rightarrow> bool" where
  "policy_valid p \<longleftrightarrow>
     1 \<le> sy_version p \<and> 1 \<le> length (sy_provider p) \<and> length (sy_provider p) \<le> 100 \<and>
     sy_entries p \<noteq> [] \<and> list_all policy_entry_valid (sy_entries p) \<and>
     distinct (map (\<lambda>e. (pe_entity_type e, pe_fingerprint e)) (sy_entries p))"

definition policy_find :: "entity_type \<Rightarrow> pystr \<Rightarrow> schema_policy \<Rightarrow> policy_entry option" where
  "policy_find t fp p = find (\<lambda>e. pe_entity_type e = t \<and> pe_fingerprint e = fp) (sy_entries p)"

section \<open>Parsers\<close>

record parsed_envelope =
  pn_parser_id :: pystr
  pn_parser_version :: pystr
  pn_entity :: entity_type
  pn_source :: pystr
  pn_fingerprint :: pystr
  pn_document :: json

record payload_parser =
  pp_id :: pystr
  pp_version :: pystr
  pp_entities :: "entity_type list"
  pp_parse :: "raw_response \<Rightarrow> error + parsed_envelope"

type_synonym parser_registry = "((pystr \<times> pystr) \<times> payload_parser) list"

fun register_parsers :: "payload_parser list \<Rightarrow> parser_registry \<Rightarrow> error + parser_registry" where
  "register_parsers [] reg = Inr reg"
| "register_parsers (p # ps) reg =
     (if (pp_id p, pp_version p) \<in> fst ` set reg then Inl ParserRegistryError
      else register_parsers ps (reg @ [((pp_id p, pp_version p), p)]))"

definition resolve_parser ::
  "parser_registry \<Rightarrow> pystr \<Rightarrow> pystr \<Rightarrow> entity_type \<Rightarrow> error + payload_parser" where
  "resolve_parser reg pid version t =
     (case map_of reg (pid, version) of
        None \<Rightarrow> Inl ParserRegistryError
      | Some p \<Rightarrow> if t \<notin> set (pp_entities p) then Inl ParserRegistryError else Inr p)"

definition fixture_object_parser ::
  "(pystr \<Rightarrow> pystr) \<Rightarrow> (pystr \<Rightarrow> error + json) \<Rightarrow> payload_parser" where
  "fixture_object_parser sha loads =
     \<lparr>pp_id = lit ''fixture_object'', pp_version = lit ''0.1.0'',
      pp_entities = [EtWork, EtAuthor, EtTagPage, EtSearchPage],
      pp_parse = (\<lambda>r. bindr (json_value loads r) (\<lambda>v.
        case v of
          JObj fs \<Rightarrow> bindr (fingerprint_payload sha v) (\<lambda>fp.
            Inr \<lparr>pn_parser_id = lit ''fixture_object'', pn_parser_version = lit ''0.1.0'',
                 pn_entity = rr_entity r, pn_source = rr_source r, pn_fingerprint = fp,
                 pn_document = v\<rparr>)
        | _ \<Rightarrow> Inl ValueError))\<rparr>"

definition build_offline_fixture_registry ::
  "(pystr \<Rightarrow> pystr) \<Rightarrow> (pystr \<Rightarrow> error + json) \<Rightarrow> error + parser_registry" where
  "build_offline_fixture_registry sha loads = register_parsers [fixture_object_parser sha loads] []"

section \<open>Validation\<close>

datatype validation_code =
    VcNonSuccessStatus | VcUnknownSchema | VcSchemaRejected | VcSchemaApproved | VcValidationError

record validation_item =
  vi_entity :: entity_type
  vi_source :: pystr
  vi_state :: validation_state
  vi_code :: validation_code
  vi_detail :: "pystr option"
  vi_payload_sha :: "pystr option"
  vi_fingerprint :: "pystr option"
  vi_parser_id :: "pystr option"
  vi_parser_version :: "pystr option"

record validation_report =
  vp_generated_at :: instant
  vp_provider :: pystr
  vp_policy_version :: int
  vp_valid :: int
  vp_quarantined :: int
  vp_items :: "validation_item list"

definition quarantined_item ::
  "entity_type \<Rightarrow> pystr \<Rightarrow> pystr option \<Rightarrow> pystr option \<Rightarrow> validation_code \<Rightarrow> pystr option \<Rightarrow>
     validation_item" where
  "quarantined_item t source payload fp code detail =
     \<lparr>vi_entity = t, vi_source = source, vi_state = Quarantined, vi_code = code, vi_detail = detail,
      vi_payload_sha = payload, vi_fingerprint = fp, vi_parser_id = None, vi_parser_version = None\<rparr>"

definition approved_item ::
  "(nat list \<Rightarrow> pystr) \<Rightarrow> raw_response \<Rightarrow> pystr \<Rightarrow> payload_parser \<Rightarrow> validation_item" where
  "approved_item sha_bytes r fp parser =
     \<lparr>vi_entity = rr_entity r, vi_source = rr_source r, vi_state = Valid,
      vi_code = VcSchemaApproved,
      vi_detail = Some (lit ''Exact fixture schema and parser route approved.''),
      vi_payload_sha = Some (sha_bytes (rr_body r)), vi_fingerprint = Some fp,
      vi_parser_id = Some (pp_id parser), vi_parser_version = Some (pp_version parser)\<rparr>"

definition ensure_policy_provider :: "schema_policy \<Rightarrow> pystr \<Rightarrow> error + unit" where
  "ensure_policy_provider p name = (if name \<noteq> sy_provider p then Inl ValueError else Inr ())"

text \<open>\<open>except (OSError, UnicodeError, ValueError, ParserRegistryError)\<close>.\<close>

definition validation_catches :: "error \<Rightarrow> bool" where
  "validation_catches e \<longleftrightarrow> e \<in> {OsError, ValueError, ParserRegistryError}"

definition validate_payload ::
  "(pystr \<Rightarrow> pystr) \<Rightarrow> (nat list \<Rightarrow> pystr) \<Rightarrow> (pystr \<Rightarrow> error + json) \<Rightarrow> schema_policy \<Rightarrow>
     parser_registry \<Rightarrow> raw_response \<Rightarrow> error + validation_item" where
  "validate_payload sha sha_bytes loads policy reg r =
     (let payload_sha = Some (sha_bytes (rr_body r)) in
      bindr (json_value loads r) (\<lambda>payload.
      bindr (fingerprint_payload sha payload) (\<lambda>fp.
        case policy_find (rr_entity r) fp policy of
          None \<Rightarrow> Inr (quarantined_item (rr_entity r) (rr_source r) payload_sha (Some fp) VcUnknownSchema
            (Some (lit ''No exact offline policy entry exists for this fingerprint.'')))
        | Some e \<Rightarrow>
            if pe_decision e = Rejected
            then Inr (quarantined_item (rr_entity r) (rr_source r) payload_sha (Some fp)
              VcSchemaRejected (Some (pe_note e)))
            else case (pe_parser_id e, pe_parser_version e) of
              (Some pid, Some version) \<Rightarrow>
                bindr (resolve_parser reg pid version (rr_entity r)) (\<lambda>parser.
                bindr (pp_parse parser r) (\<lambda>parsed.
                  if pn_fingerprint parsed \<noteq> fp then Inl ValueError
                  else Inr (approved_item sha_bytes r fp parser)))
            | _ \<Rightarrow> Inl AssertionError)))"

definition validate_response ::
  "(pystr \<Rightarrow> pystr) \<Rightarrow> (nat list \<Rightarrow> pystr) \<Rightarrow> (pystr \<Rightarrow> error + json) \<Rightarrow> schema_policy \<Rightarrow>
     parser_registry \<Rightarrow> raw_response \<Rightarrow> error + validation_item" where
  "validate_response sha sha_bytes loads policy reg r =
     bindr (ensure_policy_provider policy (rr_provider r)) (\<lambda>_.
       if \<not> (200 \<le> rr_status r \<and> rr_status r < 300)
       then Inr (quarantined_item (rr_entity r) (rr_source r) (Some (sha_bytes (rr_body r))) None
         VcNonSuccessStatus (Some (lit ''HTTP-like status '' @ show_int (rr_status r))))
       else case validate_payload sha sha_bytes loads policy reg r of
         Inr item \<Rightarrow> Inr item
       | Inl e \<Rightarrow>
           if validation_catches e
           then Inr (quarantined_item (rr_entity r) (rr_source r) (Some (sha_bytes (rr_body r))) None
             VcValidationError None)
           else Inl e)"

text \<open>One request of the provider loop; the second handler catches the same exceptions.\<close>

definition validate_one ::
  "(pystr \<Rightarrow> pystr) \<Rightarrow> (nat list \<Rightarrow> pystr) \<Rightarrow> (pystr \<Rightarrow> error + json) \<Rightarrow> schema_policy \<Rightarrow>
     parser_registry \<Rightarrow> acquisition_request \<Rightarrow> error + raw_response \<Rightarrow> error + validation_item" where
  "validate_one sha sha_bytes loads policy reg req fetched =
     (case bindr fetched (validate_response sha sha_bytes loads policy reg) of
        Inr item \<Rightarrow> Inr item
      | Inl e \<Rightarrow>
          if validation_catches e
          then Inr (quarantined_item (ar_entity req) (ar_source req) None None VcValidationError None)
          else Inl e)"

fun validate_all ::
  "(pystr \<Rightarrow> pystr) \<Rightarrow> (nat list \<Rightarrow> pystr) \<Rightarrow> (pystr \<Rightarrow> error + json) \<Rightarrow> schema_policy \<Rightarrow>
     parser_registry \<Rightarrow> ('s, raw_response) provider \<Rightarrow> acquisition_request list \<Rightarrow> 's \<Rightarrow>
     error + validation_item list" where
  "validate_all sha sha_bytes loads policy reg prov [] s = Inr []"
| "validate_all sha sha_bytes loads policy reg prov (req # reqs) s =
     (case prov req s of
        (fetched, s') \<Rightarrow>
          bindr (validate_one sha sha_bytes loads policy reg req fetched) (\<lambda>item.
            bindr (validate_all sha sha_bytes loads policy reg prov reqs s') (\<lambda>items.
              Inr (item # items))))"

definition validate_provider ::
  "(pystr \<Rightarrow> pystr) \<Rightarrow> (nat list \<Rightarrow> pystr) \<Rightarrow> (pystr \<Rightarrow> error + json) \<Rightarrow> schema_policy \<Rightarrow>
     parser_registry \<Rightarrow> pystr \<Rightarrow> ('s, raw_response) provider \<Rightarrow> acquisition_request list \<Rightarrow> instant \<Rightarrow>
     's \<Rightarrow> error + validation_report" where
  "validate_provider sha sha_bytes loads policy reg name prov reqs generated_at s =
     bindr (ensure_policy_provider policy name) (\<lambda>_.
     bindr (validate_all sha sha_bytes loads policy reg prov reqs s) (\<lambda>items.
       let valid = int (length (filter (\<lambda>i. vi_state i = Valid) items))
       in Inr \<lparr>vp_generated_at = generated_at, vp_provider = name,
               vp_policy_version = sy_version policy, vp_valid = valid,
               vp_quarantined = int (length items) - valid, vp_items = items\<rparr>))"

section \<open>Only approved structures pass\<close>

text \<open>The gate as a relation between a response and the route it may take.\<close>

definition approved_route ::
  "(pystr \<Rightarrow> pystr) \<Rightarrow> (pystr \<Rightarrow> error + json) \<Rightarrow> schema_policy \<Rightarrow> parser_registry \<Rightarrow> raw_response \<Rightarrow>
     pystr \<Rightarrow> payload_parser \<Rightarrow> bool" where
  "approved_route sha loads policy reg r fp parser \<longleftrightarrow>
     200 \<le> rr_status r \<and> rr_status r < 300 \<and> rr_provider r = sy_provider policy \<and>
     bindr (json_value loads r) (fingerprint_payload sha) = Inr fp \<and>
     (\<exists>e \<in> set (sy_entries policy). pe_entity_type e = rr_entity r \<and> pe_fingerprint e = fp \<and>
        pe_decision e = Approved \<and> pe_parser_id e = Some (pp_id parser) \<and>
        pe_parser_version e = Some (pp_version parser)) \<and>
     ((pp_id parser, pp_version parser), parser) \<in> set reg \<and> rr_entity r \<in> set (pp_entities parser) \<and>
     (\<exists>env. pp_parse parser r = Inr env \<and> pn_fingerprint env = fp)"

lemma policy_find_Some:
  assumes "policy_valid p"
  shows "policy_find t fp p = Some e \<longleftrightarrow>
    e \<in> set (sy_entries p) \<and> pe_entity_type e = t \<and> pe_fingerprint e = fp"
proof
  assume "policy_find t fp p = Some e"
  then show "e \<in> set (sy_entries p) \<and> pe_entity_type e = t \<and> pe_fingerprint e = fp"
    by (auto simp: policy_find_def find_Some_iff)
next
  assume e: "e \<in> set (sy_entries p) \<and> pe_entity_type e = t \<and> pe_fingerprint e = fp"
  then obtain e' where e': "policy_find t fp p = Some e'"
    by (cases "policy_find t fp p") (auto simp: policy_find_def find_None_iff)
  then have "e' \<in> set (sy_entries p) \<and> pe_entity_type e' = t \<and> pe_fingerprint e' = fp"
    by (auto simp: policy_find_def find_Some_iff)
  moreover have "inj_on (\<lambda>e. (pe_entity_type e, pe_fingerprint e)) (set (sy_entries p))"
    using assms by (simp add: policy_valid_def distinct_map)
  ultimately have "e' = e" using e by (auto dest: inj_onD)
  with e' show "policy_find t fp p = Some e" by simp
qed

lemma policy_approved_routed:
  "policy_valid p \<Longrightarrow> e \<in> set (sy_entries p) \<Longrightarrow> pe_decision e = Approved \<Longrightarrow>
     \<exists>pid v. pe_parser_id e = Some pid \<and> pe_parser_version e = Some v"
  by (cases "pe_parser_id e"; cases "pe_parser_version e")
    (auto simp: policy_valid_def policy_entry_valid_def route_matches_decision_def list_all_iff)

text \<open>A registry that the constructor built: keys are the parsers' own and are distinct.\<close>

definition registry_ok :: "parser_registry \<Rightarrow> bool" where
  "registry_ok reg \<longleftrightarrow>
     distinct (map fst reg) \<and> (\<forall>(k, p) \<in> set reg. k = (pp_id p, pp_version p))"

lemma register_parsers_ok:
  "register_parsers ps reg = Inr reg' \<Longrightarrow> registry_ok reg \<Longrightarrow> registry_ok reg'"
proof (induction ps arbitrary: reg)
  case (Cons p ps)
  then have "(pp_id p, pp_version p) \<notin> fst ` set reg" by (simp split: if_splits)
  moreover from this Cons.prems
  have "register_parsers ps (reg @ [((pp_id p, pp_version p), p)]) = Inr reg'" by simp
  moreover have "registry_ok (reg @ [((pp_id p, pp_version p), p)])"
    using Cons.prems(2) \<open>(pp_id p, pp_version p) \<notin> fst ` set reg\<close> by (auto simp: registry_ok_def)
  ultimately show ?case using Cons.IH by blast
qed simp

lemma resolve_parser_Inr:
  assumes "registry_ok reg"
  shows "resolve_parser reg pid v t = Inr p \<longleftrightarrow>
    ((pid, v), p) \<in> set reg \<and> t \<in> set (pp_entities p)"
proof -
  have "map_of reg (pid, v) = Some q \<longleftrightarrow> ((pid, v), q) \<in> set reg" for q
    using assms by (simp add: registry_ok_def map_of_eq_Some_iff)
  from this [of p] show ?thesis
    by (auto simp: resolve_parser_def split: option.splits)
qed

lemma registry_key: "registry_ok reg \<Longrightarrow> (k, p) \<in> set reg \<Longrightarrow> k = (pp_id p, pp_version p)"
  by (auto simp: registry_ok_def)

lemma item_states [simp]:
  "vi_state (quarantined_item t source payload fp code detail) = Quarantined"
  "vi_state (approved_item sha_bytes r shown parser) = Valid"
  by (simp_all add: quarantined_item_def approved_item_def)

lemma validate_payload_valid:
  assumes policy: "policy_valid policy" and reg: "registry_ok reg"
    and admissible: "200 \<le> rr_status r" "rr_status r < 300" "rr_provider r = sy_provider policy"
  shows "validate_payload sha sha_bytes loads policy reg r = Inr item \<and> vi_state item = Valid \<longleftrightarrow>
    (\<exists>fp q. approved_route sha loads policy reg r fp q \<and> item = approved_item sha_bytes r fp q)"
    (is "?valid \<longleftrightarrow> ?route")
proof
  assume ?valid
  then obtain payload fp where payload: "json_value loads r = Inr payload"
      "fingerprint_payload sha payload = Inr fp"
    unfolding validate_payload_def Let_def bindr_Inr by blast
  obtain e where e: "policy_find (rr_entity r) fp policy = Some e"
    using \<open>?valid\<close> payload
    by (cases "policy_find (rr_entity r) fp policy") (auto simp: validate_payload_def Let_def)
  have yes: "pe_decision e = Approved"
    using \<open>?valid\<close> payload e by (cases "pe_decision e") (auto simp: validate_payload_def Let_def)
  have mem: "e \<in> set (sy_entries policy)" "pe_entity_type e = rr_entity r" "pe_fingerprint e = fp"
    using e by (simp_all add: policy_find_Some [OF policy])
  obtain pid v where route: "pe_parser_id e = Some pid" "pe_parser_version e = Some v"
    using policy_approved_routed [OF policy mem(1) yes] by blast
  obtain q env where q: "resolve_parser reg pid v (rr_entity r) = Inr q" "pp_parse q r = Inr env"
      "pn_fingerprint env = fp" "item = approved_item sha_bytes r fp q"
    using \<open>?valid\<close> payload e yes route
    by (auto simp: validate_payload_def Let_def bindr_Inr split: if_splits)
  have "((pid, v), q) \<in> set reg" "rr_entity r \<in> set (pp_entities q)"
    using q(1) by (simp_all add: resolve_parser_Inr [OF reg])
  moreover from this(1) have "pid = pp_id q" "v = pp_version q" using registry_key [OF reg] by blast+
  ultimately have "approved_route sha loads policy reg r fp q"
    using admissible payload mem yes route q by (auto simp: approved_route_def)
  with q(4) show ?route by blast
next
  assume ?route
  then obtain fp q where route: "approved_route sha loads policy reg r fp q"
    and item: "item = approved_item sha_bytes r fp q" by blast
  then obtain payload e env where facts: "json_value loads r = Inr payload"
      "fingerprint_payload sha payload = Inr fp" "e \<in> set (sy_entries policy)"
      "pe_entity_type e = rr_entity r" "pe_fingerprint e = fp" "pe_decision e = Approved"
      "pe_parser_id e = Some (pp_id q)" "pe_parser_version e = Some (pp_version q)"
      "((pp_id q, pp_version q), q) \<in> set reg" "rr_entity r \<in> set (pp_entities q)"
      "pp_parse q r = Inr env" "pn_fingerprint env = fp"
    by (auto simp: approved_route_def bindr_Inr)
  then have "policy_find (rr_entity r) fp policy = Some e"
    "resolve_parser reg (pp_id q) (pp_version q) (rr_entity r) = Inr q"
    by (simp_all add: policy_find_Some [OF policy] resolve_parser_Inr [OF reg])
  with facts show ?valid by (simp add: validate_payload_def Let_def item)
qed

text \<open>
  C38: the policy gate is exact and fail closed.  For a valid policy and a registry that the
  constructor built, a response validates to a valid item exactly when it is a success response of
  the policy's provider whose payload has the exact fingerprint of an approved entry for its entity
  type, whose parser is registered under the entry's identifier and version, supports the type and
  confirms the fingerprint; the item then names that fingerprint and parser.
\<close>

theorem only_approved_schemas_validate:
  assumes "policy_valid policy" and "register_parsers parsers [] = Inr reg"
  shows "validate_response sha sha_bytes loads policy reg r = Inr item \<and> vi_state item = Valid \<longleftrightarrow>
    (\<exists>fp q. approved_route sha loads policy reg r fp q \<and> item = approved_item sha_bytes r fp q)"
proof -
  have reg: "registry_ok reg"
    by (rule register_parsers_ok [OF assms(2)]) (simp add: registry_ok_def)
  show ?thesis
  proof (cases "200 \<le> rr_status r \<and> rr_status r < 300 \<and> rr_provider r = sy_provider policy")
    case True
    then have "validate_response sha sha_bytes loads policy reg r = Inr item \<and> vi_state item = Valid \<longleftrightarrow>
        validate_payload sha sha_bytes loads policy reg r = Inr item \<and> vi_state item = Valid"
      by (auto simp: validate_response_def ensure_policy_provider_def split: sum.splits if_splits)
    with validate_payload_valid [OF assms(1) reg] True show ?thesis by simp
  next
    case False
    then have "\<not> (validate_response sha sha_bytes loads policy reg r = Inr item \<and> vi_state item = Valid)"
      by (auto simp: validate_response_def ensure_policy_provider_def split: if_splits)
    moreover have "\<not> approved_route sha loads policy reg r fp q" for fp q
      using False by (auto simp: approved_route_def)
    ultimately show ?thesis by blast
  qed
qed

definition sample_policy :: schema_policy where
  "sample_policy =
     \<lparr>sy_version = 1, sy_provider = lit ''fixture'',
      sy_entries = [\<lparr>pe_entity_type = EtWork, pe_fingerprint = replicate 64 97,
        pe_decision = Approved, pe_parser_id = Some (lit ''fixture_object''),
        pe_parser_version = Some (lit ''0.1.0''), pe_note = [65]\<rparr>]\<rparr>"

definition sample_loads :: "pystr \<Rightarrow> error + json" where
  "sample_loads t = Inr (JObj [])"

lemma sample_policy_valid: "policy_valid sample_policy"
  by (simp add: policy_valid_def sample_policy_def policy_entry_valid_def lower_hex64_def
      opt_length_def route_matches_decision_def lit_def list_all_iff)

lemma sample_response_valid:
  "\<exists>reg item. register_parsers [fixture_object_parser (\<lambda>_. replicate 64 97) sample_loads] [] = Inr reg \<and>
     validate_response (\<lambda>_. replicate 64 97) (\<lambda>_. []) sample_loads sample_policy reg sample_response =
       Inr item \<and> vi_state item = Valid"
  by (simp add: validate_response_def ensure_policy_provider_def validate_payload_def json_value_def
      sample_response_def sample_policy_def policy_find_def resolve_parser_def sample_loads_def
      fixture_object_parser_def fingerprint_payload_def utf8_encodable_def is_surrogate_def
      py_lower_def lower_char_def ascii_lower_char_def lit_def Let_def
      json_member_def json_string_def json_escape_def)

theorem only_approved_schemas_validate_witness:
  "\<exists>reg q. register_parsers [fixture_object_parser (\<lambda>_. replicate 64 97) sample_loads] [] = Inr reg \<and>
     approved_route (\<lambda>_. replicate 64 97) sample_loads sample_policy reg sample_response
       (replicate 64 97) q"
proof -
  obtain reg item where reg:
      "register_parsers [fixture_object_parser (\<lambda>_. replicate 64 97) sample_loads] [] = Inr reg"
    and item: "validate_response (\<lambda>_. replicate 64 97) (\<lambda>_. []) sample_loads sample_policy reg
      sample_response = Inr item \<and> vi_state item = Valid"
    using sample_response_valid by blast
  from only_approved_schemas_validate [OF sample_policy_valid reg] item
  obtain fp q where "approved_route (\<lambda>_. replicate 64 97) sample_loads sample_policy reg
      sample_response fp q" by blast
  moreover from this have "fp = replicate 64 97"
    by (auto simp: approved_route_def sample_policy_def)
  ultimately show ?thesis using reg by blast
qed

lemma report_counts:
  "validate_provider sha sha_bytes loads policy reg name prov reqs at_time s = Inr rep \<Longrightarrow>
     vp_valid rep + vp_quarantined rep = int (length reqs) \<and> length (vp_items rep) = length reqs"
proof -
  have len: "validate_all sha sha_bytes loads policy reg prov reqs s = Inr items \<Longrightarrow>
      length items = length reqs" for items
    by (induction reqs arbitrary: s items) (auto simp: bindr_Inr split: prod.splits)
  assume "validate_provider sha sha_bytes loads policy reg name prov reqs at_time s = Inr rep"
  then show ?thesis using len
    by (auto simp: validate_provider_def ensure_policy_provider_def bindr_Inr Let_def split: if_splits)
qed

end
