(* ===== verification/ProxyAuth.thy ===== *)
theory ProxyAuth
  imports Urls Utf8 Floats "HOL-Library.List_Lexorder"
begin

text \<open>
  The trusted-proxy assertion of \<open>src/pixiv_yuri/api/auth.py\<close>: an identity-aware proxy signs
  subject, scopes, method, path and time with a shared secret, and the read API accepts the request
  only under such a signature.  HMAC-SHA256 is the parameter \<open>hmac\<close>; the web framework's request is
  its method, its path and the lookup of a header's values.  A request method is an ASCII token.
\<close>

section \<open>Identities and requests\<close>

record consumer_identity =
  id_subject :: pystr
  id_scopes :: "pystr set"

definition identity_valid :: "consumer_identity \<Rightarrow> bool" where
  "identity_valid i \<longleftrightarrow>
     id_subject i \<noteq> [] \<and> length (id_subject i) \<le> 255 \<and>
     (\<forall>s \<in> id_scopes i. s \<noteq> [] \<and> length s \<le> 100)"

record http_request =
  rq_method :: pystr
  rq_path :: pystr
  rq_getlist :: "pystr \<Rightarrow> pystr list"

datatype assertion_key = ProxyId | Subject | Scopes | IssuedAt | Signature

fun assertion_header :: "assertion_key \<Rightarrow> pystr" where
  "assertion_header ProxyId = lit ''X-Pyuri-Proxy-ID''"
| "assertion_header Subject = lit ''X-Pyuri-Subject''"
| "assertion_header Scopes = lit ''X-Pyuri-Scopes''"
| "assertion_header IssuedAt = lit ''X-Pyuri-Issued-At''"
| "assertion_header Signature = lit ''X-Pyuri-Signature''"

definition assertion_keys :: "assertion_key list" where
  "assertion_keys = [ProxyId, Subject, Scopes, IssuedAt, Signature]"

section \<open>The patterns\<close>

definition is_word_char :: "nat \<Rightarrow> bool" where
  "is_word_char c \<longleftrightarrow> is_alpha c \<or> is_digit c"

definition proxy_id_ok :: "pystr \<Rightarrow> bool" where
  "proxy_id_ok s \<longleftrightarrow> 1 \<le> length s \<and> length s \<le> 64 \<and> list_all (\<lambda>c. is_word_char c \<or> c \<in> {46, 95, 45}) s"

definition subject_ok :: "pystr \<Rightarrow> bool" where
  "subject_ok s \<longleftrightarrow>
     1 \<le> length s \<and> length s \<le> 255 \<and> list_all (\<lambda>c. is_word_char c \<or> c \<in> {46, 95, 58, 64, 47, 45}) s"

definition scope_ok :: "pystr \<Rightarrow> bool" where
  "scope_ok s \<longleftrightarrow>
     1 \<le> length s \<and> length s \<le> 100 \<and> list_all (\<lambda>c. is_word_char c \<or> c \<in> {58, 46, 95, 45}) s"

definition timestamp_ok :: "pystr \<Rightarrow> bool" where
  "timestamp_ok s \<longleftrightarrow> 1 \<le> length s \<and> length s \<le> 12 \<and> list_all is_digit s"

definition signature_ok :: "pystr \<Rightarrow> bool" where
  "signature_ok s \<longleftrightarrow> length s = 64 \<and> list_all (\<lambda>c. is_digit c \<or> (97 \<le> c \<and> c \<le> 102)) s"

section \<open>The signed text\<close>

text \<open>\<open>str.join\<close> by one character, \<open>str.upper\<close> on ASCII, and \<open>str\<close> of an integer.\<close>

fun join_with :: "nat \<Rightarrow> pystr list \<Rightarrow> pystr" where
  "join_with c [] = []"
| "join_with c [p] = p"
| "join_with c (p # ps) = p @ c # join_with c ps"

definition ascii_upper :: "pystr \<Rightarrow> pystr" where
  "ascii_upper s = map (\<lambda>c. if is_lower c then c - 32 else c) s"

fun decimal_nat :: "nat \<Rightarrow> pystr" where
  "decimal_nat n = (if n < 10 then [48 + n] else decimal_nat (n div 10) @ [48 + n mod 10])"

declare decimal_nat.simps [simp del]

definition py_str_int :: "int \<Rightarrow> pystr" where
  "py_str_int i = (if i < 0 then 45 # decimal_nat (nat (- i)) else decimal_nat (nat i))"

definition scope_text :: "pystr set \<Rightarrow> pystr" where
  "scope_text scopes = join_with 32 (sorted_list_of_set scopes)"

definition canonical_assertion ::
  "pystr \<Rightarrow> pystr \<Rightarrow> pystr \<Rightarrow> pystr \<Rightarrow> pystr set \<Rightarrow> int \<Rightarrow> pystr" where
  "canonical_assertion pid method path subject scopes issued =
     join_with 10 [lit ''pyuri-trusted-proxy-v1'', pid, ascii_upper method, path, subject,
       scope_text scopes, py_str_int issued]"

definition build_trusted_proxy_signature ::
  "(nat list \<Rightarrow> nat list \<Rightarrow> pystr) \<Rightarrow> nat list \<Rightarrow> pystr \<Rightarrow> pystr \<Rightarrow> pystr \<Rightarrow> pystr \<Rightarrow> pystr set \<Rightarrow> int \<Rightarrow>
    error + pystr" where
  "build_trusted_proxy_signature hmac secret pid method path subject scopes issued =
     (let canonical = canonical_assertion pid method path subject scopes issued
      in if utf8_encodable canonical then Inr (hmac secret (utf8_encode canonical)) else Inl ValueError)"

definition trusted_proxy_headers ::
  "(nat list \<Rightarrow> nat list \<Rightarrow> pystr) \<Rightarrow> nat list \<Rightarrow> pystr \<Rightarrow> pystr \<Rightarrow> pystr \<Rightarrow> pystr \<Rightarrow> pystr set \<Rightarrow> int \<Rightarrow>
    error + (assertion_key \<Rightarrow> pystr)" where
  "trusted_proxy_headers hmac secret pid method path subject scopes issued =
     bindr (build_trusted_proxy_signature hmac secret pid method path subject scopes issued)
       (\<lambda>sig. Inr (\<lambda>k. case k of ProxyId \<Rightarrow> pid | Subject \<Rightarrow> subject | Scopes \<Rightarrow> scope_text scopes
          | IssuedAt \<Rightarrow> py_str_int issued | Signature \<Rightarrow> sig))"

section \<open>Verification\<close>

record proxy_authorizer =
  pa_proxy_id :: pystr
  pa_secret :: "nat list"
  pa_maximum_age :: int

definition new_proxy_authorizer :: "pystr \<Rightarrow> nat list \<Rightarrow> int \<Rightarrow> error + proxy_authorizer" where
  "new_proxy_authorizer pid secret age =
     (if \<not> proxy_id_ok pid then Inl ValueError
      else if length secret < 32 then Inl ValueError
      else if age < 1 \<or> 300 < age then Inl ValueError
      else Inr \<lparr>pa_proxy_id = pid, pa_secret = secret, pa_maximum_age = age\<rparr>)"

definition single_header :: "http_request \<Rightarrow> assertion_key \<Rightarrow> error + pystr" where
  "single_header rq k =
     (case rq_getlist rq (assertion_header k) of
        [v] \<Rightarrow> if v = [] then Inl ConsumerAuthentication else Inr v
      | _ \<Rightarrow> Inl ConsumerAuthentication)"

definition single_assertion_headers :: "http_request \<Rightarrow> error + (assertion_key \<Rightarrow> pystr)" where
  "single_assertion_headers rq =
     (if list_ex (\<lambda>k. \<not> is_ok (single_header rq k)) assertion_keys then Inl ConsumerAuthentication
      else Inr (\<lambda>k. case single_header rq k of Inr v \<Rightarrow> v | Inl _ \<Rightarrow> []))"

definition parse_scopes :: "pystr \<Rightarrow> error + pystr set" where
  "parse_scopes v =
     (let parts = split_on 32 v
      in if parts = [] \<or> 16 < length parts \<or> list_ex (\<lambda>p. \<not> scope_ok p) parts \<or> \<not> distinct parts \<or>
            parts \<noteq> sort parts
         then Inl ConsumerAuthentication else Inr (set parts))"

definition authorize ::
  "(nat list \<Rightarrow> nat list \<Rightarrow> pystr) \<Rightarrow> proxy_authorizer \<Rightarrow> rat \<Rightarrow> http_request \<Rightarrow>
    error + consumer_identity" where
  "authorize hmac pa clock rq =
     bindr (single_assertion_headers rq) (\<lambda>a.
       if a ProxyId \<noteq> pa_proxy_id pa then Inl ConsumerAuthentication
       else if \<not> subject_ok (a Subject) then Inl ConsumerAuthentication
       else bindr (parse_scopes (a Scopes)) (\<lambda>scopes.
         if \<not> timestamp_ok (a IssuedAt) then Inl ConsumerAuthentication
         else let issued = digits_value (a IssuedAt); age = double (clock - of_int issued)
           in if age < - 5 \<or> of_int (pa_maximum_age pa) < age then Inl ConsumerAuthentication
              else if \<not> signature_ok (a Signature) then Inl ConsumerAuthentication
              else bindr (build_trusted_proxy_signature hmac (pa_secret pa) (pa_proxy_id pa)
                    (rq_method rq) (rq_path rq) (a Subject) scopes issued) (\<lambda>expected.
                if a Signature \<noteq> expected then Inl ConsumerAuthentication
                else let i = \<lparr>id_subject = a Subject, id_scopes = scopes\<rparr>
                  in if identity_valid i then Inr i else Inl ValueError)))"

section \<open>Reading the signed text back\<close>

lemma split_first: "c \<notin> set a \<Longrightarrow> c \<notin> set b \<Longrightarrow> a @ c # x = b @ c # y \<longleftrightarrow> a = b \<and> x = y"
proof (induction a arbitrary: b)
  case Nil then show ?case by (cases b) auto
next
  case (Cons z a) then show ?case by (cases b) auto
qed

lemma split_last: "c \<notin> set x \<Longrightarrow> c \<notin> set y \<Longrightarrow> a @ c # x = b @ c # y \<longleftrightarrow> a = b \<and> x = y"
  using split_first [of c "rev x" "rev y" "rev a" "rev b"]
  by (metis rev_append rev.simps(2) rev_rev_ident append.assoc append_Cons append_Nil set_rev)

lemma split_on_clean: "c \<notin> set p \<Longrightarrow> split_on c p = [p]"
  by (induction p) auto

lemma split_on_append: "c \<notin> set p \<Longrightarrow> split_on c (p @ c # s) = p # split_on c s"
  by (induction p) auto

lemma split_on_join: "ps \<noteq> [] \<Longrightarrow> \<forall>p \<in> set ps. c \<notin> set p \<Longrightarrow> split_on c (join_with c ps) = ps"
  by (induction c ps rule: join_with.induct) (simp_all add: split_on_clean split_on_append)

lemma set_join: "x \<in> set (join_with c ps) \<Longrightarrow> x = c \<or> (\<exists>p \<in> set ps. x \<in> set p)"
  by (induction c ps rule: join_with.induct) auto

lemma digits_snoc: "digits_value (s @ [c]) = 10 * digits_value s + (int c - 48)"
  by (simp add: digits_value_def)

lemma decimal_nat_digits: "list_all is_digit (decimal_nat n) \<and> digits_value (decimal_nat n) = int n \<and> decimal_nat n \<noteq> []"
proof (induction n rule: decimal_nat.induct)
  case (1 n)
  show ?case
  proof (cases "n < 10")
    case True
    then show ?thesis by (subst (1 2 3) decimal_nat.simps) (simp add: is_digit_def digits_value_def)
  next
    case False
    have "decimal_nat n = decimal_nat (n div 10) @ [48 + n mod 10]"
      using False by (subst decimal_nat.simps) simp
    moreover have "is_digit (48 + n mod 10)" by (simp add: is_digit_def)
    ultimately show ?thesis using 1 [OF False] by (simp add: digits_snoc zdiv_int zmod_int)
  qed
qed

lemma py_str_int_digits:
  assumes "0 \<le> i"
  shows "list_all is_digit (py_str_int i)" and "digits_value (py_str_int i) = i"
  using decimal_nat_digits [of "nat i"] assms by (simp_all add: py_str_int_def)

text \<open>The fields of an assertion, as a proxy may sign them.\<close>

definition scopes_ok :: "pystr set \<Rightarrow> bool" where
  "scopes_ok S \<longleftrightarrow> finite S \<and> S \<noteq> {} \<and> card S \<le> 16 \<and> (\<forall>s \<in> S. scope_ok s)"

definition line_ok :: "pystr \<Rightarrow> bool" where
  "line_ok s \<longleftrightarrow> 10 \<notin> set s"

lemma pattern_chars:
  "subject_ok s \<Longrightarrow> line_ok s \<and> list_all (\<lambda>c. c < 128) s"
  "scope_ok s \<Longrightarrow> line_ok s \<and> list_all (\<lambda>c. c < 128) s \<and> 32 \<notin> set s"
  "proxy_id_ok s \<Longrightarrow> line_ok s \<and> list_all (\<lambda>c. c < 128) s"
  by (fastforce simp: subject_ok_def scope_ok_def proxy_id_ok_def line_ok_def is_word_char_def char_class_defs
      list_all_iff split: if_splits)+

lemma scope_text_chars:
  assumes "scopes_ok S"
  shows "line_ok (scope_text S)" and "list_all (\<lambda>c. c < 128) (scope_text S)"
    and "split_on 32 (scope_text S) = sorted_list_of_set S"
proof -
  have fin: "finite S" and ne: "sorted_list_of_set S \<noteq> []" and each: "\<forall>s \<in> S. scope_ok s"
    using assms by (auto simp: scopes_ok_def)
  have char: "c \<noteq> 10 \<and> c < 128" if "c \<in> set (scope_text S)" for c
    using set_join [of c 32 "sorted_list_of_set S"] that fin each pattern_chars(2)
    by (fastforce simp: scope_text_def line_ok_def list_all_iff)
  show "line_ok (scope_text S)" using char by (auto simp: line_ok_def)
  show "list_all (\<lambda>c. c < 128) (scope_text S)" using char by (simp add: list_all_iff)
  show "split_on 32 (scope_text S) = sorted_list_of_set S"
    unfolding scope_text_def using ne fin each pattern_chars(2) by (intro split_on_join) auto
qed

lemma read_back_tail:
  assumes "p @ 10 # s @ 10 # sc @ 10 # ts = p' @ 10 # s' @ 10 # sc' @ (10::nat) # ts'"
    and "line_ok s" "line_ok sc" "line_ok ts" "line_ok s'" "line_ok sc'" "line_ok ts'"
  shows "p = p' \<and> s = s' \<and> sc = sc' \<and> ts = ts'"
proof -
  have "(p @ 10 # s @ 10 # sc) @ 10 # ts = (p' @ 10 # s' @ 10 # sc') @ 10 # ts'" using assms(1) by simp
  then have 1: "p @ 10 # s @ 10 # sc = p' @ 10 # s' @ 10 # sc' \<and> ts = ts'"
    by (rule split_last [THEN iffD1, rotated 2]) (use assms(4,7) in \<open>simp_all add: line_ok_def\<close>)
  then have "(p @ 10 # s) @ 10 # sc = (p' @ 10 # s') @ 10 # sc'" by simp
  then have 2: "p @ 10 # s = p' @ 10 # s' \<and> sc = sc'"
    by (rule split_last [THEN iffD1, rotated 2]) (use assms(3,6) in \<open>simp_all add: line_ok_def\<close>)
  have "p = p' \<and> s = s'"
    by (rule split_last [THEN iffD1, rotated 2, OF conjunct1 [OF 2]])
      (use assms(2,5) in \<open>simp_all add: line_ok_def\<close>)
  with 1 2 show ?thesis by blast
qed

lemma canonical_inject:
  assumes eq: "canonical_assertion pid m p s S i = canonical_assertion pid m' p' s' S' i'"
    and "line_ok m" "line_ok m'" "line_ok s" "line_ok s'" "scopes_ok S" "scopes_ok S'" "0 \<le> i" "0 \<le> i'"
  shows "ascii_upper m = ascii_upper m' \<and> p = p' \<and> s = s' \<and> S = S' \<and> i = i'"
proof -
  have up: "10 \<notin> set (ascii_upper m)" if "line_ok m" for m
    using that by (auto simp: ascii_upper_def line_ok_def is_lower_def)
  have ts: "line_ok (py_str_int i)" if "0 \<le> i" for i
    using py_str_int_digits(1) [OF that] by (auto simp: line_ok_def list_all_iff is_digit_def)
  have "ascii_upper m @ 10 # p @ 10 # s @ 10 # scope_text S @ 10 # py_str_int i =
      ascii_upper m' @ 10 # p' @ 10 # s' @ 10 # scope_text S' @ 10 # py_str_int i'"
    using eq by (simp add: canonical_assertion_def)
  then have "ascii_upper m = ascii_upper m' \<and> p @ 10 # s @ 10 # scope_text S @ 10 # py_str_int i =
      p' @ 10 # s' @ 10 # scope_text S' @ 10 # py_str_int i'"
    by (rule split_first [THEN iffD1, OF up [OF assms(2)] up [OF assms(3)]])
  then have m: "ascii_upper m = ascii_upper m'"
    and rest: "p @ 10 # s @ 10 # scope_text S @ 10 # py_str_int i =
      p' @ 10 # s' @ 10 # scope_text S' @ 10 # py_str_int i'" by blast+
  from read_back_tail [OF rest assms(4) scope_text_chars(1) [OF assms(6)] ts [OF assms(8)]
      assms(5) scope_text_chars(1) [OF assms(7)] ts [OF assms(9)]]
  have eqs: "p = p'" "s = s'" "scope_text S = scope_text S'" "py_str_int i = py_str_int i'" by simp_all
  have "sorted_list_of_set S = sorted_list_of_set S'"
    using scope_text_chars(3) [OF assms(6)] scope_text_chars(3) [OF assms(7)] eqs(3) by simp
  then have "S = S'" using assms(6,7) by (metis scopes_ok_def set_sorted_list_of_set)
  moreover have "i = i'" using py_str_int_digits(2) assms(8,9) eqs(4) by metis
  ultimately show ?thesis using m eqs by simp
qed

section \<open>What an accepted assertion says\<close>

lemma digits_nonneg: "list_all is_digit s \<Longrightarrow> 0 \<le> digits_value s"
  by (induction s rule: rev_induct) (auto simp: digits_snoc is_digit_def, simp add: digits_value_def)

lemma decimal_nat_length: "n < 10 ^ Suc k \<Longrightarrow> length (decimal_nat n) \<le> Suc k"
proof (induction k arbitrary: n)
  case 0
  then show ?case by (subst decimal_nat.simps) simp
next
  case (Suc k)
  then have "length (decimal_nat (n div 10)) \<le> Suc k" by (intro Suc.IH) (simp add: div_less_iff_less_mult)
  then show ?case by (subst decimal_nat.simps) simp
qed

lemma timestamp_of_int: "0 \<le> i \<Longrightarrow> i < 10 ^ 12 \<Longrightarrow> timestamp_ok (py_str_int i)"
  using decimal_nat_length [of "nat i" 11] decimal_nat_digits [of "nat i"]
  by (auto simp: timestamp_ok_def py_str_int_def Suc_le_eq nat_less_iff)

lemma parse_scopes_ok: "parse_scopes v = Inr S \<Longrightarrow> scopes_ok S"
  using card_length [of "split_on 32 v"]
  by (auto simp: parse_scopes_def scopes_ok_def Let_def list_ex_iff split: if_splits)

lemma parse_scope_text: "scopes_ok S \<Longrightarrow> parse_scopes (scope_text S) = Inr S"
  using scope_text_chars(3) [of S]
  by (auto simp: parse_scopes_def scopes_ok_def Let_def list_ex_iff sorted_sort_id)

lemma scope_text_not_Nil: "scopes_ok S \<Longrightarrow> scope_text S \<noteq> []"
proof
  assume S: "scopes_ok S" and "scope_text S = []"
  then have "sorted_list_of_set S = [[]]" using scope_text_chars(3) [OF S] by simp
  then have "[] \<in> S" using S by (metis list.set_intros(1) scopes_ok_def set_sorted_list_of_set)
  with S show False by (auto simp: scopes_ok_def scope_ok_def)
qed

definition in_time :: "proxy_authorizer \<Rightarrow> rat \<Rightarrow> int \<Rightarrow> bool" where
  "in_time pa clock issued \<longleftrightarrow>
     - 5 \<le> double (clock - of_int issued) \<and> double (clock - of_int issued) \<le> of_int (pa_maximum_age pa)"

lemma authorize_Inr:
  assumes "authorize hmac pa clock rq = Inr i"
  obtains issued where "scopes_ok (id_scopes i)" and "subject_ok (id_subject i)" and "0 \<le> issued"
    and "in_time pa clock issued"
    and "\<And>v. rq_getlist rq (assertion_header Signature) = [v] \<Longrightarrow>
      build_trusted_proxy_signature hmac (pa_secret pa) (pa_proxy_id pa) (rq_method rq) (rq_path rq)
        (id_subject i) (id_scopes i) issued = Inr v"
proof -
  obtain a S expected where a: "single_assertion_headers rq = Inr a" and S: "parse_scopes (a Scopes) = Inr S"
    and sub: "subject_ok (a Subject)" and ts: "timestamp_ok (a IssuedAt)"
    and time: "in_time pa clock (digits_value (a IssuedAt))"
    and sig: "build_trusted_proxy_signature hmac (pa_secret pa) (pa_proxy_id pa) (rq_method rq) (rq_path rq)
        (a Subject) S (digits_value (a IssuedAt)) = Inr expected" "a Signature = expected"
    and i: "i = \<lparr>id_subject = a Subject, id_scopes = S\<rparr>"
    using assms by (auto simp: authorize_def bindr_Inr Let_def in_time_def not_less split: if_splits)
  have "0 \<le> digits_value (a IssuedAt)" using ts by (simp add: timestamp_ok_def digits_nonneg)
  moreover have "a Signature = v" if "rq_getlist rq (assertion_header Signature) = [v]" for v
    using a that by (auto simp: single_assertion_headers_def single_header_def assertion_keys_def split: if_splits)
  ultimately show thesis using parse_scopes_ok [OF S] sub time sig by (intro that) (auto simp: i)
qed

lemma ascii_is_text: "list_all (\<lambda>c. c < 128) s \<Longrightarrow> is_text s"
  by (auto simp: is_text_def list_all_iff)

lemma canonical_is_text:
  assumes "proxy_id_ok pid" "is_text m" "is_text p" "subject_ok s" "scopes_ok S" "0 \<le> i"
  shows "is_text (canonical_assertion pid m p s S i)"
proof -
  have "is_text (py_str_int i)"
    using py_str_int_digits(1) [OF assms(6)] by (auto simp: is_text_def list_all_iff is_digit_def)
  moreover have "is_text (ascii_upper m)" using assms(2) by (auto simp: is_text_def ascii_upper_def list_all_iff)
  moreover have "is_text pid" "is_text s" "is_text (scope_text S)"
    using assms pattern_chars(1,3) scope_text_chars(2) by (blast intro: ascii_is_text)+
  ultimately show ?thesis using assms(3) by (simp add: canonical_assertion_def)
qed

lemma signature_binds:
  assumes "build_trusted_proxy_signature hmac secret pid m' p' s' S' i' = Inr sig"
    and "\<forall>x. hmac secret x = sig \<longrightarrow> x = utf8_encode (canonical_assertion pid m p s S i)"
    and "utf8_encodable (canonical_assertion pid m p s S i)" and "proxy_id_ok pid"
    and "line_ok m" "is_text m" "is_text p" "subject_ok s" "scopes_ok S" "0 \<le> i"
    and "line_ok m'" "is_text m'" "is_text p'" "subject_ok s'" "scopes_ok S'" "0 \<le> i'"
  shows "ascii_upper m = ascii_upper m' \<and> p = p' \<and> s = s' \<and> S = S' \<and> i = i'"
proof (rule canonical_inject)
  show "line_ok s" "line_ok s'" using assms(8,14) pattern_chars(1) by blast+
  have enc: "utf8_encodable (canonical_assertion pid m' p' s' S' i')"
    and "hmac secret (utf8_encode (canonical_assertion pid m' p' s' S' i')) = sig"
    using assms(1) by (auto simp: build_trusted_proxy_signature_def Let_def split: if_splits)
  then have eq: "utf8_encode (canonical_assertion pid m p s S i) =
      utf8_encode (canonical_assertion pid m' p' s' S' i')"
    using assms(2) by metis
  have "is_text (canonical_assertion pid m p s S i)" "is_text (canonical_assertion pid m' p' s' S' i')"
    by (rule canonical_is_text; fact assms)+
  then show "canonical_assertion pid m p s S i = canonical_assertion pid m' p' s' S' i'"
    using assms(3) enc eq by (rule utf8_encode_inject)
qed (fact assms)+

lemma build_is_signed:
  assumes "build_trusted_proxy_signature hmac secret pid m p s S i = Inr sig" and "ascii_upper m' = ascii_upper m"
  shows "build_trusted_proxy_signature hmac secret pid m' p s S i = Inr sig"
  using assms by (simp add: build_trusted_proxy_signature_def canonical_assertion_def)

lemma complete_assertion_accepted:
  assumes "\<And>k. rq_getlist rq (assertion_header k) = [h k]"
    and "h ProxyId = pa_proxy_id pa" "proxy_id_ok (pa_proxy_id pa)" "h Subject = s" "subject_ok s"
    and "h Scopes = scope_text S" "scopes_ok S" "h IssuedAt = py_str_int i" "0 \<le> i" "i < 10 ^ 12"
    and "signature_ok (h Signature)" "in_time pa clock i"
    and "build_trusted_proxy_signature hmac (pa_secret pa) (pa_proxy_id pa) (rq_method rq) (rq_path rq) s S i =
      Inr (h Signature)"
  shows "authorize hmac pa clock rq = Inr \<lparr>id_subject = s, id_scopes = S\<rparr>"
proof -
  have "h k \<noteq> []" for k
    using assms scope_text_not_Nil decimal_nat_digits [of "nat i"]
    by (cases k) (auto simp: proxy_id_ok_def subject_ok_def signature_ok_def py_str_int_def)
  then have single: "single_header rq k = Inr (h k)" for k by (simp add: single_header_def assms(1))
  have "identity_valid \<lparr>id_subject = s, id_scopes = S\<rparr>"
    using assms(5,7) by (auto simp: identity_valid_def subject_ok_def scopes_ok_def scope_ok_def)
  moreover have "single_assertion_headers rq = Inr h"
    by (simp add: single_assertion_headers_def single list_ex_iff)
  ultimately show ?thesis
    using timestamp_of_int [OF assms(9,10)] py_str_int_digits(2) [OF assms(9)]
      parse_scope_text [OF assms(7)] assms(2,4,5,6,8,11,12,13)
    by (simp add: authorize_def Let_def in_time_def not_less)
qed

text \<open>
  C29: an assertion is bound to its request.  When a request carries the signature the proxy made for
  a method, a path, a subject, scopes and a time, and no other text has that MAC, then the request is
  accepted only if it is that method and path, within the time limits, and then it is accepted as
  exactly that subject with exactly those scopes, whatever its other headers say; and the complete
  assertion of the proxy is accepted.
\<close>

theorem trusted_proxy_assertion_is_bound:
  assumes "new_proxy_authorizer pid secret age = Inr pa"
    and "trusted_proxy_headers hmac secret pid method path subject scopes issued = Inr hdrs"
    and "line_ok method" "is_text method" "is_text path" "subject_ok subject" "scopes_ok scopes"
    and "0 \<le> issued" "issued < 10 ^ 12"
    and "line_ok (rq_method rq)" "is_text (rq_method rq)" "is_text (rq_path rq)"
    and "rq_getlist rq (assertion_header Signature) = [hdrs Signature]" and "signature_ok (hdrs Signature)"
    and "\<forall>m. hmac secret m = hdrs Signature \<longrightarrow>
      m = utf8_encode (canonical_assertion pid method path subject scopes issued)"
  shows "(authorize hmac pa clock rq = Inr i \<longrightarrow>
      i = \<lparr>id_subject = subject, id_scopes = scopes\<rparr> \<and> rq_path rq = path \<and>
      ascii_upper (rq_method rq) = ascii_upper method \<and> in_time pa clock issued) \<and>
    (rq_path rq = path \<and> ascii_upper (rq_method rq) = ascii_upper method \<and> in_time pa clock issued \<and>
      (\<forall>k. rq_getlist rq (assertion_header k) = [hdrs k]) \<longrightarrow>
      authorize hmac pa clock rq = Inr \<lparr>id_subject = subject, id_scopes = scopes\<rparr>)"
proof -
  have pa: "pa_proxy_id pa = pid" "pa_secret pa = secret" "proxy_id_ok pid"
    using assms(1) by (auto simp: new_proxy_authorizer_def split: if_splits)
  have enc: "utf8_encodable (canonical_assertion pid method path subject scopes issued)"
    and h: "hdrs ProxyId = pid" "hdrs Subject = subject" "hdrs Scopes = scope_text scopes"
      "hdrs IssuedAt = py_str_int issued"
      "hdrs Signature = hmac secret (utf8_encode (canonical_assertion pid method path subject scopes issued))"
    using assms(2)
    by (auto simp: trusted_proxy_headers_def build_trusted_proxy_signature_def bindr_Inr Let_def split: if_splits)
  have built: "build_trusted_proxy_signature hmac secret pid method path subject scopes issued = Inr (hdrs Signature)"
    using enc h(5) by (simp add: build_trusted_proxy_signature_def)
  show ?thesis
  proof (intro conjI impI; (elim conjE)?)
    assume ok: "authorize hmac pa clock rq = Inr i"
    obtain issued' where i: "scopes_ok (id_scopes i)" "subject_ok (id_subject i)" "0 \<le> issued'"
      and time: "in_time pa clock issued'"
      and sig: "build_trusted_proxy_signature hmac secret pid (rq_method rq) (rq_path rq)
          (id_subject i) (id_scopes i) issued' = Inr (hdrs Signature)"
      using authorize_Inr [OF ok] assms(13) unfolding pa(1,2) by metis
    have eq: "ascii_upper method = ascii_upper (rq_method rq) \<and> path = rq_path rq \<and> subject = id_subject i \<and>
        scopes = id_scopes i \<and> issued = issued'"
      by (rule signature_binds [OF sig assms(15) enc pa(3)]) (use assms(3-12) i in simp_all)
    show "i = \<lparr>id_subject = subject, id_scopes = scopes\<rparr>" using eq by simp
    show "rq_path rq = path" "ascii_upper (rq_method rq) = ascii_upper method" "in_time pa clock issued"
      using eq time by simp_all
  next
    assume rq: "rq_path rq = path" "ascii_upper (rq_method rq) = ascii_upper method" "in_time pa clock issued"
      "\<forall>k. rq_getlist rq (assertion_header k) = [hdrs k]"
    show "authorize hmac pa clock rq = Inr \<lparr>id_subject = subject, id_scopes = scopes\<rparr>"
      by (rule complete_assertion_accepted [of rq hdrs])
        (use assms(6-9,14) rq h(1-4) pa build_is_signed [OF built rq(2)] in simp_all)
  qed
qed

definition sample_pa :: proxy_authorizer where
  "sample_pa = \<lparr>pa_proxy_id = [112], pa_secret = replicate 32 0, pa_maximum_age = 30\<rparr>"

definition sample_signed :: "nat list" where
  "sample_signed = utf8_encode (canonical_assertion [112] [71] [47] [115] {[97]} 100)"

definition sample_mac :: "nat list \<Rightarrow> nat list \<Rightarrow> pystr" where
  "sample_mac k m = (if m = sample_signed then replicate 64 97 else replicate 64 98)"

definition sample_headers :: "assertion_key \<Rightarrow> pystr" where
  "sample_headers k = (case k of ProxyId \<Rightarrow> [112] | Subject \<Rightarrow> [115] | Scopes \<Rightarrow> scope_text {[97]}
     | IssuedAt \<Rightarrow> py_str_int 100 | Signature \<Rightarrow> replicate 64 97)"

definition sample_request :: http_request where
  "sample_request = \<lparr>rq_method = [71], rq_path = [47], rq_getlist =
     (\<lambda>h. case find (\<lambda>k. assertion_header k = h) assertion_keys of
        Some k \<Rightarrow> [sample_headers k] | None \<Rightarrow> [])\<rparr>"

lemma sample_getlist: "rq_getlist sample_request (assertion_header k) = [sample_headers k]"
  by (cases k) (simp_all add: sample_request_def assertion_keys_def lit_def)

lemma sample_built:
  "trusted_proxy_headers sample_mac (replicate 32 0) [112] [71] [47] [115] {[97]} 100 = Inr sample_headers"
proof -
  have "utf8_encodable (canonical_assertion [112] [71] [47] [115] {[97]} 100)"
    using decimal_nat_digits [of 100]
    by (auto simp: canonical_assertion_def utf8_encodable_def is_surrogate_def ascii_upper_def is_lower_def
        scope_text_def py_str_int_def lit_def list_all_iff is_digit_def)
  then show ?thesis
    by (auto simp: trusted_proxy_headers_def build_trusted_proxy_signature_def sample_mac_def sample_signed_def
        sample_headers_def fun_eq_iff split: assertion_key.splits)
qed

lemma trusted_proxy_assertion_is_bound_witness:
  "authorize sample_mac sample_pa 110 sample_request = Inr \<lparr>id_subject = [115], id_scopes = {[97]}\<rparr>"
proof -
  have time: "in_time sample_pa 110 100"
    using double_of_int [of 10] by (simp add: in_time_def sample_pa_def)
  have new: "new_proxy_authorizer [112] (replicate 32 0) 30 = Inr sample_pa"
    by (simp add: new_proxy_authorizer_def sample_pa_def proxy_id_ok_def is_word_char_def char_class_defs)
  have "replicate 64 97 \<noteq> replicate 64 (98 :: nat)" by (simp add: replicate_eq_replicate)
  then have mac: "\<forall>m. sample_mac (replicate 32 0) m = sample_headers Signature \<longrightarrow>
      m = utf8_encode (canonical_assertion [112] [71] [47] [115] {[97]} 100)"
    by (auto simp: sample_mac_def sample_headers_def sample_signed_def)
  have fields: "line_ok [71]" "is_text [71]" "is_text [47]" "subject_ok [115]" "scopes_ok {[97]}"
    "0 \<le> (100 :: int)" "100 < (10 :: int) ^ 12" "signature_ok (sample_headers Signature)"
    by (simp_all add: line_ok_def is_text_def subject_ok_def scopes_ok_def scope_ok_def signature_ok_def
        sample_headers_def is_word_char_def char_class_defs list_all_iff)
  have rq: "rq_method sample_request = [71]" "rq_path sample_request = [47]" by (simp_all add: sample_request_def)
  note bound = trusted_proxy_assertion_is_bound [OF new sample_built fields(1-7), of sample_request,
      unfolded rq, OF fields(1-3) sample_getlist fields(8) mac]
  show ?thesis using conjunct2 [OF bound, of 110] time sample_getlist by blast
qed

end
