(* ===== verification/ConsumerLimits.thy ===== *)
theory ConsumerLimits
  imports Floats Store
begin

text \<open>
  Request limits per API consumer: the process-local limiter of
  \<open>src/pixiv_yuri/api/operations.py\<close>, the database limiter and the access audit of
  \<open>src/pixiv_yuri/api/postgres_operations.py\<close> over the tables of
  \<open>src/pixiv_yuri/api/persistence_models.py\<close>.  Clock readings of the first are floats, of the
  second instants.  A dictionary is an association list in insertion order.
\<close>

section \<open>Windows\<close>

text \<open>
  The contract of both limiters.  \<open>inside T x\<close> says that a request at \<open>x\<close> counts in the window of a
  request at \<open>T\<close>; a request that counts later counts for every request in between.
\<close>

definition in_window_count :: "('t \<Rightarrow> 't \<Rightarrow> bool) \<Rightarrow> 't \<Rightarrow> 't list \<Rightarrow> nat" where
  "in_window_count inside T xs = length (filter (inside T) xs)"

definition capped :: "('t::linorder \<Rightarrow> 't \<Rightarrow> bool) \<Rightarrow> nat \<Rightarrow> 't list \<Rightarrow> bool" where
  "capped inside m xs \<longleftrightarrow> (\<forall>T. length (filter (\<lambda>x. x \<le> T \<and> inside T x) xs) \<le> m)"

lemma filter_length_mono:
  "(\<And>x. x \<in> set xs \<Longrightarrow> P x \<Longrightarrow> Q x) \<Longrightarrow> length (filter P xs) \<le> length (filter Q xs)"
  by (induction xs) (auto simp: le_Suc_eq)

locale request_window =
  fixes inside :: "'t::linorder \<Rightarrow> 't \<Rightarrow> bool"
  assumes nested: "x \<le> y \<Longrightarrow> y \<le> T \<Longrightarrow> inside T x \<Longrightarrow> inside y x"
begin

lemma capped_Nil: "0 \<le> m \<Longrightarrow> capped inside m []"
  by (simp add: capped_def)

lemma capped_snoc:
  assumes "capped inside m xs" and "sorted (xs @ [y])" and "in_window_count inside y xs < m"
  shows "capped inside m (xs @ [y])"
  unfolding capped_def
proof
  fix T
  show "length (filter (\<lambda>x. x \<le> T \<and> inside T x) (xs @ [y])) \<le> m"
  proof (cases "y \<le> T \<and> inside T y")
    case True
    have "x \<le> T \<and> inside T x \<longrightarrow> inside y x" if "x \<in> set xs" for x
      using nested [of x y T] that assms(2) True by (auto simp: sorted_append)
    then have "length (filter (\<lambda>x. x \<le> T \<and> inside T x) xs) \<le> in_window_count inside y xs"
      unfolding in_window_count_def by (intro filter_length_mono) auto
    with assms(3) show ?thesis by simp
  next
    case False
    with assms(1) show ?thesis by (auto simp: capped_def)
  qed
qed

end

section \<open>The process-local limiter\<close>

record limiter_config =
  lm_max_requests :: int
  lm_window_seconds :: int
  lm_max_consumers :: int

definition new_limiter :: "int \<Rightarrow> int \<Rightarrow> int \<Rightarrow> int \<Rightarrow> error + limiter_config" where
  "new_limiter consumers_cap max_requests window_seconds max_consumers =
     (if max_requests < 1 \<or> 100000 < max_requests then Inl ValueError
      else if window_seconds < 1 \<or> 86400 < window_seconds then Inl ValueError
      else if max_consumers < 1 \<or> consumers_cap < max_consumers then Inl ValueError
      else Inr \<lparr>lm_max_requests = max_requests, lm_window_seconds = window_seconds,
               lm_max_consumers = max_consumers\<rparr>)"

type_synonym buckets = "(pystr \<times> rat list) list"

record limit_decision =
  ld_allowed :: bool
  ld_retry_after :: int

definition expire :: "rat \<Rightarrow> rat list \<Rightarrow> rat list" where
  "expire cutoff bucket = dropWhile (\<lambda>x. x \<le> cutoff) bucket"

definition prune_empty :: "rat \<Rightarrow> buckets \<Rightarrow> buckets" where
  "prune_empty cutoff bs =
     filter (\<lambda>(k, b). b \<noteq> []) (map (\<lambda>(k, b). (k, expire cutoff b)) bs)"

definition window_cutoff :: "limiter_config \<Rightarrow> rat \<Rightarrow> rat" where
  "window_cutoff cfg now = double (now - of_int (lm_window_seconds cfg))"

definition put_bucket :: "pystr \<Rightarrow> rat list \<Rightarrow> buckets \<Rightarrow> buckets" where
  "put_bucket key b bs = map (\<lambda>(k, b'). (k, if k = key then b else b')) bs"

text \<open>The admission of a request to its bucket, which the dictionary holds by reference.\<close>

definition admit :: "limiter_config \<Rightarrow> pystr \<Rightarrow> rat \<Rightarrow> rat list \<Rightarrow> buckets \<Rightarrow>
    (error + limit_decision) \<times> buckets" where
  "admit cfg key now bucket bs =
     (let b = expire (window_cutoff cfg now) bucket
      in if lm_max_requests cfg \<le> int (length b)
         then (Inr \<lparr>ld_allowed = False, ld_retry_after =
                 max 1 \<lceil>double (double (hd b + of_int (lm_window_seconds cfg)) - now)\<rceil>\<rparr>,
               put_bucket key b bs)
         else (Inr \<lparr>ld_allowed = True, ld_retry_after = 0\<rparr>, put_bucket key (b @ [now]) bs))"

definition limiter_check ::
  "limiter_config \<Rightarrow> pystr \<Rightarrow> rat \<Rightarrow> buckets \<Rightarrow> (error + limit_decision) \<times> buckets" where
  "limiter_check cfg key now bs =
     (if length key \<noteq> 64 then (Inl ValueError, bs)
      else case map_of bs key of
        Some bucket \<Rightarrow> admit cfg key now bucket bs
      | None \<Rightarrow>
          let pruned = prune_empty (window_cutoff cfg now) bs
          in if lm_max_consumers cfg \<le> int (length pruned) then (Inl RateLimitCapacity, pruned)
             else admit cfg key now [] (pruned @ [(key, [])]))"

text \<open>A run of checks, with the history of the admitted ones.\<close>

type_synonym history = "(pystr \<times> rat) list"

definition limiter_step ::
  "limiter_config \<Rightarrow> history \<times> buckets \<Rightarrow> pystr \<times> rat \<Rightarrow> history \<times> buckets" where
  "limiter_step cfg s e =
     (case limiter_check cfg (fst e) (snd e) (snd s) of
        (Inr d, bs) \<Rightarrow> (if ld_allowed d then fst s @ [e] else fst s, bs)
      | (Inl _, bs) \<Rightarrow> (fst s, bs))"

definition limiter_run :: "limiter_config \<Rightarrow> (pystr \<times> rat) list \<Rightarrow> history \<times> buckets" where
  "limiter_run cfg es = foldl (limiter_step cfg) ([], []) es"

definition admitted_times :: "pystr \<Rightarrow> (pystr \<times> 't) list \<Rightarrow> 't list" where
  "admitted_times key h = map snd (filter (\<lambda>e. fst e = key) h)"

section \<open>The buckets hold the window\<close>

definition bucket_of :: "pystr \<Rightarrow> buckets \<Rightarrow> rat list" where
  "bucket_of key bs = (case map_of bs key of None \<Rightarrow> [] | Some b \<Rightarrow> b)"

text \<open>
  \<open>c\<close> is the cutoff of the last check: what a bucket lacks of the history is at or before it.
\<close>

definition holds_window :: "rat \<Rightarrow> rat list \<Rightarrow> rat list \<Rightarrow> bool" where
  "holds_window c h b \<longleftrightarrow> (\<exists>old. h = old @ b \<and> (\<forall>x \<in> set old. x \<le> c))"

definition buckets_ok :: "rat \<Rightarrow> history \<times> buckets \<Rightarrow> bool" where
  "buckets_ok c s \<longleftrightarrow>
     distinct (map fst (snd s)) \<and>
     (\<forall>key. holds_window c (admitted_times key (fst s)) (bucket_of key (snd s)))"

lemma expire_sorted: "sorted b \<Longrightarrow> expire c b = filter (\<lambda>x. c < x) b"
proof (induction b)
  case (Cons x b)
  show ?case
  proof (cases "x \<le> c")
    case False
    then have "\<forall>y \<in> set b. c < y" using Cons.prems by fastforce
    then have "filter (\<lambda>x. c < x) b = b" by simp
    with False show ?thesis by (simp add: expire_def)
  qed (use Cons in \<open>simp add: expire_def not_less\<close>)
qed (simp add: expire_def)

lemma holds_window_mono: "holds_window c h b \<Longrightarrow> c \<le> c' \<Longrightarrow> holds_window c' h b"
  by (fastforce simp: holds_window_def)

lemma holds_window_snoc: "holds_window c h b \<Longrightarrow> holds_window c (h @ [x]) (b @ [x])"
  by (auto simp: holds_window_def)

lemma expire_window:
  assumes "holds_window c h b" and "sorted h"
  shows "expire c b = filter (\<lambda>x. c < x) h"
proof -
  obtain old where old: "h = old @ b" "\<forall>x \<in> set old. x \<le> c" using assms(1) by (auto simp: holds_window_def)
  have "filter (\<lambda>x. c < x) old = []" using old(2) by (fastforce simp: filter_empty_conv)
  with old(1) assms(2) show ?thesis by (simp add: expire_sorted sorted_append)
qed

lemma expire_holds: "holds_window c h b \<Longrightarrow> holds_window c h (expire c b)"
proof -
  assume "holds_window c h b"
  then obtain old where old: "h = old @ b" "\<forall>x \<in> set old. x \<le> c" by (auto simp: holds_window_def)
  have "h = (old @ takeWhile (\<lambda>x. x \<le> c) b) @ expire c b" by (simp add: old expire_def)
  moreover have "\<forall>x \<in> set (old @ takeWhile (\<lambda>x. x \<le> c) b). x \<le> c"
    using old(2) by (fastforce dest: set_takeWhileD)
  ultimately show ?thesis unfolding holds_window_def by blast
qed

lemma prune_keys_subset: "fst ` set (prune_empty c bs) \<subseteq> fst ` set bs"
  by (force simp: prune_empty_def)

lemma prune_keys: "distinct (map fst bs) \<Longrightarrow> distinct (map fst (prune_empty c bs))"
proof (induction bs)
  case (Cons p bs)
  have "fst p \<notin> fst ` set (prune_empty c bs)"
    using Cons.prems prune_keys_subset [of c bs] by auto
  with Cons show ?case by (cases p) (auto simp: prune_empty_def)
qed (simp add: prune_empty_def)

lemma bucket_absent: "key \<notin> fst ` set bs \<Longrightarrow> bucket_of key bs = []"
  by (simp add: bucket_of_def map_of_eq_None_iff [THEN iffD2])

lemma bucket_prune:
  "distinct (map fst bs) \<Longrightarrow> bucket_of key (prune_empty c bs) = expire c (bucket_of key bs)"
proof (induction bs)
  case (Cons p bs)
  obtain k b where p: "p = (k, b)" by fastforce
  have k: "k \<notin> fst ` set bs" using Cons.prems p by simp
  then have "bucket_of k (prune_empty c bs) = []"
    using prune_keys_subset [of c bs] by (intro bucket_absent) blast
  with Cons p bucket_absent [OF k] show ?case
    by (cases "k = key") (auto simp: bucket_of_def prune_empty_def)
qed (simp add: bucket_of_def prune_empty_def expire_def)

lemma map_of_put:
  "map_of (put_bucket key b bs) k = (if k = key then map_option (\<lambda>_. b) (map_of bs k) else map_of bs k)"
  by (induction bs) (auto simp: put_bucket_def)

lemma bucket_put:
  "key \<in> fst ` set bs \<Longrightarrow> bucket_of k (put_bucket key b bs) = (if k = key then b else bucket_of k bs)"
  by (auto simp: bucket_of_def map_of_put map_of_eq_None_iff split: option.splits)

lemma put_keys [simp]: "map fst (put_bucket key b bs) = map fst bs"
  by (induction bs) (auto simp: put_bucket_def)

lemma bucket_new: "key \<notin> fst ` set bs \<Longrightarrow> bucket_of k (bs @ [(key, [])]) = bucket_of k bs"
  by (auto simp: bucket_of_def map_add_def split: option.splits)

lemma pruned_keys_exact:
  assumes "distinct (map fst bs)"
  shows "fst ` set (prune_empty c bs) = {k. expire c (bucket_of k bs) \<noteq> []}"
proof -
  have "bucket_of k (prune_empty c bs) \<noteq> []" if k: "k \<in> fst ` set (prune_empty c bs)" for k
  proof -
    obtain b where b: "map_of (prune_empty c bs) k = Some b"
      using k map_of_eq_None_iff [of "prune_empty c bs" k] by auto
    then have "b \<noteq> []" by (auto dest: map_of_SomeD simp: prune_empty_def)
    with b show ?thesis by (simp add: bucket_of_def)
  qed
  then have "k \<in> fst ` set (prune_empty c bs) \<longleftrightarrow> bucket_of k (prune_empty c bs) \<noteq> []" for k
    using bucket_absent [of k "prune_empty c bs"] by blast
  then show ?thesis unfolding bucket_prune [OF assms] by blast
qed

lemma admitted_snoc [simp]:
  "admitted_times k (h @ [(key, now)]) = admitted_times k h @ (if k = key then [now] else [])"
  by (simp add: admitted_times_def)

lemma admitted_sorted: "sorted (map snd h) \<Longrightarrow> sorted (admitted_times k h)"
  by (simp add: admitted_times_def sorted_filter)

definition sliding :: "limiter_config \<Rightarrow> rat \<Rightarrow> rat \<Rightarrow> bool" where
  "sliding cfg now x \<longleftrightarrow> window_cutoff cfg now < x"

lemma cutoff_mono: "x \<le> y \<Longrightarrow> window_cutoff cfg x \<le> window_cutoff cfg y"
  by (simp add: window_cutoff_def double_mono)

interpretation sliding: request_window "sliding cfg" for cfg
  by unfold_locales (auto simp: sliding_def intro: le_less_trans [OF cutoff_mono])

lemma admit_spec:
  assumes ok: "buckets_ok (window_cutoff cfg now) (h, bs)" and key: "key \<in> fst ` set bs"
    and sorted: "sorted (map snd h)"
    and r: "admit cfg key now (bucket_of key bs) bs = (r, bs')"
  obtains d where "r = Inr d"
    and "ld_allowed d \<longleftrightarrow>
      int (in_window_count (sliding cfg) now (admitted_times key h)) < lm_max_requests cfg"
    and "buckets_ok (window_cutoff cfg now) (if ld_allowed d then h @ [(key, now)] else h, bs')"
proof -
  define c where "c = window_cutoff cfg now"
  define b where "b = expire c (bucket_of key bs)"
  have hold: "holds_window c (admitted_times k h) (bucket_of k bs)" for k
    using ok by (simp add: buckets_ok_def c_def)
  have b: "b = filter (\<lambda>x. c < x) (admitted_times key h)"
    unfolding b_def using hold admitted_sorted [OF sorted] by (rule expire_window)
  have count: "length b = in_window_count (sliding cfg) now (admitted_times key h)"
    by (simp add: b in_window_count_def sliding_def [abs_def] c_def)
  have bh: "holds_window c (admitted_times key h) b" unfolding b_def using hold by (rule expire_holds)
  note r = r [unfolded admit_def Let_def, folded c_def, folded b_def]
  have dist: "distinct (map fst bs)" using ok by (simp add: buckets_ok_def)
  show thesis
  proof (cases "lm_max_requests cfg \<le> int (length b)")
    case True
    with r show thesis
      using hold bh dist by (intro that) (auto simp: count buckets_ok_def bucket_put [OF key] c_def [symmetric])
  next
    case False
    with r show thesis
      using hold holds_window_snoc [OF bh] dist
      by (intro that) (auto simp: count buckets_ok_def bucket_put [OF key] c_def [symmetric])
  qed
qed

text \<open>A check decides on the window, and refuses a new consumer only when the table is full.\<close>

definition current_consumers :: "limiter_config \<Rightarrow> rat \<Rightarrow> history \<Rightarrow> pystr set" where
  "current_consumers cfg now h = {k. \<exists>x \<in> set (admitted_times k h). sliding cfg now x}"

lemma current_consumers_pruned:
  assumes "buckets_ok (window_cutoff cfg now) (h, bs)" and "sorted (map snd h)"
  shows "fst ` set (prune_empty (window_cutoff cfg now) bs) = current_consumers cfg now h"
    and "int (length (prune_empty (window_cutoff cfg now) bs)) = int (card (current_consumers cfg now h))"
proof -
  have dist: "distinct (map fst bs)" using assms(1) by (simp add: buckets_ok_def)
  have "expire (window_cutoff cfg now) (bucket_of k bs) =
      filter (\<lambda>x. window_cutoff cfg now < x) (admitted_times k h)" for k
    using assms(1) admitted_sorted [OF assms(2)] by (intro expire_window) (simp_all add: buckets_ok_def)
  then show keys: "fst ` set (prune_empty (window_cutoff cfg now) bs) = current_consumers cfg now h"
    by (auto simp: pruned_keys_exact [OF dist] current_consumers_def sliding_def filter_empty_conv)
  show "int (length (prune_empty (window_cutoff cfg now) bs)) = int (card (current_consumers cfg now h))"
    using distinct_card [OF prune_keys [OF dist, of "window_cutoff cfg now"]] by (simp add: keys)
qed

lemma prune_ok: "buckets_ok c (h, bs) \<Longrightarrow> buckets_ok c (h, prune_empty c bs)"
  by (auto simp: buckets_ok_def prune_keys bucket_prune expire_holds)

lemma check_spec:
  assumes ok: "buckets_ok (window_cutoff cfg now) (h, bs)" and sorted: "sorted (map snd h)"
    and len: "length key = 64" and r: "limiter_check cfg key now bs = (r, bs')"
  shows "case r of
      Inr d \<Rightarrow> buckets_ok (window_cutoff cfg now) (if ld_allowed d then h @ [(key, now)] else h, bs') \<and>
        (ld_allowed d \<longleftrightarrow>
          int (in_window_count (sliding cfg) now (admitted_times key h)) < lm_max_requests cfg)
    | Inl e \<Rightarrow> buckets_ok (window_cutoff cfg now) (h, bs') \<and> e = RateLimitCapacity \<and>
        key \<notin> current_consumers cfg now h \<and>
        lm_max_consumers cfg \<le> int (card (current_consumers cfg now h))"
proof (cases "map_of bs key")
  case (Some bucket)
  then have key: "key \<in> fst ` set bs" by (auto dest: map_of_SomeD intro: rev_image_eqI)
  have "admit cfg key now (bucket_of key bs) bs = (r, bs')"
    using r len Some by (simp add: limiter_check_def bucket_of_def)
  then show ?thesis by (rule admit_spec [OF ok key sorted]) simp
next
  case None
  define pruned where "pruned = prune_empty (window_cutoff cfg now) bs"
  have keys: "fst ` set pruned = current_consumers cfg now h"
    and count: "int (length pruned) = int (card (current_consumers cfg now h))"
    unfolding pruned_def by (rule current_consumers_pruned [OF ok sorted])+
  have pok: "buckets_ok (window_cutoff cfg now) (h, pruned)" unfolding pruned_def by (rule prune_ok [OF ok])
  have new: "key \<notin> fst ` set pruned"
    using None prune_keys_subset [of "window_cutoff cfg now" bs]
    by (auto simp: pruned_def map_of_eq_None_iff)
  show ?thesis
  proof (cases "lm_max_consumers cfg \<le> int (length pruned)")
    case True
    then have "r = Inl RateLimitCapacity" "bs' = pruned"
      using r len None by (simp_all add: limiter_check_def pruned_def Let_def)
    with True pok keys count new show ?thesis by simp
  next
    case False
    let ?bs = "pruned @ [(key, [])]"
    have "bucket_of key ?bs = []" by (simp add: bucket_new [OF new] bucket_absent [OF new])
    then have "admit cfg key now (bucket_of key ?bs) ?bs = (r, bs')"
      using False r len None by (simp add: limiter_check_def pruned_def Let_def)
    moreover have "buckets_ok (window_cutoff cfg now) (h, ?bs)"
      using pok new by (auto simp: buckets_ok_def bucket_new)
    moreover have "key \<in> fst ` set ?bs" by simp
    ultimately show ?thesis by - (rule admit_spec [OF _ _ sorted], assumption+, simp)
  qed
qed

section \<open>Runs of the process-local limiter\<close>

definition limiter_inv ::
  "limiter_config \<Rightarrow> (pystr \<times> rat) list \<Rightarrow> history \<times> buckets \<Rightarrow> bool" where
  "limiter_inv cfg es s \<longleftrightarrow>
     sorted (map snd (fst s)) \<and> set (fst s) \<subseteq> set es \<and>
     (\<forall>now. (\<forall>e \<in> set es. snd e \<le> now) \<longrightarrow> buckets_ok (window_cutoff cfg now) s) \<and>
     (\<forall>key. capped (sliding cfg) (nat (lm_max_requests cfg)) (admitted_times key (fst s)))"

lemma buckets_ok_mono: "buckets_ok c s \<Longrightarrow> c \<le> c' \<Longrightarrow> buckets_ok c' s"
  by (auto simp: buckets_ok_def intro: holds_window_mono)

lemma limiter_inv_run: "sorted (map snd es) \<Longrightarrow> limiter_inv cfg es (limiter_run cfg es)"
proof (induction es rule: rev_induct)
  case Nil
  show ?case
    by (auto simp: limiter_run_def limiter_inv_def buckets_ok_def holds_window_def bucket_of_def
        admitted_times_def sliding.capped_Nil)
next
  case (snoc e es)
  obtain key now where e: "e = (key, now)" by fastforce
  obtain h bs where s: "limiter_run cfg es = (h, bs)" by fastforce
  obtain r bs' where r: "limiter_check cfg key now bs = (r, bs')" by fastforce
  have before: "\<forall>e \<in> set es. snd e \<le> now" and "sorted (map snd es)"
    using snoc.prems by (auto simp: sorted_append e)
  then have inv: "limiter_inv cfg es (h, bs)" using snoc.IH s by simp
  have ok: "buckets_ok (window_cutoff cfg now) (h, bs)" and sh: "sorted (map snd h)"
    and hes: "set h \<subseteq> set es"
    and cap: "\<And>k. capped (sliding cfg) (nat (lm_max_requests cfg)) (admitted_times k h)"
    using inv before by (auto simp: limiter_inv_def)
  define h' where "h' = (case r of Inr d \<Rightarrow> if ld_allowed d then h @ [(key, now)] else h | Inl _ \<Rightarrow> h)"
  have run: "limiter_run cfg (es @ [e]) = (h', bs')"
    using s r by (simp add: limiter_run_def limiter_step_def e h'_def split: sum.splits)
  have sh1: "sorted (map snd (h @ [(key, now)]))" using sh hes before by (force simp: sorted_append)
  have "buckets_ok (window_cutoff cfg now) (h', bs') \<and>
      capped (sliding cfg) (nat (lm_max_requests cfg)) (admitted_times k h')" for k
  proof (cases "length key = 64")
    case False
    then show ?thesis using r ok cap by (auto simp: limiter_check_def h'_def)
  next
    case True
    note spec = check_spec [OF ok sh True r]
    show ?thesis
    proof (cases "\<exists>d. r = Inr d \<and> ld_allowed d")
      case False
      then have "h' = h" by (auto simp: h'_def split: sum.splits)
      with False spec cap show ?thesis by (auto split: sum.splits)
    next
      case adm: True
      then have h': "h' = h @ [(key, now)]" and ok': "buckets_ok (window_cutoff cfg now) (h', bs')"
        and "in_window_count (sliding cfg) now (admitted_times key h) < nat (lm_max_requests cfg)"
        using spec by (auto simp: h'_def)
      moreover have "sorted (admitted_times key h @ [now])" using admitted_sorted [OF sh1, of key] by simp
      ultimately show ?thesis using cap sliding.capped_snoc [OF cap] by auto
    qed
  qed
  moreover have "buckets_ok (window_cutoff cfg t) (h', bs')"
    if "buckets_ok (window_cutoff cfg now) (h', bs')" and "now \<le> t" for t
    using that(1) cutoff_mono [OF that(2)] by (rule buckets_ok_mono)
  moreover have "sorted (map snd h') \<and> set h' \<subseteq> set (es @ [e])"
    using sh sh1 hes by (auto simp: h'_def e split: sum.splits if_splits)
  ultimately show ?case unfolding run limiter_inv_def by (auto simp: e)
qed

text \<open>
  The next decision in terms of the history alone: it is granted only with room in the consumer's
  window, and it is granted with room when the consumer is current or fewer than \<open>max_consumers\<close> are.
\<close>

definition has_room :: "limiter_config \<Rightarrow> rat \<Rightarrow> pystr \<Rightarrow> history \<Rightarrow> bool" where
  "has_room cfg now key h \<longleftrightarrow>
     int (in_window_count (sliding cfg) now (admitted_times key h)) < lm_max_requests cfg"

definition trackable :: "limiter_config \<Rightarrow> rat \<Rightarrow> pystr \<Rightarrow> history \<Rightarrow> bool" where
  "trackable cfg now key h \<longleftrightarrow> key \<in> current_consumers cfg now h \<or>
     int (card (current_consumers cfg now h)) < lm_max_consumers cfg"

lemma limiter_decides:
  assumes "sorted (map snd es)" and "\<forall>e \<in> set es. snd e \<le> now" and "limiter_run cfg es = (h, bs)"
  shows "fst (limiter_check cfg key now bs) = Inr d \<Longrightarrow> ld_allowed d \<Longrightarrow> has_room cfg now key h"
    and "length key = 64 \<Longrightarrow> has_room cfg now key h \<Longrightarrow> trackable cfg now key h \<Longrightarrow>
      \<exists>d. fst (limiter_check cfg key now bs) = Inr d \<and> ld_allowed d"
proof -
  obtain r bs' where r: "limiter_check cfg key now bs = (r, bs')" by fastforce
  have "limiter_inv cfg es (h, bs)" using limiter_inv_run [OF assms(1), of cfg] by (simp only: assms(3))
  then have inv: "buckets_ok (window_cutoff cfg now) (h, bs)" "sorted (map snd h)"
    using assms(2) by (auto simp: limiter_inv_def)
  have len: "length key = 64" if "r = Inr d" for d
    using r that by (auto simp: limiter_check_def split: if_splits)
  show "has_room cfg now key h" if "fst (limiter_check cfg key now bs) = Inr d" "ld_allowed d"
    using check_spec [OF inv len r] that r by (auto simp: has_room_def)
  show "\<exists>d. fst (limiter_check cfg key now bs) = Inr d \<and> ld_allowed d"
    if "length key = 64" "has_room cfg now key h" "trackable cfg now key h"
    using check_spec [OF inv that(1) r] that(2,3) r
    by (auto simp: has_room_def trackable_def split: sum.splits)
qed

text \<open>
  C39: the process-local limiter is an exact sliding window.  The class and the docstring of its decision
  call it a fixed window; no window boundary exists in the code, and a request right after one
  would be refused here and admitted there.  For requests in clock order it admits
  a request exactly when the consumer has fewer than \<open>max_requests\<close> admitted requests in the window
  before it, whatever it pruned; it raises only for a consumer with none, when \<open>max_consumers\<close>
  others have one; and no window ever holds more than \<open>max_requests\<close> admitted requests of a consumer.
\<close>

theorem limiter_is_an_exact_sliding_window:
  assumes "sorted (map snd (es @ [(key, now)]))" and "length key = 64"
    and "limiter_run cfg es = (h, bs)"
  shows "capped (sliding cfg) (nat (lm_max_requests cfg)) (admitted_times k h) \<and>
    (case fst (limiter_check cfg key now bs) of
       Inr d \<Rightarrow> ld_allowed d =
         (int (in_window_count (sliding cfg) now (admitted_times key h)) < lm_max_requests cfg)
     | Inl e \<Rightarrow> e = RateLimitCapacity \<and> key \<notin> current_consumers cfg now h \<and>
         lm_max_consumers cfg \<le> int (card (current_consumers cfg now h)))"
proof -
  obtain r bs' where r: "limiter_check cfg key now bs = (r, bs')" by fastforce
  have "sorted (map snd es)" and before: "\<forall>e \<in> set es. snd e \<le> now"
    using assms(1) by (auto simp: sorted_append)
  have inv: "limiter_inv cfg es (h, bs)"
    using limiter_inv_run [OF \<open>sorted (map snd es)\<close>, of cfg] by (simp only: assms(3))
  then have "case r of
      Inr d \<Rightarrow> buckets_ok (window_cutoff cfg now) (if ld_allowed d then h @ [(key, now)] else h, bs') \<and>
        (ld_allowed d \<longleftrightarrow>
          int (in_window_count (sliding cfg) now (admitted_times key h)) < lm_max_requests cfg)
    | Inl e \<Rightarrow> buckets_ok (window_cutoff cfg now) (h, bs') \<and> e = RateLimitCapacity \<and>
        key \<notin> current_consumers cfg now h \<and>
        lm_max_consumers cfg \<le> int (card (current_consumers cfg now h))"
    using before assms(2) by (intro check_spec [OF _ _ _ r]) (auto simp: limiter_inv_def)
  with inv r show ?thesis by (auto simp: limiter_inv_def split: sum.splits)
qed

definition sample_limits :: limiter_config where
  "sample_limits = \<lparr>lm_max_requests = 1, lm_window_seconds = 60, lm_max_consumers = 1\<rparr>"

definition sample_key :: pystr where
  "sample_key = replicate 64 97"

lemma sample_cutoff: "window_cutoff sample_limits (of_int t) = of_int (t - 60)" if "\<bar>t\<bar> < 1000"
  using double_of_int [of "t - 60"] that by (simp add: window_cutoff_def sample_limits_def)

lemma sample_limiter_run: "limiter_run sample_limits [(sample_key, 0)] = ([(sample_key, 0)], [(sample_key, [0])])"
  using sample_cutoff [of 0]
  by (simp add: limiter_run_def limiter_step_def limiter_check_def sample_key_def prune_empty_def admit_def
      expire_def put_bucket_def Let_def) (simp add: sample_limits_def)

lemma limiter_is_an_exact_sliding_window_witness:
  "limiter_run sample_limits [(sample_key, 0)] = ([(sample_key, 0)], [(sample_key, [0])]) \<and>
   capped (sliding sample_limits) 1 (admitted_times sample_key [(sample_key, 0)]) \<and>
   (case fst (limiter_check sample_limits sample_key 30 [(sample_key, [0])]) of
      Inr d \<Rightarrow> \<not> ld_allowed d | Inl e \<Rightarrow> False)"
proof -
  have "in_window_count (sliding sample_limits) 30 (admitted_times sample_key [(sample_key, 0)]) = 1"
    using sample_cutoff [of 30] by (simp add: in_window_count_def sliding_def admitted_times_def)
  moreover have "sample_key \<in> current_consumers sample_limits 30 [(sample_key, 0)]"
    using sample_cutoff [of 30] by (simp add: current_consumers_def sliding_def admitted_times_def)
  ultimately show ?thesis
    using limiter_is_an_exact_sliding_window [of "[(sample_key, 0)]" sample_key 30 sample_limits
        "[(sample_key, 0)]" "[(sample_key, [0])]" sample_key] sample_limiter_run
    by (auto simp: sample_limits_def sample_key_def split: sum.splits)
qed

end
