(* ===== verification/DatabaseLimits.thy ===== *)
theory DatabaseLimits
  imports ConsumerLimits
begin

text \<open>
  The database limiter and the access audit of \<open>src/pixiv_yuri/api/postgres_operations.py\<close> over
  the tables of \<open>src/pixiv_yuri/api/persistence_models.py\<close>.  Both dialects serialize the check of
  a consumer (a row lock and an advisory lock, or the process lock), so a run of checks is a
  sequence.  A check that raises leaves the session without a commit.
\<close>

section \<open>Tables\<close>

record window_row =
  wr_consumer_key :: pystr
  wr_window_started_at :: instant
  wr_request_count :: int
  wr_updated_at :: instant

definition window_row_ok :: "window_row \<Rightarrow> bool" where
  "window_row_ok r \<longleftrightarrow> length (wr_consumer_key r) = 64 \<and> 1 \<le> wr_request_count r"

record audit_row =
  ar_occurred_at :: instant
  ar_retention_until :: instant
  ar_request_id :: pystr
  ar_consumer_key :: "pystr option"
  ar_method :: pystr
  ar_route_template :: pystr
  ar_status_code :: int
  ar_auth_outcome :: pystr

definition audit_row_ok :: "audit_row \<Rightarrow> bool" where
  "audit_row_ok r \<longleftrightarrow>
     (case ar_consumer_key r of None \<Rightarrow> True | Some k \<Rightarrow> length k = 64) \<and>
     100 \<le> ar_status_code r \<and> ar_status_code r \<le> 599 \<and> ar_occurred_at r < ar_retention_until r"

section \<open>The limiter\<close>

definition is_key_char :: "nat \<Rightarrow> bool" where
  "is_key_char c \<longleftrightarrow> (48 \<le> c \<and> c \<le> 57) \<or> (97 \<le> c \<and> c \<le> 102)"

definition consumer_key_ok :: "pystr \<Rightarrow> bool" where
  "consumer_key_ok k \<longleftrightarrow> length k = 64 \<and> list_all is_key_char k"

text \<open>\<open>timestamp()\<close> is the correctly rounded quotient of the microseconds since the epoch.\<close>

definition window_start :: "instant \<Rightarrow> int \<Rightarrow> instant" where
  "window_start t w = (let epoch = trunc_int (double (of_int t / 1000000)) in seconds (epoch - epoch mod w))"

definition row_of :: "pystr \<Rightarrow> window_row list \<Rightarrow> window_row option" where
  "row_of key rows = find (\<lambda>r. wr_consumer_key r = key) rows"

definition update_row :: "pystr \<Rightarrow> (window_row \<Rightarrow> window_row) \<Rightarrow> window_row list \<Rightarrow> window_row list" where
  "update_row key f rows = map (\<lambda>r. if wr_consumer_key r = key then f r else r) rows"

definition check_in_transaction ::
  "backend \<Rightarrow> limiter_config \<Rightarrow> pystr \<Rightarrow> instant \<Rightarrow> instant \<Rightarrow> window_row list \<Rightarrow>
    error + limit_decision \<times> window_row list" where
  "check_in_transaction b cfg key current start rows =
     (case row_of key rows of
        None \<Rightarrow>
          if lm_max_consumers cfg \<le> int (length rows) then Inl RateLimitCapacity
          else Inr (\<lparr>ld_allowed = True, ld_retry_after = 0\<rparr>,
                rows @ [\<lparr>wr_consumer_key = key, wr_window_started_at = start, wr_request_count = 1,
                         wr_updated_at = current\<rparr>])
      | Some row \<Rightarrow>
          let persisted = database_utc (load_time b (wr_window_started_at row))
          in if persisted \<noteq> start
             then Inr (\<lparr>ld_allowed = True, ld_retry_after = 0\<rparr>,
                    update_row key (\<lambda>r. r\<lparr>wr_window_started_at := start, wr_request_count := 1,
                                          wr_updated_at := current\<rparr>) rows)
             else if lm_max_requests cfg \<le> wr_request_count row
             then Inr (\<lparr>ld_allowed = False, ld_retry_after = max 1
                    \<lceil>double (of_int (persisted + seconds (lm_window_seconds cfg) - current) / 1000000)\<rceil>\<rparr>,
                    rows)
             else Inr (\<lparr>ld_allowed = True, ld_retry_after = 0\<rparr>,
                    update_row key (\<lambda>r. r\<lparr>wr_request_count := wr_request_count r + 1,
                                          wr_updated_at := current\<rparr>) rows))"

definition database_check ::
  "backend \<Rightarrow> limiter_config \<Rightarrow> pydatetime \<Rightarrow> pystr \<Rightarrow> window_row list \<Rightarrow>
    (error + limit_decision) \<times> window_row list" where
  "database_check b cfg clock key rows =
     (if \<not> consumer_key_ok key then (Inl ValueError, rows)
      else case aware_utc clock of
        Inl e \<Rightarrow> (Inl e, rows)
      | Inr current \<Rightarrow>
          case check_in_transaction b cfg key current (window_start current (lm_window_seconds cfg)) rows of
            Inl e \<Rightarrow> (Inl e, rows)
          | Inr (d, rows') \<Rightarrow> (Inr d, rows'))"

section \<open>The access audit\<close>

text \<open>\<open>occurred_at\<close> is what \<open>fromisoformat\<close> reads of the text, \<open>None\<close> where it raises.\<close>

record access_event =
  ev_occurred_at :: "pydatetime option"
  ev_request_id :: pystr
  ev_consumer_key :: "pystr option"
  ev_method :: pystr
  ev_route_template :: pystr
  ev_status_code :: int
  ev_auth_outcome :: pystr

definition auth_outcomes :: "pystr list" where
  "auth_outcomes = [lit ''not_applicable'', lit ''private_boundary'', lit ''authenticated'',
     lit ''authentication_failed'', lit ''scope_denied'', lit ''authorization_unavailable'',
     lit ''rate_limited'', lit ''rate_limit_unavailable'']"

definition is_request_id_char :: "nat \<Rightarrow> bool" where
  "is_request_id_char c \<longleftrightarrow>
     (65 \<le> c \<and> c \<le> 90) \<or> (97 \<le> c \<and> c \<le> 122) \<or> (48 \<le> c \<and> c \<le> 57) \<or> c \<in> {45, 46, 95}"

definition request_id_ok :: "pystr \<Rightarrow> bool" where
  "request_id_ok s \<longleftrightarrow> 1 \<le> length s \<and> length s \<le> 64 \<and> list_all is_request_id_char s"

definition method_ok :: "pystr \<Rightarrow> bool" where
  "method_ok s \<longleftrightarrow> 1 \<le> length s \<and> length s \<le> 16 \<and> list_all (\<lambda>c. 65 \<le> c \<and> c \<le> 90) s"

definition route_template_ok :: "pystr \<Rightarrow> bool" where
  "route_template_ok s \<longleftrightarrow>
     take 7 s = lit ''/api/v1'' \<and> length s \<le> 255 \<and> 63 \<notin> set s \<and> 35 \<notin> set s \<and>
     list_all (\<lambda>c. 32 \<le> c \<and> c \<noteq> 127) s"

definition event_ok :: "access_event \<Rightarrow> bool" where
  "event_ok e \<longleftrightarrow>
     request_id_ok (ev_request_id e) \<and>
     (case ev_consumer_key e of None \<Rightarrow> True | Some k \<Rightarrow> consumer_key_ok k) \<and>
     method_ok (ev_method e) \<and> route_template_ok (ev_route_template e) \<and>
     100 \<le> ev_status_code e \<and> ev_status_code e \<le> 599 \<and>
     ev_auth_outcome e \<in> set auth_outcomes"

definition parse_event_time :: "pydatetime option \<Rightarrow> error + instant" where
  "parse_event_time v = (case v of None \<Rightarrow> Inl ValueError | Some t \<Rightarrow> aware_utc t)"

definition new_auditor :: "int \<Rightarrow> error + int" where
  "new_auditor retention_days =
     (if retention_days < 1 \<or> 365 < retention_days then Inl ValueError else Inr retention_days)"

definition audit_record :: "int \<Rightarrow> access_event \<Rightarrow> audit_row list \<Rightarrow> (error + unit) \<times> audit_row list" where
  "audit_record retention_days e rows =
     (case parse_event_time (ev_occurred_at e) of
        Inl err \<Rightarrow> (Inl err, rows)
      | Inr occurred \<Rightarrow>
          if \<not> event_ok e then (Inl ValueError, rows)
          else (let row = \<lparr>ar_occurred_at = occurred, ar_retention_until = occurred + days retention_days,
                    ar_request_id = ev_request_id e, ar_consumer_key = ev_consumer_key e,
                    ar_method = ev_method e, ar_route_template = ev_route_template e,
                    ar_status_code = ev_status_code e, ar_auth_outcome = ev_auth_outcome e\<rparr>
                in if audit_row_ok row then (Inr (), rows @ [row]) else (Inl IntegrityError, rows)))"

definition purge_expired ::
  "pydatetime \<Rightarrow> pydatetime option \<Rightarrow> audit_row list \<Rightarrow> (error + int) \<times> audit_row list" where
  "purge_expired clock now rows =
     (case aware_utc (case now of None \<Rightarrow> clock | Some t \<Rightarrow> t) of
        Inl e \<Rightarrow> (Inl e, rows)
      | Inr cutoff \<Rightarrow>
          (Inr (int (length (filter (\<lambda>r. ar_retention_until r \<le> cutoff) rows))),
           filter (\<lambda>r. \<not> ar_retention_until r \<le> cutoff) rows))"

section \<open>Lemmas on rows\<close>

lemma row_of_update:
  assumes "\<And>r. wr_consumer_key (f r) = wr_consumer_key r"
  shows "row_of k (update_row key f rows) = (if k = key then map_option f (row_of k rows) else row_of k rows)"
  by (induction rows) (auto simp: row_of_def update_row_def assms)

lemma row_of_snoc:
  "row_of k (rows @ [r]) = (case row_of k rows of Some r' \<Rightarrow> Some r' | None \<Rightarrow>
     if wr_consumer_key r = k then Some r else None)"
  by (induction rows) (auto simp: row_of_def split: option.splits)

lemma keys_update:
  assumes "\<And>r. wr_consumer_key (f r) = wr_consumer_key r"
  shows "map wr_consumer_key (update_row key f rows) = map wr_consumer_key rows"
  using assms by (simp add: update_row_def comp_def if_distrib [of wr_consumer_key] cong: if_cong)

lemma row_of_None: "row_of k rows = None \<longleftrightarrow> k \<notin> wr_consumer_key ` set rows"
  by (auto simp: row_of_def find_None_iff)

text \<open>A recorded event satisfies the constraints of its table and stays until its deadline.\<close>

lemma recorded_rows_ok:
  assumes "1 \<le> n" and "list_all audit_row_ok rows"
  shows "list_all audit_row_ok (snd (audit_record n e rows)) \<and> fst (audit_record n e rows) \<noteq> Inl IntegrityError"
  using assms
  by (auto simp: audit_record_def Let_def event_ok_def audit_row_ok_def consumer_key_ok_def duration_defs
      parse_event_time_def dest: aware_utc_Inl split: sum.splits option.splits)

lemma window_start_mono:
  assumes "0 < w" and "x \<le> y" shows "window_start x w \<le> window_start y w"
proof -
  have "trunc_int (double (of_int x / 1000000)) \<le> trunc_int (double (of_int y / 1000000))"
    using assms(2) by (intro trunc_int_mono double_mono divide_right_mono) simp_all
  then have "w * (trunc_int (double (of_int x / 1000000)) div w) \<le>
      w * (trunc_int (double (of_int y / 1000000)) div w)"
    using assms(1) by (intro mult_left_mono zdiv_mono1) simp_all
  then show ?thesis by (simp add: window_start_def Let_def duration_defs minus_mod_eq_mult_div)
qed

definition same_window :: "int \<Rightarrow> instant \<Rightarrow> instant \<Rightarrow> bool" where
  "same_window w t x \<longleftrightarrow> window_start x w = window_start t w"

interpretation fixed_window: request_window "same_window (int (Suc n))" for n
proof
  fix x y T :: int
  assume "x \<le> y" "y \<le> T" "same_window (int (Suc n)) T x"
  then show "same_window (int (Suc n)) y x"
    using window_start_mono [of "int (Suc n)" x y] window_start_mono [of "int (Suc n)" y T]
    by (simp add: same_window_def)
qed

section \<open>Runs of the database limiter\<close>

definition database_step ::
  "backend \<Rightarrow> limiter_config \<Rightarrow> (pystr \<times> instant) list \<times> window_row list \<Rightarrow> pystr \<times> instant \<Rightarrow>
    (pystr \<times> instant) list \<times> window_row list" where
  "database_step b cfg s e =
     (case database_check b cfg (utc (snd e)) (fst e) (snd s) of
        (Inr d, rows) \<Rightarrow> (if ld_allowed d then fst s @ [e] else fst s, rows)
      | (Inl _, rows) \<Rightarrow> (fst s, rows))"

definition database_run ::
  "backend \<Rightarrow> limiter_config \<Rightarrow> (pystr \<times> instant) list \<Rightarrow> (pystr \<times> instant) list \<times> window_row list" where
  "database_run b cfg es = foldl (database_step b cfg) ([], []) es"

definition row_counts :: "int \<Rightarrow> instant list \<Rightarrow> window_row option \<Rightarrow> bool" where
  "row_counts w xs r \<longleftrightarrow>
     (case r of
        None \<Rightarrow> xs = []
      | Some row \<Rightarrow> xs \<noteq> [] \<and> wr_window_started_at row = window_start (last xs) w \<and>
          wr_request_count row = int (in_window_count (same_window w) (last xs) xs))"

definition rows_ok :: "int \<Rightarrow> (pystr \<times> instant) list \<times> window_row list \<Rightarrow> bool" where
  "rows_ok w s \<longleftrightarrow>
     distinct (map wr_consumer_key (snd s)) \<and>
     (\<forall>key. row_counts w (admitted_times key (fst s)) (row_of key (snd s)))"

lemma sorted_last: "sorted xs \<Longrightarrow> x \<in> set xs \<Longrightarrow> x \<le> last xs"
  by (induction xs rule: rev_induct) (auto simp: sorted_append)

lemma row_counts_now:
  assumes "row_counts w xs (Some r)" and "sorted xs" and "\<forall>x \<in> set xs. x \<le> now" and "0 < w"
  shows "int (in_window_count (same_window w) now xs) =
    (if wr_window_started_at r = window_start now w then wr_request_count r else 0)"
proof (cases "wr_window_started_at r = window_start now w")
  case True
  with assms(1) show ?thesis by (simp add: row_counts_def in_window_count_def same_window_def [abs_def])
next
  case False
  have xs: "xs \<noteq> []" and "window_start (last xs) w \<noteq> window_start now w"
    using assms(1) False by (auto simp: row_counts_def)
  moreover have "window_start (last xs) w \<le> window_start now w"
    using xs assms(3,4) by (intro window_start_mono) auto
  moreover have "window_start x w \<le> window_start (last xs) w" if "x \<in> set xs" for x
    using that assms(2,4) sorted_last by (intro window_start_mono) blast+
  ultimately have "filter (same_window w now) xs = []"
    by (fastforce simp: filter_empty_conv same_window_def)
  with False show ?thesis by (simp add: in_window_count_def)
qed

lemma row_counts_snoc:
  assumes "int (in_window_count (same_window w) now xs) = n"
  shows "row_counts w (xs @ [now]) (Some \<lparr>wr_consumer_key = k, wr_window_started_at = window_start now w,
    wr_request_count = n + 1, wr_updated_at = u\<rparr>)"
  using assms by (simp add: row_counts_def in_window_count_def same_window_def)

definition known_consumers :: "(pystr \<times> 't) list \<Rightarrow> pystr set" where
  "known_consumers h = {k. admitted_times k h \<noteq> []}"

lemma rows_count_consumers:
  assumes "rows_ok w (h, rows)"
  shows "int (length rows) = int (card (known_consumers h))"
proof -
  have "row_of k rows \<noteq> None \<longleftrightarrow> admitted_times k h \<noteq> []" for k
  proof -
    have "row_counts w (admitted_times k h) (row_of k rows)" using assms by (simp add: rows_ok_def)
    then show ?thesis by (cases "row_of k rows") (simp_all add: row_counts_def)
  qed
  then have "known_consumers h = set (map wr_consumer_key rows)"
    unfolding known_consumers_def row_of_None by auto
  moreover have "distinct (map wr_consumer_key rows)" using assms by (simp add: rows_ok_def)
  ultimately show ?thesis using distinct_card by fastforce
qed

lemma database_check_spec:
  assumes ok: "rows_ok w (h, rows)" and sorted: "sorted (map snd h)"
    and now: "\<forall>e \<in> set h. snd e \<le> now" and key: "consumer_key_ok key"
    and cfg: "lm_window_seconds cfg = w" "0 < w" "0 < lm_max_requests cfg"
    and r: "database_check b cfg (utc now) key rows = (r, rows')"
  shows "case r of
      Inr d \<Rightarrow> rows_ok w (if ld_allowed d then h @ [(key, now)] else h, rows') \<and>
        \<not> (key \<notin> known_consumers h \<and> lm_max_consumers cfg \<le> int (card (known_consumers h))) \<and>
        (ld_allowed d \<longleftrightarrow>
          int (in_window_count (same_window w) now (admitted_times key h)) < lm_max_requests cfg)
    | Inl e \<Rightarrow> rows' = rows \<and> e = RateLimitCapacity \<and> key \<notin> known_consumers h \<and>
        lm_max_consumers cfg \<le> int (card (known_consumers h))"
proof -
  have rc: "row_counts w (admitted_times k h) (row_of k rows)" for k using ok by (simp add: rows_ok_def)
  have dist: "distinct (map wr_consumer_key rows)" using ok by (simp add: rows_ok_def)
  have before: "\<forall>x \<in> set (admitted_times key h). x \<le> now" using now by (auto simp: admitted_times_def)
  note r = r [unfolded database_check_def check_in_transaction_def cfg(1)]
  note count = rows_count_consumers [OF ok]
  show ?thesis
  proof (cases "row_of key rows")
    case None
    have none: "admitted_times key h = []" using rc [of key] None by (simp add: row_counts_def)
    let ?row = "\<lparr>wr_consumer_key = key, wr_window_started_at = window_start now w, wr_request_count = 1,
      wr_updated_at = now\<rparr>"
    have "rows_ok w (h @ [(key, now)], rows @ [?row])"
      unfolding rows_ok_def
    proof (intro conjI allI)
      show "distinct (map wr_consumer_key (snd (h @ [(key, now)], rows @ [?row])))"
        using dist None by (simp add: row_of_None)
      show "row_counts w (admitted_times k (fst (h @ [(key, now)], rows @ [?row])))
          (row_of k (snd (h @ [(key, now)], rows @ [?row])))" for k
        using rc [of k] None row_counts_snoc [of w now "[]" 0 key now] none
        by (cases "k = key"; cases "row_of k rows") (simp_all add: row_of_snoc in_window_count_def)
    qed
    with r None none key cfg(3) count show ?thesis
      by (auto simp: known_consumers_def in_window_count_def split: if_splits)
  next
    case (Some row)
    have known: "key \<in> known_consumers h" using rc [of key] Some by (simp add: known_consumers_def row_counts_def)
    define n where "n = in_window_count (same_window w) now (admitted_times key h)"
    have n: "int n = (if wr_window_started_at row = window_start now w then wr_request_count row else 0)"
      unfolding n_def using rc [of key] admitted_sorted [OF sorted] before cfg(2)
      by (intro row_counts_now) (simp_all add: Some)
    have upd: "rows_ok w (h @ [(key, now)], update_row key f rows)"
      if f: "\<And>r. wr_consumer_key (f r) = wr_consumer_key r"
        "wr_window_started_at (f row) = window_start now w" "wr_request_count (f row) = int n + 1" for f
      unfolding rows_ok_def
    proof (intro conjI allI)
      show "distinct (map wr_consumer_key (snd (h @ [(key, now)], update_row key f rows)))"
        using dist by (simp add: keys_update f(1))
      show "row_counts w (admitted_times k (fst (h @ [(key, now)], update_row key f rows)))
          (row_of k (snd (h @ [(key, now)], update_row key f rows)))" for k
        using rc [of k] Some row_counts_snoc [of w now "admitted_times key h" "int n" key now] f
        by (cases "k = key") (simp_all add: row_of_update row_counts_def n_def)
    qed
    show ?thesis
    proof (cases "wr_window_started_at row = window_start now w")
      case False
      with r Some key n known cfg(3) upd show ?thesis by (auto simp: Let_def n_def [symmetric])
    next
      case True
      with r Some key n known upd ok show ?thesis
        by (auto simp: Let_def n_def [symmetric] split: if_splits)
    qed
  qed
qed

definition database_inv ::
  "limiter_config \<Rightarrow> (pystr \<times> instant) list \<Rightarrow> (pystr \<times> instant) list \<times> window_row list \<Rightarrow> bool" where
  "database_inv cfg es s \<longleftrightarrow>
     sorted (map snd (fst s)) \<and> set (fst s) \<subseteq> set es \<and> rows_ok (lm_window_seconds cfg) s \<and>
     (\<forall>key. capped (same_window (lm_window_seconds cfg)) (nat (lm_max_requests cfg))
        (admitted_times key (fst s)))"

lemma database_inv_run:
  assumes w: "0 < lm_window_seconds cfg" and m: "0 < lm_max_requests cfg"
  shows "sorted (map snd es) \<Longrightarrow> database_inv cfg es (database_run b cfg es)"
proof (induction es rule: rev_induct)
  case Nil
  show ?case
    by (simp add: database_run_def database_inv_def rows_ok_def row_of_def row_counts_def
        admitted_times_def capped_def)
next
  case (snoc e es)
  obtain n where n: "lm_window_seconds cfg = int (Suc n)" using w zero_less_imp_eq_int gr0_conv_Suc by metis
  obtain key now where e: "e = (key, now)" by fastforce
  obtain h rows where s: "database_run b cfg es = (h, rows)" by fastforce
  obtain r rows' where r: "database_check b cfg (utc now) key rows = (r, rows')" by fastforce
  have before: "\<forall>e \<in> set es. snd e \<le> now" and "sorted (map snd es)"
    using snoc.prems by (auto simp: sorted_append e)
  then have "database_inv cfg es (h, rows)" using snoc.IH s by simp
  then have ok: "rows_ok (lm_window_seconds cfg) (h, rows)" and sh: "sorted (map snd h)"
    and hes: "set h \<subseteq> set es"
    and cap: "\<And>k. capped (same_window (lm_window_seconds cfg)) (nat (lm_max_requests cfg)) (admitted_times k h)"
    by (auto simp: database_inv_def)
  have now: "\<forall>e \<in> set h. snd e \<le> now" using hes before by blast
  define h' where "h' = (case r of Inr d \<Rightarrow> if ld_allowed d then h @ [(key, now)] else h | Inl _ \<Rightarrow> h)"
  have run: "database_run b cfg (es @ [e]) = (h', rows')"
    using s r by (simp add: database_run_def database_step_def e h'_def split: sum.splits)
  have sh1: "sorted (map snd (h @ [(key, now)]))" using sh now by (force simp: sorted_append)
  have "rows_ok (lm_window_seconds cfg) (h', rows') \<and>
      capped (same_window (lm_window_seconds cfg)) (nat (lm_max_requests cfg)) (admitted_times k h')" for k
  proof (cases "consumer_key_ok key")
    case False
    then show ?thesis using r ok cap by (auto simp: database_check_def h'_def)
  next
    case True
    note spec = database_check_spec [OF ok sh now True refl w m r]
    show ?thesis
    proof (cases "\<exists>d. r = Inr d \<and> ld_allowed d")
      case False
      then have "h' = h" by (auto simp: h'_def split: sum.splits)
      with False spec cap ok show ?thesis by (auto split: sum.splits)
    next
      case adm: True
      then have h': "h' = h @ [(key, now)]" and ok': "rows_ok (lm_window_seconds cfg) (h', rows')"
        and "in_window_count (same_window (lm_window_seconds cfg)) now (admitted_times key h)
          < nat (lm_max_requests cfg)"
        using spec by (auto simp: h'_def)
      moreover have "sorted (admitted_times key h @ [now])" using admitted_sorted [OF sh1, of key] by simp
      ultimately show ?thesis using cap fixed_window.capped_snoc [OF cap [unfolded n]] by (auto simp: n)
    qed
  qed
  moreover have "sorted (map snd h') \<and> set h' \<subseteq> set (es @ [e])"
    using sh sh1 hes by (auto simp: h'_def e split: sum.splits if_splits)
  ultimately show ?case unfolding run database_inv_def by (auto simp: e)
qed

text \<open>
  C40: the database limiter is an exact fixed window, but it never frees a consumer.  For a valid
  configuration and requests in clock order it admits a known consumer exactly up to
  \<open>max_requests\<close> times in a clock window, and no window ever holds more; a consumer with no admitted
  request is refused exactly when \<open>max_consumers\<close> others were ever admitted, however long ago.
\<close>

theorem database_limiter_never_frees_consumers:
  assumes "sorted (map snd (es @ [(key, now)]))" and "consumer_key_ok key"
    and "new_limiter 1000000 m w c = Inr cfg" and "database_run b cfg es = (h, rows)"
  shows "capped (same_window w) (nat m) (admitted_times k h) \<and>
    (case fst (database_check b cfg (utc now) key rows) of
       Inr d \<Rightarrow> (key \<in> known_consumers h \<or> int (card (known_consumers h)) < c) \<and>
         ld_allowed d = (int (in_window_count (same_window w) now (admitted_times key h)) < m)
     | Inl e \<Rightarrow> e = RateLimitCapacity \<and> key \<notin> known_consumers h \<and>
         c \<le> int (card (known_consumers h)))"
proof -
  have cfg: "lm_max_requests cfg = m" "lm_window_seconds cfg = w" "lm_max_consumers cfg = c" "0 < w" "0 < m"
    using assms(3) by (auto simp: new_limiter_def split: if_splits)
  obtain r rows' where r: "database_check b cfg (utc now) key rows = (r, rows')" by fastforce
  have "sorted (map snd es)" and before: "\<forall>e \<in> set es. snd e \<le> now"
    using assms(1) by (auto simp: sorted_append)
  then have inv: "database_inv cfg es (h, rows)"
    using database_inv_run [of cfg es b] cfg by (simp add: assms(4))
  then have "rows_ok w (h, rows)" "sorted (map snd h)" "\<forall>e \<in> set h. snd e \<le> now"
    using before cfg by (auto simp: database_inv_def)
  note spec = database_check_spec [OF this assms(2) cfg(2) cfg(4) _ r]
  show ?thesis using spec inv cfg r by (auto simp: database_inv_def split: sum.splits)
qed

text \<open>A year after its only request, one consumer still keeps every other one out.\<close>

definition sample_row :: window_row where
  "sample_row = \<lparr>wr_consumer_key = sample_key, wr_window_started_at = 0, wr_request_count = 1,
     wr_updated_at = 0\<rparr>"

lemma sample_database_run:
  "database_run SqliteDb sample_limits [(sample_key, 0)] = ([(sample_key, 0)], [sample_row])"
proof -
  have "window_start 0 60 = 0" using double_of_int [of 0]
    by (simp add: window_start_def trunc_int_def duration_defs)
  then show ?thesis
    by (simp add: database_run_def database_step_def database_check_def check_in_transaction_def row_of_def
        sample_limits_def sample_row_def consumer_key_ok_def sample_key_def is_key_char_def list_all_iff)
qed

lemma database_limiter_never_frees_consumers_witness:
  "database_run SqliteDb sample_limits [(sample_key, 0)] = ([(sample_key, 0)], [sample_row]) \<and>
   fst (database_check SqliteDb sample_limits (utc (days 365)) (replicate 64 98) [sample_row]) =
     Inl RateLimitCapacity"
proof -
  have key: "consumer_key_ok (replicate 64 98)" by (simp add: consumer_key_ok_def is_key_char_def list_all_iff)
  have "sample_key \<noteq> replicate 64 98" by (simp add: sample_key_def replicate_eq_replicate)
  then have known: "known_consumers [(sample_key, 0::int)] = {sample_key}"
    "replicate 64 98 \<notin> known_consumers [(sample_key, 0::int)]"
    by (auto simp: known_consumers_def admitted_times_def)
  show ?thesis
    using database_limiter_never_frees_consumers [of "[(sample_key, 0)]" "replicate 64 98" "days 365" 1 60 1
        sample_limits SqliteDb "[(sample_key, 0)]" "[sample_row]" sample_key] known key sample_database_run
    by (auto simp: new_limiter_def sample_limits_def duration_defs split: sum.splits)
qed

end
