(* ===== verification/ApiGate.thy ===== *)
theory ApiGate
  imports ProxyAuth DatabaseLimits
begin

text \<open>
  The request middleware of \<open>src/pixiv_yuri/api/app.py\<close> with the policies of
  \<open>src/pixiv_yuri/api/operations.py\<close>: authentication, scope, rate limit, the route handler,
  observation and audit, in the order the code has them.  The routing of the framework, the route
  handlers, the observer and SHA-256 are arguments; the clock readings of a request come with it.
\<close>

section \<open>Performance policy\<close>

record performance_policy =
  pp_default_budget :: int
  pp_health_budget :: int
  pp_route_budgets :: "(pystr \<times> int) list"

definition starts_with :: "pystr \<Rightarrow> pystr \<Rightarrow> bool" where
  "starts_with p s \<longleftrightarrow> take (length p) s = p"

definition new_performance_policy ::
  "int \<Rightarrow> int \<Rightarrow> (pystr \<times> int) list \<Rightarrow> error + performance_policy" where
  "new_performance_policy default_ms health_ms routes =
     (if list_ex (\<lambda>v. v < 1 \<or> 60000 < v) (default_ms # health_ms # map snd routes) then Inl ValueError
      else if list_ex (\<lambda>r. \<not> starts_with [47] r) (map fst routes) then Inl ValueError
      else Inr \<lparr>pp_default_budget = default_ms, pp_health_budget = health_ms, pp_route_budgets = routes\<rparr>)"

definition budget_for :: "performance_policy \<Rightarrow> pystr \<Rightarrow> int" where
  "budget_for p route =
     (case map_of (pp_route_budgets p) route of
        Some b \<Rightarrow> b
      | None \<Rightarrow> if starts_with (lit ''/health/'') route then pp_health_budget p else pp_default_budget p)"

section \<open>Requests and responses\<close>

record http_response =
  rs_status :: int
  rs_content :: pystr
  rs_headers :: "pystr \<Rightarrow> pystr option"

definition json_response :: "int \<Rightarrow> string \<Rightarrow> http_response" where
  "json_response status detail = \<lparr>rs_status = status, rs_content = lit detail, rs_headers = (\<lambda>_. None)\<rparr>"

definition set_header :: "string \<Rightarrow> pystr \<Rightarrow> http_response \<Rightarrow> http_response" where
  "set_header name v r = r\<lparr>rs_headers := (rs_headers r)(lit name := Some v)\<rparr>"

text \<open>A request as the middleware sees it, with what the framework and the clocks answer.\<close>

record api_call =
  ac_request :: http_request
  ac_candidate_id :: pystr
  ac_fresh_id :: pystr
  ac_started :: rat
  ac_ended :: rat
  ac_clock :: pydatetime
  ac_scope_route :: "pystr option"
  ac_matched_route :: "pystr option"

datatype auth_outcome =
    NotApplicable | PrivateBoundary | Authenticated | AuthenticationFailed | ScopeDenied
  | AuthorizationUnavailable | RateLimited | RateLimitUnavailable

fun outcome_text :: "auth_outcome \<Rightarrow> pystr" where
  "outcome_text NotApplicable = lit ''not_applicable''"
| "outcome_text PrivateBoundary = lit ''private_boundary''"
| "outcome_text Authenticated = lit ''authenticated''"
| "outcome_text AuthenticationFailed = lit ''authentication_failed''"
| "outcome_text ScopeDenied = lit ''scope_denied''"
| "outcome_text AuthorizationUnavailable = lit ''authorization_unavailable''"
| "outcome_text RateLimited = lit ''rate_limited''"
| "outcome_text RateLimitUnavailable = lit ''rate_limit_unavailable''"

lemma outcome_text_known: "outcome_text o' \<in> set auth_outcomes"
  by (cases o') (simp_all add: auth_outcomes_def)

record api_observation =
  ob_request_id :: pystr
  ob_method :: pystr
  ob_route_template :: pystr
  ob_status_code :: int
  ob_duration_ms :: rat
  ob_budget_ms :: int
  ob_budget_exceeded :: bool
  ob_auth_outcome :: auth_outcome

record ('s, 'h, 'a, 'o) api_gate =
  ag_authorizer :: "(http_request \<Rightarrow> error + consumer_identity) option"
  ag_limiter :: "(pystr \<Rightarrow> rat \<Rightarrow> 's \<Rightarrow> (error + limit_decision) \<times> 's) option"
  ag_call_next :: "http_request \<Rightarrow> consumer_identity option \<Rightarrow> 'h \<Rightarrow> (error + http_response) \<times> 'h"
  ag_record :: "access_event \<Rightarrow> 'a \<Rightarrow> (error + unit) \<times> 'a"
  ag_observe :: "api_observation \<Rightarrow> 'o \<Rightarrow> (error + unit) \<times> 'o"
  ag_policy :: performance_policy
  ag_sha :: "nat list \<Rightarrow> pystr"
  ag_local_offset :: int

record ('s, 'h, 'a, 'o) api_state =
  as_limits :: 's
  as_handler :: 'h
  as_audit :: 'a
  as_observed :: 'o

definition analytics_read :: pystr where
  "analytics_read = lit ''analytics:read''"

definition consumer_subject_digest :: "(nat list \<Rightarrow> pystr) \<Rightarrow> pystr \<Rightarrow> error + pystr" where
  "consumer_subject_digest sha subject =
     (let t = lit ''pyuri-consumer-v1'' @ 0 # subject
      in if utf8_encodable t then Inr (sha (utf8_encode t)) else Inl ValueError)"

definition is_read_api :: "http_request \<Rightarrow> bool" where
  "is_read_api rq \<longleftrightarrow> starts_with (lit ''/api/v1'') (rq_path rq)"

definition route_template :: "api_call \<Rightarrow> pystr" where
  "route_template c =
     (let rq = ac_request c in
      case ac_scope_route c of
        Some path \<Rightarrow>
          if starts_with [47] path then path
          else (case ac_matched_route c of Some p \<Rightarrow> p
            | None \<Rightarrow> if is_read_api rq then lit ''/api/v1/unmatched''
                else if starts_with (lit ''/health/'') (rq_path rq) then lit ''/health/unmatched''
                else lit ''/unmatched'')
      | None \<Rightarrow>
          (case ac_matched_route c of Some p \<Rightarrow> p
            | None \<Rightarrow> if is_read_api rq then lit ''/api/v1/unmatched''
                else if starts_with (lit ''/health/'') (rq_path rq) then lit ''/health/unmatched''
                else lit ''/unmatched''))"

section \<open>The decision\<close>

text \<open>What the \<open>try\<close> block leaves: the response or exception, the outcome, the consumer key.\<close>

record verdict =
  vd_result :: "error + http_response"
  vd_outcome :: auth_outcome
  vd_key :: "pystr option"

definition admit_consumer ::
  "('s, 'h, 'a, 'o) api_gate \<Rightarrow> api_call \<Rightarrow> consumer_identity \<Rightarrow> pystr \<Rightarrow> ('s, 'h, 'a, 'o) api_state \<Rightarrow>
    verdict \<times> ('s, 'h, 'a, 'o) api_state" where
  "admit_consumer g c i key s =
     (let next = (\<lambda>s. case ag_call_next g (ac_request c) (Some i) (as_handler s) of (r, h) \<Rightarrow>
            (\<lparr>vd_result = r, vd_outcome = Authenticated, vd_key = Some key\<rparr>, s\<lparr>as_handler := h\<rparr>))
      in case ag_limiter g of
        None \<Rightarrow> next s
      | Some limit \<Rightarrow>
          (case limit key (ac_started c) (as_limits s) of
             (Inl _, l) \<Rightarrow>
               (\<lparr>vd_result = Inr (json_response 503 ''rate_limit_service_unavailable''),
                 vd_outcome = RateLimitUnavailable, vd_key = Some key\<rparr>, s\<lparr>as_limits := l\<rparr>)
           | (Inr d, l) \<Rightarrow>
               if \<not> ld_allowed d then
                 (\<lparr>vd_result = Inr (set_header ''retry-after'' (py_str_int (max 1 (ld_retry_after d)))
                     (json_response 429 ''consumer_rate_limit_exceeded'')),
                   vd_outcome = RateLimited, vd_key = Some key\<rparr>, s\<lparr>as_limits := l\<rparr>)
               else next (s\<lparr>as_limits := l\<rparr>)))"

definition decide ::
  "('s, 'h, 'a, 'o) api_gate \<Rightarrow> api_call \<Rightarrow> ('s, 'h, 'a, 'o) api_state \<Rightarrow>
    verdict \<times> ('s, 'h, 'a, 'o) api_state" where
  "decide g c s =
     (let rq = ac_request c; boundary = (if is_read_api rq then PrivateBoundary else NotApplicable)
      in case (if is_read_api rq then ag_authorizer g else None) of
        None \<Rightarrow>
          (case ag_call_next g rq None (as_handler s) of (r, h) \<Rightarrow>
             (\<lparr>vd_result = r, vd_outcome = boundary, vd_key = None\<rparr>, s\<lparr>as_handler := h\<rparr>))
      | Some az \<Rightarrow>
          (case az rq of
             Inl e \<Rightarrow>
               if e = ConsumerAuthentication then
                 (\<lparr>vd_result = Inr (json_response 401 ''consumer_authentication_required''),
                   vd_outcome = AuthenticationFailed, vd_key = None\<rparr>, s)
               else
                 (\<lparr>vd_result = Inr (json_response 503 ''authorization_service_unavailable''),
                   vd_outcome = AuthorizationUnavailable, vd_key = None\<rparr>, s)
           | Inr i \<Rightarrow>
               (case consumer_subject_digest (ag_sha g) (id_subject i) of
                  Inl e \<Rightarrow> (\<lparr>vd_result = Inl e, vd_outcome = boundary, vd_key = None\<rparr>, s)
                | Inr key \<Rightarrow>
                    if analytics_read \<notin> id_scopes i then
                      (\<lparr>vd_result = Inr (json_response 403 ''analytics_read_scope_required''),
                        vd_outcome = ScopeDenied, vd_key = Some key\<rparr>, s)
                    else admit_consumer g c i key s)))"

section \<open>Observation, audit and response\<close>

definition status_of :: "error + http_response \<Rightarrow> int" where
  "status_of r = (case r of Inl _ \<Rightarrow> 500 | Inr resp \<Rightarrow> rs_status resp)"

definition request_id_of :: "api_call \<Rightarrow> pystr" where
  "request_id_of c = (if request_id_ok (ac_candidate_id c) then ac_candidate_id c else ac_fresh_id c)"

definition duration_ms :: "api_call \<Rightarrow> rat" where
  "duration_ms c = max 0 (double (double (ac_ended c - ac_started c) * 1000))"

definition observation_of :: "('s, 'h, 'a, 'o) api_gate \<Rightarrow> api_call \<Rightarrow> verdict \<Rightarrow> api_observation" where
  "observation_of g c v =
     (let budget = budget_for (ag_policy g) (route_template c)
      in \<lparr>ob_request_id = request_id_of c, ob_method = rq_method (ac_request c),
          ob_route_template = route_template c, ob_status_code = status_of (vd_result v),
          ob_duration_ms = duration_ms c, ob_budget_ms = budget,
          ob_budget_exceeded = (of_int budget < duration_ms c), ob_auth_outcome = vd_outcome v\<rparr>)"

definition event_clock :: "int \<Rightarrow> pydatetime \<Rightarrow> pydatetime" where
  "event_clock local_offset v =
     (case tz v of NoTz \<Rightarrow> utc (wall v) | TzNoOffset \<Rightarrow> utc (wall v - local_offset)
      | TzOffset off \<Rightarrow> utc (wall v - off))"

definition access_event_of :: "('s, 'h, 'a, 'o) api_gate \<Rightarrow> api_call \<Rightarrow> verdict \<Rightarrow> access_event" where
  "access_event_of g c v =
     \<lparr>ev_occurred_at = Some (event_clock (ag_local_offset g) (ac_clock c)), ev_request_id = request_id_of c,
      ev_consumer_key = vd_key v, ev_method = rq_method (ac_request c),
      ev_route_template = route_template c, ev_status_code = status_of (vd_result v),
      ev_auth_outcome = outcome_text (vd_outcome v)\<rparr>"

definition finish_request ::
  "('s, 'h, 'a, 'o) api_gate \<Rightarrow> api_call \<Rightarrow> verdict \<Rightarrow> ('s, 'h, 'a, 'o) api_state \<Rightarrow>
    ('s, 'h, 'a, 'o) api_state" where
  "finish_request g c v s =
     (let s1 = s\<lparr>as_observed := snd (ag_observe g (observation_of g c v) (as_observed s))\<rparr>
      in if is_read_api (ac_request c)
         then s1\<lparr>as_audit := snd (ag_record g (access_event_of g c v) (as_audit s1))\<rparr> else s1)"

text \<open>\<open>f"{value:.3f}"\<close> of a value that is not negative.\<close>

definition fixed_three :: "rat \<Rightarrow> pystr" where
  "fixed_three x =
     (let n = round_half_even (x * 1000); r = n mod 1000
      in py_str_int (n div 1000) @ [46, 48 + nat (r div 100), 48 + nat (r div 10 mod 10), 48 + nat (r mod 10)])"

definition complete_response ::
  "('s, 'h, 'a, 'o) api_gate \<Rightarrow> api_call \<Rightarrow> http_response \<Rightarrow> http_response" where
  "complete_response g c r =
     (let budget = budget_for (ag_policy g) (route_template c);
          r1 = set_header ''x-request-id'' (request_id_of c) r;
          r2 = set_header ''server-timing'' (lit ''app;dur='' @ fixed_three (duration_ms c)) r1;
          r3 = set_header ''x-query-budget''
            (if of_int budget < duration_ms c then lit ''exceeded'' else lit ''met'') r2;
          r4 = set_header ''x-content-type-options'' (lit ''nosniff'') r3;
          r5 = set_header ''referrer-policy'' (lit ''no-referrer'') r4;
          r6 = set_header ''content-security-policy''
            (lit ''default-src 'none'; frame-ancestors 'none'' @ [39]) r5
      in if rs_headers r6 (lit ''cache-control'') = None
         then set_header ''cache-control'' (lit ''no-store'') r6 else r6)"

definition request_middleware ::
  "('s, 'h, 'a, 'o) api_gate \<Rightarrow> api_call \<Rightarrow> ('s, 'h, 'a, 'o) api_state \<Rightarrow>
    (error + http_response) \<times> ('s, 'h, 'a, 'o) api_state" where
  "request_middleware g c s =
     (case decide g c s of (v, s1) \<Rightarrow>
        (case vd_result v of Inl e \<Rightarrow> Inl e | Inr r \<Rightarrow> Inr (complete_response g c r), finish_request g c v s1))"

section \<open>What reaches the handlers\<close>

definition consulted :: "verdict \<Rightarrow> bool" where
  "consulted v \<longleftrightarrow> vd_outcome v \<in> {Authenticated, RateLimited, RateLimitUnavailable}"

definition served :: "verdict \<Rightarrow> bool" where
  "served v \<longleftrightarrow> vd_outcome v = Authenticated"

definition guarded :: "('s, 'h, 'a, 'o) api_gate \<Rightarrow> (http_request \<Rightarrow> error + consumer_identity) \<Rightarrow>
    (pystr \<Rightarrow> rat \<Rightarrow> 's \<Rightarrow> (error + limit_decision) \<times> 's) \<Rightarrow> api_call \<Rightarrow> bool" where
  "guarded g az limit c \<longleftrightarrow>
     is_read_api (ac_request c) \<and> ag_authorizer g = Some az \<and> ag_limiter g = Some limit"

lemma admit_consumer_spec:
  assumes "ag_limiter g = Some limit" and "admit_consumer g c i key s = (v, s1)"
  shows "as_audit s1 = as_audit s" and "consulted v" and "vd_key v = Some key"
    and "as_limits s1 = snd (limit key (ac_started c) (as_limits s))"
    and "served v \<longleftrightarrow> (\<exists>d. fst (limit key (ac_started c) (as_limits s)) = Inr d \<and> ld_allowed d)"
    and "as_handler s1 = (if served v then snd (ag_call_next g (ac_request c) (Some i) (as_handler s))
      else as_handler s)"
proof -
  obtain r l where l: "limit key (ac_started c) (as_limits s) = (r, l)" by fastforce
  obtain r' h where h: "ag_call_next g (ac_request c) (Some i) (as_handler s) = (r', h)" by fastforce
  have "as_audit s1 = as_audit s \<and> consulted v \<and> vd_key v = Some key \<and> as_limits s1 = l \<and>
      (served v \<longleftrightarrow> (\<exists>d. r = Inr d \<and> ld_allowed d)) \<and>
      as_handler s1 = (if served v then h else as_handler s)"
    using assms(2) h
    by (cases r) (auto simp: admit_consumer_def assms(1) l Let_def consulted_def served_def split: if_splits)
  then show "as_audit s1 = as_audit s" "consulted v" "vd_key v = Some key"
    "as_limits s1 = snd (limit key (ac_started c) (as_limits s))"
    "served v \<longleftrightarrow> (\<exists>d. fst (limit key (ac_started c) (as_limits s)) = Inr d \<and> ld_allowed d)"
    "as_handler s1 = (if served v then snd (ag_call_next g (ac_request c) (Some i) (as_handler s))
      else as_handler s)"
    using l h by auto
qed

definition entitled :: "('s, 'h, 'a, 'o) api_gate \<Rightarrow> (http_request \<Rightarrow> error + consumer_identity) \<Rightarrow>
    api_call \<Rightarrow> consumer_identity \<Rightarrow> pystr \<Rightarrow> bool" where
  "entitled g az c i key \<longleftrightarrow>
     az (ac_request c) = Inr i \<and> analytics_read \<in> id_scopes i \<and>
     consumer_subject_digest (ag_sha g) (id_subject i) = Inr key"

lemma decide_cases:
  assumes "guarded g az limit c" and "decide g c s = (v, s1)"
  obtains (refused) "\<not> consulted v" "\<not> served v" "s1 = s" "\<forall>i key. \<not> entitled g az c i key"
  | (entitled) i key where "entitled g az c i key" "admit_consumer g c i key s = (v, s1)"
proof (cases "az (ac_request c)")
  case (Inl e)
  with assms have "\<not> consulted v \<and> \<not> served v \<and> s1 = s \<and> (\<forall>i key. \<not> entitled g az c i key)"
    by (auto simp: entitled_def decide_def guarded_def Let_def consulted_def served_def split: if_splits)
  then show thesis using refused by blast
next
  case i: (Inr i)
  show thesis
  proof (cases "consumer_subject_digest (ag_sha g) (id_subject i)")
    case (Inl e)
    with assms i have "\<not> consulted v \<and> \<not> served v \<and> s1 = s \<and> (\<forall>i key. \<not> entitled g az c i key)"
      by (auto simp: entitled_def decide_def guarded_def Let_def consulted_def served_def)
    then show thesis using refused by blast
  next
    case key: (Inr key)
    show thesis
    proof (cases "analytics_read \<in> id_scopes i")
      case True
      with assms i key show thesis
        by (intro entitled [of i key]) (auto simp: decide_def guarded_def Let_def entitled_def)
    next
      case False
      with assms i key have "\<not> consulted v \<and> \<not> served v \<and> s1 = s \<and> (\<forall>i key. \<not> entitled g az c i key)"
        by (auto simp: entitled_def decide_def guarded_def Let_def consulted_def served_def)
      then show thesis using refused by blast
    qed
  qed
qed

section \<open>Runs of the gate\<close>

type_synonym trace = "(api_call \<times> verdict) list"

definition gate_step ::
  "('s, 'h, 'a, 'o) api_gate \<Rightarrow> trace \<times> ('s, 'h, 'a, 'o) api_state \<Rightarrow> api_call \<Rightarrow>
    trace \<times> ('s, 'h, 'a, 'o) api_state" where
  "gate_step g ts c = (fst ts @ [(c, fst (decide g c (snd ts)))], snd (request_middleware g c (snd ts)))"

definition gate_run ::
  "('s, 'h, 'a, 'o) api_gate \<Rightarrow> api_call list \<Rightarrow> ('s, 'h, 'a, 'o) api_state \<Rightarrow>
    trace \<times> ('s, 'h, 'a, 'o) api_state" where
  "gate_run g cs s = foldl (gate_step g) ([], s) cs"

definition keyed_times :: "(verdict \<Rightarrow> bool) \<Rightarrow> trace \<Rightarrow> (pystr \<times> rat) list" where
  "keyed_times P tr = map (\<lambda>(c, v). (the (vd_key v), ac_started c)) (filter (\<lambda>(c, v). P v) tr)"

definition handled :: "('s, 'h, 'a, 'o) api_gate \<Rightarrow> (http_request \<Rightarrow> error + consumer_identity) \<Rightarrow>
    trace \<Rightarrow> 'h \<Rightarrow> 'h" where
  "handled g az tr h = foldl (\<lambda>h (c, v). snd (ag_call_next g (ac_request c) (Some (projr (az (ac_request c)))) h))
     h (filter (\<lambda>(c, v). served v) tr)"

definition audited :: "('s, 'h, 'a, 'o) api_gate \<Rightarrow> trace \<Rightarrow> 'a \<Rightarrow> 'a" where
  "audited g tr a = foldl (\<lambda>a (c, v). snd (ag_record g (access_event_of g c v) a)) a tr"

text \<open>
  One request against the requests before it: it is served only if entitled and with room in its
  consumer's window, and it is served if it also can be tracked; the limiter is consulted exactly
  for the entitled.
\<close>

definition request_decided ::
  "('s, 'h, 'a, 'o) api_gate \<Rightarrow> (http_request \<Rightarrow> error + consumer_identity) \<Rightarrow> limiter_config \<Rightarrow>
    trace \<Rightarrow> api_call \<Rightarrow> verdict \<Rightarrow> bool" where
  "request_decided g az cfg earlier c v \<longleftrightarrow>
     (consulted v \<longleftrightarrow> (\<exists>i key. entitled g az c i key)) \<and>
     (served v \<longrightarrow> (\<exists>i key. entitled g az c i key \<and> vd_key v = Some key \<and>
        has_room cfg (ac_started c) key (keyed_times served earlier))) \<and>
     (\<forall>i key. entitled g az c i key \<and> has_room cfg (ac_started c) key (keyed_times served earlier) \<and>
        trackable cfg (ac_started c) key (keyed_times served earlier) \<longrightarrow> served v)"

definition gate_inv where
  "gate_inv g az cfg s0 cs ts \<longleftrightarrow>
     map fst (fst ts) = cs \<and>
     (\<forall>n < length (fst ts). request_decided g az cfg (take n (fst ts)) (fst (fst ts ! n)) (snd (fst ts ! n))) \<and>
     (\<forall>(c, v) \<in> set (fst ts). served v \<longrightarrow> (\<exists>i key. entitled g az c i key \<and> vd_key v = Some key)) \<and>
     limiter_run cfg (keyed_times consulted (fst ts)) = (keyed_times served (fst ts), as_limits (snd ts)) \<and>
     as_handler (snd ts) = handled g az (fst ts) (as_handler s0) \<and>
     as_audit (snd ts) = audited g (fst ts) (as_audit s0)"

lemma middleware_state:
  assumes "decide g c s = (v, s1)" and "is_read_api (ac_request c)" and "as_audit s1 = as_audit s"
  shows "as_limits (snd (request_middleware g c s)) = as_limits s1"
    and "as_handler (snd (request_middleware g c s)) = as_handler s1"
    and "as_audit (snd (request_middleware g c s)) =
      snd (ag_record g (access_event_of g c v) (as_audit s))"
  using assms by (simp_all add: request_middleware_def finish_request_def Let_def)

lemma limiter_run_snoc:
  "limiter_run cfg (es @ [e]) = limiter_step cfg (limiter_run cfg es) e"
  by (simp add: limiter_run_def)

lemma request_decided_refused:
  "\<not> consulted v \<Longrightarrow> \<not> served v \<Longrightarrow> \<forall>i key. \<not> entitled g az c i key \<Longrightarrow> request_decided g az cfg tr c v"
  by (simp add: request_decided_def)

lemma request_decided_entitled:
  assumes ent: "entitled g az c i key" and v: "consulted v" "vd_key v = Some key"
    and served: "served v \<longleftrightarrow> (\<exists>d. fst (limiter_check cfg key (ac_started c) l) = Inr d \<and> ld_allowed d)"
    and run: "limiter_run cfg (keyed_times consulted tr) = (keyed_times served tr, l)"
    and sorted: "sorted (map (ac_started \<circ> fst) tr @ [ac_started c])"
    and sha: "\<forall>x. length (ag_sha g x) = 64"
  shows "request_decided g az cfg tr c v"
proof -
  let ?es = "keyed_times consulted tr"
  have es: "map snd ?es = map (ac_started \<circ> fst) (filter (\<lambda>(c, v). consulted v) tr)"
    by (auto simp: keyed_times_def)
  have "sorted (map snd ?es)" unfolding es using sorted by (simp add: sorted_append sorted_filter)
  moreover have "\<forall>t \<in> set (map snd ?es). t \<le> ac_started c" unfolding es using sorted by (auto simp: sorted_append)
  ultimately have es: "sorted (map snd ?es)" "\<forall>e \<in> set ?es. snd e \<le> ac_started c" by simp_all
  have same: "i' = i \<and> key' = key" if "entitled g az c i' key'" for i' key'
    using ent that by (auto simp: entitled_def)
  have "length key = 64" using ent sha
    by (auto simp: entitled_def consumer_subject_digest_def Let_def split: if_splits)
  note decides = limiter_decides(1) [OF es run] limiter_decides(2) [OF es run this]
  show ?thesis unfolding request_decided_def
  proof (intro conjI allI impI)
    show "consulted v \<longleftrightarrow> (\<exists>i key. entitled g az c i key)" using ent v by blast
    show "\<exists>i key. entitled g az c i key \<and> vd_key v = Some key \<and>
        has_room cfg (ac_started c) key (keyed_times served tr)" if "served v"
      using that served decides(1) ent v by blast
    show "served v" if "entitled g az c i' key' \<and> has_room cfg (ac_started c) key' (keyed_times served tr) \<and>
        trackable cfg (ac_started c) key' (keyed_times served tr)" for i' key'
      using that served decides(2) same by blast
  qed
qed

lemma gate_inv_run:
  assumes "\<And>c. c \<in> set cs \<Longrightarrow> guarded g az (limiter_check cfg) c" and "as_limits s0 = []"
    and "sorted (map ac_started cs)" and sha: "\<forall>x. length (ag_sha g x) = 64"
  shows "gate_inv g az cfg s0 cs (gate_run g cs s0)"
  using assms(1,3)
proof (induction cs rule: rev_induct)
  case Nil
  show ?case
    by (simp add: gate_run_def gate_inv_def keyed_times_def limiter_run_def assms(2) handled_def audited_def)
next
  case (snoc c cs)
  obtain tr s where ts: "gate_run g cs s0 = (tr, s)" by fastforce
  obtain v s1 where d: "decide g c s = (v, s1)" by fastforce
  have inv: "gate_inv g az cfg s0 cs (tr, s)" using snoc ts by (simp add: sorted_append)
  have cs: "map fst tr = cs" using inv by (simp add: gate_inv_def)
  have sorted: "sorted (map (ac_started \<circ> fst) tr @ [ac_started c])"
    using snoc.prems(2) unfolding cs [symmetric] by simp
  have g: "guarded g az (limiter_check cfg) c" using snoc.prems by simp
  then have lim: "ag_limiter g = Some (limiter_check cfg)" and read: "is_read_api (ac_request c)"
    by (simp_all add: guarded_def)
  define s2 where "s2 = snd (request_middleware g c s)"
  have run: "gate_run g (cs @ [c]) s0 = (tr @ [(c, v)], s2)"
    using ts d by (simp add: gate_run_def gate_step_def s2_def)
  show ?case
  proof (cases rule: decide_cases [OF g d])
    case refused: 1
    have "as_limits s2 = as_limits s" "as_handler s2 = as_handler s"
      "as_audit s2 = snd (ag_record g (access_event_of g c v) (as_audit s))"
      unfolding s2_def using middleware_state [OF d read] refused(3) by simp_all
    with inv refused request_decided_refused [OF refused(1,2,4)] show ?thesis
      unfolding run
      by (simp add: gate_inv_def keyed_times_def handled_def audited_def less_Suc_eq nth_append all_conj_distrib)
  next
    case (2 i key)
    note spec = admit_consumer_spec [OF lim 2(2)]
    have s2: "as_limits s2 = as_limits s1" "as_handler s2 = as_handler s1"
      "as_audit s2 = snd (ag_record g (access_event_of g c v) (as_audit s))"
      unfolding s2_def using middleware_state [OF d read spec(1)] by simp_all
    have az: "projr (az (ac_request c)) = i" using 2(1) by (simp add: entitled_def)
    have lr: "limiter_run cfg (keyed_times consulted tr) = (keyed_times served tr, as_limits s)"
      using inv by (simp add: gate_inv_def)
    have "limiter_run cfg (keyed_times consulted (tr @ [(c, v)])) =
        (keyed_times served (tr @ [(c, v)]), as_limits s2)"
    proof -
      obtain r l where l: "limiter_check cfg key (ac_started c) (as_limits s) = (r, l)" by fastforce
      show ?thesis using spec(2-5) lr l
        by (cases r) (auto simp: keyed_times_def limiter_run_snoc limiter_step_def s2(1))
    qed
    moreover have "as_handler s2 = handled g az (tr @ [(c, v)]) (as_handler s0)"
      using inv spec(6) az by (auto simp: gate_inv_def handled_def s2(2))
    moreover have "as_audit s2 = audited g (tr @ [(c, v)]) (as_audit s0)"
      using inv by (simp add: gate_inv_def audited_def s2(3))
    moreover have "request_decided g az cfg tr c v"
      using 2(1) spec(2,3,5) lr sorted sha by (rule request_decided_entitled)
    ultimately show ?thesis
      using inv 2(1) spec(3) unfolding run
      by (simp add: gate_inv_def less_Suc_eq nth_append all_conj_distrib) blast
  qed
qed

text \<open>
  C16: the read API is fail closed, rate limited and fully audited.  Over any sequence of read
  requests in clock order, under the configuration the deployment requires (an authorizer, the
  process-local limiter with its empty table, 64-character digests): the limiter is consulted exactly
  for the requests that authenticate and have the analytics scope; one of those is served only with
  room in the sliding window of its subject's digest, and it is served whenever there is room and the
  limiter can track the consumer; the route handlers run exactly for the requests served, and every
  request, served or refused, is recorded once in the audit; no sliding window holds more than
  \<open>max_requests\<close> of one consumer's served requests.
\<close>

theorem read_api_is_fail_closed:
  assumes "\<forall>c \<in> set cs. guarded g az (limiter_check cfg) c" and "as_limits s0 = []"
    and "\<forall>x. length (ag_sha g x) = 64"
    and "sorted (map ac_started cs)" and "gate_run g cs s0 = (tr, s)"
  shows "map fst tr = cs \<and>
    (\<forall>n < length tr. request_decided g az cfg (take n tr) (fst (tr ! n)) (snd (tr ! n))) \<and>
    as_handler s = handled g az tr (as_handler s0) \<and> as_audit s = audited g tr (as_audit s0) \<and>
    (\<forall>(c, v) \<in> {x \<in> set tr. served (snd x)}. \<exists>i key. entitled g az c i key \<and> vd_key v = Some key) \<and>
    capped (sliding cfg) (nat (lm_max_requests cfg)) (admitted_times key (keyed_times served tr))"
proof -
  have inv: "gate_inv g az cfg s0 cs (tr, s)"
    using gate_inv_run [of cs g az cfg s0] assms(1-4) by (simp add: assms(5))
  have "map snd (keyed_times consulted tr) = map (ac_started \<circ> fst) (filter (\<lambda>(c, v). consulted v) tr)"
    by (auto simp: keyed_times_def)
  moreover have "sorted (map (ac_started \<circ> fst) tr)" using inv assms(4) by (simp add: gate_inv_def flip: map_map)
  ultimately have "sorted (map snd (keyed_times consulted tr))" by (simp only: sorted_filter)
  from limiter_inv_run [OF this, of cfg] inv
  have "capped (sliding cfg) (nat (lm_max_requests cfg)) (admitted_times key (keyed_times served tr))"
    by (simp add: gate_inv_def limiter_inv_def)
  with inv show ?thesis by (fastforce simp: gate_inv_def)
qed

definition sample_gate :: "(buckets, nat, access_event list, unit) api_gate" where
  "sample_gate =
     \<lparr>ag_authorizer = Some (\<lambda>_. Inr \<lparr>id_subject = [115], id_scopes = {analytics_read}\<rparr>),
      ag_limiter = Some (limiter_check sample_limits),
      ag_call_next = (\<lambda>rq i n. (Inr (json_response 200 ''ok''), n + 1)),
      ag_record = (\<lambda>e log. (Inr (), log @ [e])), ag_observe = (\<lambda>_ _. (Inr (), ())),
      ag_policy = \<lparr>pp_default_budget = 750, pp_health_budget = 250, pp_route_budgets = []\<rparr>,
      ag_sha = (\<lambda>_. sample_key), ag_local_offset = 0\<rparr>"

definition sample_call :: "rat \<Rightarrow> api_call" where
  "sample_call t =
     \<lparr>ac_request = \<lparr>rq_method = lit ''GET'', rq_path = lit ''/api/v1/works/1'', rq_getlist = (\<lambda>_. [])\<rparr>,
      ac_candidate_id = [], ac_fresh_id = [48], ac_started = t, ac_ended = t, ac_clock = utc 0,
      ac_scope_route = None, ac_matched_route = Some (lit ''/api/v1/works/{work_id}'')\<rparr>"

definition sample_state :: "(buckets, nat, access_event list, unit) api_state" where
  "sample_state = \<lparr>as_limits = [], as_handler = 0, as_audit = [], as_observed = ()\<rparr>"

lemma sample_sha_length: "\<forall>x. length (ag_sha sample_gate x) = 64"
  by (simp add: sample_gate_def sample_key_def)

text \<open>Two requests within a minute under a limit of one: the first is served, the second is not.\<close>

lemma read_api_is_fail_closed_witness:
  "map fst (fst (gate_run sample_gate [sample_call 0, sample_call 30] sample_state)) =
     [sample_call 0, sample_call 30] \<and>
   map (served \<circ> snd) (fst (gate_run sample_gate [sample_call 0, sample_call 30] sample_state)) = [True, False] \<and>
   as_handler (snd (gate_run sample_gate [sample_call 0, sample_call 30] sample_state)) = 1"
proof -
  define az :: "http_request \<Rightarrow> error + consumer_identity" where
    "az = (\<lambda>_. Inr \<lparr>id_subject = [115], id_scopes = {analytics_read}\<rparr>)"
  obtain tr s where run: "gate_run sample_gate [sample_call 0, sample_call 30] sample_state = (tr, s)" by fastforce
  have read: "is_read_api (ac_request (sample_call t))" for t
    by (simp add: sample_call_def is_read_api_def starts_with_def lit_def)
  have gate: "ag_authorizer sample_gate = Some az" "ag_limiter sample_gate = Some (limiter_check sample_limits)"
    by (simp_all add: sample_gate_def az_def)
  have start: "ac_started (sample_call t) = t" for t by (simp add: sample_call_def)
  have cut: "window_cutoff sample_limits 0 = - 60" "window_cutoff sample_limits 30 = - 30"
    using sample_cutoff [of 0] sample_cutoff [of 30] by simp_all
  have digest: "consumer_subject_digest (ag_sha sample_gate) [115] = Inr sample_key"
    by (simp add: consumer_subject_digest_def sample_gate_def utf8_encodable_def lit_def is_surrogate_def)
  have first: "limiter_check sample_limits sample_key 0 [] =
      (Inr \<lparr>ld_allowed = True, ld_retry_after = 0\<rparr>, [(sample_key, [0])])"
    by (simp add: limiter_check_def sample_key_def prune_empty_def admit_def expire_def put_bucket_def Let_def cut)
      (simp add: sample_limits_def)
  have "\<exists>d. limiter_check sample_limits sample_key 30 [(sample_key, [0])] = (Inr d, [(sample_key, [0])]) \<and>
      \<not> ld_allowed d"
    by (simp add: limiter_check_def admit_def expire_def put_bucket_def Let_def cut)
      (simp add: sample_limits_def sample_key_def)
  then obtain d where second: "limiter_check sample_limits sample_key 30 [(sample_key, [0])] =
      (Inr d, [(sample_key, [0])])" "\<not> ld_allowed d" by blast
  have "map (served \<circ> snd) tr = [True, False] \<and> as_handler s = 1"
    using run first second read digest
    by (auto simp: gate_run_def gate_step_def decide_def gate az_def admit_consumer_def start sample_state_def Let_def
        request_middleware_def finish_request_def served_def) (simp_all add: sample_gate_def)
  moreover have "map fst tr = [sample_call 0, sample_call 30]"
    using read_api_is_fail_closed [of "[sample_call 0, sample_call 30]" sample_gate az sample_limits sample_state tr s]
      run start read gate sample_sha_length by (simp add: sample_state_def guarded_def)
  ultimately show ?thesis using run by simp
qed

end
