(* ===== verification/Upsert.thy ===== *)
theory Upsert
  imports Prelude
begin

text \<open>
  Upserts by a natural key, as the catalog tables do them: a table keeps one row per natural key, and
  a row that is refreshed only by an observation at least as new shows the newest one.  The
  \<open>natural_upsert\<close> locale is the contract of one upsert; every table of a catalog interprets it.
\<close>

section \<open>One upsert\<close>

text \<open>
  An upsert looks a row up by its natural key, inserts a new row when there is none, and refreshes the
  row it found otherwise.
\<close>

definition upsert_by ::
  "('r \<Rightarrow> int) \<Rightarrow> ('r \<Rightarrow> 'k) \<Rightarrow> 'k \<Rightarrow> ('r \<Rightarrow> 'r) \<Rightarrow> (int \<Rightarrow> 'r) \<Rightarrow> 'r list \<Rightarrow> 'r \<times> 'r list" where
  "upsert_by pk nk k refresh new rows =
     (case find (\<lambda>r. nk r = k) rows of
        None \<Rightarrow> (let r = new (fresh_key pk rows) in (r, rows @ [r]))
      | Some r \<Rightarrow> (refresh r, row_update pk (pk r) refresh rows))"

text \<open>A table keeps one row per natural key; an upsert keeps the keys and replaces one row.\<close>

definition keys_ok :: "('r \<Rightarrow> int) \<Rightarrow> ('r \<Rightarrow> 'k) \<Rightarrow> 'r list \<Rightarrow> bool" where
  "keys_ok pk nk rows \<longleftrightarrow> distinct (map pk rows) \<and> distinct (map nk rows)"

definition key_pairs :: "('r \<Rightarrow> int) \<Rightarrow> ('r \<Rightarrow> 'k) \<Rightarrow> 'r list \<Rightarrow> (int \<times> 'k) set" where
  "key_pairs pk nk rows = (\<lambda>r. (pk r, nk r)) ` set rows"

locale natural_upsert =
  fixes pk :: "'r \<Rightarrow> int" and nk :: "'r \<Rightarrow> 'k" and k :: 'k
    and refresh :: "'r \<Rightarrow> 'r" and new :: "int \<Rightarrow> 'r"
  assumes refresh_keys: "pk (refresh r) = pk r" "nk (refresh r) = nk r"
    and new_keys: "pk (new i) = i" "nk (new i) = k"
begin

lemma upsert_cases:
  assumes "upsert_by pk nk k refresh new rows = (x, rows')" and "keys_ok pk nk rows"
  obtains (inserted) "k \<notin> nk ` set rows" "x = new (fresh_key pk rows)" "rows' = rows @ [x]"
  | (refreshed) r where "r \<in> set rows" "nk r = k" "x = refresh r"
      "rows' = row_update pk (pk r) refresh rows"
proof (cases "find (\<lambda>r. nk r = k) rows")
  case None
  then have "k \<notin> nk ` set rows" by (auto simp: find_None_iff)
  with assms None show thesis by (intro inserted) (auto simp: upsert_by_def Let_def)
next
  case (Some r)
  with assms refreshed [of r] show thesis by (auto simp: upsert_by_def dest: find_SomeD)
qed

lemma upsert_row:
  assumes "upsert_by pk nk k refresh new rows = (x, rows')" and "keys_ok pk nk rows"
  shows "nk x = k" and "x \<in> set rows'" and "set rows' = {r \<in> set rows. nk r \<noteq> k} \<union> {x}"
    and "keys_ok pk nk rows'" and "key_pairs pk nk rows \<subseteq> key_pairs pk nk rows'"
proof -
  have "nk x = k \<and> x \<in> set rows' \<and> set rows' = {r \<in> set rows. nk r \<noteq> k} \<union> {x} \<and>
      keys_ok pk nk rows' \<and> key_pairs pk nk rows \<subseteq> key_pairs pk nk rows'"
  proof (cases rule: upsert_cases [OF assms])
    case inserted: 1
    with assms(2) fresh_key_notin [of pk rows] show ?thesis
      by (auto simp: new_keys keys_ok_def key_pairs_def)
  next
    case refreshed: (2 r)
    have only: "pk r' = pk r \<longleftrightarrow> nk r' = k" if "r' \<in> set rows" for r'
      using that refreshed(1,2) assms(2) row_key_eq [of pk rows r' r] row_key_eq [of nk rows r' r]
      by (auto simp: keys_ok_def)
    have sets: "set rows' = {r \<in> set rows. nk r \<noteq> k} \<union> {x}"
    proof (intro set_eqI iffI)
      fix y assume "y \<in> set rows'"
      then obtain r' where "r' \<in> set rows" "y = (if pk r' = pk r then refresh r' else r')"
        by (auto simp: refreshed(4) set_row_update)
      then show "y \<in> {r \<in> set rows. nk r \<noteq> k} \<union> {x}"
        using only [of r'] refreshed(1-3) row_key_eq [of pk rows r' r] assms(2)
        by (auto simp: keys_ok_def split: if_splits)
    next
      fix y assume "y \<in> {r \<in> set rows. nk r \<noteq> k} \<union> {x}"
      then consider "y = x" | "y \<in> set rows" "nk y \<noteq> k" by blast
      then show "y \<in> set rows'"
      proof cases
        case 1
        then have "y = (if pk r = pk r then refresh r else r)" using refreshed(3) by simp
        then show ?thesis unfolding refreshed(4) set_row_update using refreshed(1) by (rule bexI)
      next
        case 2
        then have "y = (if pk y = pk r then refresh y else y)" using only by simp
        then show ?thesis unfolding refreshed(4) set_row_update using 2(1) by (rule bexI)
      qed
    qed
    have "map pk rows' = map pk rows" "map nk rows' = map nk rows"
      unfolding refreshed(4) by (simp_all add: map_row_update_same refresh_keys)
    then have "keys_ok pk nk rows'" using assms(2) by (simp add: keys_ok_def)
    moreover have "key_pairs pk nk rows' = key_pairs pk nk rows"
      unfolding key_pairs_def set_map [symmetric] refreshed(4)
      by (simp only: map_row_update_same refresh_keys)
    ultimately show ?thesis using sets refreshed(2,3) by (simp add: refresh_keys)
  qed
  then show "nk x = k" "x \<in> set rows'" "set rows' = {r \<in> set rows. nk r \<noteq> k} \<union> {x}"
    "keys_ok pk nk rows'" "key_pairs pk nk rows \<subseteq> key_pairs pk nk rows'" by blast+
qed

end

context natural_upsert
begin

lemma upsert_all:
  assumes "upsert_by pk nk k refresh new rows = (x, rows')" and "keys_ok pk nk rows"
    and "\<forall>r \<in> set rows. P r" and "\<And>i. P (new i)"
    and "\<And>r. P r \<Longrightarrow> nk r = k \<Longrightarrow> P (refresh r)"
  shows "\<forall>r \<in> set rows'. P r"
proof -
  have "P x" using assms(3-5) by (cases rule: upsert_cases [OF assms(1,2)]) auto
  then show ?thesis using upsert_row(3) [OF assms(1,2)] assms(3) by auto
qed

lemma upsert_keeps_ids:
  assumes "upsert_by pk nk k refresh new rows = (x, rows')" and "keys_ok pk nk rows"
  shows "pk ` set rows \<subseteq> pk ` set rows'" and "pk x \<in> pk ` set rows'"
proof -
  have "fst ` key_pairs pk nk rows \<subseteq> fst ` key_pairs pk nk rows'"
    using upsert_row(5) [OF assms] by (rule image_mono)
  then show "pk ` set rows \<subseteq> pk ` set rows'" by (simp add: key_pairs_def image_image)
  show "pk x \<in> pk ` set rows'" using upsert_row(2) [OF assms] by simp
qed

end

section \<open>The newest observation\<close>

definition newest :: "('n \<Rightarrow> instant) \<Rightarrow> ('n \<Rightarrow> 'k) \<Rightarrow> 'n list \<Rightarrow> 'n \<Rightarrow> bool" where
  "newest observed key h n \<longleftrightarrow> n \<in> set h \<and> (\<forall>m \<in> set h. key m = key n \<longrightarrow> observed m \<le> observed n)"

lemma newest_snoc_other:
  "newest observed key h m \<Longrightarrow> key m \<noteq> key n \<Longrightarrow> newest observed key (h @ [n]) m"
  by (auto simp: newest_def)

lemma newest_snoc_older:
  "newest observed key h m \<Longrightarrow> key m = key n \<Longrightarrow> observed n \<le> observed m \<Longrightarrow> newest observed key (h @ [n]) m"
  by (auto simp: newest_def)

lemma newest_snoc_newer:
  "newest observed key h m \<Longrightarrow> key m = key n \<Longrightarrow> observed m \<le> observed n \<Longrightarrow> newest observed key (h @ [n]) n"
  by (fastforce simp: newest_def)

lemma newest_snoc_first: "key n \<notin> key ` set h \<Longrightarrow> newest observed key (h @ [n]) n"
  by (auto simp: newest_def image_iff)

lemma key_pair_get:
  assumes "keys_ok pk nk rows" and "(i, k) \<in> key_pairs pk nk rows"
  obtains r where "row_get pk i rows = Some r" and "r \<in> set rows" and "nk r = k" and "pk r = i"
  using assms row_get_unique [of pk rows] by (auto simp: key_pairs_def keys_ok_def)

text \<open>A row shows the newest entry of its key, and an upsert keeps it so.\<close>

context natural_upsert
begin

lemma upsert_shows:
  assumes u: "upsert_by pk nk k refresh new rows = (x, rows')" and ok: "keys_ok pk nk rows"
    and k: "key n = k" and ids: "nk ` set rows = key ` set h"
    and old: "\<And>r. r \<in> set rows \<Longrightarrow> \<exists>m. newest observed key h m \<and> shows r m"
    and shows_key: "\<And>r m. shows r m \<Longrightarrow> nk r = key m"
    and shows_new: "\<And>i. shows (new i) n"
    and newer: "\<And>r m. shows r m \<Longrightarrow> nk r = k \<Longrightarrow> observed m \<le> observed n \<Longrightarrow> shows (refresh r) n"
    and older: "\<And>r m. shows r m \<Longrightarrow> nk r = k \<Longrightarrow> observed n < observed m \<Longrightarrow> shows (refresh r) m"
    and b: "b \<in> set rows'"
  shows "\<exists>m. newest observed key (h @ [n]) m \<and> shows b m"
proof -
  consider "b \<in> set rows" "nk b \<noteq> k" | "b = x" using b upsert_row(3) [OF u ok] by blast
  then show ?thesis
  proof cases
    case 1
    then obtain m where m: "newest observed key h m" "shows b m" using old by blast
    then have "key m \<noteq> key n" using shows_key [OF m(2)] 1(2) k by simp
    then show ?thesis using newest_snoc_other [OF m(1)] m(2) by blast
  next
    case b: 2
    show ?thesis
    proof (cases rule: upsert_cases [OF u ok])
      case 1
      then have "newest observed key (h @ [n]) n" using ids k by (intro newest_snoc_first) simp
      then show ?thesis using 1(2) b shows_new by blast
    next
      case r: (2 r)
      obtain m where m: "newest observed key h m" "shows r m" using old r(1) by blast
      have key: "key m = key n" using shows_key [OF m(2)] r(2) k by simp
      show ?thesis
      proof (cases "observed m \<le> observed n")
        case True
        then show ?thesis using newest_snoc_newer [OF m(1) key True] newer [OF m(2) r(2)] b r(3) by blast
      next
        case False
        then show ?thesis using newest_snoc_older [OF m(1) key] older [OF m(2) r(2)] b r(3) by auto
      qed
    qed
  qed
qed

lemma upsert_ids:
  assumes u: "upsert_by pk nk k refresh new rows = (x, rows')" and ok: "keys_ok pk nk rows"
    and "key n = k" and "nk ` set rows = key ` set h"
  shows "nk ` set rows' = key ` set (h @ [n])"
proof -
  have "nk ` ({r \<in> set rows. nk r \<noteq> k} \<union> {x}) = insert k (nk ` set rows)"
    using upsert_row(1) [OF u ok] by blast
  then show ?thesis using upsert_row(3) [OF u ok] assms(3,4) by simp
qed

end

end
