(* ===== verification/Snapshots.thy ===== *)
theory Snapshots
  imports Floats Urls Upsert
begin

text \<open>
  Novel snapshots: the validated \<open>JjwxcNovel\<close> of \<open>src/pixiv_yuri/jjwxc/models.py\<close>, the author,
  novel, snapshot and chapter rows of \<open>src/pixiv_yuri/jjwxc/persistence.py\<close>, and the idempotent
  write of \<open>src/pixiv_yuri/jjwxc/snapshot_store.py\<close>.  A time column holds an instant, as PostgreSQL
  keeps it.  The SHA-256 of the JSON dump of a novel is the parameter \<open>digest\<close>.  A write works on
  the session; a raised exception is a session the caller rolls back.
\<close>

section \<open>The novel\<close>

text \<open>The five statuses of the source: serialised, finished, paused, locked and unknown.\<close>

datatype novel_status = Serialised | Finished | Paused | Locked | UnknownStatus

datatype source_mode = SyntheticFixture | PublicCandidate

record novel =
  nv_novel_id :: pystr
  nv_title :: pystr
  nv_author_id :: pystr
  nv_author_display_name :: pystr
  nv_novel_type :: pystr
  nv_perspective :: "pystr option"
  nv_status :: novel_status
  nv_word_count :: int
  nv_review_count :: int
  nv_favorite_count :: int
  nv_nutrition_count :: "int option"
  nv_points :: int
  nv_first_chapter_click_count :: "int option"
  nv_average_non_v :: "int option"
  nv_average_v :: "int option"
  nv_non_v_chapter_count :: int
  nv_v_chapter_count :: int
  nv_click_coverage :: int
  nv_synopsis_chars :: "int option"
  nv_synopsis_sentences :: "int option"
  nv_theme_terms :: "pystr list"
  nv_tags :: "pystr list"
  nv_observed_at :: pydatetime
  nv_source_mode :: source_mode

definition numeric_id_ok :: "pystr \<Rightarrow> bool" where
  "numeric_id_ok s \<longleftrightarrow> s \<noteq> [] \<and> length s \<le> 12 \<and> list_all is_digit s \<and> hd s \<noteq> 48"

definition text_between :: "nat \<Rightarrow> nat \<Rightarrow> pystr \<Rightarrow> bool" where
  "text_between a b s \<longleftrightarrow> a \<le> length s \<and> length s \<le> b"

definition nonneg_option :: "int option \<Rightarrow> bool" where
  "nonneg_option v \<longleftrightarrow> (case v of None \<Rightarrow> True | Some n \<Rightarrow> 0 \<le> n)"

definition at_most :: "int \<Rightarrow> int option \<Rightarrow> bool" where
  "at_most b v \<longleftrightarrow> (case v of None \<Rightarrow> True | Some n \<Rightarrow> n \<le> b)"

definition terms_ok :: "nat \<Rightarrow> nat \<Rightarrow> pystr list \<Rightarrow> bool" where
  "terms_ok count width ts \<longleftrightarrow>
     length ts \<le> count \<and> distinct ts \<and> list_all (\<lambda>t. py_strip t \<noteq> [] \<and> length t \<le> width) ts"

definition novel_valid :: "novel \<Rightarrow> bool" where
  "novel_valid n \<longleftrightarrow>
     numeric_id_ok (nv_novel_id n) \<and> text_between 1 200 (nv_title n) \<and>
     numeric_id_ok (nv_author_id n) \<and> text_between 1 80 (nv_author_display_name n) \<and>
     text_between 1 100 (nv_novel_type n) \<and>
     (case nv_perspective n of None \<Rightarrow> True | Some p \<Rightarrow> length p \<le> 30) \<and>
     0 \<le> nv_word_count n \<and> 0 \<le> nv_review_count n \<and> 0 \<le> nv_favorite_count n \<and>
     nonneg_option (nv_nutrition_count n) \<and> 0 \<le> nv_points n \<and>
     nonneg_option (nv_first_chapter_click_count n) \<and> nonneg_option (nv_average_non_v n) \<and>
     nonneg_option (nv_average_v n) \<and> 0 \<le> nv_non_v_chapter_count n \<and> 0 \<le> nv_v_chapter_count n \<and>
     0 \<le> nv_click_coverage n \<and>
     nonneg_option (nv_synopsis_chars n) \<and> at_most 100000 (nv_synopsis_chars n) \<and>
     nonneg_option (nv_synopsis_sentences n) \<and> at_most 10000 (nv_synopsis_sentences n) \<and>
     terms_ok 12 20 (nv_theme_terms n) \<and> terms_ok 20 40 (nv_tags n) \<and>
     is_ok (aware_utc (nv_observed_at n))"

text \<open>The three derived ratios, in basis points; a true division rounds to binary64.\<close>

definition click_basis_points :: "int \<Rightarrow> int \<Rightarrow> int" where
  "click_basis_points a b = round_half_even (double (of_int (a * 10000) / of_int b))"

definition v_to_non_v_retention :: "novel \<Rightarrow> int option" where
  "v_to_non_v_retention n =
     (case (nv_average_non_v n, nv_average_v n) of
        (Some non_v, Some v) \<Rightarrow> if non_v \<le> 0 then None else Some (click_basis_points v non_v)
      | _ \<Rightarrow> None)"

definition nutrition_to_favorite :: "novel \<Rightarrow> int option" where
  "nutrition_to_favorite n =
     (case nv_nutrition_count n of
        None \<Rightarrow> None
      | Some k \<Rightarrow> if nv_favorite_count n \<le> 0 then None else Some (click_basis_points k (nv_favorite_count n)))"

definition first_click_to_favorite :: "novel \<Rightarrow> int option" where
  "first_click_to_favorite n =
     (case nv_first_chapter_click_count n of
        None \<Rightarrow> None
      | Some k \<Rightarrow> if nv_favorite_count n \<le> 0 then None else Some (click_basis_points k (nv_favorite_count n)))"

section \<open>Tables\<close>

record author_row =
  au_id :: int
  au_author_id :: pystr
  au_display_name :: pystr
  au_first_seen_at :: instant
  au_last_seen_at :: instant

record novel_row =
  nr_id :: int
  nr_novel_id :: pystr
  nr_title :: pystr
  nr_author_record_id :: int
  nr_novel_type :: pystr
  nr_perspective :: "pystr option"
  nr_status :: novel_status
  nr_tags :: "pystr list"
  nr_first_seen_at :: instant
  nr_latest_observed_at :: instant

record snapshot_row =
  sn_id :: int
  sn_novel_record_id :: int
  sn_observed_at :: instant
  sn_word_count :: int
  sn_review_count :: int
  sn_favorite_count :: int
  sn_nutrition_count :: "int option"
  sn_points :: int
  sn_first_chapter_click_count :: "int option"
  sn_average_non_v :: "int option"
  sn_average_v :: "int option"
  sn_non_v_chapter_count :: int
  sn_v_chapter_count :: int
  sn_click_coverage :: int
  sn_synopsis_chars :: "int option"
  sn_synopsis_sentences :: "int option"
  sn_theme_terms :: "pystr list"
  sn_source_mode :: source_mode
  sn_candidate_sha256 :: pystr

record chapter_row =
  ch_id :: int
  ch_novel_record_id :: int
  ch_observed_at :: instant
  ch_chapter_id :: int
  ch_position :: int
  ch_is_vip :: bool
  ch_word_count :: int
  ch_click_count :: "int option"

record catalog =
  ct_authors :: "author_row list"
  ct_novels :: "novel_row list"
  ct_snapshots :: "snapshot_row list"
  ct_chapters :: "chapter_row list"

definition snapshot_row_ok :: "snapshot_row \<Rightarrow> bool" where
  "snapshot_row_ok s \<longleftrightarrow>
     0 \<le> sn_word_count s \<and> 0 \<le> sn_review_count s \<and> 0 \<le> sn_favorite_count s \<and>
     nonneg_option (sn_nutrition_count s) \<and> nonneg_option (sn_first_chapter_click_count s) \<and>
     0 \<le> sn_points s \<and> nonneg_option (sn_average_non_v s) \<and> nonneg_option (sn_average_v s) \<and>
     0 \<le> sn_non_v_chapter_count s \<and> 0 \<le> sn_v_chapter_count s \<and> 0 \<le> sn_click_coverage s \<and>
     nonneg_option (sn_synopsis_chars s) \<and> nonneg_option (sn_synopsis_sentences s) \<and>
     length (sn_candidate_sha256 s) = 64"

section \<open>The write\<close>

record snapshot_write =
  sw_author_record_id :: int
  sw_novel_record_id :: int
  sw_snapshot_id :: int
  sw_snapshot_created :: bool
  sw_projection_updated :: bool

definition as_utc :: "pydatetime \<Rightarrow> instant" where
  "as_utc v = (case tz v of TzOffset off \<Rightarrow> wall v - off | _ \<Rightarrow> wall v)"

definition new_author :: "novel \<Rightarrow> int \<Rightarrow> author_row" where
  "new_author n i =
     \<lparr>au_id = i, au_author_id = nv_author_id n, au_display_name = nv_author_display_name n,
      au_first_seen_at = as_utc (nv_observed_at n), au_last_seen_at = as_utc (nv_observed_at n)\<rparr>"

definition refresh_author :: "novel \<Rightarrow> author_row \<Rightarrow> author_row" where
  "refresh_author n a =
     (if au_last_seen_at a \<le> as_utc (nv_observed_at n)
      then a\<lparr>au_display_name := nv_author_display_name n, au_last_seen_at := as_utc (nv_observed_at n)\<rparr>
      else a)"

definition upsert_author :: "novel \<Rightarrow> author_row list \<Rightarrow> author_row \<times> author_row list" where
  "upsert_author n rows =
     upsert_by au_id au_author_id (nv_author_id n) (refresh_author n) (new_author n) rows"

definition new_novel :: "novel \<Rightarrow> author_row \<Rightarrow> int \<Rightarrow> novel_row" where
  "new_novel n a i =
     \<lparr>nr_id = i, nr_novel_id = nv_novel_id n, nr_title = nv_title n, nr_author_record_id = au_id a,
      nr_novel_type = nv_novel_type n, nr_perspective = nv_perspective n, nr_status = nv_status n,
      nr_tags = nv_tags n, nr_first_seen_at = as_utc (nv_observed_at n),
      nr_latest_observed_at = as_utc (nv_observed_at n)\<rparr>"

definition refresh_novel :: "novel \<Rightarrow> author_row \<Rightarrow> novel_row \<Rightarrow> novel_row" where
  "refresh_novel n a r =
     (if nr_latest_observed_at r \<le> as_utc (nv_observed_at n)
      then r\<lparr>nr_title := nv_title n, nr_author_record_id := au_id a, nr_novel_type := nv_novel_type n,
             nr_perspective := nv_perspective n, nr_status := nv_status n, nr_tags := nv_tags n,
             nr_latest_observed_at := as_utc (nv_observed_at n)\<rparr>
      else r)"

definition upsert_novel :: "novel \<Rightarrow> author_row \<Rightarrow> novel_row list \<Rightarrow> novel_row \<times> novel_row list" where
  "upsert_novel n a rows =
     upsert_by nr_id nr_novel_id (nv_novel_id n) (refresh_novel n a) (new_novel n a) rows"

definition snapshot_of :: "(novel \<Rightarrow> pystr) \<Rightarrow> int \<Rightarrow> int \<Rightarrow> novel \<Rightarrow> snapshot_row" where
  "snapshot_of digest sid rid n =
     \<lparr>sn_id = sid, sn_novel_record_id = rid, sn_observed_at = as_utc (nv_observed_at n),
      sn_word_count = nv_word_count n, sn_review_count = nv_review_count n,
      sn_favorite_count = nv_favorite_count n, sn_nutrition_count = nv_nutrition_count n,
      sn_points = nv_points n, sn_first_chapter_click_count = nv_first_chapter_click_count n,
      sn_average_non_v = nv_average_non_v n, sn_average_v = nv_average_v n,
      sn_non_v_chapter_count = nv_non_v_chapter_count n, sn_v_chapter_count = nv_v_chapter_count n,
      sn_click_coverage = nv_click_coverage n, sn_synopsis_chars = nv_synopsis_chars n,
      sn_synopsis_sentences = nv_synopsis_sentences n, sn_theme_terms = nv_theme_terms n,
      sn_source_mode = nv_source_mode n, sn_candidate_sha256 = digest n\<rparr>"

definition store_novel_snapshot ::
  "(novel \<Rightarrow> pystr) \<Rightarrow> novel \<Rightarrow> catalog \<Rightarrow> error + snapshot_write \<times> catalog" where
  "store_novel_snapshot digest n cat =
     (case find (\<lambda>s. sn_candidate_sha256 s = digest n) (ct_snapshots cat) of
        Some s \<Rightarrow>
          (case row_get nr_id (sn_novel_record_id s) (ct_novels cat) of
             None \<Rightarrow> Inl SnapshotConflict
           | Some r \<Rightarrow>
               if nr_novel_id r \<noteq> nv_novel_id n then Inl SnapshotConflict
               else (case row_get au_id (nr_author_record_id r) (ct_authors cat) of
                  None \<Rightarrow> Inl SnapshotConflict
                | Some a \<Rightarrow> Inr (\<lparr>sw_author_record_id = au_id a, sw_novel_record_id = nr_id r,
                    sw_snapshot_id = sn_id s, sw_snapshot_created = False,
                    sw_projection_updated = False\<rparr>, cat)))
      | None \<Rightarrow>
          let (a, authors) = upsert_author n (ct_authors cat);
              (r, novels) = upsert_novel n a (ct_novels cat)
          in if list_ex (\<lambda>s. sn_novel_record_id s = nr_id r \<and> sn_observed_at s = as_utc (nv_observed_at n))
                (ct_snapshots cat)
             then Inl SnapshotConflict
             else let s = snapshot_of digest (fresh_key sn_id (ct_snapshots cat)) (nr_id r) n
               in Inr (\<lparr>sw_author_record_id = au_id a, sw_novel_record_id = nr_id r,
                     sw_snapshot_id = sn_id s, sw_snapshot_created = True,
                     sw_projection_updated = (nr_latest_observed_at r \<le> as_utc (nv_observed_at n))\<rparr>,
                   cat\<lparr>ct_authors := authors, ct_novels := novels,
                       ct_snapshots := ct_snapshots cat @ [s]\<rparr>))"

interpretation authors: natural_upsert au_id au_author_id "nv_author_id n" "refresh_author n" "new_author n" for n
  by unfold_locales (simp_all add: refresh_author_def new_author_def)

interpretation novels: natural_upsert nr_id nr_novel_id "nv_novel_id n" "refresh_novel n a" "new_novel n a" for n a
  by unfold_locales (simp_all add: refresh_novel_def new_novel_def)

section \<open>The catalog shows the history\<close>

text \<open>
  The specification of the store is the list of the accepted novels: a write is accepted unless it
  is there already, or another observation of the novel has the same time.
\<close>

definition observed :: "novel \<Rightarrow> instant" where
  "observed n = as_utc (nv_observed_at n)"

definition same_observation :: "novel \<Rightarrow> novel \<Rightarrow> bool" where
  "same_observation m n \<longleftrightarrow> nv_novel_id m = nv_novel_id n \<and> observed m = observed n"

definition accept :: "novel list \<Rightarrow> novel \<Rightarrow> novel list" where
  "accept h n = (if n \<in> set h \<or> (\<exists>m \<in> set h. same_observation m n) then h else h @ [n])"

definition shows_author :: "author_row \<Rightarrow> novel \<Rightarrow> bool" where
  "shows_author a n \<longleftrightarrow>
     au_author_id a = nv_author_id n \<and> au_display_name a = nv_author_display_name n \<and>
     au_last_seen_at a = observed n"

definition shows_novel :: "author_row list \<Rightarrow> novel_row \<Rightarrow> novel \<Rightarrow> bool" where
  "shows_novel authors r n \<longleftrightarrow>
     nr_novel_id r = nv_novel_id n \<and> nr_title r = nv_title n \<and>
     (nr_author_record_id r, nv_author_id n) \<in> key_pairs au_id au_author_id authors \<and>
     nr_novel_type r = nv_novel_type n \<and> nr_perspective r = nv_perspective n \<and>
     nr_status r = nv_status n \<and> nr_tags r = nv_tags n \<and> nr_latest_observed_at r = observed n"

definition stores :: "(novel \<Rightarrow> pystr) \<Rightarrow> novel_row list \<Rightarrow> snapshot_row \<Rightarrow> novel \<Rightarrow> bool" where
  "stores digest novels s n \<longleftrightarrow>
     (sn_novel_record_id s, nv_novel_id n) \<in> key_pairs nr_id nr_novel_id novels \<and>
     s = snapshot_of digest (sn_id s) (sn_novel_record_id s) n"

definition represents :: "(novel \<Rightarrow> pystr) \<Rightarrow> novel list \<Rightarrow> catalog \<Rightarrow> bool" where
  "represents digest h cat \<longleftrightarrow>
     keys_ok au_id au_author_id (ct_authors cat) \<and> keys_ok nr_id nr_novel_id (ct_novels cat) \<and>
     distinct (map sn_id (ct_snapshots cat)) \<and>
     list_all2 (stores digest (ct_novels cat)) (ct_snapshots cat) h \<and>
     au_author_id ` set (ct_authors cat) = nv_author_id ` set h \<and>
     nr_novel_id ` set (ct_novels cat) = nv_novel_id ` set h \<and>
     (\<forall>a \<in> set (ct_authors cat). \<exists>n. newest observed nv_author_id h n \<and> shows_author a n) \<and>
     (\<forall>r \<in> set (ct_novels cat). \<exists>n. newest observed nv_novel_id h n \<and> shows_novel (ct_authors cat) r n)"

definition empty_catalog :: catalog where
  "empty_catalog = \<lparr>ct_authors = [], ct_novels = [], ct_snapshots = [], ct_chapters = []\<rparr>"

text \<open>A caller that rolls back when a write raises.\<close>

definition store_or_rollback :: "(novel \<Rightarrow> pystr) \<Rightarrow> catalog \<Rightarrow> novel \<Rightarrow> catalog" where
  "store_or_rollback digest cat n =
     (case store_novel_snapshot digest n cat of Inl _ \<Rightarrow> cat | Inr (_, cat') \<Rightarrow> cat')"

lemma upsert_author_shows:
  assumes "keys_ok au_id au_author_id rows" and "au_author_id ` set rows = nv_author_id ` set h"
    and "\<forall>a \<in> set rows. \<exists>m. newest observed nv_author_id h m \<and> shows_author a m"
    and "upsert_author n rows = (a, rows')" and "b \<in> set rows'"
  shows "\<exists>m. newest observed nv_author_id (h @ [n]) m \<and> shows_author b m"
  using assms(3,5)
  by (intro authors.upsert_shows [where observed = observed, OF assms(4) [unfolded upsert_author_def] assms(1) _ assms(2)])
    (auto simp: shows_author_def new_author_def refresh_author_def observed_def)

lemma shows_novel_authors:
  "shows_novel authors r n \<Longrightarrow> key_pairs au_id au_author_id authors \<subseteq> key_pairs au_id au_author_id authors' \<Longrightarrow>
   shows_novel authors' r n"
  by (auto simp: shows_novel_def)

lemma upsert_novel_shows:
  assumes "keys_ok nr_id nr_novel_id rows" and "nr_novel_id ` set rows = nv_novel_id ` set h"
    and "\<forall>r \<in> set rows. \<exists>m. newest observed nv_novel_id h m \<and> shows_novel authors r m"
    and "upsert_novel n a rows = (r, rows')" and "b \<in> set rows'"
    and "(au_id a, nv_author_id n) \<in> key_pairs au_id au_author_id authors"
  shows "\<exists>m. newest observed nv_novel_id (h @ [n]) m \<and> shows_novel authors b m"
  using assms(3,5,6)
  by (intro novels.upsert_shows [where observed = observed, OF assms(4) [unfolded upsert_novel_def] assms(1) _ assms(2)])
    (auto simp: shows_novel_def new_novel_def refresh_novel_def observed_def)

lemma stores_novels:
  "stores digest novels s n \<Longrightarrow> key_pairs nr_id nr_novel_id novels \<subseteq> key_pairs nr_id nr_novel_id novels' \<Longrightarrow>
   stores digest novels' s n"
  by (auto simp: stores_def)

lemma represents_empty: "represents digest [] empty_catalog"
  by (simp add: represents_def empty_catalog_def keys_ok_def)

text \<open>A write of a novel that is in the history answers with what is there.\<close>

lemma store_known:
  assumes rep: "represents digest h cat" and s: "s \<in> set (ct_snapshots cat)"
    and st: "stores digest (ct_novels cat) s n"
    and find: "find (\<lambda>s. sn_candidate_sha256 s = digest n) (ct_snapshots cat) = Some s"
  shows "\<exists>w. store_novel_snapshot digest n cat = Inr (w, cat) \<and> \<not> sw_snapshot_created w"
proof -
  have ok: "keys_ok nr_id nr_novel_id (ct_novels cat)" "keys_ok au_id au_author_id (ct_authors cat)"
    using rep by (simp_all add: represents_def)
  obtain r where r: "row_get nr_id (sn_novel_record_id s) (ct_novels cat) = Some r" "r \<in> set (ct_novels cat)"
    "nr_novel_id r = nv_novel_id n"
    using st by (auto simp: stores_def intro: key_pair_get [OF ok(1)])
  obtain m where "shows_novel (ct_authors cat) r m" using rep r(2) by (auto simp: represents_def)
  then have pair: "(nr_author_record_id r, nv_author_id m) \<in> key_pairs au_id au_author_id (ct_authors cat)"
    by (simp add: shows_novel_def)
  obtain a where "row_get au_id (nr_author_record_id r) (ct_authors cat) = Some a"
    using key_pair_get [OF ok(2) pair] by blast
  with r find show ?thesis by (simp add: store_novel_snapshot_def)
qed

lemma snapshot_of_simps [simp]:
  "sn_id (snapshot_of digest i rid n) = i" "sn_novel_record_id (snapshot_of digest i rid n) = rid"
  "sn_observed_at (snapshot_of digest i rid n) = observed n"
  "sn_candidate_sha256 (snapshot_of digest i rid n) = digest n"
  by (simp_all add: snapshot_of_def observed_def)

lemma stores_fields:
  "stores digest novels s n \<Longrightarrow> sn_candidate_sha256 s = digest n \<and> sn_observed_at s = observed n"
  by (metis stores_def snapshot_of_simps(3,4))

lemma stored_novels:
  assumes "list_all2 (stores digest novels) ss h"
  shows "s \<in> set ss \<Longrightarrow> \<exists>m \<in> set h. stores digest novels s m"
    and "m \<in> set h \<Longrightarrow> \<exists>s \<in> set ss. stores digest novels s m"
  using assms by (induction rule: list_all2_induct) auto

text \<open>Whether a snapshot of the row has the time of the novel is whether the history has it.\<close>

lemma same_time_iff:
  assumes st: "list_all2 (stores digest novels) ss h" and ok: "keys_ok nr_id nr_novel_id novels'"
    and sub: "key_pairs nr_id nr_novel_id novels \<subseteq> key_pairs nr_id nr_novel_id novels'"
    and r: "r \<in> set novels'" "nr_novel_id r = nv_novel_id n"
  shows "list_ex (\<lambda>s. sn_novel_record_id s = nr_id r \<and> sn_observed_at s = as_utc (nv_observed_at n)) ss \<longleftrightarrow>
    (\<exists>m \<in> set h. same_observation m n)"
proof -
  have rid: "sn_novel_record_id s = nr_id r \<longleftrightarrow> nv_novel_id m = nv_novel_id n" if "stores digest novels s m" for s m
  proof -
    have "(sn_novel_record_id s, nv_novel_id m) \<in> key_pairs nr_id nr_novel_id novels'"
      using that sub by (auto simp: stores_def)
    then obtain r' where "r' \<in> set novels'" "nr_id r' = sn_novel_record_id s" "nr_novel_id r' = nv_novel_id m"
      by (auto simp: key_pairs_def)
    then show ?thesis
      using r ok row_key_eq [of nr_id novels' r' r] row_key_eq [of nr_novel_id novels' r' r]
      by (auto simp: keys_ok_def)
  qed
  show ?thesis
  proof
    assume "list_ex (\<lambda>s. sn_novel_record_id s = nr_id r \<and> sn_observed_at s = as_utc (nv_observed_at n)) ss"
    then obtain s where s: "s \<in> set ss" "sn_novel_record_id s = nr_id r" "sn_observed_at s = observed n"
      by (auto simp: list_ex_iff observed_def)
    obtain m where "m \<in> set h" "stores digest novels s m" using stored_novels(1) [OF st s(1)] by blast
    then show "\<exists>m \<in> set h. same_observation m n"
      using rid stores_fields s(2,3) by (metis same_observation_def)
  next
    assume "\<exists>m \<in> set h. same_observation m n"
    then obtain m where m: "m \<in> set h" "same_observation m n" by blast
    obtain s where "s \<in> set ss" "stores digest novels s m" using stored_novels(2) [OF st m(1)] by blast
    then show "list_ex (\<lambda>s. sn_novel_record_id s = nr_id r \<and> sn_observed_at s = as_utc (nv_observed_at n)) ss"
      using rid stores_fields m(2) unfolding list_ex_iff by (metis observed_def same_observation_def)
  qed
qed

lemma store_step:
  assumes rep: "represents digest h cat" and inj: "inj_on digest (insert n (set h))"
  shows "represents digest (accept h n) (store_or_rollback digest cat n) \<and>
    (n \<in> set h \<longrightarrow> (\<exists>w. store_novel_snapshot digest n cat = Inr (w, cat) \<and> \<not> sw_snapshot_created w)) \<and>
    (n \<notin> set h \<longrightarrow>
      (if \<exists>m \<in> set h. same_observation m n then store_novel_snapshot digest n cat = Inl SnapshotConflict
       else \<exists>w cat'. store_novel_snapshot digest n cat = Inr (w, cat') \<and> sw_snapshot_created w))"
proof (cases "find (\<lambda>s. sn_candidate_sha256 s = digest n) (ct_snapshots cat)")
  case (Some s)
  then have s: "s \<in> set (ct_snapshots cat)" "sn_candidate_sha256 s = digest n" by (auto dest: find_SomeD)
  have "list_all2 (stores digest (ct_novels cat)) (ct_snapshots cat) h" using rep by (simp add: represents_def)
  then obtain m where m: "m \<in> set h" "stores digest (ct_novels cat) s m" using stored_novels(1) s(1) by blast
  have "digest m = digest n" using stores_fields [OF m(2)] s(2) by simp
  then have mn: "m = n" using inj m(1) by (simp add: inj_on_def)
  obtain w where "store_novel_snapshot digest n cat = Inr (w, cat)" "\<not> sw_snapshot_created w"
    using store_known [OF rep s(1) m(2) [unfolded mn] Some] by blast
  then show ?thesis using m(1) rep by (simp add: mn accept_def store_or_rollback_def)
next
  case None
  have st: "list_all2 (stores digest (ct_novels cat)) (ct_snapshots cat) h" using rep by (simp add: represents_def)
  have fresh: "n \<notin> set h"
    using stored_novels(2) [OF st] None stores_fields by (fastforce simp: find_None_iff)
  obtain a authors where a: "upsert_author n (ct_authors cat) = (a, authors)" by fastforce
  obtain r novels where r: "upsert_novel n a (ct_novels cat) = (r, novels)" by fastforce
  have oka: "keys_ok au_id au_author_id (ct_authors cat)" and okn: "keys_ok nr_id nr_novel_id (ct_novels cat)"
    using rep by (simp_all add: represents_def)
  note ua = authors.upsert_row [OF a [unfolded upsert_author_def] oka]
  note un = novels.upsert_row [OF r [unfolded upsert_novel_def] okn]
  note same = same_time_iff [OF st un(4,5,2,1)]
  show ?thesis
  proof (cases "\<exists>m \<in> set h. same_observation m n")
    case True
    then have "store_novel_snapshot digest n cat = Inl SnapshotConflict"
      using None a r same by (simp add: store_novel_snapshot_def)
    with True fresh rep show ?thesis by (simp add: accept_def store_or_rollback_def)
  next
    case False
    define s where "s = snapshot_of digest (fresh_key sn_id (ct_snapshots cat)) (nr_id r) n"
    define cat' where "cat' = cat\<lparr>ct_authors := authors, ct_novels := novels,
      ct_snapshots := ct_snapshots cat @ [s]\<rparr>"
    have ok: "\<exists>w. store_novel_snapshot digest n cat = Inr (w, cat') \<and> sw_snapshot_created w"
      using None a r same False by (simp add: store_novel_snapshot_def Let_def s_def cat'_def)
    have "represents digest (h @ [n]) cat'"
      unfolding represents_def
    proof (intro conjI ballI)
      show "keys_ok au_id au_author_id (ct_authors cat')" "keys_ok nr_id nr_novel_id (ct_novels cat')"
        using ua(4) un(4) by (simp_all add: cat'_def)
      show "distinct (map sn_id (ct_snapshots cat'))"
        using rep fresh_key_notin [of sn_id "ct_snapshots cat"] by (simp add: represents_def cat'_def s_def)
      have "stores digest novels s n"
        using un(1,2) by (force simp: stores_def s_def key_pairs_def)
      then show "list_all2 (stores digest (ct_novels cat')) (ct_snapshots cat') (h @ [n])"
        using list_all2_mono [OF st] stores_novels [OF _ un(5)] by (simp add: cat'_def list_all2_appendI)
      show "au_author_id ` set (ct_authors cat') = nv_author_id ` set (h @ [n])"
        using authors.upsert_ids [OF a [unfolded upsert_author_def] oka, where key = nv_author_id and n = n and h = h] rep
        by (simp add: cat'_def represents_def)
      show "nr_novel_id ` set (ct_novels cat') = nv_novel_id ` set (h @ [n])"
        using novels.upsert_ids [OF r [unfolded upsert_novel_def] okn, where key = nv_novel_id and n = n and h = h] rep
        by (simp add: cat'_def represents_def)
      fix b assume "b \<in> set (ct_authors cat')"
      then show "\<exists>m. newest observed nv_author_id (h @ [n]) m \<and> shows_author b m"
        using rep by (intro upsert_author_shows [OF oka _ _ a]) (simp_all add: cat'_def represents_def)
    next
      fix b assume b: "b \<in> set (ct_novels cat')"
      have shown: "\<exists>m. newest observed nv_novel_id h m \<and> shows_novel authors r m" if mem: "r \<in> set (ct_novels cat)" for r
      proof -
        obtain m where "newest observed nv_novel_id h m" "shows_novel (ct_authors cat) r m"
          using rep mem by (auto simp: represents_def)
        then show ?thesis using shows_novel_authors ua(5) by blast
      qed
      have pair: "(au_id a, nv_author_id n) \<in> key_pairs au_id au_author_id authors"
        using ua(1,2) by (force simp: key_pairs_def)
      have ids: "nr_novel_id ` set (ct_novels cat) = nv_novel_id ` set h" using rep by (simp add: represents_def)
      have "b \<in> set novels" and authors: "ct_authors cat' = authors" using b by (simp_all add: cat'_def)
      then show "\<exists>m. newest observed nv_novel_id (h @ [n]) m \<and> shows_novel (ct_authors cat') b m"
        unfolding authors using shown by (intro upsert_novel_shows [OF okn ids _ r _ pair]) auto
    qed
    with ok False fresh show ?thesis by (auto simp: accept_def store_or_rollback_def)
  qed
qed

lemma set_accept: "set (accept h n) \<subseteq> insert n (set h)"
  by (auto simp: accept_def)

lemma accept_run_subset: "set (foldl accept h ns) \<subseteq> set h \<union> set ns"
  using set_accept by (induction ns arbitrary: h) fastforce+

lemma represents_run:
  "inj_on digest (set ns) \<Longrightarrow>
   represents digest (foldl accept [] ns) (foldl (store_or_rollback digest) empty_catalog ns)"
proof (induction ns rule: rev_induct)
  case Nil
  show ?case by (simp add: represents_empty)
next
  case (snoc n ns)
  have "inj_on digest (insert n (set (foldl accept [] ns)))"
    using snoc.prems accept_run_subset [of "[]" ns] by (auto intro: inj_on_subset)
  moreover have "represents digest (foldl accept [] ns) (foldl (store_or_rollback digest) empty_catalog ns)"
    using snoc by (auto intro: inj_on_subset)
  ultimately show ?case using store_step by simp
qed

text \<open>
  C36: the store refines its history.  Whatever novels were written, in any order and with any
  repetitions, the tables show exactly the accepted ones: one snapshot each with its values, one row
  per novel and per author, showing the newest accepted observation of it.  A further write of an
  accepted novel changes nothing, one of another observation with the same time is refused, and any
  other is accepted and shown, for a digest that tells the novels apart.
\<close>

theorem snapshot_store_refines_history:
  assumes "inj_on digest (insert n (set ns))" and "h = foldl accept [] ns"
    and "cat = foldl (store_or_rollback digest) empty_catalog ns"
  shows "represents digest h cat \<and>
    (if n \<in> set h then \<exists>w. store_novel_snapshot digest n cat = Inr (w, cat) \<and> \<not> sw_snapshot_created w
     else if \<exists>m \<in> set h. same_observation m n then store_novel_snapshot digest n cat = Inl SnapshotConflict
     else \<exists>w cat'. store_novel_snapshot digest n cat = Inr (w, cat') \<and> sw_snapshot_created w \<and>
       represents digest (h @ [n]) cat')"
proof -
  have rep: "represents digest h cat"
    using represents_run assms by (metis inj_on_subset subset_insertI)
  have "inj_on digest (insert n (set h))"
    using assms(1,2) accept_run_subset [of "[]" ns] by (auto intro: inj_on_subset)
  note step = store_step [OF rep this]
  show ?thesis
  proof (cases "n \<in> set h \<or> (\<exists>m \<in> set h. same_observation m n)")
    case True
    then show ?thesis using rep step by auto
  next
    case False
    then obtain w cat' where "store_novel_snapshot digest n cat = Inr (w, cat')" "sw_snapshot_created w"
      using step by auto
    then show ?thesis using False rep step by (simp add: accept_def store_or_rollback_def)
  qed
qed

definition sample_novel :: "int \<Rightarrow> pystr \<Rightarrow> novel" where
  "sample_novel t title =
     \<lparr>nv_novel_id = [49], nv_title = title, nv_author_id = [50], nv_author_display_name = [97],
      nv_novel_type = [98], nv_perspective = None, nv_status = Serialised, nv_word_count = 1,
      nv_review_count = 0, nv_favorite_count = 3, nv_nutrition_count = Some 1, nv_points = 0,
      nv_first_chapter_click_count = None, nv_average_non_v = None, nv_average_v = None,
      nv_non_v_chapter_count = 0, nv_v_chapter_count = 0, nv_click_coverage = 0,
      nv_synopsis_chars = None, nv_synopsis_sentences = None, nv_theme_terms = [], nv_tags = [],
      nv_observed_at = utc t, nv_source_mode = PublicCandidate\<rparr>"

text \<open>An older observation written after a newer one is kept, and the row still shows the newer.\<close>

lemma snapshot_store_refines_history_witness:
  "\<exists>w cat'. store_novel_snapshot nv_title (sample_novel 1 [100])
      (foldl (store_or_rollback nv_title) empty_catalog [sample_novel 2 [101]]) = Inr (w, cat') \<and>
    represents nv_title [sample_novel 2 [101], sample_novel 1 [100]] cat'"
  using snapshot_store_refines_history [of nv_title "sample_novel 1 [100]" "[sample_novel 2 [101]]"
      "[sample_novel 2 [101]]" "foldl (store_or_rollback nv_title) empty_catalog [sample_novel 2 [101]]"]
  by (auto simp: accept_def sample_novel_def same_observation_def observed_def as_utc_def utc_def)

end
