(* ===== verification/ClickImport.thy ===== *)
theory ClickImport
  imports Snapshots
begin

text \<open>
  The import of author-authorized VIP chapter clicks of
  \<open>src/pixiv_yuri/jjwxc/author_v_import.py\<close> over the catalog of \<open>Snapshots\<close>.  An exception leaves the
  catalog to the caller's rollback; the commit at the end checks the unique index on chapter
  observations.  \<open>is_digit_char\<close> is \<open>str.isdigit\<close> of one character, a Unicode table.
\<close>

section \<open>Records\<close>

record click_record =
  cr_novel_id :: pystr
  cr_chapter_id :: int
  cr_click_count :: int

datatype import_status = Imported | Duplicate | Rejected

record import_item =
  it_novel_id :: pystr
  it_status :: import_status
  it_accepted_chapters :: int
  it_error_code :: "pystr option"

definition rejected_item :: "pystr \<Rightarrow> string \<Rightarrow> import_item" where
  "rejected_item novel_id code =
     \<lparr>it_novel_id = novel_id, it_status = Rejected, it_accepted_chapters = 0, it_error_code = Some (lit code)\<rparr>"

section \<open>Validation\<close>

fun check_records ::
  "(nat \<Rightarrow> bool) \<Rightarrow> (pystr \<times> int) set \<Rightarrow> click_record list \<Rightarrow> error + unit" where
  "check_records is_digit_char seen [] = Inr ()"
| "check_records is_digit_char seen (r # rs) =
     (if \<not> (cr_novel_id r \<noteq> [] \<and> list_all is_digit_char (cr_novel_id r)) \<or> take 1 (cr_novel_id r) = [48]
      then Inl (JobError (lit ''author_v_click_novel_id_invalid''))
      else if \<not> (1 \<le> cr_chapter_id r \<and> cr_chapter_id r \<le> 1000000) \<or>
              \<not> (0 \<le> cr_click_count r \<and> cr_click_count r \<le> 10 ^ 12)
      then Inl (JobError (lit ''author_v_click_value_invalid''))
      else if (cr_novel_id r, cr_chapter_id r) \<in> seen
      then Inl (JobError (lit ''author_v_click_duplicate_chapter''))
      else check_records is_digit_char (insert (cr_novel_id r, cr_chapter_id r) seen) rs)"

definition max_click_records :: int where
  "max_click_records = 2000"

definition max_click_novels :: int where
  "max_click_novels = 20"

definition import_novel_ids :: "click_record list \<Rightarrow> pystr list" where
  "import_novel_ids rs = first_seen (map cr_novel_id rs)"

definition records_of :: "pystr \<Rightarrow> click_record list \<Rightarrow> click_record list" where
  "records_of novel_id rs = filter (\<lambda>r. cr_novel_id r = novel_id) rs"

definition validate_import ::
  "(nat \<Rightarrow> bool) \<Rightarrow> click_record list \<Rightarrow> pydatetime \<Rightarrow> bool \<Rightarrow> pydatetime \<Rightarrow> error + instant" where
  "validate_import is_digit_char rs observed_at attested reference =
     (if \<not> attested then Inl (JobError (lit ''author_v_click_authorization_required''))
      else if rs = [] then Inl (JobError (lit ''author_v_click_records_empty''))
      else if max_click_records < int (length rs)
      then Inl (JobError (lit ''author_v_click_record_limit_exceeded''))
      else case aware_utc observed_at of
        Inl _ \<Rightarrow> Inl (JobError (lit ''author_v_click_observation_time_must_be_aware''))
      | Inr t \<Rightarrow>
          (case aware_utc reference of
             Inl _ \<Rightarrow> Inl (JobError (lit ''author_v_click_reference_time_must_be_aware''))
           | Inr now \<Rightarrow>
               if now + minutes 5 < t then Inl (JobError (lit ''author_v_click_observation_time_in_future''))
               else if t < now - days 30 then Inl (JobError (lit ''author_v_click_observation_time_too_old''))
               else bindr (check_records is_digit_char {} rs) (\<lambda>_.
                 if max_click_novels < int (length (import_novel_ids rs))
                 then Inl (JobError (lit ''author_v_click_novel_limit_exceeded''))
                 else Inr t)))"

section \<open>One novel\<close>

definition latest_snapshot :: "int \<Rightarrow> snapshot_row list \<Rightarrow> snapshot_row option" where
  "latest_snapshot rid ss =
     (let own = filter (\<lambda>s. sn_novel_record_id s = rid) ss
      in find (\<lambda>s. list_all (\<lambda>s'. sn_observed_at s' \<le> sn_observed_at s) own) own)"

text \<open>The chapters of the novel's latest chapter observation.\<close>

definition latest_chapters :: "int \<Rightarrow> chapter_row list \<Rightarrow> chapter_row list" where
  "latest_chapters rid cs =
     (let own = filter (\<lambda>c. ch_novel_record_id c = rid) cs
      in filter (\<lambda>c. list_all (\<lambda>c'. ch_observed_at c' \<le> ch_observed_at c) own) own)"

definition vip_ids :: "chapter_row list \<Rightarrow> int set" where
  "vip_ids cs = set (map ch_chapter_id (filter ch_is_vip cs))"

definition supplied_ids :: "click_record list \<Rightarrow> int set" where
  "supplied_ids rs = set (map cr_chapter_id rs)"

definition supplied_count :: "click_record list \<Rightarrow> int \<Rightarrow> int option" where
  "supplied_count rs = map_of (map (\<lambda>r. (cr_chapter_id r, cr_click_count r)) rs)"

definition enriched_novel ::
  "novel_row \<Rightarrow> author_row \<Rightarrow> snapshot_row \<Rightarrow> chapter_row list \<Rightarrow> click_record list \<Rightarrow> pydatetime \<Rightarrow> novel" where
  "enriched_novel r a s chapters rs observed_at =
     \<lparr>nv_novel_id = nr_novel_id r, nv_title = nr_title r, nv_author_id = au_author_id a,
      nv_author_display_name = au_display_name a, nv_novel_type = nr_novel_type r,
      nv_perspective = nr_perspective r, nv_status = nr_status r, nv_word_count = sn_word_count s,
      nv_review_count = sn_review_count s, nv_favorite_count = sn_favorite_count s,
      nv_nutrition_count = sn_nutrition_count s, nv_points = sn_points s,
      nv_first_chapter_click_count = sn_first_chapter_click_count s,
      nv_average_non_v = sn_average_non_v s,
      nv_average_v = Some (sum_list (map cr_click_count rs) div int (length rs)),
      nv_non_v_chapter_count = sn_non_v_chapter_count s,
      nv_v_chapter_count = int (length (filter ch_is_vip chapters)),
      nv_click_coverage =
        int (length (filter (\<lambda>c. \<not> ch_is_vip c \<and> ch_click_count c \<noteq> None) chapters)) + int (length rs),
      nv_synopsis_chars = sn_synopsis_chars s, nv_synopsis_sentences = sn_synopsis_sentences s,
      nv_theme_terms = sn_theme_terms s, nv_tags = nr_tags r, nv_observed_at = observed_at,
      nv_source_mode = PublicCandidate\<rparr>"

definition copy_chapter :: "novel_row \<Rightarrow> click_record list \<Rightarrow> instant \<Rightarrow> int \<Rightarrow> chapter_row \<Rightarrow> chapter_row" where
  "copy_chapter r rs t i c =
     \<lparr>ch_id = i, ch_novel_record_id = nr_id r, ch_observed_at = t, ch_chapter_id = ch_chapter_id c,
      ch_position = ch_position c, ch_is_vip = ch_is_vip c, ch_word_count = ch_word_count c,
      ch_click_count = (if ch_is_vip c then supplied_count rs (ch_chapter_id c) else ch_click_count c)\<rparr>"

fun add_chapters :: "novel_row \<Rightarrow> click_record list \<Rightarrow> instant \<Rightarrow> chapter_row list \<Rightarrow> chapter_row list \<Rightarrow>
    chapter_row list" where
  "add_chapters r rs t [] rows = rows"
| "add_chapters r rs t (c # cs) rows =
     add_chapters r rs t cs (rows @ [copy_chapter r rs t (fresh_key ch_id rows) c])"

definition import_one_novel ::
  "(novel \<Rightarrow> pystr) \<Rightarrow> pystr \<Rightarrow> click_record list \<Rightarrow> pydatetime \<Rightarrow> catalog \<Rightarrow> error + import_item \<times> catalog" where
  "import_one_novel digest novel_id rs observed_at cat =
     (case find (\<lambda>r. nr_novel_id r = novel_id) (ct_novels cat) of
        None \<Rightarrow> Inr (rejected_item novel_id ''novel_not_collected'', cat)
      | Some r \<Rightarrow>
          (case (latest_snapshot (nr_id r) (ct_snapshots cat),
                 row_get au_id (nr_author_record_id r) (ct_authors cat)) of
             (Some s, Some a) \<Rightarrow>
               let chapters = latest_chapters (nr_id r) (ct_chapters cat)
               in if chapters = [] then Inr (rejected_item novel_id ''chapter_snapshot_missing'', cat)
                  else if \<not> supplied_ids rs \<subseteq> vip_ids chapters
                  then Inr (rejected_item novel_id ''vip_chapter_mismatch'', cat)
                  else if supplied_ids rs \<noteq> vip_ids chapters
                  then Inr (rejected_item novel_id ''vip_chapter_set_incomplete'', cat)
                  else let n = enriched_novel r a s chapters rs observed_at
                    in if \<not> novel_valid n then Inl ValueError
                       else bindr (store_novel_snapshot digest n cat) (\<lambda>(w, cat').
                         if \<not> sw_snapshot_created w
                         then Inr (\<lparr>it_novel_id = novel_id, it_status = Duplicate,
                                it_accepted_chapters = int (length rs), it_error_code = None\<rparr>, cat')
                         else Inr (\<lparr>it_novel_id = novel_id, it_status = Imported,
                                it_accepted_chapters = int (length rs), it_error_code = None\<rparr>,
                              cat'\<lparr>ct_chapters := add_chapters r rs (as_utc observed_at) chapters
                                     (ct_chapters cat')\<rparr>))
           | _ \<Rightarrow> Inr (rejected_item novel_id ''novel_snapshot_missing'', cat)))"

section \<open>The import\<close>

fun import_novels ::
  "(novel \<Rightarrow> pystr) \<Rightarrow> click_record list \<Rightarrow> pydatetime \<Rightarrow> pystr list \<Rightarrow> catalog \<Rightarrow>
    error + import_item list \<times> catalog" where
  "import_novels digest rs observed_at [] cat = Inr ([], cat)"
| "import_novels digest rs observed_at (i # ids) cat =
     bindr (import_one_novel digest i (records_of i rs) observed_at cat) (\<lambda>(item, cat1).
       bindr (import_novels digest rs observed_at ids cat1) (\<lambda>(items, cat2). Inr (item # items, cat2)))"

definition chapters_unique :: "catalog \<Rightarrow> bool" where
  "chapters_unique cat \<longleftrightarrow>
     distinct (map (\<lambda>c. (ch_novel_record_id c, ch_observed_at c, ch_chapter_id c)) (ct_chapters cat))"

definition import_author_v_clicks ::
  "(novel \<Rightarrow> pystr) \<Rightarrow> (nat \<Rightarrow> bool) \<Rightarrow> click_record list \<Rightarrow> pydatetime \<Rightarrow> bool \<Rightarrow> pydatetime \<Rightarrow> catalog \<Rightarrow>
    (error + import_item list) \<times> catalog" where
  "import_author_v_clicks digest is_digit_char rs observed_at attested now cat =
     (case bindr (validate_import is_digit_char rs observed_at attested now)
         (\<lambda>_. import_novels digest rs observed_at (import_novel_ids rs) cat) of
        Inl e \<Rightarrow> (Inl e, cat)
      | Inr (items, cat') \<Rightarrow> if chapters_unique cat' then (Inr items, cat') else (Inl IntegrityError, cat))"

end
