(* ===== verification/ImportJobs.thy ===== *)
theory ImportJobs
  imports ClickImport Utf8 "HOL-Library.List_Lexorder"
begin

text \<open>
  The durable queue of \<open>src/pixiv_yuri/jjwxc/author_v_jobs.py\<close> over the run and task rows of
  \<open>src/pixiv_yuri/ingest/models.py\<close>.  A payload is the validated import request that the API
  enqueues, so the worker's conversions of its JSON text are identities; \<open>canonical\<close> is that text.
  Every commit of the worker is a step of its own, and so is a read that a later write rests on without
  a lock (the search for stale tasks, the check before a retry), so that workers and requests may
  interleave and die anywhere.  The claim locks its row (\<open>FOR UPDATE SKIP LOCKED\<close> on PostgreSQL).
\<close>

section \<open>Rows\<close>

datatype run_status = RunPending | RunRunning | RunCompleted | RunFailed

datatype task_status = TaskPending | TaskRunning | TaskSucceeded | TaskFailed

record job_payload =
  jp_records :: "click_record list"
  jp_generated_at :: pydatetime
  jp_attested :: bool

record job_run =
  jr_id :: int
  jr_type :: pystr
  jr_status :: run_status
  jr_record_count :: int
  jr_payload_sha256 :: pystr
  jr_started_at :: "instant option"
  jr_finished_at :: "instant option"
  jr_stop_reason :: "pystr option"

record job_task =
  jt_id :: int
  jt_run_id :: int
  jt_type :: pystr
  jt_payload :: job_payload
  jt_idempotency_key :: pystr
  jt_priority :: int
  jt_status :: task_status
  jt_available_at :: instant
  jt_lease_until :: "instant option"
  jt_attempt_count :: int
  jt_last_error_code :: "pystr option"

record job_db =
  jd_runs :: "job_run list"
  jd_tasks :: "job_task list"
  jd_catalog :: catalog

definition job_run_type :: pystr where
  "job_run_type = lit ''jjwxc_author_v_click_import''"

definition job_task_type :: pystr where
  "job_task_type = lit ''jjwxc_author_v_click_batch''"

record job_status =
  js_job_id :: int
  js_status :: run_status
  js_task_status :: task_status
  js_attempt_count :: int
  js_record_count :: int
  js_last_error_code :: "pystr option"
  js_novel_ids :: "pystr list"

section \<open>Requests\<close>

definition job_novel_ids :: "job_payload \<Rightarrow> pystr list" where
  "job_novel_ids p =
     take 20 (sort_key digits_value (remdups
       (filter (\<lambda>s. s \<noteq> [] \<and> list_all is_digit s \<and> s \<noteq> [48]) (map cr_novel_id (jp_records p)))))"

definition status_of_job :: "job_run \<Rightarrow> job_task \<Rightarrow> job_status" where
  "status_of_job run task =
     \<lparr>js_job_id = jr_id run, js_status = jr_status run, js_task_status = jt_status task,
      js_attempt_count = jt_attempt_count task, js_record_count = jr_record_count run,
      js_last_error_code = jt_last_error_code task, js_novel_ids = job_novel_ids (jt_payload task)\<rparr>"

definition enqueue_author_v_job ::
  "(job_payload \<Rightarrow> pystr) \<Rightarrow> (nat list \<Rightarrow> pystr) \<Rightarrow> instant \<Rightarrow> job_payload \<Rightarrow> job_db \<Rightarrow>
    (error + job_status) \<times> job_db" where
  "enqueue_author_v_job canonical sha now p d =
     (if \<not> utf8_encodable (canonical p) then (Inl ValueError, d)
      else if jp_records p = [] then (Inl (JobError (lit ''author_v_job_records_invalid'')), d)
      else let digest = sha (utf8_encode (canonical p));
               run = \<lparr>jr_id = fresh_key jr_id (jd_runs d), jr_type = job_run_type, jr_status = RunPending,
                  jr_record_count = int (length (jp_records p)), jr_payload_sha256 = digest,
                  jr_started_at = None, jr_finished_at = None, jr_stop_reason = None\<rparr>;
               task = \<lparr>jt_id = fresh_key jt_id (jd_tasks d), jt_run_id = jr_id run, jt_type = job_task_type,
                  jt_payload = p, jt_idempotency_key = digest, jt_priority = 100, jt_status = TaskPending,
                  jt_available_at = now, jt_lease_until = None, jt_attempt_count = 0,
                  jt_last_error_code = None\<rparr>
           in (Inr (status_of_job run task),
               d\<lparr>jd_runs := jd_runs d @ [run], jd_tasks := jd_tasks d @ [task]\<rparr>))"

definition find_job :: "int \<Rightarrow> job_db \<Rightarrow> error + job_run \<times> job_task option" where
  "find_job job_id d =
     (case row_get jr_id job_id (jd_runs d) of
        None \<Rightarrow> Inl (JobError (lit ''author_v_job_not_found''))
      | Some run \<Rightarrow>
          if jr_type run \<noteq> job_run_type then Inl (JobError (lit ''author_v_job_not_found''))
          else Inr (run, find (\<lambda>t. jt_run_id t = jr_id run) (jd_tasks d)))"

definition author_v_job_status :: "int \<Rightarrow> job_db \<Rightarrow> error + job_status" where
  "author_v_job_status job_id d =
     bindr (find_job job_id d) (\<lambda>(run, task).
       case task of None \<Rightarrow> Inl (JobError (lit ''author_v_job_task_missing''))
       | Some t \<Rightarrow> Inr (status_of_job run t))"

definition update_task :: "int \<Rightarrow> (job_task \<Rightarrow> job_task) \<Rightarrow> job_db \<Rightarrow> job_db" where
  "update_task i f d = d\<lparr>jd_tasks := row_update jt_id i f (jd_tasks d)\<rparr>"

definition update_run :: "int \<Rightarrow> (job_run \<Rightarrow> job_run) \<Rightarrow> job_db \<Rightarrow> job_db" where
  "update_run i f d = d\<lparr>jd_runs := row_update jr_id i f (jd_runs d)\<rparr>"

definition retried_task :: "instant \<Rightarrow> job_task \<Rightarrow> job_task" where
  "retried_task now t =
     t\<lparr>jt_status := TaskPending, jt_available_at := now, jt_lease_until := None, jt_last_error_code := None\<rparr>"

definition retried_run :: "job_run \<Rightarrow> job_run" where
  "retried_run r = r\<lparr>jr_status := RunPending, jr_finished_at := None, jr_stop_reason := None\<rparr>"

text \<open>The check reads without a lock; the write names its rows and does not look again.\<close>

definition read_retry :: "int \<Rightarrow> job_db \<Rightarrow> error + job_run \<times> job_task" where
  "read_retry job_id d =
     bindr (find_job job_id d) (\<lambda>(run, task).
       case task of
         None \<Rightarrow> Inl (JobError (lit ''author_v_job_not_retryable''))
       | Some t \<Rightarrow>
           if jt_status t \<noteq> TaskFailed then Inl (JobError (lit ''author_v_job_not_retryable''))
           else if 3 \<le> jt_attempt_count t then Inl (JobError (lit ''author_v_job_retry_limit_reached''))
           else Inr (run, t))"

definition write_retry :: "instant \<Rightarrow> int \<Rightarrow> int \<Rightarrow> job_db \<Rightarrow> job_db" where
  "write_retry now run_id task_id d = update_run run_id retried_run (update_task task_id (retried_task now) d)"

definition retry_author_v_job :: "instant \<Rightarrow> int \<Rightarrow> job_db \<Rightarrow> (error + job_status) \<times> job_db" where
  "retry_author_v_job now job_id d =
     (case read_retry job_id d of
        Inl e \<Rightarrow> (Inl e, d)
      | Inr (run, t) \<Rightarrow>
          (Inr (status_of_job (retried_run run) (retried_task now t)), write_retry now (jr_id run) (jt_id t) d))"

section \<open>The worker\<close>

definition lease_expired :: "instant \<Rightarrow> job_task \<Rightarrow> bool" where
  "lease_expired now t \<longleftrightarrow>
     jt_type t = job_task_type \<and> jt_status t = TaskRunning \<and>
     (case jt_lease_until t of None \<Rightarrow> False | Some l \<Rightarrow> l < now)"

text \<open>
  The search for expired leases takes no lock; the requeue writes to the rows it found, by their ids,
  whatever they are by then.  \<open>requeue_stale\<close> is the two with nothing in between.
\<close>

definition stale_tasks :: "instant \<Rightarrow> job_db \<Rightarrow> int list" where
  "stale_tasks now d = map jt_id (filter (lease_expired now) (jd_tasks d))"

definition requeued_task :: "instant \<Rightarrow> job_task \<Rightarrow> job_task" where
  "requeued_task now t =
     t\<lparr>jt_status := TaskPending, jt_available_at := now, jt_lease_until := None,
       jt_last_error_code := Some (lit ''worker_lease_expired'')\<rparr>"

definition requeue_tasks :: "instant \<Rightarrow> int list \<Rightarrow> job_db \<Rightarrow> job_db" where
  "requeue_tasks now ids d =
     d\<lparr>jd_tasks := map (\<lambda>t. if jt_id t \<in> set ids then requeued_task now t else t) (jd_tasks d)\<rparr>"

definition requeue_stale :: "instant \<Rightarrow> job_db \<Rightarrow> job_db" where
  "requeue_stale now d = requeue_tasks now (stale_tasks now d) d"

definition dispatchable :: "instant \<Rightarrow> job_task \<Rightarrow> bool" where
  "dispatchable now t \<longleftrightarrow>
     jt_type t = job_task_type \<and> jt_status t = TaskPending \<and> jt_available_at t \<le> now"

definition next_task :: "instant \<Rightarrow> job_task list \<Rightarrow> job_task option" where
  "next_task now tasks =
     (case sort_key (\<lambda>t. (- jt_priority t, jt_id t)) (filter (dispatchable now) tasks) of
        [] \<Rightarrow> None | t # _ \<Rightarrow> Some t)"

definition started_task :: "instant \<Rightarrow> job_task \<Rightarrow> job_task" where
  "started_task now t =
     t\<lparr>jt_status := TaskRunning, jt_attempt_count := jt_attempt_count t + 1,
       jt_lease_until := Some (now + minutes 10)\<rparr>"

definition started_run :: "instant \<Rightarrow> job_run \<Rightarrow> job_run" where
  "started_run now r =
     r\<lparr>jr_status := RunRunning, jr_started_at := (case jr_started_at r of None \<Rightarrow> Some now | Some t \<Rightarrow> Some t)\<rparr>"

text \<open>The worker's choice: nothing to do, a task without its run, or a task and run to process.\<close>

datatype claim = Idle | Orphan | Claimed int int

definition claim_next :: "instant \<Rightarrow> job_db \<Rightarrow> claim \<times> job_db" where
  "claim_next now d =
     (case next_task now (jd_tasks d) of
        None \<Rightarrow> (Idle, d)
      | Some t \<Rightarrow>
          (case row_get jr_id (jt_run_id t) (jd_runs d) of
             None \<Rightarrow> (Orphan, update_task (jt_id t)
               (\<lambda>t. t\<lparr>jt_status := TaskFailed, jt_last_error_code := Some (lit ''job_run_missing'')\<rparr>) d)
           | Some r \<Rightarrow> (Claimed (jt_id t) (jr_id r),
               update_run (jr_id r) (started_run now) (update_task (jt_id t) (started_task now) d))))"

text \<open>\<open>str(exc)\<close> of a coded error is its code; every other text has blanks.\<close>

definition error_text :: "error \<Rightarrow> pystr" where
  "error_text e = (case e of JobError t \<Rightarrow> t | _ \<Rightarrow> [32])"

definition job_error_code :: "error \<Rightarrow> pystr" where
  "job_error_code e =
     (let v = error_text e; w = filter (\<lambda>c. c \<noteq> 95) v
      in if v \<noteq> [] \<and> length v \<le> 100 \<and> w \<noteq> [] \<and> list_all (\<lambda>c. is_alpha c \<or> is_digit c) w then v
         else lit ''job_failed'')"

definition succeeded_task :: "job_task \<Rightarrow> job_task" where
  "succeeded_task t = t\<lparr>jt_status := TaskSucceeded, jt_lease_until := None, jt_last_error_code := None\<rparr>"

definition completed_run :: "instant \<Rightarrow> job_run \<Rightarrow> job_run" where
  "completed_run now r = r\<lparr>jr_status := RunCompleted, jr_finished_at := Some now\<rparr>"

definition failed_task :: "pystr \<Rightarrow> job_task \<Rightarrow> job_task" where
  "failed_task code t = t\<lparr>jt_status := TaskFailed, jt_lease_until := None, jt_last_error_code := Some code\<rparr>"

definition failed_run :: "instant \<Rightarrow> pystr \<Rightarrow> job_run \<Rightarrow> job_run" where
  "failed_run now code r =
     r\<lparr>jr_status := RunFailed, jr_finished_at := Some now, jr_stop_reason := Some code\<rparr>"

definition handled_job_error :: "error \<Rightarrow> bool" where
  "handled_job_error e \<longleftrightarrow> e \<in> {ValueError, SnapshotConflict} \<or> (\<exists>t. e = JobError t)"

text \<open>A rejected novel fails the job, after the import committed the others.\<close>

definition import_outcome :: "error + import_item list \<Rightarrow> error + unit" where
  "import_outcome r = bindr r (\<lambda>items.
     case filter (\<lambda>i. it_status i = Rejected) items of
       [] \<Rightarrow> Inr ()
     | i # _ \<Rightarrow> Inl (JobError (case it_error_code i of
         Some c \<Rightarrow> if c = [] then lit ''author_v_import_rejected'' else c
       | None \<Rightarrow> lit ''author_v_import_rejected'')))"

definition conclude_job ::
  "instant \<Rightarrow> int \<Rightarrow> int \<Rightarrow> error + unit \<Rightarrow> job_db \<Rightarrow> (error + unit) \<times> job_db" where
  "conclude_job ended task_id run_id outcome d =
     (case outcome of
        Inr _ \<Rightarrow> (Inr (), update_run run_id (completed_run ended) (update_task task_id succeeded_task d))
      | Inl e \<Rightarrow>
          if handled_job_error e
          then (Inr (), update_run run_id (failed_run ended (job_error_code e))
                  (update_task task_id (failed_task (job_error_code e)) d))
          else (Inl e, d))"

text \<open>
  The second half of the worker, for the task and run it claimed: the import, which commits on its
  own, and then the outcome.
\<close>

definition finish_job ::
  "(novel \<Rightarrow> pystr) \<Rightarrow> (nat \<Rightarrow> bool) \<Rightarrow> pydatetime \<Rightarrow> instant \<Rightarrow> int \<Rightarrow> int \<Rightarrow> job_db \<Rightarrow>
    (error + unit) \<times> job_db" where
  "finish_job digest is_digit_char now ended task_id run_id d =
     (case row_get jt_id task_id (jd_tasks d) of
        None \<Rightarrow> (Inl OtherError, d)
      | Some t \<Rightarrow>
          (case import_author_v_clicks digest is_digit_char (jp_records (jt_payload t))
              (jp_generated_at (jt_payload t)) (jp_attested (jt_payload t)) now (jd_catalog d) of
             (r, cat) \<Rightarrow> conclude_job ended task_id run_id (import_outcome r) (d\<lparr>jd_catalog := cat\<rparr>)))"

text \<open>An undisturbed pass of the worker: requeue, claim, and process what was claimed.\<close>

definition process_next_author_v_job ::
  "(novel \<Rightarrow> pystr) \<Rightarrow> (nat \<Rightarrow> bool) \<Rightarrow> instant \<Rightarrow> pydatetime \<Rightarrow> instant \<Rightarrow> job_db \<Rightarrow>
    (error + bool) \<times> job_db" where
  "process_next_author_v_job digest is_digit_char now import_now ended d =
     (case claim_next now (requeue_stale now d) of
        (Idle, d1) \<Rightarrow> (Inr False, d1)
      | (Orphan, d1) \<Rightarrow> (Inr True, d1)
      | (Claimed task_id run_id, d1) \<Rightarrow>
          (case finish_job digest is_digit_char import_now ended task_id run_id d1 of
             (Inl e, d2) \<Rightarrow> (Inl e, d2)
           | (Inr _, d2) \<Rightarrow> (Inr True, d2)))"

section \<open>Workers and requests in any interleaving\<close>

text \<open>
  The database; the tasks that some worker has claimed and not finished (a worker that died is one
  that never does); the stale tasks some worker found and has not written yet; the runs and tasks some
  request checked for a retry and has not written yet; how often each task was put back other than
  by a retry that still found it failed with attempts left; and whether a requeue ever met a task
  that was no longer stale.
\<close>

record queue_state =
  qs_db :: job_db
  qs_held :: "(int \<times> int) list"
  qs_selected :: "(instant \<times> int list) list"
  qs_retries :: "(int \<times> int) list"
  qs_requeued :: "int \<Rightarrow> int"
  qs_overtaken :: bool

datatype queue_event =
    Enqueue instant job_payload
  | ReadRetry int
  | WriteRetry instant int int
  | SelectStale instant
  | Requeue instant "int list"
  | Claim instant
  | Finish pydatetime instant int int

definition retryable :: "job_task \<Rightarrow> bool" where
  "retryable t \<longleftrightarrow> jt_status t = TaskFailed \<and> jt_attempt_count t < 3"

fun queue_step ::
  "(novel \<Rightarrow> pystr) \<Rightarrow> (nat \<Rightarrow> bool) \<Rightarrow> (job_payload \<Rightarrow> pystr) \<Rightarrow> (nat list \<Rightarrow> pystr) \<Rightarrow> queue_state \<Rightarrow>
    queue_event \<Rightarrow> queue_state" where
  "queue_step digest dig canonical sha s (Enqueue now p) =
     s\<lparr>qs_db := snd (enqueue_author_v_job canonical sha now p (qs_db s))\<rparr>"
| "queue_step digest dig canonical sha s (ReadRetry i) =
     (case read_retry i (qs_db s) of
        Inl e \<Rightarrow> s
      | Inr (run, t) \<Rightarrow> s\<lparr>qs_retries := (jr_id run, jt_id t) # qs_retries s\<rparr>)"
| "queue_step digest dig canonical sha s (WriteRetry now j i) =
     (if (j, i) \<in> set (qs_retries s)
      then s\<lparr>qs_db := write_retry now j i (qs_db s), qs_retries := remove1 (j, i) (qs_retries s),
             qs_requeued := (\<lambda>k. qs_requeued s k +
               (if k = i \<and> list_ex (\<lambda>t. jt_id t = i \<and> \<not> retryable t) (jd_tasks (qs_db s)) then 1 else 0))\<rparr>
      else s)"
| "queue_step digest dig canonical sha s (SelectStale now) =
     s\<lparr>qs_selected := (now, stale_tasks now (qs_db s)) # qs_selected s\<rparr>"
| "queue_step digest dig canonical sha s (Requeue now ids) =
     (if (now, ids) \<in> set (qs_selected s)
      then s\<lparr>qs_db := requeue_tasks now ids (qs_db s), qs_selected := remove1 (now, ids) (qs_selected s),
             qs_requeued := (\<lambda>i. qs_requeued s i + (if i \<in> set ids then 1 else 0)),
             qs_overtaken := (qs_overtaken s \<or>
               list_ex (\<lambda>t. jt_id t \<in> set ids \<and> \<not> lease_expired now t) (jd_tasks (qs_db s)))\<rparr>
      else s)"
| "queue_step digest dig canonical sha s (Claim now) =
     (case claim_next now (qs_db s) of
        (Claimed i j, d) \<Rightarrow> s\<lparr>qs_db := d, qs_held := (i, j) # qs_held s\<rparr>
      | (_, d) \<Rightarrow> s\<lparr>qs_db := d\<rparr>)"
| "queue_step digest dig canonical sha s (Finish now ended i j) =
     (if (i, j) \<in> set (qs_held s)
      then s\<lparr>qs_db := snd (finish_job digest dig now ended i j (qs_db s)), qs_held := remove1 (i, j) (qs_held s)\<rparr>
      else s)"

definition start_queue :: "catalog \<Rightarrow> queue_state" where
  "start_queue cat =
     \<lparr>qs_db = \<lparr>jd_runs = [], jd_tasks = [], jd_catalog = cat\<rparr>, qs_held = [], qs_selected = [],
      qs_retries = [], qs_requeued = (\<lambda>_. 0), qs_overtaken = False\<rparr>"

section \<open>The invariant of the queue\<close>

fun statuses_agree :: "task_status \<Rightarrow> run_status \<Rightarrow> bool" where
  "statuses_agree TaskPending r = (r = RunPending \<or> r = RunRunning)"
| "statuses_agree TaskRunning r = (r = RunRunning)"
| "statuses_agree TaskSucceeded r = (r = RunCompleted)"
| "statuses_agree TaskFailed r = (r = RunFailed)"

text \<open>\<open>a\<close>: no requeue met a task that was no longer stale.\<close>

definition job_ok :: "bool \<Rightarrow> int \<Rightarrow> job_task \<Rightarrow> job_run \<Rightarrow> bool" where
  "job_ok a requeued t r \<longleftrightarrow>
     (a \<longrightarrow> statuses_agree (jt_status t) (jr_status r)) \<and>
     (jt_lease_until t \<noteq> None \<longleftrightarrow> jt_status t = TaskRunning) \<and>
     jt_attempt_count t \<le> (if jt_status t = TaskPending then 2 else 3) + requeued"

definition jobs_ok :: "bool \<Rightarrow> (int \<Rightarrow> int) \<Rightarrow> job_db \<Rightarrow> bool" where
  "jobs_ok a q d \<longleftrightarrow>
     distinct (map jr_id (jd_runs d)) \<and> distinct (map jt_id (jd_tasks d)) \<and>
     distinct (map jt_run_id (jd_tasks d)) \<and>
     jt_run_id ` set (jd_tasks d) = jr_id ` set (jd_runs d) \<and>
     (\<forall>r \<in> set (jd_runs d). jr_type r = job_run_type) \<and> (\<forall>t \<in> set (jd_tasks d). jt_type t = job_task_type) \<and>
     (\<forall>i. 0 \<le> q i) \<and>
     (\<forall>t \<in> set (jd_tasks d). \<forall>r \<in> set (jd_runs d). jt_run_id t = jr_id r \<longrightarrow> job_ok a (q (jt_id t)) t r)"

definition task_keys :: "job_db \<Rightarrow> (int \<times> int) set" where
  "task_keys d = (\<lambda>t. (jt_id t, jt_run_id t)) ` set (jd_tasks d)"

definition queue_inv :: "queue_state \<Rightarrow> bool" where
  "queue_inv s \<longleftrightarrow> jobs_ok (\<not> qs_overtaken s) (qs_requeued s) (qs_db s) \<and>
     set (qs_held s) \<subseteq> task_keys (qs_db s) \<and> prod.swap ` set (qs_retries s) \<subseteq> task_keys (qs_db s)"

text \<open>The one write of a job: its task and its run, with their keys kept.\<close>

definition update_job :: "int \<Rightarrow> (job_task \<Rightarrow> job_task) \<Rightarrow> int \<Rightarrow> (job_run \<Rightarrow> job_run) \<Rightarrow> job_db \<Rightarrow> job_db" where
  "update_job i f j g d = update_run j g (update_task i f d)"

lemma jobs_ok_catalog [simp]: "jobs_ok a q (d\<lparr>jd_catalog := cat\<rparr>) = jobs_ok a q d"
  by (simp add: jobs_ok_def)

lemma jobs_ok_pair:
  assumes "jobs_ok a q d" and "t \<in> set (jd_tasks d)"
  obtains r where "row_get jr_id (jt_run_id t) (jd_runs d) = Some r" and "r \<in> set (jd_runs d)"
    and "jr_id r = jt_run_id t" and "job_ok a (q (jt_id t)) t r"
proof -
  obtain r where r: "r \<in> set (jd_runs d)" "jr_id r = jt_run_id t"
    using assms by (auto simp: jobs_ok_def) (metis imageE image_eqI)
  have "row_get jr_id (jr_id r) (jd_runs d) = Some r"
    using assms(1) r(1) by (intro row_get_unique) (simp_all add: jobs_ok_def)
  with r assms that show thesis by (auto simp: jobs_ok_def)
qed

lemma update_job_ok:
  assumes ok: "jobs_ok a q d" and t: "t \<in> set (jd_tasks d)" "jt_id t = i" "jt_run_id t = j"
    and f: "\<And>t. jt_id (f t) = jt_id t \<and> jt_run_id (f t) = jt_run_id t \<and> jt_type (f t) = jt_type t"
    and g: "\<And>r. jr_id (g r) = jr_id r \<and> jr_type (g r) = jr_type r"
    and new: "\<And>r. r \<in> set (jd_runs d) \<Longrightarrow> jr_id r = j \<Longrightarrow> job_ok a (q i) t r \<Longrightarrow> job_ok a (q i) (f t) (g r)"
  shows "jobs_ok a q (update_job i f j g d)"
proof -
  let ?d = "update_job i f j g d"
  have maps: "map jr_id (jd_runs ?d) = map jr_id (jd_runs d)" "map jt_id (jd_tasks ?d) = map jt_id (jd_tasks d)"
    "map jt_run_id (jd_tasks ?d) = map jt_run_id (jd_tasks d)"
    using f g by (simp_all add: update_job_def update_run_def update_task_def map_row_update_same)
  have types: "\<forall>r \<in> set (jd_runs ?d). jr_type r = job_run_type" "\<forall>t \<in> set (jd_tasks ?d). jt_type t = job_task_type"
    using ok f g by (auto simp: update_job_def update_run_def update_task_def set_row_update jobs_ok_def)
  have "job_ok a (q (jt_id t')) t' r'"
    if t': "t' \<in> set (jd_tasks ?d)" and r': "r' \<in> set (jd_runs ?d)" and same: "jt_run_id t' = jr_id r'" for t' r'
  proof -
    obtain t0 where t0: "t0 \<in> set (jd_tasks d)" "t' = (if jt_id t0 = i then f t0 else t0)"
      using t' by (auto simp: update_job_def update_run_def update_task_def set_row_update)
    obtain r0 where r0: "r0 \<in> set (jd_runs d)" "r' = (if jr_id r0 = j then g r0 else r0)"
      using r' by (auto simp: update_job_def update_run_def update_task_def set_row_update)
    have ids: "jt_run_id t0 = jr_id r0" using same t0(2) r0(2) f g by (auto split: if_splits)
    have old: "job_ok a (q (jt_id t0)) t0 r0" using ok t0(1) r0(1) ids by (simp add: jobs_ok_def)
    have iff: "jt_id t0 = i \<longleftrightarrow> jt_run_id t0 = j"
      using ok t t0(1) row_key_eq [of jt_id "jd_tasks d" t0 t] row_key_eq [of jt_run_id "jd_tasks d" t0 t]
      by (auto simp: jobs_ok_def)
    show ?thesis
    proof (cases "jt_id t0 = i")
      case True
      then have "t0 = t" using ok t t0(1) row_key_eq [of jt_id "jd_tasks d" t0 t] by (auto simp: jobs_ok_def)
      then show ?thesis using True new [OF r0(1)] old iff ids t0(2) r0(2) f by (auto simp: t)
    next
      case False
      then show ?thesis using old iff ids t0(2) r0(2) by auto
    qed
  qed
  then show ?thesis using ok maps types by (auto simp: jobs_ok_def simp flip: set_map)
qed

lemma update_job_keys:
  assumes "\<And>t. jt_id (f t) = jt_id t \<and> jt_run_id (f t) = jt_run_id t"
  shows "task_keys (update_job i f j g d) = task_keys d"
proof -
  have "map (\<lambda>t. (jt_id t, jt_run_id t)) (row_update jt_id i f (jd_tasks d)) =
      map (\<lambda>t. (jt_id t, jt_run_id t)) (jd_tasks d)"
    using assms by (intro map_row_update_same) simp
  then show ?thesis
    by (simp add: task_keys_def update_job_def update_run_def update_task_def flip: set_map)
qed

lemma enqueue_ok:
  assumes "jobs_ok a q d"
  shows "jobs_ok a q (snd (enqueue_author_v_job canonical sha now p d))"
    and "task_keys d \<subseteq> task_keys (snd (enqueue_author_v_job canonical sha now p d))"
proof -
  have fresh: "fresh_key jr_id (jd_runs d) \<notin> jr_id ` set (jd_runs d)"
    "fresh_key jt_id (jd_tasks d) \<notin> jt_id ` set (jd_tasks d)" by (rule fresh_key_notin)+
  have "fresh_key jr_id (jd_runs d) \<notin> jt_run_id ` set (jd_tasks d)" using fresh(1) assms by (simp add: jobs_ok_def)
  then have "\<forall>t \<in> set (jd_tasks d). jt_run_id t \<noteq> fresh_key jr_id (jd_runs d)"
    "\<forall>r \<in> set (jd_runs d). jr_id r \<noteq> fresh_key jr_id (jd_runs d)"
    "\<forall>t \<in> set (jd_tasks d). jt_id t \<noteq> fresh_key jt_id (jd_tasks d)"
    using fresh by (metis image_eqI)+
  then show "jobs_ok a q (snd (enqueue_author_v_job canonical sha now p d))"
    using assms by (auto simp: enqueue_author_v_job_def Let_def jobs_ok_def job_ok_def)
  show "task_keys d \<subseteq> task_keys (snd (enqueue_author_v_job canonical sha now p d))"
    by (auto simp: enqueue_author_v_job_def Let_def task_keys_def)
qed

lemma find_job_Inr:
  "find_job i d = Inr (run, Some t) \<Longrightarrow> t \<in> set (jd_tasks d) \<and> jt_run_id t = jr_id run"
  by (auto simp: find_job_def dest: find_SomeD split: option.splits if_splits)

lemma read_retry_Inr:
  "read_retry i d = Inr (run, t) \<Longrightarrow> t \<in> set (jd_tasks d) \<and> jt_run_id t = jr_id run \<and> retryable t"
proof -
  assume read: "read_retry i d = Inr (run, t)"
  then have "find_job i d = Inr (run, Some t) \<and> retryable t"
    by (cases "find_job i d")
      (auto simp: read_retry_def retryable_def bindr_def not_le split: option.splits if_splits)
  then show ?thesis using find_job_Inr by blast
qed

text \<open>A retry writes both rows, so even an overtaken one leaves them in agreement.\<close>

lemma write_retry_ok:
  assumes ok: "jobs_ok a q d" and key: "(i, j) \<in> task_keys d"
  shows "jobs_ok a (\<lambda>k. q k + (if k = i \<and> list_ex (\<lambda>t. jt_id t = i \<and> \<not> retryable t) (jd_tasks d) then 1 else 0))
      (write_retry now j i d) \<and> task_keys (write_retry now j i d) = task_keys d"
proof -
  obtain t where t: "t \<in> set (jd_tasks d)" "jt_id t = i" "jt_run_id t = j" using key by (auto simp: task_keys_def)
  have nonneg: "\<forall>k. 0 \<le> q k" using ok by (simp add: jobs_ok_def)
  let ?x = "if list_ex (\<lambda>t. jt_id t = i \<and> \<not> retryable t) (jd_tasks d) then 1 else 0"
  let ?q = "\<lambda>k. q k + (if k = i \<and> list_ex (\<lambda>t. jt_id t = i \<and> \<not> retryable t) (jd_tasks d) then 1 else 0)"
  have w: "write_retry now j i d = update_job i (retried_task now) j retried_run d"
    by (simp add: write_retry_def update_job_def)
  have "job_ok a (?q (jt_id t')) t' r" if "job_ok a (q (jt_id t')) t' r" for t' r
    using that by (auto simp: job_ok_def)
  then have "jobs_ok a ?q d" using ok nonneg by (auto simp: jobs_ok_def)
  moreover have "jt_attempt_count t \<le> 2 + ?q i" if "r \<in> set (jd_runs d)" "jr_id r = j" for r
  proof (cases "retryable t")
    case True
    then show ?thesis using nonneg [rule_format, of i] by (simp add: retryable_def)
  next
    case False
    then have "list_ex (\<lambda>t. jt_id t = i \<and> \<not> retryable t) (jd_tasks d)" using t by (auto simp: list_ex_iff)
    moreover have "job_ok a (q i) t r" using ok t that by (auto simp: jobs_ok_def)
    ultimately show ?thesis by (auto simp: job_ok_def split: if_splits)
  qed
  ultimately have "jobs_ok a ?q (update_job i (retried_task now) j retried_run d)"
    using t by (intro update_job_ok) (auto simp: retried_task_def retried_run_def job_ok_def)
  then show ?thesis unfolding w by (simp add: update_job_keys retried_task_def)
qed

text \<open>A requeue writes the task alone: agreement survives it only where the task is still stale.\<close>

lemma requeue_ok:
  assumes ok: "jobs_ok a q d"
  shows "jobs_ok (a \<and> \<not> list_ex (\<lambda>t. jt_id t \<in> set ids \<and> \<not> lease_expired now t) (jd_tasks d))
      (\<lambda>i. q i + (if i \<in> set ids then 1 else 0)) (requeue_tasks now ids d) \<and>
    task_keys (requeue_tasks now ids d) = task_keys d"
proof -
  let ?a = "a \<and> \<not> list_ex (\<lambda>t. jt_id t \<in> set ids \<and> \<not> lease_expired now t) (jd_tasks d)"
  define f where "f t = (if jt_id t \<in> set ids then requeued_task now t else t)" for t
  have d: "requeue_tasks now ids d = d\<lparr>jd_tasks := map f (jd_tasks d)\<rparr>"
    by (simp add: requeue_tasks_def f_def [abs_def])
  have f: "jt_id (f t) = jt_id t" "jt_run_id (f t) = jt_run_id t" "jt_type (f t) = jt_type t" for t
    by (simp_all add: f_def requeued_task_def)
  have maps: "map jt_id (map f ts) = map jt_id ts" "map jt_run_id (map f ts) = map jt_run_id ts" for ts
    by (simp_all add: f comp_def)
  have "job_ok ?a (q (jt_id t) + (if jt_id t \<in> set ids then 1 else 0)) (f t) r"
    if t: "t \<in> set (jd_tasks d)" and r: "r \<in> set (jd_runs d)" "jt_run_id t = jr_id r" for t r
  proof -
    have old: "job_ok a (q (jt_id t)) t r" using ok t r by (simp add: jobs_ok_def)
    show ?thesis
    proof (cases "jt_id t \<in> set ids")
      case True
      have "statuses_agree TaskPending (jr_status r)" if ?a
      proof -
        have "jt_status t = TaskRunning" using that True t by (auto simp: list_ex_iff lease_expired_def)
        then show ?thesis using old that by (auto simp: job_ok_def)
      qed
      with old True show ?thesis by (auto simp: job_ok_def f_def requeued_task_def split: if_splits)
    next
      case False
      with old show ?thesis by (auto simp: job_ok_def f_def)
    qed
  qed
  then have "jobs_ok ?a (\<lambda>i. q i + (if i \<in> set ids then 1 else 0)) (requeue_tasks now ids d)"
    using ok unfolding d jobs_ok_def by (auto simp: maps f image_image simp del: map_map)
  moreover have "task_keys (requeue_tasks now ids d) = task_keys d" by (simp add: d task_keys_def image_image f)
  ultimately show ?thesis by blast
qed

lemma next_task_Some:
  "next_task now tasks = Some t \<Longrightarrow> t \<in> set tasks \<and> dispatchable now t"
proof -
  assume "next_task now tasks = Some t"
  then obtain ts where "sort_key (\<lambda>t. (- jt_priority t, jt_id t)) (filter (dispatchable now) tasks) = t # ts"
    by (auto simp: next_task_def split: list.splits)
  from arg_cong [OF this, of set] have "t \<in> set (filter (dispatchable now) tasks)" by simp
  then show ?thesis by simp
qed

lemma claim_ok:
  assumes ok: "jobs_ok a q d"
  shows "jobs_ok a q (snd (claim_next now d)) \<and> task_keys (snd (claim_next now d)) = task_keys d \<and>
    fst (claim_next now d) \<noteq> Orphan \<and>
    (\<forall>i j. fst (claim_next now d) = Claimed i j \<longrightarrow> (i, j) \<in> task_keys d)"
proof (cases "next_task now (jd_tasks d)")
  case None
  with ok show ?thesis by (simp add: claim_next_def)
next
  case (Some t)
  then have t: "t \<in> set (jd_tasks d)" "jt_status t = TaskPending"
    using next_task_Some by (auto simp: dispatchable_def)
  obtain r where r: "row_get jr_id (jt_run_id t) (jd_runs d) = Some r" "jr_id r = jt_run_id t"
    using jobs_ok_pair [OF ok t(1)] by metis
  have c: "claim_next now d =
      (Claimed (jt_id t) (jr_id r), update_job (jt_id t) (started_task now) (jr_id r) (started_run now) d)"
    using Some r by (simp add: claim_next_def update_job_def)
  have "jobs_ok a q (update_job (jt_id t) (started_task now) (jr_id r) (started_run now) d)"
    using t r(2) by (intro update_job_ok [OF ok t(1)]) (auto simp: started_task_def started_run_def job_ok_def)
  moreover have "(jt_id t, jr_id r) \<in> task_keys d" using t(1) r(2) by (force simp: task_keys_def)
  ultimately show ?thesis by (simp add: c update_job_keys started_task_def)
qed

lemma finish_ok:
  assumes ok: "jobs_ok a q d" and held: "(i, j) \<in> task_keys d"
  shows "jobs_ok a q (snd (finish_job digest dig now ended i j d)) \<and>
    task_keys (snd (finish_job digest dig now ended i j d)) = task_keys d"
proof -
  obtain t where t: "t \<in> set (jd_tasks d)" "jt_id t = i" "jt_run_id t = j" using held by (auto simp: task_keys_def)
  have get: "row_get jt_id i (jd_tasks d) = Some t"
    using ok t row_get_unique [of jt_id "jd_tasks d" t] by (simp add: jobs_ok_def)
  have upd: "jobs_ok a q (update_job i f j g (d\<lparr>jd_catalog := cat\<rparr>)) \<and>
      task_keys (update_job i f j g (d\<lparr>jd_catalog := cat\<rparr>)) = task_keys d"
    if "f = succeeded_task \<and> g = completed_run ended \<or> f = failed_task code \<and> g = failed_run ended code" for f g cat code
  proof -
    have keys: "jt_id (f t) = jt_id t \<and> jt_run_id (f t) = jt_run_id t \<and> jt_type (f t) = jt_type t"
      "jr_id (g r) = jr_id r \<and> jr_type (g r) = jr_type r" for t r
      using that by (auto simp: succeeded_task_def failed_task_def completed_run_def failed_run_def)
    have "jobs_ok a q (update_job i f j g (d\<lparr>jd_catalog := cat\<rparr>))"
      using ok that t keys
      by (intro update_job_ok [of a q _ t])
        (auto simp: job_ok_def succeeded_task_def failed_task_def completed_run_def failed_run_def
          split: if_splits)
    moreover have "task_keys (d\<lparr>jd_catalog := cat\<rparr>) = task_keys d" by (simp add: task_keys_def)
    ultimately show ?thesis using keys by (simp add: update_job_keys)
  qed
  obtain r cat where im: "import_author_v_clicks digest dig (jp_records (jt_payload t)) (jp_generated_at (jt_payload t))
      (jp_attested (jt_payload t)) now (jd_catalog d) = (r, cat)" by fastforce
  have plain: "jobs_ok a q (d\<lparr>jd_catalog := cat\<rparr>) \<and> task_keys (d\<lparr>jd_catalog := cat\<rparr>) = task_keys d"
    using ok by (simp add: task_keys_def)
  have fin: "finish_job digest dig now ended i j d =
      conclude_job ended i j (import_outcome r) (d\<lparr>jd_catalog := cat\<rparr>)"
    by (simp add: finish_job_def get im)
  show ?thesis
  proof (cases "import_outcome r")
    case (Inr u)
    then show ?thesis using upd [of succeeded_task "completed_run ended"]
      by (simp add: fin conclude_job_def flip: update_job_def)
  next
    case (Inl e)
    then show ?thesis
      using plain upd [of "failed_task (job_error_code e)" "failed_run ended (job_error_code e)" "job_error_code e"]
      by (cases "handled_job_error e") (simp_all add: fin conclude_job_def flip: update_job_def)
  qed
qed

lemma queue_step_inv:
  assumes inv: "queue_inv s"
  shows "queue_inv (queue_step digest dig canonical sha s e)"
proof (cases e)
  case (Enqueue now p)
  with inv show ?thesis using enqueue_ok by (fastforce simp: queue_inv_def)
next
  case (ReadRetry i)
  then show ?thesis
    using inv by (auto simp: queue_inv_def task_keys_def dest!: read_retry_Inr split: sum.splits)
next
  case (WriteRetry now j i)
  show ?thesis
  proof (cases "(j, i) \<in> set (qs_retries s)")
    case True
    then have "(i, j) \<in> task_keys (qs_db s)" using inv by (force simp: queue_inv_def)
    moreover have "prod.swap ` set (remove1 (j, i) (qs_retries s)) \<subseteq> prod.swap ` set (qs_retries s)"
      by (intro image_mono set_remove1_subset)
    then have "prod.swap ` set (remove1 (j, i) (qs_retries s)) \<subseteq> task_keys (qs_db s)"
      using inv unfolding queue_inv_def by (elim conjE) (rule order_trans)
    ultimately show ?thesis
      using inv True write_retry_ok [of "\<not> qs_overtaken s" "qs_requeued s" "qs_db s" i j now] WriteRetry
      by (simp add: queue_inv_def)
  qed (use inv WriteRetry in simp)
next
  case (SelectStale now)
  with inv show ?thesis by (simp add: queue_inv_def)
next
  case (Requeue now ids)
  with inv show ?thesis
    using requeue_ok [of "\<not> qs_overtaken s" "qs_requeued s" "qs_db s" ids now] by (auto simp: queue_inv_def)
next
  case (Claim now)
  obtain c d where c: "claim_next now (qs_db s) = (c, d)" by fastforce
  show ?thesis
    using claim_ok [of "\<not> qs_overtaken s" "qs_requeued s" "qs_db s" now] inv c Claim
    by (cases c) (auto simp: queue_inv_def)
next
  case (Finish now ended i j)
  show ?thesis
  proof (cases "(i, j) \<in> set (qs_held s)")
    case True
    have "jobs_ok (\<not> qs_overtaken s) (qs_requeued s) (qs_db s)" and "(i, j) \<in> task_keys (qs_db s)"
      using inv True by (auto simp: queue_inv_def)
    from finish_ok [OF this, of digest dig now "ended"] show ?thesis
      using inv True set_remove1_subset [of "(i, j)" "qs_held s"] Finish by (auto simp: queue_inv_def)
  qed (use inv Finish in simp)
qed

interpretation import_queue: invariant_machine "queue_step digest dig canonical sha" any_event queue_inv
  for digest dig canonical sha
  by unfold_locales (rule queue_step_inv)

lemma queue_inv_start: "queue_inv (start_queue cat)"
  by (simp add: queue_inv_def start_queue_def jobs_ok_def)

section \<open>What a pass of the worker does\<close>

lemma next_task_None: "next_task now tasks = None \<longleftrightarrow> (\<forall>t \<in> set tasks. \<not> dispatchable now t)"
proof -
  have "next_task now tasks = None \<longleftrightarrow>
      set (sort_key (\<lambda>t. (- jt_priority t, jt_id t)) (filter (dispatchable now) tasks)) = {}"
    by (auto simp: next_task_def split: list.splits simp del: set_sort)
  then show ?thesis by auto
qed

lemma next_task_first:
  assumes "next_task now tasks = Some t" and "t' \<in> set tasks" and "dispatchable now t'"
  shows "(- jt_priority t, jt_id t) \<le> (- jt_priority t', jt_id t')"
proof -
  let ?k = "\<lambda>t. (- jt_priority t, jt_id t)"
  obtain ts where ts: "sort_key ?k (filter (dispatchable now) tasks) = t # ts"
    using assms(1) by (auto simp: next_task_def split: list.splits)
  have "set (t # ts) = {x \<in> set tasks. dispatchable now x}" using arg_cong [OF ts, of set] by auto
  then have "t' \<in> set (t # ts)" using assms(2,3) by blast
  moreover have "sorted (map ?k (t # ts))" by (simp only: ts [symmetric] sorted_sort_key)
  ultimately show ?thesis by auto
qed

lemma stale_tasks_iff:
  "distinct (map jt_id (jd_tasks d)) \<Longrightarrow> t \<in> set (jd_tasks d) \<Longrightarrow>
    jt_id t \<in> set (stale_tasks now d) \<longleftrightarrow> lease_expired now t"
  by (auto simp: stale_tasks_def dest: row_key_eq)

lemma dispatchable_after_requeue:
  assumes "distinct (map jt_id (jd_tasks d))"
  shows "(\<exists>t \<in> set (jd_tasks (requeue_stale now d)). dispatchable now t) \<longleftrightarrow>
   (\<exists>t \<in> set (jd_tasks d). dispatchable now t \<or> lease_expired now t)"
proof -
  have "dispatchable now (if jt_id t \<in> set (stale_tasks now d) then requeued_task now t else t) \<longleftrightarrow>
      dispatchable now t \<or> lease_expired now t" if "t \<in> set (jd_tasks d)" for t
    unfolding stale_tasks_iff [OF assms that]
    by (auto simp: dispatchable_def lease_expired_def requeued_task_def)
  then show ?thesis by (simp add: requeue_stale_def requeue_tasks_def del: if_image_distrib)
qed

lemma claim_idle: "fst (claim_next now d) = Idle \<longleftrightarrow> next_task now (jd_tasks d) = None"
  by (auto simp: claim_next_def split: option.splits)

lemma idle_iff:
  assumes "distinct (map jt_id (jd_tasks d))"
  shows "fst (process_next_author_v_job digest dig now import_now ended d) = Inr False \<longleftrightarrow>
   \<not> (\<exists>t \<in> set (jd_tasks d). dispatchable now t \<or> lease_expired now t)"
proof -
  have "fst (process_next_author_v_job digest dig now import_now ended d) = Inr False \<longleftrightarrow>
      fst (claim_next now (requeue_stale now d)) = Idle"
    by (auto simp: process_next_author_v_job_def split: prod.splits claim.splits sum.splits)
  then show ?thesis
    unfolding claim_idle next_task_None using dispatchable_after_requeue [OF assms, of now] by blast
qed


definition sample_job :: job_payload where
  "sample_job = \<lparr>jp_records = [\<lparr>cr_novel_id = [49], cr_chapter_id = 1, cr_click_count = 5\<rparr>],
     jp_generated_at = utc 0, jp_attested = False\<rparr>"

definition sample_queue :: "queue_event list \<Rightarrow> queue_state" where
  "sample_queue es = run_machine (queue_step (\<lambda>_. []) is_digit (\<lambda>_. []) (\<lambda>_. [])) (start_queue empty_catalog) es"

text \<open>
  A worker claims a job and dies; another finds the expired lease, puts the task back and claims it:
  the second attempt, with task and run in agreement.
\<close>

definition sample_requeue :: "queue_event list" where
  "sample_requeue = [Enqueue 0 sample_job, Claim 0, SelectStale (minutes 10 + 1), Requeue (minutes 10 + 1) [1],
     Claim (minutes 10 + 1)]"

lemmas queue_run_simps = sample_queue_def start_queue_def enqueue_author_v_job_def sample_job_def utf8_encodable_def
  claim_next_def next_task_def dispatchable_def row_get_Cons update_run_def update_task_def row_update_Cons
  started_task_def started_run_def stale_tasks_def lease_expired_def requeue_tasks_def requeued_task_def
  fresh_key_def Let_def duration_defs

lemma sample_requeue_run:
  "\<not> qs_overtaken (sample_queue sample_requeue) \<and>
   map jt_attempt_count (jd_tasks (qs_db (sample_queue sample_requeue))) = [2] \<and>
   map jt_status (jd_tasks (qs_db (sample_queue sample_requeue))) = [TaskRunning]"
  by (simp add: sample_requeue_def queue_run_simps)


section \<open>An overtaken requeue\<close>

text \<open>
  The slow worker: its lease expires, another worker finds it, the first one finishes the job (here it
  fails, for want of the attestation), and the other puts the finished task back.  The run has ended
  and its task is pending again.
\<close>

definition overtaken_events :: "queue_event list" where
  "overtaken_events = [Enqueue 0 sample_job, Claim 0, SelectStale (minutes 10 + 1), Finish (utc 0) 5 1 1,
     Requeue (minutes 10 + 1) [1]]"

lemma overtaken_requeue_splits_a_job:
  "map jt_status (jd_tasks (qs_db (sample_queue overtaken_events))) = [TaskPending] \<and>
   map jr_status (jd_runs (qs_db (sample_queue overtaken_events))) = [RunFailed] \<and>
   qs_overtaken (sample_queue overtaken_events)"
  by (simp add: overtaken_events_def queue_run_simps finish_job_def import_author_v_clicks_def validate_import_def conclude_job_def
      import_outcome_def bindr_def handled_job_error_def failed_task_def failed_run_def)

section \<open>Expired leases are not limited\<close>

text \<open>
  The limit of three attempts guards the manual retry only: a task whose workers die is taken again
  after every lease, without end.
\<close>

definition lone_job :: "int \<Rightarrow> instant \<Rightarrow> job_db \<Rightarrow> bool" where
  "lone_job k l d \<longleftrightarrow> (\<exists>t r. jd_tasks d = [t] \<and> jd_runs d = [r] \<and> jr_id r = jt_run_id t \<and>
     jt_type t = job_task_type \<and> jt_status t = TaskRunning \<and> jt_lease_until t = Some l \<and>
     jt_attempt_count t = k)"

lemma expired_lease_runs_again:
  assumes "lone_job k l d"
  shows "\<exists>l'. lone_job (k + 1) l' (snd (claim_next (l + 1) (requeue_stale (l + 1) d)))"
proof -
  obtain t r where d: "jd_tasks d = [t]" "jd_runs d = [r]" "jr_id r = jt_run_id t" "jt_type t = job_task_type"
    "jt_status t = TaskRunning" "jt_lease_until t = Some l" "jt_attempt_count t = k"
    using assms by (auto simp: lone_job_def)
  then have "lone_job (k + 1) (l + 1 + minutes 10) (snd (claim_next (l + 1) (requeue_stale (l + 1) d)))"
    by (simp add: lone_job_def requeue_stale_def requeue_tasks_def stale_tasks_def requeued_task_def lease_expired_def
        claim_next_def next_task_def dispatchable_def row_get_Cons update_run_def update_task_def row_update_Cons
        started_task_def started_run_def)
  then show ?thesis by blast
qed

lemma attempts_grow_without_limit:
  assumes "lone_job k l (qs_db s)"
  shows "\<exists>es l'. lone_job (k + int n) l' (qs_db (run_machine (queue_step digest dig canonical sha) s es))"
  using assms
proof (induction n arbitrary: s k l)
  case 0
  then have "lone_job (k + int 0) l (qs_db (run_machine (queue_step digest dig canonical sha) s []))" by simp
  then show ?case by blast
next
  case (Suc n)
  let ?pass = "[SelectStale (l + 1), Requeue (l + 1) (stale_tasks (l + 1) (qs_db s)), Claim (l + 1)]"
  let ?s = "run_machine (queue_step digest dig canonical sha) s ?pass"
  have "qs_db ?s = snd (claim_next (l + 1) (requeue_stale (l + 1) (qs_db s)))"
    by (auto simp: requeue_stale_def split: prod.splits claim.splits)
  then obtain l1 where "lone_job (k + 1) l1 (qs_db ?s)" using expired_lease_runs_again [OF Suc.prems] by auto
  from Suc.IH [OF this] obtain es l' where
    "lone_job (k + 1 + int n) l' (qs_db (run_machine (queue_step digest dig canonical sha) ?s es))" by blast
  moreover have "run_machine (queue_step digest dig canonical sha) ?s es =
      run_machine (queue_step digest dig canonical sha) s (?pass @ es)" by (simp only: run_machine_append)
  ultimately show ?case by (metis add.assoc add.commute of_nat_Suc)
qed

end
