(* ===== verification/Keyset.thy ===== *)
theory Keyset
  imports Cursor Floats
begin

text \<open>
  Keyset pagination as every list route of the read API does it: the rows after the cursor in
  the order of a key, one more than the limit, and the cursor of the last row of the page when
  there is more.  The \<open>keyset\<close> locale is the contract between a route and a client that follows
  \<open>next_cursor\<close>; the routes interpret it.
\<close>

section \<open>Pages\<close>

record 'i page =
  pg_items :: "'i list"
  pg_next :: "pystr option"

text \<open>\<open>ORDER BY key LIMIT limit + 1\<close>.\<close>

definition found_rows :: "('r \<Rightarrow> 'k::linorder) \<Rightarrow> nat \<Rightarrow> 'r list \<Rightarrow> 'r list" where
  "found_rows key limit rows = take (limit + 1) (sort_key key rows)"

definition make_page ::
  "('r \<Rightarrow> 'i) \<Rightarrow> ('r \<Rightarrow> error + pystr) \<Rightarrow> nat \<Rightarrow> 'r list \<Rightarrow> error + 'i page" where
  "make_page item cursor limit found =
     (let has_more = limit < length found; page_rows = take limit found
      in if has_more
         then bindr (cursor (last page_rows)) (\<lambda>c.
           Inr \<lparr>pg_items = map item page_rows, pg_next = Some c\<rparr>)
         else Inr \<lparr>pg_items = map item page_rows, pg_next = None\<rparr>)"

definition serve_page ::
  "('r \<Rightarrow> 'k::linorder) \<Rightarrow> ('r \<Rightarrow> 'i) \<Rightarrow> ('r \<Rightarrow> error + pystr) \<Rightarrow> nat \<Rightarrow> 'r list \<Rightarrow> error + 'i page"
  where
  "serve_page key item cursor limit rows = make_page item cursor limit (found_rows key limit rows)"

text \<open>A client that follows the cursors, for at most \<open>n\<close> requests; \<open>None\<close> when that is not enough.\<close>

fun read_pages ::
  "(pystr option \<Rightarrow> error + 'i page) \<Rightarrow> nat \<Rightarrow> pystr option \<Rightarrow> (error + 'i page list) option" where
  "read_pages fetch 0 c = None"
| "read_pages fetch (Suc n) c =
     (case fetch c of
        Inl e \<Rightarrow> Some (Inl e)
      | Inr p \<Rightarrow>
          (case pg_next p of
             None \<Rightarrow> Some (Inr [p])
           | Some c' \<Rightarrow> map_option (\<lambda>r. bindr r (\<lambda>ps. Inr (p # ps))) (read_pages fetch n (Some c'))))"

definition page_count :: "nat \<Rightarrow> nat \<Rightarrow> nat" where
  "page_count limit n = (if n \<le> limit then 1 else (n + limit - 1) div limit)"

text \<open>What a complete reading is: the items in order, in full pages up to the last.\<close>

definition complete_reading :: "nat \<Rightarrow> 'i list \<Rightarrow> 'i page list \<Rightarrow> bool" where
  "complete_reading limit items ps \<longleftrightarrow>
     concat (map pg_items ps) = items \<and> length ps = page_count limit (length items) \<and>
     list_all (\<lambda>p. length (pg_items p) = limit) (butlast ps) \<and>
     length (pg_items (last ps)) \<le> limit \<and> pg_next (last ps) = None"

section \<open>The contract\<close>

lemma page_count_step: "0 < limit \<Longrightarrow> limit < n \<Longrightarrow> page_count limit n = Suc (page_count limit (n - limit))"
proof -
  assume a: "0 < limit" "limit < n"
  define m where "m = n - limit"
  have "n = m + limit" "0 < m" using a by (simp_all add: m_def)
  moreover have "(m + limit + limit - 1) div limit = Suc ((m + limit - 1) div limit)"
  proof -
    have "m + limit + limit - 1 = (m + limit - 1) + limit" using a by simp
    then show ?thesis using a(1) by (metis div_add_self2 less_numeral_extra(3) Suc_eq_plus1)
  qed
  moreover have "(m + limit - 1) div limit = 1" if "m \<le> limit"
    using that a \<open>0 < m\<close> by (intro div_nat_eqI) auto
  ultimately show ?thesis by (simp add: page_count_def)
qed

lemma rows_beyond:
  assumes "sort_key key rows = as @ r # bs" and "distinct (map key rows)"
  shows "sort_key key (filter (\<lambda>x. key r < key x) rows) = bs"
proof -
  have s: "sorted (map key as @ key r # map key bs)"
    using sorted_sort_key [of key rows] assms(1) by simp
  have "distinct (map key (as @ r # bs))"
    using assms(2) by (subst assms(1) [symmetric]) (simp only: distinct_map set_sort distinct_sort)
  then have d: "key r \<notin> key ` set as" "key r \<notin> key ` set bs" by auto
  have "filter (\<lambda>x. key r < key x) as = []"
    using s by (auto simp: filter_empty_conv sorted_append)
  moreover have "filter (\<lambda>x. key r < key x) bs = bs"
    using s d by (auto simp: filter_id_conv sorted_append order.strict_iff_order)
  ultimately have "filter (\<lambda>x. key r < key x) (sort_key key rows) = bs"
    by (simp add: assms(1))
  then show ?thesis by (simp add: filter_sort)
qed

text \<open>
  The state \<open>s\<close> holds what a list is served from; the laws hold in the states that are \<open>good\<close>.
\<close>

locale keyset =
  fixes good :: "'s \<Rightarrow> bool" and key :: "'s \<Rightarrow> 'r \<Rightarrow> 'k::linorder" and rows :: "'s \<Rightarrow> 'r list"
    and item :: "'s \<Rightarrow> 'r \<Rightarrow> 'i" and limit :: "'s \<Rightarrow> nat" and cursor :: "'s \<Rightarrow> 'r \<Rightarrow> error + pystr"
    and fetch :: "'s \<Rightarrow> pystr option \<Rightarrow> error + 'i page"
  assumes limit_pos: "good s \<Longrightarrow> 0 < limit s"
    and keys_distinct: "good s \<Longrightarrow> distinct (map (key s) (rows s))"
    and has_cursor: "good s \<Longrightarrow> r \<in> set (rows s) \<Longrightarrow> \<exists>c. cursor s r = Inr c"
    and fetch_first: "good s \<Longrightarrow> fetch s None = serve_page (key s) (item s) (cursor s) (limit s) (rows s)"
    and fetch_next: "good s \<Longrightarrow> r \<in> set (rows s) \<Longrightarrow> cursor s r = Inr c \<Longrightarrow>
      fetch s (Some c) =
        serve_page (key s) (item s) (cursor s) (limit s) (filter (\<lambda>x. key s r < key s x) (rows s))"
begin

lemma read_from:
  assumes good: "good s" and "sort_key (key s) (rows s) = as @ bs"
    and "fetch s c = make_page (item s) (cursor s) (limit s) (take (limit s + 1) bs)"
    and "page_count (limit s) (length bs) \<le> n"
  shows "\<exists>ps. read_pages (fetch s) n c = Some (Inr ps) \<and> complete_reading (limit s) (map (item s) bs) ps"
  using assms(2-)
proof (induction n arbitrary: as bs c)
  case 0
  then show ?case using limit_pos [OF good]
    by (auto simp: page_count_def div_eq_0_iff split: if_splits)
next
  case (Suc n)
  show ?case
  proof (cases "length bs \<le> limit s")
    case True
    with Suc.prems(2) show ?thesis
      by (simp add: make_page_def complete_reading_def page_count_def)
  next
    case False
    define front where "front = take (limit s) bs"
    define rest where "rest = drop (limit s) bs"
    have bs: "bs = front @ rest" and len: "length front = limit s" "rest \<noteq> []"
      using False by (simp_all add: front_def rest_def)
    then have "front \<noteq> []" using limit_pos [OF good] by auto
    define r where "r = last front"
    have fr: "front = butlast front @ [r]" using \<open>front \<noteq> []\<close> by (simp add: r_def)
    have sorted: "sort_key (key s) (rows s) = (as @ butlast front) @ r # rest"
      using Suc.prems(1) bs fr by (metis append.assoc append_Cons append_Nil)
    then have "r \<in> set (sort_key (key s) (rows s))" by simp
    then have "r \<in> set (rows s)" by simp
    then obtain c' where c': "cursor s r = Inr c'" using has_cursor [OF good] by blast
    have page: "fetch s c = Inr \<lparr>pg_items = map (item s) front, pg_next = Some c'\<rparr>"
      using Suc.prems(2) False c' by (simp add: make_page_def front_def r_def)
    have "fetch s (Some c') = make_page (item s) (cursor s) (limit s) (take (limit s + 1) rest)"
      using fetch_next [OF good \<open>r \<in> set (rows s)\<close> c']
      by (simp add: serve_page_def found_rows_def rows_beyond [OF sorted keys_distinct [OF good]])
    moreover have "sort_key (key s) (rows s) = (as @ front) @ rest" using Suc.prems(1) bs by simp
    moreover have count: "page_count (limit s) (length bs) = Suc (page_count (limit s) (length rest))"
      using page_count_step [OF limit_pos [OF good], of "length bs"] False by (simp add: rest_def)
    ultimately obtain ps where ps: "read_pages (fetch s) n (Some c') = Some (Inr ps)"
        "complete_reading (limit s) (map (item s) rest) ps"
      using Suc.IH [of "as @ front" rest "Some c'"] Suc.prems(3) by auto
    have "ps \<noteq> []"
      using ps(2) limit_pos [OF good]
      by (auto simp: complete_reading_def page_count_def div_eq_0_iff split: if_splits)
    with ps page count len bs show ?thesis by (auto simp: complete_reading_def)
  qed
qed

lemma read_all:
  assumes good: "good s" and "page_count (limit s) (length (rows s)) \<le> n"
  shows "\<exists>ps. read_pages (fetch s) n None = Some (Inr ps) \<and>
    complete_reading (limit s) (map (item s) (sort_key (key s) (rows s))) ps"
proof (rule read_from [OF good])
  show "sort_key (key s) (rows s) = [] @ sort_key (key s) (rows s)" by simp
  show "fetch s None =
      make_page (item s) (cursor s) (limit s) (take (limit s + 1) (sort_key (key s) (rows s)))"
    by (simp add: fetch_first [OF good] serve_page_def found_rows_def)
  show "page_count (limit s) (length (sort_key (key s) (rows s))) \<le> n" using assms(2) by simp
qed

end

section \<open>Pages by identifier\<close>

definition http_error :: "int \<Rightarrow> string \<Rightarrow> error" where
  "http_error status detail = HttpException status (lit detail)"

definition cursor_value :: "(nat list \<Rightarrow> nat list) \<Rightarrow> pystr option \<Rightarrow> error + int" where
  "cursor_value sha cursor =
     (case decode_cursor sha cursor of
        Inl e \<Rightarrow> Inl (if e = InvalidCursor then http_error 422 ''invalid_cursor'' else e)
      | Inr n \<Rightarrow> Inr n)"

text \<open>\<open>WHERE id > n ORDER BY id LIMIT limit + 1\<close>, and the page made of it.\<close>

definition id_page ::
  "(nat list \<Rightarrow> nat list) \<Rightarrow> ('r \<Rightarrow> int) \<Rightarrow> ('r \<Rightarrow> 'i) \<Rightarrow> nat \<Rightarrow> int \<Rightarrow> 'r list \<Rightarrow> error + 'i page" where
  "id_page sha key item limit n rows =
     serve_page key item (\<lambda>r. encode_cursor sha (key r)) limit (filter (\<lambda>r. n < key r) rows)"

record ('r, 'i) id_list =
  il_sha :: "nat list \<Rightarrow> nat list"
  il_key :: "'r \<Rightarrow> int"
  il_item :: "'r \<Rightarrow> 'i"
  il_limit :: nat
  il_rows :: "'r list"

definition ids_fit :: "('r \<Rightarrow> int) \<Rightarrow> 'r list \<Rightarrow> bool" where
  "ids_fit key rows \<longleftrightarrow> distinct (map key rows) \<and> list_all (\<lambda>r. 0 < key r \<and> key r < 2 ^ 64) rows"

definition id_list_good :: "('r, 'i) id_list \<Rightarrow> bool" where
  "id_list_good s \<longleftrightarrow> digest32 (il_sha s) \<and> 0 < il_limit s \<and> ids_fit (il_key s) (il_rows s)"

definition id_fetch :: "('r, 'i) id_list \<Rightarrow> pystr option \<Rightarrow> error + 'i page" where
  "id_fetch s cursor =
     bindr (cursor_value (il_sha s) cursor) (\<lambda>n.
       id_page (il_sha s) (il_key s) (il_item s) (il_limit s) n (il_rows s))"

interpretation by_id: keyset id_list_good il_key il_rows il_item il_limit
  "\<lambda>s r. encode_cursor (il_sha s) (il_key s r)" id_fetch
proof
  fix s :: "('r, 'i) id_list" and r c
  assume good: "id_list_good s"
  then have rows: "\<forall>r \<in> set (il_rows s). 0 < il_key s r \<and> il_key s r < 2 ^ 64" and sha: "digest32 (il_sha s)"
    by (simp_all add: id_list_good_def ids_fit_def list_all_iff)
  show "0 < il_limit s" "distinct (map (il_key s) (il_rows s))"
    using good by (simp_all add: id_list_good_def ids_fit_def)
  have "filter (\<lambda>r. 0 < il_key s r) (il_rows s) = il_rows s" using rows by (simp add: filter_id_conv)
  then show "id_fetch s None = serve_page (il_key s) (il_item s)
      (\<lambda>r. encode_cursor (il_sha s) (il_key s r)) (il_limit s) (il_rows s)"
    by (simp add: id_fetch_def id_page_def cursor_value_def decode_cursor_def)
  assume r: "r \<in> set (il_rows s)"
  then obtain c' where c': "encode_cursor (il_sha s) (il_key s r) = Inr c'"
      "decode_cursor (il_sha s) (Some c') = Inr (il_key s r)"
    using plain_round_trip [OF sha] rows by blast
  then show "\<exists>c. encode_cursor (il_sha s) (il_key s r) = Inr c" by blast
  assume "encode_cursor (il_sha s) (il_key s r) = Inr c"
  with c' show "id_fetch s (Some c) = serve_page (il_key s) (il_item s)
      (\<lambda>r. encode_cursor (il_sha s) (il_key s r)) (il_limit s)
      (filter (\<lambda>x. il_key s r < il_key s x) (il_rows s))"
    by (simp add: id_fetch_def id_page_def cursor_value_def)
qed

section \<open>Pages by score\<close>

text \<open>
  A ranking orders by falling score and then by identifier.  A score is what the database returns, a
  rational number; the cursor holds its integer part.
\<close>

definition rank_cursor :: "(nat list \<Rightarrow> nat list) \<Rightarrow> pystr \<Rightarrow> pystr option \<Rightarrow> error + (int \<times> int) option" where
  "rank_cursor sha namespace cursor =
     (case decode_rank_cursor sha cursor namespace of
        Inl e \<Rightarrow> Inl (if e = InvalidCursor then http_error 422 ''invalid_cursor'' else e)
      | Inr p \<Rightarrow> Inr p)"

definition ranked_after :: "('r \<Rightarrow> rat) \<Rightarrow> ('r \<Rightarrow> int) \<Rightarrow> (int \<times> int) option \<Rightarrow> 'r \<Rightarrow> bool" where
  "ranked_after score key pos r \<longleftrightarrow>
     (case pos of
        None \<Rightarrow> True
      | Some (s, i) \<Rightarrow> score r < of_int s \<or> score r = of_int s \<and> i < key r)"

definition rank_key :: "('r \<Rightarrow> rat) \<Rightarrow> ('r \<Rightarrow> int) \<Rightarrow> 'r \<Rightarrow> rat \<times> int" where
  "rank_key score key r = (- score r, key r)"

definition rank_page ::
  "(nat list \<Rightarrow> nat list) \<Rightarrow> pystr \<Rightarrow> ('r \<Rightarrow> rat) \<Rightarrow> ('r \<Rightarrow> int) \<Rightarrow> ('r \<Rightarrow> 'i) \<Rightarrow> nat \<Rightarrow>
     (int \<times> int) option \<Rightarrow> 'r list \<Rightarrow> error + 'i page" where
  "rank_page sha namespace score key item limit pos rows =
     serve_page (rank_key score key) item
       (\<lambda>r. encode_rank_cursor sha (trunc_int (score r)) (key r) namespace) limit
       (filter (ranked_after score key pos) rows)"

record ('r, 'i) rank_list = "('r, 'i) id_list" +
  rl_namespace :: pystr
  rl_score :: "'r \<Rightarrow> rat"

text \<open>The scores must be integers: otherwise a cursor does not name its row.\<close>

definition rank_list_good :: "('r, 'i) rank_list \<Rightarrow> bool" where
  "rank_list_good s \<longleftrightarrow>
     digest32 (il_sha s) \<and> 0 < il_limit s \<and> ids_fit (il_key s) (il_rows s) \<and>
     is_ok (namespace_hash (il_sha s) (rl_namespace s)) \<and>
     list_all (\<lambda>r. \<exists>n. rl_score s r = of_int n \<and> 0 \<le> n \<and> n < 2 ^ 64) (il_rows s)"

definition rank_fetch :: "('r, 'i) rank_list \<Rightarrow> pystr option \<Rightarrow> error + 'i page" where
  "rank_fetch s cursor =
     bindr (rank_cursor (il_sha s) (rl_namespace s) cursor) (\<lambda>pos.
       rank_page (il_sha s) (rl_namespace s) (rl_score s) (il_key s) (il_item s) (il_limit s) pos (il_rows s))"

lemma rank_cursor_round_trip:
  assumes "rank_list_good s" and "r \<in> set (il_rows s)"
  obtains n c where "rl_score s r = of_int n" and "trunc_int (rl_score s r) = n"
    and "encode_rank_cursor (il_sha s) n (il_key s r) (rl_namespace s) = Inr c"
    and "rank_cursor (il_sha s) (rl_namespace s) (Some c) = Inr (Some (n, il_key s r))"
proof -
  obtain n where n: "rl_score s r = of_int n" "0 \<le> n" "n < 2 ^ 64"
    using assms by (auto simp: rank_list_good_def list_all_iff)
  have k: "0 < il_key s r" "il_key s r < 2 ^ 64" and sha: "digest32 (il_sha s)"
    using assms by (auto simp: rank_list_good_def ids_fit_def list_all_iff)
  obtain h where h: "namespace_hash (il_sha s) (rl_namespace s) = Inr h"
    using assms(1) by (auto simp: rank_list_good_def is_ok_Inr)
  obtain c where c: "encode_rank_cursor (il_sha s) n (il_key s r) (rl_namespace s) = Inr c"
      "decode_rank_cursor (il_sha s) (Some c) (rl_namespace s) = Inr (Some (n, il_key s r))"
    using rank_round_trip [OF sha n(2,3) k h h] by blast
  have "trunc_int (rl_score s r) = n" by (simp add: n(1) trunc_int_def)
  moreover have "rank_cursor (il_sha s) (rl_namespace s) (Some c) = Inr (Some (n, il_key s r))"
    unfolding rank_cursor_def c(2) by simp
  ultimately show thesis using n(1) c(1) by (intro that) simp_all
qed

interpretation by_score: keyset rank_list_good "\<lambda>s. rank_key (rl_score s) (il_key s)" il_rows il_item il_limit
  "\<lambda>s r. encode_rank_cursor (il_sha s) (trunc_int (rl_score s r)) (il_key s r) (rl_namespace s)" rank_fetch
proof
  fix s :: "('r, 'i) rank_list" and r c
  assume good: "rank_list_good s"
  show "0 < il_limit s" using good by (simp add: rank_list_good_def)
  have "distinct (map (il_key s) (il_rows s))" using good by (simp add: rank_list_good_def ids_fit_def)
  then show "distinct (map (rank_key (rl_score s) (il_key s)) (il_rows s))"
    by (auto simp: distinct_map inj_on_def rank_key_def)
  show "rank_fetch s None = serve_page (rank_key (rl_score s) (il_key s)) (il_item s)
      (\<lambda>r. encode_rank_cursor (il_sha s) (trunc_int (rl_score s r)) (il_key s r) (rl_namespace s))
      (il_limit s) (il_rows s)"
    by (simp add: rank_fetch_def rank_page_def rank_cursor_def decode_rank_cursor_def ranked_after_def
        filter_id_conv)
  assume r: "r \<in> set (il_rows s)"
  then obtain n c' where n: "rl_score s r = of_int n" "trunc_int (rl_score s r) = n"
    and c': "encode_rank_cursor (il_sha s) n (il_key s r) (rl_namespace s) = Inr c'"
      "rank_cursor (il_sha s) (rl_namespace s) (Some c') = Inr (Some (n, il_key s r))"
    using rank_cursor_round_trip [OF good] by blast
  then show "\<exists>c. encode_rank_cursor (il_sha s) (trunc_int (rl_score s r)) (il_key s r) (rl_namespace s) = Inr c"
    by simp
  have after: "ranked_after (rl_score s) (il_key s) (Some (n, il_key s r)) =
      (\<lambda>x. rank_key (rl_score s) (il_key s) r < rank_key (rl_score s) (il_key s) x)"
    by (auto simp: fun_eq_iff ranked_after_def rank_key_def less_prod_def n(1))
  assume "encode_rank_cursor (il_sha s) (trunc_int (rl_score s r)) (il_key s r) (rl_namespace s) = Inr c"
  then have "c = c'" using c'(1) n(2) by simp
  then show "rank_fetch s (Some c) = serve_page (rank_key (rl_score s) (il_key s)) (il_item s)
      (\<lambda>r. encode_rank_cursor (il_sha s) (trunc_int (rl_score s r)) (il_key s r) (rl_namespace s))
      (il_limit s)
      (filter (\<lambda>x. rank_key (rl_score s) (il_key s) r < rank_key (rl_score s) (il_key s) x) (il_rows s))"
    by (simp add: rank_fetch_def rank_page_def c'(2) after)
qed

section \<open>Conditional answers\<close>

text \<open>
  \<open>private_cached\<close>: every route answers with the entity tag of its payload, or with 304 when the
  request names that tag.  \<open>digest\<close> is the hexadecimal SHA-256 of the payload's JSON dump.
\<close>

datatype 'a reply =
    NotModified (reply_age: int) (reply_tag: pystr)
  | Payload 'a (reply_age: int) (reply_tag: pystr)

definition private_cached :: "('a \<Rightarrow> pystr) \<Rightarrow> pystr option \<Rightarrow> int \<Rightarrow> 'a \<Rightarrow> 'a reply" where
  "private_cached digest if_none_match max_age payload =
     (let etag = [34] @ digest payload @ [34]
      in if if_none_match = Some etag then NotModified max_age etag else Payload payload max_age etag)"

text \<open>A client that keeps the payload of the tag it sends always ends up with the current one.\<close>

fun kept_payload :: "'a \<Rightarrow> 'a reply \<Rightarrow> 'a" where
  "kept_payload old (NotModified age tag) = old"
| "kept_payload old (Payload new age tag) = new"

lemma private_cached_is_current:
  assumes "inj digest"
  shows "kept_payload old (private_cached digest (Some (reply_tag (private_cached digest m a old))) age new) = new"
  using assms by (auto simp: private_cached_def Let_def dest: injD)

end
