(* ===== verification/IngestTables.thy ===== *)
theory IngestTables
  imports DataQuality Upsert
begin

text \<open>
  The ingest ledger of \<open>src/pixiv_yuri/ingest/models.py\<close> as the read API and the projection use
  it: source records, observations, schema definitions, runs, tasks and quarantine records.  A time
  column holds an instant, as PostgreSQL keeps it; columns that no modelled code reads or decides
  by are left out.
\<close>

section \<open>Rows\<close>

datatype availability = Available | Missing | Restricted | Removed | UnknownAvailability
datatype observation_status = ObsPending | ObsValid | ObsInvalid | ObsQuarantined
datatype schema_status = SchemaDiscovered | SchemaApproved | SchemaRejected
datatype quarantine_status = QuarantineOpen | QuarantineResolved | QuarantineIgnored
datatype crawl_status =
  CrawlPending | CrawlRunning | CrawlCompleted | CrawlWithErrors | CrawlFailed | CrawlCancelled
datatype crawl_task_status = TaskPending | TaskRunning | TaskSucceeded | TaskFailed | TaskCancelled

record source_record =
  sr_id :: int
  sr_system :: pystr
  sr_entity :: entity_type
  sr_source :: pystr
  sr_availability :: availability
  sr_first_seen :: instant
  sr_last_seen :: instant

record raw_observation =
  ro_id :: int
  ro_record :: int
  ro_attempt :: int
  ro_observed_at :: instant
  ro_status_code :: int
  ro_content_type :: pystr
  ro_payload_sha :: pystr
  ro_bytes :: int
  ro_fingerprint :: pystr
  ro_parser_version :: "pystr option"
  ro_validation :: observation_status
  ro_created_at :: instant

record schema_row =
  sd_id :: int
  sd_entity :: entity_type
  sd_fingerprint :: pystr
  sd_samples :: int
  sd_status :: schema_status
  sd_parser_min :: "pystr option"
  sd_parser_max :: "pystr option"
  sd_first_seen :: instant
  sd_last_seen :: instant

record crawl_run =
  cr_id :: int
  cr_type :: pystr
  cr_provider :: pystr
  cr_status :: crawl_status
  cr_started_at :: "instant option"
  cr_finished_at :: "instant option"
  cr_created_at :: instant

record crawl_task =
  ck_id :: int
  ck_run :: int
  ck_record :: int
  ck_type :: pystr
  ck_key :: pystr
  ck_status :: crawl_task_status
  ck_priority :: int
  ck_attempts :: int
  ck_error :: "pystr option"
  ck_available_at :: instant
  ck_updated_at :: instant

datatype attempt_status = AttemptRunning | AttemptSucceeded | AttemptFailed

record task_attempt =
  at_id :: int
  at_task :: int
  at_number :: int
  at_status :: attempt_status
  at_http_status :: "int option"
  at_error :: "pystr option"
  at_bytes :: "int option"

record quarantine_row =
  qr_id :: int
  qr_observation :: "int option"
  qr_attempt :: int
  qr_entity :: entity_type
  qr_source :: pystr
  qr_code :: pystr
  qr_detail :: "pystr option"
  qr_status :: quarantine_status
  qr_first_failed :: instant
  qr_last_failed :: instant

record ledger_tables =
  lt_records :: "source_record list"
  lt_runs :: "crawl_run list"
  lt_tasks :: "crawl_task list"
  lt_attempts :: "task_attempt list"
  lt_observations :: "raw_observation list"
  lt_schemas :: "schema_row list"
  lt_quarantine :: "quarantine_row list"

definition source_key :: "source_record \<Rightarrow> pystr \<times> entity_type \<times> pystr" where
  "source_key r = (sr_system r, sr_entity r, sr_source r)"

definition schema_key :: "schema_row \<Rightarrow> entity_type \<times> pystr" where
  "schema_key s = (sd_entity s, sd_fingerprint s)"

definition observation_key :: "raw_observation \<Rightarrow> int \<times> pystr \<times> instant" where
  "observation_key r = (ro_record r, ro_payload_sha r, ro_observed_at r)"

section \<open>Constraints\<close>

definition ledger_tables_ok :: "ledger_tables \<Rightarrow> bool" where
  "ledger_tables_ok d \<longleftrightarrow>
     keys_ok sr_id source_key (lt_records d) \<and> distinct (map cr_id (lt_runs d)) \<and>
     keys_ok ck_id (\<lambda>t. (ck_run t, ck_key t)) (lt_tasks d) \<and>
     keys_ok at_id (\<lambda>a. (at_task a, at_number a)) (lt_attempts d) \<and>
     keys_ok ro_id observation_key (lt_observations d) \<and>
     keys_ok sd_id schema_key (lt_schemas d) \<and> distinct (map qr_id (lt_quarantine d)) \<and>
     (\<forall>t \<in> set (lt_tasks d). ck_run t \<in> cr_id ` set (lt_runs d) \<and>
        ck_record t \<in> sr_id ` set (lt_records d) \<and> 0 \<le> ck_priority t \<and> 0 \<le> ck_attempts t) \<and>
     (\<forall>a \<in> set (lt_attempts d). at_task a \<in> ck_id ` set (lt_tasks d) \<and>
        (case at_http_status a of None \<Rightarrow> True | Some s \<Rightarrow> 100 \<le> s \<and> s \<le> 599)) \<and>
     (\<forall>r \<in> set (lt_observations d). ro_record r \<in> sr_id ` set (lt_records d) \<and>
        ro_attempt r \<in> at_id ` set (lt_attempts d) \<and>
        100 \<le> ro_status_code r \<and> ro_status_code r \<le> 599 \<and> 0 \<le> ro_bytes r) \<and>
     (\<forall>s \<in> set (lt_schemas d). 0 \<le> sd_samples s) \<and>
     (\<forall>q \<in> set (lt_quarantine d). qr_attempt q \<in> at_id ` set (lt_attempts d) \<and>
        (case qr_observation q of None \<Rightarrow> True | Some i \<Rightarrow> i \<in> ro_id ` set (lt_observations d)))"

end
