(* ===== verification/Projection.thy ===== *)
theory Projection
  imports IngestTables
begin

text \<open>
  The normalized catalog of \<open>src/pixiv_yuri/analytics/models.py\<close> and the projection of
  \<open>src/pixiv_yuri/analytics/projection.py\<close>, which fills it from payloads the ingest ledger holds a
  valid observation of.  Reading a payload into a validated fixture (\<open>model_validate\<close>) is the
  parameter \<open>read_work\<close> or \<open>read_author\<close>; \<open>work_fixture_valid\<close> is what validation guarantees.  A
  raised exception is a session the caller rolls back.
\<close>

section \<open>Fixtures\<close>

record author_fixture =
  af_id :: pystr
  af_name :: pystr

record tag_fixture =
  tf_name :: pystr
  tf_translation :: "pystr option"

record work_fixture =
  wf_id :: pystr
  wf_title :: pystr
  wf_published_at :: instant
  wf_page_count :: int
  wf_width :: "int option"
  wf_height :: "int option"
  wf_author :: author_fixture
  wf_tags :: "tag_fixture list"
  wf_views :: "int option"
  wf_bookmarks :: "int option"
  wf_likes :: "int option"

definition at_least_option :: "int \<Rightarrow> int option \<Rightarrow> bool" where
  "at_least_option b v \<longleftrightarrow> (case v of None \<Rightarrow> True | Some n \<Rightarrow> b \<le> n)"

definition text_len :: "nat \<Rightarrow> pystr \<Rightarrow> bool" where
  "text_len b s \<longleftrightarrow> 1 \<le> length s \<and> length s \<le> b"

definition author_fixture_valid :: "author_fixture \<Rightarrow> bool" where
  "author_fixture_valid a \<longleftrightarrow> text_len 255 (af_id a) \<and> text_len 255 (af_name a)"

definition tag_fixture_valid :: "tag_fixture \<Rightarrow> bool" where
  "tag_fixture_valid t \<longleftrightarrow>
     text_len 255 (tf_name t) \<and> (case tf_translation t of None \<Rightarrow> True | Some s \<Rightarrow> length s \<le> 255)"

definition work_fixture_valid :: "work_fixture \<Rightarrow> bool" where
  "work_fixture_valid w \<longleftrightarrow>
     text_len 255 (wf_id w) \<and> text_len 500 (wf_title w) \<and> 1 \<le> wf_page_count w \<and>
     at_least_option 1 (wf_width w) \<and> at_least_option 1 (wf_height w) \<and>
     author_fixture_valid (wf_author w) \<and> length (wf_tags w) \<le> 100 \<and>
     list_all tag_fixture_valid (wf_tags w) \<and> distinct (map tf_name (wf_tags w)) \<and>
     at_least_option 0 (wf_views w) \<and> at_least_option 0 (wf_bookmarks w) \<and>
     at_least_option 0 (wf_likes w)"

section \<open>Tables\<close>

record catalog_author =
  ca_id :: int
  ca_system :: pystr
  ca_author :: pystr
  ca_name :: pystr
  ca_observation :: int
  ca_first_seen :: instant
  ca_last_seen :: instant

record catalog_work =
  cw_id :: int
  cw_system :: pystr
  cw_work :: pystr
  cw_title :: pystr
  cw_author :: int
  cw_created_at :: instant
  cw_page_count :: int
  cw_width :: "int option"
  cw_height :: "int option"
  cw_views :: "int option"
  cw_bookmarks :: "int option"
  cw_likes :: "int option"
  cw_observation :: int

record catalog_tag =
  cg_id :: int
  cg_system :: pystr
  cg_name :: pystr
  cg_translation :: "pystr option"

record metric_snapshot =
  ms_id :: int
  ms_work :: int
  ms_observation :: int
  ms_observed_at :: instant
  ms_views :: "int option"
  ms_bookmarks :: "int option"
  ms_likes :: "int option"

record work_tag =
  wt_work :: int
  wt_tag :: int
  wt_position :: int

record work_catalog =
  wc_authors :: "catalog_author list"
  wc_works :: "catalog_work list"
  wc_tags :: "catalog_tag list"
  wc_snapshots :: "metric_snapshot list"
  wc_work_tags :: "work_tag list"

definition author_key :: "catalog_author \<Rightarrow> pystr \<times> pystr" where
  "author_key a = (ca_system a, ca_author a)"

definition work_key :: "catalog_work \<Rightarrow> pystr \<times> pystr" where
  "work_key w = (cw_system w, cw_work w)"

definition tag_key :: "catalog_tag \<Rightarrow> pystr \<times> pystr" where
  "tag_key t = (cg_system t, cg_name t)"

definition work_row_ok :: "catalog_work \<Rightarrow> bool" where
  "work_row_ok w \<longleftrightarrow>
     1 \<le> cw_page_count w \<and> at_least_option 1 (cw_width w) \<and> at_least_option 1 (cw_height w) \<and>
     at_least_option 0 (cw_views w) \<and> at_least_option 0 (cw_bookmarks w) \<and>
     at_least_option 0 (cw_likes w)"

definition snapshot_ok :: "metric_snapshot \<Rightarrow> bool" where
  "snapshot_ok s \<longleftrightarrow>
     at_least_option 0 (ms_views s) \<and> at_least_option 0 (ms_bookmarks s) \<and>
     at_least_option 0 (ms_likes s)"

definition catalog_ok :: "raw_observation list \<Rightarrow> work_catalog \<Rightarrow> bool" where
  "catalog_ok obs c \<longleftrightarrow>
     keys_ok ca_id author_key (wc_authors c) \<and> keys_ok cw_id work_key (wc_works c) \<and>
     keys_ok cg_id tag_key (wc_tags c) \<and> keys_ok ms_id ms_observation (wc_snapshots c) \<and>
     distinct (map (\<lambda>t. (wt_work t, wt_tag t)) (wc_work_tags c)) \<and>
     (\<forall>a \<in> set (wc_authors c). ca_observation a \<in> ro_id ` set obs) \<and>
     (\<forall>w \<in> set (wc_works c). cw_observation w \<in> ro_id ` set obs \<and>
        cw_author w \<in> ca_id ` set (wc_authors c) \<and> work_row_ok w) \<and>
     (\<forall>s \<in> set (wc_snapshots c). ms_observation s \<in> ro_id ` set obs \<and>
        ms_work s \<in> cw_id ` set (wc_works c) \<and> snapshot_ok s) \<and>
     (\<forall>t \<in> set (wc_work_tags c). wt_work t \<in> cw_id ` set (wc_works c) \<and>
        wt_tag t \<in> cg_id ` set (wc_tags c) \<and> 0 \<le> wt_position t)"

section \<open>Upserts\<close>

definition new_catalog_author :: "pystr \<Rightarrow> author_fixture \<Rightarrow> raw_observation \<Rightarrow> int \<Rightarrow> catalog_author" where
  "new_catalog_author sys a ob i =
     \<lparr>ca_id = i, ca_system = sys, ca_author = af_id a, ca_name = af_name a,
      ca_observation = ro_id ob, ca_first_seen = ro_observed_at ob, ca_last_seen = ro_observed_at ob\<rparr>"

definition refresh_catalog_author :: "author_fixture \<Rightarrow> raw_observation \<Rightarrow> catalog_author \<Rightarrow> catalog_author" where
  "refresh_catalog_author a ob r =
     (if ca_last_seen r \<le> ro_observed_at ob
      then r\<lparr>ca_name := af_name a, ca_observation := ro_id ob, ca_last_seen := ro_observed_at ob\<rparr>
      else r)"

definition project_author ::
  "pystr \<Rightarrow> author_fixture \<Rightarrow> raw_observation \<Rightarrow> catalog_author list \<Rightarrow>
     catalog_author \<times> catalog_author list" where
  "project_author sys a ob rows =
     upsert_by ca_id author_key (sys, af_id a) (refresh_catalog_author a ob)
       (new_catalog_author sys a ob) rows"

definition work_values :: "work_fixture \<Rightarrow> catalog_author \<Rightarrow> raw_observation \<Rightarrow> catalog_work \<Rightarrow> catalog_work" where
  "work_values p a ob w =
     w\<lparr>cw_title := wf_title p, cw_author := ca_id a, cw_created_at := wf_published_at p,
       cw_page_count := wf_page_count p, cw_width := wf_width p, cw_height := wf_height p,
       cw_views := wf_views p, cw_bookmarks := wf_bookmarks p, cw_likes := wf_likes p,
       cw_observation := ro_id ob\<rparr>"

definition new_catalog_work ::
  "pystr \<Rightarrow> work_fixture \<Rightarrow> catalog_author \<Rightarrow> raw_observation \<Rightarrow> int \<Rightarrow> catalog_work" where
  "new_catalog_work sys p a ob i =
     \<lparr>cw_id = i, cw_system = sys, cw_work = wf_id p, cw_title = wf_title p, cw_author = ca_id a,
      cw_created_at = wf_published_at p, cw_page_count = wf_page_count p, cw_width = wf_width p,
      cw_height = wf_height p, cw_views = wf_views p, cw_bookmarks = wf_bookmarks p,
      cw_likes = wf_likes p, cw_observation = ro_id ob\<rparr>"

text \<open>The time of the observation a work row shows.\<close>

definition work_seen :: "raw_observation list \<Rightarrow> catalog_work \<Rightarrow> instant option" where
  "work_seen obs w = map_option ro_observed_at (row_get ro_id (cw_observation w) obs)"

definition refresh_catalog_work ::
  "raw_observation list \<Rightarrow> work_fixture \<Rightarrow> catalog_author \<Rightarrow> raw_observation \<Rightarrow> catalog_work \<Rightarrow> catalog_work"
  where
  "refresh_catalog_work obs p a ob w =
     (case work_seen obs w of
        None \<Rightarrow> w
      | Some t \<Rightarrow> if t \<le> ro_observed_at ob then work_values p a ob w else w)"

definition project_work ::
  "raw_observation list \<Rightarrow> pystr \<Rightarrow> work_fixture \<Rightarrow> catalog_author \<Rightarrow> raw_observation \<Rightarrow>
     catalog_work list \<Rightarrow> error + catalog_work \<times> catalog_work list" where
  "project_work obs sys p a ob rows =
     (if (case find (\<lambda>w. work_key w = (sys, wf_id p)) rows of
            None \<Rightarrow> False | Some w \<Rightarrow> work_seen obs w = None)
      then Inl ValueError
      else Inr (upsert_by cw_id work_key (sys, wf_id p) (refresh_catalog_work obs p a ob)
        (new_catalog_work sys p a ob) rows))"

definition new_metric_snapshot :: "catalog_work \<Rightarrow> work_fixture \<Rightarrow> raw_observation \<Rightarrow> int \<Rightarrow> metric_snapshot" where
  "new_metric_snapshot w p ob i =
     \<lparr>ms_id = i, ms_work = cw_id w, ms_observation = ro_id ob, ms_observed_at = ro_observed_at ob,
      ms_views = wf_views p, ms_bookmarks = wf_bookmarks p, ms_likes = wf_likes p\<rparr>"

definition project_snapshot ::
  "catalog_work \<Rightarrow> work_fixture \<Rightarrow> raw_observation \<Rightarrow> metric_snapshot list \<Rightarrow>
     error + metric_snapshot \<times> metric_snapshot list" where
  "project_snapshot w p ob rows =
     (let (s, rows') = upsert_by ms_id ms_observation (ro_id ob) id (new_metric_snapshot w p ob) rows
      in if ms_work s \<noteq> cw_id w then Inl ValueError else Inr (s, rows'))"

definition new_catalog_tag :: "pystr \<Rightarrow> tag_fixture \<Rightarrow> int \<Rightarrow> catalog_tag" where
  "new_catalog_tag sys t i =
     \<lparr>cg_id = i, cg_system = sys, cg_name = tf_name t, cg_translation = tf_translation t\<rparr>"

definition refresh_catalog_tag :: "tag_fixture \<Rightarrow> catalog_tag \<Rightarrow> catalog_tag" where
  "refresh_catalog_tag t r =
     (if tf_translation t \<noteq> None then r\<lparr>cg_translation := tf_translation t\<rparr> else r)"

definition project_tag :: "pystr \<Rightarrow> tag_fixture \<Rightarrow> catalog_tag list \<Rightarrow> catalog_tag \<times> catalog_tag list" where
  "project_tag sys t rows =
     upsert_by cg_id tag_key (sys, tf_name t) (refresh_catalog_tag t) (new_catalog_tag sys t) rows"

text \<open>The loop over \<open>enumerate(work_payload.tags)\<close>.\<close>

fun project_tags ::
  "pystr \<Rightarrow> int \<Rightarrow> int \<Rightarrow> tag_fixture list \<Rightarrow> catalog_tag list \<times> work_tag list \<Rightarrow>
     catalog_tag list \<times> work_tag list" where
  "project_tags sys w n [] (tags, links) = (tags, links)"
| "project_tags sys w n (t # ts) (tags, links) =
     (let (r, tags') = project_tag sys t tags
      in project_tags sys w (n + 1) ts
           (tags', links @ [\<lparr>wt_work = w, wt_tag = cg_id r, wt_position = n\<rparr>]))"

section \<open>The projection\<close>

text \<open>The newest valid observation of exactly this payload.\<close>

definition observation_of_payload ::
  "ledger_tables \<Rightarrow> pystr \<Rightarrow> entity_type \<Rightarrow> pystr \<Rightarrow> pystr \<Rightarrow> raw_observation \<Rightarrow> bool" where
  "observation_of_payload d sys et sid sha ob \<longleftrightarrow>
     ro_payload_sha ob = sha \<and> ro_validation ob = ObsValid \<and>
     list_ex (\<lambda>r. sr_id r = ro_record ob \<and> source_key r = (sys, et, sid)) (lt_records d)"

definition validated_observation ::
  "ledger_tables \<Rightarrow> pystr \<Rightarrow> entity_type \<Rightarrow> pystr \<Rightarrow> pystr \<Rightarrow> error + raw_observation" where
  "validated_observation d sys et sid sha =
     (let found = filter (observation_of_payload d sys et sid sha) (lt_observations d)
      in if found = [] then Inl ValueError
         else Inr (last (sort_key (\<lambda>ob. (ro_observed_at ob, ro_id ob)) found)))"

datatype sighting =
    SawAuthor author_fixture raw_observation
  | SawWork work_fixture raw_observation

text \<open>What one request reads; the entity types that are not projected read nothing.\<close>

definition read_fixture ::
  "(nat list \<Rightarrow> pystr) \<Rightarrow> (pystr \<Rightarrow> error + json) \<Rightarrow> (json \<Rightarrow> error + author_fixture) \<Rightarrow>
     (json \<Rightarrow> error + work_fixture) \<Rightarrow> ledger_tables \<Rightarrow> pystr \<Rightarrow>
     (acquisition_request \<Rightarrow> error + raw_response) \<Rightarrow> acquisition_request \<Rightarrow> error + sighting option" where
  "read_fixture sha_bytes loads read_author read_work d sys fetch q =
     (if ar_entity q \<noteq> EtWork \<and> ar_entity q \<noteq> EtAuthor then Inr None
      else bindr (fetch q) (\<lambda>r.
        bindr (validated_observation d sys (ar_entity q) (ar_source q) (sha_bytes (rr_body r))) (\<lambda>ob.
        bindr (json_value loads r) (\<lambda>v.
          if type_of_json v \<noteq> TObject then Inl ValueError
          else if ar_entity q = EtAuthor
          then bindr (read_author v) (\<lambda>a.
            if ar_source q \<noteq> af_id a then Inl ValueError else Inr (Some (SawAuthor a ob)))
          else bindr (read_work v) (\<lambda>p.
            if ar_source q \<noteq> wf_id p then Inl ValueError else Inr (Some (SawWork p ob)))))))"

definition link_tags ::
  "pystr \<Rightarrow> catalog_work \<Rightarrow> work_fixture \<Rightarrow> work_catalog \<Rightarrow> work_catalog" where
  "link_tags sys w p c =
     (let (tags, links) = project_tags sys (cw_id w) 0 (wf_tags p)
            (wc_tags c, filter (\<lambda>t. wt_work t \<noteq> cw_id w) (wc_work_tags c))
      in c\<lparr>wc_tags := tags, wc_work_tags := links\<rparr>)"

fun project_sighting ::
  "raw_observation list \<Rightarrow> pystr \<Rightarrow> sighting \<Rightarrow> work_catalog \<Rightarrow> error + work_catalog" where
  "project_sighting obs sys (SawAuthor a ob) c =
     Inr (c\<lparr>wc_authors := snd (project_author sys a ob (wc_authors c))\<rparr>)"
| "project_sighting obs sys (SawWork p ob) c =
     (let (a, authors) = project_author sys (wf_author p) ob (wc_authors c)
      in bindr (project_work obs sys p a ob (wc_works c)) (\<lambda>(w, works).
         bindr (project_snapshot w p ob (wc_snapshots c)) (\<lambda>(s, snapshots).
           Inr (link_tags sys w p
             (c\<lparr>wc_authors := authors, wc_works := works, wc_snapshots := snapshots\<rparr>)))))"

fun project_requests ::
  "(acquisition_request \<Rightarrow> error + sighting option) \<Rightarrow> raw_observation list \<Rightarrow> pystr \<Rightarrow>
     acquisition_request list \<Rightarrow> sighting list \<times> work_catalog \<Rightarrow> error + sighting list \<times> work_catalog"
  where
  "project_requests read obs sys [] (ss, c) = Inr (ss, c)"
| "project_requests read obs sys (q # qs) (ss, c) =
     bindr (read q) (\<lambda>s. case s of
         None \<Rightarrow> project_requests read obs sys qs (ss, c)
       | Some s \<Rightarrow> bindr (project_sighting obs sys s c) (\<lambda>c'.
           project_requests read obs sys qs (ss @ [s], c')))"

fun sighting_works :: "sighting \<Rightarrow> work_fixture list" where
  "sighting_works (SawWork p ob) = [p]"
| "sighting_works (SawAuthor a ob) = []"

fun sighting_author :: "sighting \<Rightarrow> author_fixture" where
  "sighting_author (SawWork p ob) = wf_author p"
| "sighting_author (SawAuthor a ob) = a"

fun sighting_observation :: "sighting \<Rightarrow> raw_observation" where
  "sighting_observation (SawWork p ob) = ob"
| "sighting_observation (SawAuthor a ob) = ob"

record projection_result =
  pj_authors :: nat
  pj_works :: nat
  pj_tags :: nat
  pj_work_tags :: nat
  pj_snapshots :: nat

definition projection_counts :: "sighting list \<Rightarrow> projection_result" where
  "projection_counts ss =
     (let works = concat (map sighting_works ss); tags = concat (map wf_tags works)
      in \<lparr>pj_authors = card (set (map (af_id \<circ> sighting_author) ss)),
          pj_works = card (set (map wf_id works)), pj_tags = card (set (map tf_name tags)),
          pj_work_tags = length tags, pj_snapshots = length works\<rparr>)"

definition project_fixture_catalog ::
  "(nat list \<Rightarrow> pystr) \<Rightarrow> (pystr \<Rightarrow> error + json) \<Rightarrow> (json \<Rightarrow> error + author_fixture) \<Rightarrow>
     (json \<Rightarrow> error + work_fixture) \<Rightarrow> ledger_tables \<Rightarrow> pystr \<Rightarrow>
     (acquisition_request \<Rightarrow> error + raw_response) \<Rightarrow> acquisition_request list \<Rightarrow> work_catalog \<Rightarrow>
     error + projection_result \<times> work_catalog" where
  "project_fixture_catalog sha_bytes loads read_author read_work d sys fetch requests c =
     bindr (project_requests (read_fixture sha_bytes loads read_author read_work d sys fetch)
         (lt_observations d) sys requests ([], c))
       (\<lambda>(ss, c'). Inr (projection_counts ss, c'))"

section \<open>The tables are well formed\<close>

interpretation catalog_authors:
  natural_upsert ca_id author_key "(sys, af_id a)" "refresh_catalog_author a ob" "new_catalog_author sys a ob"
  for sys a ob
  by unfold_locales (simp_all add: refresh_catalog_author_def new_catalog_author_def author_key_def)

interpretation catalog_works:
  natural_upsert cw_id work_key "(sys, wf_id p)" "refresh_catalog_work obs p a ob" "new_catalog_work sys p a ob"
  for sys p obs a ob
  by unfold_locales
    (simp_all add: refresh_catalog_work_def work_values_def new_catalog_work_def work_key_def
      split: option.splits)

interpretation metric_snapshots:
  natural_upsert ms_id ms_observation "ro_id ob" id "new_metric_snapshot w p ob" for ob w p
  by unfold_locales (simp_all add: new_metric_snapshot_def)

interpretation catalog_tags:
  natural_upsert cg_id tag_key "(sys, tf_name t)" "refresh_catalog_tag t" "new_catalog_tag sys t" for sys t
  by unfold_locales (simp_all add: refresh_catalog_tag_def new_catalog_tag_def tag_key_def)

text \<open>The tags of a work become links at the positions from \<open>n\<close> on, one per tag.\<close>

definition links_tag :: "catalog_tag list \<Rightarrow> pystr \<Rightarrow> int \<Rightarrow> work_tag \<Rightarrow> nat \<times> tag_fixture \<Rightarrow> bool" where
  "links_tag tags sys w l nt \<longleftrightarrow>
     wt_work l = w \<and> wt_position l = int (fst nt) \<and>
     (wt_tag l, sys, tf_name (snd nt)) \<in> key_pairs cg_id tag_key tags"

lemma links_tag_mono:
  "key_pairs cg_id tag_key tags \<subseteq> key_pairs cg_id tag_key tags' \<Longrightarrow> links_tag tags sys w l nt \<Longrightarrow>
   links_tag tags' sys w l nt"
  by (auto simp: links_tag_def)

lemma project_tags_links:
  assumes "project_tags sys w (int n) ts (tags, links) = (tags', links')" and "keys_ok cg_id tag_key tags"
  shows "keys_ok cg_id tag_key tags' \<and> key_pairs cg_id tag_key tags \<subseteq> key_pairs cg_id tag_key tags' \<and>
    (\<exists>new. links' = links @ new \<and> list_all2 (links_tag tags' sys w) new (enumerate n ts))"
  using assms
proof (induction ts arbitrary: n tags links)
  case Nil
  then show ?case by simp
next
  case (Cons t ts)
  obtain r tags1 where pt: "project_tag sys t tags = (r, tags1)" by fastforce
  note up = pt [unfolded project_tag_def]
  note row = catalog_tags.upsert_row [OF up Cons.prems(2)]
  define l where "l = \<lparr>wt_work = w, wt_tag = cg_id r, wt_position = int n\<rparr>"
  have "project_tags sys w (int (Suc n)) ts (tags1, links @ [l]) = (tags', links')"
    using Cons.prems(1) by (simp add: pt l_def add.commute)
  from Cons.IH [OF this row(4)] obtain new where
    rest: "keys_ok cg_id tag_key tags'" "key_pairs cg_id tag_key tags1 \<subseteq> key_pairs cg_id tag_key tags'"
      "links' = (links @ [l]) @ new" "list_all2 (links_tag tags' sys w) new (enumerate (Suc n) ts)"
    by blast
  have "(cg_id r, tag_key r) \<in> key_pairs cg_id tag_key tags1"
    using row(2) by (auto simp: key_pairs_def)
  then have "(cg_id r, sys, tf_name t) \<in> key_pairs cg_id tag_key tags'"
    using rest(2) row(1) by auto
  then have "links_tag tags' sys w l (n, t)" by (simp add: links_tag_def l_def)
  with rest row(5) show ?case by (intro conjI exI [of _ "l # new"]) auto
qed

lemma keys_ok_unique:
  "keys_ok pk nk rows \<Longrightarrow> (i, a) \<in> key_pairs pk nk rows \<Longrightarrow> (i, b) \<in> key_pairs pk nk rows \<Longrightarrow> a = b"
  by (auto simp: keys_ok_def key_pairs_def dest: row_key_eq)

lemma links_distinct:
  assumes "list_all2 (links_tag tags sys w) new (enumerate n ts)" and "keys_ok cg_id tag_key tags"
    and "distinct (map tf_name ts)"
  shows "distinct (map (\<lambda>l. (wt_work l, wt_tag l)) new)"
  using assms(1,3)
proof (induction new arbitrary: n ts)
  case Nil
  then show ?case by simp
next
  case (Cons l new)
  then obtain t us where ts: "ts = t # us" by (cases ts) auto
  with Cons.prems have l: "links_tag tags sys w l (n, t)"
    "list_all2 (links_tag tags sys w) new (enumerate (Suc n) us)" "distinct (map tf_name us)" by auto
  have "wt_tag m \<noteq> wt_tag l" if "m \<in> set new" for m
  proof -
    obtain i where i: "i < length new" "m = new ! i" using \<open>m \<in> set new\<close> by (auto simp: in_set_conv_nth)
    define k u where "k = Suc n + i" and "u = us ! i"
    have "u \<in> set us" "links_tag tags sys w m (k, u)"
      using l(2) i by (auto simp: list_all2_conv_all_nth nth_enumerate_eq k_def u_def)
    then have "(wt_tag m, sys, tf_name u) \<in> key_pairs cg_id tag_key tags"
      and "tf_name u \<in> tf_name ` set us" by (auto simp: links_tag_def)
    moreover from this(2) have "tf_name u \<noteq> tf_name t" using Cons.prems(2) by (auto simp: ts)
    moreover have "(wt_tag l, sys, tf_name t) \<in> key_pairs cg_id tag_key tags"
      using l(1) by (simp add: links_tag_def)
    ultimately show ?thesis using keys_ok_unique [OF assms(2)] by fastforce
  qed
  then have "wt_tag l \<notin> wt_tag ` set new" by force
  then show ?case using Cons.IH [OF l(2,3)] by force
qed

text \<open>What reading a request gives.\<close>

definition sighting_ok :: "raw_observation list \<Rightarrow> sighting \<Rightarrow> bool" where
  "sighting_ok obs s \<longleftrightarrow>
     sighting_observation s \<in> set obs \<and> list_all work_fixture_valid (sighting_works s)"

definition reads_valid :: "(json \<Rightarrow> error + work_fixture) \<Rightarrow> bool" where
  "reads_valid read_work \<longleftrightarrow> (\<forall>v p. read_work v = Inr p \<longrightarrow> work_fixture_valid p)"

lemma validated_observation_in:
  assumes "validated_observation d sys et sid sha = Inr ob"
  shows "ob \<in> set (lt_observations d) \<and> observation_of_payload d sys et sid sha ob \<and>
    (\<forall>x \<in> set (lt_observations d). observation_of_payload d sys et sid sha x \<longrightarrow>
      (ro_observed_at x, ro_id x) \<le> (ro_observed_at ob, ro_id ob))"
proof -
  define found where "found = filter (observation_of_payload d sys et sid sha) (lt_observations d)"
  define key where "key = (\<lambda>ob :: raw_observation. (ro_observed_at ob, ro_id ob))"
  have ne: "found \<noteq> []" and ob: "ob = last (sort_key key found)"
    using assms by (auto simp: validated_observation_def Let_def found_def key_def split: if_splits)
  then have ne': "sort_key key found \<noteq> []" by (metis set_empty set_sort)
  then have "ob \<in> set found" using last_in_set [of "sort_key key found"] ob by simp
  moreover have "key x \<le> key ob" if "x \<in> set found" for x
  proof -
    obtain i where i: "i < length (sort_key key found)" "x = sort_key key found ! i"
      using \<open>x \<in> set found\<close> by (metis in_set_conv_nth set_sort)
    have "sorted (map key (sort_key key found))" by simp
    then have "map key (sort_key key found) ! i \<le> map key (sort_key key found) ! (length found - 1)"
      using i by (intro sorted_nth_mono) auto
    then show ?thesis using i ne' ne by (simp add: ob last_conv_nth)
  qed
  ultimately show ?thesis by (auto simp: found_def key_def)
qed

lemma read_fixture_ok:
  assumes "read_fixture sha_bytes loads read_author read_work d sys fetch q = Inr (Some s)"
    and "reads_valid read_work"
  shows "sighting_ok (lt_observations d) s"
  using assms
  by (auto simp: read_fixture_def bindr_Inr sighting_ok_def reads_valid_def
      dest!: validated_observation_in split: if_splits)

text \<open>One sighting keeps the tables well formed.\<close>

lemma project_author_ok:
  assumes u: "project_author sys a ob rows = (x, rows')" and ok: "keys_ok ca_id author_key rows"
    and obs: "\<forall>r \<in> set rows. ca_observation r \<in> I" and ob: "ro_id ob \<in> I"
  shows "keys_ok ca_id author_key rows' \<and> (\<forall>r \<in> set rows'. ca_observation r \<in> I) \<and>
    ca_id ` set rows \<subseteq> ca_id ` set rows' \<and> ca_id x \<in> ca_id ` set rows'"
proof -
  note up = u [unfolded project_author_def]
  have "\<forall>r \<in> set rows'. ca_observation r \<in> I"
    using obs ob
    by (intro catalog_authors.upsert_all [OF up ok])
      (simp_all add: new_catalog_author_def refresh_catalog_author_def)
  then show ?thesis
    using catalog_authors.upsert_row(4) [OF up ok] catalog_authors.upsert_keeps_ids [OF up ok] by blast
qed

definition work_links_ok :: "int set \<Rightarrow> int set \<Rightarrow> catalog_work \<Rightarrow> bool" where
  "work_links_ok I A w \<longleftrightarrow> cw_observation w \<in> I \<and> cw_author w \<in> A \<and> work_row_ok w"

lemma project_work_ok:
  assumes u: "project_work obs sys p a ob rows = Inr (x, rows')" and ok: "keys_ok cw_id work_key rows"
    and rows: "\<forall>w \<in> set rows. work_links_ok I A w" and ob: "ro_id ob \<in> I" and a: "ca_id a \<in> A"
    and p: "work_fixture_valid p"
  shows "keys_ok cw_id work_key rows' \<and> (\<forall>w \<in> set rows'. work_links_ok I A w) \<and>
    cw_id ` set rows \<subseteq> cw_id ` set rows' \<and> cw_id x \<in> cw_id ` set rows' \<and> work_key x = (sys, wf_id p) \<and>
    x \<in> set rows'"
proof -
  have up: "upsert_by cw_id work_key (sys, wf_id p) (refresh_catalog_work obs p a ob)
      (new_catalog_work sys p a ob) rows = (x, rows')"
    using u by (auto simp: project_work_def split: if_splits)
  have new: "work_links_ok I A (new_catalog_work sys p a ob i)" for i
    using ob a p by (simp add: work_links_ok_def new_catalog_work_def work_row_ok_def work_fixture_valid_def)
  have "work_links_ok I A (refresh_catalog_work obs p a ob r)" if "work_links_ok I A r" for r
    using ob a p that
    by (auto simp: work_links_ok_def refresh_catalog_work_def work_values_def work_row_ok_def
        work_fixture_valid_def split: option.splits)
  with rows new have "\<forall>w \<in> set rows'. work_links_ok I A w"
    by (intro catalog_works.upsert_all [OF up ok]) auto
  then show ?thesis
    using catalog_works.upsert_row(1,2,4) [OF up ok] catalog_works.upsert_keeps_ids [OF up ok] by blast
qed

lemma project_snapshot_ok:
  assumes u: "project_snapshot w p ob rows = Inr (x, rows')" and ok: "keys_ok ms_id ms_observation rows"
    and rows: "\<forall>s \<in> set rows. ms_observation s \<in> I \<and> ms_work s \<in> W \<and> snapshot_ok s"
    and ob: "ro_id ob \<in> I" and w: "cw_id w \<in> W" and p: "work_fixture_valid p"
  shows "keys_ok ms_id ms_observation rows' \<and>
    (\<forall>s \<in> set rows'. ms_observation s \<in> I \<and> ms_work s \<in> W \<and> snapshot_ok s)"
proof -
  have up: "upsert_by ms_id ms_observation (ro_id ob) id (new_metric_snapshot w p ob) rows = (x, rows')"
    using u by (auto simp: project_snapshot_def Let_def split: if_splits prod.splits)
  have "\<forall>s \<in> set rows'. ms_observation s \<in> I \<and> ms_work s \<in> W \<and> snapshot_ok s"
    using rows ob w p
    by (intro metric_snapshots.upsert_all [OF up ok])
      (simp_all add: new_metric_snapshot_def snapshot_ok_def work_fixture_valid_def)
  then show ?thesis using metric_snapshots.upsert_row(4) [OF up ok] by blast
qed

lemma project_tags_ok:
  assumes "project_tags sys w 0 ts (tags, links) = (tags', links')" and ok: "keys_ok cg_id tag_key tags"
    and ts: "distinct (map tf_name ts)" and others: "\<forall>l \<in> set links. wt_work l \<noteq> w"
    and links: "distinct (map (\<lambda>l. (wt_work l, wt_tag l)) links)"
    and old: "\<forall>l \<in> set links. wt_work l \<in> W \<and> wt_tag l \<in> cg_id ` set tags \<and> 0 \<le> wt_position l"
    and w: "w \<in> W"
  shows "keys_ok cg_id tag_key tags' \<and> distinct (map (\<lambda>l. (wt_work l, wt_tag l)) links') \<and>
    (\<forall>l \<in> set links'. wt_work l \<in> W \<and> wt_tag l \<in> cg_id ` set tags' \<and> 0 \<le> wt_position l)"
proof -
  obtain new where tags': "keys_ok cg_id tag_key tags'"
      "key_pairs cg_id tag_key tags \<subseteq> key_pairs cg_id tag_key tags'"
    and links': "links' = links @ new" and new: "list_all2 (links_tag tags' sys w) new (enumerate 0 ts)"
    using project_tags_links [of sys w 0 ts tags links tags' links'] assms(1,2) by auto
  have each: "wt_work l = w \<and> wt_tag l \<in> cg_id ` set tags' \<and> 0 \<le> wt_position l" if "l \<in> set new" for l
    using new that by (force simp: list_all2_conv_all_nth in_set_conv_nth links_tag_def key_pairs_def)
  have "distinct (map (\<lambda>l. (wt_work l, wt_tag l)) new)" using new tags'(1) ts by (rule links_distinct)
  then have "distinct (map (\<lambda>l. (wt_work l, wt_tag l)) links')"
    using links others each by (force simp: links')
  moreover have "cg_id ` set tags \<subseteq> cg_id ` set tags'"
    using image_mono [OF tags'(2), of fst] by (simp add: key_pairs_def image_image)
  ultimately show ?thesis using tags'(1) old each w by (fastforce simp: links')
qed

lemma catalog_ok_works:
  "catalog_ok obs c \<longleftrightarrow>
     keys_ok ca_id author_key (wc_authors c) \<and> keys_ok cw_id work_key (wc_works c) \<and>
     keys_ok cg_id tag_key (wc_tags c) \<and> keys_ok ms_id ms_observation (wc_snapshots c) \<and>
     distinct (map (\<lambda>t. (wt_work t, wt_tag t)) (wc_work_tags c)) \<and>
     (\<forall>a \<in> set (wc_authors c). ca_observation a \<in> ro_id ` set obs) \<and>
     (\<forall>w \<in> set (wc_works c). work_links_ok (ro_id ` set obs) (ca_id ` set (wc_authors c)) w) \<and>
     (\<forall>s \<in> set (wc_snapshots c). ms_observation s \<in> ro_id ` set obs \<and>
        ms_work s \<in> cw_id ` set (wc_works c) \<and> snapshot_ok s) \<and>
     (\<forall>t \<in> set (wc_work_tags c). wt_work t \<in> cw_id ` set (wc_works c) \<and>
        wt_tag t \<in> cg_id ` set (wc_tags c) \<and> 0 \<le> wt_position t)"
  by (simp add: catalog_ok_def work_links_ok_def)

text \<open>The parts of a projected work.\<close>

lemma project_work_parts:
  assumes "project_sighting obs sys (SawWork p ob) c = Inr c'"
  obtains a authors w works s snaps tags links where
    "project_author sys (wf_author p) ob (wc_authors c) = (a, authors)"
    and "project_work obs sys p a ob (wc_works c) = Inr (w, works)"
    and "project_snapshot w p ob (wc_snapshots c) = Inr (s, snaps)"
    and "project_tags sys (cw_id w) 0 (wf_tags p)
      (wc_tags c, filter (\<lambda>t. wt_work t \<noteq> cw_id w) (wc_work_tags c)) = (tags, links)"
    and "c' = \<lparr>wc_authors = authors, wc_works = works, wc_tags = tags, wc_snapshots = snaps,
      wc_work_tags = links\<rparr>"
proof -
  obtain a authors where a: "project_author sys (wf_author p) ob (wc_authors c) = (a, authors)" by fastforce
  obtain w works where w: "project_work obs sys p a ob (wc_works c) = Inr (w, works)"
    using assms by (auto simp: a bindr_Inr)
  obtain s snaps where s: "project_snapshot w p ob (wc_snapshots c) = Inr (s, snaps)"
    using assms by (auto simp: a w bindr_Inr)
  obtain tags links where l: "project_tags sys (cw_id w) 0 (wf_tags p)
      (wc_tags c, filter (\<lambda>t. wt_work t \<noteq> cw_id w) (wc_work_tags c)) = (tags, links)" by fastforce
  have "c' = \<lparr>wc_authors = authors, wc_works = works, wc_tags = tags, wc_snapshots = snaps,
      wc_work_tags = links\<rparr>"
  proof -
    have "c' = c\<lparr>wc_authors := authors, wc_works := works, wc_snapshots := snaps, wc_tags := tags,
        wc_work_tags := links\<rparr>"
      using assms by (simp add: a w s l link_tags_def)
    then show ?thesis by (cases c) simp
  qed
  with a w s l show thesis by (rule that)
qed

lemma project_sighting_ok:
  assumes ok: "catalog_ok obs c" and s: "sighting_ok obs s" and run: "project_sighting obs sys s c = Inr c'"
  shows "catalog_ok obs c'"
proof (cases s)
  case (SawAuthor a ob)
  obtain x rows where u: "project_author sys a ob (wc_authors c) = (x, rows)" by fastforce
  have "keys_ok ca_id author_key rows \<and> (\<forall>r \<in> set rows. ca_observation r \<in> ro_id ` set obs) \<and>
      ca_id ` set (wc_authors c) \<subseteq> ca_id ` set rows \<and> ca_id x \<in> ca_id ` set rows"
    using ok s by (intro project_author_ok [OF u]) (auto simp: catalog_ok_def sighting_ok_def SawAuthor)
  moreover have "c' = c\<lparr>wc_authors := rows\<rparr>" using run by (simp add: SawAuthor u)
  ultimately show ?thesis using ok by (auto simp: catalog_ok_def subset_iff)
next
  case (SawWork p ob)
  have p: "work_fixture_valid p" "ro_id ob \<in> ro_id ` set obs" "distinct (map tf_name (wf_tags p))"
    using s by (auto simp: SawWork sighting_ok_def work_fixture_valid_def)
  obtain a authors w works x snaps tags links where
      a: "project_author sys (wf_author p) ob (wc_authors c) = (a, authors)"
    and w: "project_work obs sys p a ob (wc_works c) = Inr (w, works)"
    and x: "project_snapshot w p ob (wc_snapshots c) = Inr (x, snaps)"
    and l: "project_tags sys (cw_id w) 0 (wf_tags p)
      (wc_tags c, filter (\<lambda>t. wt_work t \<noteq> cw_id w) (wc_work_tags c)) = (tags, links)"
    and c': "c' = \<lparr>wc_authors = authors, wc_works = works, wc_tags = tags, wc_snapshots = snaps,
      wc_work_tags = links\<rparr>"
    using run [unfolded SawWork] by (rule project_work_parts)
  note ok = ok [unfolded catalog_ok_works]
  have A: "keys_ok ca_id author_key authors \<and> (\<forall>r \<in> set authors. ca_observation r \<in> ro_id ` set obs) \<and>
      ca_id ` set (wc_authors c) \<subseteq> ca_id ` set authors \<and> ca_id a \<in> ca_id ` set authors"
    using ok p(2) by (intro project_author_ok [OF a]) auto
  have "\<forall>w \<in> set (wc_works c). work_links_ok (ro_id ` set obs) (ca_id ` set authors) w"
    using ok A by (auto simp: work_links_ok_def subset_iff)
  then have W: "keys_ok cw_id work_key works \<and>
      (\<forall>w \<in> set works. work_links_ok (ro_id ` set obs) (ca_id ` set authors) w) \<and>
      cw_id ` set (wc_works c) \<subseteq> cw_id ` set works \<and> cw_id w \<in> cw_id ` set works \<and>
      work_key w = (sys, wf_id p) \<and> w \<in> set works"
    using ok A p by (intro project_work_ok [OF w]) auto
  have "\<forall>s \<in> set (wc_snapshots c). ms_observation s \<in> ro_id ` set obs \<and>
      ms_work s \<in> cw_id ` set works \<and> snapshot_ok s"
    using ok W by (auto simp: subset_iff)
  then have S: "keys_ok ms_id ms_observation snaps \<and> (\<forall>s \<in> set snaps. ms_observation s \<in> ro_id ` set obs \<and>
      ms_work s \<in> cw_id ` set works \<and> snapshot_ok s)"
    using ok W p by (intro project_snapshot_ok [OF x]) auto
  have T: "keys_ok cg_id tag_key tags \<and> distinct (map (\<lambda>l. (wt_work l, wt_tag l)) links) \<and>
      (\<forall>l \<in> set links. wt_work l \<in> cw_id ` set works \<and> wt_tag l \<in> cg_id ` set tags \<and> 0 \<le> wt_position l)"
    using ok W p by (intro project_tags_ok [OF l]) (auto simp: subset_iff distinct_map_filter)
  show ?thesis using A W S T by (simp add: catalog_ok_works c')
qed

lemma read_requests_ok:
  assumes "reads_valid read_work" and "catalog_ok (lt_observations d) c"
    and "project_requests (read_fixture sha_bytes loads read_author read_work d sys fetch)
      (lt_observations d) sys qs (ss, c) = Inr (ss', c')"
  shows "catalog_ok (lt_observations d) c'"
  using assms(2,3)
proof (induction qs arbitrary: ss c)
  case Nil
  then show ?case by simp
next
  case (Cons q qs)
  obtain r where r: "read_fixture sha_bytes loads read_author read_work d sys fetch q = Inr r"
    using Cons.prems(2) by (auto simp: bindr_Inr)
  show ?case
  proof (cases r)
    case None
    with Cons r show ?thesis by simp
  next
    case (Some s)
    obtain c1 where c1: "project_sighting (lt_observations d) sys s c = Inr c1"
      and rest: "project_requests (read_fixture sha_bytes loads read_author read_work d sys fetch)
        (lt_observations d) sys qs (ss @ [s], c1) = Inr (ss', c')"
      using Cons.prems(2) r Some by (auto simp: bindr_Inr)
    have "sighting_ok (lt_observations d) s" using r Some assms(1) read_fixture_ok by auto
    then have "catalog_ok (lt_observations d) c1" using project_sighting_ok [OF Cons.prems(1) _ c1] by simp
    then show ?thesis using rest by (rule Cons.IH)
  qed
qed

section \<open>The catalog shows what was read\<close>

text \<open>
  The specification: the history of all sightings, each with its source system.  An author row shows
  the newest sighting of the author, a work row the newest sighting of the work; there is one snapshot
  per observation; the tags of a work are those of its last sighting.
\<close>

type_synonym seen_author = "pystr \<times> author_fixture \<times> raw_observation"
type_synonym seen_work = "pystr \<times> work_fixture \<times> raw_observation"

definition seen_at :: "pystr \<times> 'a \<times> raw_observation \<Rightarrow> instant" where
  "seen_at s = ro_observed_at (snd (snd s))"

definition seen_author_key :: "seen_author \<Rightarrow> pystr \<times> pystr" where
  "seen_author_key s = (fst s, af_id (fst (snd s)))"

definition seen_work_key :: "seen_work \<Rightarrow> pystr \<times> pystr" where
  "seen_work_key s = (fst s, wf_id (fst (snd s)))"

fun works_in :: "pystr \<times> sighting \<Rightarrow> seen_work list" where
  "works_in (sys, SawWork p ob) = [(sys, p, ob)]"
| "works_in (sys, SawAuthor a ob) = []"

definition author_in :: "pystr \<times> sighting \<Rightarrow> seen_author" where
  "author_in s = (fst s, sighting_author (snd s), sighting_observation (snd s))"

definition seen_authors :: "(pystr \<times> sighting) list \<Rightarrow> seen_author list" where
  "seen_authors h = map author_in h"

definition seen_works :: "(pystr \<times> sighting) list \<Rightarrow> seen_work list" where
  "seen_works h = concat (map works_in h)"

definition author_shows :: "catalog_author \<Rightarrow> seen_author \<Rightarrow> bool" where
  "author_shows r s \<longleftrightarrow>
     author_key r = seen_author_key s \<and> ca_name r = af_name (fst (snd s)) \<and>
     ca_observation r = ro_id (snd (snd s)) \<and> ca_last_seen r = seen_at s"

definition work_shows :: "catalog_author list \<Rightarrow> catalog_work \<Rightarrow> seen_work \<Rightarrow> bool" where
  "work_shows authors r s \<longleftrightarrow>
     (let p = fst (snd s)
      in work_key r = seen_work_key s \<and> cw_title r = wf_title p \<and>
         (cw_author r, fst s, af_id (wf_author p)) \<in> key_pairs ca_id author_key authors \<and>
         cw_created_at r = wf_published_at p \<and> cw_page_count r = wf_page_count p \<and>
         cw_width r = wf_width p \<and> cw_height r = wf_height p \<and> cw_views r = wf_views p \<and>
         cw_bookmarks r = wf_bookmarks p \<and> cw_likes r = wf_likes p \<and>
         cw_observation r = ro_id (snd (snd s)))"

definition snapshot_shows :: "catalog_work list \<Rightarrow> metric_snapshot \<Rightarrow> seen_work \<Rightarrow> bool" where
  "snapshot_shows works r s \<longleftrightarrow>
     (let p = fst (snd s)
      in (ms_work r, seen_work_key s) \<in> key_pairs cw_id work_key works \<and>
         ms_observation r = ro_id (snd (snd s)) \<and> ms_observed_at r = seen_at s \<and>
         ms_views r = wf_views p \<and> ms_bookmarks r = wf_bookmarks p \<and> ms_likes r = wf_likes p)"

definition last_seen_work :: "seen_work list \<Rightarrow> pystr \<times> pystr \<Rightarrow> seen_work" where
  "last_seen_work ss k = last (filter (\<lambda>s. seen_work_key s = k) ss)"

definition tags_show :: "work_catalog \<Rightarrow> catalog_work \<Rightarrow> seen_work \<Rightarrow> bool" where
  "tags_show c w s \<longleftrightarrow>
     list_all2 (links_tag (wc_tags c) (fst s) (cw_id w))
       (filter (\<lambda>l. wt_work l = cw_id w) (wc_work_tags c)) (enumerate 0 (wf_tags (fst (snd s))))"

text \<open>A sighting of a work is bound to the ledger's record of that work.\<close>

definition bound_work :: "ledger_tables \<Rightarrow> seen_work \<Rightarrow> bool" where
  "bound_work d s \<longleftrightarrow>
     snd (snd s) \<in> set (lt_observations d) \<and>
     (\<exists>r \<in> set (lt_records d). sr_id r = ro_record (snd (snd s)) \<and>
        source_key r = (fst s, EtWork, wf_id (fst (snd s))))"

definition catalog_represents ::
  "ledger_tables \<Rightarrow> (pystr \<times> sighting) list \<Rightarrow> work_catalog \<Rightarrow> bool" where
  "catalog_represents d h c \<longleftrightarrow>
     catalog_ok (lt_observations d) c \<and> list_all (bound_work d) (seen_works h) \<and>
     author_key ` set (wc_authors c) = seen_author_key ` set (seen_authors h) \<and>
     (\<forall>r \<in> set (wc_authors c). \<exists>s. newest seen_at seen_author_key (seen_authors h) s \<and> author_shows r s) \<and>
     work_key ` set (wc_works c) = seen_work_key ` set (seen_works h) \<and>
     (\<forall>r \<in> set (wc_works c). \<exists>s. newest seen_at seen_work_key (seen_works h) s \<and>
        work_shows (wc_authors c) r s) \<and>
     ms_observation ` set (wc_snapshots c) = (\<lambda>s. ro_id (snd (snd s))) ` set (seen_works h) \<and>
     (\<forall>r \<in> set (wc_snapshots c). \<exists>s \<in> set (seen_works h). snapshot_shows (wc_works c) r s) \<and>
     (\<forall>w \<in> set (wc_works c). tags_show c w (last_seen_work (seen_works h) (work_key w)))"

lemma seen_snoc [simp]:
  "seen_authors (h @ [s]) = seen_authors h @ [author_in s]"
  "seen_works (h @ [s]) = seen_works h @ works_in s"
  by (simp_all add: seen_authors_def seen_works_def)

lemma project_author_shows:
  assumes u: "project_author sys a ob rows = (x, rows')" and ok: "keys_ok ca_id author_key rows"
    and ids: "author_key ` set rows = seen_author_key ` set ss"
    and shown: "\<forall>r \<in> set rows. \<exists>s. newest seen_at seen_author_key ss s \<and> author_shows r s"
  shows "author_key ` set rows' = seen_author_key ` set (ss @ [(sys, a, ob)]) \<and>
    (\<forall>r \<in> set rows'. \<exists>s. newest seen_at seen_author_key (ss @ [(sys, a, ob)]) s \<and> author_shows r s) \<and>
    (ca_id x, sys, af_id a) \<in> key_pairs ca_id author_key rows' \<and>
    key_pairs ca_id author_key rows \<subseteq> key_pairs ca_id author_key rows'"
proof (intro conjI ballI)
  note up = u [unfolded project_author_def]
  show "author_key ` set rows' = seen_author_key ` set (ss @ [(sys, a, ob)])"
    by (rule catalog_authors.upsert_ids [OF up ok _ ids]) (simp add: seen_author_key_def)
  show "(ca_id x, sys, af_id a) \<in> key_pairs ca_id author_key rows'"
    using catalog_authors.upsert_row(1,2) [OF up ok] by (force simp: key_pairs_def)
  show "key_pairs ca_id author_key rows \<subseteq> key_pairs ca_id author_key rows'"
    by (rule catalog_authors.upsert_row(5) [OF up ok])
  show "\<exists>s. newest seen_at seen_author_key (ss @ [(sys, a, ob)]) s \<and> author_shows r s" if "r \<in> set rows'" for r
    using shown that
    by (intro catalog_authors.upsert_shows [where observed = seen_at, OF up ok _ ids])
      (auto simp: author_shows_def new_catalog_author_def refresh_catalog_author_def seen_at_def
        seen_author_key_def author_key_def)
qed

lemma observation_get:
  assumes "distinct (map ro_id obs)" and "ob \<in> set obs"
  shows "row_get ro_id (ro_id ob) obs = Some ob"
  using assms by (rule row_get_unique)

lemma work_shows_seen:
  assumes "work_shows authors r s" and "distinct (map ro_id (lt_observations d))" and "bound_work d s"
  shows "work_seen (lt_observations d) r = Some (seen_at s)"
  using assms observation_get [of "lt_observations d" "snd (snd s)"]
  by (simp add: work_seen_def work_shows_def Let_def bound_work_def seen_at_def)

lemma work_shows_mono:
  "key_pairs ca_id author_key authors \<subseteq> key_pairs ca_id author_key authors' \<Longrightarrow> work_shows authors r s \<Longrightarrow>
   work_shows authors' r s"
  by (auto simp: work_shows_def Let_def)

lemma project_work_shows:
  assumes dist: "distinct (map ro_id (lt_observations d))"
    and ok: "keys_ok cw_id work_key rows" and ids: "work_key ` set rows = seen_work_key ` set ss"
    and shown: "\<forall>r \<in> set rows. \<exists>s. newest seen_at seen_work_key ss s \<and> work_shows authors r s"
    and bound: "list_all (bound_work d) ss"
    and a: "(ca_id a, sys, af_id (wf_author p)) \<in> key_pairs ca_id author_key authors"
  shows "\<exists>x rows'. project_work (lt_observations d) sys p a ob rows = Inr (x, rows') \<and>
    upsert_by cw_id work_key (sys, wf_id p) (refresh_catalog_work (lt_observations d) p a ob)
      (new_catalog_work sys p a ob) rows = (x, rows') \<and>
    work_key ` set rows' = seen_work_key ` set (ss @ [(sys, p, ob)]) \<and>
    (\<forall>r \<in> set rows'. \<exists>s. newest seen_at seen_work_key (ss @ [(sys, p, ob)]) s \<and> work_shows authors r s)"
proof -
  obtain x rows' where up: "upsert_by cw_id work_key (sys, wf_id p)
      (refresh_catalog_work (lt_observations d) p a ob) (new_catalog_work sys p a ob) rows = (x, rows')"
    by fastforce
  have seen: "\<exists>s \<in> set ss. work_shows authors r s \<and> work_seen (lt_observations d) r = Some (seen_at s)"
    if "r \<in> set rows" for r
    using that shown bound work_shows_seen [OF _ dist]
    by (fastforce simp: newest_def list_all_iff)
  have "project_work (lt_observations d) sys p a ob rows = Inr (x, rows')"
    using seen by (fastforce simp: project_work_def up dest: find_SomeD split: option.splits)
  moreover have "work_key ` set rows' = seen_work_key ` set (ss @ [(sys, p, ob)])"
    by (rule catalog_works.upsert_ids [OF up ok _ ids]) (simp add: seen_work_key_def)
  moreover have "\<exists>s. newest seen_at seen_work_key (ss @ [(sys, p, ob)]) s \<and> work_shows authors r s"
    if r: "r \<in> set rows'" for r
  proof -
    define sh where "sh = (\<lambda>r s. work_shows authors r s \<and>
      (s = (sys, p, ob) \<or> work_seen (lt_observations d) r = Some (seen_at s)))"
    have "\<exists>s. newest seen_at seen_work_key (ss @ [(sys, p, ob)]) s \<and> sh r s"
    proof (rule catalog_works.upsert_shows [where observed = seen_at, OF up ok _ ids _ _ _ _ _ r])
      show "seen_work_key (sys, p, ob) = (sys, wf_id p)" by (simp add: seen_work_key_def)
      show "\<exists>m. newest seen_at seen_work_key ss m \<and> sh r m" if r': "r \<in> set rows" for r
      proof -
        obtain m where m: "newest seen_at seen_work_key ss m" "work_shows authors r m"
          using shown r' by blast
        then have "bound_work d m" using bound by (simp add: newest_def list_all_iff)
        then show ?thesis
          using m work_shows_seen [OF m(2) dist] by (intro exI [of _ m]) (simp add: sh_def)
      qed
      show "work_key r = seen_work_key m" if "sh r m" for r m
        using that by (simp add: sh_def work_shows_def Let_def)
      show "sh (new_catalog_work sys p a ob i) (sys, p, ob)" for i
        using a by (simp add: sh_def work_shows_def new_catalog_work_def work_key_def seen_work_key_def)
      show "sh (refresh_catalog_work (lt_observations d) p a ob r) (sys, p, ob)"
        if "sh r m" "work_key r = (sys, wf_id p)" "seen_at m \<le> seen_at (sys, p, ob)" for r m
        using that a
        by (auto simp: sh_def refresh_catalog_work_def work_shows_def work_values_def work_key_def
            seen_work_key_def seen_at_def Let_def split: option.splits)
      show "sh (refresh_catalog_work (lt_observations d) p a ob r) m"
        if "sh r m" "work_key r = (sys, wf_id p)" "seen_at (sys, p, ob) < seen_at m" for r m
        using that by (auto simp: sh_def refresh_catalog_work_def seen_at_def)
    qed
    then show ?thesis by (auto simp: sh_def)
  qed
  ultimately show ?thesis using up by blast
qed

lemma bound_work_unique:
  assumes "ledger_tables_ok d" and "bound_work d s" and "bound_work d s'"
    and "ro_id (snd (snd s)) = ro_id (snd (snd s'))"
  shows "seen_work_key s = seen_work_key s'"
proof -
  have "snd (snd s) = snd (snd s')"
    using assms by (intro row_key_eq [of ro_id "lt_observations d"])
      (auto simp: ledger_tables_ok_def keys_ok_def bound_work_def)
  moreover obtain r r' where "r \<in> set (lt_records d)" "sr_id r = ro_record (snd (snd s))"
      "source_key r = (fst s, EtWork, wf_id (fst (snd s)))"
      "r' \<in> set (lt_records d)" "sr_id r' = ro_record (snd (snd s'))"
      "source_key r' = (fst s', EtWork, wf_id (fst (snd s')))"
    using assms(2,3) by (auto simp: bound_work_def)
  moreover from this have "r = r'"
    using assms(1) calculation(1)
    by (intro row_key_eq [of sr_id "lt_records d"]) (auto simp: ledger_tables_ok_def keys_ok_def)
  ultimately show ?thesis by (simp add: seen_work_key_def)
qed

lemma snapshot_shows_mono:
  "key_pairs cw_id work_key works \<subseteq> key_pairs cw_id work_key works' \<Longrightarrow> snapshot_shows works r s \<Longrightarrow>
   snapshot_shows works' r s"
  by (auto simp: snapshot_shows_def Let_def)

lemma project_snapshot_shows:
  assumes led: "ledger_tables_ok d" and ok: "keys_ok ms_id ms_observation rows"
    and ids: "ms_observation ` set rows = (\<lambda>s. ro_id (snd (snd s))) ` set ss"
    and shown: "\<forall>r \<in> set rows. \<exists>s \<in> set ss. snapshot_shows works r s"
    and bound: "list_all (bound_work d) (ss @ [(sys, p, ob)])"
    and w: "w \<in> set works" "work_key w = (sys, wf_id p)" and wok: "keys_ok cw_id work_key works"
  shows "\<exists>x rows'. project_snapshot w p ob rows = Inr (x, rows') \<and>
    ms_observation ` set rows' = (\<lambda>s. ro_id (snd (snd s))) ` set (ss @ [(sys, p, ob)]) \<and>
    (\<forall>r \<in> set rows'. \<exists>s \<in> set (ss @ [(sys, p, ob)]). snapshot_shows works r s)"
proof -
  obtain x rows' where up: "upsert_by ms_id ms_observation (ro_id ob) id (new_metric_snapshot w p ob) rows
      = (x, rows')" by fastforce
  have x: "(\<exists>s \<in> set (ss @ [(sys, p, ob)]). snapshot_shows works x s) \<and> ms_work x = cw_id w"
  proof (cases rule: metric_snapshots.upsert_cases [OF up ok])
    case 1
    then have "snapshot_shows works x (sys, p, ob)"
      using w by (auto simp: snapshot_shows_def new_metric_snapshot_def seen_at_def key_pairs_def
          seen_work_key_def intro!: image_eqI [of _ _ w])
    then show ?thesis using 1 by (simp add: new_metric_snapshot_def)
  next
    case (2 r)
    then obtain s where s: "s \<in> set ss" "snapshot_shows works r s" using shown by blast
    then have "ro_id (snd (snd s)) = ro_id ob" using 2(2) by (simp add: snapshot_shows_def Let_def)
    then have "seen_work_key s = (sys, wf_id p)"
      using bound_work_unique [OF led, of s "(sys, p, ob)"] bound s(1)
      by (simp add: list_all_iff seen_work_key_def)
    then have "(ms_work r, work_key w) \<in> key_pairs cw_id work_key works"
      using s(2) w(2) by (simp add: snapshot_shows_def Let_def)
    then obtain w' where "w' \<in> set works" "cw_id w' = ms_work r" "work_key w' = work_key w"
      by (auto simp: key_pairs_def)
    then have "w' = w" using w(1) wok row_key_eq [of work_key works w' w] by (simp add: keys_ok_def)
    then show ?thesis using s 2 \<open>cw_id w' = ms_work r\<close> by auto
  qed
  have "project_snapshot w p ob rows = Inr (x, rows')"
    using x by (simp add: project_snapshot_def up)
  moreover have "set rows' = {r \<in> set rows. ms_observation r \<noteq> ro_id ob} \<union> {x}" "ms_observation x = ro_id ob"
    using metric_snapshots.upsert_row(3,1) [OF up ok] by blast+
  moreover have "ms_observation ` set rows' = (\<lambda>s. ro_id (snd (snd s))) ` set (ss @ [(sys, p, ob)])"
    by (rule metric_snapshots.upsert_ids [OF up ok _ ids]) simp
  ultimately show ?thesis using x shown by (intro exI [of _ x] exI [of _ rows']) auto
qed

lemma tags_show_mono:
  assumes "tags_show c w s" and "key_pairs cg_id tag_key (wc_tags c) \<subseteq> key_pairs cg_id tag_key (wc_tags c')"
    and "filter (\<lambda>l. wt_work l = cw_id w) (wc_work_tags c') = filter (\<lambda>l. wt_work l = cw_id w) (wc_work_tags c)"
  shows "tags_show c' w s"
  using assms list_all2_mono [OF _ links_tag_mono [OF assms(2)]] by (auto simp: tags_show_def)

lemma last_seen_snoc:
  "last_seen_work (ss @ [s]) k = (if seen_work_key s = k then s else last_seen_work ss k)"
  by (simp add: last_seen_work_def)

definition bound_sighting :: "ledger_tables \<Rightarrow> pystr \<Rightarrow> sighting \<Rightarrow> bool" where
  "bound_sighting d sys s \<longleftrightarrow>
     sighting_ok (lt_observations d) s \<and> list_all (bound_work d) (works_in (sys, s))"

lemma represents_author:
  assumes rep: "catalog_represents d h c" and s: "bound_sighting d sys (SawAuthor a ob)"
  shows "\<exists>c'. project_sighting (lt_observations d) sys (SawAuthor a ob) c = Inr c' \<and>
    catalog_represents d (h @ [(sys, SawAuthor a ob)]) c'"
proof -
  obtain x rows where u: "project_author sys a ob (wc_authors c) = (x, rows)" by fastforce
  note rep = rep [unfolded catalog_represents_def]
  have ok: "keys_ok ca_id author_key (wc_authors c)" using rep by (simp add: catalog_ok_def)
  have A: "author_key ` set rows = seen_author_key ` set (seen_authors h @ [(sys, a, ob)]) \<and>
    (\<forall>r \<in> set rows. \<exists>s. newest seen_at seen_author_key (seen_authors h @ [(sys, a, ob)]) s \<and> author_shows r s) \<and>
    (ca_id x, sys, af_id a) \<in> key_pairs ca_id author_key rows \<and>
    key_pairs ca_id author_key (wc_authors c) \<subseteq> key_pairs ca_id author_key rows"
    using rep by (intro project_author_shows [OF u ok]; elim conjE)
  define c' where "c' = c\<lparr>wc_authors := rows\<rparr>"
  have run: "project_sighting (lt_observations d) sys (SawAuthor a ob) c = Inr c'" by (simp add: u c'_def)
  have "catalog_ok (lt_observations d) c'"
    using rep s by (intro project_sighting_ok [OF _ _ run]) (simp_all add: bound_sighting_def)
  moreover have "\<forall>r \<in> set (wc_works c). \<exists>s. newest seen_at seen_work_key (seen_works h) s \<and>
      work_shows rows r s"
  proof -
    have "\<forall>r \<in> set (wc_works c). \<exists>s. newest seen_at seen_work_key (seen_works h) s \<and>
        work_shows (wc_authors c) r s" using rep by (elim conjE)
    then show ?thesis by (fast intro: work_shows_mono [OF A [THEN conjunct2, THEN conjunct2, THEN conjunct2]])
  qed
  moreover have "\<forall>w \<in> set (wc_works c). tags_show c' w (last_seen_work (seen_works h) (work_key w))"
    using rep by (auto simp: c'_def intro: tags_show_mono)
  ultimately have "catalog_represents d (h @ [(sys, SawAuthor a ob)]) c'"
    using rep A by (simp add: catalog_represents_def c'_def author_in_def)
  with run show ?thesis by blast
qed

lemma represents_work:
  assumes led: "ledger_tables_ok d" and rep: "catalog_represents d h c"
    and s: "bound_sighting d sys (SawWork p ob)"
  shows "\<exists>c'. project_sighting (lt_observations d) sys (SawWork p ob) c = Inr c' \<and>
    catalog_represents d (h @ [(sys, SawWork p ob)]) c'"
proof -
  let ?ss = "seen_works h @ [(sys, p, ob)]"
  note rep = rep [unfolded catalog_represents_def]
  note ok = conjunct1 [OF rep, unfolded catalog_ok_works]
  obtain a authors where a: "project_author sys (wf_author p) ob (wc_authors c) = (a, authors)" by fastforce
  have A: "author_key ` set authors = seen_author_key ` set (seen_authors h @ [(sys, wf_author p, ob)]) \<and>
    (\<forall>r \<in> set authors. \<exists>s. newest seen_at seen_author_key (seen_authors h @ [(sys, wf_author p, ob)]) s \<and>
      author_shows r s) \<and>
    (ca_id a, sys, af_id (wf_author p)) \<in> key_pairs ca_id author_key authors \<and>
    key_pairs ca_id author_key (wc_authors c) \<subseteq> key_pairs ca_id author_key authors"
    using rep ok by (intro project_author_shows [OF a]; elim conjE)
  have shown: "\<forall>r \<in> set (wc_works c). \<exists>s. newest seen_at seen_work_key (seen_works h) s \<and>
      work_shows (wc_authors c) r s" using rep by (elim conjE)
  have shown': "\<forall>r \<in> set (wc_works c). \<exists>s. newest seen_at seen_work_key (seen_works h) s \<and> work_shows authors r s"
  proof
    fix r assume "r \<in> set (wc_works c)"
    then show "\<exists>s. newest seen_at seen_work_key (seen_works h) s \<and> work_shows authors r s"
      using shown by (fast intro: work_shows_mono [OF A [THEN conjunct2, THEN conjunct2, THEN conjunct2]])
  qed
  have ro_keys: "distinct (map ro_id (lt_observations d))"
    using led by (simp add: ledger_tables_ok_def keys_ok_def)
  have kok: "keys_ok cw_id work_key (wc_works c)" using ok by (elim conjE)
  have ids: "work_key ` set (wc_works c) = seen_work_key ` set (seen_works h)"
    using rep by (elim conjE)
  have bound_h: "list_all (bound_work d) (seen_works h)" using rep by (elim conjE)
  obtain w works where
      w: "project_work (lt_observations d) sys p a ob (wc_works c) = Inr (w, works)"
    and up: "upsert_by cw_id work_key (sys, wf_id p) (refresh_catalog_work (lt_observations d) p a ob)
      (new_catalog_work sys p a ob) (wc_works c) = (w, works)"
    and W: "work_key ` set works = seen_work_key ` set ?ss"
      "\<forall>r \<in> set works. \<exists>s. newest seen_at seen_work_key ?ss s \<and> work_shows authors r s"
    using project_work_shows [OF ro_keys kok ids shown' bound_h A [THEN conjunct2, THEN conjunct2, THEN conjunct1]]
    by blast
  note row = catalog_works.upsert_row [OF up kok]
  have bound: "list_all (bound_work d) ?ss" using bound_h s by (simp add: bound_sighting_def)
  have "\<forall>r \<in> set (wc_snapshots c). \<exists>s \<in> set (seen_works h). snapshot_shows (wc_works c) r s"
    using rep by (elim conjE)
  then have snaps_h: "\<forall>r \<in> set (wc_snapshots c). \<exists>s \<in> set (seen_works h). snapshot_shows works r s"
    by (fast intro: snapshot_shows_mono [OF row(5)])
  have skeys: "keys_ok ms_id ms_observation (wc_snapshots c)" using ok by (elim conjE)
  have sids: "ms_observation ` set (wc_snapshots c) = (\<lambda>s. ro_id (snd (snd s))) ` set (seen_works h)"
    using rep by (elim conjE)
  obtain x snaps where x: "project_snapshot w p ob (wc_snapshots c) = Inr (x, snaps)"
    and S: "ms_observation ` set snaps = (\<lambda>s. ro_id (snd (snd s))) ` set ?ss"
      "\<forall>r \<in> set snaps. \<exists>s \<in> set ?ss. snapshot_shows works r s"
    using project_snapshot_shows [OF led skeys sids snaps_h bound row(2,1,4)] by blast
  obtain tags links where l: "project_tags sys (cw_id w) 0 (wf_tags p)
      (wc_tags c, filter (\<lambda>t. wt_work t \<noteq> cw_id w) (wc_work_tags c)) = (tags, links)" by fastforce
  define c' where "c' = c\<lparr>wc_authors := authors, wc_works := works, wc_snapshots := snaps,
    wc_tags := tags, wc_work_tags := links\<rparr>"
  have run: "project_sighting (lt_observations d) sys (SawWork p ob) c = Inr c'"
    by (simp add: a w x l link_tags_def c'_def)
  have "catalog_ok (lt_observations d) c'"
    using rep s by (intro project_sighting_ok [OF _ _ run]) (simp_all add: bound_sighting_def)
  moreover have tag_keys: "keys_ok cg_id tag_key (wc_tags c)" using ok by (elim conjE)
  have tags_h: "\<forall>w \<in> set (wc_works c). tags_show c w (last_seen_work (seen_works h) (work_key w))"
    using rep by (elim conjE)
  have "\<forall>r \<in> set works. tags_show c' r (last_seen_work ?ss (work_key r))"
  proof
    fix r assume r: "r \<in> set works"
    obtain new where T: "key_pairs cg_id tag_key (wc_tags c) \<subseteq> key_pairs cg_id tag_key tags"
        "links = filter (\<lambda>t. wt_work t \<noteq> cw_id w) (wc_work_tags c) @ new"
        "list_all2 (links_tag tags sys (cw_id w)) new (enumerate 0 (wf_tags p))"
      using project_tags_links [of sys "cw_id w" 0 "wf_tags p" "wc_tags c" _ tags links] l tag_keys by auto
    have new: "wt_work t = cw_id w" if "t \<in> set new" for t
      using T(3) that by (auto simp: list_all2_conv_all_nth in_set_conv_nth links_tag_def)
    show "tags_show c' r (last_seen_work ?ss (work_key r))"
    proof (cases "r = w")
      case True
      have "filter (\<lambda>t. wt_work t = cw_id w) links = new"
        using new by (simp add: T(2) filter_empty_conv filter_id_conv)
      with True T(3) row(1) show ?thesis
        by (simp add: tags_show_def c'_def last_seen_snoc seen_work_key_def)
    next
      case False
      then have key: "work_key r \<noteq> work_key w"
        using r row(2,4) row_key_eq [of work_key works r w] by (auto simp: keys_ok_def)
      then have "r \<in> set (wc_works c)" using r row(1,3) by auto
      then have before: "tags_show c r (last_seen_work (seen_works h) (work_key r))" using tags_h by blast
      have "cw_id r \<noteq> cw_id w"
        using False r row(2,4) row_key_eq [of cw_id works r w] by (auto simp: keys_ok_def)
      then have same: "filter (\<lambda>t. wt_work t = cw_id r) links = filter (\<lambda>t. wt_work t = cw_id r) (wc_work_tags c)"
        using new by (auto simp: T(2) filter_empty_conv intro!: filter_cong)
      have "tags_show c' r (last_seen_work (seen_works h) (work_key r))"
        by (rule tags_show_mono [OF before]) (use T(1) same in \<open>simp_all add: c'_def\<close>)
      with key row(1) show ?thesis by (simp add: last_seen_snoc seen_work_key_def)
    qed
  qed
  ultimately have "catalog_represents d (h @ [(sys, SawWork p ob)]) c'"
    using A W S bound by (simp add: catalog_represents_def c'_def author_in_def)
  with run show ?thesis by blast
qed

section \<open>What the projection promises\<close>

fun sightings_read ::
  "(acquisition_request \<Rightarrow> error + sighting option) \<Rightarrow> acquisition_request list \<Rightarrow> error + sighting list"
  where
  "sightings_read read [] = Inr []"
| "sightings_read read (q # qs) =
     bindr (read q) (\<lambda>s. bindr (sightings_read read qs) (\<lambda>ss.
       Inr (case s of None \<Rightarrow> ss | Some s \<Rightarrow> s # ss)))"

lemma read_fixture_bound:
  assumes r: "read_fixture sha_bytes loads read_author read_work d sys fetch q = Inr (Some s)"
    and v: "reads_valid read_work"
  shows "bound_sighting d sys s"
proof -
  have "list_all (bound_work d) (works_in (sys, s))"
  proof (cases s)
    case (SawWork p ob)
    then obtain sha where "validated_observation d sys EtWork (wf_id p) sha = Inr ob"
      using r by (cases "ar_entity q") (auto simp: read_fixture_def bindr_Inr split: if_splits)
    then show ?thesis
      using validated_observation_in [of d sys EtWork "wf_id p" sha ob]
      by (auto simp: SawWork bound_work_def observation_of_payload_def list_ex_iff)
  qed simp
  then show ?thesis using read_fixture_ok [OF r v] by (simp add: bound_sighting_def)
qed

lemma represents_sighting:
  assumes "ledger_tables_ok d" and "catalog_represents d h c" and "bound_sighting d sys s"
  shows "\<exists>c'. project_sighting (lt_observations d) sys s c = Inr c' \<and> catalog_represents d (h @ [(sys, s)]) c'"
  using assms represents_author represents_work by (cases s) blast+

lemma project_requests_represent:
  assumes led: "ledger_tables_ok d" and bound: "\<And>q s. read q = Inr (Some s) \<Longrightarrow> bound_sighting d sys s"
    and rep: "catalog_represents d h c"
  shows "case sightings_read read qs of
      Inl e \<Rightarrow> project_requests read (lt_observations d) sys qs (ss, c) = Inl e
    | Inr new \<Rightarrow> \<exists>c'. project_requests read (lt_observations d) sys qs (ss, c) = Inr (ss @ new, c') \<and>
        catalog_represents d (h @ map (Pair sys) new) c'"
  using rep
proof (induction qs arbitrary: h c ss)
  case Nil
  then show ?case by simp
next
  case (Cons q qs)
  show ?case
  proof (cases "read q")
    case (Inl e)
    then show ?thesis by simp
  next
    case (Inr r)
    show ?thesis
    proof (cases r)
      case None
      with Inr Cons.IH [OF Cons.prems, of ss] show ?thesis by (cases "sightings_read read qs") simp_all
    next
      case (Some s)
      obtain c1 where c1: "project_sighting (lt_observations d) sys s c = Inr c1"
        and rep1: "catalog_represents d (h @ [(sys, s)]) c1"
        using represents_sighting [OF led Cons.prems bound] Inr Some by blast
      show ?thesis
        using Cons.IH [OF rep1, of "ss @ [s]"] Inr Some c1
        by (cases "sightings_read read qs") simp_all
    qed
  qed
qed

text \<open>A ledger with two valid observations of one work, the second one older.\<close>

definition sample_work_fixture :: work_fixture where
  "sample_work_fixture =
     \<lparr>wf_id = lit ''w'', wf_title = lit ''t'', wf_published_at = 0, wf_page_count = 1, wf_width = None,
      wf_height = None, wf_author = \<lparr>af_id = lit ''a'', af_name = lit ''n''\<rparr>,
      wf_tags = [\<lparr>tf_name = lit ''x'', tf_translation = None\<rparr>], wf_views = Some 3, wf_bookmarks = None,
      wf_likes = None\<rparr>"

definition sample_observation :: "int \<Rightarrow> instant \<Rightarrow> raw_observation" where
  "sample_observation i t =
     \<lparr>ro_id = i, ro_record = 1, ro_attempt = 1, ro_observed_at = t, ro_status_code = 200,
      ro_content_type = lit ''application/json'', ro_payload_sha = lit ''s'', ro_bytes = 2,
      ro_fingerprint = lit ''f'', ro_parser_version = None, ro_validation = ObsValid, ro_created_at = t\<rparr>"

definition sample_ledger :: ledger_tables where
  "sample_ledger =
     \<lparr>lt_records = [\<lparr>sr_id = 1, sr_system = lit ''fx'', sr_entity = EtWork, sr_source = lit ''w'',
        sr_availability = Available, sr_first_seen = 0, sr_last_seen = 9\<rparr>],
      lt_runs = [\<lparr>cr_id = 1, cr_type = lit ''r'', cr_provider = lit ''fx'', cr_status = CrawlCompleted,
        cr_started_at = None, cr_finished_at = None, cr_created_at = 0\<rparr>],
      lt_tasks = [\<lparr>ck_id = 1, ck_run = 1, ck_record = 1, ck_type = lit ''t'', ck_key = lit ''k'',
        ck_status = TaskSucceeded, ck_priority = 0, ck_attempts = 1, ck_error = None,
        ck_available_at = 0, ck_updated_at = 0\<rparr>],
      lt_attempts = [\<lparr>at_id = 1, at_task = 1, at_number = 1, at_status = AttemptSucceeded,
        at_http_status = Some 200, at_error = None, at_bytes = None\<rparr>],
      lt_observations = [sample_observation 1 9, sample_observation 2 5],
      lt_schemas = [], lt_quarantine = []\<rparr>"

definition sample_fetch :: "acquisition_request \<Rightarrow> error + raw_response" where
  "sample_fetch q = Inr \<lparr>rr_provider = lit ''fx'', rr_entity = EtWork, rr_source = lit ''w'', rr_status = 200,
     rr_content_type = lit ''application/json'', rr_body = lit ''{}''\<rparr>"

definition empty_work_catalog :: work_catalog where
  "empty_work_catalog = \<lparr>wc_authors = [], wc_works = [], wc_tags = [], wc_snapshots = [], wc_work_tags = []\<rparr>"

lemma represents_nothing: "catalog_represents d [] empty_work_catalog"
  by (simp add: catalog_represents_def catalog_ok_def keys_ok_def seen_authors_def seen_works_def
      empty_work_catalog_def)

lemma sample_ledger_ok: "ledger_tables_ok sample_ledger"
  by (simp add: ledger_tables_ok_def sample_ledger_def keys_ok_def observation_key_def sample_observation_def)

lemma sample_reads_valid: "reads_valid (\<lambda>_. Inr sample_work_fixture)"
  by (simp add: reads_valid_def work_fixture_valid_def sample_work_fixture_def at_least_option_def
      text_len_def author_fixture_valid_def tag_fixture_valid_def lit_def)

lemma sample_read:
  "read_fixture (\<lambda>_. lit ''s'') (\<lambda>_. Inr (JObj [])) (\<lambda>_. Inl ValueError) (\<lambda>_. Inr sample_work_fixture)
     sample_ledger (lit ''fx'') sample_fetch \<lparr>ar_entity = EtWork, ar_source = lit ''w''\<rparr> =
   Inr (Some (SawWork sample_work_fixture (sample_observation 1 9)))"
  by code_simp

text \<open>
  C13: The catalog shows what was read.  Let a catalog represent a history of sightings, in a
  consistent ledger.  A projection run of any requests fails exactly when reading one of them fails,
  with that error, and otherwise succeeds, counts what it read, and leaves a catalog that represents
  the longer history: exactly the authors and works seen, each row with the values of its newest
  sighting, one metric snapshot per observation, and for each work the tags of its last sighting, at
  their positions.
\<close>

theorem projection_shows_what_was_read:
  assumes "ledger_tables_ok d" and "reads_valid read_work" and "catalog_represents d h c"
  shows "case sightings_read (read_fixture sha_bytes loads read_author read_work d sys fetch) qs of
      Inl e \<Rightarrow> project_fixture_catalog sha_bytes loads read_author read_work d sys fetch qs c = Inl e
    | Inr ss \<Rightarrow> \<exists>c'. project_fixture_catalog sha_bytes loads read_author read_work d sys fetch qs c =
          Inr (projection_counts ss, c') \<and> catalog_represents d (h @ map (Pair sys) ss) c'"
proof -
  let ?read = "read_fixture sha_bytes loads read_author read_work d sys fetch"
  have "case sightings_read ?read qs of
      Inl e \<Rightarrow> project_requests ?read (lt_observations d) sys qs ([], c) = Inl e
    | Inr new \<Rightarrow> \<exists>c'. project_requests ?read (lt_observations d) sys qs ([], c) = Inr ([] @ new, c') \<and>
        catalog_represents d (h @ map (Pair sys) new) c'"
    by (rule project_requests_represent [OF assms(1) _ assms(3)], rule read_fixture_bound [OF _ assms(2)])
  then show ?thesis
    by (cases "sightings_read ?read qs") (auto simp: project_fixture_catalog_def)
qed

theorem projection_shows_what_was_read_witness:
  "\<exists>c'. catalog_represents sample_ledger
     [(lit ''fx'', SawWork sample_work_fixture (sample_observation 1 9))] c'"
  using projection_shows_what_was_read [OF sample_ledger_ok sample_reads_valid represents_nothing,
      of "\<lambda>_. lit ''s''" "\<lambda>_. Inr (JObj [])" "\<lambda>_. Inl ValueError" "lit ''fx''" sample_fetch
        "[\<lparr>ar_entity = EtWork, ar_source = lit ''w''\<rparr>]"]
  by (auto simp: sample_read)

text \<open>
  C14: The tables stay well formed.  Whatever is projected into a well-formed catalog, a run that
  succeeds leaves one: unique identities of authors, works and tags, one snapshot per observation,
  one link per work and tag, every foreign key resolved, and every checked column in its range.
\<close>

theorem projection_keeps_tables_well_formed:
  assumes "reads_valid read_work" and "catalog_ok (lt_observations d) c"
    and "project_fixture_catalog sha_bytes loads read_author read_work d sys fetch qs c = Inr (r, c')"
  shows "catalog_ok (lt_observations d) c'"
  using assms(3) read_requests_ok [OF assms(1,2)] by (auto simp: project_fixture_catalog_def bindr_Inr)

lemma sample_projection:
  "project_fixture_catalog (\<lambda>_. lit ''s'') (\<lambda>_. Inr (JObj [])) (\<lambda>_. Inl ValueError)
     (\<lambda>_. Inr sample_work_fixture) sample_ledger (lit ''fx'') sample_fetch
     [\<lparr>ar_entity = EtWork, ar_source = lit ''w''\<rparr>] empty_work_catalog =
   Inr (projection_counts [SawWork sample_work_fixture (sample_observation 1 9)],
     \<lparr>wc_authors = [\<lparr>ca_id = 1, ca_system = lit ''fx'', ca_author = lit ''a'', ca_name = lit ''n'',
        ca_observation = 1, ca_first_seen = 9, ca_last_seen = 9\<rparr>],
      wc_works = [\<lparr>cw_id = 1, cw_system = lit ''fx'', cw_work = lit ''w'', cw_title = lit ''t'',
        cw_author = 1, cw_created_at = 0, cw_page_count = 1, cw_width = None, cw_height = None,
        cw_views = Some 3, cw_bookmarks = None, cw_likes = None, cw_observation = 1\<rparr>],
      wc_tags = [\<lparr>cg_id = 1, cg_system = lit ''fx'', cg_name = lit ''x'', cg_translation = None\<rparr>],
      wc_snapshots = [\<lparr>ms_id = 1, ms_work = 1, ms_observation = 1, ms_observed_at = 9,
        ms_views = Some 3, ms_bookmarks = None, ms_likes = None\<rparr>],
      wc_work_tags = [\<lparr>wt_work = 1, wt_tag = 1, wt_position = 0\<rparr>]\<rparr>)"
  by code_simp

theorem projection_keeps_tables_well_formed_witness:
  "\<exists>c'. catalog_ok (lt_observations sample_ledger) c' \<and> wc_works c' \<noteq> []"
  using projection_keeps_tables_well_formed [OF sample_reads_valid _ sample_projection]
    represents_nothing [of sample_ledger]
  by (force simp: catalog_represents_def)

text \<open>
  The link table is not guarded by time as the rows are: an observation that is older than the one a
  work row shows leaves the row alone and still replaces the tags of the work.
\<close>

lemma older_sighting_replaces_tags:
  assumes "project_work obs sys p a ob (wc_works c) = Inr (w, works)"
    and "project_author sys (wf_author p) ob (wc_authors c) = (a, authors)"
    and "project_sighting obs sys (SawWork p ob) c = Inr c'" and "wf_tags p = []"
  shows "filter (\<lambda>l. wt_work l = cw_id w) (wc_work_tags c') = []"
  using assms by (auto simp: bindr_Inr link_tags_def filter_empty_conv)

end
