(* ===== verification/CatalogApi.thy ===== *)
theory CatalogApi
  imports Keyset Projection Snapshots
begin

text \<open>
  The catalog routes of \<open>src/pixiv_yuri/api/catalog_api.py\<close>: the SQL of a route is the list
  expression that defines its result.  The database operator \<open>ILIKE\<close> is the parameter \<open>ilike\<close>,
  \<open>like_literal_matches\<close> states what its documentation promises.  A route gives its payload, which
  \<open>private_cached\<close> then wraps; the framework has validated \<open>limit\<close> and the lengths of the filters.
\<close>

section \<open>The service\<close>

text \<open>No session factory, a database that raises, or one that answers.\<close>

datatype 'd data_service = NoService | FailingService | Serving 'd

definition unavailable :: error where
  "unavailable = http_error 503 ''data_service_unavailable''"

definition require_factory :: "'d data_service \<Rightarrow> error + unit" where
  "require_factory svc = (if svc = NoService then Inl unavailable else Inr ())"

definition query :: "'d data_service \<Rightarrow> error + 'd" where
  "query svc = (case svc of Serving d \<Rightarrow> Inr d | _ \<Rightarrow> Inl unavailable)"

section \<open>Items\<close>

record tag_item =
  ti_name :: pystr
  ti_translation :: "pystr option"

record work_item =
  wi_work :: pystr
  wi_title :: pystr
  wi_author :: pystr
  wi_author_name :: pystr
  wi_created_at :: instant
  wi_page_count :: int
  wi_width :: "int option"
  wi_height :: "int option"
  wi_views :: "int option"
  wi_bookmarks :: "int option"
  wi_likes :: "int option"
  wi_tags :: "tag_item list"

record tag_aggregate =
  ta_name :: pystr
  ta_translation :: "pystr option"
  ta_works :: int

record author_aggregate =
  aa_author :: pystr
  aa_name :: pystr
  aa_works :: int
  aa_views :: int
  aa_bookmarks :: int
  aa_likes :: int

record snapshot_item =
  si_observed_at :: instant
  si_views :: "int option"
  si_bookmarks :: "int option"
  si_likes :: "int option"

text \<open>The tags of a work, in the order of their positions.\<close>

definition public_tags :: "work_catalog \<Rightarrow> int \<Rightarrow> tag_item list" where
  "public_tags c w =
     map (\<lambda>(l, t). \<lparr>ti_name = cg_name t, ti_translation = cg_translation t\<rparr>)
       (sort_key (\<lambda>(l, t). wt_position l)
         [(l, t). l \<leftarrow> wc_work_tags c, wt_work l = w, t \<leftarrow> wc_tags c, cg_id t = wt_tag l])"

definition work_item_of :: "work_catalog \<Rightarrow> catalog_work \<times> catalog_author \<Rightarrow> work_item" where
  "work_item_of c wa =
     (let (w, a) = wa
      in \<lparr>wi_work = cw_work w, wi_title = cw_title w, wi_author = ca_author a,
          wi_author_name = ca_name a, wi_created_at = cw_created_at w,
          wi_page_count = cw_page_count w, wi_width = cw_width w, wi_height = cw_height w,
          wi_views = cw_views w, wi_bookmarks = cw_bookmarks w, wi_likes = cw_likes w,
          wi_tags = public_tags c (cw_id w)\<rparr>)"

definition works_with_authors :: "work_catalog \<Rightarrow> (catalog_work \<times> catalog_author) list" where
  "works_with_authors c = [(w, a). w \<leftarrow> wc_works c, a \<leftarrow> wc_authors c, ca_id a = cw_author w]"

section \<open>Searching works\<close>

definition like_char :: "nat \<Rightarrow> pystr" where
  "like_char x = (if x = 92 \<or> x = 37 \<or> x = 95 then [92, x] else [x])"

text \<open>The three replacements escape the backslash first, so each character is escaped once.\<close>

definition like_literal :: "pystr \<Rightarrow> pystr" where
  "like_literal s = concat (map like_char s)"

definition like_pattern :: "pystr \<Rightarrow> pystr" where
  "like_pattern s = [37] @ like_literal s @ [37]"

definition search_text :: "pystr option \<Rightarrow> error + pystr option" where
  "search_text q =
     (case q of
        None \<Rightarrow> Inr None
      | Some s \<Rightarrow> if py_strip s = [] then Inl (http_error 422 ''invalid_query'') else Inr (Some (py_strip s)))"

definition has_tag :: "work_catalog \<Rightarrow> pystr \<Rightarrow> int \<Rightarrow> bool" where
  "has_tag c tag w \<longleftrightarrow>
     list_ex (\<lambda>l. wt_work l = w \<and> list_ex (\<lambda>t. cg_id t = wt_tag l \<and> cg_name t = tag) (wc_tags c))
       (wc_work_tags c)"

definition work_matches ::
  "(pystr \<Rightarrow> pystr \<Rightarrow> bool) \<Rightarrow> pystr option \<Rightarrow> pystr option \<Rightarrow> pystr option \<Rightarrow> work_catalog \<Rightarrow>
     catalog_work \<times> catalog_author \<Rightarrow> bool" where
  "work_matches ilike text author tag c wa \<longleftrightarrow>
     (case text of None \<Rightarrow> True | Some s \<Rightarrow> ilike (like_pattern s) (cw_title (fst wa))) \<and>
     (case author of None \<Rightarrow> True | Some s \<Rightarrow> ca_author (snd wa) = s) \<and>
     (case tag of None \<Rightarrow> True | Some s \<Rightarrow> has_tag c s (cw_id (fst wa)))"

definition list_works ::
  "(nat list \<Rightarrow> nat list) \<Rightarrow> (pystr \<Rightarrow> pystr \<Rightarrow> bool) \<Rightarrow> work_catalog data_service \<Rightarrow> nat \<Rightarrow>
     pystr option \<Rightarrow> pystr option \<Rightarrow> pystr option \<Rightarrow> pystr option \<Rightarrow> error + work_item page" where
  "list_works sha ilike svc limit q author tag cursor =
     bindr (require_factory svc) (\<lambda>_.
     bindr (cursor_value sha cursor) (\<lambda>n.
     bindr (search_text q) (\<lambda>text.
     bindr (query svc) (\<lambda>c.
       id_page sha (cw_id \<circ> fst) (work_item_of c) limit n
         (filter (work_matches ilike text author tag c) (works_with_authors c))))))"

section \<open>Aggregates\<close>

definition tag_aggregate_of :: "work_catalog \<Rightarrow> catalog_tag \<Rightarrow> tag_aggregate" where
  "tag_aggregate_of c t =
     \<lparr>ta_name = cg_name t, ta_translation = cg_translation t,
      ta_works = count_rows (\<lambda>l. wt_tag l = cg_id t) (wc_work_tags c)\<rparr>"

definition list_tag_aggregates ::
  "(nat list \<Rightarrow> nat list) \<Rightarrow> work_catalog data_service \<Rightarrow> nat \<Rightarrow> pystr option \<Rightarrow> error + tag_aggregate page"
  where
  "list_tag_aggregates sha svc limit cursor =
     bindr (require_factory svc) (\<lambda>_.
     bindr (cursor_value sha cursor) (\<lambda>n.
     bindr (query svc) (\<lambda>c. id_page sha cg_id (tag_aggregate_of c) limit n (wc_tags c))))"

text \<open>\<open>coalesce(sum(column), 0)\<close>: null values do not count.\<close>

definition sum_known :: "('r \<Rightarrow> int option) \<Rightarrow> 'r list \<Rightarrow> int" where
  "sum_known f rows = sum_rows (\<lambda>r. case f r of None \<Rightarrow> 0 | Some n \<Rightarrow> n) rows"

definition works_of_author :: "work_catalog \<Rightarrow> int \<Rightarrow> catalog_work list" where
  "works_of_author c i = filter (\<lambda>w. cw_author w = i) (wc_works c)"

definition author_aggregate_of :: "work_catalog \<Rightarrow> catalog_author \<Rightarrow> author_aggregate" where
  "author_aggregate_of c a =
     (let ws = works_of_author c (ca_id a)
      in \<lparr>aa_author = ca_author a, aa_name = ca_name a, aa_works = int (length ws),
          aa_views = sum_known cw_views ws, aa_bookmarks = sum_known cw_bookmarks ws,
          aa_likes = sum_known cw_likes ws\<rparr>)"

definition list_author_aggregates ::
  "(nat list \<Rightarrow> nat list) \<Rightarrow> work_catalog data_service \<Rightarrow> nat \<Rightarrow> pystr option \<Rightarrow> error + author_aggregate page"
  where
  "list_author_aggregates sha svc limit cursor =
     bindr (require_factory svc) (\<lambda>_.
     bindr (cursor_value sha cursor) (\<lambda>n.
     bindr (query svc) (\<lambda>c. id_page sha ca_id (author_aggregate_of c) limit n (wc_authors c))))"

section \<open>Metric history\<close>

definition zoned :: "pydatetime option \<Rightarrow> bool" where
  "zoned v \<longleftrightarrow> (case v of None \<Rightarrow> True | Some d \<Rightarrow> is_ok (aware_utc d))"

definition validate_datetime_range :: "pydatetime option \<Rightarrow> pydatetime option \<Rightarrow> error + unit" where
  "validate_datetime_range a b =
     (if \<not> zoned a \<or> \<not> zoned b then Inl (http_error 422 ''timezone_required'')
      else case (a, b) of
        (Some x, Some y) \<Rightarrow>
          if as_utc y \<le> as_utc x then Inl (http_error 422 ''invalid_time_range'') else Inr ()
      | _ \<Rightarrow> Inr ())"

definition in_range :: "pydatetime option \<Rightarrow> pydatetime option \<Rightarrow> instant \<Rightarrow> bool" where
  "in_range a b t \<longleftrightarrow>
     (case a of None \<Rightarrow> True | Some x \<Rightarrow> as_utc x \<le> t) \<and> (case b of None \<Rightarrow> True | Some y \<Rightarrow> t < as_utc y)"

definition snapshot_item_of :: "metric_snapshot \<Rightarrow> snapshot_item" where
  "snapshot_item_of s =
     \<lparr>si_observed_at = ms_observed_at s, si_views = ms_views s, si_bookmarks = ms_bookmarks s,
      si_likes = ms_likes s\<rparr>"

text \<open>\<open>LIMIT 2\<close> tells no row, one row and several apart.\<close>

definition require_single :: "'r list \<Rightarrow> string \<Rightarrow> string \<Rightarrow> error + 'r" where
  "require_single rows missing ambiguous =
     (case take 2 rows of
        [] \<Rightarrow> Inl (http_error 404 missing)
      | [r] \<Rightarrow> Inr r
      | _ \<Rightarrow> Inl (http_error 409 ambiguous))"

definition list_work_metric_history ::
  "(nat list \<Rightarrow> nat list) \<Rightarrow> work_catalog data_service \<Rightarrow> pystr \<Rightarrow> nat \<Rightarrow> pydatetime option \<Rightarrow>
     pydatetime option \<Rightarrow> pystr option \<Rightarrow> error + snapshot_item page" where
  "list_work_metric_history sha svc work limit since until cursor =
     bindr (require_factory svc) (\<lambda>_.
     bindr (cursor_value sha cursor) (\<lambda>n.
     bindr (validate_datetime_range since until) (\<lambda>_.
     bindr (query svc) (\<lambda>c.
     bindr (require_single (filter (\<lambda>w. cw_work w = work) (wc_works c))
         ''work_not_found'' ''ambiguous_work_id'') (\<lambda>w.
       id_page sha ms_id snapshot_item_of limit n
         (filter (\<lambda>s. ms_work s = cw_id w \<and> in_range since until (ms_observed_at s)) (wc_snapshots c)))))))"

section \<open>Trends\<close>

text \<open>The number of a calendar day, counted from 1970-01-01, the inverse of \<open>civil_from_days\<close>.\<close>

definition day_number :: "date \<Rightarrow> int" where
  "day_number d =
     (let y = (if month d \<le> 2 then year d - 1 else year d); era = y div 400; yoe = y mod 400;
          doy = (153 * ((month d + 9) mod 12) + 2) div 5 + day d - 1
      in era * 146097 + yoe * 365 + yoe div 4 - yoe div 100 + doy - 719468)"

record trend_item =
  tr_day :: date
  tr_works :: int
  tr_views :: int
  tr_bookmarks :: int
  tr_likes :: int

text \<open>\<open>row_number()\<close> is 1: the last snapshot of its work on its day.\<close>

definition last_of_day :: "metric_snapshot list \<Rightarrow> metric_snapshot \<Rightarrow> bool" where
  "last_of_day rows s \<longleftrightarrow>
     list_all (\<lambda>x. ms_work x = ms_work s \<and> utc_date (ms_observed_at x) = utc_date (ms_observed_at s) \<longrightarrow>
       (ms_observed_at x, ms_id x) \<le> (ms_observed_at s, ms_id s)) rows"

definition trend_of :: "metric_snapshot list \<Rightarrow> date \<Rightarrow> trend_item" where
  "trend_of rows d =
     (let day_rows = filter (\<lambda>s. utc_date (ms_observed_at s) = d) rows
      in \<lparr>tr_day = d, tr_works = int (length day_rows), tr_views = sum_known ms_views day_rows,
          tr_bookmarks = sum_known ms_bookmarks day_rows, tr_likes = sum_known ms_likes day_rows\<rparr>)"

text \<open>The day after \<open>date.max\<close> is an \<open>OverflowError\<close>, raised outside the \<open>try\<close> block.\<close>

definition list_metric_trends ::
  "work_catalog data_service \<Rightarrow> date \<Rightarrow> date \<Rightarrow> error + trend_item list" where
  "list_metric_trends svc since until =
     (if day_number until < day_number since \<or> 365 < day_number until - day_number since
      then Inl (http_error 422 ''invalid_date_range'')
      else bindr (require_factory svc) (\<lambda>_.
        if until = Date 9999 12 31 then Inl OtherError
        else bindr (query svc) (\<lambda>c.
          let rows = filter (\<lambda>s. days (day_number since) \<le> ms_observed_at s \<and>
                ms_observed_at s < days (day_number until + 1)) (wc_snapshots c);
              ranked = filter (last_of_day rows) rows;
              found = sort_key day_number (remdups (map (\<lambda>s. utc_date (ms_observed_at s)) ranked))
          in Inr (map (trend_of ranked) found))))"

record freshness =
  fr_latest :: "instant option"
  fr_authors :: int
  fr_works :: int
  fr_tags :: int
  fr_snapshots :: int

definition catalog_freshness :: "work_catalog data_service \<Rightarrow> error + freshness" where
  "catalog_freshness svc =
     bindr (require_factory svc) (\<lambda>_.
     bindr (query svc) (\<lambda>c.
       let times = map ms_observed_at (wc_snapshots c)
       in Inr \<lparr>fr_latest = (if times = [] then None else Some (foldl max (hd times) times)),
               fr_authors = int (length (wc_authors c)), fr_works = int (length (wc_works c)),
               fr_tags = int (length (wc_tags c)), fr_snapshots = int (length (wc_snapshots c))\<rparr>))"

section \<open>What a search finds\<close>

text \<open>
  \<open>LIKE\<close> with the escape character backslash, as SQL defines it; \<open>same\<close> compares two characters
  (without regard to case in \<open>ILIKE\<close>).
\<close>

fun like_match :: "(nat \<Rightarrow> nat \<Rightarrow> bool) \<Rightarrow> pystr \<Rightarrow> pystr \<Rightarrow> bool" where
  "like_match same [] t = (t = [])"
| "like_match same (x # p) t =
     (if x = 92 then (case p of [] \<Rightarrow> False | y # p' \<Rightarrow> t \<noteq> [] \<and> same y (hd t) \<and> like_match same p' (tl t))
      else if x = 37 then list_ex (\<lambda>k. like_match same p (drop k t)) [0..<Suc (length t)]
      else t \<noteq> [] \<and> (x = 95 \<or> same x (hd t)) \<and> like_match same p (tl t))"

definition contains :: "(nat \<Rightarrow> nat \<Rightarrow> bool) \<Rightarrow> pystr \<Rightarrow> pystr \<Rightarrow> bool" where
  "contains same s t \<longleftrightarrow> (\<exists>a m b. t = a @ m @ b \<and> list_all2 same s m)"

lemma like_literal_prefix:
  "like_match same (like_literal s @ p) t \<longleftrightarrow>
     (\<exists>m b. t = m @ b \<and> list_all2 same s m \<and> like_match same p b)"
proof (induction s arbitrary: t)
  case Nil
  then show ?case by (simp add: like_literal_def)
next
  case (Cons x s)
  have "like_match same (like_literal (x # s) @ p) t \<longleftrightarrow>
      t \<noteq> [] \<and> same x (hd t) \<and> like_match same (like_literal s @ p) (tl t)"
    by (simp add: like_literal_def like_char_def)
  also have "\<dots> \<longleftrightarrow> (\<exists>m b. t = m @ b \<and> list_all2 same (x # s) m \<and> like_match same p b)"
    by (cases t) (auto simp: Cons.IH list_all2_Cons1 Cons_eq_append_conv)
  finally show ?case .
qed

lemma like_pattern_contains: "like_match same (like_pattern s) t \<longleftrightarrow> contains same s t"
proof -
  have any: "like_match same [37] u" for u
    by (auto simp: list_ex_iff intro: bexI [of _ "length u"])
  have "like_match same (like_pattern s) t \<longleftrightarrow>
      (\<exists>k \<le> length t. like_match same (like_literal s @ [37]) (drop k t))"
    by (auto simp: like_pattern_def list_ex_iff less_Suc_eq_le simp del: upt_Suc)
  also have "\<dots> \<longleftrightarrow> (\<exists>k \<le> length t. \<exists>m b. drop k t = m @ b \<and> list_all2 same s m)"
    by (simp only: like_literal_prefix any simp_thms)
  also have "\<dots> \<longleftrightarrow> contains same s t"
  proof
    assume "\<exists>k \<le> length t. \<exists>m b. drop k t = m @ b \<and> list_all2 same s m"
    then obtain k m b where "drop k t = m @ b" "list_all2 same s m" by blast
    then have "t = take k t @ m @ b" by (metis append_take_drop_id)
    then show "contains same s t" using \<open>list_all2 same s m\<close> unfolding contains_def by blast
  next
    assume "contains same s t"
    then obtain a m b where "t = a @ m @ b" "list_all2 same s m" by (auto simp: contains_def)
    then have "length a \<le> length t" "drop (length a) t = m @ b" by simp_all
    then show "\<exists>k \<le> length t. \<exists>m b. drop k t = m @ b \<and> list_all2 same s m"
      using \<open>list_all2 same s m\<close> by blast
  qed
  finally show ?thesis .
qed

section \<open>Reading a list to its end\<close>

definition catalog_ids_fit :: "work_catalog \<Rightarrow> bool" where
  "catalog_ids_fit c \<longleftrightarrow>
     ids_fit ca_id (wc_authors c) \<and> ids_fit cw_id (wc_works c) \<and> ids_fit cg_id (wc_tags c) \<and>
     ids_fit ms_id (wc_snapshots c)"

text \<open>A join to one row each gives every row once.\<close>

lemma join_one:
  assumes "distinct (map key ys)" and "\<forall>x \<in> set xs. f x \<in> key ` set ys"
  shows "map fst [(x, y). x \<leftarrow> xs, y \<leftarrow> ys, key y = f x] = xs"
  using assms(2)
proof (induction xs)
  case Nil
  then show ?case by simp
next
  case (Cons x xs)
  have "\<exists>y. filter (\<lambda>y. key y = k) ys = [y]" if "k \<in> key ` set ys" for k
    using assms(1) that by (induction ys) (auto simp: filter_empty_conv rev_image_eqI)
  then obtain y where y: "filter (\<lambda>y. key y = f x) ys = [y]" using Cons.prems by auto
  have "concat (map (\<lambda>y. if key y = f x then [(x, y)] else []) zs) = map (Pair x) (filter (\<lambda>y. key y = f x) zs)"
    for zs by (induction zs) auto
  with y Cons show ?case by simp
qed

lemma works_with_authors_once:
  assumes "catalog_ok obs c"
  shows "map fst (works_with_authors c) = wc_works c"
  unfolding works_with_authors_def
  using assms by (intro join_one) (auto simp: catalog_ok_def keys_ok_def)

lemma ids_fit_filter: "ids_fit key rows \<Longrightarrow> ids_fit key (filter P rows)"
  by (auto simp: ids_fit_def list_all_iff distinct_map_filter)

lemma works_fit:
  assumes "catalog_ok obs c" and "catalog_ids_fit c"
  shows "ids_fit (cw_id \<circ> fst) (filter P (works_with_authors c))"
proof (rule ids_fit_filter)
  have m: "map (cw_id \<circ> fst) (works_with_authors c) = map cw_id (wc_works c)"
    using works_with_authors_once [OF assms(1)] by (metis map_map)
  have "list_all (\<lambda>i. 0 < i \<and> i < 2 ^ 64) (map cw_id (wc_works c))"
    using assms(2) by (simp add: catalog_ids_fit_def ids_fit_def list_all_iff)
  then have "list_all (\<lambda>i. 0 < i \<and> i < 2 ^ 64) (map (cw_id \<circ> fst) (works_with_authors c))"
    by (simp only: m)
  moreover have "distinct (map (cw_id \<circ> fst) (works_with_authors c))"
    unfolding m using assms(2) by (simp add: catalog_ids_fit_def ids_fit_def)
  ultimately show "ids_fit (cw_id \<circ> fst) (works_with_authors c)"
    by (simp add: ids_fit_def list.pred_map comp_def)
qed

text \<open>The routes are pages by identifier.\<close>

definition id_list_of :: "(nat list \<Rightarrow> nat list) \<Rightarrow> ('r \<Rightarrow> int) \<Rightarrow> ('r \<Rightarrow> 'i) \<Rightarrow> nat \<Rightarrow> 'r list \<Rightarrow> ('r, 'i) id_list" where
  "id_list_of sha key item limit rows =
     \<lparr>il_sha = sha, il_key = key, il_item = item, il_limit = limit, il_rows = rows\<rparr>"

lemma route_fetch:
  assumes "\<And>cursor. route cursor = bindr (cursor_value sha cursor) (\<lambda>n. id_page sha key item limit n rows)"
  shows "route = id_fetch (id_list_of sha key item limit rows)"
  by (rule ext) (simp add: assms id_fetch_def id_list_of_def)

lemma route_read:
  assumes "route = id_fetch (id_list_of sha key item limit rows)" and "digest32 sha" and "0 < limit"
    and "ids_fit key rows"
  shows "\<exists>ps. read_pages route (page_count limit (length rows)) None = Some (Inr ps) \<and>
    complete_reading limit (map item (sort_key key rows)) ps"
proof -
  have "id_list_good (id_list_of sha key item limit rows)"
    using assms(2-4) by (simp add: id_list_good_def id_list_of_def)
  from by_id.read_all [OF this] show ?thesis by (simp add: assms(1)) (simp add: id_list_of_def)
qed

lemma serving [simp]: "require_factory (Serving c) = Inr ()" "query (Serving c) = Inr c"
  by (simp_all add: require_factory_def query_def)

definition matching_works ::
  "(pystr \<Rightarrow> pystr \<Rightarrow> bool) \<Rightarrow> pystr option \<Rightarrow> pystr option \<Rightarrow> pystr option \<Rightarrow> work_catalog \<Rightarrow>
     (catalog_work \<times> catalog_author) list" where
  "matching_works ilike text author tag c =
     filter (work_matches ilike text author tag c) (works_with_authors c)"

definition history_between ::
  "pydatetime option \<Rightarrow> pydatetime option \<Rightarrow> catalog_work \<Rightarrow> work_catalog \<Rightarrow> metric_snapshot list" where
  "history_between since until w c =
     filter (\<lambda>s. ms_work s = cw_id w \<and> in_range since until (ms_observed_at s)) (wc_snapshots c)"

text \<open>
  C27: Reading a list ends, and gives it all.  A client that follows \<open>next_cursor\<close> reads the works
  that match any filters, the tags, the authors, and the history of a work in a time range, in
  exactly as many requests as there are pages: every row once, in the order of the identifiers, in
  full pages up to the last, which has no cursor.  Every work is listed with its one author.
\<close>

theorem catalog_lists_are_read_completely:
  assumes "digest32 sha" and "0 < limit" and "catalog_ok obs c" and "catalog_ids_fit c"
    and "search_text q = Inr text" and "validate_datetime_range since until = Inr ()"
    and "filter (\<lambda>w. cw_work w = work) (wc_works c) = [w]"
  shows "map fst (works_with_authors c) = wc_works c \<and>
    (\<exists>ps. read_pages (list_works sha ilike (Serving c) limit q author tag) (page_count limit (length (matching_works ilike text author tag c))) None =
        Some (Inr ps) \<and> complete_reading limit (map (work_item_of c) (sort_key (cw_id \<circ> fst) (matching_works ilike text author tag c))) ps) \<and>
    (\<exists>ps. read_pages (list_tag_aggregates sha (Serving c) limit) (page_count limit (length (wc_tags c))) None =
        Some (Inr ps) \<and> complete_reading limit (map (tag_aggregate_of c) (sort_key cg_id (wc_tags c))) ps) \<and>
    (\<exists>ps. read_pages (list_author_aggregates sha (Serving c) limit) (page_count limit (length (wc_authors c))) None =
        Some (Inr ps) \<and> complete_reading limit (map (author_aggregate_of c) (sort_key ca_id (wc_authors c))) ps) \<and>
    (\<exists>ps. read_pages (list_work_metric_history sha (Serving c) work limit since until)
        (page_count limit (length (history_between since until w c))) None =
        Some (Inr ps) \<and> complete_reading limit (map snapshot_item_of (sort_key ms_id (history_between since until w c))) ps)"
proof (intro conjI)
  have fit: "ids_fit cg_id (wc_tags c)" "ids_fit ca_id (wc_authors c)" "ids_fit ms_id (wc_snapshots c)"
    using assms(4) by (simp_all add: catalog_ids_fit_def)
  show "map fst (works_with_authors c) = wc_works c" using assms(3) by (rule works_with_authors_once)
  show "\<exists>ps. read_pages (list_works sha ilike (Serving c) limit q author tag) (page_count limit (length (matching_works ilike text author tag c))) None =
      Some (Inr ps) \<and> complete_reading limit (map (work_item_of c) (sort_key (cw_id \<circ> fst) (matching_works ilike text author tag c))) ps"
    unfolding matching_works_def
    by (rule route_read [OF route_fetch assms(1,2) works_fit [OF assms(3,4)]])
      (simp add: list_works_def assms(5))
  show "\<exists>ps. read_pages (list_tag_aggregates sha (Serving c) limit) (page_count limit (length (wc_tags c))) None =
      Some (Inr ps) \<and> complete_reading limit (map (tag_aggregate_of c) (sort_key cg_id (wc_tags c))) ps"
    by (rule route_read [OF route_fetch assms(1,2) fit(1)]) (simp add: list_tag_aggregates_def)
  show "\<exists>ps. read_pages (list_author_aggregates sha (Serving c) limit) (page_count limit (length (wc_authors c))) None =
      Some (Inr ps) \<and> complete_reading limit (map (author_aggregate_of c) (sort_key ca_id (wc_authors c))) ps"
    by (rule route_read [OF route_fetch assms(1,2) fit(2)]) (simp add: list_author_aggregates_def)
  show "\<exists>ps. read_pages (list_work_metric_history sha (Serving c) work limit since until)
      (page_count limit (length (history_between since until w c))) None =
      Some (Inr ps) \<and> complete_reading limit (map snapshot_item_of (sort_key ms_id (history_between since until w c))) ps"
    unfolding history_between_def
    by (rule route_read [OF route_fetch assms(1,2) ids_fit_filter [OF fit(3)]])
      (simp add: list_work_metric_history_def assms(6,7) require_single_def)
qed

definition sample_catalog :: work_catalog where
  "sample_catalog =
     \<lparr>wc_authors = [\<lparr>ca_id = 1, ca_system = lit ''fx'', ca_author = lit ''a'', ca_name = lit ''n'',
        ca_observation = 1, ca_first_seen = 9, ca_last_seen = 9\<rparr>],
      wc_works = [\<lparr>cw_id = 1, cw_system = lit ''fx'', cw_work = lit ''w'', cw_title = lit ''t'',
        cw_author = 1, cw_created_at = 0, cw_page_count = 1, cw_width = None, cw_height = None,
        cw_views = Some 3, cw_bookmarks = None, cw_likes = None, cw_observation = 1\<rparr>],
      wc_tags = [\<lparr>cg_id = 1, cg_system = lit ''fx'', cg_name = lit ''x'', cg_translation = None\<rparr>],
      wc_snapshots = [\<lparr>ms_id = 1, ms_work = 1, ms_observation = 1, ms_observed_at = 9,
        ms_views = Some 3, ms_bookmarks = None, ms_likes = None\<rparr>],
      wc_work_tags = [\<lparr>wt_work = 1, wt_tag = 1, wt_position = 0\<rparr>]\<rparr>"

lemma sample_catalog_ok: "catalog_ok [sample_observation 1 9] sample_catalog"
  by (simp add: catalog_ok_def sample_catalog_def keys_ok_def sample_observation_def work_row_ok_def
      snapshot_ok_def at_least_option_def)

lemma sample_ids_fit: "catalog_ids_fit sample_catalog"
  by (simp add: catalog_ids_fit_def ids_fit_def sample_catalog_def)

lemma sample_work:
  "filter (\<lambda>w. cw_work w = lit ''w'') (wc_works sample_catalog) = wc_works sample_catalog"
  by (simp add: sample_catalog_def)

theorem catalog_lists_are_read_completely_witness:
  "\<exists>ps. read_pages (list_tag_aggregates (\<lambda>_. replicate 32 0) (Serving sample_catalog) 5) 1 None = Some (Inr ps) \<and>
     concat (map pg_items ps) = [\<lparr>ta_name = lit ''x'', ta_translation = None, ta_works = 1\<rparr>]"
proof -
  have "wc_works sample_catalog = [hd (wc_works sample_catalog)]" by (simp add: sample_catalog_def)
  then have w: "filter (\<lambda>w. cw_work w = lit ''w'') (wc_works sample_catalog) = [hd (wc_works sample_catalog)]"
    using sample_work by simp
  have "search_text None = Inr None" "validate_datetime_range None None = Inr ()"
    by (simp_all add: search_text_def validate_datetime_range_def zoned_def)
  note all = catalog_lists_are_read_completely [OF zeros_digest _ sample_catalog_ok sample_ids_fit this w,
      of 5 "\<lambda>p t. False" None None]
  have "page_count 5 (length (wc_tags sample_catalog)) = 1"
    "map (tag_aggregate_of sample_catalog) (sort_key cg_id (wc_tags sample_catalog)) =
      [\<lparr>ta_name = lit ''x'', ta_translation = None, ta_works = 1\<rparr>]"
    by (simp_all add: page_count_def sample_catalog_def tag_aggregate_of_def)
  with all show ?thesis by (auto simp: complete_reading_def)
qed

text \<open>What the text filter selects, when \<open>ILIKE\<close> is what SQL says: the titles that contain the text.\<close>

lemma search_is_literal:
  assumes "\<And>p t. ilike p t = like_match same p t" and "search_text (Some s) = Inr (Some s')"
  shows "work_matches ilike (Some s') author tag c wa \<longleftrightarrow>
    contains same (py_strip s) (cw_title (fst wa)) \<and> work_matches ilike None author tag c wa"
proof -
  have "s' = py_strip s" using assms(2) by (auto simp: search_text_def split: if_splits)
  then show ?thesis by (auto simp: work_matches_def assms(1) like_pattern_contains)
qed

text \<open>The last day of the calendar is refused with an unhandled error.\<close>

lemma last_day_overflows:
  "list_metric_trends (Serving c) (Date 9999 12 31) (Date 9999 12 31) = Inl OtherError"
  by (simp add: list_metric_trends_def)

end
