(* ===== verification/DetailApi.thy ===== *)
theory DetailApi
  imports CatalogApi
begin

text \<open>
  The detail and ranking routes of \<open>src/pixiv_yuri/api/detail_api.py\<close>.  The division of the SQL
  dialect is the parameter \<open>quot\<close>: SQLite divides integers to an integer, PostgreSQL divides the
  \<open>numeric\<close> sum of a \<open>bigint\<close> column to a fraction.
\<close>

section \<open>Details\<close>

record author_detail =
  ad_author :: pystr
  ad_name :: pystr
  ad_first_seen :: instant
  ad_last_seen :: instant
  ad_totals :: author_aggregate

definition work_detail :: "work_catalog data_service \<Rightarrow> pystr \<Rightarrow> error + work_item" where
  "work_detail svc work =
     bindr (require_factory svc) (\<lambda>_.
     bindr (query svc) (\<lambda>c.
     bindr (require_single (filter (\<lambda>wa. cw_work (fst wa) = work) (works_with_authors c))
         ''work_not_found'' ''ambiguous_work_id'') (\<lambda>wa. Inr (work_item_of c wa))))"

definition author_detail_of :: "work_catalog data_service \<Rightarrow> pystr \<Rightarrow> error + author_detail" where
  "author_detail_of svc author =
     bindr (require_factory svc) (\<lambda>_.
     bindr (query svc) (\<lambda>c.
     bindr (require_single (filter (\<lambda>a. ca_author a = author) (wc_authors c))
         ''author_not_found'' ''ambiguous_author_id'') (\<lambda>a.
       Inr \<lparr>ad_author = ca_author a, ad_name = ca_name a, ad_first_seen = ca_first_seen a,
            ad_last_seen = ca_last_seen a, ad_totals = author_aggregate_of c a\<rparr>)))"

definition tag_detail :: "work_catalog data_service \<Rightarrow> pystr \<Rightarrow> error + tag_aggregate" where
  "tag_detail svc tag =
     bindr (require_factory svc) (\<lambda>_.
     bindr (query svc) (\<lambda>c.
     bindr (require_single (filter (\<lambda>t. cg_name t = tag) (wc_tags c))
         ''tag_not_found'' ''ambiguous_tag_id'') (\<lambda>t. Inr (tag_aggregate_of c t))))"

section \<open>Ranking works\<close>

datatype ranking_metric = RankLikes | RankBookmarks | RankViews

fun metric_column :: "ranking_metric \<Rightarrow> catalog_work \<Rightarrow> int option" where
  "metric_column RankLikes = cw_likes"
| "metric_column RankBookmarks = cw_bookmarks"
| "metric_column RankViews = cw_views"

fun metric_name :: "ranking_metric \<Rightarrow> pystr" where
  "metric_name RankLikes = lit ''likes''"
| "metric_name RankBookmarks = lit ''bookmarks''"
| "metric_name RankViews = lit ''views''"

record work_ranking_item =
  wr_work :: pystr
  wr_title :: pystr
  wr_author :: pystr
  wr_author_name :: pystr
  wr_score :: int

definition work_score :: "ranking_metric \<Rightarrow> catalog_work \<times> catalog_author \<Rightarrow> rat" where
  "work_score m wa = of_int (case metric_column m (fst wa) of None \<Rightarrow> 0 | Some n \<Rightarrow> n)"

definition work_ranking_item_of :: "ranking_metric \<Rightarrow> catalog_work \<times> catalog_author \<Rightarrow> work_ranking_item" where
  "work_ranking_item_of m wa =
     (let (w, a) = wa
      in \<lparr>wr_work = cw_work w, wr_title = cw_title w, wr_author = ca_author a,
          wr_author_name = ca_name a, wr_score = trunc_int (work_score m wa)\<rparr>)"

definition work_namespace :: "ranking_metric \<Rightarrow> pystr" where
  "work_namespace m = lit ''work-ranking:'' @ metric_name m"

definition rank_works ::
  "(nat list \<Rightarrow> nat list) \<Rightarrow> work_catalog data_service \<Rightarrow> ranking_metric \<Rightarrow> nat \<Rightarrow> pystr option \<Rightarrow>
     error + work_ranking_item page" where
  "rank_works sha svc m limit cursor =
     bindr (require_factory svc) (\<lambda>_.
     bindr (rank_cursor sha (work_namespace m) cursor) (\<lambda>pos.
     bindr (query svc) (\<lambda>c.
       rank_page sha (work_namespace m) (work_score m) (cw_id \<circ> fst) (work_ranking_item_of m) limit pos
         (works_with_authors c))))"

section \<open>Ranking authors\<close>

datatype author_metric = AuthorTotal ranking_metric | AuthorWorks | AverageLikes | AverageBookmarks

fun author_metric_name :: "author_metric \<Rightarrow> pystr" where
  "author_metric_name (AuthorTotal m) = metric_name m"
| "author_metric_name AuthorWorks = lit ''works''"
| "author_metric_name AverageLikes = lit ''average_likes''"
| "author_metric_name AverageBookmarks = lit ''average_bookmarks''"

fun base_metric :: "author_metric \<Rightarrow> ranking_metric" where
  "base_metric (AuthorTotal m) = m"
| "base_metric AverageBookmarks = RankBookmarks"
| "base_metric _ = RankLikes"

definition metric_coverage :: "work_catalog \<Rightarrow> author_metric \<Rightarrow> catalog_author \<Rightarrow> int" where
  "metric_coverage c m a =
     (let ws = works_of_author c (ca_id a)
      in if m = AuthorWorks then int (length ws)
         else count_rows (\<lambda>w. metric_column (base_metric m) w \<noteq> None) ws)"

definition author_score ::
  "(int \<Rightarrow> int \<Rightarrow> rat) \<Rightarrow> work_catalog \<Rightarrow> author_metric \<Rightarrow> catalog_author \<Rightarrow> rat" where
  "author_score quot c m a =
     (let ws = works_of_author c (ca_id a); total = sum_known (metric_column (base_metric m)) ws
      in case m of
           AuthorWorks \<Rightarrow> of_int (int (length ws))
         | AuthorTotal _ \<Rightarrow> of_int total
         | _ \<Rightarrow> quot (total * 100) (metric_coverage c m a))"

definition score_scale :: "author_metric \<Rightarrow> int" where
  "score_scale m = (if m = AverageLikes \<or> m = AverageBookmarks then 100 else 1)"

record author_ranking_item =
  rk_author :: pystr
  rk_name :: pystr
  rk_works :: int
  rk_coverage :: int
  rk_score :: int
  rk_scale :: int

definition author_ranking_item_of ::
  "(int \<Rightarrow> int \<Rightarrow> rat) \<Rightarrow> work_catalog \<Rightarrow> author_metric \<Rightarrow> catalog_author \<Rightarrow> author_ranking_item" where
  "author_ranking_item_of quot c m a =
     \<lparr>rk_author = ca_author a, rk_name = ca_name a,
      rk_works = int (length (works_of_author c (ca_id a))), rk_coverage = metric_coverage c m a,
      rk_score = trunc_int (author_score quot c m a), rk_scale = score_scale m\<rparr>"

definition author_namespace :: "author_metric \<Rightarrow> pystr" where
  "author_namespace m = lit ''author-ranking:'' @ author_metric_name m"

definition covered_authors :: "work_catalog \<Rightarrow> author_metric \<Rightarrow> catalog_author list" where
  "covered_authors c m = filter (\<lambda>a. 0 < metric_coverage c m a) (wc_authors c)"

definition rank_authors ::
  "(nat list \<Rightarrow> nat list) \<Rightarrow> (int \<Rightarrow> int \<Rightarrow> rat) \<Rightarrow> work_catalog data_service \<Rightarrow> author_metric \<Rightarrow> nat \<Rightarrow>
     pystr option \<Rightarrow> error + author_ranking_item page" where
  "rank_authors sha quot svc m limit cursor =
     bindr (require_factory svc) (\<lambda>_.
     bindr (rank_cursor sha (author_namespace m) cursor) (\<lambda>pos.
     bindr (query svc) (\<lambda>c.
       rank_page sha (author_namespace m) (author_score quot c m) ca_id (author_ranking_item_of quot c m)
         limit pos (covered_authors c m))))"

section \<open>Reading a ranking to its end\<close>

definition rank_list_of ::
  "(nat list \<Rightarrow> nat list) \<Rightarrow> pystr \<Rightarrow> ('r \<Rightarrow> rat) \<Rightarrow> ('r \<Rightarrow> int) \<Rightarrow> ('r \<Rightarrow> 'i) \<Rightarrow> nat \<Rightarrow> 'r list \<Rightarrow>
     ('r, 'i) rank_list" where
  "rank_list_of sha namespace score key item limit rows =
     \<lparr>il_sha = sha, il_key = key, il_item = item, il_limit = limit, il_rows = rows,
      rl_namespace = namespace, rl_score = score\<rparr>"

lemma ranking_fetch:
  assumes "\<And>cursor. route cursor = bindr (rank_cursor sha namespace cursor) (\<lambda>pos.
      rank_page sha namespace score key item limit pos rows)"
  shows "route = rank_fetch (rank_list_of sha namespace score key item limit rows)"
  by (rule ext) (simp add: assms rank_fetch_def rank_list_of_def)

definition scores_fit :: "('r \<Rightarrow> rat) \<Rightarrow> 'r list \<Rightarrow> bool" where
  "scores_fit score rows \<longleftrightarrow> list_all (\<lambda>r. \<exists>n. score r = of_int n \<and> 0 \<le> n \<and> n < 2 ^ 64) rows"

lemma ranking_read:
  assumes "route = rank_fetch (rank_list_of sha namespace score key item limit rows)"
    and "digest32 sha" and "0 < limit" and "ids_fit key rows" and "is_ok (namespace_hash sha namespace)"
    and "scores_fit score rows"
  shows "\<exists>ps. read_pages route (page_count limit (length rows)) None = Some (Inr ps) \<and>
    complete_reading limit (map item (sort_key (rank_key score key) rows)) ps"
proof -
  have "rank_list_good (rank_list_of sha namespace score key item limit rows)"
    using assms(2-6) by (simp add: rank_list_good_def rank_list_of_def scores_fit_def)
  from by_score.read_all [OF this] show ?thesis by (simp add: assms(1)) (simp add: rank_list_of_def)
qed

lemma work_namespace_ok: "is_ok (namespace_hash sha (work_namespace m))"
  by (cases m) (simp_all add: namespace_hash_def work_namespace_def lit_def is_ascii_def)

lemma author_namespace_ok: "is_ok (namespace_hash sha (author_namespace m))"
proof (cases m)
  case (AuthorTotal b)
  then show ?thesis by (cases b) (simp_all add: namespace_hash_def author_namespace_def lit_def is_ascii_def)
qed (simp_all add: namespace_hash_def author_namespace_def lit_def is_ascii_def)

text \<open>The metrics of a work fit the columns of the database.\<close>

definition metrics_fit :: "work_catalog \<Rightarrow> bool" where
  "metrics_fit c \<longleftrightarrow>
     list_all (\<lambda>w. \<forall>m. case metric_column m w of None \<Rightarrow> True | Some n \<Rightarrow> n < 2 ^ 63) (wc_works c)"

lemma metric_column_nonneg: "work_row_ok w \<Longrightarrow> metric_column m w = Some n \<Longrightarrow> 0 \<le> n"
  by (cases m) (auto simp: work_row_ok_def at_least_option_def)

lemma work_scores_fit:
  assumes "catalog_ok obs c" and "metrics_fit c"
  shows "scores_fit (work_score m) (works_with_authors c)"
  unfolding scores_fit_def list_all_iff
proof
  fix wa assume wa: "wa \<in> set (works_with_authors c)"
  then have "fst wa \<in> set (map fst (works_with_authors c))" by (simp only: set_map) (rule imageI)
  then have w: "fst wa \<in> set (wc_works c)" by (simp only: works_with_authors_once [OF assms(1)])
  show "\<exists>n. work_score m wa = of_int n \<and> 0 \<le> n \<and> n < 2 ^ 64"
  proof (cases "metric_column m (fst wa)")
    case None
    then show ?thesis by (simp add: work_score_def)
  next
    case (Some n)
    have "0 \<le> n"
      using w assms(1) metric_column_nonneg [OF _ Some] by (auto simp: catalog_ok_def)
    moreover have "\<forall>m. case metric_column m (fst wa) of None \<Rightarrow> True | Some n \<Rightarrow> n < 2 ^ 63"
      using w assms(2) by (auto simp: metrics_fit_def list_all_iff)
    then have "case metric_column m (fst wa) of None \<Rightarrow> True | Some n \<Rightarrow> n < 2 ^ 63" by (rule spec)
    ultimately show ?thesis by (intro exI [of _ n]) (simp add: work_score_def Some)
  qed
qed

text \<open>The division that keeps a score an integer, and totals that fit the cursor's 64 bits.\<close>

definition integer_quotient :: "int \<Rightarrow> int \<Rightarrow> rat" where
  "integer_quotient a b = of_int (a div b)"

definition totals_fit :: "work_catalog \<Rightarrow> bool" where
  "totals_fit c \<longleftrightarrow>
     list_all (\<lambda>a. \<forall>m. sum_known (metric_column m) (works_of_author c (ca_id a)) * 100 < 2 ^ 64 \<and>
       int (length (works_of_author c (ca_id a))) < 2 ^ 64) (wc_authors c)"

lemma sum_known_nonneg: "\<forall>r \<in> set rows. \<forall>n. f r = Some n \<longrightarrow> 0 \<le> n \<Longrightarrow> 0 \<le> sum_known f rows"
  by (induction rows) (auto simp: sum_known_def split: option.splits)

lemma author_scores_fit:
  assumes "catalog_ok obs c" and "totals_fit c"
  shows "scores_fit (author_score integer_quotient c m) (covered_authors c m)"
  unfolding scores_fit_def list_all_iff
proof
  fix a assume a: "a \<in> set (covered_authors c m)"
  define ws where "ws = works_of_author c (ca_id a)"
  define total where "total = sum_known (metric_column (base_metric m)) ws"
  define cov where "cov = metric_coverage c m a"
  have "\<forall>w \<in> set ws. \<forall>n. metric_column (base_metric m) w = Some n \<longrightarrow> 0 \<le> n"
    using assms(1) metric_column_nonneg by (auto simp: ws_def works_of_author_def catalog_ok_def)
  then have total: "0 \<le> total" unfolding total_def by (rule sum_known_nonneg)
  have fit: "total * 100 < 2 ^ 64" "int (length ws) < 2 ^ 64"
    using a assms(2) by (auto simp: totals_fit_def list_all_iff covered_authors_def total_def ws_def)
  have "0 < cov" using a by (simp add: covered_authors_def cov_def)
  have "0 \<le> total * 100 div cov" using total \<open>0 < cov\<close> by (simp add: pos_imp_zdiv_nonneg_iff)
  moreover have "total * 100 div cov \<le> total * 100"
    using total \<open>0 < cov\<close> zdiv_mono2 [of "total * 100" 1 cov] by simp
  ultimately have avg: "0 \<le> total * 100 div cov \<and> total * 100 div cov < 2 ^ 64" using fit by linarith
  show "\<exists>n. author_score integer_quotient c m a = of_int n \<and> 0 \<le> n \<and> n < 2 ^ 64"
  proof (cases m)
    case (AuthorTotal b)
    then show ?thesis
      using total fit by (intro exI [of _ total]) (simp add: author_score_def Let_def total_def ws_def)
  next
    case AuthorWorks
    then show ?thesis using fit
      by (intro exI [of _ "int (length ws)"]) (simp add: author_score_def Let_def ws_def)
  next
    case AverageLikes
    then show ?thesis using avg
      by (intro exI [of _ "total * 100 div cov"])
        (simp add: author_score_def Let_def total_def ws_def cov_def integer_quotient_def)
  next
    case AverageBookmarks
    then show ?thesis using avg
      by (intro exI [of _ "total * 100 div cov"])
        (simp add: author_score_def Let_def total_def ws_def cov_def integer_quotient_def)
  qed
qed

text \<open>
  C35: A ranking is read to its end.  Following \<open>next_cursor\<close>, a client reads every work in the
  order of falling score and then of identifier, and, in a database whose division is that of
  integers, every author that has the metric, each exactly once and in as many requests as there
  are pages.
\<close>

theorem rankings_are_read_completely:
  assumes "digest32 sha" and "0 < limit" and "catalog_ok obs c" and "catalog_ids_fit c"
    and "metrics_fit c" and "totals_fit c"
  shows "(\<exists>ps. read_pages (rank_works sha (Serving c) m limit)
        (page_count limit (length (works_with_authors c))) None = Some (Inr ps) \<and>
      complete_reading limit (map (work_ranking_item_of m)
        (sort_key (rank_key (work_score m) (cw_id \<circ> fst)) (works_with_authors c))) ps) \<and>
    (\<exists>ps. read_pages (rank_authors sha integer_quotient (Serving c) am limit)
        (page_count limit (length (covered_authors c am))) None = Some (Inr ps) \<and>
      complete_reading limit (map (author_ranking_item_of integer_quotient c am)
        (sort_key (rank_key (author_score integer_quotient c am) ca_id) (covered_authors c am))) ps)"
proof
  have works: "ids_fit (cw_id \<circ> fst) (works_with_authors c)"
    using works_fit [OF assms(3,4), of "\<lambda>_. True"] by simp
  show "\<exists>ps. read_pages (rank_works sha (Serving c) m limit)
        (page_count limit (length (works_with_authors c))) None = Some (Inr ps) \<and>
      complete_reading limit (map (work_ranking_item_of m)
        (sort_key (rank_key (work_score m) (cw_id \<circ> fst)) (works_with_authors c))) ps"
    by (rule ranking_read [OF ranking_fetch assms(1,2) works work_namespace_ok work_scores_fit [OF assms(3,5)]])
      (simp add: rank_works_def)
  have authors: "ids_fit ca_id (covered_authors c am)"
    using assms(4) by (auto simp: catalog_ids_fit_def covered_authors_def intro: ids_fit_filter)
  show "\<exists>ps. read_pages (rank_authors sha integer_quotient (Serving c) am limit)
        (page_count limit (length (covered_authors c am))) None = Some (Inr ps) \<and>
      complete_reading limit (map (author_ranking_item_of integer_quotient c am)
        (sort_key (rank_key (author_score integer_quotient c am) ca_id) (covered_authors c am))) ps"
    by (rule ranking_read [OF ranking_fetch assms(1,2) authors author_namespace_ok
          author_scores_fit [OF assms(3,6)]])
      (simp add: rank_authors_def)
qed

lemma all_metrics: "(\<forall>m. P m) \<longleftrightarrow> P RankLikes \<and> P RankBookmarks \<and> P RankViews"
  by (metis ranking_metric.exhaust)

lemma sample_metrics: "metrics_fit sample_catalog" "totals_fit sample_catalog"
  by (simp_all add: metrics_fit_def totals_fit_def sample_catalog_def works_of_author_def sum_known_def
      all_metrics)

theorem rankings_are_read_completely_witness:
  "\<exists>ps. read_pages (rank_works (\<lambda>_. replicate 32 0) (Serving sample_catalog) RankViews 5) 1 None = Some (Inr ps) \<and>
     map wr_score (concat (map pg_items ps)) = [3]"
proof -
  have w: "works_with_authors sample_catalog = [(hd (wc_works sample_catalog), hd (wc_authors sample_catalog))]"
    by (simp add: works_with_authors_def sample_catalog_def)
  have "wr_score (work_ranking_item_of RankViews (hd (wc_works sample_catalog), hd (wc_authors sample_catalog))) = 3"
    by (simp add: work_ranking_item_of_def work_score_def sample_catalog_def trunc_int_def)
  then show ?thesis
    using rankings_are_read_completely [OF zeros_digest _ sample_catalog_ok sample_ids_fit sample_metrics,
        of 5 RankViews AuthorWorks, THEN conjunct1]
    by (auto simp: w page_count_def complete_reading_def simp del: read_pages.simps)
qed

section \<open>Fractional scores lose rows\<close>

text \<open>
  With a division that gives fractions, the cursor of a page names the integer part of the last
  score only: every author whose score is above that integer part, the ones of equal average
  included, is left out of the next page and of all that follow.
\<close>

lemma fractional_cursor_skips:
  assumes "of_int (trunc_int (score r)) < score r'"
  shows "\<not> ranked_after score key (Some (trunc_int (score r), i)) r'"
  using assms by (simp add: ranked_after_def)

lemma fractional_ranking_ends_early:
  assumes sha: "digest32 (il_sha s)" and ns: "is_ok (namespace_hash (il_sha s) (rl_namespace s))"
    and s: "il_limit s = 1" "il_rows s = [r1, r2]" "il_key s r1 < il_key s r2"
    and k: "0 < il_key s r1" "il_key s r1 < 2 ^ 64"
    and x: "rl_score s r1 = x" "rl_score s r2 = x" "0 \<le> x" "of_int \<lfloor>x\<rfloor> < x" "\<lfloor>x\<rfloor> < 2 ^ 64"
  shows "\<exists>c. read_pages (rank_fetch s) 2 None =
    Some (Inr [\<lparr>pg_items = [il_item s r1], pg_next = Some c\<rparr>, \<lparr>pg_items = [], pg_next = None\<rparr>])"
proof -
  have t: "trunc_int x = \<lfloor>x\<rfloor>" "0 \<le> \<lfloor>x\<rfloor>" using x(3) by (simp_all add: trunc_int_def)
  obtain h where h: "namespace_hash (il_sha s) (rl_namespace s) = Inr h" using ns by (auto simp: is_ok_Inr)
  obtain c where c: "encode_rank_cursor (il_sha s) \<lfloor>x\<rfloor> (il_key s r1) (rl_namespace s) = Inr c"
      "decode_rank_cursor (il_sha s) (Some c) (rl_namespace s) = Inr (Some (\<lfloor>x\<rfloor>, il_key s r1))"
    using rank_round_trip [OF sha t(2) x(5) k h h] by blast
  have key: "rank_key (rl_score s) (il_key s) r1 \<le> rank_key (rl_score s) (il_key s) r2"
    using s(3) x(1,2) by (simp add: rank_key_def less_eq_prod_def)
  have first: "rank_fetch s None = Inr \<lparr>pg_items = [il_item s r1], pg_next = Some c\<rparr>"
    using s key c(1) x(1) t(1)
    by (simp add: rank_fetch_def rank_cursor_def decode_rank_cursor_def rank_page_def ranked_after_def
        serve_page_def found_rows_def make_page_def)
  have "rank_cursor (il_sha s) (rl_namespace s) (Some c) = Inr (Some (\<lfloor>x\<rfloor>, il_key s r1))"
    unfolding rank_cursor_def c(2) by simp
  moreover have "filter (ranked_after (rl_score s) (il_key s) (Some (\<lfloor>x\<rfloor>, il_key s r1))) (il_rows s) = []"
    using x by (simp add: s ranked_after_def)
  ultimately have "rank_fetch s (Some c) = Inr \<lparr>pg_items = [], pg_next = None\<rparr>"
    by (simp add: rank_fetch_def rank_page_def serve_page_def found_rows_def make_page_def)
  with first show ?thesis by (simp add: numeral_2_eq_2)
qed

text \<open>Two authors, both with an average of two thirds of a like per work.\<close>

definition two_equal_authors :: work_catalog where
  "two_equal_authors =
     (let author = (\<lambda>i. \<lparr>ca_id = i, ca_system = lit ''fx'', ca_author = [48 + nat i], ca_name = lit ''n'',
            ca_observation = 1, ca_first_seen = 0, ca_last_seen = 0\<rparr>);
          work = (\<lambda>i a n. \<lparr>cw_id = i, cw_system = lit ''fx'', cw_work = [48 + nat i], cw_title = lit ''t'',
            cw_author = a, cw_created_at = 0, cw_page_count = 1, cw_width = None, cw_height = None,
            cw_views = None, cw_bookmarks = None, cw_likes = Some n, cw_observation = 1\<rparr>)
      in \<lparr>wc_authors = [author 1, author 2],
          wc_works = [work 1 1 1, work 2 1 1, work 3 1 0, work 4 2 1, work 5 2 1, work 6 2 0],
          wc_tags = [], wc_snapshots = [], wc_work_tags = []\<rparr>)"

lemma fractional_ranking_loses_an_author:
  "\<exists>ps. read_pages (rank_authors (\<lambda>_. replicate 32 0) (\<lambda>a b. of_int a / of_int b) (Serving two_equal_authors)
      AverageLikes 1) 2 None = Some (Inr ps) \<and> map rk_author (concat (map pg_items ps)) = [lit ''1'']"
proof -
  define quot where "quot = (\<lambda>a b. of_int a / of_int b :: rat)"
  define s where "s = rank_list_of (\<lambda>_. replicate 32 0) (author_namespace AverageLikes)
    (author_score quot two_equal_authors AverageLikes) ca_id
    (author_ranking_item_of quot two_equal_authors AverageLikes) 1 (covered_authors two_equal_authors AverageLikes)"
  have route: "rank_authors (\<lambda>_. replicate 32 0) quot (Serving two_equal_authors) AverageLikes 1 = rank_fetch s"
    unfolding s_def by (rule ranking_fetch) (simp add: rank_authors_def)
  define r1 r2 where "r1 = hd (wc_authors two_equal_authors)" and "r2 = hd (tl (wc_authors two_equal_authors))"
  have rows: "il_rows s = [r1, r2]" "il_limit s = 1" "il_key s = ca_id" "il_sha s = (\<lambda>_. replicate 32 0)"
    "rl_namespace s = author_namespace AverageLikes"
    by (simp_all add: s_def rank_list_of_def covered_authors_def metric_coverage_def works_of_author_def
        two_equal_authors_def r1_def r2_def Let_def)
  have score: "rl_score s r1 = 200 / 3" "rl_score s r2 = 200 / 3"
    by (simp_all add: s_def rank_list_of_def author_score_def metric_coverage_def works_of_author_def
        sum_known_def two_equal_authors_def r1_def r2_def Let_def quot_def)
  have "\<lfloor>200 / 3 :: rat\<rfloor> = 66" by (simp add: floor_unique)
  then obtain c where "read_pages (rank_fetch s) 2 None =
      Some (Inr [\<lparr>pg_items = [il_item s r1], pg_next = Some c\<rparr>, \<lparr>pg_items = [], pg_next = None\<rparr>])"
    using fractional_ranking_ends_early [of s r1 r2 "200 / 3"] rows score zeros_digest
      author_namespace_ok [of "\<lambda>_. replicate 32 0" AverageLikes]
    by (auto simp: r1_def r2_def two_equal_authors_def Let_def)
  moreover have "rk_author (il_item s r1) = lit ''1''"
    by (simp add: s_def rank_list_of_def author_ranking_item_of_def r1_def two_equal_authors_def Let_def lit_def)
  ultimately show ?thesis unfolding quot_def [symmetric] route by simp
qed

end
