(* ===== verification/ReadApi.thy ===== *)
theory ReadApi
  imports CatalogApi
begin

text \<open>
  The ledger routes: source records, schema definitions and observations of
  \<open>src/pixiv_yuri/api/read_api.py\<close>; runs, tasks, quarantine and the control status of
  \<open>src/pixiv_yuri/api/operations_read_api.py\<close>.  A row of the first two is its own item.
\<close>

section \<open>Source records\<close>

record source_page = "source_record page" +
  sp_next_after :: "int option"

text \<open>The deprecated \<open>after_id\<close> excludes a cursor and is used as its value.\<close>

definition source_start :: "(nat list \<Rightarrow> nat list) \<Rightarrow> pystr option \<Rightarrow> int \<Rightarrow> error + int" where
  "source_start sha cursor after =
     (if cursor \<noteq> None \<and> after \<noteq> 0 then Inl (http_error 422 ''invalid_cursor'')
      else if cursor \<noteq> None then cursor_value sha cursor else Inr after)"

definition is_entity :: "entity_type option \<Rightarrow> entity_type \<Rightarrow> bool" where
  "is_entity f e \<longleftrightarrow> (case f of None \<Rightarrow> True | Some t \<Rightarrow> e = t)"

definition list_source_records ::
  "(nat list \<Rightarrow> nat list) \<Rightarrow> ledger_tables data_service \<Rightarrow> nat \<Rightarrow> int \<Rightarrow> entity_type option \<Rightarrow>
     pystr option \<Rightarrow> error + source_page" where
  "list_source_records sha svc limit after entity cursor =
     bindr (require_factory svc) (\<lambda>_.
     bindr (source_start sha cursor after) (\<lambda>n.
     bindr (query svc) (\<lambda>d.
       let rows = filter (\<lambda>r. is_entity entity (sr_entity r)) (lt_records d);
           found = found_rows sr_id limit (filter (\<lambda>r. n < sr_id r) rows)
       in bindr (id_page sha sr_id id limit n rows) (\<lambda>p.
            Inr \<lparr>pg_items = pg_items p, pg_next = pg_next p,
                 sp_next_after = (if limit < length found then Some (sr_id (last (take limit found))) else None)\<rparr>))))"

section \<open>Schemas and observations\<close>

definition list_schema_definitions ::
  "(nat list \<Rightarrow> nat list) \<Rightarrow> ledger_tables data_service \<Rightarrow> nat \<Rightarrow> entity_type option \<Rightarrow>
     schema_status option \<Rightarrow> pystr option \<Rightarrow> error + schema_row page" where
  "list_schema_definitions sha svc limit entity status cursor =
     bindr (require_factory svc) (\<lambda>_.
     bindr (cursor_value sha cursor) (\<lambda>n.
     bindr (query svc) (\<lambda>d.
       id_page sha sd_id id limit n
         (filter (\<lambda>s. is_entity entity (sd_entity s) \<and>
            (case status of None \<Rightarrow> True | Some x \<Rightarrow> sd_status s = x)) (lt_schemas d)))))"

record observation_item =
  oi_id :: int
  oi_observed_at :: instant
  oi_status_code :: int
  oi_content_type :: pystr
  oi_bytes :: int
  oi_fingerprint :: pystr
  oi_parser_version :: "pystr option"
  oi_validation :: observation_status
  oi_created_at :: instant

definition observation_item_of :: "raw_observation \<Rightarrow> observation_item" where
  "observation_item_of r =
     \<lparr>oi_id = ro_id r, oi_observed_at = ro_observed_at r, oi_status_code = ro_status_code r,
      oi_content_type = ro_content_type r, oi_bytes = ro_bytes r, oi_fingerprint = ro_fingerprint r,
      oi_parser_version = ro_parser_version r, oi_validation = ro_validation r,
      oi_created_at = ro_created_at r\<rparr>"

definition list_observations ::
  "(nat list \<Rightarrow> nat list) \<Rightarrow> ledger_tables data_service \<Rightarrow> int \<Rightarrow> nat \<Rightarrow> pystr option \<Rightarrow>
     error + observation_item page" where
  "list_observations sha svc source limit cursor =
     (if source \<le> 0 then Inl (http_error 422 ''invalid_source_record_id'')
      else bindr (require_factory svc) (\<lambda>_.
        bindr (cursor_value sha cursor) (\<lambda>n.
        bindr (query svc) (\<lambda>d.
          if row_get sr_id source (lt_records d) = None then Inl (http_error 404 ''source_record_not_found'')
          else id_page sha ro_id observation_item_of limit n
            (filter (\<lambda>r. ro_record r = source) (lt_observations d))))))"

section \<open>Operations\<close>

record run_item =
  ri_id :: int
  ri_type :: pystr
  ri_provider :: pystr
  ri_status :: crawl_status
  ri_tasks :: int
  ri_succeeded :: int
  ri_failed :: int
  ri_started_at :: "instant option"
  ri_finished_at :: "instant option"
  ri_created_at :: instant

definition run_item_of :: "ledger_tables \<Rightarrow> crawl_run \<Rightarrow> run_item" where
  "run_item_of d r =
     \<lparr>ri_id = cr_id r, ri_type = cr_type r, ri_provider = cr_provider r, ri_status = cr_status r,
      ri_tasks = count_rows (\<lambda>t. ck_run t = cr_id r) (lt_tasks d),
      ri_succeeded = count_rows (\<lambda>t. ck_run t = cr_id r \<and> ck_status t = TaskSucceeded) (lt_tasks d),
      ri_failed = count_rows (\<lambda>t. ck_run t = cr_id r \<and> ck_status t = TaskFailed) (lt_tasks d),
      ri_started_at = cr_started_at r, ri_finished_at = cr_finished_at r, ri_created_at = cr_created_at r\<rparr>"

definition list_operational_runs ::
  "(nat list \<Rightarrow> nat list) \<Rightarrow> ledger_tables data_service \<Rightarrow> nat \<Rightarrow> crawl_status option \<Rightarrow>
     pystr option \<Rightarrow> error + run_item page" where
  "list_operational_runs sha svc limit status cursor =
     bindr (require_factory svc) (\<lambda>_.
     bindr (cursor_value sha cursor) (\<lambda>n.
     bindr (query svc) (\<lambda>d.
       id_page sha cr_id (run_item_of d) limit n
         (filter (\<lambda>r. case status of None \<Rightarrow> True | Some x \<Rightarrow> cr_status r = x) (lt_runs d)))))"

record task_item =
  tk_id :: int
  tk_run :: int
  tk_type :: pystr
  tk_status :: crawl_task_status
  tk_priority :: int
  tk_attempts :: int
  tk_error :: "pystr option"
  tk_available_at :: instant
  tk_updated_at :: instant

definition task_item_of :: "crawl_task \<Rightarrow> task_item" where
  "task_item_of t =
     \<lparr>tk_id = ck_id t, tk_run = ck_run t, tk_type = ck_type t, tk_status = ck_status t,
      tk_priority = ck_priority t, tk_attempts = ck_attempts t, tk_error = ck_error t,
      tk_available_at = ck_available_at t, tk_updated_at = ck_updated_at t\<rparr>"

definition list_operational_tasks ::
  "(nat list \<Rightarrow> nat list) \<Rightarrow> ledger_tables data_service \<Rightarrow> nat \<Rightarrow> int option \<Rightarrow>
     crawl_task_status option \<Rightarrow> pystr option \<Rightarrow> error + task_item page" where
  "list_operational_tasks sha svc limit run status cursor =
     bindr (require_factory svc) (\<lambda>_.
     bindr (cursor_value sha cursor) (\<lambda>n.
     bindr (query svc) (\<lambda>d.
       id_page sha ck_id task_item_of limit n
         (filter (\<lambda>t. (case run of None \<Rightarrow> True | Some i \<Rightarrow> ck_run t = i) \<and>
            (case status of None \<Rightarrow> True | Some x \<Rightarrow> ck_status t = x)) (lt_tasks d)))))"

record quarantine_item =
  qi_id :: int
  qi_entity :: entity_type
  qi_code :: pystr
  qi_status :: quarantine_status
  qi_first_failed :: instant
  qi_last_failed :: instant

definition quarantine_item_of :: "quarantine_row \<Rightarrow> quarantine_item" where
  "quarantine_item_of q =
     \<lparr>qi_id = qr_id q, qi_entity = qr_entity q, qi_code = qr_code q, qi_status = qr_status q,
      qi_first_failed = qr_first_failed q, qi_last_failed = qr_last_failed q\<rparr>"

definition list_quarantine_summaries ::
  "(nat list \<Rightarrow> nat list) \<Rightarrow> ledger_tables data_service \<Rightarrow> nat \<Rightarrow> entity_type option \<Rightarrow>
     quarantine_status option \<Rightarrow> pystr option \<Rightarrow> error + quarantine_item page" where
  "list_quarantine_summaries sha svc limit entity status cursor =
     bindr (require_factory svc) (\<lambda>_.
     bindr (cursor_value sha cursor) (\<lambda>n.
     bindr (query svc) (\<lambda>d.
       id_page sha qr_id quarantine_item_of limit n
         (filter (\<lambda>q. is_entity entity (qr_entity q) \<and>
            (case status of None \<Rightarrow> True | Some x \<Rightarrow> qr_status q = x)) (lt_quarantine d)))))"

record security_status =
  ss_shared_backend :: bool
  ss_identity_adapter :: bool
  ss_windows :: int
  ss_audits :: int
  ss_oldest :: "instant option"
  ss_latest :: "instant option"
  ss_retention_days :: int

text \<open>The two control tables: the limit windows, and the times of the audit rows.\<close>

definition consumer_security_status ::
  "bool \<Rightarrow> int \<Rightarrow> bool \<Rightarrow> ('w list \<times> instant list) data_service \<Rightarrow> error + security_status" where
  "consumer_security_status shared retention identity svc =
     bindr (require_factory svc) (\<lambda>_.
     bindr (query svc) (\<lambda>d.
       let times = snd d
       in Inr \<lparr>ss_shared_backend = shared, ss_identity_adapter = identity,
               ss_windows = int (length (fst d)), ss_audits = int (length times),
               ss_oldest = (if times = [] then None else Some (foldl min (hd times) times)),
               ss_latest = (if times = [] then None else Some (foldl max (hd times) times)),
               ss_retention_days = retention\<rparr>))"

section \<open>Reading the ledger to its end\<close>

definition ledger_ids_fit :: "ledger_tables \<Rightarrow> bool" where
  "ledger_ids_fit d \<longleftrightarrow>
     ids_fit sr_id (lt_records d) \<and> ids_fit cr_id (lt_runs d) \<and> ids_fit ck_id (lt_tasks d) \<and>
     ids_fit ro_id (lt_observations d) \<and> ids_fit sd_id (lt_schemas d) \<and> ids_fit qr_id (lt_quarantine d)"

lemma schemas_read:
  assumes "digest32 sha" and "0 < limit" and "ledger_ids_fit d"
  shows "\<exists>ps. read_pages (list_schema_definitions sha (Serving d) limit None None)
      (page_count limit (length (lt_schemas d))) None = Some (Inr ps) \<and>
    complete_reading limit (sort_key sd_id (lt_schemas d)) ps"
proof -
  have "ids_fit sd_id (lt_schemas d)" using assms(3) by (simp add: ledger_ids_fit_def)
  from route_read [OF route_fetch assms(1,2) this, where item = id]
  show ?thesis by (simp add: list_schema_definitions_def is_entity_def)
qed

lemma observations_read:
  assumes "digest32 sha" and "0 < limit" and "ledger_ids_fit d" and "0 < i" and "i \<in> sr_id ` set (lt_records d)"
  shows "\<exists>ps. read_pages (list_observations sha (Serving d) i limit)
      (page_count limit (length (filter (\<lambda>r. ro_record r = i) (lt_observations d)))) None = Some (Inr ps) \<and>
    complete_reading limit (map observation_item_of
      (sort_key ro_id (filter (\<lambda>r. ro_record r = i) (lt_observations d)))) ps"
proof -
  have fit: "ids_fit ro_id (filter (\<lambda>r. ro_record r = i) (lt_observations d))"
    using assms(3) by (auto simp: ledger_ids_fit_def intro: ids_fit_filter)
  show ?thesis
    by (rule route_read [OF route_fetch assms(1,2) fit])
      (use assms(4,5) in \<open>simp add: list_observations_def row_get_None\<close>)
qed

lemma operations_read:
  assumes "digest32 sha" and "0 < limit" and "ledger_ids_fit d"
  shows "(\<exists>ps. read_pages (list_operational_runs sha (Serving d) limit None)
      (page_count limit (length (lt_runs d))) None = Some (Inr ps) \<and>
      complete_reading limit (map (run_item_of d) (sort_key cr_id (lt_runs d))) ps) \<and>
    (\<exists>ps. read_pages (list_operational_tasks sha (Serving d) limit None None)
      (page_count limit (length (lt_tasks d))) None = Some (Inr ps) \<and>
      complete_reading limit (map task_item_of (sort_key ck_id (lt_tasks d))) ps) \<and>
    (\<exists>ps. read_pages (list_quarantine_summaries sha (Serving d) limit None None)
      (page_count limit (length (lt_quarantine d))) None = Some (Inr ps) \<and>
      complete_reading limit (map quarantine_item_of (sort_key qr_id (lt_quarantine d))) ps)"
proof (intro conjI)
  have fit: "ids_fit cr_id (lt_runs d)" "ids_fit ck_id (lt_tasks d)" "ids_fit qr_id (lt_quarantine d)"
    using assms(3) by (simp_all add: ledger_ids_fit_def)
  show "\<exists>ps. read_pages (list_operational_runs sha (Serving d) limit None)
      (page_count limit (length (lt_runs d))) None = Some (Inr ps) \<and>
      complete_reading limit (map (run_item_of d) (sort_key cr_id (lt_runs d))) ps"
    by (rule route_read [OF route_fetch assms(1,2) fit(1)]) (simp add: list_operational_runs_def)
  show "\<exists>ps. read_pages (list_operational_tasks sha (Serving d) limit None None)
      (page_count limit (length (lt_tasks d))) None = Some (Inr ps) \<and>
      complete_reading limit (map task_item_of (sort_key ck_id (lt_tasks d))) ps"
    by (rule route_read [OF route_fetch assms(1,2) fit(2)]) (simp add: list_operational_tasks_def)
  show "\<exists>ps. read_pages (list_quarantine_summaries sha (Serving d) limit None None)
      (page_count limit (length (lt_quarantine d))) None = Some (Inr ps) \<and>
      complete_reading limit (map quarantine_item_of (sort_key qr_id (lt_quarantine d))) ps"
    by (rule route_read [OF route_fetch assms(1,2) fit(3)])
      (simp add: list_quarantine_summaries_def is_entity_def)
qed

text \<open>The source list can be read with either start: the cursor of a page and its \<open>next_after_id\<close> agree.\<close>

lemma source_starts_agree:
  assumes "digest32 sha" and "ledger_ids_fit d"
    and "list_source_records sha (Serving d) limit after entity cursor = Inr p"
    and "sp_next_after p = Some i" and "0 < limit"
  shows "\<exists>c. pg_next p = Some c \<and>
    list_source_records sha (Serving d) limit 0 entity (Some c) =
    list_source_records sha (Serving d) limit i entity None"
proof -
  let ?rows = "filter (\<lambda>r. is_entity entity (sr_entity r)) (lt_records d)"
  obtain n where n: "source_start sha cursor after = Inr n"
    using assms(3) by (auto simp: list_source_records_def bindr_Inr)
  define found where "found = found_rows sr_id limit (filter (\<lambda>r. n < sr_id r) ?rows)"
  define r where "r = last (take limit found)"
  have more: "limit < length found" and i: "i = sr_id r"
    using assms(3,4) by (auto simp: list_source_records_def n bindr_Inr Let_def found_def r_def split: if_splits)
  have "take limit found \<noteq> []" using more assms(5) by auto
  then have "r \<in> set found" unfolding r_def by (meson in_set_takeD last_in_set)
  then have "r \<in> set (lt_records d)" by (auto simp: found_def found_rows_def dest: in_set_takeD)
  then have "0 < i" "i < 2 ^ 64"
    using assms(2) by (auto simp: i ledger_ids_fit_def ids_fit_def list_all_iff)
  then obtain c where c: "encode_cursor sha i = Inr c" "decode_cursor sha (Some c) = Inr i"
    using plain_round_trip [OF assms(1)] by blast
  have "id_page sha sr_id id limit n ?rows = Inr \<lparr>pg_items = map id (take limit found), pg_next = Some c\<rparr>"
    unfolding id_page_def serve_page_def found_def [symmetric] make_page_def Let_def r_def [symmetric]
    using more c(1) by (simp add: i)
  then have "pg_next p = Some c"
    using assms(3) by (auto simp: list_source_records_def n Let_def simp del: filter_filter)
  moreover have "list_source_records sha (Serving d) limit 0 entity (Some c) =
      list_source_records sha (Serving d) limit i entity None"
    by (simp add: list_source_records_def source_start_def cursor_value_def c(2))
  ultimately show ?thesis by blast
qed

end
