(* ===== verification/Ingest.thy ===== *)
theory Ingest
  imports Projection
begin

text \<open>
  The fixture ingestion of \<open>src/pixiv_yuri/ingest/service.py\<close>.  The clock readings of a run are the
  argument \<open>clk\<close>; \<open>row_time clk i k\<close> is reading \<open>k\<close> while request \<open>i\<close> is handled.  The whole run is one
  transaction of its caller.  The text of a caught exception and the object metadata are left out.
\<close>

section \<open>Reading a response\<close>

record fixture_response =
  fx_response :: raw_response
  fx_observed_at :: instant

record run_clock =
  started_clock :: instant
  finished_clock :: instant
  row_time :: "nat \<Rightarrow> nat \<Rightarrow> instant"

text \<open>\<open>except (FixtureProviderError, OSError, UnicodeError, ValueError)\<close>.\<close>

definition ingest_catches :: "error \<Rightarrow> bool" where
  "ingest_catches e \<longleftrightarrow> e = OsError \<or> e = ValueError"

definition success_status :: "int \<Rightarrow> bool" where
  "success_status s \<longleftrightarrow> 200 \<le> s \<and> s < 300"

text \<open>What a response is accepted as: its fingerprint and, under a policy, its validation.\<close>

definition accept_response ::
  "(pystr \<Rightarrow> pystr) \<Rightarrow> (nat list \<Rightarrow> pystr) \<Rightarrow> (pystr \<Rightarrow> error + json) \<Rightarrow>
     (schema_policy \<times> parser_registry) option \<Rightarrow> raw_response \<Rightarrow> error + pystr \<times> validation_item option" where
  "accept_response sha sha_bytes loads policy r =
     (if \<not> success_status (rr_status r) then Inl ValueError
      else bindr (case policy of
            None \<Rightarrow> Inr None
          | Some (p, reg) \<Rightarrow> bindr (validate_response sha sha_bytes loads p reg r) (\<lambda>v. Inr (Some v)))
        (\<lambda>v. bindr (json_value loads r) (\<lambda>payload.
             bindr (fingerprint_payload sha payload) (\<lambda>fp. Inr (fp, v)))))"

section \<open>Rows\<close>

definition new_source_record ::
  "pystr \<Rightarrow> acquisition_request \<Rightarrow> instant \<Rightarrow> int \<Rightarrow> source_record" where
  "new_source_record sys q t i =
     \<lparr>sr_id = i, sr_system = sys, sr_entity = ar_entity q, sr_source = ar_source q,
      sr_availability = UnknownAvailability, sr_first_seen = t, sr_last_seen = t\<rparr>"

definition get_or_create_source_record ::
  "pystr \<Rightarrow> acquisition_request \<Rightarrow> instant \<Rightarrow> source_record list \<Rightarrow> source_record \<times> source_record list" where
  "get_or_create_source_record sys q t rows =
     upsert_by sr_id source_key (sys, ar_entity q, ar_source q) id (new_source_record sys q t) rows"

definition update_availability :: "raw_response \<Rightarrow> instant \<Rightarrow> source_record \<Rightarrow> source_record" where
  "update_availability r t s =
     s\<lparr>sr_last_seen := t,
       sr_availability :=
         (if success_status (rr_status r) then Available
          else if rr_status r = 401 \<or> rr_status r = 403 then Restricted
          else if rr_status r = 404 \<or> rr_status r = 410 then Missing
          else UnknownAvailability)\<rparr>"

fun entity_text :: "entity_type \<Rightarrow> pystr" where
  "entity_text EtWork = lit ''work''"
| "entity_text EtAuthor = lit ''author''"
| "entity_text EtTagPage = lit ''tag_page''"
| "entity_text EtSearchPage = lit ''search_page''"

definition task_key :: "acquisition_request \<Rightarrow> pystr" where
  "task_key q = lit ''fixture:'' @ entity_text (ar_entity q) @ lit '':'' @ ar_source q"

definition open_task ::
  "run_clock \<Rightarrow> nat \<Rightarrow> int \<Rightarrow> source_record \<Rightarrow> acquisition_request \<Rightarrow> ledger_tables \<Rightarrow> int \<times> int \<times> ledger_tables"
  where
  "open_task clk i run s q d =
     (let tid = fresh_key ck_id (lt_tasks d); aid = fresh_key at_id (lt_attempts d)
      in (tid, aid, d\<lparr>
        lt_tasks := lt_tasks d @ [\<lparr>ck_id = tid, ck_run = run, ck_record = sr_id s,
          ck_type = lit ''fixture_fetch'', ck_key = task_key q, ck_status = TaskRunning, ck_priority = 0,
          ck_attempts = 1, ck_error = None, ck_available_at = started_clock clk,
          ck_updated_at = row_time clk i 0\<rparr>],
        lt_attempts := lt_attempts d @ [\<lparr>at_id = aid, at_task = tid, at_number = 1,
          at_status = AttemptRunning, at_http_status = None, at_error = None, at_bytes = None\<rparr>]\<rparr>))"

definition note_response :: "fixture_response \<Rightarrow> int \<Rightarrow> int \<Rightarrow> ledger_tables \<Rightarrow> ledger_tables" where
  "note_response f sid aid d =
     (let r = fx_response f
      in d\<lparr>lt_attempts := row_update at_id aid
             (\<lambda>a. a\<lparr>at_http_status := Some (rr_status r), at_bytes := Some (int (length (rr_body r)))\<rparr>)
             (lt_attempts d),
           lt_records := row_update sr_id sid (update_availability r (fx_observed_at f)) (lt_records d)\<rparr>)"

definition new_schema_row :: "entity_type \<Rightarrow> pystr \<Rightarrow> instant \<Rightarrow> int \<Rightarrow> schema_row" where
  "new_schema_row et fp t i =
     \<lparr>sd_id = i, sd_entity = et, sd_fingerprint = fp, sd_samples = 0, sd_status = SchemaDiscovered,
      sd_parser_min = None, sd_parser_max = None, sd_first_seen = t, sd_last_seen = t\<rparr>"

definition state_of :: "validation_state \<Rightarrow> observation_status" where
  "state_of v = (case v of Valid \<Rightarrow> ObsValid | Quarantined \<Rightarrow> ObsQuarantined)"

definition new_observation ::
  "(nat list \<Rightarrow> pystr) \<Rightarrow> fixture_response \<Rightarrow> pystr \<Rightarrow> validation_item option \<Rightarrow> int \<Rightarrow> int \<Rightarrow> instant \<Rightarrow>
     int \<Rightarrow> raw_observation" where
  "new_observation sha_bytes f fp v sid aid t i =
     (let r = fx_response f
      in \<lparr>ro_id = i, ro_record = sid, ro_attempt = aid, ro_observed_at = fx_observed_at f,
          ro_status_code = rr_status r, ro_content_type = rr_content_type r,
          ro_payload_sha = sha_bytes (rr_body r), ro_bytes = int (length (rr_body r)),
          ro_fingerprint = fp, ro_parser_version = Option.bind v vi_parser_version,
          ro_validation = (case v of None \<Rightarrow> ObsPending | Some x \<Rightarrow> state_of (vi_state x)),
          ro_created_at = t\<rparr>)"

text \<open>A known observation takes a validation only while it has none.\<close>

definition revalidate :: "validation_item option \<Rightarrow> raw_observation \<Rightarrow> raw_observation" where
  "revalidate v ob =
     (case v of
        None \<Rightarrow> ob
      | Some x \<Rightarrow> if ro_validation ob = ObsPending
                  then ob\<lparr>ro_validation := state_of (vi_state x), ro_parser_version := vi_parser_version x\<rparr>
                  else ob)"

definition seen_again :: "instant \<Rightarrow> bool \<Rightarrow> schema_row \<Rightarrow> schema_row" where
  "seen_again t created s =
     s\<lparr>sd_samples := sd_samples s + (if created then 1 else 0), sd_last_seen := max (sd_last_seen s) t\<rparr>"

text \<open>The stored observation, whether it and its schema are new, and the tables.\<close>

definition persist_response ::
  "(nat list \<Rightarrow> pystr) \<Rightarrow> run_clock \<Rightarrow> nat \<Rightarrow> fixture_response \<Rightarrow> pystr \<Rightarrow> validation_item option \<Rightarrow> int \<Rightarrow>
     int \<Rightarrow> ledger_tables \<Rightarrow> raw_observation \<times> bool \<times> bool \<times> ledger_tables" where
  "persist_response sha_bytes clk i f fp v sid aid d =
     (let r = fx_response f; t = fx_observed_at f; key = (rr_entity r, fp);
          okey = (sid, sha_bytes (rr_body r), t);
          schema_created = key \<notin> schema_key ` set (lt_schemas d);
          created = okey \<notin> observation_key ` set (lt_observations d);
          (ob, obs) = upsert_by ro_id observation_key okey (revalidate v)
            (new_observation sha_bytes f fp v sid aid (row_time clk i 1)) (lt_observations d);
          (s, schemas) = upsert_by sd_id schema_key key (seen_again t created)
            (\<lambda>j. seen_again t created (new_schema_row (rr_entity r) fp t j)) (lt_schemas d)
      in (ob, created, schema_created, d\<lparr>lt_observations := obs, lt_schemas := schemas\<rparr>))"

definition code_text :: "validation_code \<Rightarrow> pystr" where
  "code_text c =
     (case c of
        VcNonSuccessStatus \<Rightarrow> lit ''non_success_status''
      | VcUnknownSchema \<Rightarrow> lit ''unknown_schema''
      | VcSchemaRejected \<Rightarrow> lit ''schema_rejected''
      | VcSchemaApproved \<Rightarrow> lit ''schema_approved''
      | VcValidationError \<Rightarrow> lit ''validation_error'')"

definition new_quarantine ::
  "int option \<Rightarrow> int \<Rightarrow> entity_type \<Rightarrow> pystr \<Rightarrow> pystr \<Rightarrow> pystr option \<Rightarrow> instant \<Rightarrow> quarantine_row list \<Rightarrow>
     quarantine_row" where
  "new_quarantine ob aid et sid code detail t rows =
     \<lparr>qr_id = fresh_key qr_id rows, qr_observation = ob, qr_attempt = aid, qr_entity = et, qr_source = sid,
      qr_code = code, qr_detail = map_option (take 2000) detail, qr_status = QuarantineOpen,
      qr_first_failed = t, qr_last_failed = t\<rparr>"

definition persist_quarantine ::
  "run_clock \<Rightarrow> nat \<Rightarrow> raw_observation \<Rightarrow> int \<Rightarrow> validation_item option \<Rightarrow> ledger_tables \<Rightarrow> bool \<times> ledger_tables"
  where
  "persist_quarantine clk i ob aid v d =
     (case v of
        None \<Rightarrow> (False, d)
      | Some x \<Rightarrow>
          if vi_state x \<noteq> Quarantined \<or>
             list_ex (\<lambda>q. qr_observation q = Some (ro_id ob) \<and> qr_code q = code_text (vi_code x) \<and>
               qr_status q = QuarantineOpen) (lt_quarantine d)
          then (False, d)
          else (True, d\<lparr>lt_quarantine := lt_quarantine d @
            [new_quarantine (Some (ro_id ob)) aid (vi_entity x) (vi_source x) (code_text (vi_code x))
               (vi_detail x) (row_time clk i 3) (lt_quarantine d)]\<rparr>))"

definition close_task ::
  "run_clock \<Rightarrow> nat \<Rightarrow> crawl_task_status \<Rightarrow> attempt_status \<Rightarrow> pystr option \<Rightarrow> int \<Rightarrow> int \<Rightarrow> ledger_tables \<Rightarrow>
     ledger_tables" where
  "close_task clk i ts ats code tid aid d =
     d\<lparr>lt_tasks := row_update ck_id tid
         (\<lambda>t. t\<lparr>ck_status := ts, ck_error := code, ck_updated_at := row_time clk i 2\<rparr>) (lt_tasks d),
       lt_attempts := row_update at_id aid (\<lambda>a. a\<lparr>at_status := ats, at_error := code\<rparr>) (lt_attempts d)\<rparr>"

section \<open>One request\<close>

record ingest_outcome =
  oc_succeeded :: bool
  oc_created :: bool
  oc_schema_created :: bool
  oc_quarantine_added :: bool
  oc_quarantined :: bool

definition failed_outcome :: ingest_outcome where
  "failed_outcome =
     \<lparr>oc_succeeded = False, oc_created = False, oc_schema_created = False, oc_quarantine_added = True,
      oc_quarantined = False\<rparr>"

definition ingest_error :: pystr where
  "ingest_error = lit ''fixture_ingest_error''"

definition fail_request ::
  "run_clock \<Rightarrow> nat \<Rightarrow> acquisition_request \<Rightarrow> int \<Rightarrow> int \<Rightarrow> error \<Rightarrow> ledger_tables \<Rightarrow>
     error + ingest_outcome \<times> ledger_tables" where
  "fail_request clk i q tid aid e d =
     (if \<not> ingest_catches e then Inl e
      else let d' = close_task clk i TaskFailed AttemptFailed (Some ingest_error) tid aid d
        in Inr (failed_outcome, d'\<lparr>lt_quarantine := lt_quarantine d' @
             [new_quarantine None aid (ar_entity q) (ar_source q) ingest_error None (row_time clk i 3)
                (lt_quarantine d')]\<rparr>))"

definition complete_request ::
  "(nat list \<Rightarrow> pystr) \<Rightarrow> run_clock \<Rightarrow> nat \<Rightarrow> fixture_response \<Rightarrow> pystr \<Rightarrow> validation_item option \<Rightarrow> int \<Rightarrow>
     int \<Rightarrow> int \<Rightarrow> ledger_tables \<Rightarrow> ingest_outcome \<times> ledger_tables" where
  "complete_request sha_bytes clk i f fp v sid tid aid d =
     (let (ob, created, schema_created, d1) = persist_response sha_bytes clk i f fp v sid aid d;
          (added, d2) = persist_quarantine clk i ob aid v d1
      in (\<lparr>oc_succeeded = True, oc_created = created, oc_schema_created = schema_created,
           oc_quarantine_added = added,
           oc_quarantined = (case v of None \<Rightarrow> False | Some x \<Rightarrow> vi_state x = Quarantined)\<rparr>,
          close_task clk i TaskSucceeded AttemptSucceeded None tid aid d2))"

definition ingest_request ::
  "(pystr \<Rightarrow> pystr) \<Rightarrow> (nat list \<Rightarrow> pystr) \<Rightarrow> (pystr \<Rightarrow> error + json) \<Rightarrow>
     (schema_policy \<times> parser_registry) option \<Rightarrow> pystr \<Rightarrow> (acquisition_request \<Rightarrow> error + fixture_response) \<Rightarrow>
     run_clock \<Rightarrow> int \<Rightarrow> nat \<Rightarrow> acquisition_request \<Rightarrow> ledger_tables \<Rightarrow> error + ingest_outcome \<times> ledger_tables"
  where
  "ingest_request sha sha_bytes loads policy sys fetch clk run i q d =
     (let (s, records) = get_or_create_source_record sys q (started_clock clk) (lt_records d)
      in if (run, task_key q) \<in> (\<lambda>t. (ck_run t, ck_key t)) ` set (lt_tasks d) then Inl IntegrityError
         else let (tid, aid, d1) = open_task clk i run s q (d\<lparr>lt_records := records\<rparr>)
           in case fetch q of
                Inl e \<Rightarrow> fail_request clk i q tid aid e d1
              | Inr f \<Rightarrow>
                  let d2 = note_response f (sr_id s) aid d1
                  in case accept_response sha sha_bytes loads policy (fx_response f) of
                       Inl e \<Rightarrow> fail_request clk i q tid aid e d2
                     | Inr (fp, v) \<Rightarrow> Inr (complete_request sha_bytes clk i f fp v (sr_id s) tid aid d2))"

section \<open>The run\<close>

fun ingest_requests ::
  "(nat \<Rightarrow> acquisition_request \<Rightarrow> ledger_tables \<Rightarrow> error + ingest_outcome \<times> ledger_tables) \<Rightarrow> nat \<Rightarrow>
     acquisition_request list \<Rightarrow> ledger_tables \<Rightarrow> error + ingest_outcome list \<times> ledger_tables" where
  "ingest_requests handle i [] d = Inr ([], d)"
| "ingest_requests handle i (q # qs) d =
     bindr (handle i q d) (\<lambda>(oc, d1).
       bindr (ingest_requests handle (Suc i) qs d1) (\<lambda>(ocs, d2). Inr (oc # ocs, d2)))"

record ingest_result =
  ir_run :: int
  ir_tasks :: int
  ir_succeeded :: int
  ir_failed :: int
  ir_created :: int
  ir_duplicates :: int
  ir_schemas :: int
  ir_quarantines :: int

definition ingest_counts :: "int \<Rightarrow> ingest_outcome list \<Rightarrow> ingest_result" where
  "ingest_counts run ocs =
     \<lparr>ir_run = run, ir_tasks = int (length ocs), ir_succeeded = count_rows oc_succeeded ocs,
      ir_failed = count_rows (\<lambda>x. \<not> oc_succeeded x) ocs, ir_created = count_rows oc_created ocs,
      ir_duplicates = count_rows (\<lambda>x. oc_succeeded x \<and> \<not> oc_created x) ocs,
      ir_schemas = count_rows oc_schema_created ocs, ir_quarantines = count_rows oc_quarantine_added ocs\<rparr>"

text \<open>Responses are validated when there are both a policy and a registry.\<close>

definition policy_route ::
  "schema_policy option \<Rightarrow> parser_registry option \<Rightarrow> (schema_policy \<times> parser_registry) option" where
  "policy_route policy reg = (case (policy, reg) of (Some p, Some g) \<Rightarrow> Some (p, g) | _ \<Rightarrow> None)"

definition start_run :: "pystr \<Rightarrow> run_clock \<Rightarrow> ledger_tables \<Rightarrow> int \<times> ledger_tables" where
  "start_run sys clk d =
     (let run = fresh_key cr_id (lt_runs d)
      in (run, d\<lparr>lt_runs := lt_runs d @ [\<lparr>cr_id = run, cr_type = lit ''offline_fixture_ingest'',
           cr_provider = sys, cr_status = CrawlRunning, cr_started_at = Some (started_clock clk),
           cr_finished_at = None, cr_created_at = started_clock clk\<rparr>]\<rparr>))"

definition finish_run :: "run_clock \<Rightarrow> int \<Rightarrow> bool \<Rightarrow> ledger_tables \<Rightarrow> ledger_tables" where
  "finish_run clk run clean d =
     d\<lparr>lt_runs := row_update cr_id run
         (\<lambda>r. r\<lparr>cr_status := (if clean then CrawlCompleted else CrawlWithErrors),
                cr_finished_at := Some (finished_clock clk)\<rparr>) (lt_runs d)\<rparr>"

definition ingest_fixture_provider ::
  "(pystr \<Rightarrow> pystr) \<Rightarrow> (nat list \<Rightarrow> pystr) \<Rightarrow> (pystr \<Rightarrow> error + json) \<Rightarrow> schema_policy option \<Rightarrow>
     parser_registry option \<Rightarrow> pystr \<Rightarrow> (acquisition_request \<Rightarrow> error + fixture_response) \<Rightarrow>
     acquisition_request list \<Rightarrow> run_clock \<Rightarrow> ledger_tables \<Rightarrow> error + ingest_result \<times> ledger_tables" where
  "ingest_fixture_provider sha sha_bytes loads policy reg sys fetch qs clk d =
     (if (policy = None) \<noteq> (reg = None) then Inl ValueError
      else bindr (case policy of None \<Rightarrow> Inr () | Some p \<Rightarrow> ensure_policy_provider p sys) (\<lambda>_.
        let (run, d1) = start_run sys clk d
        in bindr (ingest_requests (ingest_request sha sha_bytes loads (policy_route policy reg) sys fetch clk
             run) 0 qs d1) (\<lambda>(ocs, d2).
           Inr (ingest_counts run ocs,
             finish_run clk run (list_all (\<lambda>x. oc_succeeded x \<and> \<not> oc_quarantined x) ocs) d2))))"

section \<open>What a request leads to\<close>

text \<open>What a request reads, without the tables.\<close>

definition request_reads ::
  "(pystr \<Rightarrow> pystr) \<Rightarrow> (nat list \<Rightarrow> pystr) \<Rightarrow> (pystr \<Rightarrow> error + json) \<Rightarrow>
     (schema_policy \<times> parser_registry) option \<Rightarrow> (acquisition_request \<Rightarrow> error + fixture_response) \<Rightarrow>
     acquisition_request \<Rightarrow> error + fixture_response \<times> pystr \<times> validation_item option" where
  "request_reads sha sha_bytes loads policy fetch q =
     bindr (fetch q) (\<lambda>f. bindr (accept_response sha sha_bytes loads policy (fx_response f)) (\<lambda>(fp, v).
       Inr (f, fp, v)))"

text \<open>The constructor of a response checks its status.\<close>

definition responses_valid :: "(acquisition_request \<Rightarrow> error + fixture_response) \<Rightarrow> bool" where
  "responses_valid fetch \<longleftrightarrow>
     (\<forall>q f. fetch q = Inr f \<longrightarrow> 100 \<le> rr_status (fx_response f) \<and> rr_status (fx_response f) \<le> 599)"

definition task_keys :: "ledger_tables \<Rightarrow> (int \<times> pystr) list" where
  "task_keys d = map (\<lambda>t. (ck_run t, ck_key t)) (lt_tasks d)"

interpretation source_rows: natural_upsert sr_id source_key "(sys, ar_entity q, ar_source q)" id
    "new_source_record sys q t" for sys q t
  by unfold_locales (simp_all add: new_source_record_def source_key_def)

interpretation observation_rows: natural_upsert ro_id observation_key
    "(sid, sha_bytes (rr_body (fx_response f)), fx_observed_at f)" "revalidate v"
    "new_observation sha_bytes f fp v sid aid t" for sid sha_bytes f v fp aid t
  by unfold_locales (simp_all add: new_observation_def observation_key_def revalidate_def Let_def
      split: option.split)

interpretation schema_rows: natural_upsert sd_id schema_key "(et, fp)" "seen_again t created"
    "\<lambda>j. seen_again t created (new_schema_row et fp t j)" for et fp t created
  by unfold_locales (simp_all add: seen_again_def new_schema_row_def schema_key_def)

text \<open>How many rows an upsert adds.\<close>

lemma length_upsert:
  "upsert_by pk nk k refresh new rows = (x, rows') \<Longrightarrow>
     length rows' = length rows + (if k \<in> nk ` set rows then 0 else 1)"
  by (auto simp: upsert_by_def Let_def find_None_iff find_Some_iff split: option.splits)

section \<open>Well-formed tables\<close>

lemma source_step_ok:
  assumes "get_or_create_source_record sys q t (lt_records d) = (s, rs)" and "ledger_tables_ok d"
  shows "ledger_tables_ok (d\<lparr>lt_records := rs\<rparr>)" and "sr_id s \<in> sr_id ` set rs"
proof -
  have u: "upsert_by sr_id source_key (sys, ar_entity q, ar_source q) id (new_source_record sys q t)
      (lt_records d) = (s, rs)" and k: "keys_ok sr_id source_key (lt_records d)"
    using assms by (simp_all add: get_or_create_source_record_def ledger_tables_ok_def)
  show "sr_id s \<in> sr_id ` set rs" by (rule source_rows.upsert_keeps_ids(2) [OF u k])
  show "ledger_tables_ok (d\<lparr>lt_records := rs\<rparr>)"
    using assms(2) source_rows.upsert_row(4) [OF u k] source_rows.upsert_keeps_ids(1) [OF u k]
    unfolding ledger_tables_ok_def by (auto simp: subset_iff cong: option.case_cong)
qed

lemma open_step_ok:
  assumes "open_task clk i run s q d = (tid, aid, d')" and "ledger_tables_ok d"
    and "run \<in> cr_id ` set (lt_runs d)" and "sr_id s \<in> sr_id ` set (lt_records d)"
    and "(run, task_key q) \<notin> set (task_keys d)"
  shows "ledger_tables_ok d'" and "aid \<in> at_id ` set (lt_attempts d')"
    and "lt_records d' = lt_records d" and "lt_runs d' = lt_runs d"
proof -
  have tid: "fresh_key ck_id (lt_tasks d) \<notin> ck_id ` set (lt_tasks d)"
    and aid: "fresh_key at_id (lt_attempts d) \<notin> at_id ` set (lt_attempts d)"
    by (rule fresh_key_notin)+
  have new: "(fresh_key ck_id (lt_tasks d), 1) \<notin> (\<lambda>a. (at_task a, at_number a)) ` set (lt_attempts d)"
    using assms(2) tid unfolding ledger_tables_ok_def by auto
  show "ledger_tables_ok d'" "aid \<in> at_id ` set (lt_attempts d')"
    "lt_records d' = lt_records d" "lt_runs d' = lt_runs d"
    using assms tid aid new
    unfolding ledger_tables_ok_def keys_ok_def open_task_def Let_def task_keys_def
    by (auto cong: option.case_cong)
qed

lemma note_step_ok:
  assumes "ledger_tables_ok d" and "100 \<le> rr_status (fx_response f)" and "rr_status (fx_response f) \<le> 599"
  shows "ledger_tables_ok (note_response f sid aid d)"
proof -
  let ?d = "note_response f sid aid d"
  have "map sr_id (lt_records ?d) = map sr_id (lt_records d)"
    "map source_key (lt_records ?d) = map source_key (lt_records d)"
    "map at_id (lt_attempts ?d) = map at_id (lt_attempts d)"
    "map (\<lambda>a. (at_task a, at_number a)) (lt_attempts ?d) =
       map (\<lambda>a. (at_task a, at_number a)) (lt_attempts d)"
    by (simp_all add: note_response_def Let_def update_availability_def source_key_def map_row_update_same)
  moreover from this have "sr_id ` set (lt_records ?d) = sr_id ` set (lt_records d)"
    "at_id ` set (lt_attempts ?d) = at_id ` set (lt_attempts d)"
    by (metis list.set_map)+
  moreover have "at_task a \<in> ck_id ` set (lt_tasks d) \<and>
      (case at_http_status a of None \<Rightarrow> True | Some s \<Rightarrow> 100 \<le> s \<and> s \<le> 599)"
    if "a \<in> set (lt_attempts ?d)" for a
    using that assms unfolding ledger_tables_ok_def
    by (auto simp: note_response_def Let_def set_row_update)
  moreover have "lt_tasks ?d = lt_tasks d" "lt_runs ?d = lt_runs d" "lt_observations ?d = lt_observations d"
    "lt_schemas ?d = lt_schemas d" "lt_quarantine ?d = lt_quarantine d"
    by (simp_all add: note_response_def Let_def)
  ultimately show ?thesis using assms(1) unfolding ledger_tables_ok_def keys_ok_def
    by (simp cong: option.case_cong)
qed

lemma persist_parts:
  assumes "persist_response sha_bytes clk i f fp v sid aid d = (ob, created, schema_created, d')"
  obtains obs x schemas where
    "upsert_by ro_id observation_key (sid, sha_bytes (rr_body (fx_response f)), fx_observed_at f)
       (revalidate v) (new_observation sha_bytes f fp v sid aid (row_time clk i 1)) (lt_observations d) =
       (ob, obs)"
    "upsert_by sd_id schema_key (rr_entity (fx_response f), fp) (seen_again (fx_observed_at f) created)
       (\<lambda>j. seen_again (fx_observed_at f) created
          (new_schema_row (rr_entity (fx_response f)) fp (fx_observed_at f) j)) (lt_schemas d) =
       (x, schemas)"
    "created \<longleftrightarrow> (sid, sha_bytes (rr_body (fx_response f)), fx_observed_at f) \<notin>
       observation_key ` set (lt_observations d)"
    "schema_created \<longleftrightarrow> (rr_entity (fx_response f), fp) \<notin> schema_key ` set (lt_schemas d)"
    "d' = d\<lparr>lt_observations := obs, lt_schemas := schemas\<rparr>"
  using assms by (auto simp: persist_response_def Let_def split: prod.splits)

lemma persist_step_ok:
  assumes p: "persist_response sha_bytes clk i f fp v sid aid d = (ob, created, schema_created, d')"
    and ok: "ledger_tables_ok d" and sid: "sid \<in> sr_id ` set (lt_records d)"
    and aid: "aid \<in> at_id ` set (lt_attempts d)"
    and st: "100 \<le> rr_status (fx_response f)" "rr_status (fx_response f) \<le> 599"
  shows "ledger_tables_ok d'" and "ro_id ob \<in> ro_id ` set (lt_observations d')"
proof -
  obtain obs x schemas where
    o: "upsert_by ro_id observation_key (sid, sha_bytes (rr_body (fx_response f)), fx_observed_at f)
       (revalidate v) (new_observation sha_bytes f fp v sid aid (row_time clk i 1)) (lt_observations d) =
       (ob, obs)"
    and s: "upsert_by sd_id schema_key (rr_entity (fx_response f), fp)
       (seen_again (fx_observed_at f) created)
       (\<lambda>j. seen_again (fx_observed_at f) created
          (new_schema_row (rr_entity (fx_response f)) fp (fx_observed_at f) j)) (lt_schemas d) = (x, schemas)"
    and d': "d' = d\<lparr>lt_observations := obs, lt_schemas := schemas\<rparr>"
    by (rule persist_parts [OF p])
  have ko: "keys_ok ro_id observation_key (lt_observations d)" and ks: "keys_ok sd_id schema_key (lt_schemas d)"
    using ok by (simp_all add: ledger_tables_ok_def)
  have obs_ok: "\<forall>r \<in> set obs. ro_record r \<in> sr_id ` set (lt_records d) \<and>
      ro_attempt r \<in> at_id ` set (lt_attempts d) \<and>
      100 \<le> ro_status_code r \<and> ro_status_code r \<le> 599 \<and> 0 \<le> ro_bytes r"
    by (rule observation_rows.upsert_all [OF o ko])
      (use ok sid aid st in \<open>auto simp: ledger_tables_ok_def new_observation_def Let_def revalidate_def
        split: option.splits\<close>)
  have schemas_ok: "\<forall>r \<in> set schemas. 0 \<le> sd_samples r"
    by (rule schema_rows.upsert_all [OF s ks])
      (use ok in \<open>auto simp: ledger_tables_ok_def seen_again_def new_schema_row_def\<close>)
  show "ledger_tables_ok d'"
    using ok obs_ok schemas_ok observation_rows.upsert_row(4) [OF o ko] schema_rows.upsert_row(4) [OF s ks]
      observation_rows.upsert_keeps_ids(1) [OF o ko]
    unfolding ledger_tables_ok_def d' by (auto simp: subset_iff split: option.splits)
  show "ro_id ob \<in> ro_id ` set (lt_observations d')"
    unfolding d' using observation_rows.upsert_keeps_ids(2) [OF o ko] by simp
qed

lemma quarantine_row_ok:
  assumes "ledger_tables_ok d" and "aid \<in> at_id ` set (lt_attempts d)"
    and "\<And>j. ob = Some j \<Longrightarrow> j \<in> ro_id ` set (lt_observations d)"
  shows "ledger_tables_ok (d\<lparr>lt_quarantine := lt_quarantine d @
    [new_quarantine ob aid et sid code detail t (lt_quarantine d)]\<rparr>)"
  using assms fresh_key_notin [of qr_id "lt_quarantine d"]
  unfolding ledger_tables_ok_def new_quarantine_def by (auto cong: option.case_cong split: option.split)

lemma quarantine_step_ok:
  assumes "persist_quarantine clk i ob aid v d = (added, d')" and "ledger_tables_ok d"
    and "aid \<in> at_id ` set (lt_attempts d)" and "ro_id ob \<in> ro_id ` set (lt_observations d)"
  shows "ledger_tables_ok d'"
  using assms quarantine_row_ok [OF assms(2,3), of "Some (ro_id ob)"]
  by (auto simp: persist_quarantine_def split: option.splits if_splits)

lemma close_step_ok:
  assumes "ledger_tables_ok d"
  shows "ledger_tables_ok (close_task clk i ts ats code tid aid d)"
proof -
  let ?d = "close_task clk i ts ats code tid aid d"
  have "map ck_id (lt_tasks ?d) = map ck_id (lt_tasks d)"
    "map (\<lambda>t. (ck_run t, ck_key t)) (lt_tasks ?d) = map (\<lambda>t. (ck_run t, ck_key t)) (lt_tasks d)"
    "map at_id (lt_attempts ?d) = map at_id (lt_attempts d)"
    "map (\<lambda>a. (at_task a, at_number a)) (lt_attempts ?d) =
       map (\<lambda>a. (at_task a, at_number a)) (lt_attempts d)"
    by (simp_all add: close_task_def map_row_update_same)
  moreover from this have "ck_id ` set (lt_tasks ?d) = ck_id ` set (lt_tasks d)"
    "at_id ` set (lt_attempts ?d) = at_id ` set (lt_attempts d)"
    by (metis list.set_map)+
  moreover have "at_task a \<in> ck_id ` set (lt_tasks d) \<and>
      (case at_http_status a of None \<Rightarrow> True | Some s \<Rightarrow> 100 \<le> s \<and> s \<le> 599)"
    if "a \<in> set (lt_attempts ?d)" for a
    using that assms unfolding ledger_tables_ok_def by (auto simp: close_task_def set_row_update)
  moreover have "ck_run t \<in> cr_id ` set (lt_runs d) \<and> ck_record t \<in> sr_id ` set (lt_records d) \<and>
      0 \<le> ck_priority t \<and> 0 \<le> ck_attempts t" if "t \<in> set (lt_tasks ?d)" for t
    using that assms unfolding ledger_tables_ok_def by (auto simp: close_task_def set_row_update)
  moreover have "lt_records ?d = lt_records d" "lt_runs ?d = lt_runs d"
    "lt_observations ?d = lt_observations d" "lt_schemas ?d = lt_schemas d"
    "lt_quarantine ?d = lt_quarantine d"
    by (simp_all add: close_task_def)
  ultimately show ?thesis using assms unfolding ledger_tables_ok_def keys_ok_def
    by (simp cong: option.case_cong)
qed

section \<open>The effect of one request\<close>

text \<open>What a handled request added, in rows, and that nothing else changed in number.\<close>

definition rows_added :: "ingest_outcome list \<Rightarrow> ledger_tables \<Rightarrow> ledger_tables \<Rightarrow> bool" where
  "rows_added ocs d d' \<longleftrightarrow>
     length (lt_tasks d') = length (lt_tasks d) + length ocs \<and>
     length (lt_attempts d') = length (lt_attempts d) + length ocs \<and>
     int (length (lt_observations d')) = int (length (lt_observations d)) + count_rows oc_created ocs \<and>
     int (length (lt_schemas d')) = int (length (lt_schemas d)) + count_rows oc_schema_created ocs \<and>
     int (length (lt_quarantine d')) =
       int (length (lt_quarantine d)) + count_rows oc_quarantine_added ocs"

lemma rows_added_refl: "rows_added [] d d"
  by (simp add: rows_added_def)

lemma rows_added_trans: "rows_added a d d1 \<Longrightarrow> rows_added b d1 d2 \<Longrightarrow> rows_added (a @ b) d d2"
  by (simp add: rows_added_def)

definition outcome_consistent :: "ingest_outcome \<Rightarrow> bool" where
  "outcome_consistent x \<longleftrightarrow> (oc_created x \<longrightarrow> oc_succeeded x) \<and> (oc_schema_created x \<longrightarrow> oc_succeeded x)"

lemma task_keys_update [simp]:
  "task_keys (d\<lparr>lt_records := x\<rparr>) = task_keys d" "task_keys (d\<lparr>lt_runs := y\<rparr>) = task_keys d"
  by (simp_all add: task_keys_def)

lemma open_step_rows:
  assumes "open_task clk i run s q d = (tid, aid, d')"
  shows "task_keys d' = task_keys d @ [(run, task_key q)]"
    and "length (lt_tasks d') = Suc (length (lt_tasks d))"
    and "length (lt_attempts d') = Suc (length (lt_attempts d))"
    and "lt_observations d' = lt_observations d" and "lt_schemas d' = lt_schemas d"
    and "lt_quarantine d' = lt_quarantine d"
  using assms by (auto simp: open_task_def Let_def task_keys_def)

lemma note_step_rows [simp]:
  "task_keys (note_response f sid aid d) = task_keys d"
  "length (lt_tasks (note_response f sid aid d)) = length (lt_tasks d)"
  "length (lt_attempts (note_response f sid aid d)) = length (lt_attempts d)"
  "at_id ` set (lt_attempts (note_response f sid aid d)) = at_id ` set (lt_attempts d)"
  "sr_id ` set (lt_records (note_response f sid aid d)) = sr_id ` set (lt_records d)"
  "lt_runs (note_response f sid aid d) = lt_runs d"
  "lt_observations (note_response f sid aid d) = lt_observations d"
  "lt_schemas (note_response f sid aid d) = lt_schemas d"
  "lt_quarantine (note_response f sid aid d) = lt_quarantine d"
  unfolding set_map [symmetric]
  by (simp_all add: note_response_def Let_def task_keys_def update_availability_def map_row_update_same)

lemma close_step_rows [simp]:
  "task_keys (close_task clk i ts ats code tid aid d) = task_keys d"
  "length (lt_tasks (close_task clk i ts ats code tid aid d)) = length (lt_tasks d)"
  "length (lt_attempts (close_task clk i ts ats code tid aid d)) = length (lt_attempts d)"
  "at_id ` set (lt_attempts (close_task clk i ts ats code tid aid d)) = at_id ` set (lt_attempts d)"
  "lt_runs (close_task clk i ts ats code tid aid d) = lt_runs d"
  "lt_records (close_task clk i ts ats code tid aid d) = lt_records d"
  "lt_observations (close_task clk i ts ats code tid aid d) = lt_observations d"
  "lt_schemas (close_task clk i ts ats code tid aid d) = lt_schemas d"
  "lt_quarantine (close_task clk i ts ats code tid aid d) = lt_quarantine d"
  unfolding set_map [symmetric] by (simp_all add: close_task_def task_keys_def map_row_update_same)

lemma persist_step_rows:
  assumes "persist_response sha_bytes clk i f fp v sid aid d = (ob, created, schema_created, d')"
  shows "length (lt_observations d') = length (lt_observations d) + (if created then 1 else 0)"
    and "length (lt_schemas d') = length (lt_schemas d) + (if schema_created then 1 else 0)"
    and "task_keys d' = task_keys d" and "lt_tasks d' = lt_tasks d" and "lt_attempts d' = lt_attempts d"
    and "lt_runs d' = lt_runs d" and "lt_records d' = lt_records d" and "lt_quarantine d' = lt_quarantine d"
proof -
  obtain obs x schemas where parts:
    "upsert_by ro_id observation_key (sid, sha_bytes (rr_body (fx_response f)), fx_observed_at f)
       (revalidate v) (new_observation sha_bytes f fp v sid aid (row_time clk i 1)) (lt_observations d) =
       (ob, obs)"
    "upsert_by sd_id schema_key (rr_entity (fx_response f), fp) (seen_again (fx_observed_at f) created)
       (\<lambda>j. seen_again (fx_observed_at f) created
          (new_schema_row (rr_entity (fx_response f)) fp (fx_observed_at f) j)) (lt_schemas d) =
       (x, schemas)"
    "created \<longleftrightarrow> (sid, sha_bytes (rr_body (fx_response f)), fx_observed_at f) \<notin>
       observation_key ` set (lt_observations d)"
    "schema_created \<longleftrightarrow> (rr_entity (fx_response f), fp) \<notin> schema_key ` set (lt_schemas d)"
    and d': "d' = d\<lparr>lt_observations := obs, lt_schemas := schemas\<rparr>"
    by (rule persist_parts [OF assms])
  show "length (lt_observations d') = length (lt_observations d) + (if created then 1 else 0)"
    using length_upsert [OF parts(1)] parts(3) d' by simp
  show "length (lt_schemas d') = length (lt_schemas d) + (if schema_created then 1 else 0)"
    using length_upsert [OF parts(2)] parts(4) d' by simp
  show "task_keys d' = task_keys d" "lt_tasks d' = lt_tasks d" "lt_attempts d' = lt_attempts d"
    "lt_runs d' = lt_runs d" "lt_records d' = lt_records d" "lt_quarantine d' = lt_quarantine d"
    by (simp_all add: d' task_keys_def)
qed

lemma quarantine_step_rows:
  assumes "persist_quarantine clk i ob aid v d = (added, d')"
  shows "length (lt_quarantine d') = length (lt_quarantine d) + (if added then 1 else 0)"
    and "task_keys d' = task_keys d" and "lt_tasks d' = lt_tasks d" and "lt_attempts d' = lt_attempts d"
    and "lt_runs d' = lt_runs d" and "lt_records d' = lt_records d"
    and "lt_observations d' = lt_observations d" and "lt_schemas d' = lt_schemas d"
  using assms by (auto simp: persist_quarantine_def task_keys_def split: option.splits if_splits)

lemma fail_request_ok:
  assumes "fail_request clk i q tid aid e d = Inr (oc, d')" and "ledger_tables_ok d"
    and "aid \<in> at_id ` set (lt_attempts d)"
  shows "ledger_tables_ok d'" and "oc = failed_outcome" and "ingest_catches e"
    and "task_keys d' = task_keys d" and "lt_runs d' = lt_runs d"
    and "length (lt_tasks d') = length (lt_tasks d)" and "length (lt_attempts d') = length (lt_attempts d)"
    and "lt_observations d' = lt_observations d" and "lt_schemas d' = lt_schemas d"
    and "length (lt_quarantine d') = Suc (length (lt_quarantine d))"
proof -
  let ?c = "close_task clk i TaskFailed AttemptFailed (Some ingest_error) tid aid d"
  have d': "d' = ?c\<lparr>lt_quarantine := lt_quarantine ?c @
      [new_quarantine None aid (ar_entity q) (ar_source q) ingest_error None (row_time clk i 3)
        (lt_quarantine ?c)]\<rparr>" and "oc = failed_outcome" "ingest_catches e"
    using assms(1) by (auto simp: fail_request_def Let_def split: if_splits)
  show "ledger_tables_ok d'"
    unfolding d' by (rule quarantine_row_ok [OF close_step_ok [OF assms(2)]]) (simp_all add: assms(3))
  show "oc = failed_outcome" "ingest_catches e" by fact+
  show "task_keys d' = task_keys d" "lt_runs d' = lt_runs d" "length (lt_tasks d') = length (lt_tasks d)"
    "length (lt_attempts d') = length (lt_attempts d)" "lt_observations d' = lt_observations d"
    "lt_schemas d' = lt_schemas d" "length (lt_quarantine d') = Suc (length (lt_quarantine d))"
    using close_step_rows(1) [of clk i TaskFailed AttemptFailed "Some ingest_error" tid aid d]
    by (simp_all add: d' task_keys_def)
qed

lemma complete_request_ok:
  assumes c: "complete_request sha_bytes clk i f fp v sid tid aid d = (oc, d')" and ok: "ledger_tables_ok d"
    and sid: "sid \<in> sr_id ` set (lt_records d)" and aid: "aid \<in> at_id ` set (lt_attempts d)"
    and st: "100 \<le> rr_status (fx_response f)" "rr_status (fx_response f) \<le> 599"
  shows "ledger_tables_ok d'" and "oc_succeeded oc"
    and "task_keys d' = task_keys d" and "lt_runs d' = lt_runs d"
    and "length (lt_tasks d') = length (lt_tasks d)" and "length (lt_attempts d') = length (lt_attempts d)"
    and "length (lt_observations d') = length (lt_observations d) + (if oc_created oc then 1 else 0)"
    and "length (lt_schemas d') = length (lt_schemas d) + (if oc_schema_created oc then 1 else 0)"
    and "length (lt_quarantine d') = length (lt_quarantine d) + (if oc_quarantine_added oc then 1 else 0)"
proof -
  obtain ob created schema_created d1 added d2 where
    p: "persist_response sha_bytes clk i f fp v sid aid d = (ob, created, schema_created, d1)"
    and a: "persist_quarantine clk i ob aid v d1 = (added, d2)"
    by (metis prod_cases4 surj_pair)
  have d': "d' = close_task clk i TaskSucceeded AttemptSucceeded None tid aid d2"
    and oc: "oc_succeeded oc" "oc_created oc = created" "oc_schema_created oc = schema_created"
      "oc_quarantine_added oc = added"
    using c by (auto simp: complete_request_def p a)
  note rows = persist_step_rows [OF p] quarantine_step_rows [OF a]
  have "ledger_tables_ok d2"
    by (rule quarantine_step_ok [OF a persist_step_ok(1) [OF p ok sid aid st]])
      (simp_all add: rows(5) aid persist_step_ok(2) [OF p ok sid aid st])
  then show "ledger_tables_ok d'" unfolding d' by (rule close_step_ok)
  show "oc_succeeded oc" by (fact oc)
  show "task_keys d' = task_keys d" "lt_runs d' = lt_runs d"
    "length (lt_tasks d') = length (lt_tasks d)" "length (lt_attempts d') = length (lt_attempts d)"
    "length (lt_observations d') = length (lt_observations d) + (if oc_created oc then 1 else 0)"
    "length (lt_schemas d') = length (lt_schemas d) + (if oc_schema_created oc then 1 else 0)"
    "length (lt_quarantine d') = length (lt_quarantine d) + (if oc_quarantine_added oc then 1 else 0)"
    by (simp_all add: d' oc rows)
qed

lemma ingest_request_cases:
  assumes "ingest_request sha sha_bytes loads policy sys fetch clk run i q d = Inr (oc, d')"
  obtains (failed) s records tid aid d1 e d2 where
    "get_or_create_source_record sys q (started_clock clk) (lt_records d) = (s, records)"
    "(run, task_key q) \<notin> set (task_keys d)"
    "open_task clk i run s q (d\<lparr>lt_records := records\<rparr>) = (tid, aid, d1)"
    "request_reads sha sha_bytes loads policy fetch q = Inl e"
    "d2 = d1 \<or> (\<exists>f. fetch q = Inr f \<and> d2 = note_response f (sr_id s) aid d1)"
    "fail_request clk i q tid aid e d2 = Inr (oc, d')"
  | (completed) s records tid aid d1 f fp v where
    "get_or_create_source_record sys q (started_clock clk) (lt_records d) = (s, records)"
    "(run, task_key q) \<notin> set (task_keys d)"
    "open_task clk i run s q (d\<lparr>lt_records := records\<rparr>) = (tid, aid, d1)"
    "request_reads sha sha_bytes loads policy fetch q = Inr (f, fp, v)" "fetch q = Inr f"
    "complete_request sha_bytes clk i f fp v (sr_id s) tid aid (note_response f (sr_id s) aid d1) = (oc, d')"
proof -
  obtain s records where g: "get_or_create_source_record sys q (started_clock clk) (lt_records d) = (s, records)"
    by (metis surj_pair)
  obtain tid aid d1 where o: "open_task clk i run s q (d\<lparr>lt_records := records\<rparr>) = (tid, aid, d1)"
    by (metis prod_cases3)
  have new: "(run, task_key q) \<notin> set (task_keys d)"
    using assms by (auto simp: ingest_request_def g task_keys_def split: if_splits)
  have body: "(case fetch q of
        Inl e \<Rightarrow> fail_request clk i q tid aid e d1
      | Inr f \<Rightarrow>
          (case accept_response sha sha_bytes loads policy (fx_response f) of
            Inl e \<Rightarrow> fail_request clk i q tid aid e (note_response f (sr_id s) aid d1)
          | Inr (fp, v) \<Rightarrow> Inr (complete_request sha_bytes clk i f fp v (sr_id s) tid aid
              (note_response f (sr_id s) aid d1)))) = Inr (oc, d')"
    using assms unfolding ingest_request_def g Let_def by (simp add: o split: if_splits)
  show thesis
  proof (cases "fetch q")
    case (Inl e)
    with body show ?thesis by (intro failed [OF g new o]) (auto simp: request_reads_def)
  next
    case f: (Inr f)
    show ?thesis
    proof (cases "accept_response sha sha_bytes loads policy (fx_response f)")
      case (Inl e)
      with f body show ?thesis
        by (intro failed [OF g new o, of e "note_response f (sr_id s) aid d1"])
          (auto simp: request_reads_def)
    next
      case (Inr a)
      with f body show ?thesis
        by (cases a) (auto intro!: completed [OF g new o] simp: request_reads_def)
    qed
  qed
qed

text \<open>One request keeps the tables well formed and adds exactly what its outcome says.\<close>

lemma ingest_request_effect:
  assumes q: "ingest_request sha sha_bytes loads policy sys fetch clk run i q d = Inr (oc, d')"
    and ok: "ledger_tables_ok d" and run: "run \<in> cr_id ` set (lt_runs d)" and valid: "responses_valid fetch"
  shows "ledger_tables_ok d'" and "lt_runs d' = lt_runs d"
    and "task_keys d' = task_keys d @ [(run, task_key q)]" and "rows_added [oc] d d'"
    and "oc_succeeded oc \<longleftrightarrow> (\<exists>r. request_reads sha sha_bytes loads policy fetch q = Inr r)"
    and "outcome_consistent oc"
proof -
  have "ledger_tables_ok d' \<and> lt_runs d' = lt_runs d \<and>
      task_keys d' = task_keys d @ [(run, task_key q)] \<and> rows_added [oc] d d' \<and>
      (oc_succeeded oc \<longleftrightarrow> (\<exists>r. request_reads sha sha_bytes loads policy fetch q = Inr r)) \<and>
      outcome_consistent oc"
  proof (cases rule: ingest_request_cases [OF q])
    case c: (1 s records tid aid d1 e d2)
    let ?d = "d\<lparr>lt_records := records\<rparr>"
    have o: "ledger_tables_ok d1" "aid \<in> at_id ` set (lt_attempts d1)" "lt_records d1 = records"
      "lt_runs d1 = lt_runs d"
      using open_step_ok [OF c(3) source_step_ok(1) [OF c(1) ok]] run source_step_ok(2) [OF c(1) ok] c(2)
      by simp_all
    have n: "ledger_tables_ok d2" "aid \<in> at_id ` set (lt_attempts d2)" "lt_runs d2 = lt_runs d"
      "task_keys d2 = task_keys d1" "length (lt_tasks d2) = length (lt_tasks d1)"
      "length (lt_attempts d2) = length (lt_attempts d1)" "lt_observations d2 = lt_observations d1"
      "lt_schemas d2 = lt_schemas d1" "lt_quarantine d2 = lt_quarantine d1"
      using c(5) o note_step_ok [OF o(1)] valid by (auto simp: responses_valid_def)
    show ?thesis
      using fail_request_ok [OF c(6) n(1,2)] n open_step_rows [OF c(3)] c(4)
      by (simp add: rows_added_def failed_outcome_def outcome_consistent_def)
  next
    case c: (2 s records tid aid d1 f fp v)
    let ?d = "d\<lparr>lt_records := records\<rparr>" and ?n = "note_response f (sr_id s) aid d1"
    have o: "ledger_tables_ok d1" "aid \<in> at_id ` set (lt_attempts d1)" "lt_records d1 = records"
      "lt_runs d1 = lt_runs d"
      using open_step_ok [OF c(3) source_step_ok(1) [OF c(1) ok]] run source_step_ok(2) [OF c(1) ok] c(2)
      by simp_all
    have st: "100 \<le> rr_status (fx_response f)" "rr_status (fx_response f) \<le> 599"
      using valid c(5) by (auto simp: responses_valid_def)
    have "sr_id s \<in> sr_id ` set (lt_records ?n)" "aid \<in> at_id ` set (lt_attempts ?n)"
      using source_step_ok(2) [OF c(1) ok] o by simp_all
    note e = complete_request_ok [OF c(6) note_step_ok [OF o(1) st] this st]
    show ?thesis
      using e o(4) open_step_rows [OF c(3)] c(4)
      by (simp add: rows_added_def outcome_consistent_def)
  qed
  then show "ledger_tables_ok d'" "lt_runs d' = lt_runs d"
    "task_keys d' = task_keys d @ [(run, task_key q)]" "rows_added [oc] d d'"
    "oc_succeeded oc \<longleftrightarrow> (\<exists>r. request_reads sha sha_bytes loads policy fetch q = Inr r)"
    "outcome_consistent oc" by blast+
qed

end
