(* ===== verification/IngestRuns.thy ===== *)
theory IngestRuns
  imports Ingest
begin

text \<open>
  Whole runs of the fixture ingestion: what a run reports against what the tables gained, and a
  second run of the same fixtures.
\<close>

section \<open>Nothing stored is lost\<close>

definition ledger_grows :: "ledger_tables \<Rightarrow> ledger_tables \<Rightarrow> bool" where
  "ledger_grows d d' \<longleftrightarrow>
     key_pairs sr_id source_key (lt_records d) \<subseteq> key_pairs sr_id source_key (lt_records d') \<and>
     key_pairs ro_id observation_key (lt_observations d) \<subseteq>
       key_pairs ro_id observation_key (lt_observations d') \<and>
     schema_key ` set (lt_schemas d) \<subseteq> schema_key ` set (lt_schemas d') \<and>
     set (lt_quarantine d) \<subseteq> set (lt_quarantine d')"

lemma ledger_grows_refl [simp]: "ledger_grows d d"
  by (simp add: ledger_grows_def)

lemma ledger_grows_trans: "ledger_grows d d1 \<Longrightarrow> ledger_grows d1 d2 \<Longrightarrow> ledger_grows d d2"
  unfolding ledger_grows_def by (meson subset_trans)

text \<open>What a ledger holds of a request that was read.\<close>

definition request_stored ::
  "(nat list \<Rightarrow> pystr) \<Rightarrow> pystr \<Rightarrow> acquisition_request \<Rightarrow> fixture_response \<times> pystr \<times> validation_item option \<Rightarrow>
     ledger_tables \<Rightarrow> bool" where
  "request_stored sha_bytes sys q r d \<longleftrightarrow>
     (case r of (f, fp, v) \<Rightarrow>
        (rr_entity (fx_response f), fp) \<in> schema_key ` set (lt_schemas d) \<and>
        (\<exists>sid oid. (sid, (sys, ar_entity q, ar_source q)) \<in> key_pairs sr_id source_key (lt_records d) \<and>
          (oid, (sid, sha_bytes (rr_body (fx_response f)), fx_observed_at f)) \<in>
            key_pairs ro_id observation_key (lt_observations d) \<and>
          (\<forall>x. v = Some x \<longrightarrow> vi_state x = Quarantined \<longrightarrow>
            (\<exists>y \<in> set (lt_quarantine d). qr_observation y = Some oid \<and> qr_code y = code_text (vi_code x) \<and>
               qr_status y = QuarantineOpen))))"

lemma request_stored_mono:
  assumes "request_stored sha_bytes sys q r d" and "ledger_grows d d'"
  shows "request_stored sha_bytes sys q r d'"
proof -
  obtain f fp v where r: "r = (f, fp, v)" by (cases r)
  from assms(1) obtain sid oid where
    "(rr_entity (fx_response f), fp) \<in> schema_key ` set (lt_schemas d)"
    "(sid, (sys, ar_entity q, ar_source q)) \<in> key_pairs sr_id source_key (lt_records d)"
    "(oid, (sid, sha_bytes (rr_body (fx_response f)), fx_observed_at f)) \<in>
       key_pairs ro_id observation_key (lt_observations d)"
    "\<forall>x. v = Some x \<longrightarrow> vi_state x = Quarantined \<longrightarrow> (\<exists>y \<in> set (lt_quarantine d).
       qr_observation y = Some oid \<and> qr_code y = code_text (vi_code x) \<and> qr_status y = QuarantineOpen)"
    by (auto simp: request_stored_def r)
  with assms(2) have
    "(rr_entity (fx_response f), fp) \<in> schema_key ` set (lt_schemas d')"
    "(sid, (sys, ar_entity q, ar_source q)) \<in> key_pairs sr_id source_key (lt_records d')"
    "(oid, (sid, sha_bytes (rr_body (fx_response f)), fx_observed_at f)) \<in>
       key_pairs ro_id observation_key (lt_observations d')"
    "\<forall>x. v = Some x \<longrightarrow> vi_state x = Quarantined \<longrightarrow> (\<exists>y \<in> set (lt_quarantine d').
       qr_observation y = Some oid \<and> qr_code y = code_text (vi_code x) \<and> qr_status y = QuarantineOpen)"
    unfolding ledger_grows_def by (simp_all add: subset_iff) blast
  then show ?thesis unfolding request_stored_def r prod.case by blast
qed

lemma key_pairs_row_update:
  "(\<And>r. pk (g r) = pk r) \<Longrightarrow> (\<And>r. nk (g r) = nk r) \<Longrightarrow>
     key_pairs pk nk (row_update pk i g rows) = key_pairs pk nk rows"
  unfolding key_pairs_def set_map [symmetric] by (simp add: map_row_update_same)

lemma note_step_grows: "key_pairs sr_id source_key (lt_records (note_response f sid aid d)) =
    key_pairs sr_id source_key (lt_records d)"
  by (simp add: note_response_def Let_def key_pairs_row_update update_availability_def source_key_def)

lemma fail_request_grows: "fail_request clk i q tid aid e d = Inr (oc, d') \<Longrightarrow> ledger_grows d d'"
  by (auto simp: fail_request_def Let_def ledger_grows_def split: if_splits)

lemma quarantine_step_stores:
  assumes "persist_quarantine clk i ob aid v d = (added, d')"
  shows "set (lt_quarantine d) \<subseteq> set (lt_quarantine d')"
    and "v = Some x \<Longrightarrow> vi_state x = Quarantined \<Longrightarrow> \<exists>y \<in> set (lt_quarantine d').
      qr_observation y = Some (ro_id ob) \<and> qr_code y = code_text (vi_code x) \<and> qr_status y = QuarantineOpen"
    and "v = Some x \<Longrightarrow> y \<in> set (lt_quarantine d) \<Longrightarrow> qr_observation y = Some (ro_id ob) \<Longrightarrow>
      qr_code y = code_text (vi_code x) \<Longrightarrow> qr_status y = QuarantineOpen \<Longrightarrow> \<not> added"
    and "v = None \<or> (\<exists>x. v = Some x \<and> vi_state x \<noteq> Quarantined) \<Longrightarrow> \<not> added"
  using assms
  by (auto simp: persist_quarantine_def list_ex_iff new_quarantine_def split: option.splits if_splits)

lemma source_step_grows:
  assumes "get_or_create_source_record sys q t (lt_records d) = (s, rs)" and "ledger_tables_ok d"
  shows "key_pairs sr_id source_key (lt_records d) \<subseteq> key_pairs sr_id source_key rs"
    and "(sr_id s, (sys, ar_entity q, ar_source q)) \<in> key_pairs sr_id source_key rs"
proof -
  have u: "upsert_by sr_id source_key (sys, ar_entity q, ar_source q) id (new_source_record sys q t)
      (lt_records d) = (s, rs)" and k: "keys_ok sr_id source_key (lt_records d)"
    using assms by (simp_all add: get_or_create_source_record_def ledger_tables_ok_def)
  show "key_pairs sr_id source_key (lt_records d) \<subseteq> key_pairs sr_id source_key rs"
    by (rule source_rows.upsert_row(5) [OF u k])
  show "(sr_id s, (sys, ar_entity q, ar_source q)) \<in> key_pairs sr_id source_key rs"
    using source_rows.upsert_row(1,2) [OF u k] by (force simp: key_pairs_def)
qed

lemma persist_step_stores:
  assumes p: "persist_response sha_bytes clk i f fp v sid aid d = (ob, created, schema_created, d')"
    and ok: "ledger_tables_ok d"
  shows "key_pairs ro_id observation_key (lt_observations d) \<subseteq>
      key_pairs ro_id observation_key (lt_observations d')"
    and "(ro_id ob, (sid, sha_bytes (rr_body (fx_response f)), fx_observed_at f)) \<in>
      key_pairs ro_id observation_key (lt_observations d')"
    and "schema_key ` set (lt_schemas d) \<subseteq> schema_key ` set (lt_schemas d')"
    and "(rr_entity (fx_response f), fp) \<in> schema_key ` set (lt_schemas d')"
    and "created \<longleftrightarrow> (sid, sha_bytes (rr_body (fx_response f)), fx_observed_at f) \<notin>
       observation_key ` set (lt_observations d)"
    and "schema_created \<longleftrightarrow> (rr_entity (fx_response f), fp) \<notin> schema_key ` set (lt_schemas d)"
proof -
  obtain obs x schemas where
    o: "upsert_by ro_id observation_key (sid, sha_bytes (rr_body (fx_response f)), fx_observed_at f)
       (revalidate v) (new_observation sha_bytes f fp v sid aid (row_time clk i 1)) (lt_observations d) =
       (ob, obs)"
    and s: "upsert_by sd_id schema_key (rr_entity (fx_response f), fp)
       (seen_again (fx_observed_at f) created)
       (\<lambda>j. seen_again (fx_observed_at f) created
          (new_schema_row (rr_entity (fx_response f)) fp (fx_observed_at f) j)) (lt_schemas d) = (x, schemas)"
    and c: "created \<longleftrightarrow> (sid, sha_bytes (rr_body (fx_response f)), fx_observed_at f) \<notin>
       observation_key ` set (lt_observations d)"
      "schema_created \<longleftrightarrow> (rr_entity (fx_response f), fp) \<notin> schema_key ` set (lt_schemas d)"
    and d': "d' = d\<lparr>lt_observations := obs, lt_schemas := schemas\<rparr>"
    by (rule persist_parts [OF p])
  have ko: "keys_ok ro_id observation_key (lt_observations d)" and ks: "keys_ok sd_id schema_key (lt_schemas d)"
    using ok by (simp_all add: ledger_tables_ok_def)
  show "key_pairs ro_id observation_key (lt_observations d) \<subseteq>
      key_pairs ro_id observation_key (lt_observations d')"
    unfolding d' using observation_rows.upsert_row(5) [OF o ko] by simp
  show "(ro_id ob, (sid, sha_bytes (rr_body (fx_response f)), fx_observed_at f)) \<in>
      key_pairs ro_id observation_key (lt_observations d')"
    unfolding d' using observation_rows.upsert_row(1,2) [OF o ko] by (force simp: key_pairs_def)
  show "schema_key ` set (lt_schemas d) \<subseteq> schema_key ` set (lt_schemas d')"
    unfolding d' using image_mono [OF schema_rows.upsert_row(5) [OF s ks], of snd]
    by (simp add: key_pairs_def image_image)
  show "(rr_entity (fx_response f), fp) \<in> schema_key ` set (lt_schemas d')"
    unfolding d' using schema_rows.upsert_row(1,2) [OF s ks] by (force simp: image_iff)
  show "created \<longleftrightarrow> (sid, sha_bytes (rr_body (fx_response f)), fx_observed_at f) \<notin>
      observation_key ` set (lt_observations d)"
    "schema_created \<longleftrightarrow> (rr_entity (fx_response f), fp) \<notin> schema_key ` set (lt_schemas d)"
    by (fact c)+
qed

lemma key_pairs_unique:
  "keys_ok pk nk rows \<Longrightarrow> (i, k) \<in> key_pairs pk nk rows \<Longrightarrow> (j, k) \<in> key_pairs pk nk rows \<Longrightarrow> i = j"
  using row_key_eq [of nk rows] by (auto simp: keys_ok_def key_pairs_def)

lemma complete_request_grows:
  assumes c: "complete_request sha_bytes clk i f fp v sid tid aid d = (oc, d')" and ok: "ledger_tables_ok d"
    and pair: "(sid, (sys, ar_entity q, ar_source q)) \<in> key_pairs sr_id source_key (lt_records d)"
    and aid: "aid \<in> at_id ` set (lt_attempts d)"
    and st: "100 \<le> rr_status (fx_response f)" "rr_status (fx_response f) \<le> 599"
  shows "ledger_grows d d'" and "request_stored sha_bytes sys q (f, fp, v) d'"
    and "request_stored sha_bytes sys q (f, fp, v) d \<Longrightarrow>
      \<not> oc_created oc \<and> \<not> oc_schema_created oc \<and> \<not> oc_quarantine_added oc"
    and "oc_quarantined oc \<longleftrightarrow> (\<exists>x. v = Some x \<and> vi_state x = Quarantined)"
proof -
  obtain ob created schema_created d1 added d2 where
    p: "persist_response sha_bytes clk i f fp v sid aid d = (ob, created, schema_created, d1)"
    and a: "persist_quarantine clk i ob aid v d1 = (added, d2)"
    by (metis prod_cases4 surj_pair)
  have d': "d' = close_task clk i TaskSucceeded AttemptSucceeded None tid aid d2"
    and oc: "oc_created oc = created" "oc_schema_created oc = schema_created" "oc_quarantine_added oc = added"
      "oc_quarantined oc \<longleftrightarrow> (\<exists>x. v = Some x \<and> vi_state x = Quarantined)"
    using c by (auto simp: complete_request_def p a split: option.splits)
  have sid: "sid \<in> sr_id ` set (lt_records d)" using pair by (auto simp: key_pairs_def)
  note rows = persist_step_rows [OF p] quarantine_step_rows [OF a]
  note stores = persist_step_stores [OF p ok]
  have ok1: "ledger_tables_ok d1" by (rule persist_step_ok(1) [OF p ok sid aid st])
  show "ledger_grows d d'"
    using stores(1,3) quarantine_step_stores(1) [OF a] by (simp add: ledger_grows_def d' rows)
  show "request_stored sha_bytes sys q (f, fp, v) d'"
  proof -
    have "(rr_entity (fx_response f), fp) \<in> schema_key ` set (lt_schemas d')"
      using stores(4) by (simp add: d' rows)
    moreover have "(sid, (sys, ar_entity q, ar_source q)) \<in> key_pairs sr_id source_key (lt_records d')"
      using pair by (simp add: d' rows)
    moreover have "(ro_id ob, (sid, sha_bytes (rr_body (fx_response f)), fx_observed_at f)) \<in>
        key_pairs ro_id observation_key (lt_observations d')"
      using stores(2) by (simp add: d' rows)
    moreover have "\<exists>y \<in> set (lt_quarantine d'). qr_observation y = Some (ro_id ob) \<and>
        qr_code y = code_text (vi_code x) \<and> qr_status y = QuarantineOpen"
      if "v = Some x" "vi_state x = Quarantined" for x
      using quarantine_step_stores(2) [OF a that] by (simp add: d')
    ultimately show ?thesis unfolding request_stored_def prod.case by blast
  qed
  show "oc_quarantined oc \<longleftrightarrow> (\<exists>x. v = Some x \<and> vi_state x = Quarantined)" by (fact oc)
  assume "request_stored sha_bytes sys q (f, fp, v) d"
  then obtain sid' oid where schema: "(rr_entity (fx_response f), fp) \<in> schema_key ` set (lt_schemas d)"
    and rec: "(sid', (sys, ar_entity q, ar_source q)) \<in> key_pairs sr_id source_key (lt_records d)"
    and obs: "(oid, (sid', sha_bytes (rr_body (fx_response f)), fx_observed_at f)) \<in>
      key_pairs ro_id observation_key (lt_observations d)"
    and quar: "\<And>x. v = Some x \<Longrightarrow> vi_state x = Quarantined \<Longrightarrow> \<exists>y \<in> set (lt_quarantine d).
      qr_observation y = Some oid \<and> qr_code y = code_text (vi_code x) \<and> qr_status y = QuarantineOpen"
    unfolding request_stored_def prod.case by blast
  have "keys_ok sr_id source_key (lt_records d)" "keys_ok ro_id observation_key (lt_observations d1)"
    using ok ok1 by (simp_all add: ledger_tables_ok_def)
  then have eq: "sid' = sid" "oid = ro_id ob"
    using key_pairs_unique [OF _ rec pair] key_pairs_unique [OF _ _ stores(2), of oid] obs stores(1) by blast+
  have "(sid, sha_bytes (rr_body (fx_response f)), fx_observed_at f) \<in> observation_key ` set (lt_observations d)"
    using obs eq(1) by (auto simp: key_pairs_def)
  then have "\<not> created" "\<not> schema_created" using stores(5,6) schema by simp_all
  moreover have "\<not> added"
  proof (cases "\<exists>x. v = Some x \<and> vi_state x = Quarantined")
    case True
    then obtain x where x: "v = Some x" "vi_state x = Quarantined" by blast
    from quar [OF x] obtain y where "y \<in> set (lt_quarantine d1)" "qr_observation y = Some (ro_id ob)"
      "qr_code y = code_text (vi_code x)" "qr_status y = QuarantineOpen"
      by (auto simp: rows(8) eq)
    then show ?thesis by (rule quarantine_step_stores(3) [OF a x(1)])
  next
    case False
    then show ?thesis using quarantine_step_stores(4) [OF a] by (cases v) auto
  qed
  ultimately show "\<not> oc_created oc \<and> \<not> oc_schema_created oc \<and> \<not> oc_quarantine_added oc"
    by (simp add: oc)
qed

text \<open>One request, in the terms of what it read.\<close>

definition needs_review :: "error + fixture_response \<times> pystr \<times> validation_item option \<Rightarrow> bool" where
  "needs_review r \<longleftrightarrow>
     (case r of Inl e \<Rightarrow> True | Inr (f, fp, v) \<Rightarrow> (\<exists>x. v = Some x \<and> vi_state x = Quarantined))"

lemma ingest_request_grows:
  assumes q: "ingest_request sha sha_bytes loads policy sys fetch clk run i q d = Inr (oc, d')"
    and ok: "ledger_tables_ok d" and run: "run \<in> cr_id ` set (lt_runs d)" and valid: "responses_valid fetch"
  shows "ledger_grows d d'"
    and "oc_succeeded oc \<and> \<not> oc_quarantined oc \<longleftrightarrow>
      \<not> needs_review (request_reads sha sha_bytes loads policy fetch q)"
    and "case request_reads sha sha_bytes loads policy fetch q of
        Inl e \<Rightarrow> ingest_catches e \<and> oc = failed_outcome
      | Inr r \<Rightarrow> request_stored sha_bytes sys q r d' \<and> (request_stored sha_bytes sys q r d \<longrightarrow>
          \<not> oc_created oc \<and> \<not> oc_schema_created oc \<and> \<not> oc_quarantine_added oc)"
proof -
  have "ledger_grows d d' \<and>
      (oc_succeeded oc \<and> \<not> oc_quarantined oc \<longleftrightarrow>
        \<not> needs_review (request_reads sha sha_bytes loads policy fetch q)) \<and>
      (case request_reads sha sha_bytes loads policy fetch q of
        Inl e \<Rightarrow> ingest_catches e \<and> oc = failed_outcome
      | Inr r \<Rightarrow> request_stored sha_bytes sys q r d' \<and> (request_stored sha_bytes sys q r d \<longrightarrow>
          \<not> oc_created oc \<and> \<not> oc_schema_created oc \<and> \<not> oc_quarantine_added oc))"
  proof (cases rule: ingest_request_cases [OF q])
    case c: (1 s records tid aid d1 e d2)
    have o: "ledger_tables_ok d1" "aid \<in> at_id ` set (lt_attempts d1)" "lt_records d1 = records"
      using open_step_ok [OF c(3) source_step_ok(1) [OF c(1) ok]] run source_step_ok(2) [OF c(1) ok] c(2)
      by simp_all
    have "ledger_grows d d1"
      using source_step_grows(1) [OF c(1) ok] o(3) open_step_rows [OF c(3)] by (simp add: ledger_grows_def)
    moreover have "ledger_grows d1 d2" using c(5) note_step_grows by (auto simp: ledger_grows_def)
    moreover have "ledger_tables_ok d2" "aid \<in> at_id ` set (lt_attempts d2)"
      using c(5) o note_step_ok [OF o(1)] valid by (auto simp: responses_valid_def)
    ultimately show ?thesis
      using fail_request_grows [OF c(6)] fail_request_ok(2,3) [OF c(6)] ledger_grows_trans c(4)
      by (simp add: needs_review_def failed_outcome_def)
  next
    case c: (2 s records tid aid d1 f fp v)
    let ?n = "note_response f (sr_id s) aid d1"
    have o: "ledger_tables_ok d1" "aid \<in> at_id ` set (lt_attempts d1)" "lt_records d1 = records"
      using open_step_ok [OF c(3) source_step_ok(1) [OF c(1) ok]] run source_step_ok(2) [OF c(1) ok] c(2)
      by simp_all
    have st: "100 \<le> rr_status (fx_response f)" "rr_status (fx_response f) \<le> 599"
      using valid c(5) by (auto simp: responses_valid_def)
    have n: "ledger_tables_ok ?n" "aid \<in> at_id ` set (lt_attempts ?n)"
      and pair: "(sr_id s, (sys, ar_entity q, ar_source q)) \<in> key_pairs sr_id source_key (lt_records ?n)"
      using note_step_ok [OF o(1) st] o source_step_grows(2) [OF c(1) ok] by (simp_all add: note_step_grows)
    have g: "ledger_grows d ?n"
      using source_step_grows(1) [OF c(1) ok] o(3) open_step_rows [OF c(3)]
      by (simp add: ledger_grows_def note_step_grows)
    have sid: "sr_id s \<in> sr_id ` set (lt_records ?n)"
      using source_step_ok(2) [OF c(1) ok] o(3) by simp
    note e = complete_request_grows [OF c(6) n(1) pair n(2) st]
      and s = complete_request_ok(2) [OF c(6) n(1) sid n(2) st]
    show ?thesis
      using e(2-4) s c(4) ledger_grows_trans [OF g e(1)] request_stored_mono [OF _ g]
      by (auto simp: needs_review_def)
  qed
  then show "ledger_grows d d'"
    "oc_succeeded oc \<and> \<not> oc_quarantined oc \<longleftrightarrow>
      \<not> needs_review (request_reads sha sha_bytes loads policy fetch q)"
    "case request_reads sha sha_bytes loads policy fetch q of
        Inl e \<Rightarrow> ingest_catches e \<and> oc = failed_outcome
      | Inr r \<Rightarrow> request_stored sha_bytes sys q r d' \<and> (request_stored sha_bytes sys q r d \<longrightarrow>
          \<not> oc_created oc \<and> \<not> oc_schema_created oc \<and> \<not> oc_quarantine_added oc)" by blast+
qed

lemma ingest_request_total:
  assumes "(run, task_key q) \<notin> set (task_keys d)"
    and "\<And>e. request_reads sha sha_bytes loads policy fetch q = Inl e \<Longrightarrow> ingest_catches e"
  obtains oc d' where "ingest_request sha sha_bytes loads policy sys fetch clk run i q d = Inr (oc, d')"
proof -
  obtain s records where g: "get_or_create_source_record sys q (started_clock clk) (lt_records d) = (s, records)"
    by (metis surj_pair)
  obtain tid aid d1 where o: "open_task clk i run s q (d\<lparr>lt_records := records\<rparr>) = (tid, aid, d1)"
    by (metis prod_cases3)
  have new: "(run, task_key q) \<notin> (\<lambda>t. (ck_run t, ck_key t)) ` set (lt_tasks d)"
    using assms(1) by (simp add: task_keys_def)
  have "\<exists>r. ingest_request sha sha_bytes loads policy sys fetch clk run i q d = Inr r"
    using assms(2) new unfolding ingest_request_def g Let_def prod.case o if_not_P [OF new]
    by (auto simp: request_reads_def fail_request_def Let_def split: sum.split prod.split)
  then show thesis using that by (metis surj_pair)
qed

section \<open>Runs\<close>

lemma ingest_requests_effect:
  assumes "ingest_requests (ingest_request sha sha_bytes loads policy sys fetch clk run) i qs d = Inr (ocs, d')"
    and "ledger_tables_ok d" and "run \<in> cr_id ` set (lt_runs d)" and "responses_valid fetch"
  shows "ledger_tables_ok d' \<and> lt_runs d' = lt_runs d \<and> ledger_grows d d' \<and>
     task_keys d' = task_keys d @ map (\<lambda>q. (run, task_key q)) qs \<and> rows_added ocs d d' \<and>
     length ocs = length qs \<and> list_all outcome_consistent ocs \<and>
     map oc_succeeded ocs = map (\<lambda>q. is_ok (request_reads sha sha_bytes loads policy fetch q)) qs \<and>
     (list_all (\<lambda>x. oc_succeeded x \<and> \<not> oc_quarantined x) ocs \<longleftrightarrow>
        list_all (\<lambda>q. \<not> needs_review (request_reads sha sha_bytes loads policy fetch q)) qs)"
  using assms(1-3)
proof (induction qs arbitrary: i d ocs)
  case Nil
  then show ?case by (simp add: rows_added_refl)
next
  case (Cons q qs)
  from Cons.prems(1) obtain oc d1 ocs1 where
    q: "ingest_request sha sha_bytes loads policy sys fetch clk run i q d = Inr (oc, d1)"
    and r: "ingest_requests (ingest_request sha sha_bytes loads policy sys fetch clk run) (Suc i) qs d1 =
      Inr (ocs1, d')" and ocs: "ocs = oc # ocs1"
    by (auto simp: bindr_Inr)
  note e = ingest_request_effect [OF q Cons.prems(2,3) assms(4)]
    and g = ingest_request_grows [OF q Cons.prems(2,3) assms(4)]
  have run: "run \<in> cr_id ` set (lt_runs d1)" using Cons.prems(3) e(2) by simp
  note IH = Cons.IH [OF r e(1) run]
  have "rows_added ([oc] @ ocs1) d d'" using IH by (intro rows_added_trans [OF e(4)]) blast
  moreover have "ledger_grows d d'" using IH by (intro ledger_grows_trans [OF g(1)]) blast
  moreover have "oc_succeeded oc \<longleftrightarrow> is_ok (request_reads sha sha_bytes loads policy fetch q)"
    using e(5) by (auto simp: is_ok_def split: sum.split)
  ultimately show ?case
    using IH e(2,3,6) g(2) by (simp add: ocs) 
qed

lemma ingest_requests_stored:
  assumes "ingest_requests (ingest_request sha sha_bytes loads policy sys fetch clk run) i qs d = Inr (ocs, d')"
    and "ledger_tables_ok d" and "run \<in> cr_id ` set (lt_runs d)" and "responses_valid fetch" and "q \<in> set qs"
  shows "case request_reads sha sha_bytes loads policy fetch q of
      Inl e \<Rightarrow> ingest_catches e | Inr r \<Rightarrow> request_stored sha_bytes sys q r d'"
  using assms(1-3,5)
proof (induction qs arbitrary: i d ocs)
  case Nil
  then show ?case by simp
next
  case (Cons q' qs)
  from Cons.prems(1) obtain oc d1 ocs1 where
    q: "ingest_request sha sha_bytes loads policy sys fetch clk run i q' d = Inr (oc, d1)"
    and r: "ingest_requests (ingest_request sha sha_bytes loads policy sys fetch clk run) (Suc i) qs d1 =
      Inr (ocs1, d')"
    by (auto simp: bindr_Inr)
  note e = ingest_request_effect [OF q Cons.prems(2,3) assms(4)]
    and g = ingest_request_grows [OF q Cons.prems(2,3) assms(4)]
  have run: "run \<in> cr_id ` set (lt_runs d1)" using Cons.prems(3) e(2) by simp
  show ?case
  proof (cases "q = q'")
    case True
    have "ledger_grows d1 d'" using ingest_requests_effect [OF r e(1) run assms(4)] by blast
    then show ?thesis using g(3) True request_stored_mono by (auto split: sum.splits)
  next
    case False
    then show ?thesis using Cons.IH [OF r e(1) run] Cons.prems(4) by simp
  qed
qed

text \<open>A ledger that already holds what the requests read gains nothing from them.\<close>

lemma ingest_requests_again:
  assumes "\<And>q. q \<in> set qs \<Longrightarrow> case request_reads sha sha_bytes loads policy fetch q of
      Inl e \<Rightarrow> ingest_catches e | Inr r \<Rightarrow> request_stored sha_bytes sys q r d"
    and "ledger_tables_ok d" and "run \<in> cr_id ` set (lt_runs d)" and "responses_valid fetch"
    and "distinct (map task_key qs)" and "\<And>q. q \<in> set qs \<Longrightarrow> (run, task_key q) \<notin> set (task_keys d)"
  obtains ocs d' where
    "ingest_requests (ingest_request sha sha_bytes loads policy sys fetch clk run) i qs d = Inr (ocs, d')"
    "list_all (\<lambda>x. \<not> oc_created x \<and> \<not> oc_schema_created x \<and> oc_quarantine_added x = (\<not> oc_succeeded x)) ocs"
proof -
  have "\<exists>ocs d'. ingest_requests (ingest_request sha sha_bytes loads policy sys fetch clk run) i qs d =
      Inr (ocs, d') \<and>
      list_all (\<lambda>x. \<not> oc_created x \<and> \<not> oc_schema_created x \<and> oc_quarantine_added x = (\<not> oc_succeeded x)) ocs"
    using assms(1-3,5,6)
  proof (induction qs arbitrary: i d)
    case Nil
    then show ?case by simp
  next
    case (Cons q qs)
    have "\<And>e. request_reads sha sha_bytes loads policy fetch q = Inl e \<Longrightarrow> ingest_catches e"
      using Cons.prems(1) [of q] by auto
    then obtain oc d1 where q: "ingest_request sha sha_bytes loads policy sys fetch clk run i q d = Inr (oc, d1)"
      using ingest_request_total Cons.prems(5) [of q] by (metis list.set_intros(1))
    note e = ingest_request_effect [OF q Cons.prems(2,3) assms(4)]
      and g = ingest_request_grows [OF q Cons.prems(2,3) assms(4)]
    have stored: "case request_reads sha sha_bytes loads policy fetch q' of
        Inl e \<Rightarrow> ingest_catches e | Inr r \<Rightarrow> request_stored sha_bytes sys q' r d1" if "q' \<in> set qs" for q'
      using Cons.prems(1) [of q'] that request_stored_mono [OF _ g(1)] by (auto split: sum.splits)
    have new: "(run, task_key q') \<notin> set (task_keys d1)" if "q' \<in> set qs" for q'
      using Cons.prems(4) Cons.prems(5) [of q'] that by (auto simp: e(3) image_iff)
    have oc: "\<not> oc_created oc \<and> \<not> oc_schema_created oc \<and> oc_quarantine_added oc = (\<not> oc_succeeded oc)"
      using g(3) Cons.prems(1) [of q] e(5)
      by (cases "request_reads sha sha_bytes loads policy fetch q") (auto simp: failed_outcome_def)
    have "run \<in> cr_id ` set (lt_runs d1)" "distinct (map task_key qs)"
      using Cons.prems(3,4) e(2) by simp_all
    from Cons.IH [OF stored e(1) this new, of "Suc i"] obtain ocs d' where
      "ingest_requests (ingest_request sha sha_bytes loads policy sys fetch clk run) (Suc i) qs d1 = Inr (ocs, d')"
      "list_all (\<lambda>x. \<not> oc_created x \<and> \<not> oc_schema_created x \<and> oc_quarantine_added x = (\<not> oc_succeeded x)) ocs"
      by blast
    then show ?case using q oc by simp
  qed
  then show thesis using that by blast
qed

text \<open>A run of requests returns exactly when no key repeats and no error escapes.\<close>

lemma ingest_requests_total:
  assumes "distinct (map task_key qs)" and "\<And>q. q \<in> set qs \<Longrightarrow> (run, task_key q) \<notin> set (task_keys d)"
    and "\<forall>q \<in> set qs. \<forall>e. request_reads sha sha_bytes loads policy fetch q = Inl e \<longrightarrow> ingest_catches e"
    and "ledger_tables_ok d" and "run \<in> cr_id ` set (lt_runs d)" and "responses_valid fetch"
  shows "\<exists>ocs d'. ingest_requests (ingest_request sha sha_bytes loads policy sys fetch clk run) i qs d =
      Inr (ocs, d')"
  using assms(1-5)
proof (induction qs arbitrary: i d)
  case Nil
  then show ?case by simp
next
  case (Cons q qs)
  obtain oc d1 where q: "ingest_request sha sha_bytes loads policy sys fetch clk run i q d = Inr (oc, d1)"
    using ingest_request_total [of run q d] Cons.prems(2) [of q] Cons.prems(3) by (metis list.set_intros(1))
  note e = ingest_request_effect [OF q Cons.prems(4,5) assms(6)]
  have "(run, task_key q') \<notin> set (task_keys d1)" if "q' \<in> set qs" for q'
    using Cons.prems(1) Cons.prems(2) [of q'] that by (auto simp: e(3) image_iff)
  moreover have "run \<in> cr_id ` set (lt_runs d1)" using Cons.prems(5) e(2) by simp
  moreover have "distinct (map task_key qs)"
    "\<forall>q \<in> set qs. \<forall>e. request_reads sha sha_bytes loads policy fetch q = Inl e \<longrightarrow> ingest_catches e"
    using Cons.prems(1,3) by simp_all
  ultimately obtain ocs d2 where
    "ingest_requests (ingest_request sha sha_bytes loads policy sys fetch clk run) (Suc i) qs d1 = Inr (ocs, d2)"
    using Cons.IH [of d1 "Suc i"] e(1) by blast
  then show ?case using q by simp
qed

lemma start_run_ok:
  assumes "start_run sys clk d = (run, d1)" and "ledger_tables_ok d"
  shows "ledger_tables_ok d1" and "run \<in> cr_id ` set (lt_runs d1)" and "task_keys d1 = task_keys d"
    and "(run, k) \<notin> set (task_keys d1)" and "rows_added [] d d1" and "ledger_grows d d1"
    and "length (lt_runs d1) = Suc (length (lt_runs d))"
proof -
  have new: "fresh_key cr_id (lt_runs d) \<notin> cr_id ` set (lt_runs d)" by (rule fresh_key_notin)
  show "ledger_tables_ok d1" "run \<in> cr_id ` set (lt_runs d1)" "task_keys d1 = task_keys d"
    "(run, k) \<notin> set (task_keys d1)" "rows_added [] d d1" "ledger_grows d d1"
    "length (lt_runs d1) = Suc (length (lt_runs d))"
    using assms new unfolding ledger_tables_ok_def start_run_def Let_def
    by (auto simp: task_keys_def rows_added_def ledger_grows_def cong: option.case_cong)
qed

lemma finish_run_ok:
  assumes "ledger_tables_ok d"
  shows "ledger_tables_ok (finish_run clk run clean d)"
    and "rows_added ocs d0 (finish_run clk run clean d) = rows_added ocs d0 d"
    and "lt_observations (finish_run clk run clean d) = lt_observations d"
    and "task_keys (finish_run clk run clean d) = task_keys d"
    and "request_stored sha_bytes sys q r (finish_run clk run clean d) = request_stored sha_bytes sys q r d"
    and "length (lt_runs (finish_run clk run clean d)) = length (lt_runs d)"
    and "run \<in> cr_id ` set (lt_runs d) \<Longrightarrow> \<exists>r \<in> set (lt_runs (finish_run clk run clean d)).
       cr_id r = run \<and> cr_status r = (if clean then CrawlCompleted else CrawlWithErrors)"
proof -
  let ?d = "finish_run clk run clean d"
  have ids: "map cr_id (lt_runs ?d) = map cr_id (lt_runs d)"
    by (simp add: finish_run_def map_row_update_same)
  then have "cr_id ` set (lt_runs ?d) = cr_id ` set (lt_runs d)" by (metis list.set_map)
  moreover have "lt_records ?d = lt_records d" "lt_tasks ?d = lt_tasks d" "lt_attempts ?d = lt_attempts d"
    "lt_observations ?d = lt_observations d" "lt_schemas ?d = lt_schemas d"
    "lt_quarantine ?d = lt_quarantine d"
    by (simp_all add: finish_run_def)
  ultimately show "ledger_tables_ok ?d" "rows_added ocs d0 ?d = rows_added ocs d0 d"
    "lt_observations ?d = lt_observations d" "task_keys ?d = task_keys d"
    "request_stored sha_bytes sys q r ?d = request_stored sha_bytes sys q r d"
    using assms ids unfolding ledger_tables_ok_def
    by (simp_all add: rows_added_def task_keys_def request_stored_def cong: option.case_cong)
  show "length (lt_runs ?d) = length (lt_runs d)" by (simp add: finish_run_def)
  assume "run \<in> cr_id ` set (lt_runs d)"
  then obtain r where "r \<in> set (lt_runs d)" "cr_id r = run" by blast
  then show "\<exists>r \<in> set (lt_runs ?d). cr_id r = run \<and>
      cr_status r = (if clean then CrawlCompleted else CrawlWithErrors)"
    by (intro bexI [of _ "r\<lparr>cr_status := (if clean then CrawlCompleted else CrawlWithErrors),
        cr_finished_at := Some (finished_clock clk)\<rparr>"]) (auto simp: finish_run_def set_row_update)
qed

lemma ingest_fixture_provider_cases:
  assumes "ingest_fixture_provider sha sha_bytes loads policy reg sys fetch qs clk d = Inr (res, d')"
  obtains run d1 ocs d2 where
    "(policy = None) = (reg = None)"
    "(case policy of None \<Rightarrow> Inr () | Some p \<Rightarrow> ensure_policy_provider p sys) = Inr ()"
    "start_run sys clk d = (run, d1)"
    "ingest_requests (ingest_request sha sha_bytes loads (policy_route policy reg) sys fetch clk run) 0 qs d1 =
       Inr (ocs, d2)"
    "res = ingest_counts run ocs"
    "d' = finish_run clk run (list_all (\<lambda>x. oc_succeeded x \<and> \<not> oc_quarantined x) ocs) d2"
proof -
  obtain run d1 where s: "start_run sys clk d = (run, d1)" by (metis surj_pair)
  have guard: "\<not> ((policy = None) \<noteq> (reg = None))"
    using assms unfolding ingest_fixture_provider_def by (auto split: if_splits)
  from assms have rest: "bindr (case policy of None \<Rightarrow> Inr () | Some p \<Rightarrow> ensure_policy_provider p sys) (\<lambda>_.
      bindr (ingest_requests (ingest_request sha sha_bytes loads (policy_route policy reg) sys fetch clk run) 0
        qs d1) (\<lambda>(ocs, d2). Inr (ingest_counts run ocs,
          finish_run clk run (list_all (\<lambda>x. oc_succeeded x \<and> \<not> oc_quarantined x) ocs) d2))) = Inr (res, d')"
    unfolding ingest_fixture_provider_def if_not_P [OF guard] s Let_def prod.case .
  then show thesis using that guard s by (auto simp: bindr_Inr)
qed

lemma count_rows_not: "count_rows (\<lambda>x. \<not> P x) xs = int (length xs) - count_rows P xs"
  by (induction xs) simp_all

lemma count_rows_map: "map P xs = map Q ys \<Longrightarrow> count_rows P xs = count_rows Q ys"
proof (induction xs arbitrary: ys)
  case (Cons x xs)
  then show ?case by (cases ys) auto
qed simp

lemma count_rows_diff:
  "list_all outcome_consistent xs \<Longrightarrow>
     count_rows oc_created xs + count_rows (\<lambda>x. oc_succeeded x \<and> \<not> oc_created x) xs = count_rows oc_succeeded xs"
  by (induction xs) (auto simp: outcome_consistent_def)

lemma ingest_fixture_provider_total:
  assumes "ledger_tables_ok d" and "responses_valid fetch"
    and "(policy = None) = (reg = None)"
    and "case policy of None \<Rightarrow> True | Some p \<Rightarrow> sys = sy_provider p"
    and "distinct (map task_key qs)"
    and "\<forall>q \<in> set qs. \<forall>e. request_reads sha sha_bytes loads (policy_route policy reg) fetch q = Inl e \<longrightarrow>
      ingest_catches e"
  shows "\<exists>res d'. ingest_fixture_provider sha sha_bytes loads policy reg sys fetch qs clk d = Inr (res, d')"
proof -
  obtain run d1 where s: "start_run sys clk d = (run, d1)" by (metis surj_pair)
  note st = start_run_ok [OF s assms(1)]
  obtain ocs d2 where "ingest_requests (ingest_request sha sha_bytes loads (policy_route policy reg) sys fetch
      clk run) 0 qs d1 = Inr (ocs, d2)"
    using ingest_requests_total [OF assms(5) st(4) assms(6) st(1,2) assms(2)] by blast
  moreover have "(case policy of None \<Rightarrow> Inr () | Some p \<Rightarrow> ensure_policy_provider p sys) = Inr ()"
    using assms(4) by (auto simp: ensure_policy_provider_def split: option.splits)
  ultimately show ?thesis using assms(3) by (simp add: ingest_fixture_provider_def s)
qed

section \<open>Properties\<close>

text \<open>A fixture, and a ledger with one run of it.\<close>

definition sample_fixture :: "acquisition_request \<Rightarrow> error + fixture_response" where
  "sample_fixture q = Inr \<lparr>fx_response = \<lparr>rr_provider = lit ''fx'', rr_entity = EtWork, rr_source = lit ''w'',
     rr_status = 200, rr_content_type = lit ''application/json'', rr_body = lit ''{}''\<rparr>, fx_observed_at = 5\<rparr>"

definition sample_clock :: run_clock where
  "sample_clock = \<lparr>started_clock = 9, finished_clock = 11, row_time = (\<lambda>i k. 10)\<rparr>"

definition sample_requests :: "acquisition_request list" where
  "sample_requests = [\<lparr>ar_entity = EtWork, ar_source = lit ''w''\<rparr>,
     \<lparr>ar_entity = EtWork, ar_source = lit ''v''\<rparr>]"

definition empty_ledger :: ledger_tables where
  "empty_ledger = \<lparr>lt_records = [], lt_runs = [], lt_tasks = [], lt_attempts = [], lt_observations = [],
     lt_schemas = [], lt_quarantine = []\<rparr>"

lemma empty_ledger_ok: "ledger_tables_ok empty_ledger"
  by (simp add: ledger_tables_ok_def empty_ledger_def keys_ok_def)

lemma sample_fixture_valid: "responses_valid sample_fixture"
  by (simp add: responses_valid_def sample_fixture_def)

lemma sample_reads:
  "request_reads (\<lambda>_. lit ''s'') (\<lambda>_. lit ''b'') (\<lambda>_. Inr JNull) None sample_fixture q =
     Inr (\<lparr>fx_response = \<lparr>rr_provider = lit ''fx'', rr_entity = EtWork, rr_source = lit ''w'',
     rr_status = 200, rr_content_type = lit ''application/json'', rr_body = lit ''{}''\<rparr>, fx_observed_at = 5\<rparr>,
       lit ''s'', None)"
proof -
  have "fingerprint_payload (\<lambda>_. lit ''s'') JNull = Inr (lit ''s'')"
    by (simp add: fingerprint_payload_def utf8_encodable_def is_surrogate_def lit_def json_string_def
        json_escape_def json_member_def Let_def)
  moreover have "json_value (\<lambda>_. Inr JNull) \<lparr>rr_provider = lit ''fx'', rr_entity = EtWork,
      rr_source = lit ''w'', rr_status = 200, rr_content_type = lit ''application/json'',
      rr_body = lit ''{}''\<rparr> = Inr JNull"
    by code_simp
  ultimately show ?thesis
    by (simp add: request_reads_def sample_fixture_def accept_response_def success_status_def)
qed

lemma sample_ingest:
  obtains res d where
    "ingest_fixture_provider (\<lambda>_. lit ''s'') (\<lambda>_. lit ''b'') (\<lambda>_. Inr JNull) None None (lit ''fx'')
       sample_fixture sample_requests sample_clock empty_ledger = Inr (res, d)"
proof -
  have "distinct (map task_key sample_requests)" by code_simp
  then show thesis
    using that ingest_fixture_provider_total [OF empty_ledger_ok sample_fixture_valid, of None None
        "lit ''fx''" sample_requests "\<lambda>_. lit ''s''" "\<lambda>_. lit ''b''" "\<lambda>_. Inr JNull" sample_clock]
    by (auto simp: policy_route_def sample_reads)
qed

text \<open>
  C17: Ingestion is idempotent.  When a run over a consistent ledger commits, a second run of the same
  fixtures at any later time commits too; it creates no observation and no schema, counts every
  request the first run read as a duplicate, and quarantines exactly the requests that fail again.
\<close>

theorem reingest_stores_nothing_new:
  assumes "ledger_tables_ok d" and "responses_valid fetch"
    and "ingest_fixture_provider sha sha_bytes loads policy reg sys fetch qs clk d = Inr (res, d1)"
  shows "\<exists>res' d2. ingest_fixture_provider sha sha_bytes loads policy reg sys fetch qs clk' d1 = Inr (res', d2) \<and>
     ir_created res' = 0 \<and> ir_schemas res' = 0 \<and> ir_duplicates res' = ir_succeeded res \<and>
     ir_failed res' = ir_failed res \<and> ir_quarantines res' = ir_failed res \<and>
     length (lt_observations d2) = length (lt_observations d1) \<and> ledger_tables_ok d2"
proof -
  obtain run e1 ocs e2 where guards: "(policy = None) = (reg = None)"
      "(case policy of None \<Rightarrow> Inr () | Some p \<Rightarrow> ensure_policy_provider p sys) = Inr ()"
    and s: "start_run sys clk d = (run, e1)"
    and r: "ingest_requests (ingest_request sha sha_bytes loads (policy_route policy reg) sys fetch clk run) 0
      qs e1 = Inr (ocs, e2)"
    and res: "res = ingest_counts run ocs"
    and d1: "d1 = finish_run clk run (list_all (\<lambda>x. oc_succeeded x \<and> \<not> oc_quarantined x) ocs) e2"
    by (rule ingest_fixture_provider_cases [OF assms(3)])
  note st = start_run_ok [OF s assms(1)]
  note eff = ingest_requests_effect [OF r st(1,2) assms(2)]
  note stored = ingest_requests_stored [OF r st(1,2) assms(2)]
  have ok2: "ledger_tables_ok e2" using eff by blast
  have ok: "ledger_tables_ok d1" unfolding d1 by (rule finish_run_ok(1) [OF ok2])
  have held: "case request_reads sha sha_bytes loads (policy_route policy reg) fetch q of
      Inl e \<Rightarrow> ingest_catches e | Inr r \<Rightarrow> request_stored sha_bytes sys q r d1" if "q \<in> set qs" for q
    using stored [OF that] unfolding d1 by (auto simp: finish_run_ok(5) [OF ok2] split: sum.splits)
  have "distinct (task_keys e2)" using eff unfolding ledger_tables_ok_def keys_ok_def task_keys_def by blast
  then have dist: "distinct (map task_key qs)" using eff by (simp add: distinct_map inj_on_def)
  obtain run' f1 where s': "start_run sys clk' d1 = (run', f1)" by (metis surj_pair)
  note st' = start_run_ok [OF s' ok]
  have held': "case request_reads sha sha_bytes loads (policy_route policy reg) fetch q of
      Inl e \<Rightarrow> ingest_catches e | Inr r \<Rightarrow> request_stored sha_bytes sys q r f1" if "q \<in> set qs" for q
    using held [OF that] request_stored_mono [OF _ st'(6)] by (auto split: sum.splits)
  obtain ocs' f2 where r': "ingest_requests (ingest_request sha sha_bytes loads (policy_route policy reg) sys
      fetch clk' run') 0 qs f1 = Inr (ocs', f2)"
    and no: "list_all (\<lambda>x. \<not> oc_created x \<and> \<not> oc_schema_created x \<and>
      oc_quarantine_added x = (\<not> oc_succeeded x)) ocs'"
    by (rule ingest_requests_again [OF held' st'(1,2) assms(2) dist st'(4)])
  note eff' = ingest_requests_effect [OF r' st'(1,2) assms(2)]
  let ?d2 = "finish_run clk' run' (list_all (\<lambda>x. oc_succeeded x \<and> \<not> oc_quarantined x) ocs') f2"
  have run2: "ingest_fixture_provider sha sha_bytes loads policy reg sys fetch qs clk' d1 =
      Inr (ingest_counts run' ocs', ?d2)"
    using guards unfolding ingest_fixture_provider_def by (simp add: s' r')
  have same: "count_rows oc_succeeded ocs' = count_rows oc_succeeded ocs" "length ocs' = length ocs"
    using eff eff' by (auto intro!: count_rows_map)
  have zero: "count_rows oc_created ocs' = 0" "count_rows oc_schema_created ocs' = 0"
    using no by (auto simp: count_rows_eq_0 list_all_iff)
  have quar: "count_rows oc_quarantine_added ocs' = count_rows (\<lambda>x. \<not> oc_succeeded x) ocs'"
    using no by (auto intro!: count_rows_cong simp: list_all_iff)
  have dups: "count_rows oc_created ocs' + count_rows (\<lambda>x. oc_succeeded x \<and> \<not> oc_created x) ocs' =
      count_rows oc_succeeded ocs'"
    using eff' by (intro count_rows_diff) blast
  have "ledger_tables_ok f2" "rows_added ocs' f1 f2" using eff' by blast+
  then have "length (lt_observations ?d2) = length (lt_observations d1)" "ledger_tables_ok ?d2"
    using zero(1) st'(5) by (simp_all add: finish_run_ok(1,3) rows_added_def)
  then show ?thesis
    using run2 zero dups quar same by (simp add: ingest_counts_def res count_rows_not)
qed

theorem reingest_stores_nothing_new_witness:
  "\<exists>res d1 res' d2. ingest_fixture_provider (\<lambda>_. lit ''s'') (\<lambda>_. lit ''b'') (\<lambda>_. Inr JNull) None None
       (lit ''fx'') sample_fixture sample_requests sample_clock empty_ledger = Inr (res, d1) \<and>
     ingest_fixture_provider (\<lambda>_. lit ''s'') (\<lambda>_. lit ''b'') (\<lambda>_. Inr JNull) None None
       (lit ''fx'') sample_fixture sample_requests sample_clock d1 = Inr (res', d2) \<and> ir_created res' = 0"
proof -
  obtain res d1 where r: "ingest_fixture_provider (\<lambda>_. lit ''s'') (\<lambda>_. lit ''b'') (\<lambda>_. Inr JNull) None None
      (lit ''fx'') sample_fixture sample_requests sample_clock empty_ledger = Inr (res, d1)"
    by (rule sample_ingest)
  show ?thesis
    using reingest_stores_nothing_new [OF empty_ledger_ok sample_fixture_valid r, of sample_clock] r by blast
qed

text \<open>
  C34: A run reports what it stored.  When a run over a consistent ledger commits, the ledger is
  consistent, nothing it held is lost, and the result counts exactly what was added: a task and an
  attempt for every request, the requests that were read as succeeded and the others as failed, each
  success as a new or a known observation, and the new schemas and quarantine rows; the run row is
  completed when every request was read and none was quarantined, and completed with errors otherwise.
\<close>

theorem ingest_reports_what_it_stored:
  assumes "ledger_tables_ok d" and "responses_valid fetch"
    and "ingest_fixture_provider sha sha_bytes loads policy reg sys fetch qs clk d = Inr (res, d')"
  shows "ledger_tables_ok d' \<and> ledger_grows d d' \<and> ir_tasks res = int (length qs) \<and>
     ir_succeeded res =
       count_rows (\<lambda>q. is_ok (request_reads sha sha_bytes loads (policy_route policy reg) fetch q)) qs \<and>
     ir_succeeded res + ir_failed res = ir_tasks res \<and>
     ir_created res + ir_duplicates res = ir_succeeded res \<and>
     int (length (lt_tasks d')) = int (length (lt_tasks d)) + ir_tasks res \<and>
     int (length (lt_attempts d')) = int (length (lt_attempts d)) + ir_tasks res \<and>
     int (length (lt_observations d')) = int (length (lt_observations d)) + ir_created res \<and>
     int (length (lt_schemas d')) = int (length (lt_schemas d)) + ir_schemas res \<and>
     int (length (lt_quarantine d')) = int (length (lt_quarantine d)) + ir_quarantines res \<and>
     (\<exists>r \<in> set (lt_runs d'). cr_id r = ir_run res \<and> ir_run res \<notin> cr_id ` set (lt_runs d) \<and>
        cr_status r =
          (if list_all (\<lambda>q. \<not> needs_review
                (request_reads sha sha_bytes loads (policy_route policy reg) fetch q)) qs
           then CrawlCompleted else CrawlWithErrors))"
proof -
  obtain run d1 ocs d2 where
    s: "start_run sys clk d = (run, d1)"
    and r: "ingest_requests (ingest_request sha sha_bytes loads (policy_route policy reg) sys fetch clk run) 0
      qs d1 = Inr (ocs, d2)"
    and res: "res = ingest_counts run ocs"
    and d': "d' = finish_run clk run (list_all (\<lambda>x. oc_succeeded x \<and> \<not> oc_quarantined x) ocs) d2"
    by (rule ingest_fixture_provider_cases [OF assms(3)])
  note st = start_run_ok [OF s assms(1)]
  note eff = ingest_requests_effect [OF r st(1,2) assms(2)]
  have ok: "ledger_tables_ok d2" and grow: "ledger_grows d d2" and len: "length ocs = length qs"
    and con: "list_all outcome_consistent ocs" and runs: "run \<in> cr_id ` set (lt_runs d2)"
    and succ: "map oc_succeeded ocs =
      map (\<lambda>q. is_ok (request_reads sha sha_bytes loads (policy_route policy reg) fetch q)) qs"
    and clean: "list_all (\<lambda>x. oc_succeeded x \<and> \<not> oc_quarantined x) ocs \<longleftrightarrow> list_all (\<lambda>q. \<not> needs_review
      (request_reads sha sha_bytes loads (policy_route policy reg) fetch q)) qs"
    using eff st(2,6) ledger_grows_trans by auto
  have "rows_added ([] @ ocs) d d2" using eff by (intro rows_added_trans [OF st(5)]) blast
  then have rows: "rows_added ocs d d'" using finish_run_ok(2) [OF ok] by (simp add: d')
  have "ledger_grows d d'" using grow by (simp add: d' finish_run_def ledger_grows_def)
  moreover have "run \<notin> cr_id ` set (lt_runs d)"
    using s fresh_key_notin [of cr_id "lt_runs d"] by (auto simp: start_run_def Let_def)
  moreover note finish_run_ok(1) [OF ok, folded d'] finish_run_ok(7) [OF ok runs, of clk] clean
  ultimately show ?thesis
    using rows len count_rows_map [OF succ] count_rows_diff [OF con]
    by (simp add: rows_added_def res ingest_counts_def count_rows_not d')
qed

theorem ingest_reports_what_it_stored_witness:
  "\<exists>res d'. ingest_fixture_provider (\<lambda>_. lit ''s'') (\<lambda>_. lit ''b'') (\<lambda>_. Inr JNull) None None
       (lit ''fx'') sample_fixture sample_requests sample_clock empty_ledger = Inr (res, d') \<and>
     ir_tasks res = 2 \<and> ir_succeeded res = 2 \<and> length (lt_tasks d') = 2"
proof -
  obtain res d1 where r: "ingest_fixture_provider (\<lambda>_. lit ''s'') (\<lambda>_. lit ''b'') (\<lambda>_. Inr JNull) None None
      (lit ''fx'') sample_fixture sample_requests sample_clock empty_ledger = Inr (res, d1)"
    by (rule sample_ingest)
  have "is_ok (request_reads (\<lambda>_. lit ''s'') (\<lambda>_. lit ''b'') (\<lambda>_. Inr JNull) (policy_route None None)
      sample_fixture q)" for q
    by (simp add: policy_route_def sample_reads is_ok_def)
  then show ?thesis
    using ingest_reports_what_it_stored [OF empty_ledger_ok sample_fixture_valid r] r
    by (auto simp: sample_requests_def empty_ledger_def)
qed

text \<open>
  The first sighting of a source is stamped with the start of the run and its last one with the time
  the fixture was observed: a fixture observed before the run is last seen before it is first seen.
\<close>

lemma last_seen_precedes_first_seen:
  "sr_last_seen (update_availability r t (new_source_record sys q started i)) <
     sr_first_seen (update_availability r t (new_source_record sys q started i)) \<longleftrightarrow> t < started"
  by (simp add: update_availability_def new_source_record_def)

end
