(* ===== verification/BrowserExport.thy ===== *)
theory BrowserExport
  imports SchemaProbe Cursor
begin

text \<open>
  The offline sanitation of browser exports, \<open>src/pixiv_yuri/acquisition/browser_export_import.py\<close>:
  two export formats, the dispatch between them, and the merge of a batch.  \<open>loads\<close> is
  \<open>json.loads\<close>, whose \<open>JSONDecodeError\<close> is \<open>ValueError\<close>; \<open>parse_iso\<close> is \<open>datetime.fromisoformat\<close>, which
  returns nothing for a text it refuses; \<open>digest\<close> is SHA-256.  The file handling of \<open>main\<close> is left out.
\<close>

section \<open>Values of the export\<close>

text \<open>
  Why a record is refused: a reason code of the code, a validation error whose text is not one, or an
  exception the loops do not catch.
\<close>

datatype refusal = Reason string | Unnamed | Escapes

type_synonym 'a sanitized = "refusal + 'a"

definition member :: "(pystr \<times> json) list \<Rightarrow> string \<Rightarrow> json" where
  "member fs k = (case map_of fs (lit k) of None \<Rightarrow> JNull | Some v \<Rightarrow> v)"

text \<open>Python's \<open>v == n\<close> for a value of JSON; a float is its \<open>repr\<close>.\<close>

definition equals_int :: "int \<Rightarrow> json \<Rightarrow> bool" where
  "equals_int n v =
     (case v of
        JInt m \<Rightarrow> m = n
      | JBool b \<Rightarrow> (if b then 1 else 0) = n
      | JFloat t \<Rightarrow> t = show_int n @ lit ''.0'' \<or> (n = 0 \<and> t = lit ''-0.0'')
      | _ \<Rightarrow> False)"

definition string_of :: "string \<Rightarrow> json \<Rightarrow> pystr sanitized" where
  "string_of reason v = (case v of JStr s \<Rightarrow> Inr s | _ \<Rightarrow> Inl (Reason reason))"

definition integer_of :: "string \<Rightarrow> json \<Rightarrow> int sanitized" where
  "integer_of reason v = (case v of JInt n \<Rightarrow> Inr n | _ \<Rightarrow> Inl (Reason reason))"

definition optional_integer_of :: "string \<Rightarrow> json \<Rightarrow> int option sanitized" where
  "optional_integer_of reason v =
     (if v = JNull then Inr None else bindr (integer_of reason v) (\<lambda>n. Inr (Some n)))"

fun string_items :: "string \<Rightarrow> json list \<Rightarrow> pystr list sanitized" where
  "string_items reason [] = Inr []"
| "string_items reason (v # vs) =
     bindr (string_of reason v) (\<lambda>s. bindr (string_items reason vs) (\<lambda>ss. Inr (s # ss)))"

definition string_list_of :: "string \<Rightarrow> json \<Rightarrow> pystr list sanitized" where
  "string_list_of reason v = (case v of JArr vs \<Rightarrow> string_items reason vs | _ \<Rightarrow> Inl (Reason reason))"

definition optional_string_list_of :: "json \<Rightarrow> pystr list sanitized" where
  "optional_string_list_of v =
     (if v = JNull then Inr [] else string_list_of ''tag_translations_invalid'' v)"

text \<open>
  \<open>value.replace("Z", "+00:00")\<close>, and \<open>astimezone\<close>, which overflows outside of the years a
  \<open>datetime\<close> has: an \<open>OverflowError\<close> is not among the exceptions the loops catch.
\<close>

definition replace_z :: "pystr \<Rightarrow> pystr" where
  "replace_z s = concat (map (\<lambda>c. if c = 90 then lit ''+00:00'' else [c]) s)"

definition in_datetime_range :: "instant \<Rightarrow> bool" where
  "in_datetime_range t \<longleftrightarrow> 1 \<le> year (utc_date t) \<and> year (utc_date t) \<le> 9999"

definition utc_of :: "pydatetime \<Rightarrow> instant sanitized" where
  "utc_of d =
     (case aware_utc d of
        Inl e \<Rightarrow> Inl (Reason ''timestamp_timezone_required'')
      | Inr t \<Rightarrow> if in_datetime_range t then Inr t else Inl Escapes)"

definition datetime_of :: "(pystr \<Rightarrow> pydatetime option) \<Rightarrow> json \<Rightarrow> instant sanitized" where
  "datetime_of parse_iso v =
     bindr (string_of ''created_at_invalid'' v) (\<lambda>s.
       case parse_iso (replace_z s) of None \<Rightarrow> Inl Unnamed | Some d \<Rightarrow> utc_of d)"

section \<open>Sanitized records\<close>

record public_tag =
  pu_name :: pystr
  pu_translation :: "pystr option"

record public_metadata =
  pm_work :: pystr
  pm_title :: pystr
  pm_author :: pystr
  pm_author_name :: pystr
  pm_tags :: "public_tag list"
  pm_created_at :: instant
  pm_page_count :: int
  pm_width :: int
  pm_height :: int
  pm_views :: "int option"
  pm_bookmarks :: "int option"
  pm_likes :: "int option"

text \<open>The fields of the models; a strict \<open>str\<close> field takes no surrogate.\<close>

definition str_field :: "nat \<Rightarrow> nat \<Rightarrow> pystr \<Rightarrow> bool" where
  "str_field a b s \<longleftrightarrow> utf8_encodable s \<and> a \<le> length s \<and> length s \<le> b"

definition public_tag_valid :: "public_tag \<Rightarrow> bool" where
  "public_tag_valid t \<longleftrightarrow> str_field 1 200 (pu_name t) \<and>
     (case pu_translation t of None \<Rightarrow> True | Some s \<Rightarrow> str_field 0 200 s)"

definition int_field :: "int \<Rightarrow> int \<Rightarrow> int \<Rightarrow> bool" where
  "int_field a b n \<longleftrightarrow> a \<le> n \<and> n \<le> b"

definition count_field :: "int option \<Rightarrow> bool" where
  "count_field v \<longleftrightarrow> (case v of None \<Rightarrow> True | Some n \<Rightarrow> 0 \<le> n)"

definition public_metadata_valid :: "public_metadata \<Rightarrow> bool" where
  "public_metadata_valid m \<longleftrightarrow>
     str_field 1 64 (pm_work m) \<and> str_field 0 500 (pm_title m) \<and> str_field 1 64 (pm_author m) \<and>
     str_field 0 200 (pm_author_name m) \<and> length (pm_tags m) \<le> 10 \<and>
     list_all public_tag_valid (pm_tags m) \<and> int_field 1 10000 (pm_page_count m) \<and>
     int_field 1 100000 (pm_width m) \<and> int_field 1 100000 (pm_height m) \<and>
     count_field (pm_views m) \<and> count_field (pm_bookmarks m) \<and> count_field (pm_likes m)"

definition validated :: "('a \<Rightarrow> bool) \<Rightarrow> 'a \<Rightarrow> 'a sanitized" where
  "validated ok x = (if ok x then Inr x else Inl Unnamed)"

section \<open>One record\<close>

definition supported_source_keys :: "string list" where
  "supported_source_keys =
     [''aiType'', ''bmk'', ''bmkId'', ''bookmarked'', ''commentCount'', ''date'', ''description'', ''ext'',
      ''fullHeight'', ''fullWidth'', ''id'', ''idNum'', ''index'', ''isOriginal'', ''likeCount'', ''novelMeta'',
      ''original'', ''pageCount'', ''rank'', ''regular'', ''seriesId'', ''seriesOrder'', ''seriesTitle'', ''sl'',
      ''small'', ''tags'', ''tagsTranslOnly'', ''tagsWithTransl'', ''thumb'', ''title'', ''type'', ''ugoiraInfo'',
      ''uploadDate'', ''user'', ''userId'', ''viewCount'', ''xRestrict'']"

definition companion_root_keys :: "string list" where
  "companion_root_keys = [''source_format'', ''schema_version'', ''generated_at'', ''records'']"

definition companion_record_keys :: "string list" where
  "companion_record_keys =
     [''work_id'', ''work_title'', ''author_id'', ''author_display_name'', ''public_tags'', ''created_at'',
      ''page_count'', ''width'', ''height'', ''public_view_count'', ''public_bookmark_count'',
      ''public_like_count'', ''x_restrict'']"

definition companion_tag_keys :: "string list" where
  "companion_tag_keys = [''tag_name'', ''tag_translation'']"

definition known_keys :: "string list \<Rightarrow> (pystr \<times> json) list \<Rightarrow> bool" where
  "known_keys ks fs \<longleftrightarrow> list_all (\<lambda>kv. fst kv \<in> set (map lit ks)) fs"

text \<open>The tags of the first format carry their translations in a parallel list.\<close>

definition tag_translation :: "pystr list \<Rightarrow> nat \<Rightarrow> pystr \<Rightarrow> pystr option" where
  "tag_translation translations i tag =
     (if i < length translations \<and> translations ! i \<noteq> [] \<and> translations ! i \<noteq> tag
      then Some (translations ! i) else None)"

fun pair_tags :: "pystr list \<Rightarrow> nat \<Rightarrow> pystr list \<Rightarrow> public_tag list sanitized" where
  "pair_tags translations i [] = Inr []"
| "pair_tags translations i (tag # tags) =
     bindr (validated public_tag_valid \<lparr>pu_name = tag, pu_translation = tag_translation translations i tag\<rparr>)
       (\<lambda>t. bindr (pair_tags translations (Suc i) tags) (\<lambda>ts. Inr (t # ts)))"

text \<open>The fields both formats share, by the names each one gives them.\<close>

record field_names =
  fn_title :: string
  fn_author :: string
  fn_author_name :: string
  fn_created_at :: string
  fn_page_count :: string
  fn_width :: string
  fn_height :: string
  fn_views :: string
  fn_bookmarks :: string
  fn_likes :: string

definition build_metadata ::
  "(pystr \<Rightarrow> pydatetime option) \<Rightarrow> field_names \<Rightarrow> (pystr \<times> json) list \<Rightarrow> pystr sanitized \<Rightarrow>
     public_tag list \<Rightarrow> public_metadata sanitized" where
  "build_metadata parse_iso n fs work tags =
     bindr work (\<lambda>w.
     bindr (string_of ''title_invalid'' (member fs (fn_title n))) (\<lambda>title.
     bindr (string_of ''author_id_invalid'' (member fs (fn_author n))) (\<lambda>author.
     bindr (string_of ''author_name_invalid'' (member fs (fn_author_name n))) (\<lambda>name.
     bindr (datetime_of parse_iso (member fs (fn_created_at n))) (\<lambda>created.
     bindr (integer_of ''page_count_invalid'' (member fs (fn_page_count n))) (\<lambda>pages.
     bindr (integer_of ''width_invalid'' (member fs (fn_width n))) (\<lambda>width.
     bindr (integer_of ''height_invalid'' (member fs (fn_height n))) (\<lambda>height.
     bindr (optional_integer_of ''view_count_invalid'' (member fs (fn_views n))) (\<lambda>views.
     bindr (optional_integer_of ''bookmark_count_invalid'' (member fs (fn_bookmarks n))) (\<lambda>bookmarks.
     bindr (optional_integer_of ''like_count_invalid'' (member fs (fn_likes n))) (\<lambda>likes.
       validated public_metadata_valid
         \<lparr>pm_work = w, pm_title = title, pm_author = author, pm_author_name = name, pm_tags = tags,
          pm_created_at = created, pm_page_count = pages, pm_width = width, pm_height = height,
          pm_views = views, pm_bookmarks = bookmarks, pm_likes = likes\<rparr>)))))))))))"

definition downloader_fields :: field_names where
  "downloader_fields =
     \<lparr>fn_title = ''title'', fn_author = ''userId'', fn_author_name = ''user'', fn_created_at = ''date'',
      fn_page_count = ''pageCount'', fn_width = ''fullWidth'', fn_height = ''fullHeight'',
      fn_views = ''viewCount'', fn_bookmarks = ''bmk'', fn_likes = ''likeCount''\<rparr>"

definition companion_fields :: field_names where
  "companion_fields =
     \<lparr>fn_title = ''work_title'', fn_author = ''author_id'', fn_author_name = ''author_display_name'',
      fn_created_at = ''created_at'', fn_page_count = ''page_count'', fn_width = ''width'',
      fn_height = ''height'', fn_views = ''public_view_count'', fn_bookmarks = ''public_bookmark_count'',
      fn_likes = ''public_like_count''\<rparr>"

definition sanitize_record ::
  "(pystr \<Rightarrow> pydatetime option) \<Rightarrow> (pystr \<times> json) list \<Rightarrow> public_metadata sanitized" where
  "sanitize_record parse_iso fs =
     (if \<not> known_keys supported_source_keys fs then Inl (Reason ''unsupported_source_field'')
      else if member fs ''xRestrict'' \<noteq> JInt 0 then Inl (Reason ''age_rating_not_proven_all_ages'')
      else if member fs ''novelMeta'' \<noteq> JNull then Inl (Reason ''novel_body_forbidden'')
      else case member fs ''idNum'' of
        JInt n \<Rightarrow>
          if n \<le> 0 then Inl (Reason ''work_id_invalid'')
          else bindr (string_list_of ''tags_invalid'' (member fs ''tags'')) (\<lambda>tags.
               bindr (optional_string_list_of (member fs ''tagsTranslOnly'')) (\<lambda>translations.
               bindr (pair_tags translations 0 (take 10 tags)) (\<lambda>public_tags.
                 build_metadata parse_iso downloader_fields fs (Inr (show_int n)) public_tags)))
      | _ \<Rightarrow> Inl (Reason ''work_id_invalid''))"

definition companion_tag :: "json \<Rightarrow> public_tag sanitized" where
  "companion_tag v =
     (case v of
        JObj fs \<Rightarrow>
          if \<not> known_keys companion_tag_keys fs then Inl (Reason ''tags_invalid'')
          else let translation = member fs ''tag_translation''
            in if translation \<noteq> JNull \<and> \<not> is_ok (string_of '''' translation)
               then Inl (Reason ''tag_translations_invalid'')
               else bindr (string_of ''tags_invalid'' (member fs ''tag_name'')) (\<lambda>name.
                 validated public_tag_valid
                   \<lparr>pu_name = name,
                    pu_translation = (case translation of JStr s \<Rightarrow> Some s | _ \<Rightarrow> None)\<rparr>)
      | _ \<Rightarrow> Inl (Reason ''tags_invalid''))"

fun companion_tags :: "json list \<Rightarrow> public_tag list sanitized" where
  "companion_tags [] = Inr []"
| "companion_tags (v # vs) = bindr (companion_tag v) (\<lambda>t. bindr (companion_tags vs) (\<lambda>ts. Inr (t # ts)))"

definition sanitize_companion_record ::
  "(pystr \<Rightarrow> pydatetime option) \<Rightarrow> (pystr \<times> json) list \<Rightarrow> public_metadata sanitized" where
  "sanitize_companion_record parse_iso fs =
     (if \<not> known_keys companion_record_keys fs then Inl (Reason ''unsupported_source_field'')
      else if member fs ''x_restrict'' \<notin> {JInt 0, JInt 1, JInt 2} then Inl (Reason ''age_rating_outside_g0'')
      else case member fs ''public_tags'' of
        JArr vs \<Rightarrow> bindr (companion_tags vs) (\<lambda>public_tags.
          build_metadata parse_iso companion_fields fs (string_of ''work_id_invalid'' (member fs ''work_id''))
            public_tags)
      | _ \<Rightarrow> Inl (Reason ''tags_invalid''))"

section \<open>Secrets\<close>

definition secret_keys :: "string list" where
  "secret_keys = [''authorization'', ''cookie'', ''credential'', ''password'', ''secret'', ''session'', ''token'']"

definition normalized_key :: "pystr \<Rightarrow> pystr" where
  "normalized_key k = map (\<lambda>c. if c = 45 then 95 else c) (py_lower (py_strip k))"

definition secret_shaped :: "pystr \<Rightarrow> bool" where
  "secret_shaped k \<longleftrightarrow> list_ex (\<lambda>p. has_fragment (lit p) (normalized_key k)) secret_keys"

fun contains_secret_key :: "json \<Rightarrow> bool" where
  "contains_secret_key (JObj fs) = list_ex (\<lambda>(k, v). secret_shaped k \<or> contains_secret_key v) fs"
| "contains_secret_key (JArr vs) = list_ex contains_secret_key vs"
| "contains_secret_key _ = False"

section \<open>One export\<close>

record import_report =
  bp_generated_at :: instant
  bp_ready :: bool
  bp_format :: string
  bp_input_sha :: pystr
  bp_files :: int
  bp_input_records :: int
  bp_accepted :: int
  bp_rejected :: int
  bp_skipped :: int
  bp_violations :: "string list"

definition make_report ::
  "instant \<Rightarrow> string \<Rightarrow> pystr \<Rightarrow> int \<Rightarrow> int \<Rightarrow> int \<Rightarrow> int \<Rightarrow> int \<Rightarrow> string list \<Rightarrow> import_report" where
  "make_report checked fmt sha files input_records accepted rejected skipped violations =
     \<lparr>bp_generated_at = checked,
      bp_ready = (accepted \<noteq> 0 \<and> rejected = 0 \<and> violations = []),
      bp_format = fmt, bp_input_sha = sha, bp_files = files, bp_input_records = input_records,
      bp_accepted = accepted, bp_rejected = rejected, bp_skipped = skipped, bp_violations = violations\<rparr>"

text \<open>\<open>_safe_reason\<close>: only a short text of letters, digits and underscores is reported.\<close>

definition reason_code :: "string \<Rightarrow> bool" where
  "reason_code r \<longleftrightarrow>
     (let cs = filter (\<lambda>c. c \<noteq> 95) (lit r)
      in cs \<noteq> [] \<and> length r \<le> 80 \<and>
         list_all (\<lambda>c. 48 \<le> c \<and> c \<le> 57 \<or> 65 \<le> c \<and> c \<le> 90 \<or> 97 \<le> c \<and> c \<le> 122) cs)"

definition safe_reason :: "refusal \<Rightarrow> string" where
  "safe_reason e =
     (case e of
        Reason r \<Rightarrow> if reason_code r then r else ''normalized_schema_validation_failed''
      | _ \<Rightarrow> ''normalized_schema_validation_failed'')"

record sanitize_state =
  ss_accepted :: "public_metadata list"
  ss_rejected :: int
  ss_skipped :: int
  ss_violations :: "string list"

definition start_state :: sanitize_state where
  "start_state = \<lparr>ss_accepted = [], ss_rejected = 0, ss_skipped = 0, ss_violations = []\<rparr>"

definition refuse_item :: "string \<Rightarrow> sanitize_state \<Rightarrow> sanitize_state" where
  "refuse_item reason s = s\<lparr>ss_rejected := ss_rejected s + 1, ss_violations := ss_violations s @ [reason]\<rparr>"

definition accept_record :: "public_metadata \<Rightarrow> sanitize_state \<Rightarrow> sanitize_state" where
  "accept_record m s =
     (if pm_work m \<in> pm_work ` set (ss_accepted s) then s\<lparr>ss_skipped := ss_skipped s + 1\<rparr>
      else s\<lparr>ss_accepted := ss_accepted s @ [m]\<rparr>)"

text \<open>\<open>skip\<close> is the test for an extra page of a work, which only the first format has.\<close>

definition sanitize_item ::
  "((pystr \<times> json) list \<Rightarrow> bool) \<Rightarrow> ((pystr \<times> json) list \<Rightarrow> public_metadata sanitized) \<Rightarrow> json \<Rightarrow>
     sanitize_state \<Rightarrow> error + sanitize_state" where
  "sanitize_item skip convert v s =
     (case v of
        JObj fs \<Rightarrow>
          if skip fs then Inr (s\<lparr>ss_skipped := ss_skipped s + 1\<rparr>)
          else (case convert fs of
            Inl Escapes \<Rightarrow> Inl OtherError
          | Inl e \<Rightarrow> Inr (refuse_item (safe_reason e) s)
          | Inr m \<Rightarrow> Inr (accept_record m s))
      | _ \<Rightarrow> Inr (refuse_item ''record_not_object'' s))"

fun sanitize_items ::
  "((pystr \<times> json) list \<Rightarrow> bool) \<Rightarrow> ((pystr \<times> json) list \<Rightarrow> public_metadata sanitized) \<Rightarrow> json list \<Rightarrow>
     sanitize_state \<Rightarrow> error + sanitize_state" where
  "sanitize_items skip convert [] s = Inr s"
| "sanitize_items skip convert (v # vs) s =
     bindr (sanitize_item skip convert v s) (sanitize_items skip convert vs)"

definition extra_page :: "(pystr \<times> json) list \<Rightarrow> bool" where
  "extra_page fs \<longleftrightarrow> member fs ''index'' \<noteq> JNull \<and> \<not> equals_int 0 (member fs ''index'')"

text \<open>\<open>data.decode("utf-8-sig")\<close> drops one leading byte order mark.\<close>

definition decode_sig :: "nat list \<Rightarrow> pystr option" where
  "decode_sig data = utf8_decode (if take 3 data = [239, 187, 191] then drop 3 data else data)"

definition load_export :: "(pystr \<Rightarrow> error + json) \<Rightarrow> nat list \<Rightarrow> error + json option" where
  "load_export loads data =
     (case decode_sig data of
        None \<Rightarrow> Inr None
      | Some t \<Rightarrow>
          (case loads t of Inl e \<Rightarrow> if e = ValueError then Inr None else Inl e | Inr v \<Rightarrow> Inr (Some v)))"

definition sha_hex :: "(nat list \<Rightarrow> nat list) \<Rightarrow> nat list \<Rightarrow> pystr" where
  "sha_hex digest data = concat (map (\<lambda>b. [hex_digit (b div 16), hex_digit (b mod 16)]) (digest data))"

type_synonym export_result = "public_metadata list \<times> import_report"

definition downloader_format :: string where
  "downloader_format = ''powerful_pixiv_downloader_json''"

definition companion_format :: string where
  "companion_format = ''pyuri_pixiv_browser_companion_json''"

text \<open>A refused export; \<open>n\<close> records are counted as rejected.\<close>

definition refused_export :: "instant \<Rightarrow> string \<Rightarrow> pystr \<Rightarrow> nat \<Rightarrow> string \<Rightarrow> export_result" where
  "refused_export checked fmt sha n reason = ([], make_report checked fmt sha 1 (int n) 0 (int n) 0 [reason])"

definition finished_export :: "instant \<Rightarrow> string \<Rightarrow> pystr \<Rightarrow> nat \<Rightarrow> sanitize_state \<Rightarrow> export_result" where
  "finished_export checked fmt sha n s =
     (ss_accepted s, make_report checked fmt sha 1 (int n) (int (length (ss_accepted s))) (ss_rejected s)
        (ss_skipped s) (first_seen (ss_violations s)))"

definition sanitize_powerful_pixiv_json ::
  "(nat list \<Rightarrow> nat list) \<Rightarrow> (pystr \<Rightarrow> error + json) \<Rightarrow> (pystr \<Rightarrow> pydatetime option) \<Rightarrow> instant \<Rightarrow> nat list \<Rightarrow>
     error + export_result" where
  "sanitize_powerful_pixiv_json digest loads parse_iso checked data =
     (let sha = sha_hex digest data; refused = refused_export checked downloader_format sha
      in if 10000000 < length data then Inr (refused 0 ''export_too_large'')
         else bindr (load_export loads data) (\<lambda>payload.
           case payload of
             None \<Rightarrow> Inr (refused 0 ''invalid_json'')
           | Some (JArr vs) \<Rightarrow>
               if contains_secret_key (JArr vs) then Inr (refused (length vs) ''secret_shaped_field_forbidden'')
               else if 1000 < length vs then Inr (refused (length vs) ''too_many_records'')
               else bindr (sanitize_items extra_page (sanitize_record parse_iso) vs start_state) (\<lambda>s.
                 Inr (finished_export checked downloader_format sha (length vs) s))
           | Some _ \<Rightarrow> Inr (refused 0 ''root_must_be_array'')))"

definition sanitize_pyuri_browser_companion_json ::
  "(nat list \<Rightarrow> nat list) \<Rightarrow> (pystr \<Rightarrow> error + json) \<Rightarrow> (pystr \<Rightarrow> pydatetime option) \<Rightarrow> instant \<Rightarrow> nat list \<Rightarrow>
     error + export_result" where
  "sanitize_pyuri_browser_companion_json digest loads parse_iso checked data =
     (let sha = sha_hex digest data; refused = refused_export checked companion_format sha
      in if 10000000 < length data then Inr (refused 0 ''export_too_large'')
         else bindr (load_export loads data) (\<lambda>payload.
           case payload of
             None \<Rightarrow> Inr (refused 0 ''invalid_json'')
           | Some (JObj fs) \<Rightarrow>
               if contains_secret_key (JObj fs) then Inr (refused 0 ''secret_shaped_field_forbidden'')
               else if \<not> known_keys companion_root_keys fs then Inr (refused 0 ''unsupported_root_field'')
               else if member fs ''source_format'' \<noteq> JStr (lit companion_format)
               then Inr (refused 0 ''unsupported_source_format'')
               else if \<not> equals_int 1 (member fs ''schema_version'')
               then Inr (refused 0 ''unsupported_schema_version'')
               else (case datetime_of parse_iso (member fs ''generated_at'') of
                 Inl Escapes \<Rightarrow> Inl OtherError
               | Inl _ \<Rightarrow> Inr (refused 0 ''generated_at_invalid'')
               | Inr _ \<Rightarrow>
                   (case member fs ''records'' of
                      JArr vs \<Rightarrow>
                        if 25 < length vs then Inr (refused (length vs) ''too_many_records'')
                        else bindr (sanitize_items (\<lambda>_. False) (sanitize_companion_record parse_iso) vs start_state)
                          (\<lambda>s. Inr (finished_export checked companion_format sha (length vs) s))
                    | _ \<Rightarrow> Inr (refused 0 ''records_must_be_array'')))
           | Some _ \<Rightarrow> Inr (refused 0 ''root_must_be_object'')))"

definition sanitize_browser_export_json ::
  "(nat list \<Rightarrow> nat list) \<Rightarrow> (pystr \<Rightarrow> error + json) \<Rightarrow> (pystr \<Rightarrow> pydatetime option) \<Rightarrow> instant \<Rightarrow> nat list \<Rightarrow>
     error + export_result" where
  "sanitize_browser_export_json digest loads parse_iso checked data =
     bindr (load_export loads data) (\<lambda>payload.
       case payload of
         Some (JObj _) \<Rightarrow> sanitize_pyuri_browser_companion_json digest loads parse_iso checked data
       | _ \<Rightarrow> sanitize_powerful_pixiv_json digest loads parse_iso checked data)"

section \<open>A batch\<close>

definition batch_hash :: "(nat list \<Rightarrow> nat list) \<Rightarrow> nat list list \<Rightarrow> pystr" where
  "batch_hash digest exports =
     sha_hex digest (concat (map (\<lambda>data. to_be 8 (length data) @ digest data) exports))"

record batch_state =
  bs_merge :: sanitize_state
  bs_formats :: "string list"
  bs_records :: int

definition merge_export :: "export_result \<Rightarrow> batch_state \<Rightarrow> batch_state" where
  "merge_export r b =
     (case r of (records, report) \<Rightarrow>
        let m = bs_merge b
        in b\<lparr>bs_formats := bs_formats b @ [bp_format report],
             bs_records := bs_records b + bp_input_records report,
             bs_merge := fold accept_record records
               (m\<lparr>ss_rejected := ss_rejected m + bp_rejected report,
                  ss_skipped := ss_skipped m + bp_skipped report,
                  ss_violations := ss_violations m @ bp_violations report\<rparr>)\<rparr>)"

fun merge_exports :: "(nat list \<Rightarrow> error + export_result) \<Rightarrow> nat list list \<Rightarrow> batch_state \<Rightarrow> error + batch_state"
  where
  "merge_exports sanitize [] b = Inr b"
| "merge_exports sanitize (data # rest) b =
     bindr (sanitize data) (\<lambda>r. merge_exports sanitize rest (merge_export r b))"

definition mixed_formats :: "string list \<Rightarrow> bool" where
  "mixed_formats fmts \<longleftrightarrow> (case fmts of [] \<Rightarrow> False | f # fs \<Rightarrow> list_ex (\<lambda>g. g \<noteq> f) fs)"

definition sanitize_browser_export_batch ::
  "(nat list \<Rightarrow> nat list) \<Rightarrow> (pystr \<Rightarrow> error + json) \<Rightarrow> (pystr \<Rightarrow> pydatetime option) \<Rightarrow> pydatetime \<Rightarrow>
     nat list list \<Rightarrow> error + export_result" where
  "sanitize_browser_export_batch digest loads parse_iso now exports =
     (case utc_of now of
        Inl e \<Rightarrow> Inl (if e = Escapes then OtherError else ValueError)
      | Inr checked \<Rightarrow>
          let refused = (\<lambda>reason. ([], make_report checked downloader_format (batch_hash digest exports)
                (int (length exports)) 0 0 0 0 [reason]))
          in if exports = [] \<or> 25 < length exports then Inr (refused ''batch_file_count_out_of_range'')
             else if 10000000 < sum_list (map length exports) then Inr (refused ''export_batch_too_large'')
             else if length exports = 1 then sanitize_browser_export_json digest loads parse_iso checked (hd exports)
             else bindr (merge_exports (sanitize_browser_export_json digest loads parse_iso checked) exports
                    \<lparr>bs_merge = start_state, bs_formats = [], bs_records = 0\<rparr>) (\<lambda>b.
               let m = bs_merge b;
                   violations = ss_violations m @
                     (if mixed_formats (bs_formats b) then [''mixed_source_formats_forbidden''] else [])
               in Inr (ss_accepted m, make_report checked (hd (bs_formats b)) (batch_hash digest exports)
                    (int (length exports)) (bs_records b) (int (length (ss_accepted m))) (ss_rejected m)
                    (ss_skipped m) (first_seen violations))))"

section \<open>What is reported\<close>

text \<open>Every reason a report can name.\<close>

definition record_reasons :: "string list" where
  "record_reasons =
     [''record_not_object'', ''unsupported_source_field'', ''age_rating_not_proven_all_ages'',
      ''novel_body_forbidden'', ''work_id_invalid'', ''tags_invalid'', ''tag_translations_invalid'',
      ''title_invalid'', ''author_id_invalid'', ''author_name_invalid'', ''created_at_invalid'',
      ''timestamp_timezone_required'', ''page_count_invalid'', ''width_invalid'', ''height_invalid'',
      ''view_count_invalid'', ''bookmark_count_invalid'', ''like_count_invalid'', ''age_rating_outside_g0'',
      ''normalized_schema_validation_failed'']"

definition export_reasons :: "string list" where
  "export_reasons =
     record_reasons @
     [''export_too_large'', ''invalid_json'', ''root_must_be_array'', ''root_must_be_object'',
      ''secret_shaped_field_forbidden'', ''too_many_records'', ''unsupported_root_field'',
      ''unsupported_source_format'', ''unsupported_schema_version'', ''generated_at_invalid'',
      ''records_must_be_array'', ''batch_file_count_out_of_range'', ''export_batch_too_large'',
      ''mixed_source_formats_forbidden'']"

definition named :: "refusal \<Rightarrow> bool" where
  "named e \<longleftrightarrow> (case e of Reason r \<Rightarrow> r \<in> set record_reasons | _ \<Rightarrow> True)"

lemma named_reason: "named e \<Longrightarrow> safe_reason e \<in> set record_reasons"
  by (auto simp: named_def safe_reason_def record_reasons_def split: refusal.splits)

text \<open>A step of a conversion refuses with a named reason.\<close>

definition names :: "'a sanitized \<Rightarrow> bool" where
  "names r \<longleftrightarrow> (case r of Inl e \<Rightarrow> named e | Inr _ \<Rightarrow> True)"

named_theorems names_intros \<open>conversion steps that refuse with a named reason\<close>

lemma names_bindr [names_intros]: "names r \<Longrightarrow> (\<And>x. names (f x)) \<Longrightarrow> names (bindr r f)"
  by (cases r) (simp_all add: names_def)

lemma names_values [names_intros]:
  "names (Inr x)" "r \<in> set record_reasons \<Longrightarrow> names (Inl (Reason r))" "names (Inl Unnamed)" "names (Inl Escapes)"
  by (simp_all add: names_def named_def)

lemma names_if [names_intros]: "(P \<Longrightarrow> names a) \<Longrightarrow> (\<not> P \<Longrightarrow> names b) \<Longrightarrow> names (if P then a else b)"
  by simp

lemma names_steps [names_intros]:
  "r \<in> set record_reasons \<Longrightarrow> names (string_of r v)" "r \<in> set record_reasons \<Longrightarrow> names (integer_of r v)"
  "names (validated ok x)"
  by (simp_all add: string_of_def integer_of_def validated_def names_def named_def split: json.split)

lemma names_optional_integer [names_intros]: "r \<in> set record_reasons \<Longrightarrow> names (optional_integer_of r v)"
  unfolding optional_integer_of_def by (intro names_intros)

lemma names_string_list [names_intros]: "r \<in> set record_reasons \<Longrightarrow> names (string_list_of r v)"
proof -
  assume r: "r \<in> set record_reasons"
  have "names (string_items r vs)" for vs
    by (induction vs) (auto intro!: names_intros r)
  with r show ?thesis by (auto simp: string_list_of_def intro!: names_intros split: json.split)
qed

lemma names_datetime [names_intros]: "names (datetime_of parse_iso v)"
  unfolding datetime_of_def utc_of_def
  by (auto simp: record_reasons_def intro!: names_intros split: option.split sum.split)

lemma names_pair_tags [names_intros]: "names (pair_tags translations i tags)"
  by (induction tags arbitrary: i) (auto intro!: names_intros)

lemma names_build [names_intros]: "names work \<Longrightarrow> names (build_metadata parse_iso n fs work tags)"
  unfolding build_metadata_def by (intro names_intros) (simp_all add: record_reasons_def)

lemma names_sanitize_record: "names (sanitize_record parse_iso fs)"
  unfolding sanitize_record_def optional_string_list_of_def
  by (auto simp: record_reasons_def intro!: names_intros split: json.split)

lemma names_companion_tags [names_intros]: "names (companion_tags vs)"
proof -
  have "names (companion_tag v)" for v
    unfolding companion_tag_def Let_def
    by (auto simp: record_reasons_def intro!: names_intros split: json.split)
  then show ?thesis by (induction vs) (auto intro!: names_intros)
qed

lemma names_sanitize_companion: "names (sanitize_companion_record parse_iso fs)"
  unfolding sanitize_companion_record_def
  by (auto simp: record_reasons_def intro!: names_intros split: json.split)

section \<open>What is accepted\<close>

lemma build_metadata_valid: "build_metadata parse_iso n fs work tags = Inr m \<Longrightarrow> public_metadata_valid m"
  by (auto simp: build_metadata_def bindr_Inr validated_def split: if_splits)

lemma sanitize_record_valid:
  "sanitize_record parse_iso fs = Inr m \<Longrightarrow> public_metadata_valid m \<and> member fs ''xRestrict'' = JInt 0"
  by (auto simp: sanitize_record_def bindr_Inr build_metadata_valid split: if_splits json.splits)

lemma sanitize_companion_valid:
  "sanitize_companion_record parse_iso fs = Inr m \<Longrightarrow>
     public_metadata_valid m \<and> member fs ''x_restrict'' \<in> {JInt 0, JInt 1, JInt 2}"
  by (auto simp: sanitize_companion_record_def bindr_Inr build_metadata_valid split: if_splits json.splits)

text \<open>The books of a run: \<open>n\<close> records seen, \<open>P\<close> what the accepted ones satisfy.\<close>

definition booked :: "(public_metadata \<Rightarrow> bool) \<Rightarrow> string set \<Rightarrow> int \<Rightarrow> sanitize_state \<Rightarrow> bool" where
  "booked P reasons n s \<longleftrightarrow>
     int (length (ss_accepted s)) + ss_rejected s + ss_skipped s = n \<and>
     distinct (map pm_work (ss_accepted s)) \<and> list_all P (ss_accepted s) \<and>
     set (ss_violations s) \<subseteq> reasons \<and> (ss_violations s = [] \<longrightarrow> ss_rejected s = 0)"

lemma booked_start: "booked P reasons 0 start_state"
  by (simp add: booked_def start_state_def)

lemma booked_accept: "booked P reasons n s \<Longrightarrow> P m \<Longrightarrow> booked P reasons (n + 1) (accept_record m s)"
  by (auto simp: booked_def accept_record_def)

lemma booked_refuse: "booked P reasons n s \<Longrightarrow> r \<in> reasons \<Longrightarrow> booked P reasons (n + 1) (refuse_item r s)"
  by (auto simp: booked_def refuse_item_def)

lemma booked_skip: "booked P reasons n s \<Longrightarrow> booked P reasons (n + 1) (s\<lparr>ss_skipped := ss_skipped s + 1\<rparr>)"
  by (auto simp: booked_def)

lemma booked_mono: "booked P reasons n s \<Longrightarrow> (\<And>m. P m \<Longrightarrow> Q m) \<Longrightarrow> booked Q reasons n s"
  by (auto simp: booked_def list_all_iff)

lemma sanitize_items_booked:
  assumes "sanitize_items skip convert vs s = Inr s'" and "booked P reasons n s"
    and "\<And>fs. names (convert fs)" and "set record_reasons \<subseteq> reasons"
    and "\<And>fs m. JObj fs \<in> set vs \<Longrightarrow> convert fs = Inr m \<Longrightarrow> P m"
  shows "booked P reasons (n + int (length vs)) s'"
  using assms(1,2,5)
proof (induction vs arbitrary: s n)
  case Nil
  then show ?case by simp
next
  case (Cons v vs)
  from Cons.prems(1) obtain s1 where i: "sanitize_item skip convert v s = Inr s1"
    and r: "sanitize_items skip convert vs s1 = Inr s'" by (auto simp: bindr_Inr)
  have object: "''record_not_object'' \<in> reasons" using assms(4) by (auto simp: record_reasons_def)
  have step: "booked P reasons (n + 1) s1"
  proof (cases "\<exists>fs. v = JObj fs")
    case True
    then obtain fs where v: "v = JObj fs" by blast
    show ?thesis
    proof (cases "convert fs")
      case (Inl e)
      have "safe_reason e \<in> reasons"
        using assms(3) [of fs] Inl named_reason assms(4) by (auto simp: names_def)
      then show ?thesis using i v Inl Cons.prems(2)
        by (auto simp: sanitize_item_def booked_skip booked_refuse split: if_splits refusal.splits)
    next
      case (Inr m)
      have "P m" using Cons.prems(3) [OF _ Inr] v by simp
      then show ?thesis using i v Inr Cons.prems(2)
        by (auto simp: sanitize_item_def booked_skip booked_accept split: if_splits)
    qed
  next
    case False
    then have "s1 = refuse_item ''record_not_object'' s"
      using i by (cases v) (auto simp: sanitize_item_def)
    then show ?thesis using booked_refuse [OF Cons.prems(2) object] by simp
  qed
  have "P m" if "JObj fs \<in> set vs" "convert fs = Inr m" for fs m
    using Cons.prems(3) [OF _ that(2)] that(1) by simp
  from Cons.IH [OF r step this] show ?case by (simp add: algebra_simps)
qed

text \<open>Where an accepted record comes from.\<close>

definition comes_from ::
  "(pystr \<Rightarrow> error + json) \<Rightarrow> (pystr \<Rightarrow> pydatetime option) \<Rightarrow> nat list \<Rightarrow> public_metadata \<Rightarrow> bool" where
  "comes_from loads parse_iso data m \<longleftrightarrow>
     (\<exists>payload. load_export loads data = Inr (Some payload) \<and> \<not> contains_secret_key payload \<and>
        ((\<exists>vs fs. payload = JArr vs \<and> JObj fs \<in> set vs \<and> member fs ''xRestrict'' = JInt 0 \<and>
            sanitize_record parse_iso fs = Inr m) \<or>
         (\<exists>root vs fs. payload = JObj root \<and> member root ''records'' = JArr vs \<and> JObj fs \<in> set vs \<and>
            member fs ''x_restrict'' \<in> {JInt 0, JInt 1, JInt 2} \<and>
            sanitize_companion_record parse_iso fs = Inr m)))"

lemma comes_from_valid: "comes_from loads parse_iso data m \<Longrightarrow> public_metadata_valid m"
  using sanitize_record_valid sanitize_companion_valid unfolding comes_from_def by blast

definition export_booked :: "(public_metadata \<Rightarrow> bool) \<Rightarrow> export_result \<Rightarrow> bool" where
  "export_booked P r \<longleftrightarrow>
     (case r of (records, report) \<Rightarrow>
        int (length records) = bp_accepted report \<and>
        bp_accepted report + bp_rejected report + bp_skipped report = bp_input_records report \<and>
        distinct (map pm_work records) \<and> list_all P records \<and>
        set (bp_violations report) \<subseteq> set export_reasons \<and>
        (bp_violations report = [] \<longrightarrow> bp_rejected report = 0) \<and>
        (bp_ready report \<longleftrightarrow> records \<noteq> [] \<and> bp_violations report = []))"

lemma refused_export_booked: "reason \<in> set export_reasons \<Longrightarrow> export_booked P (refused_export checked fmt sha n reason)"
  by (simp add: export_booked_def refused_export_def make_report_def)

lemma finished_export_booked:
  assumes "booked P (set export_reasons) (int n) s"
  shows "export_booked P (finished_export checked fmt sha n s)"
proof -
  have "first_seen (ss_violations s) = [] \<longleftrightarrow> ss_violations s = []"
    by (metis set_first_seen set_empty)
  then show ?thesis
    using assms by (auto simp: export_booked_def finished_export_def make_report_def booked_def)
qed

lemma export_reasons_refused:
  "set record_reasons \<subseteq> set export_reasons"
  "list_all (\<lambda>r. r \<in> set export_reasons)
     [''export_too_large'', ''invalid_json'', ''root_must_be_array'', ''root_must_be_object'',
      ''secret_shaped_field_forbidden'', ''too_many_records'', ''unsupported_root_field'',
      ''unsupported_source_format'', ''unsupported_schema_version'', ''generated_at_invalid'',
      ''records_must_be_array'', ''batch_file_count_out_of_range'', ''export_batch_too_large'',
      ''mixed_source_formats_forbidden'']"
  by (auto simp: export_reasons_def)

lemma powerful_booked:
  assumes "sanitize_powerful_pixiv_json digest loads parse_iso checked data = Inr r"
  shows "export_booked (comes_from loads parse_iso data) r"
proof -
  have items: "export_booked (comes_from loads parse_iso data) (finished_export checked downloader_format sha (length vs) s)"
    if l: "load_export loads data = Inr (Some (JArr vs))" and c: "\<not> contains_secret_key (JArr vs)"
      and s: "sanitize_items extra_page (sanitize_record parse_iso) vs start_state = Inr s" for vs s sha
  proof (rule finished_export_booked)
    have "comes_from loads parse_iso data m" if "JObj fs \<in> set vs" "sanitize_record parse_iso fs = Inr m" for fs m
      using sanitize_record_valid [OF that(2)] that l c unfolding comes_from_def
      by (intro exI [of _ "JArr vs"]) (simp add: exI [of _ fs] del: contains_secret_key.simps)
    from sanitize_items_booked [OF s booked_start names_sanitize_record export_reasons_refused(1) this]
    show "booked (comes_from loads parse_iso data) (set export_reasons) (int (length vs)) s" by simp
  qed
  have refused: "r' \<in> set export_reasons \<Longrightarrow>
      export_booked (comes_from loads parse_iso data) (refused_export checked downloader_format sha n r')"
    for r' sha n by (rule refused_export_booked)
  show ?thesis
  proof (cases "10000000 < length data")
    case True
    then show ?thesis using assms refused export_reasons_refused(2)
      by (auto simp: sanitize_powerful_pixiv_json_def Let_def)
  next
    case False
    then obtain payload where l: "load_export loads data = Inr payload"
      using assms by (auto simp: sanitize_powerful_pixiv_json_def Let_def bindr_Inr)
    show ?thesis
    proof (cases "\<exists>vs. payload = Some (JArr vs)")
      case True
      then obtain vs where vs: "payload = Some (JArr vs)" by blast
      show ?thesis
        using assms False l refused export_reasons_refused(2) items [of vs]
        by (auto simp: sanitize_powerful_pixiv_json_def Let_def vs bindr_Inr
            simp del: contains_secret_key.simps split: if_splits)
    next
      case other: False
      then have "r = refused_export checked downloader_format (sha_hex digest data) 0 ''invalid_json'' \<or>
          r = refused_export checked downloader_format (sha_hex digest data) 0 ''root_must_be_array''"
        using assms False l
        by (cases payload; cases "the payload") (auto simp: sanitize_powerful_pixiv_json_def Let_def)
      then show ?thesis using refused export_reasons_refused(2) by auto
    qed
  qed
qed

lemma companion_booked:
  assumes "sanitize_pyuri_browser_companion_json digest loads parse_iso checked data = Inr r"
  shows "export_booked (comes_from loads parse_iso data) r"
proof -
  have items: "export_booked (comes_from loads parse_iso data) (finished_export checked companion_format sha (length vs) s)"
    if l: "load_export loads data = Inr (Some (JObj root))" and c: "\<not> contains_secret_key (JObj root)"
      and m: "member root ''records'' = JArr vs"
      and s: "sanitize_items (\<lambda>_. False) (sanitize_companion_record parse_iso) vs start_state = Inr s"
    for root vs s sha
  proof (rule finished_export_booked)
    have "comes_from loads parse_iso data x"
      if "JObj fs \<in> set vs" "sanitize_companion_record parse_iso fs = Inr x" for fs x
      using sanitize_companion_valid [OF that(2)] that l c m unfolding comes_from_def
      by (intro exI [of _ "JObj root"]) (auto simp del: contains_secret_key.simps)
    from sanitize_items_booked [OF s booked_start names_sanitize_companion export_reasons_refused(1) this]
    show "booked (comes_from loads parse_iso data) (set export_reasons) (int (length vs)) s" by simp
  qed
  have refused: "r' \<in> set export_reasons \<Longrightarrow>
      export_booked (comes_from loads parse_iso data) (refused_export checked companion_format sha n r')"
    for r' sha n by (rule refused_export_booked)
  show ?thesis
  proof (cases "10000000 < length data")
    case True
    then show ?thesis using assms refused export_reasons_refused(2)
      by (auto simp: sanitize_pyuri_browser_companion_json_def Let_def)
  next
    case False
    then obtain payload where l: "load_export loads data = Inr payload"
      using assms by (auto simp: sanitize_pyuri_browser_companion_json_def Let_def bindr_Inr)
    show ?thesis
    proof (cases "\<exists>root. payload = Some (JObj root)")
      case True
      then obtain root where root: "payload = Some (JObj root)" by blast
      show ?thesis
        using assms False l refused export_reasons_refused(2) items [of root]
        by (auto simp: sanitize_pyuri_browser_companion_json_def Let_def root bindr_Inr
            simp del: contains_secret_key.simps split: if_splits sum.splits refusal.splits json.splits)
    next
      case other: False
      then have "r = refused_export checked companion_format (sha_hex digest data) 0 ''invalid_json'' \<or>
          r = refused_export checked companion_format (sha_hex digest data) 0 ''root_must_be_object''"
        using assms False l
        by (cases payload; cases "the payload") (auto simp: sanitize_pyuri_browser_companion_json_def Let_def)
      then show ?thesis using refused export_reasons_refused(2) by auto
    qed
  qed
qed

lemma export_json_booked:
  assumes "sanitize_browser_export_json digest loads parse_iso checked data = Inr r"
  shows "export_booked (comes_from loads parse_iso data) r"
proof -
  have "sanitize_pyuri_browser_companion_json digest loads parse_iso checked data = Inr r \<or>
      sanitize_powerful_pixiv_json digest loads parse_iso checked data = Inr r"
  proof -
    obtain payload where "load_export loads data = Inr payload"
      using assms by (auto simp: sanitize_browser_export_json_def bindr_Inr)
    then show ?thesis
      using assms by (cases payload; cases "the payload") (auto simp: sanitize_browser_export_json_def)
  qed
  then show ?thesis using powerful_booked companion_booked by blast
qed

section \<open>The batch\<close>

lemma booked_accept_all:
  "booked P reasons n s \<Longrightarrow> list_all P records \<Longrightarrow>
     booked P reasons (n + int (length records)) (fold accept_record records s)"
proof (induction records arbitrary: n s)
  case (Cons m records)
  then show ?case using booked_accept [of P reasons n s m] Cons.IH [of "n + 1" "accept_record m s"]
    by (simp add: algebra_simps)
qed simp

lemma merge_export_booked:
  assumes "export_booked P r" and "booked P (set export_reasons) (bs_records b) (bs_merge b)"
  shows "booked P (set export_reasons) (bs_records (merge_export r b)) (bs_merge (merge_export r b))"
proof -
  obtain records report where r: "r = (records, report)" by (metis surj_pair)
  let ?m = "bs_merge b"
  let ?s = "?m\<lparr>ss_rejected := ss_rejected ?m + bp_rejected report, ss_skipped := ss_skipped ?m + bp_skipped report,
    ss_violations := ss_violations ?m @ bp_violations report\<rparr>"
  have "booked P (set export_reasons) (bs_records b + bp_rejected report + bp_skipped report) ?s"
    using assms by (auto simp: booked_def export_booked_def r)
  from booked_accept_all [OF this, of records] assms(1) show ?thesis
    by (simp add: merge_export_def r Let_def export_booked_def algebra_simps)
qed

lemma merge_exports_booked:
  assumes "merge_exports sanitize exports b = Inr b'"
    and "\<And>data r. data \<in> set exports \<Longrightarrow> sanitize data = Inr r \<Longrightarrow> export_booked P r"
    and "booked P (set export_reasons) (bs_records b) (bs_merge b)"
  shows "booked P (set export_reasons) (bs_records b') (bs_merge b')"
  using assms
proof (induction exports arbitrary: b)
  case Nil
  then show ?case by simp
next
  case (Cons data rest)
  from Cons.prems(1) obtain r where r: "sanitize data = Inr r"
    and rest: "merge_exports sanitize rest (merge_export r b) = Inr b'" by (auto simp: bindr_Inr)
  have first: "export_booked P r" using Cons.prems(2) [OF _ r] by simp
  have "export_booked P r'" if "data' \<in> set rest" "sanitize data' = Inr r'" for data' r'
    using Cons.prems(2) [OF _ that(2)] that(1) by simp
  from Cons.IH [OF rest this merge_export_booked [OF first Cons.prems(3)]] show ?case .
qed

lemma export_booked_mono: "export_booked P r \<Longrightarrow> (\<And>m. P m \<Longrightarrow> Q m) \<Longrightarrow> export_booked Q r"
  by (auto simp: export_booked_def list_all_iff split: prod.splits)

lemma batch_booked:
  assumes "sanitize_browser_export_batch digest loads parse_iso now exports = Inr r"
  shows "export_booked (\<lambda>m. \<exists>data \<in> set exports. comes_from loads parse_iso data m) r"
proof -
  let ?P = "\<lambda>m. \<exists>data \<in> set exports. comes_from loads parse_iso data m"
  obtain checked where c: "utc_of now = Inr checked"
    using assms by (cases "utc_of now") (simp_all add: sanitize_browser_export_batch_def)
  have refused: "export_booked ?P ([], make_report checked downloader_format sha n 0 0 0 0 [reason])"
    if "reason \<in> set export_reasons" for sha n reason
    using that by (simp add: export_booked_def make_report_def)
  have one: "export_booked ?P r'"
    if "data \<in> set exports" "sanitize_browser_export_json digest loads parse_iso checked data = Inr r'" for data r'
    by (rule export_booked_mono [OF export_json_booked [OF that(2)]]) (rule bexI [OF _ that(1)])
  let ?bad = "exports = [] \<or> 25 < length exports \<or> 10000000 < sum_list (map length exports)"
  consider (bad) ?bad | (single) "\<not> ?bad" "length exports = 1" | (many) "\<not> ?bad" "length exports \<noteq> 1"
    by blast
  then show ?thesis
  proof cases
    case bad
    then show ?thesis
      using assms refused export_reasons_refused(2) by (auto simp: sanitize_browser_export_batch_def c Let_def split: if_splits)
  next
    case single
    then obtain data where "exports = [data]" by (auto simp: length_Suc_conv)
    then show ?thesis using assms single(1) one [of data r] by (simp add: sanitize_browser_export_batch_def c)
  next
    case many
    then have ok: "\<not> (exports = [] \<or> 25 < length exports)" "\<not> 10000000 < sum_list (map length exports)"
      by simp_all
    let ?b0 = "\<lparr>bs_merge = start_state, bs_formats = [], bs_records = 0\<rparr>"
    from assms ok many(2) obtain b where m: "merge_exports (sanitize_browser_export_json digest loads parse_iso checked)
        exports ?b0 = Inr b"
      and r: "r = (ss_accepted (bs_merge b), make_report checked (hd (bs_formats b)) (batch_hash digest exports)
        (int (length exports)) (bs_records b) (int (length (ss_accepted (bs_merge b))))
        (ss_rejected (bs_merge b)) (ss_skipped (bs_merge b)) (first_seen (ss_violations (bs_merge b) @
          (if mixed_formats (bs_formats b) then [''mixed_source_formats_forbidden''] else []))))"
      by (auto simp: sanitize_browser_export_batch_def c Let_def bindr_Inr)
    have "booked ?P (set export_reasons) (bs_records b) (bs_merge b)"
      by (rule merge_exports_booked [OF m one]) (simp_all add: booked_start)
    moreover have "first_seen xs = [] \<longleftrightarrow> xs = []" for xs :: "string list"
      by (metis set_first_seen set_empty)
    ultimately show ?thesis
      using export_reasons_refused(2) by (auto simp: export_booked_def r make_report_def booked_def)
  qed
qed

section \<open>Properties\<close>

text \<open>
  C12: A sanitized batch is safe to hand on.  Whatever bytes the exports hold, when the sanitation
  returns: the accepted, rejected and skipped records add up to those of the input; no work is
  accepted twice; every accepted record has every field in its range and comes from an export without
  a secret-shaped key at any depth, out of an object whose rating is proved all-ages or, in the
  companion format, one of the three permitted; a violation is one of a fixed list of reason codes,
  whatever the input says; and the report is ready exactly when something was accepted and nothing
  objected to, so that nothing was rejected.
\<close>

theorem sanitized_batch_is_safe:
  assumes "sanitize_browser_export_batch digest loads parse_iso now exports = Inr (records, report)"
  shows "int (length records) = bp_accepted report \<and>
     bp_accepted report + bp_rejected report + bp_skipped report = bp_input_records report \<and>
     distinct (map pm_work records) \<and> list_all public_metadata_valid records \<and>
     list_all (\<lambda>m. \<exists>data \<in> set exports. comes_from loads parse_iso data m) records \<and>
     set (bp_violations report) \<subseteq> set export_reasons \<and>
     (bp_ready report \<longleftrightarrow> records \<noteq> [] \<and> bp_violations report = []) \<and>
     (bp_ready report \<longrightarrow> bp_rejected report = 0)"
  using batch_booked [OF assms] comes_from_valid
  by (fastforce simp: export_booked_def list_all_iff)

definition sample_object :: "(pystr \<times> json) list" where
  "sample_object =
     [(lit ''idNum'', JInt 7), (lit ''xRestrict'', JInt 0), (lit ''title'', JStr (lit ''t'')),
      (lit ''userId'', JStr (lit ''a'')), (lit ''user'', JStr (lit ''n'')), (lit ''tags'', JArr []),
      (lit ''date'', JStr (lit ''d'')), (lit ''pageCount'', JInt 1), (lit ''fullWidth'', JInt 2),
      (lit ''fullHeight'', JInt 3)]"

definition sample_metadata :: public_metadata where
  "sample_metadata =
     \<lparr>pm_work = lit ''7'', pm_title = lit ''t'', pm_author = lit ''a'', pm_author_name = lit ''n'',
      pm_tags = [], pm_created_at = 0, pm_page_count = 1, pm_width = 2, pm_height = 3, pm_views = None,
      pm_bookmarks = None, pm_likes = None\<rparr>"

lemma sample_not_secret: "\<not> contains_secret_key (JArr [JObj sample_object, JNull])"
  by (simp add: sample_object_def secret_shaped_def normalized_key_def py_lower_def lower_char_def
      ascii_lower_char_def py_strip_def is_py_space_def lit_def secret_keys_def)

lemma sample_record: "sanitize_record (\<lambda>_. Some (utc 0)) sample_object = Inr sample_metadata"
proof -
  have "in_datetime_range 0" by code_simp
  moreover have "show_int 7 = lit ''7''" by code_simp
  ultimately show ?thesis
    by (simp add: sanitize_record_def sample_object_def sample_metadata_def known_keys_def member_def
        supported_source_keys_def lit_def build_metadata_def downloader_fields_def string_of_def integer_of_def
        optional_integer_of_def string_list_of_def optional_string_list_of_def datetime_of_def utc_of_def
        validated_def public_metadata_valid_def str_field_def int_field_def count_field_def
        utf8_encodable_def is_surrogate_def)
qed

lemma sample_sanitized:
  "sanitize_browser_export_batch (\<lambda>_. [1]) (\<lambda>_. Inr (JArr [JObj sample_object, JNull])) (\<lambda>_. Some (utc 0))
     (utc 5) [[91]] =
   Inr ([sample_metadata], make_report 5 downloader_format (sha_hex (\<lambda>_. [1]) [91]) 1 2 1 1 0
     [''record_not_object''])"
proof -
  have "utc_of (utc 5) = Inr 5" "\<not> extra_page sample_object" by code_simp+
  moreover have "load_export (\<lambda>_. Inr (JArr [JObj sample_object, JNull])) [91] =
      Inr (Some (JArr [JObj sample_object, JNull]))"
    by (simp add: load_export_def decode_sig_def)
  ultimately show ?thesis
    using sample_not_secret
    by (simp add: sanitize_browser_export_batch_def sanitize_browser_export_json_def
        sanitize_powerful_pixiv_json_def sanitize_item_def sample_record accept_record_def refuse_item_def
        start_state_def finished_export_def first_seen_def Let_def del: contains_secret_key.simps)
qed

theorem sanitized_batch_is_safe_witness:
  "\<exists>records report. sanitize_browser_export_batch (\<lambda>_. [1]) (\<lambda>_. Inr (JArr [JObj sample_object, JNull]))
     (\<lambda>_. Some (utc 0)) (utc 5) [[91]] = Inr (records, report) \<and> list_all public_metadata_valid records \<and> length records = 1 \<and>
     bp_rejected report = 1"
  by (intro exI conjI, rule sample_sanitized)
    (use sanitized_batch_is_safe [OF sample_sanitized] in \<open>simp_all add: make_report_def\<close>)

text \<open>
  A timestamp whose UTC form lies outside of the years a \<open>datetime\<close> has is not refused as a record: its
  \<open>OverflowError\<close> ends the whole sanitation.
\<close>

lemma overflowing_date_escapes:
  assumes "load_export loads data = Inr (Some (JArr [JObj fs]))"
    and "\<not> contains_secret_key (JArr [JObj fs])" and "length data \<le> 10000000" and "\<not> extra_page fs"
    and "sanitize_record parse_iso fs = Inl Escapes" and "utc_of now = Inr checked"
  shows "sanitize_browser_export_batch digest loads parse_iso now [data] = Inl OtherError"
  using assms
  by (simp add: sanitize_browser_export_batch_def sanitize_browser_export_json_def
      sanitize_powerful_pixiv_json_def sanitize_item_def Let_def del: contains_secret_key.simps)

lemma early_date_overflows:
  "utc_of \<lparr>wall = - days 719162, tz = TzOffset (minutes 60)\<rparr> = Inl Escapes"
  by code_simp

end
