(* ===== verification/NovelStats.thy ===== *)
theory NovelStats
  imports Snapshots
begin

text \<open>
  The descriptive statistics of \<open>src/pixiv_yuri/jjwxc/analytics.py\<close>, with every float operation of the
  code rounded to binary64.  \<open>sum\<close> of floats is the compensated sum of Python 3.12; \<open>fmean\<close> divides
  the exactly rounded sum; a square is the rounded product; \<open>log1p\<close> of the C library and the correctly
  rounded square root \<open>sqrt_of\<close> of \<open>math.sqrt\<close> and \<open>pstdev\<close> are parameters.  The display labels are left out.
\<close>

section \<open>Float arithmetic\<close>

abbreviation fadd :: "rat \<Rightarrow> rat \<Rightarrow> rat" where
  "fadd x y \<equiv> double (x + y)"

abbreviation fsub :: "rat \<Rightarrow> rat \<Rightarrow> rat" where
  "fsub x y \<equiv> double (x - y)"

abbreviation fmul :: "rat \<Rightarrow> rat \<Rightarrow> rat" where
  "fmul x y \<equiv> double (x * y)"

abbreviation fdiv :: "rat \<Rightarrow> rat \<Rightarrow> rat" where
  "fdiv x y \<equiv> double (x / y)"

abbreviation to_float :: "int \<Rightarrow> rat" where
  "to_float n \<equiv> double (of_int n)"

text \<open>The compensated sum: a running total and the rounding errors made so far.\<close>

fun compensated :: "rat \<Rightarrow> rat \<Rightarrow> rat list \<Rightarrow> rat" where
  "compensated s c [] = (if c = 0 then s else fadd s c)"
| "compensated s c (x # xs) =
     (let t = fadd s x
      in compensated t
           (fadd c (if \<bar>x\<bar> \<le> \<bar>s\<bar> then fadd (fsub s t) x else fadd (fsub x t) s)) xs)"

definition py_sum :: "rat list \<Rightarrow> rat" where
  "py_sum xs = (case xs of [] \<Rightarrow> 0 | x # rest \<Rightarrow> compensated x 0 rest)"

definition fmean :: "rat list \<Rightarrow> rat" where
  "fmean xs = fdiv (double (sum_list xs)) (of_nat (length xs))"

definition median :: "rat list \<Rightarrow> rat" where
  "median xs =
     (let ordered = sort xs; n = length xs
      in if odd n then ordered ! (n div 2)
         else fdiv (fadd (ordered ! (n div 2 - 1)) (ordered ! (n div 2))) 2)"

definition pstdev :: "(rat \<Rightarrow> rat) \<Rightarrow> rat list \<Rightarrow> rat" where
  "pstdev sqrt_of xs =
     (let n = of_nat (length xs); m = sum_list xs / n
      in sqrt_of (sum_list (map (\<lambda>x. (x - m)\<^sup>2) xs) / n))"

text \<open>\<open>round(a * 10_000 / b)\<close> of a share of a total.\<close>

definition share_basis_points :: "nat \<Rightarrow> nat \<Rightarrow> int" where
  "share_basis_points a b = (if b = 0 then 0 else round_half_even (fdiv (of_nat a * 10000) (of_nat b)))"

section \<open>Metrics\<close>

datatype novel_metric =
    MReviews | MFavorites | MNutrition | MFirstClicks | MLoyalty | MClickFavorite | MPoints | MWords
  | MClicks | MVClicks | MVRetention | MSynopsisChars

definition novel_metrics :: "novel_metric list" where
  "novel_metrics =
     [MReviews, MFavorites, MNutrition, MFirstClicks, MLoyalty, MClickFavorite, MPoints, MWords, MClicks,
      MVClicks, MVRetention, MSynopsisChars]"

fun metric_attribute :: "novel_metric \<Rightarrow> novel \<Rightarrow> int option" where
  "metric_attribute MReviews n = Some (nv_review_count n)"
| "metric_attribute MFavorites n = Some (nv_favorite_count n)"
| "metric_attribute MNutrition n = nv_nutrition_count n"
| "metric_attribute MFirstClicks n = nv_first_chapter_click_count n"
| "metric_attribute MLoyalty n = nutrition_to_favorite n"
| "metric_attribute MClickFavorite n = first_click_to_favorite n"
| "metric_attribute MPoints n = Some (nv_points n)"
| "metric_attribute MWords n = Some (nv_word_count n)"
| "metric_attribute MClicks n = nv_average_non_v n"
| "metric_attribute MVClicks n = nv_average_v n"
| "metric_attribute MVRetention n = v_to_non_v_retention n"
| "metric_attribute MSynopsisChars n = nv_synopsis_chars n"

definition metric_divisor :: "novel_metric \<Rightarrow> rat" where
  "metric_divisor m = (if m \<in> {MLoyalty, MClickFavorite, MVRetention} then 10000 else 1)"

definition correlation_metrics :: "novel_metric list" where
  "correlation_metrics = filter (\<lambda>m. m \<noteq> MVClicks) novel_metrics"

definition scaled_value :: "novel_metric \<Rightarrow> novel \<Rightarrow> rat option" where
  "scaled_value m n = map_option (\<lambda>v. fdiv (to_float v) (metric_divisor m)) (metric_attribute m n)"

section \<open>Percentiles and distributions\<close>

definition percentile :: "rat list \<Rightarrow> rat \<Rightarrow> rat" where
  "percentile values fraction =
     (let ordered = sort values
      in if length ordered = 1 then ordered ! 0
         else let position = fmul (of_nat (length ordered - 1)) fraction;
                  lower = nat (trunc_int position);
                  upper = min (lower + 1) (length ordered - 1);
                  weight = fsub position (of_nat lower)
              in fadd (fmul (ordered ! lower) (fsub 1 weight)) (fmul (ordered ! upper) weight))"

record metric_statistics =
  mt_metric :: novel_metric
  mt_observed :: int
  mt_missing :: int
  mt_coverage :: int
  mt_minimum :: "rat option"
  mt_maximum :: "rat option"
  mt_mean :: "rat option"
  mt_median :: "rat option"
  mt_deviation :: "rat option"
  mt_p25 :: "rat option"
  mt_p75 :: "rat option"
  mt_variation :: "rat option"

definition metric_summary :: "(rat \<Rightarrow> rat) \<Rightarrow> novel list \<Rightarrow> novel_metric \<Rightarrow> metric_statistics" where
  "metric_summary sqrt_of novels m =
     (let values = List.map_filter (scaled_value m) novels;
          observed = length values;
          present = (\<lambda>v. if values = [] then None else Some v);
          mean = fmean values; deviation = pstdev sqrt_of values
      in \<lparr>mt_metric = m, mt_observed = int observed, mt_missing = int (length novels) - int observed,
          mt_coverage = share_basis_points observed (length novels),
          mt_minimum = present (Min (set values)), mt_maximum = present (Max (set values)),
          mt_mean = present mean, mt_median = present (median values), mt_deviation = present deviation,
          mt_p25 = present (percentile values (1 / 4)), mt_p75 = present (percentile values (3 / 4)),
          mt_variation = (if values = [] \<or> mean = 0 then None else Some (fdiv deviation mean))\<rparr>)"

record distribution =
  ds_observed :: int
  ds_top_count :: int
  ds_bottom_count :: int
  ds_top_mean :: "rat option"
  ds_bottom_mean :: "rat option"
  ds_lower_whisker :: "rat option"
  ds_p25 :: "rat option"
  ds_median :: "rat option"
  ds_p75 :: "rat option"
  ds_upper_whisker :: "rat option"
  ds_outliers :: "rat list"

definition empty_distribution :: distribution where
  "empty_distribution =
     \<lparr>ds_observed = 0, ds_top_count = 0, ds_bottom_count = 0, ds_top_mean = None, ds_bottom_mean = None,
      ds_lower_whisker = None, ds_p25 = None, ds_median = None, ds_p75 = None, ds_upper_whisker = None,
      ds_outliers = []\<rparr>"

definition distribution_summary :: "rat list \<Rightarrow> int \<Rightarrow> error + distribution" where
  "distribution_summary values group_size =
     (if \<not> (1 \<le> group_size \<and> group_size \<le> 10) then Inl ValueError
      else let ordered = sort (map double values)
        in if ordered = [] then Inr empty_distribution
           else let p25 = percentile ordered (1 / 4); middle = percentile ordered (1 / 2);
                    p75 = percentile ordered (3 / 4);
                    iqr = fsub p75 p25;
                    lower_fence = fsub p25 (fmul (3 / 2) iqr); upper_fence = fadd p75 (fmul (3 / 2) iqr);
                    inliers = filter (\<lambda>v. lower_fence \<le> v \<and> v \<le> upper_fence) ordered;
                    k = min (nat group_size) (length ordered)
                in Inr \<lparr>ds_observed = int (length ordered), ds_top_count = int k, ds_bottom_count = int k,
                     ds_top_mean = Some (fmean (drop (length ordered - k) ordered)),
                     ds_bottom_mean = Some (fmean (take k ordered)),
                     ds_lower_whisker = Some (if inliers = [] then hd ordered else Min (set inliers)),
                     ds_p25 = Some p25, ds_median = Some middle, ds_p75 = Some p75,
                     ds_upper_whisker = Some (if inliers = [] then last ordered else Max (set inliers)),
                     ds_outliers = filter (\<lambda>v. v < lower_fence \<or> upper_fence < v) ordered\<rparr>)"

section \<open>Cohort indicators\<close>

record research_indicators =
  ri_cohort :: int
  ri_nutrition_observed :: int
  ri_nutrition_coverage :: int
  ri_loyalty :: "rat option"
  ri_click_favorite_observed :: int
  ri_click_favorite_median :: "rat option"
  ri_serial_observed :: int
  ri_serial_mean :: "rat option"
  ri_completed_observed :: int
  ri_completed_mean :: "rat option"
  ri_completed_to_serial :: "rat option"

definition optional_mean :: "rat list \<Rightarrow> rat option" where
  "optional_mean xs = (if xs = [] then None else Some (fmean xs))"

definition nutrition_of_status :: "novel_status \<Rightarrow> novel list \<Rightarrow> rat list" where
  "nutrition_of_status st novels =
     map to_float (List.map_filter nv_nutrition_count (filter (\<lambda>n. nv_status n = st) novels))"

definition click_favorite_ratios :: "novel list \<Rightarrow> rat list" where
  "click_favorite_ratios novels =
     List.map_filter (\<lambda>n. case nv_first_chapter_click_count n of
         None \<Rightarrow> None
       | Some k \<Rightarrow> if 0 < nv_favorite_count n then Some (fdiv (of_int k) (of_int (nv_favorite_count n))) else None)
       novels"

definition research_indicator_summary :: "novel list \<Rightarrow> research_indicators" where
  "research_indicator_summary novels =
     (let fed = filter (\<lambda>n. nv_nutrition_count n \<noteq> None) novels;
          nutrition_sum = sum_list (List.map_filter nv_nutrition_count fed);
          favorite_sum = sum_list (map nv_favorite_count fed);
          ratios = click_favorite_ratios novels;
          serial = nutrition_of_status Serialised novels; completed = nutrition_of_status Finished novels;
          serial_mean = optional_mean serial; completed_mean = optional_mean completed
      in \<lparr>ri_cohort = int (length novels), ri_nutrition_observed = int (length fed),
          ri_nutrition_coverage = share_basis_points (length fed) (length novels),
          ri_loyalty = (if favorite_sum = 0 then None
                        else Some (fdiv (of_int nutrition_sum) (of_int favorite_sum))),
          ri_click_favorite_observed = int (length ratios),
          ri_click_favorite_median = (if ratios = [] then None else Some (median ratios)),
          ri_serial_observed = int (length serial), ri_serial_mean = serial_mean,
          ri_completed_observed = int (length completed), ri_completed_mean = completed_mean,
          ri_completed_to_serial =
            (case (completed_mean, serial_mean) of
               (Some a, Some b) \<Rightarrow> if 0 < b then Some (fdiv a b) else None
             | _ \<Rightarrow> None)\<rparr>)"

section \<open>Correlation\<close>

definition pearson :: "(rat \<Rightarrow> rat) \<Rightarrow> (rat \<times> rat) list \<Rightarrow> rat option" where
  "pearson sqrt_of pairs =
     (if length pairs < 2 then None
      else let xs = map fst pairs; ys = map snd pairs; mx = fmean xs; my = fmean ys;
               numerator = py_sum (map (\<lambda>(x, y). fmul (fsub x mx) (fsub y my)) pairs);
               scale = (\<lambda>vs m. sqrt_of (py_sum (map (\<lambda>v. fmul (fsub v m) (fsub v m)) vs)));
               sx = scale xs mx; sy = scale ys my
           in if sx = 0 \<or> sy = 0 then None
              else Some (max (- 1) (min 1 (fdiv numerator (fmul sx sy)))))"

text \<open>The counts of a validated \<open>JjwxcNovel\<close> are not negative (\<open>Field(ge=0)\<close>), so \<open>math.log1p\<close> does not raise here.\<close>

definition log_standardized_pearson ::
  "(rat \<Rightarrow> rat) \<Rightarrow> (rat \<Rightarrow> rat) \<Rightarrow> (rat \<times> rat) list \<Rightarrow> rat option" where
  "log_standardized_pearson log1p sqrt_of pairs =
     (if length pairs < 2 then None
      else let transformed = map (\<lambda>(x, y). (log1p x, log1p y)) pairs;
               xs = map fst transformed; ys = map snd transformed;
               mx = fmean xs; my = fmean ys; sx = pstdev sqrt_of xs; sy = pstdev sqrt_of ys
           in if sx = 0 \<or> sy = 0 then None
              else pearson sqrt_of (map (\<lambda>(x, y). (fdiv (fsub x mx) sx, fdiv (fsub y my) sy)) transformed))"

record correlation_cell =
  ce_x :: novel_metric
  ce_y :: novel_metric
  ce_paired :: int
  ce_coefficient :: "rat option"

definition metric_pairs :: "novel_metric \<Rightarrow> novel_metric \<Rightarrow> novel list \<Rightarrow> (rat \<times> rat) list" where
  "metric_pairs x y novels =
     List.map_filter (\<lambda>n. case (scaled_value x n, scaled_value y n) of
       (Some a, Some b) \<Rightarrow> Some (a, b) | _ \<Rightarrow> None) novels"

definition correlation_cell_of ::
  "(rat \<Rightarrow> rat) \<Rightarrow> (rat \<Rightarrow> rat) \<Rightarrow> novel list \<Rightarrow> novel_metric \<Rightarrow> novel_metric \<Rightarrow> correlation_cell" where
  "correlation_cell_of log1p sqrt_of novels y x =
     (let pairs = metric_pairs x y novels
      in \<lparr>ce_x = x, ce_y = y, ce_paired = int (length pairs),
          ce_coefficient = log_standardized_pearson log1p sqrt_of pairs\<rparr>)"

definition correlation_matrix ::
  "(rat \<Rightarrow> rat) \<Rightarrow> (rat \<Rightarrow> rat) \<Rightarrow> novel list \<Rightarrow> correlation_cell list" where
  "correlation_matrix log1p sqrt_of novels =
     concat (map (\<lambda>y. map (correlation_cell_of log1p sqrt_of novels y) correlation_metrics) correlation_metrics)"

section \<open>Timelines\<close>

datatype timeline_metric = TReviews | TFavorites | TPoints | TWords | TClicks | TVClicks

definition timeline_metrics :: "timeline_metric list" where
  "timeline_metrics = [TReviews, TFavorites, TPoints, TWords, TClicks, TVClicks]"

record trend_point =
  tp_day :: pystr
  tp_value :: "timeline_metric \<Rightarrow> rat option"

definition baseline :: "trend_point list \<Rightarrow> timeline_metric \<Rightarrow> rat option" where
  "baseline trends m = find (\<lambda>v. v \<noteq> 0) (List.map_filter (\<lambda>p. map_option double (tp_value p m)) trends)"

definition indexed_value :: "trend_point list \<Rightarrow> trend_point \<Rightarrow> timeline_metric \<Rightarrow> int option" where
  "indexed_value trends p m =
     (case (tp_value p m, baseline trends m) of
        (Some v, Some b) \<Rightarrow> Some (round_half_even (fdiv (fmul (double v) 10000) b))
      | _ \<Rightarrow> None)"

definition normalized_timeline ::
  "trend_point list \<Rightarrow> (pystr \<times> (timeline_metric \<times> int option) list) list" where
  "normalized_timeline trends =
     map (\<lambda>p. (tp_day p, map (\<lambda>m. (m, indexed_value trends p m)) timeline_metrics)) trends"

section \<open>Correlation coefficients\<close>

lemma pearson_bounds: "pearson sqrt_of pairs = Some r \<Longrightarrow> - 1 \<le> r \<and> r \<le> 1"
  by (auto simp: pearson_def Let_def split: if_splits)

lemma log_pearson_bounds: "log_standardized_pearson log1p sqrt_of pairs = Some r \<Longrightarrow> - 1 \<le> r \<and> r \<le> 1"
  by (auto simp: log_standardized_pearson_def Let_def pearson_bounds split: if_splits)

lemma map_swap_components: "map fst (map prod.swap ps) = map snd ps" "map snd (map prod.swap ps) = map fst ps"
  by (induction ps) auto

lemma pearson_swap: "pearson sqrt_of (map prod.swap pairs) = pearson sqrt_of pairs"
proof -
  have n: "map (\<lambda>(x, y). fmul (fsub x a) (fsub y b)) (map prod.swap ps) =
      map (\<lambda>(x, y). fmul (fsub x b) (fsub y a)) ps" for a b ps
    by (induction ps) (auto simp: mult.commute)
  show ?thesis
    unfolding pearson_def Let_def map_swap_components n length_map
    by (simp add: mult.commute disj_commute)
qed

lemma log_pearson_swap:
  "log_standardized_pearson log1p sqrt_of (map prod.swap pairs) = log_standardized_pearson log1p sqrt_of pairs"
proof -
  have m: "map (\<lambda>(x, y). (f x, f y)) (map prod.swap ps) = map prod.swap (map (\<lambda>(x, y). (f x, f y)) ps)"
    for f :: "rat \<Rightarrow> rat" and ps
    by (induction ps) auto
  have n: "map (\<lambda>(x, y). (f x, g y)) (map prod.swap ps) = map prod.swap (map (\<lambda>(x, y). (g x, f y)) ps)"
    for f g :: "rat \<Rightarrow> rat" and ps
    by (induction ps) auto
  show ?thesis
    unfolding log_standardized_pearson_def Let_def m map_swap_components n pearson_swap length_map
    by (simp add: disj_commute)
qed

lemma metric_pairs_swap: "metric_pairs y x novels = map prod.swap (metric_pairs x y novels)"
  unfolding metric_pairs_def by (induction novels) (auto simp: List.map_filter_simps split: option.splits)

lemma correlation_cell_at:
  assumes "x \<in> set correlation_metrics" and "y \<in> set correlation_metrics"
  shows "correlation_cell_of log1p sqrt_of novels y x \<in> set (correlation_matrix log1p sqrt_of novels)"
  using assms by (auto simp: correlation_matrix_def)

lemma length_correlation_matrix: "length (correlation_matrix log1p sqrt_of novels) = 121"
  by (simp add: correlation_matrix_def correlation_metrics_def novel_metrics_def)

section \<open>Distributions\<close>

lemma distribution_partition:
  assumes "distribution_summary values g = Inr r" and "values \<noteq> []"
  obtains lo hi where
    "ds_outliers r = filter (\<lambda>v. v < lo \<or> hi < v) (sort (map double values))"
    "\<And>v. v \<in> set (map double values) \<Longrightarrow> v \<notin> set (ds_outliers r) \<Longrightarrow>
       the (ds_lower_whisker r) \<le> v \<and> v \<le> the (ds_upper_whisker r)"
    "ds_observed r = int (length values)" "ds_top_count r = int (min (nat g) (length values))"
proof -
  let ?o = "sort (map double values)"
  have ne: "?o \<noteq> []" using assms(2) by (metis length_0_conv length_map length_sort)
  define p25 where "p25 = percentile ?o (1 / 4)"
  define p75 where "p75 = percentile ?o (3 / 4)"
  define lo where "lo = fsub p25 (fmul (3 / 2) (fsub p75 p25))"
  define hi where "hi = fadd p75 (fmul (3 / 2) (fsub p75 p25))"
  let ?in = "filter (\<lambda>v. lo \<le> v \<and> v \<le> hi) ?o"
  have r: "ds_outliers r = filter (\<lambda>v. v < lo \<or> hi < v) ?o"
    "ds_lower_whisker r = Some (if ?in = [] then hd ?o else Min (set ?in))"
    "ds_upper_whisker r = Some (if ?in = [] then last ?o else Max (set ?in))"
    "ds_observed r = int (length values)" "ds_top_count r = int (min (nat g) (length values))"
    using assms(1) ne unfolding lo_def hi_def p25_def p75_def
    by (auto simp: distribution_summary_def Let_def split: if_splits)
  have "the (ds_lower_whisker r) \<le> v \<and> v \<le> the (ds_upper_whisker r)"
    if v: "v \<in> set (map double values)" "v \<notin> set (ds_outliers r)" for v
  proof -
    have v': "v \<in> set ?in" using v by (auto simp: r(1) not_less)
    then have "?in \<noteq> []" by (metis empty_iff empty_set)
    moreover have "Min (set ?in) \<le> v" "v \<le> Max (set ?in)" using v' by simp_all
    ultimately show ?thesis by (simp add: r(2,3))
  qed
  then show thesis by (rule that [OF r(1) _ r(4,5)])
qed

text \<open>
  The whiskers are the extreme inliers and the box edges interpolate between values: when the lowest
  value is an outlier, the lower whisker can lie above the lower edge of the box.
\<close>

lemma whisker_above_box:
  "\<exists>r. distribution_summary [0, 100, 100, 100] 10 = Inr r \<and> ds_p25 r = Some 75 \<and>
     ds_lower_whisker r = Some 100"
proof -
  have d: "double 0 = 0" "double 100 = 100" "double 75 = 75" "double (1 / 4) = 1 / 4" "double (3 / 4) = 3 / 4"
    "double (9 / 4) = 9 / 4" "double 25 = 25" "double (75 / 2) = 75 / 2" "double (275 / 2) = 275 / 2"
    "double (3 / 2) = 3 / 2" "double (1 / 2) = 1 / 2" "double 50 = 50" "double 1 = 1" "double 2 = 2"
    by code_simp+
  have t: "trunc_int (3 / 4) = 0" "trunc_int (3 / 2) = 1" "trunc_int (9 / 4) = 2"
    by (simp_all add: trunc_int_def floor_eq_iff)
  show ?thesis
    by (simp add: distribution_summary_def percentile_def Let_def d t min_def)
qed

end
