(* ===== verification/Ratings.thy ===== *)
theory Ratings
  imports NovelStats "HOL-Library.AList" "HOL-Library.List_Lexorder" "HOL-Library.Multiset"
begin

text \<open>
  The cohort-relative ratings of \<open>src/pixiv_yuri/jjwxc/ratings.py\<close>: largest-remainder weights, percentile
  components of the log-scaled values, and the ranked rows of works and authors.  Both metric sets run
  through one definition, with the metrics in the order of the code and their names as parameters.
\<close>

section \<open>Metrics\<close>

datatype rating_metric = RReviews | RFavorites | RPoints | RWords | RClicks
datatype profile_metric = ANonlocked | AAuthorFavorites | AWorkFavorites | AWords | APoints
datatype rating_grade = GradeSSS | GradeSS | GradeS | GradeA | GradeB

definition rating_metrics :: "rating_metric list" where
  "rating_metrics = [RReviews, RFavorites, RPoints, RWords, RClicks]"

definition profile_metrics :: "profile_metric list" where
  "profile_metrics = [ANonlocked, AAuthorFavorites, AWorkFavorites, AWords, APoints]"

fun rating_metric_name :: "rating_metric \<Rightarrow> pystr" where
  "rating_metric_name RReviews = lit ''reviews''"
| "rating_metric_name RFavorites = lit ''favorites''"
| "rating_metric_name RPoints = lit ''points''"
| "rating_metric_name RWords = lit ''words''"
| "rating_metric_name RClicks = lit ''clicks''"

fun profile_metric_name :: "profile_metric \<Rightarrow> pystr" where
  "profile_metric_name ANonlocked = lit ''nonlocked_works''"
| "profile_metric_name AAuthorFavorites = lit ''author_favorites''"
| "profile_metric_name AWorkFavorites = lit ''work_favorites''"
| "profile_metric_name AWords = lit ''words''"
| "profile_metric_name APoints = lit ''points''"

fun author_default_weight :: "profile_metric \<Rightarrow> int" where
  "author_default_weight ANonlocked = 1000"
| "author_default_weight AAuthorFavorites = 2500"
| "author_default_weight AWorkFavorites = 2500"
| "author_default_weight AWords = 1500"
| "author_default_weight APoints = 2500"

fun rating_attribute :: "rating_metric \<Rightarrow> novel_metric" where
  "rating_attribute RReviews = MReviews"
| "rating_attribute RFavorites = MFavorites"
| "rating_attribute RPoints = MPoints"
| "rating_attribute RWords = MWords"
| "rating_attribute RClicks = MClicks"

fun product_prior :: "rating_metric \<Rightarrow> rat" where
  "product_prior RReviews = double (25 / 100)"
| "product_prior RFavorites = double (30 / 100)"
| "product_prior RPoints = double (20 / 100)"
| "product_prior RWords = double (10 / 100)"
| "product_prior RClicks = double (15 / 100)"

section \<open>Entities\<close>

record 'm rating_entity =
  re_id :: pystr
  re_title :: pystr
  re_author :: pystr
  re_values :: "'m \<Rightarrow> rat option"

definition build_novel_entities :: "novel list \<Rightarrow> rating_metric rating_entity list" where
  "build_novel_entities novels =
     map (\<lambda>n. \<lparr>re_id = nv_novel_id n, re_title = nv_title n, re_author = nv_author_display_name n,
       re_values = (\<lambda>m. map_option to_float (metric_attribute (rating_attribute m) n))\<rparr>) novels"

text \<open>The works of each author, authors in the order of their first work.\<close>

definition grouped_by_author :: "novel list \<Rightarrow> (pystr \<times> novel list) list" where
  "grouped_by_author novels =
     map (\<lambda>a. (a, filter (\<lambda>n. nv_author_id n = a) novels)) (first_seen (map nv_author_id novels))"

fun author_total :: "novel list \<Rightarrow> rating_metric \<Rightarrow> rat option" where
  "author_total works RReviews = Some (to_float (sum_list (map nv_review_count works)))"
| "author_total works RFavorites = Some (to_float (sum_list (map nv_favorite_count works)))"
| "author_total works RPoints = Some (to_float (sum_list (map nv_points works)))"
| "author_total works RWords = Some (to_float (sum_list (map nv_word_count works)))"
| "author_total works RClicks = optional_mean (map to_float (List.map_filter nv_average_non_v works))"

definition build_author_entities :: "novel list \<Rightarrow> rating_metric rating_entity list" where
  "build_author_entities novels =
     map (\<lambda>(a, works). \<lparr>re_id = a, re_title = nv_author_display_name (hd works),
       re_author = nv_author_display_name (hd works), re_values = author_total works\<rparr>)
       (grouped_by_author novels)"

definition build_author_profile_entities ::
  "novel list \<Rightarrow> (pystr \<Rightarrow> profile_metric \<Rightarrow> rat option) \<Rightarrow> profile_metric rating_entity list" where
  "build_author_profile_entities novels profiles =
     map (\<lambda>(a, works). \<lparr>re_id = a, re_title = nv_author_display_name (hd works),
       re_author = nv_author_display_name (hd works),
       re_values = (\<lambda>m. if m = AWorkFavorites
         then Some (to_float (sum_list (map nv_favorite_count works))) else profiles a m)\<rparr>)
       (grouped_by_author novels)"

section \<open>Weights\<close>

text \<open>\<open>xs[:n]\<close> for any \<open>n\<close>.\<close>

definition py_take :: "int \<Rightarrow> 'a list \<Rightarrow> 'a list" where
  "py_take n xs = take (nat (if n < 0 then int (length xs) + n else n)) xs"

definition exact_share :: "'m list \<Rightarrow> ('m \<Rightarrow> rat) \<Rightarrow> 'm \<Rightarrow> rat" where
  "exact_share metrics values m = fdiv (fmul (values m) 10000) (py_sum (map values metrics))"

text \<open>\<open>sorted\<close> with \<open>reverse\<close> keeps the order of equal keys.\<close>

definition by_remainder :: "('m \<Rightarrow> pystr) \<Rightarrow> ('m \<Rightarrow> rat) \<Rightarrow> 'm list \<Rightarrow> 'm list" where
  "by_remainder name exact metrics =
     rev (sort_key (\<lambda>m. (fsub (exact m) (of_int (trunc_int (exact m))), name m)) (rev metrics))"

definition normalized_basis_points ::
  "('m \<Rightarrow> pystr) \<Rightarrow> 'm list \<Rightarrow> ('m \<Rightarrow> rat) \<Rightarrow> error + ('m \<Rightarrow> int)" where
  "normalized_basis_points name metrics values =
     (if py_sum (map values metrics) \<le> 0 then Inl ValueError
      else let exact = exact_share metrics values; rounded = (\<lambda>m. trunc_int (exact m));
               remainder = 10000 - sum_list (map rounded metrics);
               extra = py_take remainder (by_remainder name exact metrics)
           in Inr (\<lambda>m. rounded m + (if m \<in> set extra then 1 else 0)))"

text \<open>Product priors adjusted by coverage, dispersion and redundancy of the cohort.\<close>

definition related_coefficients ::
  "(rat \<Rightarrow> rat) \<Rightarrow> (rat \<Rightarrow> rat) \<Rightarrow> novel list \<Rightarrow> rating_metric \<Rightarrow> rat list" where
  "related_coefficients log1p sqrt_of novels m =
     List.map_filter (\<lambda>cell.
       if ce_x cell = rating_attribute m \<and> ce_y cell \<in> rating_attribute ` set rating_metrics \<and>
          ce_y cell \<noteq> rating_attribute m
       then map_option abs (ce_coefficient cell) else None) (correlation_matrix log1p sqrt_of novels)"

definition metric_evidence ::
  "(rat \<Rightarrow> rat) \<Rightarrow> (rat \<Rightarrow> rat) \<Rightarrow> novel list \<Rightarrow> rating_metric \<Rightarrow> rat" where
  "metric_evidence log1p sqrt_of novels m =
     (let summary = metric_summary sqrt_of novels (rating_attribute m);
          related = related_coefficients log1p sqrt_of novels m;
          coverage = fdiv (of_int (mt_coverage summary)) 10000;
          dispersion = min (case mt_variation summary of None \<Rightarrow> 0 | Some v \<Rightarrow> v) 2;
          redundancy = (if related = [] then 0 else fmean related)
      in max (double (5 / 100)) (fdiv (fmul coverage dispersion) (fadd 1 redundancy)))"

definition adjusted_prior :: "(rating_metric \<Rightarrow> rat) \<Rightarrow> rating_metric \<Rightarrow> rat" where
  "adjusted_prior evidence m =
     (let ceiling = Max (evidence ` set rating_metrics)
      in fmul (product_prior m) (fadd (1 / 2) (fdiv (fmul (1 / 2) (evidence m)) ceiling)))"

definition evidence_weight_basis_points ::
  "(rat \<Rightarrow> rat) \<Rightarrow> (rat \<Rightarrow> rat) \<Rightarrow> novel list \<Rightarrow> error + (rating_metric \<Rightarrow> int)" where
  "evidence_weight_basis_points log1p sqrt_of novels =
     normalized_basis_points rating_metric_name rating_metrics
       (adjusted_prior (metric_evidence log1p sqrt_of novels))"

section \<open>Scores\<close>

text \<open>A dict built from pairs: the last value of a key, at the place of the first.\<close>

definition dict_from :: "('k \<times> 'v) list \<Rightarrow> ('k \<times> 'v) list" where
  "dict_from kvs = fold (\<lambda>(k, v). AList.update k v) kvs []"

definition average_rank :: "rat list \<Rightarrow> rat \<Rightarrow> rat" where
  "average_rank ordered v =
     fadd (of_nat (length (filter (\<lambda>c. c < v) ordered)))
       (fdiv (of_nat (length (filter (\<lambda>c. c = v) ordered)) - 1) 2)"

definition percentile_score :: "rat list \<Rightarrow> rat \<Rightarrow> rat" where
  "percentile_score ordered v =
     (if length ordered \<le> 1 then 100
      else fdiv (fmul (average_rank ordered v) 100) (of_nat (length ordered - 1)))"

text \<open>
  \<open>math.log1p\<close> raises \<open>ValueError\<close> at -1 and below; elsewhere it is the C library's function, the
  argument \<open>log1p\<close>.  The dict comprehension transforms the values in order and stops at the first error.
\<close>

definition py_log1p :: "(rat \<Rightarrow> rat) \<Rightarrow> rat \<Rightarrow> error + rat" where
  "py_log1p log1p v = (if v \<le> - 1 then Inl ValueError else Inr (log1p v))"

fun transform_values :: "(rat \<Rightarrow> rat) \<Rightarrow> (pystr \<times> rat) list \<Rightarrow> error + (pystr \<times> rat) list" where
  "transform_values log1p [] = Inr []"
| "transform_values log1p ((k, v) # kvs) =
     bindr (py_log1p log1p v) (\<lambda>t. bindr (transform_values log1p kvs) (\<lambda>ts. Inr ((k, t) # ts)))"

definition percentile_scores :: "(rat \<Rightarrow> rat) \<Rightarrow> (pystr \<times> rat) list \<Rightarrow> error + (pystr \<times> rat) list" where
  "percentile_scores log1p values =
     bindr (transform_values log1p values) (\<lambda>transformed.
       let ordered = sort (map snd transformed)
       in Inr (map (\<lambda>(k, v). (k, percentile_score ordered v)) transformed))"

definition metric_values :: "'m rating_entity list \<Rightarrow> 'm \<Rightarrow> (pystr \<times> rat) list" where
  "metric_values entities m =
     dict_from (List.map_filter (\<lambda>e. map_option (Pair (re_id e)) (re_values e m)) entities)"

text \<open>The components of every metric, whatever its weight, and the component of one entity.\<close>

fun component_scores ::
  "(rat \<Rightarrow> rat) \<Rightarrow> 'm rating_entity list \<Rightarrow> 'm list \<Rightarrow> error + ('m \<times> (pystr \<times> rat) list) list" where
  "component_scores log1p entities [] = Inr []"
| "component_scores log1p entities (m # ms) =
     bindr (percentile_scores log1p (metric_values entities m)) (\<lambda>scores.
       bindr (component_scores log1p entities ms) (\<lambda>rest. Inr ((m, scores) # rest)))"

definition component_of :: "('m \<times> (pystr \<times> rat) list) list \<Rightarrow> 'm \<Rightarrow> pystr \<Rightarrow> rat" where
  "component_of scores m i = the (map_of (the (map_of scores m)) i)"

definition grade_for_score :: "int \<Rightarrow> rating_grade" where
  "grade_for_score s =
     (if 9000 \<le> s then GradeSSS else if 8000 \<le> s then GradeSS else if 6500 \<le> s then GradeS
      else if 4500 \<le> s then GradeA else GradeB)"

record 'm rating_row =
  rw_id :: pystr
  rw_title :: pystr
  rw_author :: pystr
  rw_score :: int
  rw_grade :: rating_grade
  rw_coverage :: int
  rw_components :: "'m \<Rightarrow> int option"

record 'm author_rating_row = "'m rating_row" +
  rw_raw :: "'m \<Rightarrow> int option"

definition available_metrics :: "'m list \<Rightarrow> ('m \<Rightarrow> int) \<Rightarrow> 'm rating_entity \<Rightarrow> 'm list" where
  "available_metrics metrics w e = filter (\<lambda>m. re_values e m \<noteq> None \<and> 0 < w m) metrics"

definition observed_score :: "('m \<Rightarrow> pystr \<Rightarrow> rat) \<Rightarrow> 'm list \<Rightarrow> ('m \<Rightarrow> int) \<Rightarrow> 'm rating_entity \<Rightarrow> rat" where
  "observed_score component metrics w e =
     (let available = available_metrics metrics w e; observed = sum_list (map w available)
      in if observed = 0 then 0
         else fdiv (py_sum (map (\<lambda>m. fmul (component m (re_id e)) (of_int (w m))) available)) (of_int observed))"

definition rounded_components ::
  "('m \<Rightarrow> pystr \<Rightarrow> rat) \<Rightarrow> 'm rating_entity \<Rightarrow> 'm \<Rightarrow> int option" where
  "rounded_components component e m =
     map_option (\<lambda>_. round_half_even (fmul (component m (re_id e)) 100)) (re_values e m)"

definition rating_row_of ::
  "('m \<Rightarrow> pystr \<Rightarrow> rat) \<Rightarrow> 'm list \<Rightarrow> ('m \<Rightarrow> int) \<Rightarrow> 'm rating_entity \<Rightarrow> 'm rating_row" where
  "rating_row_of component metrics w e =
     (let s = round_half_even (fmul (observed_score component metrics w e) 100)
      in \<lparr>rw_id = re_id e, rw_title = re_title e, rw_author = re_author e, rw_score = s,
          rw_grade = grade_for_score s,
          rw_coverage = round_half_even (fdiv (of_nat (length (available_metrics metrics w e)) * 10000)
            (of_nat (length metrics))),
          rw_components = rounded_components component e\<rparr>)"

text \<open>An author's score is scaled down by the share of the metrics that are available.\<close>

definition author_rating_row_of ::
  "('m \<Rightarrow> pystr \<Rightarrow> rat) \<Rightarrow> 'm list \<Rightarrow> ('m \<Rightarrow> int) \<Rightarrow> 'm rating_entity \<Rightarrow> 'm author_rating_row" where
  "author_rating_row_of component metrics w e =
     (let coverage = fdiv (of_nat (length (available_metrics metrics w e))) (of_nat (length metrics));
          s = round_half_even (fmul (fmul (observed_score component metrics w e) coverage) 100)
      in \<lparr>rw_id = re_id e, rw_title = re_title e, rw_author = re_author e, rw_score = s,
          rw_grade = grade_for_score s, rw_coverage = round_half_even (fmul coverage 10000),
          rw_components = rounded_components component e,
          rw_raw = (\<lambda>m. map_option round_half_even (re_values e m))\<rparr>)"

definition given_weight :: "('m \<Rightarrow> int option) \<Rightarrow> 'm \<Rightarrow> rat" where
  "given_weight weights m = max 0 (to_float (case weights m of None \<Rightarrow> 0 | Some w \<Rightarrow> w))"

definition ranked :: "('m, 'x) rating_row_scheme list \<Rightarrow> ('m, 'x) rating_row_scheme list" where
  "ranked rows = sort_key (\<lambda>r. (- rw_score r, rw_id r)) rows"

definition score_entities ::
  "(rat \<Rightarrow> rat) \<Rightarrow> rating_metric rating_entity list \<Rightarrow> (rating_metric \<Rightarrow> int option) \<Rightarrow>
     error + rating_metric rating_row list" where
  "score_entities log1p entities weights =
     bindr (normalized_basis_points rating_metric_name rating_metrics (given_weight weights)) (\<lambda>w.
     bindr (component_scores log1p entities rating_metrics) (\<lambda>scores.
       Inr (ranked (map (rating_row_of (component_of scores) rating_metrics w) entities))))"

definition score_author_profile_entities ::
  "(rat \<Rightarrow> rat) \<Rightarrow> profile_metric rating_entity list \<Rightarrow> (profile_metric \<Rightarrow> int option) \<Rightarrow>
     error + profile_metric author_rating_row list" where
  "score_author_profile_entities log1p entities weights =
     bindr (normalized_basis_points profile_metric_name profile_metrics (given_weight weights)) (\<lambda>w.
     bindr (component_scores log1p entities profile_metrics) (\<lambda>scores.
       Inr (ranked (map (author_rating_row_of (component_of scores) profile_metrics w) entities))))"

section \<open>The error of the sums\<close>

lemma double_abs_error: "\<bar>double x - x\<bar> \<le> \<bar>x\<bar> / 2 ^ 53"
proof (cases "0 \<le> x")
  case True
  then show ?thesis using double_error [of x] by simp
next
  case False
  then show ?thesis using double_error [of "- x"] by (simp add: double_minus)
qed

lemma double_abs_bound: "\<bar>double x\<bar> \<le> 2 * \<bar>x\<bar>"
proof -
  have "\<bar>double x\<bar> \<le> \<bar>x\<bar> + \<bar>double x - x\<bar>" by simp
  also have "\<dots> \<le> \<bar>x\<bar> + \<bar>x\<bar> / 2 ^ 53" using double_abs_error [of x] by simp
  also have "\<dots> \<le> 2 * \<bar>x\<bar>" by (simp add: field_simps)
  finally show ?thesis .
qed

text \<open>One step: the rounding error of an addition, and what the compensation makes of it.\<close>

lemma rounding_residue:
  assumes "\<bar>a\<bar> \<le> 4 * M" and "\<bar>b\<bar> \<le> 4 * M" and "\<bar>a - b + x\<bar> \<le> 4 * M / 2 ^ 53"
  shows "\<bar>fadd (fsub a b) x\<bar> \<le> 24 * M / 2 ^ 53"
proof -
  have "\<bar>fsub a b - (a - b)\<bar> \<le> \<bar>a - b\<bar> / 2 ^ 53" by (rule double_abs_error)
  moreover have "\<bar>a - b\<bar> \<le> 8 * M" using assms(1,2) by linarith
  ultimately have "\<bar>fsub a b - (a - b)\<bar> \<le> 8 * M / 2 ^ 53"
    by (meson divide_right_mono order_trans zero_le_numeral zero_le_power)
  then have "\<bar>fsub a b + x\<bar> \<le> 12 * M / 2 ^ 53" using assms(3) by linarith
  then have "2 * \<bar>fsub a b + x\<bar> \<le> 24 * M / 2 ^ 53" by (simp add: field_simps)
  then show ?thesis using double_abs_bound [of "fsub a b + x"] by (rule order_trans [rotated])
qed

lemma compensated_error:
  assumes "\<bar>s - S\<bar> \<le> of_nat k * (M / 2 ^ 40)" and "\<bar>c\<bar> \<le> of_nat k * (M / 2 ^ 40)" and "0 \<le> S"
    and "S + sum_list xs \<le> M" and "list_all (\<lambda>x. 0 \<le> x) xs" and "k + length xs \<le> 8"
  shows "\<bar>compensated s c xs - (S + sum_list xs)\<bar> \<le> 32 * (M / 2 ^ 40)"
  using assms
proof (induction xs arbitrary: s S c k)
  case Nil
  have M: "0 \<le> M" using Nil(3,4) by simp
  define d where "d = M / 2 ^ 40"
  have d: "0 \<le> d" "M = 1099511627776 * d" using M by (simp_all add: d_def)
  have k: "of_nat k * d \<le> 8 * d" using Nil(6) d(1) by (intro mult_right_mono) simp_all
  note prems = Nil(1,2) [folded d_def]
  have "\<bar>s + c\<bar> \<le> \<bar>s - S\<bar> + S + \<bar>c\<bar>" using Nil(3) by linarith
  also have "\<dots> \<le> 2 * M" using prems k d Nil(3,4) by simp
  finally have "\<bar>s + c\<bar> / 2 ^ 53 \<le> d" using d by (simp add: field_simps)
  then have "\<bar>fadd s c - (s + c)\<bar> \<le> d" using double_abs_error [of "s + c"] by (rule order_trans [rotated])
  then have "\<bar>s - S\<bar> \<le> 32 * d" "\<bar>fadd s c - S\<bar> \<le> 32 * d" using prems k d(1) by linarith+
  then show ?case unfolding d_def by simp
next
  case (Cons x xs)
  have nonneg: "0 \<le> sum_list xs" "0 \<le> x"
    using Cons.prems(5) by (auto simp: list_all_iff intro!: sum_list_nonneg)
  have M: "0 \<le> M" "S + x \<le> M" "x \<le> M" "S \<le> M" using Cons.prems(3,4) nonneg by simp_all
  define d where "d = M / 2 ^ 40"
  have d: "0 \<le> d" "M = 1099511627776 * d" using M(1) by (simp_all add: d_def)
  have k: "of_nat k * d \<le> 8 * d" using Cons.prems(6) d(1) by (intro mult_right_mono) simp_all
  note prems = Cons.prems(1,2) [folded d_def]
  define t where "t = fadd s x"
  have sx: "\<bar>s + x\<bar> \<le> 2 * M" "\<bar>s\<bar> \<le> 2 * M"
    using prems(1) k M Cons.prems(3) nonneg(2) d by auto
  have t: "\<bar>t - (s + x)\<bar> \<le> 2 * M / 2 ^ 53"
    using double_abs_error [of "s + x"] sx(1) unfolding t_def
    by (meson divide_right_mono order_trans zero_le_numeral zero_le_power)
  have "2 * M / 2 ^ 53 \<le> M" using M(1) by (simp add: field_simps)
  then have tM: "\<bar>t\<bar> \<le> 4 * M" using t sx(1) M(1) by linarith
  define e where "e = (if \<bar>x\<bar> \<le> \<bar>s\<bar> then fadd (fsub s t) x else fadd (fsub x t) s)"
  have res: "\<bar>s - t + x\<bar> \<le> 4 * M / 2 ^ 53" "\<bar>x - t + s\<bar> \<le> 4 * M / 2 ^ 53"
  proof -
    have "\<bar>t - (s + x)\<bar> \<le> 4 * M / 2 ^ 53" using t M(1) by (simp add: field_simps)
    moreover have "s - t + x = - (t - (s + x))" "x - t + s = - (t - (s + x))" by simp_all
    ultimately show "\<bar>s - t + x\<bar> \<le> 4 * M / 2 ^ 53" "\<bar>x - t + s\<bar> \<le> 4 * M / 2 ^ 53"
      by (metis abs_minus_cancel)+
  qed
  have xM: "\<bar>x\<bar> \<le> 4 * M" and sM: "\<bar>s\<bar> \<le> 4 * M" using M nonneg(2) sx(2) by simp_all
  have e: "\<bar>e\<bar> \<le> 24 * M / 2 ^ 53"
    unfolding e_def using rounding_residue [OF sM tM res(1)] rounding_residue [OF xM tM res(2)] by simp
  have small: "\<bar>e\<bar> \<le> d / 2" using e d by (simp add: field_simps)
  have "\<bar>c + e\<bar> \<le> 9 * d" using prems(2) k small d(1) by linarith
  then have "\<bar>c + e\<bar> / 2 ^ 53 \<le> d / 2" using d(1) by (simp add: field_simps)
  then have "\<bar>fadd c e - (c + e)\<bar> \<le> d / 2" using double_abs_error [of "c + e"] by linarith
  then have c: "\<bar>fadd c e\<bar> \<le> of_nat k * d + d" using prems(2) small by linarith
  have t': "\<bar>t - (s + x)\<bar> \<le> d"
    using t d by (simp add: field_simps)
  have "\<bar>t - (S + x)\<bar> \<le> of_nat k * d + d" using t' prems(1) by linarith
  then have step: "\<bar>t - (S + x)\<bar> \<le> of_nat (Suc k) * d" "\<bar>fadd c e\<bar> \<le> of_nat (Suc k) * d"
    using c by (simp_all add: algebra_simps)
  have "\<bar>compensated t (fadd c e) xs - (S + x + sum_list xs)\<bar> \<le> 32 * (M / 2 ^ 40)"
    by (rule Cons.IH [OF step [unfolded d_def]])
      (use Cons.prems(3-6) nonneg in \<open>simp_all add: list_all_iff algebra_simps\<close>)
  moreover have "compensated s c (x # xs) = compensated t (fadd c e) xs"
    by (simp only: compensated.simps Let_def t_def e_def)
  ultimately show ?case by (simp add: add.assoc del: compensated.simps)
qed

lemma py_sum_error:
  assumes "list_all (\<lambda>x. 0 \<le> x) xs" and "length xs \<le> 8"
  shows "\<bar>py_sum xs - sum_list xs\<bar> \<le> sum_list xs / 2 ^ 35"
proof (cases xs)
  case (Cons x rest)
  have "\<bar>compensated x 0 rest - (x + sum_list rest)\<bar> \<le> 32 * (sum_list xs / 2 ^ 40)"
    by (rule compensated_error [where k = 0]) (use assms Cons in \<open>simp_all add: list_all_iff\<close>)
  then show ?thesis by (simp add: py_sum_def Cons)
qed (simp add: py_sum_def)

section \<open>Weights add up\<close>

lemma py_sum_nonneg:
  assumes "list_all (\<lambda>x. 0 \<le> x) xs" and "length xs \<le> 8"
  shows "0 \<le> py_sum xs" and "py_sum xs \<le> 0 \<longleftrightarrow> sum_list xs = 0"
proof -
  have S: "0 \<le> sum_list xs" using assms(1) by (auto simp: list_all_iff intro!: sum_list_nonneg)
  have "sum_list xs / 2 ^ 35 \<le> sum_list xs / 2" using S by (simp add: field_simps)
  then have "sum_list xs / 2 \<le> py_sum xs" using py_sum_error [OF assms] by linarith
  then show "0 \<le> py_sum xs" "py_sum xs \<le> 0 \<longleftrightarrow> sum_list xs = 0"
    using S py_sum_error [OF assms] by auto
qed

lemma near_iff: "\<bar>x - a\<bar> \<le> a / n \<longleftrightarrow> a * (1 - 1 / n) \<le> x \<and> x \<le> a * (1 + 1 / n)" for x :: rat
  by (auto simp: abs_le_iff algebra_simps)

text \<open>A quotient of two nearly exact numbers is nearly exact.\<close>

lemma near_quotient:
  fixes a b a' b' :: rat
  assumes "0 \<le> a" and "0 < b" and "\<bar>a' - a\<bar> \<le> a / 2 ^ 53" and "\<bar>b' - b\<bar> \<le> b / 2 ^ 35"
  shows "\<bar>fdiv a' b' - a / b\<bar> \<le> a / b / 2 ^ 30"
proof -
  define q where "q = a / b"
  have q: "0 \<le> q" "a = q * b" using assms(1,2) by (simp_all add: q_def)
  have b': "b * (1 - 1 / 2 ^ 35) \<le> b'" "b' \<le> b * (1 + 1 / 2 ^ 35)"
    using assms(4) unfolding near_iff by blast+
  have pos: "0 < b * (1 - 1 / 2 ^ 35)" using assms(2) by simp
  then have b'pos: "0 < b'" using b'(1) by linarith
  have a': "a * (1 - 1 / 2 ^ 53) \<le> a'" "a' \<le> a * (1 + 1 / 2 ^ 53)"
    using assms(3) unfolding near_iff by blast+
  have "a' / b' \<le> a * (1 + 1 / 2 ^ 53) / (b * (1 - 1 / 2 ^ 35))"
    using a' b' pos assms(1) by (intro frac_le) (simp_all add: zero_le_mult_iff)
  also have "\<dots> = q * ((1 + 1 / 2 ^ 53) / (1 - 1 / 2 ^ 35))" using assms(2) by (simp add: q(2))
  also have "\<dots> \<le> q * (1 + 1 / 2 ^ 33)" using q(1) by (intro mult_left_mono) simp_all
  finally have hi: "a' / b' \<le> q * (1 + 1 / 2 ^ 33)" .
  have "q * (1 - 1 / 2 ^ 33) \<le> q * ((1 - 1 / 2 ^ 53) / (1 + 1 / 2 ^ 35))"
    using q(1) by (intro mult_left_mono) simp_all
  also have "\<dots> = a * (1 - 1 / 2 ^ 53) / (b * (1 + 1 / 2 ^ 35))" using assms(2) by (simp add: q(2))
  also have "\<dots> \<le> a' / b'"
    using a' b' b'pos assms(1) by (intro frac_le) (auto intro: order_trans [OF _ a'(1)])
  finally have lo: "q * (1 - 1 / 2 ^ 33) \<le> a' / b'" .
  have "0 \<le> q * (1 - 1 / 2 ^ 33)" using q(1) by simp
  then have "0 \<le> a' / b'" using lo by (rule order_trans)
  moreover have "q * (1 + 1 / 2 ^ 33) \<le> 2 * q" using q(1) by (simp add: field_simps)
  ultimately have ab: "\<bar>a' / b'\<bar> \<le> 2 * q" using hi by simp
  have "\<bar>fdiv a' b' - a' / b'\<bar> \<le> \<bar>a' / b'\<bar> / 2 ^ 53" by (rule double_abs_error)
  also have "\<dots> \<le> q / 2 ^ 33" using ab q(1) by (simp add: field_simps)
  finally have "\<bar>fdiv a' b' - a' / b'\<bar> \<le> q / 2 ^ 33" .
  moreover have "\<bar>a' / b' - q\<bar> \<le> q / 2 ^ 33" unfolding near_iff using hi lo by blast
  ultimately have "\<bar>fdiv a' b' - q\<bar> \<le> q / 2 ^ 33 + q / 2 ^ 33" by linarith
  also have "\<dots> \<le> q / 2 ^ 30" using q(1) by (simp add: field_simps)
  finally show ?thesis by (simp add: q_def)
qed

lemma exact_share_near:
  assumes "list_all (\<lambda>m. 0 \<le> values m) metrics" and "length metrics \<le> 8" and "m \<in> set metrics"
    and "0 < sum_list (map values metrics)"
  shows "\<bar>exact_share metrics values m - values m * 10000 / sum_list (map values metrics)\<bar> \<le>
    values m * 10000 / sum_list (map values metrics) / 2 ^ 30"
proof -
  have nonneg: "0 \<le> values m" using assms(1,3) by (auto simp: list_all_iff)
  have "\<bar>py_sum (map values metrics) - sum_list (map values metrics)\<bar> \<le>
      sum_list (map values metrics) / 2 ^ 35"
    using assms(1,2) by (intro py_sum_error) (simp_all add: list_all_iff)
  moreover have "\<bar>fmul (values m) 10000 - values m * 10000\<bar> \<le> values m * 10000 / 2 ^ 53"
    using double_error [of "values m * 10000"] nonneg by simp
  ultimately show ?thesis
    unfolding exact_share_def by (intro near_quotient) (use nonneg assms(4) in simp_all)
qed

lemma sum_list_near:
  fixes f g :: "'m \<Rightarrow> rat"
  assumes "\<And>m. m \<in> set ms \<Longrightarrow> \<bar>f m - g m\<bar> \<le> g m / n"
  shows "\<bar>sum_list (map f ms) - sum_list (map g ms)\<bar> \<le> sum_list (map g ms) / n"
  using assms
proof (induction ms)
  case (Cons m ms)
  have "\<bar>f m - g m\<bar> \<le> g m / n" "\<bar>sum_list (map f ms) - sum_list (map g ms)\<bar> \<le> sum_list (map g ms) / n"
    using Cons by simp_all
  then have "\<bar>(f m + sum_list (map f ms)) - (g m + sum_list (map g ms))\<bar> \<le> g m / n + sum_list (map g ms) / n"
    by linarith
  then show ?case by (simp add: add_divide_distrib)
qed simp

lemma sum_list_floor:
  fixes f :: "'m \<Rightarrow> rat"
  shows "of_int (sum_list (map (\<lambda>m. \<lfloor>f m\<rfloor>) ms)) \<le> sum_list (map f ms) \<and>
    sum_list (map f ms) \<le> of_int (sum_list (map (\<lambda>m. \<lfloor>f m\<rfloor>) ms)) + of_nat (length ms)"
proof (induction ms)
  case (Cons m ms)
  define k where "k = (of_int \<lfloor>f m\<rfloor> :: rat)"
  have "k \<le> f m" "f m \<le> k + 1" unfolding k_def by linarith+
  then show ?case using Cons by (simp add: k_def [symmetric])
qed simp

lemma sum_list_scaled:
  "sum_list (map (\<lambda>m. v m * c / s) ms) = sum_list (map v ms) * c / (s::rat)"
  by (induction ms) (simp_all add: algebra_simps add_divide_distrib)

lemma sum_list_indicator:
  "distinct ms \<Longrightarrow> set xs \<subseteq> set ms \<Longrightarrow> distinct xs \<Longrightarrow>
     sum_list (map (\<lambda>m. if m \<in> set xs then 1 else 0) ms) = int (length xs)"
proof -
  assume d: "distinct ms" "set xs \<subseteq> set ms" "distinct xs"
  have "sum_list (map (\<lambda>m. if m \<in> set xs then 1 else 0) ms) = int (card (set ms \<inter> set xs))"
    using d(1) by (simp add: sum_list_distinct_conv_sum_set sum.If_cases Int_commute)
  then show ?thesis using d by (simp add: Int_absorb1 distinct_card)
qed

text \<open>
  The largest-remainder rule: non-negative values, not all zero, become non-negative integer weights
  that add up to exactly 10000, each the truncated share or one more.
\<close>

lemma normalized_weights:
  assumes d: "distinct metrics" and len: "length metrics \<le> 8"
    and nonneg: "list_all (\<lambda>m. 0 \<le> values m) metrics"
    and w: "normalized_basis_points name metrics values = Inr w"
  shows "sum_list (map w metrics) = 10000" and "m \<in> set metrics \<Longrightarrow> 0 \<le> w m"
proof -
  let ?S = "sum_list (map values metrics)" and ?f = "exact_share metrics values"
  let ?g = "\<lambda>m. values m * 10000 / ?S"
  have S0: "0 \<le> ?S" using nonneg by (auto simp: list_all_iff intro!: sum_list_nonneg)
  have "\<not> py_sum (map values metrics) \<le> 0"
    using w by (auto simp: normalized_basis_points_def split: if_splits)
  then have "?S \<noteq> 0" using py_sum_nonneg(2) [of "map values metrics"] nonneg len by (simp add: list_all_iff)
  then have S: "0 < ?S" using S0 by simp
  note near = exact_share_near [OF nonneg len _ S]
  have f0: "0 \<le> ?f m" if "m \<in> set metrics" for m
  proof -
    have "0 \<le> ?g m" using nonneg that S by (auto simp: list_all_iff)
    then have "0 \<le> ?g m * (1 - 1 / 2 ^ 30)" by simp
    then show ?thesis using near [OF that] unfolding near_iff by (meson order_trans)
  qed
  have g: "sum_list (map ?g metrics) = 10000" unfolding sum_list_scaled using S by simp
  have "\<bar>sum_list (map ?f metrics) - 10000\<bar> \<le> 10000 / 2 ^ 30"
    using sum_list_near [of metrics ?f ?g "2 ^ 30", OF near] unfolding g .
  moreover have "(10000::rat) / 2 ^ 30 < 1 / 2" by simp
  ultimately have sum: "sum_list (map ?f metrics) < 10000 + 1 / 2" "10000 - 1 / 2 < sum_list (map ?f metrics)"
    by (simp_all only: abs_le_iff) linarith+
  let ?r = "\<lambda>m. trunc_int (?f m)"
  have r: "map ?r metrics = map (\<lambda>m. \<lfloor>?f m\<rfloor>) metrics" using f0 by (simp add: trunc_int_def)
  let ?R = "10000 - sum_list (map ?r metrics)"
  have "(of_int (sum_list (map ?r metrics)) :: rat) < 10000 + 1 / 2"
    "(10000 - 1 / 2 :: rat) < of_int (sum_list (map ?r metrics)) + of_nat (length metrics)"
    using sum_list_floor [of ?f metrics] sum unfolding r by linarith+
  then have R: "0 \<le> ?R" "?R \<le> int (length metrics)" by linarith+
  let ?o = "by_remainder name ?f metrics"
  have o: "set ?o = set metrics" "distinct ?o" "length ?o = length metrics"
    using d by (simp_all add: by_remainder_def)
  let ?x = "py_take ?R ?o"
  have x: "?x = take (nat ?R) ?o" using R by (simp add: py_take_def)
  have xs: "set ?x \<subseteq> set metrics" "distinct ?x" "length ?x = nat ?R"
    using o R set_take_subset [of "nat ?R" ?o] by (simp_all add: x)
  have w': "w = (\<lambda>m. ?r m + (if m \<in> set ?x then 1 else 0))"
    using w by (auto simp: normalized_basis_points_def Let_def split: if_splits)
  have "sum_list (map w metrics) = sum_list (map ?r metrics) + sum_list (map (\<lambda>m. if m \<in> set ?x then 1 else 0) metrics)"
    unfolding w' by (rule sum_list_addf)
  also have "\<dots> = 10000" using sum_list_indicator [OF d xs(1,2)] xs(3) R by simp
  finally show "sum_list (map w metrics) = 10000" .
  show "0 \<le> w m" if "m \<in> set metrics"
    using f0 [OF that] unfolding w' by (simp add: trunc_int_def)
qed

section \<open>Components\<close>

lemma counts_below:
  "length (filter (\<lambda>c. c < v) xs) + length (filter (\<lambda>c. c = v) xs) \<le> length xs" for v :: rat
  by (induction xs) auto

lemma equal_count_pos: "v \<in> set xs \<Longrightarrow> 1 \<le> length (filter (\<lambda>c. c = v) xs)" for v :: rat
  by (induction xs) auto

lemma average_rank_bounds:
  assumes "v \<in> set xs" and "length xs < 2 ^ 40"
  shows "0 \<le> average_rank xs v" and "average_rank xs v \<le> of_nat (length xs - 1)"
proof -
  let ?l = "length (filter (\<lambda>c. c < v) xs)" and ?e = "length (filter (\<lambda>c. c = v) xs)"
  have e: "1 \<le> ?e" by (rule equal_count_pos [OF assms(1)])
  have le: "?l + ?e \<le> length xs" by (rule counts_below)
  have small: "?l < 2 ^ 53" "?e < 2 ^ 53" "length xs < 2 ^ 53" using le assms(2) by simp_all
  have half: "of_int 0 \<le> (of_nat ?e - 1) / (2::rat)" "(of_nat ?e - 1) / 2 \<le> (of_int (int (?e div 2)) :: rat)"
  proof -
    have "(of_nat 1 :: rat) \<le> of_nat ?e" using e by (rule of_nat_mono)
    then show "of_int 0 \<le> (of_nat ?e - 1) / (2::rat)" by simp
    have "?e \<le> 2 * (?e div 2) + 1" by presburger
    then have "(of_nat ?e :: rat) \<le> of_nat (2 * (?e div 2) + 1)" by (rule of_nat_mono)
    then show "(of_nat ?e - 1) / 2 \<le> (of_int (int (?e div 2)) :: rat)" by simp
  qed
  have q: "of_int 0 \<le> fdiv (of_nat ?e - 1) 2 \<and> fdiv (of_nat ?e - 1) 2 \<le> of_int (int (?e div 2))"
    by (rule double.fl_bounds [OF half]) (use small in simp_all)
  have "?l + ?e div 2 \<le> length xs - 1" using le e by presburger
  then have b: "(of_nat ?l :: rat) + of_nat (?e div 2) \<le> of_nat (length xs - 1)"
    by (metis of_nat_add of_nat_mono)
  have "of_int 0 \<le> average_rank xs v \<and> average_rank xs v \<le> of_int (int (length xs - 1))"
    unfolding average_rank_def
    by (rule double.fl_bounds) (use q b small in simp_all)
  then show "0 \<le> average_rank xs v" "average_rank xs v \<le> of_nat (length xs - 1)" by simp_all
qed

lemma percentile_score_bounds:
  assumes "v \<in> set xs" and "length xs < 2 ^ 40"
  shows "0 \<le> percentile_score xs v \<and> percentile_score xs v \<le> 100"
proof (cases "length xs \<le> 1")
  case False
  let ?n = "length xs - 1"
  note r = average_rank_bounds [OF assms]
  have "of_int 0 \<le> fmul (average_rank xs v) 100 \<and> fmul (average_rank xs v) 100 \<le> of_int (100 * int ?n)"
    by (rule double.fl_bounds) (use r assms(2) in simp_all)
  then have q: "of_int 0 \<le> fmul (average_rank xs v) 100 / of_nat ?n"
    "fmul (average_rank xs v) 100 / of_nat ?n \<le> of_int 100"
    using False by (simp_all add: pos_divide_le_eq)
  have "of_int 0 \<le> percentile_score xs v \<and> percentile_score xs v \<le> of_int 100"
    unfolding percentile_score_def if_not_P [OF False] by (rule double.fl_bounds [OF q]) simp_all
  then show ?thesis by simp
qed (simp add: percentile_score_def)

text \<open>A larger value never has a smaller component.\<close>

lemma percentile_score_mono:
  assumes "v \<in> set xs" and "w \<in> set xs" and "v \<le> w" and "length xs < 2 ^ 40"
  shows "percentile_score xs v \<le> percentile_score xs w"
proof (cases "v = w")
  case False
  then have vw: "v < w" using assms(3) by simp
  let ?l = "\<lambda>v. length (filter (\<lambda>c. c < v) xs)" and ?e = "\<lambda>v. length (filter (\<lambda>c. c = v) xs)"
  have "?l v + ?e v \<le> ?l w" using vw by (induction xs) auto
  moreover have pos: "1 \<le> ?e v" "1 \<le> ?e w" using assms(1,2) by (simp_all only: equal_count_pos)
  ultimately have "(of_nat (?l v) :: rat) + of_nat (?e v - 1) \<le> of_nat (?l w)"
    by (simp flip: of_nat_add)
  moreover have "?e v < 2 ^ 40" by (rule le_less_trans [OF length_filter_le assms(4)])
  then have small: "?e v < 2 ^ 53" by (rule less_trans) simp
  have "fdiv (of_nat (?e v) - 1) 2 \<le> of_int (int (?e v - 1))"
    by (rule double.fl_bounds [of 0, THEN conjunct2]) (use pos small in simp_all)
  moreover have "0 \<le> fdiv (of_nat (?e w) - 1) 2"
    using of_nat_mono [OF pos(2), where ?'a = rat] by (intro double_nonneg) simp
  ultimately have "average_rank xs v \<le> average_rank xs w"
    unfolding average_rank_def by (intro double_mono) simp
  then show ?thesis
    by (auto simp: percentile_score_def intro!: double_mono divide_right_mono mult_right_mono)
qed simp

lemma map_of_dict_from: "map_of (dict_from kvs) k \<noteq> None \<longleftrightarrow> k \<in> fst ` set kvs"
proof -
  have "map_of (fold (\<lambda>(k, v). AList.update k v) kvs d) k \<noteq> None \<longleftrightarrow> k \<in> fst ` set kvs \<or> map_of d k \<noteq> None" for d
  proof (induction kvs arbitrary: d)
    case (Cons x kvs)
    have "map_of (AList.update (fst x) (snd x) d) k \<noteq> None \<longleftrightarrow> k = fst x \<or> map_of d k \<noteq> None"
      by (simp add: AList.update_conv')
    then show ?case using Cons.IH [of "AList.update (fst x) (snd x) d"] by (auto simp: case_prod_unfold)
  qed simp
  then show ?thesis by (simp add: dict_from_def)
qed

lemma length_dict_from: "length (dict_from kvs) \<le> length kvs"
proof -
  have u: "length (AList.update k v d) \<le> Suc (length d)" for k v and d :: "('a \<times> 'b) list"
    by (induction d) auto
  have "length (fold (\<lambda>(k, v). AList.update k v) kvs d) \<le> length d + length kvs" for d
  proof (induction kvs arbitrary: d)
    case (Cons x kvs)
    then show ?case using u [of "fst x" "snd x" d] Cons.IH [of "AList.update (fst x) (snd x) d"]
      by (simp add: case_prod_unfold) (metis (no_types, lifting) add_Suc add_le_mono1 order_trans)
  qed simp
  from this [of "[]"] show ?thesis by (simp add: dict_from_def)
qed

lemma length_map_filter: "length (List.map_filter f xs) \<le> length xs"
  by (induction xs) (auto simp: List.map_filter_simps split: option.split)

text \<open>
  Where every value is in the domain of the logarithm the components are those of a total function;
  anywhere else the computation raises.
\<close>

definition log_defined :: "'m rating_entity list \<Rightarrow> 'm \<Rightarrow> bool" where
  "log_defined entities m \<longleftrightarrow> (\<forall>(i, v) \<in> set (metric_values entities m). - 1 < v)"

definition total_scores :: "(rat \<Rightarrow> rat) \<Rightarrow> (pystr \<times> rat) list \<Rightarrow> (pystr \<times> rat) list" where
  "total_scores log1p values =
     (let transformed = map (\<lambda>(k, v). (k, log1p v)) values; ordered = sort (map snd transformed)
      in map (\<lambda>(k, v). (k, percentile_score ordered v)) transformed)"

definition component_score ::
  "(rat \<Rightarrow> rat) \<Rightarrow> 'm rating_entity list \<Rightarrow> 'm \<Rightarrow> pystr \<Rightarrow> rat" where
  "component_score log1p entities m i = the (map_of (total_scores log1p (metric_values entities m)) i)"

lemma transform_values_eq:
  "transform_values log1p kvs =
     (if (\<forall>(k, v) \<in> set kvs. - 1 < v) then Inr (map (\<lambda>(k, v). (k, log1p v)) kvs) else Inl ValueError)"
proof (induction kvs)
  case (Cons x kvs)
  then show ?case
    by (cases x; cases "\<forall>(k, v) \<in> set kvs. - 1 < v") (simp_all add: py_log1p_def bindr_def not_less)
qed simp

lemma percentile_scores_eq:
  "percentile_scores log1p (metric_values entities m) =
     (if log_defined entities m then Inr (total_scores log1p (metric_values entities m)) else Inl ValueError)"
  by (simp add: percentile_scores_def transform_values_eq log_defined_def total_scores_def Let_def bindr_def)

lemma component_scores_eq:
  "component_scores log1p entities ms =
     (if (\<forall>m \<in> set ms. log_defined entities m)
      then Inr (map (\<lambda>m. (m, total_scores log1p (metric_values entities m))) ms) else Inl ValueError)"
  by (induction ms) (auto simp: percentile_scores_eq bindr_def)

lemma component_of_scores:
  assumes "\<And>m. m \<in> set ms"
  shows "component_of (map (\<lambda>m. (m, total_scores log1p (metric_values entities m))) ms) =
    component_score log1p entities"
  using assms by (intro ext) (simp add: component_of_def component_score_def map_of_map_restrict)

lemma component_score_bounds:
  assumes "e \<in> set entities" and "re_values e m \<noteq> None" and "length entities < 2 ^ 40"
  shows "0 \<le> component_score log1p entities m (re_id e) \<and> component_score log1p entities m (re_id e) \<le> 100"
proof -
  let ?d = "metric_values entities m"
  let ?t = "map (\<lambda>(k, v). (k, log1p v)) ?d"
  have "re_id e \<in> fst ` set (List.map_filter (\<lambda>e. map_option (Pair (re_id e)) (re_values e m)) entities)"
    using assms(1,2) by (force simp: List.map_filter_def image_iff)
  then obtain x where x: "map_of ?d (re_id e) = Some x"
    using map_of_dict_from by (metis metric_values_def not_None_eq)
  have "component_score log1p entities m (re_id e) = percentile_score (sort (map snd ?t)) (log1p x)"
    unfolding component_score_def total_scores_def Let_def map_of_map o_apply by (simp add: x)
  moreover have "log1p x \<in> set (sort (map snd ?t))" using map_of_SomeD [OF x] by force
  moreover have "length (sort (map snd ?t)) < 2 ^ 40"
  proof -
    have "length ?d \<le> length entities"
      unfolding metric_values_def by (rule order_trans [OF length_dict_from length_map_filter])
    then show ?thesis using assms(3) by simp
  qed
  ultimately show ?thesis using percentile_score_bounds by simp
qed

section \<open>Scores\<close>

lemma available_weights:
  assumes "distinct metrics" and "length metrics \<le> 8" and "list_all (\<lambda>m. 0 \<le> values m) metrics"
    and "normalized_basis_points name metrics values = Inr w"
  shows "sum_list (map w (available_metrics metrics w e)) \<le> 10000"
    and "m \<in> set metrics \<Longrightarrow> w m \<le> 10000"
proof -
  note n = normalized_weights [OF assms]
  have pos: "list_all (\<lambda>m. 0 \<le> w m) metrics" using n(2) by (simp add: list_all_iff)
  have le: "sum_list (map w (filter P metrics)) \<le> sum_list (map w metrics)" for P
    using pos by (induction metrics) auto
  show "sum_list (map w (available_metrics metrics w e)) \<le> 10000"
    using le n(1) unfolding available_metrics_def by metis
  show "w m \<le> 10000" if "m \<in> set metrics"
  proof -
    have "w m \<in> set (map w metrics)" using that by simp
    moreover have "list_all (\<lambda>x. 0 \<le> x) (map w metrics)" using pos by (simp add: list_all_iff)
    ultimately show ?thesis using n(1) member_le_sum_list [of "w m" "map w metrics"]
      by (auto simp: list_all_iff)
  qed
qed

lemma observed_score_bounds:
  assumes "\<And>m. m \<in> set ms \<Longrightarrow> 0 \<le> c m \<and> c m \<le> (100::rat)" and "\<And>m. m \<in> set ms \<Longrightarrow> 0 < w m \<and> w m \<le> 10000"
    and "length ms \<le> 8" and "ms \<noteq> []"
  shows "0 \<le> fdiv (py_sum (map (\<lambda>m. fmul (c m) (of_int (w m))) ms)) (of_int (sum_list (map w ms)))"
    and "fdiv (py_sum (map (\<lambda>m. fmul (c m) (of_int (w m))) ms)) (of_int (sum_list (map w ms))) \<le> 100 + 1 / 1000"
proof -
  let ?p = "\<lambda>m. fmul (c m) (of_int (w m))" and ?W = "sum_list (map w ms)"
  have p: "0 \<le> ?p m \<and> ?p m \<le> of_int (100 * w m)" if "m \<in> set ms" for m
  proof -
    have "c m * of_int (w m) \<le> 100 * of_int (w m)"
      using assms(1,2) [OF that] by (intro mult_right_mono) simp_all
    then have "of_int 0 \<le> ?p m \<and> ?p m \<le> of_int (100 * w m)"
      using assms(1,2) [OF that] by (intro double.fl_bounds) simp_all
    then show ?thesis by simp
  qed
  have nonneg: "list_all (\<lambda>x. 0 \<le> x) (map ?p ms)" using p by (simp add: list_all_iff)
  have len: "length (map ?p ms) \<le> 8" using assms(3) by simp
  have W: "0 < ?W" using assms(2,4)
  proof (induction ms)
    case (Cons m ms)
    then show ?case by (cases ms) force+
  qed simp
  have "sum_list (map ?p ms) \<le> sum_list (map (\<lambda>m. of_int (100 * w m)) ms)"
    using p by (intro sum_list_mono) blast
  also have "\<dots> = 100 * of_int ?W" by (induction ms) simp_all
  finally have P: "sum_list (map ?p ms) \<le> 100 * of_int ?W" .
  have P0: "0 \<le> sum_list (map ?p ms)" using nonneg unfolding list_all_iff by (intro sum_list_nonneg) blast
  let ?s = "py_sum (map ?p ms)"
  have "?s \<le> sum_list (map ?p ms) * (1 + 1 / 2 ^ 35)"
    using py_sum_error [OF nonneg len] unfolding near_iff by blast
  also have "\<dots> \<le> 100 * of_int ?W * (1 + 1 / 2 ^ 35)" using P by (intro mult_right_mono) simp_all
  finally have "?s / of_int ?W \<le> 100 * (1 + 1 / 2 ^ 35)" using W by (simp add: field_simps)
  then have hi: "?s / of_int ?W \<le> 100 + 1 / 2000" by (rule order_trans) simp
  have lo: "0 \<le> ?s / of_int ?W" using py_sum_nonneg(1) [OF nonneg len] W by simp
  then show "0 \<le> fdiv ?s (of_int ?W)" by (rule double_nonneg)
  have "fdiv ?s (of_int ?W) \<le> ?s / of_int ?W * (1 + 1 / 2 ^ 53)"
    using double_error [OF lo] unfolding near_iff by blast
  also have "\<dots> \<le> (100 + 1 / 2000) * (1 + 1 / 2 ^ 53)" using hi by (intro mult_right_mono) simp_all
  also have "\<dots> \<le> 100 + 1 / 1000" by simp
  finally show "fdiv ?s (of_int ?W) \<le> 100 + 1 / 1000" .
qed

lemma rounded_author_score:
  assumes "0 \<le> x" and "x \<le> (100 + 1 / 1000) * (1 + 1 / 2 ^ 53)"
  shows "0 \<le> round_half_even (fmul x 100) \<and> round_half_even (fmul x 100) \<le> 10000"
proof -
  have x: "0 \<le> x * 100" "x * 100 \<le> 10000 + 1 / 8" using assms by simp_all
  have "fmul x 100 \<le> x * 100 * (1 + 1 / 2 ^ 53)" using double_error [OF x(1)] unfolding near_iff by blast
  also have "\<dots> \<le> (10000 + 1 / 8) * (1 + 1 / 2 ^ 53)" using x by (intro mult_right_mono) simp_all
  also have "\<dots> \<le> 10000 + 1 / 4" by simp
  finally have "round_half_even (fmul x 100) \<le> round_half_even (10000 + 1 / 4)" by (rule round_half_even_mono)
  moreover have "round_half_even (10000 + 1 / 4) = 10000" by code_simp
  moreover have "round_half_even (of_int 0) \<le> round_half_even (fmul x 100)"
    using double_nonneg [OF x(1)] by (intro round_half_even_mono) simp
  ultimately show ?thesis by (simp only: round_half_even_int)
qed

lemma rounded_score_bounds:
  assumes "0 \<le> x" and "x \<le> 100 + 1 / 1000"
  shows "0 \<le> round_half_even (fmul x 100) \<and> round_half_even (fmul x 100) \<le> 10000"
  by (rule rounded_author_score) (use assms in simp_all)

text \<open>What holds of every row.\<close>

definition rating_row_ok :: "('m, 'x) rating_row_scheme \<Rightarrow> bool" where
  "rating_row_ok r \<longleftrightarrow>
     0 \<le> rw_score r \<and> rw_score r \<le> 10000 \<and> rw_grade r = grade_for_score (rw_score r) \<and>
     0 \<le> rw_coverage r \<and> rw_coverage r \<le> 10000 \<and>
     (\<forall>m c. rw_components r m = Some c \<longrightarrow> 0 \<le> c \<and> c \<le> 10000)"

lemma entity_score_bounds:
  assumes n: "distinct metrics" "length metrics \<le> 8" "list_all (\<lambda>m. 0 \<le> values m) metrics"
      "normalized_basis_points name metrics values = Inr w"
    and e: "e \<in> set entities" "length entities < 2 ^ 40"
  shows "0 \<le> observed_score (component_score log1p entities) metrics w e"
    and "observed_score (component_score log1p entities) metrics w e \<le> 100 + 1 / 1000"
proof -
  let ?ms = "available_metrics metrics w e"
  have c: "0 \<le> component_score log1p entities m (re_id e) \<and> component_score log1p entities m (re_id e) \<le> 100"
    if "m \<in> set ?ms" for m
    using that component_score_bounds [OF e(1) _ e(2)] by (auto simp: available_metrics_def)
  have w: "0 < w m \<and> w m \<le> 10000" if "m \<in> set ?ms" for m
    using that available_weights(2) [OF n] by (auto simp: available_metrics_def)
  have len: "length ?ms \<le> 8"
    unfolding available_metrics_def by (rule order_trans [OF length_filter_le n(2)])
  have "observed_score (component_score log1p entities) metrics w e = 0 \<or> ?ms \<noteq> [] \<and>
      observed_score (component_score log1p entities) metrics w e =
      fdiv (py_sum (map (\<lambda>m. fmul (component_score log1p entities m (re_id e)) (of_int (w m))) ?ms))
        (of_int (sum_list (map w ?ms)))"
    by (auto simp: observed_score_def Let_def)
  then show "0 \<le> observed_score (component_score log1p entities) metrics w e"
    "observed_score (component_score log1p entities) metrics w e \<le> 100 + 1 / 1000"
    using observed_score_bounds [OF c w len] by auto
qed

lemma component_rounding:
  assumes "0 \<le> c" and "c \<le> 100"
  shows "0 \<le> round_half_even (fmul c 100) \<and> round_half_even (fmul c 100) \<le> 10000"
  using assms by (intro rounded_score_bounds) simp_all

lemma rounded_components_ok:
  assumes "e \<in> set entities" and "length entities < 2 ^ 40"
    and "rounded_components (component_score log1p entities) e m = Some c"
  shows "0 \<le> c \<and> c \<le> 10000"
  using assms(3) component_rounding component_score_bounds [OF assms(1) _ assms(2)]
  by (auto simp: rounded_components_def)

lemma share_bounds:
  assumes "length ms \<le> length metrics" and "metrics \<noteq> []" and "length metrics \<le> 8"
  shows "0 \<le> fdiv (of_nat (length ms)) (of_nat (length metrics))"
    and "fdiv (of_nat (length ms)) (of_nat (length metrics)) \<le> 1"
    and "0 \<le> round_half_even (fdiv (of_nat (length ms) * 10000) (of_nat (length metrics)))"
    and "round_half_even (fdiv (of_nat (length ms) * 10000) (of_nat (length metrics))) \<le> 10000"
proof -
  have pos: "(0::rat) < of_nat (length metrics)" using assms(2) by simp
  have le: "(of_nat (length ms) :: rat) \<le> of_nat (length metrics)" using assms(1) by (rule of_nat_mono)
  show "0 \<le> fdiv (of_nat (length ms)) (of_nat (length metrics))"
    "fdiv (of_nat (length ms)) (of_nat (length metrics)) \<le> 1"
    using double.fl_unit [of "of_nat (length ms) / of_nat (length metrics)"] pos le by simp_all
  have "of_int 0 \<le> fdiv (of_nat (length ms) * 10000) (of_nat (length metrics)) \<and>
      fdiv (of_nat (length ms) * 10000) (of_nat (length metrics)) \<le> of_int 10000"
    using pos le by (intro double.fl_bounds) (simp_all add: pos_divide_le_eq)
  then have "round_half_even (of_int 0) \<le>
      round_half_even (fdiv (of_nat (length ms) * 10000) (of_nat (length metrics)))"
    "round_half_even (fdiv (of_nat (length ms) * 10000) (of_nat (length metrics))) \<le>
      round_half_even (of_int 10000)"
    by (blast intro: round_half_even_mono)+
  then show "0 \<le> round_half_even (fdiv (of_nat (length ms) * 10000) (of_nat (length metrics)))"
    "round_half_even (fdiv (of_nat (length ms) * 10000) (of_nat (length metrics))) \<le> 10000"
    by (simp_all only: round_half_even_int)
qed

lemma length_available: "length (available_metrics metrics w e) \<le> length metrics"
  by (simp add: available_metrics_def)

lemma rating_row_of_ok:
  assumes n: "distinct metrics" "length metrics \<le> 8" "list_all (\<lambda>m. 0 \<le> values m) metrics"
      "normalized_basis_points name metrics values = Inr w" and ne: "metrics \<noteq> []"
    and e: "e \<in> set entities" "length entities < 2 ^ 40"
  shows "rating_row_ok (rating_row_of (component_score log1p entities) metrics w e)"
  unfolding rating_row_ok_def rating_row_of_def Let_def rating_row.simps
  using rounded_score_bounds [OF entity_score_bounds [OF n e]] rounded_components_ok [OF e]
    share_bounds(3,4) [OF length_available ne n(2)] by blast

lemma author_rating_row_of_ok:
  assumes n: "distinct metrics" "length metrics \<le> 8" "list_all (\<lambda>m. 0 \<le> values m) metrics"
      "normalized_basis_points name metrics values = Inr w" and ne: "metrics \<noteq> []"
    and e: "e \<in> set entities" "length entities < 2 ^ 40"
  shows "rating_row_ok (author_rating_row_of (component_score log1p entities) metrics w e)"
proof -
  let ?s = "observed_score (component_score log1p entities) metrics w e"
  let ?c = "fdiv (of_nat (length (available_metrics metrics w e))) (of_nat (length metrics))"
  note s = entity_score_bounds [OF n e, of log1p] and c = share_bounds(1,2) [OF length_available ne n(2), of w e]
  have "?s * ?c \<le> (100 + 1 / 1000) * 1" using s c by (intro mult_mono) simp_all
  then have "fmul ?s ?c \<le> fmul ?s ?c \<and> fmul ?s ?c \<le> double (100 + 1 / 1000)" by (simp add: double_mono)
  moreover have "double (100 + 1 / 1000) \<le> (100 + 1 / 1000) * (1 + 1 / 2 ^ 53)"
    using double_error [of "100 + 1 / 1000"] unfolding near_iff by simp
  moreover have "0 \<le> fmul ?s ?c" using s c by (intro double_nonneg) simp
  ultimately have r: "0 \<le> round_half_even (fmul (fmul ?s ?c) 100)" "round_half_even (fmul (fmul ?s ?c) 100) \<le> 10000"
    using rounded_author_score [of "fmul ?s ?c"] by simp_all
  have "of_int 0 \<le> fmul ?c 10000 \<and> fmul ?c 10000 \<le> of_int 10000"
    using c by (intro double.fl_bounds) simp_all
  then have "round_half_even (of_int 0) \<le> round_half_even (fmul ?c 10000)"
    "round_half_even (fmul ?c 10000) \<le> round_half_even (of_int 10000)"
    by (blast intro: round_half_even_mono)+
  then have "0 \<le> round_half_even (fmul ?c 10000)" "round_half_even (fmul ?c 10000) \<le> 10000"
    by (simp_all only: round_half_even_int)
  with r show ?thesis
    unfolding rating_row_ok_def author_rating_row_of_def Let_def rating_row.simps author_rating_row.simps
    using rounded_components_ok [OF e] by blast
qed

text \<open>A weight counts when it is positive; no other value makes the weights valid.\<close>

lemma given_weight_nonneg: "0 \<le> given_weight weights m"
  by (simp add: given_weight_def)

lemma given_weight_pos: "0 < given_weight weights m \<longleftrightarrow> (\<exists>w. weights m = Some w \<and> 0 < w)"
proof -
  have "1 \<le> to_float w" if "1 \<le> w" for w
  proof -
    have "(1::rat) \<le> of_int w" using that by simp
    from double_mono [OF this] show ?thesis using double.fl_1 by simp
  qed
  moreover have "to_float w \<le> 0" if "w \<le> 0" for w
  proof -
    have "of_int w \<le> (0::rat)" using that by simp
    from double_mono [OF this] show ?thesis by simp
  qed
  ultimately have sign: "0 < to_float w \<longleftrightarrow> 0 < w" for w
  proof (cases "1 \<le> w")
    case True
    then have "1 \<le> to_float w" using \<open>\<And>w. 1 \<le> w \<Longrightarrow> 1 \<le> to_float w\<close> by simp
    then show ?thesis using True by simp
  next
    case False
    then have "to_float w \<le> 0" using \<open>\<And>w. w \<le> 0 \<Longrightarrow> to_float w \<le> 0\<close> by simp
    then show ?thesis using False by simp
  qed
  show ?thesis
    by (cases "weights m") (simp_all add: given_weight_def less_max_iff_disj sign)
qed

lemma weights_accepted:
  assumes "length metrics \<le> 8"
  shows "is_ok (normalized_basis_points name metrics (given_weight weights)) \<longleftrightarrow>
    (\<exists>m \<in> set metrics. \<exists>w. weights m = Some w \<and> 0 < w)"
proof -
  have l: "list_all (\<lambda>x. 0 \<le> x) (map (given_weight weights) metrics)"
    by (simp add: list_all_iff given_weight_nonneg)
  have "sum_list (map (given_weight weights) metrics) = 0 \<longleftrightarrow>
      (\<forall>x \<in> set (map (given_weight weights) metrics). x = 0)"
    by (rule sum_list_nonneg_eq_0_iff) (auto simp: given_weight_nonneg)
  then have "sum_list (map (given_weight weights) metrics) = 0 \<longleftrightarrow> (\<forall>m \<in> set metrics. \<not> 0 < given_weight weights m)"
    using given_weight_nonneg [of weights] by (auto simp: order_less_le)
  then show ?thesis
    using py_sum_nonneg(2) [OF l] assms by (auto simp: normalized_basis_points_def is_ok_def Let_def given_weight_pos)
qed

definition rating_list_ok :: "'m rating_entity list \<Rightarrow> ('m, 'x) rating_row_scheme list \<Rightarrow> bool" where
  "rating_list_ok es rows \<longleftrightarrow>
     image_mset (\<lambda>r. (rw_id r, rw_title r)) (mset rows) = image_mset (\<lambda>e. (re_id e, re_title e)) (mset es) \<and>
     sorted (map (\<lambda>r. (- rw_score r, rw_id r)) rows) \<and> list_all rating_row_ok rows"

lemma ranked_rows_ok:
  fixes f :: "'m rating_entity \<Rightarrow> ('m, 'x) rating_row_scheme"
  assumes "\<And>e. e \<in> set es \<Longrightarrow> rating_row_ok (f e)" and "\<And>e. rw_id (f e) = re_id e \<and> rw_title (f e) = re_title e"
  shows "rating_list_ok es (ranked (map f es))"
  using assms unfolding rating_list_ok_def ranked_def
  by (simp add: image_mset.compositionality o_def list_all_iff)

lemma metric_lists: "distinct rating_metrics" "length rating_metrics \<le> 8" "rating_metrics \<noteq> []"
  "distinct profile_metrics" "length profile_metrics \<le> 8" "profile_metrics \<noteq> []"
  "m \<in> set rating_metrics" "a \<in> set profile_metrics"
  by (simp_all add: rating_metrics_def profile_metrics_def) (cases m; cases a; simp)+

lemma normalized_refusal: "normalized_basis_points name metrics values = Inl e \<Longrightarrow> e = ValueError"
  by (auto simp: normalized_basis_points_def Let_def split: if_splits)

text \<open>
  C22: Ratings are bounded and ranked.  The scoring of works and of author profiles returns exactly when
  some metric is given a positive weight and no value of the cohort, weighted or not, is at or below -1,
  where \<open>math.log1p\<close> raises; otherwise it raises a \<open>ValueError\<close>.  A result lists every entity once, by
  falling score and then by identifier; although every step is rounded, each score, coverage and
  component lies between 0 and 10000 basis points, and the grade is that of the score.
\<close>

theorem ratings_are_bounded_and_ranked:
  assumes "length works < 2 ^ 40" and "length profiles < 2 ^ 40"
  shows "(case score_entities log1p works weights of
       Inl e \<Rightarrow> e = ValueError \<and> ((\<nexists>m w. weights m = Some w \<and> 0 < w) \<or> (\<exists>m. \<not> log_defined works m))
     | Inr rows \<Rightarrow> (\<exists>m w. weights m = Some w \<and> 0 < w) \<and> (\<forall>m. log_defined works m) \<and> rating_list_ok works rows) \<and>
    (case score_author_profile_entities log1p profiles author_weights of
       Inl e \<Rightarrow> e = ValueError \<and>
         ((\<nexists>m w. author_weights m = Some w \<and> 0 < w) \<or> (\<exists>m. \<not> log_defined profiles m))
     | Inr rows \<Rightarrow> (\<exists>m w. author_weights m = Some w \<and> 0 < w) \<and> (\<forall>m. log_defined profiles m) \<and>
         rating_list_ok profiles rows)"
proof -
  have nonneg: "list_all (\<lambda>m. 0 \<le> given_weight weights m) rating_metrics"
    "list_all (\<lambda>m. 0 \<le> given_weight author_weights m) profile_metrics"
    by (simp_all add: list_all_iff given_weight_nonneg)
  have "case score_entities log1p works weights of
       Inl e \<Rightarrow> e = ValueError \<and> ((\<nexists>m w. weights m = Some w \<and> 0 < w) \<or> (\<exists>m. \<not> log_defined works m))
     | Inr rows \<Rightarrow> (\<exists>m w. weights m = Some w \<and> 0 < w) \<and> (\<forall>m. log_defined works m) \<and> rating_list_ok works rows"
  proof (cases "normalized_basis_points rating_metric_name rating_metrics (given_weight weights)")
    case (Inl e)
    then show ?thesis
      using weights_accepted [OF metric_lists(2), of rating_metric_name weights] normalized_refusal [OF Inl] metric_lists(7)
      by (auto simp: score_entities_def is_ok_def)
  next
    case (Inr w)
    have "rating_list_ok works (ranked (map (rating_row_of (component_score log1p works) rating_metrics w) works))"
      by (rule ranked_rows_ok)
        (simp_all add: rating_row_of_ok [OF metric_lists(1,2) nonneg(1) Inr metric_lists(3) _ assms(1)],
          simp_all add: rating_row_of_def Let_def)
    then show ?thesis
      using Inr weights_accepted [OF metric_lists(2), of rating_metric_name weights] metric_lists(7)
      by (auto simp: score_entities_def is_ok_def component_scores_eq component_of_scores [OF metric_lists(7)])
  qed
  moreover have "case score_author_profile_entities log1p profiles author_weights of
       Inl e \<Rightarrow> e = ValueError \<and> ((\<nexists>m w. author_weights m = Some w \<and> 0 < w) \<or> (\<exists>m. \<not> log_defined profiles m))
     | Inr rows \<Rightarrow> (\<exists>m w. author_weights m = Some w \<and> 0 < w) \<and> (\<forall>m. log_defined profiles m) \<and> rating_list_ok profiles rows"
  proof (cases "normalized_basis_points profile_metric_name profile_metrics (given_weight author_weights)")
    case (Inl e)
    then show ?thesis
      using weights_accepted [OF metric_lists(5), of profile_metric_name author_weights] normalized_refusal [OF Inl] metric_lists(8)
      by (auto simp: score_author_profile_entities_def is_ok_def)
  next
    case (Inr w)
    have "rating_list_ok profiles (ranked (map (author_rating_row_of (component_score log1p profiles) profile_metrics w) profiles))"
      by (rule ranked_rows_ok)
        (simp_all add: author_rating_row_of_ok [OF metric_lists(4,5) nonneg(2) Inr metric_lists(6) _ assms(2)],
          simp_all add: author_rating_row_of_def Let_def)
    then show ?thesis
      using Inr weights_accepted [OF metric_lists(5), of profile_metric_name author_weights] metric_lists(8)
      by (auto simp: score_author_profile_entities_def is_ok_def component_scores_eq component_of_scores [OF metric_lists(8)])
  qed
  ultimately show ?thesis by blast
qed

definition sample_entities :: "rating_metric rating_entity list" where
  "sample_entities =
     [\<lparr>re_id = lit ''1'', re_title = lit ''a'', re_author = lit ''x'', re_values = (\<lambda>_. Some 5)\<rparr>,
      \<lparr>re_id = lit ''2'', re_title = lit ''b'', re_author = lit ''y'', re_values = (\<lambda>_. Some 7)\<rparr>]"

theorem ratings_are_bounded_and_ranked_witness:
  "\<exists>rows. score_entities (\<lambda>x. x) sample_entities (\<lambda>_. Some 1) = Inr rows \<and> length rows = 2 \<and>
     list_all rating_row_ok rows"
proof -
  have defined: "log_defined sample_entities m" for m
    by (simp add: log_defined_def metric_values_def dict_from_def sample_entities_def List.map_filter_simps lit_def)
  have n: "length sample_entities < 2 ^ 40" "length ([] :: profile_metric rating_entity list) < 2 ^ 40"
    by (simp_all add: sample_entities_def)
  show ?thesis
  proof (cases "score_entities (\<lambda>x. x) sample_entities (\<lambda>_. Some 1)")
    case (Inl e)
    then show ?thesis
      using ratings_are_bounded_and_ranked [OF n, where log1p = "\<lambda>x. x" and weights = "\<lambda>_. Some 1"] defined
      by auto
  next
    case (Inr rows)
    then have ok: "rating_list_ok sample_entities rows"
      using ratings_are_bounded_and_ranked [OF n, where log1p = "\<lambda>x. x" and weights = "\<lambda>_. Some 1"] by simp
    then have "size (image_mset (\<lambda>r. (rw_id r, rw_title r)) (mset rows)) =
        size (image_mset (\<lambda>e. (re_id e, re_title e)) (mset sample_entities))"
      by (simp only: rating_list_ok_def)
    then have "length rows = 2" by (simp add: sample_entities_def)
    then show ?thesis using Inr ok by (simp add: rating_list_ok_def)
  qed
qed

text \<open>The components keep the order of the values they compare.\<close>

lemma components_keep_order:
  assumes "\<And>x y. x \<le> y \<Longrightarrow> log1p x \<le> log1p y" and "(k, x) \<in> set values" and "(l, y) \<in> set values"
    and "x \<le> y" and "length values < 2 ^ 40"
  shows "percentile_score (sort (map snd (map (\<lambda>(k, v). (k, log1p v)) values))) (log1p x) \<le>
    percentile_score (sort (map snd (map (\<lambda>(k, v). (k, log1p v)) values))) (log1p y)"
proof (rule percentile_score_mono)
  show "log1p x \<in> set (sort (map snd (map (\<lambda>(k, v). (k, log1p v)) values)))"
    "log1p y \<in> set (sort (map snd (map (\<lambda>(k, v). (k, log1p v)) values)))"
    using assms(2,3) by force+
qed (use assms in simp_all)

end
