(* ===== verification/Spec2Isabelle.thy ===== *)
theory Spec2Isabelle
  imports Safety Coordinator Reconciler SessionLease Influence Cursor SchemaDiff TagSensitivity
    OneRequest LiveReadiness DataQuality ApiGate ImportJobs
    DetailApi ReadApi IngestRuns BrowserExport Ratings
begin

text \<open>
  A verification library for \<open>pixiv_yuri\<close>, a fail-closed metadata collector and its analytics
  (Python, under \<open>src/src/pixiv_yuri\<close>; the paths below are relative to it, and the text blocks
  of the theories write \<open>src/pixiv_yuri\<close> for the same directory).

  The program.  A human approval (G0) fixes scope, traffic and cost limits.  One live request per
  approval may ever be sent: the operator opens a runtime session, a launch review and a readiness
  check look at the durable state, a one-use confirmation and a one-use enablement are consumed, a
  permanent slot is claimed, a coordinator writes its intentions to a journal before and after the
  send, and a reconciler finishes what a crash left open.  Permits, budgets and circuit breakers
  are rows of a database.  Offline, responses are probed for their schema, compared, processed by
  a bounded pipeline, stored in an append-only ingest ledger, projected into a catalog, and
  analysed into rankings, ratings and associations.  Browser exports are sanitized before they
  enter the same ledger.  A read API pages through the catalog behind an authenticating proxy,
  with a rate limit per consumer and an access audit.

  The theories, with the file each models.
  \<^item> \<open>Prelude\<close>: Python text, exceptions, aware times, calendar dates, tables as lists; the
    locales \<open>invariant_machine\<close> and \<open>one_shot\<close>, which the components interpret.  \<open>Upsert\<close>: rows
    found by key, refreshed or appended, and their laws, shared by the stores.
  \<^item> \<open>G0\<close> (\<open>governance/g0.py\<close>): the approval with its validators.
  \<^item> \<open>Safety\<close> (\<open>acquisition/safety.py\<close>): the in-memory budget controller.
  \<^item> \<open>Store\<close> (\<open>acquisition/persistence_models.py\<close>): rows, constraints, transactions; \<open>FirstSlot\<close>
    (\<open>first_request_slot.py\<close>), \<open>Journal\<close> (\<open>live_execution_journal.py\<close>), \<open>PersistentSafety\<close>
    (\<open>persistent_safety.py\<close>): the three services over them, one function per method;
    \<open>Ledger\<close>, \<open>Database\<close> and \<open>SendOnce\<close>: their invariants and the properties C1 to C5 over any
    interleaving of service calls.  A call under its locks is one step; \<open>initialize\<close>, which locks
    nothing against insertions, and the authorizations that meet it also come overlapped, with the
    database they looked at (C4 says when such a call ends in an \<open>IntegrityError\<close>).
  \<^item> \<open>Coordinator\<close> (\<open>live_attempt_coordinator.py\<close>): one attempt against an environment that may
    change the database between any two transactions and between the last one and the send (C6, C7).  \<open>Reconciler\<close>
    (\<open>live_slot_reconciler.py\<close>, \<open>live_attempt_report.py\<close>): C8 to C10.
  \<^item> \<open>SessionLease\<close> (\<open>runtime_session_lease.py\<close>, \<open>operator_session.py\<close>), \<open>Enablement\<close>
    (\<open>governance/real_request_enablement.py\<close>), \<open>Confirmation\<close> (\<open>governance/first_request_gate.py\<close>),
    \<open>OneRequest\<close> (\<open>governance/one_request_executor.py\<close>): one-use objects (C11, C15).
  \<^item> \<open>Urls\<close> and \<open>LiveBinding\<close> (\<open>transport_contract.py\<close>, \<open>live_request_binding.py\<close>): the canonical
    identity of a request (C32, C33).  \<open>LaunchReview\<close> and \<open>LiveReadiness\<close>
    (\<open>governance/launch_review.py\<close>, \<open>governance/live_readiness.py\<close>, \<open>acquisition/auth.py\<close>): C37.
  \<^item> \<open>Pipeline\<close> (\<open>acquisition/pipeline.py\<close>, \<open>ingest/ordered_pipeline.py\<close>): C20, C21, for every
    schedule of the workers; the commit of the ordered run may be refused or go unacknowledged.
  \<^item> \<open>Utf8\<close>, \<open>Base64\<close>, \<open>Floats\<close>: encodings and binary64 rounding of the standard library;
    \<open>Cursor\<close> (\<open>api/cursor.py\<close>): C23.
  \<^item> \<open>Json\<close>, \<open>SchemaProbe\<close>, \<open>SchemaDiff\<close> (\<open>schema_probe\<close>): C25, C26, C28.
  \<^item> \<open>BrowserExport\<close> (\<open>acquisition/browser_export_import.py\<close>): reading, sanitizing and bundling
    exported records (C12).
  \<^item> \<open>IngestTables\<close> (\<open>ingest/models.py\<close>): the ledger tables.  \<open>Projection\<close> (\<open>analytics/models.py\<close>,
    \<open>analytics/projection.py\<close>): the catalog and what a projection run makes of it (C13, C14).
    \<open>Ingest\<close> (\<open>ingest/service.py\<close>): one ingest run, record by record; \<open>IngestRuns\<close>: runs over a
    consistent ledger, repeated and reported (C17, C34).
  \<^item> \<open>Influence\<close> (\<open>analytics/author_influence.py\<close>): C18, C19; \<open>TagAssociations\<close>, \<open>TagSensitivity\<close>
    (\<open>analytics/tag_associations.py\<close>, \<open>analytics/tag_sensitivity.py\<close>): C30, C31.
  \<^item> \<open>DataQuality\<close> (\<open>data_quality/models.py\<close>, \<open>data_quality/validation.py\<close>,
    \<open>acquisition/parsers\<close>): C38.
  \<^item> \<open>ConsumerLimits\<close> (\<open>api/operations.py\<close>) and \<open>DatabaseLimits\<close>
    (\<open>api/postgres_operations.py\<close>, \<open>api/persistence_models.py\<close>): C39, C40; the process-local limiter
    is called a fixed window and is a sliding one (C39), the database's is a fixed one.  \<open>ProxyAuth\<close>
    (\<open>api/auth.py\<close>): C29.  \<open>ApiGate\<close> (the middleware of \<open>api/app.py\<close>) composes them: C16.
  \<^item> \<open>Keyset\<close>: the pages of a list read by key, a locale that the routes interpret.  \<open>CatalogApi\<close>
    (\<open>api/catalog_api.py\<close>): the catalog routes, filters and ordering (C27).  \<open>DetailApi\<close>
    (\<open>api/detail_api.py\<close>): details, rankings and their cursors (C35).  \<open>ReadApi\<close>
    (\<open>api/read_api.py\<close>, \<open>api/operations_read_api.py\<close>): the routes over the ledger and run tables.
  \<^item> \<open>Snapshots\<close> (\<open>jjwxc/models.py\<close>, \<open>jjwxc/snapshot_store.py\<close>, \<open>jjwxc/persistence.py\<close>): C36;
    \<open>ClickImport\<close> (\<open>jjwxc/author_v_import.py\<close>) writes to it for the queue of \<open>ImportJobs\<close>
    (\<open>jjwxc/author_v_jobs.py\<close>): C24, with the unlocked reads of a requeue and a retry apart from
    their writes.  \<open>NovelStats\<close> (\<open>jjwxc/analytics.py\<close>): distributions and
    correlations over the snapshots; \<open>Ratings\<close> (\<open>jjwxc/ratings.py\<close>): the ratings
    of works, tags and authors, on binary64 roundings, with \<open>log1p\<close> raising at -1 and below (C22).

  Conventions.  A string is its list of code points, a \<open>datetime\<close> its wall reading and offset, an
  instant a count of microseconds.  An operation returns the sum of an exception and a result,
  with the new state; a method under a lock is one step.  A transaction commits or leaves the
  database alone.  Instants are unbounded: the \<open>OverflowError\<close> that \<open>astimezone\<close> or the addition of a
  \<open>timedelta\<close> raises within a day of the years 1 and 9999 is left out of \<open>aware_utc\<close> and of the
  services' time arithmetic.  Python integers are \<open>int\<close>; a float operation is the exact rational result
  rounded by \<open>double\<close>.  All recursion is structural or has a measure, so no fuel is used and
  every modelled operation terminates.

  Parameters.  SHA-256 and HMAC, the approval fingerprint, \<open>json.loads\<close>, \<open>fromisoformat\<close>, the reading
  of a model from JSON by pydantic, \<open>log2\<close>, \<open>log1p\<close>, the square root, Unicode normalization, random
  values, the clock, the provider, the network send and the thread schedule are arguments, and so
  are \<open>ILIKE\<close>, the division and the order of text of the database server; what a theorem needs of
  them is a hypothesis of the theorem.

  What the groups of lemmas show.  Each one-use object interprets \<open>one_shot\<close>, so at most one of
  any sequence of calls succeeds.  Each service operation keeps the ledger invariant and implies
  the database constraints.  Encoders have decoders that invert them.  Stores refine the history of
  what was written to them.  A paged list is read once and completely.  Analytics results equal
  their set-based specifications, in the order and with the truncation the code documents.

  Not modelled: network transports and third-party clients, HTML parsing, the web framework, the
  planning and locking of SQL, command lines, reports and logging, deployment evidence.  They are
  I/O or validation of documents.  The manifest lists every module with the reason.
\<close>

end
